(* ===== verification/K_Prelude.thy ===== *)
theory K_Prelude
  imports Main "HOL-Library.Word"
begin

unbundle bit_operations_syntax

text \<open>
  The prelude of the development: names for the C integer types, the outcome type of
  kernel code, the state monad in which every kernel operation is written, the loops the
  sources use, and a small calculus of Hoare triples over the monad.

  A kernel operation is a function of the kernel state and of a list of
  \<^emph>\<open>interferences\<close>. Kernel code of this system is never preempted: other tasks and
  interrupt handlers act on the shared state only while the running task sleeps. Each
  element of the list is what the rest of the system does during one such sleep, so an
  operation that sleeps consumes one element, and a task that sleeps when the list is
  empty is never woken (\<open>Asleep\<close>). No assumption is built into the list: a theorem
  that holds for every list holds whatever the other tasks and the hardware do.
\<close>

section \<open>C integer types\<close>

type_synonym u8 = "8 word"
type_synonym u16 = "16 word"
type_synonym u32 = "32 word"

text \<open>The usual conversion of a C truth value.\<close>

abbreviation of_flag :: "bool \<Rightarrow> u8" where
  "of_flag b \<equiv> (if b then 1 else 0)"

section \<open>Outcomes\<close>

text \<open>
  What running kernel code ends in: it returns (\<open>Ok\<close>), it stops the machine with a
  message (\<open>Panic\<close>, kernel/panic.c), it enters \<open>do_exit\<close> with a code and never
  returns to its caller (\<open>Exit\<close>), it is still asleep when the interferences are used up
  (\<open>Asleep\<close>), it dereferences a wild or NULL pointer or leaves an array (\<open>Fault\<close>),
  or it has used up the fuel of a loop that need not end (\<open>Loops\<close>).
\<close>

datatype ('a, 's) outcome =
    Ok 'a 's "('s \<Rightarrow> 's) list"
  | Panic string 's
  | Exit int 's "('s \<Rightarrow> 's) list"
  | Asleep 's
  | Fault 's
  | Loops 's

type_synonym ('a, 's) kern = "'s \<Rightarrow> ('s \<Rightarrow> 's) list \<Rightarrow> ('a, 's) outcome"

section \<open>The monad\<close>

definition ret :: "'a \<Rightarrow> ('a, 's) kern" where
  "ret v = (\<lambda>s es. Ok v s es)"

definition kbind :: "('a, 's) kern \<Rightarrow> ('a \<Rightarrow> ('b, 's) kern) \<Rightarrow> ('b, 's) kern" where
  "kbind m f = (\<lambda>s es. case m s es of
       Ok v s' es' \<Rightarrow> f v s' es'
     | Panic msg s' \<Rightarrow> Panic msg s'
     | Exit code s' es' \<Rightarrow> Exit code s' es'
     | Asleep s' \<Rightarrow> Asleep s'
     | Fault s' \<Rightarrow> Fault s'
     | Loops s' \<Rightarrow> Loops s')"

definition gets :: "('s \<Rightarrow> 'a) \<Rightarrow> ('a, 's) kern" where
  "gets g = (\<lambda>s es. Ok (g s) s es)"

definition modify :: "('s \<Rightarrow> 's) \<Rightarrow> (unit, 's) kern" where
  "modify f = (\<lambda>s es. Ok () (f s) es)"

definition kpanic :: "string \<Rightarrow> ('a, 's) kern" where
  "kpanic msg = (\<lambda>s es. Panic msg s)"

definition kexit :: "int \<Rightarrow> ('a, 's) kern" where
  "kexit code = (\<lambda>s es. Exit code s es)"

definition kfault :: "('a, 's) kern" where
  "kfault = (\<lambda>s es. Fault s)"

definition kloops :: "('a, 's) kern" where
  "kloops = (\<lambda>s es. Loops s)"

text \<open>Statements in sequence, a statement under a guard, and the three kinds of \<open>for\<close>
  loop: over a whole range, left early by \<open>break\<close> or \<open>return\<close> with a value, and with
  an accumulator.\<close>

abbreviation skip :: "(unit, 's) kern" where
  "skip \<equiv> ret ()"

definition kseq :: "(unit, 's) kern \<Rightarrow> ('b, 's) kern \<Rightarrow> ('b, 's) kern" where
  "kseq m n = kbind m (\<lambda>_. n)"

definition kwhen :: "bool \<Rightarrow> (unit, 's) kern \<Rightarrow> (unit, 's) kern" where
  "kwhen b m = (if b then m else skip)"

primrec kblock :: "(unit, 's) kern list \<Rightarrow> (unit, 's) kern" where
  "kblock [] = skip"
| "kblock (m # ms) = kseq m (kblock ms)"

primrec kfor :: "'i list \<Rightarrow> ('i \<Rightarrow> (unit, 's) kern) \<Rightarrow> (unit, 's) kern" where
  "kfor [] body = skip"
| "kfor (i # is) body = kseq (body i) (kfor is body)"

primrec kfind :: "'i list \<Rightarrow> ('i \<Rightarrow> ('r option, 's) kern) \<Rightarrow> ('r option, 's) kern" where
  "kfind [] body = ret None"
| "kfind (i # is) body =
     kbind (body i) (\<lambda>r. case r of Some v \<Rightarrow> ret (Some v) | None \<Rightarrow> kfind is body)"

primrec kfold :: "'i list \<Rightarrow> ('i \<Rightarrow> 'a \<Rightarrow> ('a, 's) kern) \<Rightarrow> 'a \<Rightarrow> ('a, 's) kern" where
  "kfold [] body a = ret a"
| "kfold (i # is) body a = kbind (body i a) (kfold is body)"

named_theorems kern_defs \<open>unfolding a monadic operation to its case distinctions\<close>
named_theorems wp \<open>rules that split a triple at the head of its program\<close>

lemmas kern_prims [kern_defs] =
  ret_def kbind_def gets_def modify_def kpanic_def kexit_def kfault_def kloops_def
  kseq_def kwhen_def

lemma kbind_ret [simp]: "kbind (ret v) f = f v"
  by (simp add: kern_defs)

lemma ret_kbind [simp]: "kbind m ret = m"
  by (rule ext)+ (simp add: kern_defs split: outcome.split)

lemma kbind_assoc: "kbind (kbind m f) g = kbind m (\<lambda>x. kbind (f x) g)"
  by (rule ext)+ (simp add: kern_defs split: outcome.split)

lemma kfor_append: "kfor (xs @ ys) body = kseq (kfor xs body) (kfor ys body)"
  by (induction xs) (simp_all add: kseq_def kbind_assoc)

section \<open>Hoare triples\<close>

text \<open>
  \<open>triple R P m Q\<close>: from a state with \<open>P\<close>, if every interference conforms the
  relation \<open>R\<close> and \<open>m\<close> returns \<open>v\<close>, then \<open>Q v\<close> holds of the state it
  returns in. \<open>quiet P m Q\<close> is total correctness without interference: from a state
  with \<open>P\<close>, \<open>m\<close> returns without sleeping, panicking, faulting or running out of
  fuel, and \<open>Q\<close> holds.
\<close>

definition conforms :: "('s \<Rightarrow> 's \<Rightarrow> bool) \<Rightarrow> ('s \<Rightarrow> 's) list \<Rightarrow> bool" where
  "conforms R es \<longleftrightarrow> (\<forall>f \<in> set es. \<forall>t. R t (f t))"

definition triple ::
  "('s \<Rightarrow> 's \<Rightarrow> bool) \<Rightarrow> ('s \<Rightarrow> bool) \<Rightarrow> ('a, 's) kern \<Rightarrow> ('a \<Rightarrow> 's \<Rightarrow> bool) \<Rightarrow> bool" where
  "triple R P m Q \<longleftrightarrow>
     (\<forall>s es v s' es'. P s \<longrightarrow> conforms R es \<longrightarrow> m s es = Ok v s' es' \<longrightarrow>
        Q v s' \<and> conforms R es')"

definition quiet :: "('s \<Rightarrow> bool) \<Rightarrow> ('a, 's) kern \<Rightarrow> ('a \<Rightarrow> 's \<Rightarrow> bool) \<Rightarrow> bool" where
  "quiet P m Q \<longleftrightarrow> (\<forall>s es. P s \<longrightarrow> (\<exists>v s'. m s es = Ok v s' es \<and> Q v s'))"

lemma tripleD:
  "triple R P m Q \<Longrightarrow> P s \<Longrightarrow> conforms R es \<Longrightarrow> m s es = Ok v s' es' \<Longrightarrow> Q v s' \<and> conforms R es'"
  unfolding triple_def by blast

lemma tripleI:
  assumes "\<And>s es v s' es'. P s \<Longrightarrow> conforms R es \<Longrightarrow> m s es = Ok v s' es' \<Longrightarrow> Q v s' \<and> conforms R es'"
  shows "triple R P m Q"
  unfolding triple_def using assms by blast

lemma kbind_Ok:
  "kbind m f s es = Ok v s' es' \<longleftrightarrow>
     (\<exists>w t fs. m s es = Ok w t fs \<and> f w t fs = Ok v s' es')"
  by (simp add: kbind_def split: outcome.split)

lemma kseq_Ok:
  "kseq m n s es = Ok v s' es' \<longleftrightarrow> (\<exists>t fs. m s es = Ok () t fs \<and> n t fs = Ok v s' es')"
  by (simp add: kseq_def kbind_Ok)

lemma prims_Ok:
  "ret w s es = Ok v s' es' \<longleftrightarrow> v = w \<and> s' = s \<and> es' = es"
  "gets g s es = Ok x s' es' \<longleftrightarrow> x = g s \<and> s' = s \<and> es' = es"
  "modify f s es = Ok u s' es' \<longleftrightarrow> s' = f s \<and> es' = es"
  by (auto simp: ret_def gets_def modify_def)

text \<open>Taking a run apart into the runs of its statements.\<close>

lemmas run_simps = kbind_Ok kseq_Ok prims_Ok

lemma quietD: "quiet P m Q \<Longrightarrow> P s \<Longrightarrow> \<exists>v s'. m s es = Ok v s' es \<and> Q v s'"
  by (auto simp: quiet_def)

lemma triple_weaken:
  assumes "triple R P' m Q'"
    and "\<And>s. P s \<Longrightarrow> P' s"
    and "\<And>v s. Q' v s \<Longrightarrow> Q v s"
  shows "triple R P m Q"
  using assms unfolding triple_def by blast

lemma triple_pre: "triple R P' m Q \<Longrightarrow> (\<And>s. P s \<Longrightarrow> P' s) \<Longrightarrow> triple R P m Q"
  by (rule triple_weaken)

lemma triple_kbind [wp]:
  assumes "\<And>v. triple R (B v) (f v) Q" and "triple R P m B"
  shows "triple R P (kbind m f) Q"
  by (rule tripleI) (use assms in \<open>auto simp: kbind_Ok dest!: tripleD\<close>)

lemma triple_kseq [wp]:
  assumes "triple R B n Q" and "triple R P m (\<lambda>_. B)"
  shows "triple R P (kseq m n) Q"
  using assms by (auto simp: kseq_def intro: triple_kbind [where B = "\<lambda>_. B"])

lemma triple_ret [wp]: "triple R (Q v) (ret v) Q"
  by (simp add: triple_def ret_def)

lemma triple_gets [wp]: "triple R (\<lambda>s. Q (g s) s) (gets g) Q"
  by (simp add: triple_def gets_def)

lemma triple_modify [wp]: "triple R (\<lambda>s. Q () (f s)) (modify f) Q"
  by (simp add: triple_def modify_def)

lemma triple_kpanic [wp]: "triple R (\<lambda>_. True) (kpanic msg) Q"
  by (simp add: triple_def kpanic_def)

lemma triple_kexit [wp]: "triple R (\<lambda>_. True) (kexit code) Q"
  by (simp add: triple_def kexit_def)

lemma triple_kfault [wp]: "triple R (\<lambda>_. True) kfault Q"
  by (simp add: triple_def kfault_def)

lemma triple_kloops [wp]: "triple R (\<lambda>_. True) kloops Q"
  by (simp add: triple_def kloops_def)

lemma triple_if [wp]:
  assumes "b \<Longrightarrow> triple R P m Q" and "\<not> b \<Longrightarrow> triple R P' n Q"
  shows "triple R (\<lambda>s. (b \<longrightarrow> P s) \<and> (\<not> b \<longrightarrow> P' s)) (if b then m else n) Q"
  using assms by (auto simp: triple_def)

lemma triple_kwhen [wp]:
  assumes "b \<Longrightarrow> triple R P m Q"
  shows "triple R (\<lambda>s. (b \<longrightarrow> P s) \<and> (\<not> b \<longrightarrow> Q () s)) (kwhen b m) Q"
  using assms by (auto simp: triple_def kwhen_def ret_def)

lemma triple_option [wp]:
  assumes "x = None \<Longrightarrow> triple R P m Q" and "\<And>y. x = Some y \<Longrightarrow> triple R (P' y) (n y) Q"
  shows "triple R (\<lambda>s. (x = None \<longrightarrow> P s) \<and> (\<forall>y. x = Some y \<longrightarrow> P' y s))
           (case x of None \<Rightarrow> m | Some y \<Rightarrow> n y) Q"
  using assms by (cases x) (auto simp: triple_def)

text \<open>An invariant of every pass of a loop is an invariant of the loop.\<close>

lemma triple_kfor:
  assumes "\<And>i. i \<in> set is \<Longrightarrow> triple R I (body i) (\<lambda>_. I)"
  shows "triple R I (kfor is body) (\<lambda>_. I)"
  using assms
proof (induction "is")
  case Nil
  then show ?case by (simp add: triple_def ret_def)
next
  case (Cons i "is")
  then show ?case by (auto intro!: triple_kseq [where B = I])
qed

lemma triple_kblock:
  assumes "\<And>m. m \<in> set ms \<Longrightarrow> triple R I m (\<lambda>_. I)"
  shows "triple R I (kblock ms) (\<lambda>_. I)"
  using assms
proof (induction ms)
  case Nil
  then show ?case by (simp add: triple_def ret_def)
next
  case (Cons m ms)
  then show ?case by (auto intro!: triple_kseq [where B = I])
qed

lemma triple_kfind:
  assumes "\<And>i. i \<in> set is \<Longrightarrow>
      triple R I (body i) (\<lambda>r s. case r of None \<Rightarrow> I s | Some v \<Rightarrow> Q (Some v) s)"
    and "\<And>s. I s \<Longrightarrow> Q None s"
  shows "triple R I (kfind is body) Q"
  using assms(1)
proof (induction "is")
  case Nil
  with assms(2) show ?case by (auto simp: triple_def ret_def)
next
  case (Cons i "is")
  have tail: "triple R I (kfind is body) Q" by (rule Cons.IH) (simp add: Cons.prems)
  show ?case
    unfolding kfind.simps
  proof (rule triple_kbind [where B = "\<lambda>r s. case r of None \<Rightarrow> I s | Some v \<Rightarrow> Q (Some v) s"])
    fix r
    show "triple R (\<lambda>s. case r of None \<Rightarrow> I s | Some v \<Rightarrow> Q (Some v) s)
            (case r of None \<Rightarrow> kfind is body | Some v \<Rightarrow> ret (Some v)) Q"
      using tail by (cases r) (auto simp: triple_def ret_def)
  next
    show "triple R I (body i) (\<lambda>r s. case r of None \<Rightarrow> I s | Some v \<Rightarrow> Q (Some v) s)"
      by (rule Cons.prems) simp
  qed
qed

text \<open>Total correctness without interference composes in the same way.\<close>

lemma quiet_kbind:
  assumes "quiet P m B" and "\<And>v. quiet (B v) (f v) Q"
  shows "quiet P (kbind m f) Q"
  unfolding quiet_def
proof (intro allI impI)
  fix s es
  assume "P s"
  with assms(1) obtain v s' where m: "m s es = Ok v s' es" and "B v s'"
    by (blast dest: quietD)
  from quietD [OF assms(2) this(2)] obtain w t where "f v s' es = Ok w t es" and "Q w t"
    by blast
  with m show "\<exists>v s'. kbind m f s es = Ok v s' es \<and> Q v s'" by (simp add: kbind_def)
qed

lemma quiet_kseq:
  assumes "quiet P m (\<lambda>_. B)" and "quiet B n Q"
  shows "quiet P (kseq m n) Q"
  using assms unfolding kseq_def by (rule quiet_kbind)

lemma quiet_weaken:
  assumes "quiet P' m Q'" and "\<And>s. P s \<Longrightarrow> P' s" and "\<And>v s. Q' v s \<Longrightarrow> Q v s"
  shows "quiet P m Q"
  using assms by (fastforce simp: quiet_def)

lemma quiet_kfor:
  assumes "\<And>i. i \<in> set is \<Longrightarrow> quiet I (body i) (\<lambda>_. I)"
  shows "quiet I (kfor is body) (\<lambda>_. I)"
  using assms
proof (induction "is")
  case Nil
  then show ?case by (simp add: quiet_def ret_def)
next
  case (Cons i "is")
  then show ?case by (auto intro!: quiet_kseq [where B = I])
qed

section \<open>Invariants of kernel code\<close>

text \<open>\<open>keeps R I m\<close>: while the rest of the system conforms to \<open>R\<close>, \<open>m\<close> keeps \<open>I\<close>. The rules
  follow the program text, so that \<open>intro keeps\<close> leaves the single updates.\<close>

definition keeps :: "('s \<Rightarrow> 's \<Rightarrow> bool) \<Rightarrow> ('s \<Rightarrow> bool) \<Rightarrow> ('a, 's) kern \<Rightarrow> bool" where
  "keeps R I m \<longleftrightarrow> triple R I m (\<lambda>_. I)"

named_theorems keeps \<open>introduction rules for kept invariants\<close>

lemma keepsD: "keeps R I m \<Longrightarrow> I s \<Longrightarrow> conforms R es \<Longrightarrow> m s es = Ok v s' es' \<Longrightarrow> I s' \<and> conforms R es'"
  unfolding keeps_def by (rule tripleD)

lemma keeps_kbind [keeps]: "keeps R I m \<Longrightarrow> (\<And>v. keeps R I (f v)) \<Longrightarrow> keeps R I (kbind m f)"
  unfolding keeps_def by (rule triple_kbind [where B = "\<lambda>_. I"])

lemma keeps_kseq [keeps]: "keeps R I m \<Longrightarrow> keeps R I n \<Longrightarrow> keeps R I (kseq m n)"
  unfolding kseq_def by (rule keeps_kbind)

lemma keeps_prims [keeps]:
  "keeps R I (ret v)" "keeps R I (gets g)" "keeps R I (kpanic msg)" "keeps R I (kexit code)"
  "keeps R I kfault" "keeps R I kloops"
  by (simp_all add: keeps_def triple_def kern_defs)

lemma keeps_modify [keeps]: "(\<And>s. I s \<Longrightarrow> I (f s)) \<Longrightarrow> keeps R I (modify f)"
  by (simp add: keeps_def triple_def kern_defs)

lemma keeps_if [keeps]: "(b \<Longrightarrow> keeps R I m) \<Longrightarrow> (\<not> b \<Longrightarrow> keeps R I n) \<Longrightarrow> keeps R I (if b then m else n)"
  by simp

lemma keeps_kwhen [keeps]: "(b \<Longrightarrow> keeps R I m) \<Longrightarrow> keeps R I (kwhen b m)"
  by (simp add: kwhen_def keeps)

lemma keeps_option [keeps]:
  "(x = None \<Longrightarrow> keeps R I m) \<Longrightarrow> (\<And>y. x = Some y \<Longrightarrow> keeps R I (n y)) \<Longrightarrow>
   keeps R I (case x of None \<Rightarrow> m | Some y \<Rightarrow> n y)"
  by (cases x) simp_all

lemma keeps_prod [keeps]: "(\<And>a b. x = (a, b) \<Longrightarrow> keeps R I (f a b)) \<Longrightarrow> keeps R I (case x of (a, b) \<Rightarrow> f a b)"
  by (cases x) simp

lemma keeps_Let [keeps]: "(\<And>x. x = v \<Longrightarrow> keeps R I (f x)) \<Longrightarrow> keeps R I (let x = v in f x)"
  by simp

lemma keeps_kfor [keeps]: "(\<And>i. i \<in> set is \<Longrightarrow> keeps R I (body i)) \<Longrightarrow> keeps R I (kfor is body)"
  unfolding keeps_def by (rule triple_kfor)

lemma keeps_kfold [keeps]: "(\<And>i a. i \<in> set is \<Longrightarrow> keeps R I (body i a)) \<Longrightarrow> keeps R I (kfold is body a)"
proof (induction "is" arbitrary: a)
  case (Cons i "is")
  then show ?case by (auto intro!: keeps_kbind)
qed (simp add: keeps_prims)

lemma keeps_kfind [keeps]: "(\<And>i. i \<in> set is \<Longrightarrow> keeps R I (body i)) \<Longrightarrow> keeps R I (kfind is body)"
proof (induction "is")
  case (Cons i "is")
  then show ?case by (auto intro!: keeps_kbind keeps_prims split: option.split)
qed (simp add: keeps_prims)

lemma keeps_kblock [keeps]: "(\<And>m. m \<in> set ms \<Longrightarrow> keeps R I m) \<Longrightarrow> keeps R I (kblock ms)"
  unfolding keeps_def by (rule triple_kblock)

section \<open>Lists as C arrays\<close>

text \<open>\<open>upd_nth\<close> applies a function to one element in place, as \<open>a[i].f = v\<close> does.\<close>

definition upd_nth :: "nat \<Rightarrow> ('a \<Rightarrow> 'a) \<Rightarrow> 'a list \<Rightarrow> 'a list" where
  "upd_nth i f xs = xs[i := f (xs ! i)]"

lemma length_upd_nth [simp]: "length (upd_nth i f xs) = length xs"
  by (simp add: upd_nth_def)

lemma nth_upd_nth [simp]:
  "j < length xs \<Longrightarrow> upd_nth i f xs ! j = (if i = j then f (xs ! j) else xs ! j)"
  by (simp add: upd_nth_def nth_list_update)

lemma nth_upd_nth_eq: "i < length xs \<Longrightarrow> upd_nth i f xs ! i = f (xs ! i)"
  by simp

lemma nth_upd_nth_neq [simp]: "i \<noteq> j \<Longrightarrow> upd_nth i f xs ! j = xs ! j"
  by (simp add: upd_nth_def)

lemma upd_nth_twice [simp]: "upd_nth i f (upd_nth i g xs) = upd_nth i (f \<circ> g) xs"
  by (cases "i < length xs") (simp_all add: upd_nth_def list_update_beyond)

text \<open>The highest index below a bound with a property: the shape of every table scan
  that runs downwards.\<close>

fun scan_down :: "(nat \<Rightarrow> bool) \<Rightarrow> nat \<Rightarrow> nat option" where
  "scan_down p 0 = None"
| "scan_down p (Suc i) = (if p i then Some i else scan_down p i)"

lemma scan_down_None: "scan_down p n = None \<longleftrightarrow> (\<forall>i < n. \<not> p i)"
  by (induction n) (auto simp: less_Suc_eq)

lemma scan_down_Some:
  "scan_down p n = Some i \<longleftrightarrow> i < n \<and> p i \<and> (\<forall>j. i < j \<longrightarrow> j < n \<longrightarrow> \<not> p j)"
  by (induction n) (auto simp: less_Suc_eq)

text \<open>The lowest index with a property: the scans that run upwards.\<close>

definition scan_up :: "(nat \<Rightarrow> bool) \<Rightarrow> nat \<Rightarrow> nat option" where
  "scan_up p n = find p [0..<n]"

lemma scan_up_None: "scan_up p n = None \<longleftrightarrow> (\<forall>i < n. \<not> p i)"
  by (auto simp: scan_up_def find_None_iff)

lemma scan_up_Some:
  "scan_up p n = Some i \<longleftrightarrow> i < n \<and> p i \<and> (\<forall>j < i. \<not> p j)"
  unfolding scan_up_def find_Some_iff by (auto simp: nth_upt)

section \<open>Linked lists\<close>

text \<open>A table whose entries are linked by position: \<open>lseg nx p xs q\<close> says that following
  \<open>nx\<close> from \<open>p\<close> visits \<open>xs\<close> and arrives at \<open>q\<close>; \<open>bseg pv p xs\<close> that the
  back links of \<open>xs\<close> are right when \<open>p\<close> comes before its first element.\<close>

primrec lseg :: "(nat \<Rightarrow> nat option) \<Rightarrow> nat option \<Rightarrow> nat list \<Rightarrow> nat option \<Rightarrow> bool" where
  "lseg nx p [] q \<longleftrightarrow> p = q"
| "lseg nx p (i # is) q \<longleftrightarrow> p = Some i \<and> lseg nx (nx i) is q"

primrec bseg :: "(nat \<Rightarrow> nat option) \<Rightarrow> nat option \<Rightarrow> nat list \<Rightarrow> bool" where
  "bseg pv p [] \<longleftrightarrow> True"
| "bseg pv p (i # is) \<longleftrightarrow> pv i = p \<and> bseg pv (Some i) is"

lemma lseg_append [simp]: "lseg nx p (xs @ ys) q \<longleftrightarrow> (\<exists>r. lseg nx p xs r \<and> lseg nx r ys q)"
  by (induction xs arbitrary: p) auto

definition last_or :: "nat option \<Rightarrow> nat list \<Rightarrow> nat option" where
  "last_or p xs = (if xs = [] then p else Some (last xs))"

lemma last_or_simps [simp]: "last_or p [] = p" "last_or p (xs @ [x]) = Some x" "last_or p (x # xs) = last_or (Some x) xs"
  by (simp_all add: last_or_def)

lemma bseg_append [simp]: "bseg pv p (xs @ ys) \<longleftrightarrow> bseg pv p xs \<and> bseg pv (last_or p xs) ys"
  by (induction xs arbitrary: p) auto

lemma lseg_cong: "(\<And>i. i \<in> set xs \<Longrightarrow> nx i = nx' i) \<Longrightarrow> lseg nx p xs q = lseg nx' p xs q"
  by (induction xs arbitrary: p) auto

lemma bseg_cong: "(\<And>i. i \<in> set xs \<Longrightarrow> pv i = pv' i) \<Longrightarrow> bseg pv p xs = bseg pv' p xs"
  by (induction xs arbitrary: p) auto

lemma lseg_upd [simp]: "i \<notin> set xs \<Longrightarrow> lseg (nx(i := v)) p xs q = lseg nx p xs q"
  by (rule lseg_cong) auto

lemma bseg_upd [simp]: "i \<notin> set xs \<Longrightarrow> bseg (pv(i := v)) p xs = bseg pv p xs"
  by (rule bseg_cong) auto

lemma lseg_snoc: "p \<notin> set xs \<Longrightarrow> lseg nx h (xs @ [p]) q \<Longrightarrow> lseg (nx(p := r)) h (xs @ [p]) r"
  by (auto simp: lseg_upd)

text \<open>Taking an element out of a doubly linked list, the way the sources do it.\<close>

lemma unlink:
  assumes "lseg nx h (xs @ i # ys) q" and "bseg pv p0 (xs @ i # ys)" and "distinct (xs @ i # ys)"
    and nx': "nx' = (if xs = [] then nx else nx(last xs := nx i))"
    and pv': "pv' = (case ys of [] \<Rightarrow> pv | n # _ \<Rightarrow> pv(n := pv i))"
  shows "lseg nx' (if xs = [] then nx i else h) (xs @ ys) q" and "bseg pv' p0 (xs @ ys)"
proof -
  have tail: "lseg nx (nx i) ys q" and head: "lseg nx h xs (Some i)" using assms(1) by auto
  show "lseg nx' (if xs = [] then nx i else h) (xs @ ys) q"
  proof (cases xs rule: rev_cases)
    case Nil
    with tail nx' show ?thesis by simp
  next
    case (snoc zs z)
    then have nz: "nx' = nx(z := nx i)" using nx' by simp
    have "lseg nx' h xs (nx i)" unfolding nz snoc
      using head snoc assms(3) by (intro lseg_snoc) auto
    moreover have "lseg nx' (nx i) ys q" using tail assms(3) snoc nz by auto
    ultimately show ?thesis using snoc by auto
  qed
  have bi: "pv i = last_or p0 xs" "bseg pv p0 xs" "bseg pv (Some i) ys" using assms(2) by auto
  show "bseg pv' p0 (xs @ ys)"
  proof (cases ys)
    case Nil
    with bi pv' show ?thesis by simp
  next
    case (Cons n ns)
    with bi pv' assms(3) show ?thesis by auto
  qed
qed

lemma lseg_next: "lseg nx h (xs @ i # ys) q \<Longrightarrow> nx i = (case ys of [] \<Rightarrow> q | n # _ \<Rightarrow> Some n)"
  by (cases ys) auto

lemma bseg_prev: "bseg pv p0 (xs @ i # ys) \<Longrightarrow> pv i = last_or p0 xs"
  by simp

lemma lseg_head: "lseg nx h (xs @ i # ys) q \<Longrightarrow> distinct (xs @ i # ys) \<Longrightarrow> h = Some i \<longleftrightarrow> xs = []"
  by (cases xs) auto

section \<open>Arithmetic\<close>

lemma unat_u32_less: "unat (a :: u32) < 4294967296"
  using unsigned_less [of a, where ?'a = nat] by simp

lemma unat_of_nat_u32: "n < 2 ^ 32 \<Longrightarrow> unat (of_nat n :: u32) = n"
  by (simp add: unsigned_of_nat take_bit_nat_eq_self)

lemma sub_mult_div: "0 < m \<Longrightarrow> ((x :: nat) - c * m) div m = x div m - c"
proof (induction c)
  case (Suc c)
  have "(y - m) div m = y div m - 1" if "0 < m" for y :: nat
    using that by (cases "y < m") (auto simp: le_div_geq)
  from this [OF Suc.prems, of "x - c * m"] Suc show ?case by (simp add: diff_diff_left add.commute)
qed simp

text \<open>Storing a list of bytes one after the other, as every copy loop does.\<close>

lemma fold_store:
  assumes "length bs \<le> 2 ^ 32"
  shows "fold (\<lambda>i m. m((a :: u32) + of_nat i := bs ! i)) [0..<length bs] m =
    (\<lambda>x. if unat (x - a) < length bs then bs ! unat (x - a) else m x)"
proof -
  have "fold (\<lambda>i m. m(a + of_nat i := bs ! i)) [0..<n] m x =
    (if unat (x - a) < n then bs ! unat (x - a) else m x)" if "n \<le> length bs" for n x
    using that
  proof (induction n)
    case (Suc n)
    have "unat (of_nat n :: u32) = n" using Suc.prems assms by (simp add: unsigned_of_nat take_bit_nat_eq_self)
    then have "x - a = of_nat n \<longleftrightarrow> unat (x - a) = n" by (simp add: word_unat_eq_iff)
    moreover have "x = a + of_nat n \<longleftrightarrow> x - a = of_nat n" by (auto simp: algebra_simps)
    ultimately have "x = a + of_nat n \<longleftrightarrow> unat (x - a) = n" by simp
    then show ?case using Suc by (auto simp: less_Suc_eq)
  qed simp
  then show ?thesis by (simp add: fun_eq_iff)
qed

text \<open>The value a 32-bit signed C variable holds after an assignment of \<open>x\<close>.\<close>

definition s32 :: "int \<Rightarrow> int" where
  "s32 x = sint (word_of_int x :: u32)"

lemma s32_eq: "s32 x = (x + 2147483648) mod 4294967296 - 2147483648"
  by (simp add: s32_def sint_sbintrunc' signed_take_bit_eq_take_bit_shift take_bit_eq_mod)

lemma s32_id [simp]: "- 2147483648 \<le> x \<Longrightarrow> x < 2147483648 \<Longrightarrow> s32 x = x"
  by (simp add: s32_eq)

text \<open>C division and remainder of signed integers: the quotient is rounded towards zero.\<close>

definition cdiv :: "int \<Rightarrow> int \<Rightarrow> int" where
  "cdiv a b = sgn a * sgn b * (\<bar>a\<bar> div \<bar>b\<bar>)"

definition crem :: "int \<Rightarrow> int \<Rightarrow> int" where
  "crem a b = a - b * cdiv a b"

lemma cdiv_nonneg [simp]: "0 \<le> a \<Longrightarrow> 0 < b \<Longrightarrow> cdiv a b = a div b"
  by (cases "a = 0") (simp_all add: cdiv_def)

lemma crem_nonneg [simp]: "0 \<le> a \<Longrightarrow> 0 < b \<Longrightarrow> crem a b = a mod b"
  by (simp add: crem_def minus_mult_div_eq_mod)

end
