(* ===== verification/Memory.thy ===== *)
theory Memory
  imports K_Prelude
begin

unbundle bit_operations_syntax

text \<open>
  Physical memory and paging: \<^verbatim>\<open>mm/memory.c\<close>, all of it but the three routines that
  look at tasks and executables (\<open>try_to_share\<close>, \<open>share_page\<close>, \<open>do_no_page\<close>).

  Memory is a function from 4-byte aligned addresses to 32-bit cells. The page directory
  lies at address 0 (\<^verbatim>\<open>_pg_dir = 0\<close> in the sources), page tables lie in pages handed
  out by \<open>get_free_page\<close>, and the code reaches both by raw addresses, as here.
  \<open>mem_map\<close> holds one use count per 4 KiB page above 1 MiB, an unsigned char that wraps.
  \<open>cr3_loads\<close> counts the flushes of the translation cache (\<^verbatim>\<open>invalidate()\<close>), and
  \<open>klog\<close> collects what \<open>printk\<close> is given.
\<close>

section \<open>State\<close>

record mm_state =
  klog :: "(string \<times> int list) list"
  mem :: "u32 \<Rightarrow> u32"
  mem_map :: "u8 list"
  HIGH_MEMORY :: u32
  cr3_loads :: nat

definition LOW_MEM :: u32 where
  "LOW_MEM = 0x100000"

definition PAGING_PAGES :: nat where
  "PAGING_PAGES = 15 * 1024 * 1024 div 4096"

definition PAGE_SIZE :: nat where
  "PAGE_SIZE = 4096"

definition USED :: u8 where
  "USED = 100"

definition MAP_NR :: "u32 \<Rightarrow> nat" where
  "MAP_NR a = unat (drop_bit 12 (a - LOW_MEM))"

definition SIGSEGV :: int where
  "SIGSEGV = 11"

abbreviation page_frame :: "u32 \<Rightarrow> u32" where
  "page_frame e \<equiv> 0xfffff000 AND e"

definition printk :: "string \<Rightarrow> int list \<Rightarrow> (unit, 'z mm_state_scheme) kern" where
  "printk msg args = modify (\<lambda>s. s\<lparr>klog := klog s @ [(msg, args)]\<rparr>)"

definition oom :: "('a, 'z mm_state_scheme) kern" where
  "oom = kseq (printk ''out of memory'' []) (kexit SIGSEGV)"

definition invalidate :: "(unit, 'z mm_state_scheme) kern" where
  "invalidate = modify (\<lambda>s. s\<lparr>cr3_loads := Suc (cr3_loads s)\<rparr>)"

text \<open>A cell read, a cell write, and the two string moves of the page routines.\<close>

definition ld :: "u32 \<Rightarrow> (u32, 'z mm_state_scheme) kern" where
  "ld a = gets (\<lambda>s. mem s a)"

definition st :: "u32 \<Rightarrow> u32 \<Rightarrow> (unit, 'z mm_state_scheme) kern" where
  "st a v = modify (\<lambda>s. s\<lparr>mem := (mem s)(a := v)\<rparr>)"

definition in_page :: "u32 \<Rightarrow> u32 \<Rightarrow> bool" where
  "in_page p a \<longleftrightarrow> a - p < 4096"

definition clear_page :: "u32 \<Rightarrow> (u32 \<Rightarrow> u32) \<Rightarrow> (u32 \<Rightarrow> u32)" where
  "clear_page p m = (\<lambda>a. if in_page p a then 0 else m a)"

definition copy_page :: "u32 \<Rightarrow> u32 \<Rightarrow> (u32 \<Rightarrow> u32) \<Rightarrow> (u32 \<Rightarrow> u32)" where
  "copy_page from to m = (\<lambda>a. if in_page to a then m (from + (a - to)) else m a)"

text \<open>Reading and writing an entry of \<open>mem_map\<close>; leaving the array is a fault.\<close>

definition map_get :: "nat \<Rightarrow> (u8, 'z mm_state_scheme) kern" where
  "map_get i = kbind (gets mem_map) (\<lambda>m. if i < length m then ret (m ! i) else kfault)"

definition map_upd :: "nat \<Rightarrow> (u8 \<Rightarrow> u8) \<Rightarrow> (unit, 'z mm_state_scheme) kern" where
  "map_upd i f = kbind (gets mem_map) (\<lambda>m.
     if i < length m then modify (\<lambda>s. s\<lparr>mem_map := upd_nth i f (mem_map s)\<rparr>) else kfault)"

section \<open>Operations\<close>

text \<open>
  \<open>get_free_page\<close>: \<^verbatim>\<open>std; repne scasb\<close> looks for a zero count from the last entry
  of \<open>mem_map\<close> downwards; the page found is marked, zeroed and returned, and 0 says that
  there is none.
\<close>

definition get_free_page :: "(u32, 'z mm_state_scheme) kern" where
  "get_free_page = kbind (gets mem_map) (\<lambda>m.
     case scan_down (\<lambda>i. m ! i = 0) PAGING_PAGES of
       None \<Rightarrow> ret 0
     | Some i \<Rightarrow>
         (let page = push_bit 12 (of_nat i) + LOW_MEM in
          kseq (modify (\<lambda>s. s\<lparr>mem_map := (mem_map s)[i := 1]\<rparr>))
         (kseq (modify (\<lambda>s. s\<lparr>mem := clear_page page (mem s)\<rparr>))
               (ret page))))"

definition free_page :: "u32 \<Rightarrow> (unit, 'z mm_state_scheme) kern" where
  "free_page addr =
     (if addr < LOW_MEM then skip
      else kbind (gets HIGH_MEMORY) (\<lambda>high.
        if addr \<ge> high then kpanic ''trying to free nonexistent page''
        else let i = MAP_NR addr in
          kbind (map_get i) (\<lambda>c.
          kseq (map_upd i (\<lambda>c. c - 1))
          (if c \<noteq> 0 then skip
           else kseq (map_upd i (\<lambda>_. 0)) (kpanic ''trying to free free page'')))))"

text \<open>\<open>free_page_tables\<close>: the inner loop drops the 1024 entries of one page table, the
  outer one the page directory entries of the range.\<close>

fun free_ptes :: "nat \<Rightarrow> u32 \<Rightarrow> (unit, 'z mm_state_scheme) kern" where
  "free_ptes 0 pg_table = skip"
| "free_ptes (Suc nr) pg_table =
     kbind (ld pg_table) (\<lambda>e.
     kseq (kwhen (e AND 1 \<noteq> 0) (free_page (page_frame e)))
    (kseq (st pg_table 0)
          (free_ptes nr (pg_table + 4))))"

fun free_pdes :: "nat \<Rightarrow> u32 \<Rightarrow> (unit, 'z mm_state_scheme) kern" where
  "free_pdes 0 dir = skip"
| "free_pdes (Suc n) dir =
     kbind (ld dir) (\<lambda>e.
     if e AND 1 = 0 then free_pdes n (dir + 4)
     else kseq (free_ptes 1024 (page_frame e))
         (kbind (ld dir) (\<lambda>e'.
          kseq (free_page (page_frame e'))
         (kseq (st dir 0)
               (free_pdes n (dir + 4))))))"

definition free_page_tables :: "u32 \<Rightarrow> u32 \<Rightarrow> (int, 'z mm_state_scheme) kern" where
  "free_page_tables from sz =
     (if from AND 0x3fffff \<noteq> 0 then kpanic ''free_page_tables called with wrong alignment''
      else if from = 0 then kpanic ''Trying to free up swapper memory space''
      else kseq (free_pdes (unat (drop_bit 22 (sz + 0x3fffff))) (drop_bit 20 from AND 0xffc))
          (kseq invalidate (ret 0)))"

text \<open>\<open>copy_page_tables\<close>: the inner loop copies entries one by one, takes the write
  permission away on both sides and counts the new reference; pages of the low megabyte keep
  theirs in the source table and are not counted.\<close>

fun copy_ptes :: "nat \<Rightarrow> u32 \<Rightarrow> u32 \<Rightarrow> (unit, 'z mm_state_scheme) kern" where
  "copy_ptes 0 from_pt to_pt = skip"
| "copy_ptes (Suc nr) from_pt to_pt =
     kbind (ld from_pt) (\<lambda>e.
     kseq (if e AND 1 = 0 then skip
           else let this_page = e AND NOT 2 in
             kseq (st to_pt this_page)
             (kwhen (this_page > LOW_MEM)
               (kseq (st from_pt this_page)
                     (map_upd (MAP_NR this_page) (\<lambda>c. c + 1)))))
          (copy_ptes nr (from_pt + 4) (to_pt + 4)))"

fun copy_pdes :: "bool \<Rightarrow> nat \<Rightarrow> u32 \<Rightarrow> u32 \<Rightarrow> (int, 'z mm_state_scheme) kern" where
  "copy_pdes zero 0 from_dir to_dir = kseq invalidate (ret 0)"
| "copy_pdes zero (Suc n) from_dir to_dir =
     kbind (ld to_dir) (\<lambda>td.
     if td AND 1 \<noteq> 0 then kpanic ''copy_page_tables: already exist''
     else kbind (ld from_dir) (\<lambda>fd.
       if fd AND 1 = 0 then copy_pdes zero n (from_dir + 4) (to_dir + 4)
       else kbind get_free_page (\<lambda>to_pt.
         if to_pt = 0 then ret (- 1)
         else kseq (st to_dir (to_pt OR 7))
             (kseq (copy_ptes (if zero then 0xA0 else 1024) (page_frame fd) to_pt)
                   (copy_pdes zero n (from_dir + 4) (to_dir + 4))))))"

definition copy_page_tables :: "u32 \<Rightarrow> u32 \<Rightarrow> u32 \<Rightarrow> (int, 'z mm_state_scheme) kern" where
  "copy_page_tables from to sz =
     (if from AND 0x3fffff \<noteq> 0 \<or> to AND 0x3fffff \<noteq> 0
      then kpanic ''copy_page_tables called with wrong alignment''
      else copy_pdes (from = 0) (unat (drop_bit 22 (sz + 0x3fffff)))
             (drop_bit 20 from AND 0xffc) (drop_bit 20 to AND 0xffc))"

definition put_page :: "u32 \<Rightarrow> u32 \<Rightarrow> (u32, 'z mm_state_scheme) kern" where
  "put_page page address =
     kbind (gets HIGH_MEMORY) (\<lambda>high.
     kseq (kwhen (page < LOW_MEM \<or> page \<ge> high)
            (printk ''Trying to put page %p at %p'' [uint page, uint address]))
    (kbind (map_get (MAP_NR page)) (\<lambda>c.
     kseq (kwhen (c \<noteq> 1)
            (printk ''mem_map disagrees with %p at %p'' [uint page, uint address]))
    (let pde = drop_bit 20 address AND 0xffc;
         slot = (drop_bit 12 address AND 0x3ff) * 4 in
     kbind (ld pde) (\<lambda>e.
     if e AND 1 \<noteq> 0
     then kseq (st (page_frame e + slot) (page OR 7)) (ret page)
     else kbind get_free_page (\<lambda>tmp.
       if tmp = 0 then ret 0
       else kseq (st pde (tmp OR 7))
           (kseq (st (tmp + slot) (page OR 7)) (ret page))))))))"

definition un_wp_page :: "u32 \<Rightarrow> (unit, 'z mm_state_scheme) kern" where
  "un_wp_page table_entry =
     kbind (ld table_entry) (\<lambda>e.
     let old_page = page_frame e in
     kbind (if old_page \<ge> LOW_MEM
            then kbind (map_get (MAP_NR old_page)) (\<lambda>c. ret (c = 1)) else ret False)
       (\<lambda>sole.
     if sole then kseq (st table_entry (e OR 2)) invalidate
     else kbind get_free_page (\<lambda>new_page.
       if new_page = 0 then oom
       else kseq (kwhen (old_page \<ge> LOW_MEM) (map_upd (MAP_NR old_page) (\<lambda>c. c - 1)))
           (kseq (st table_entry (new_page OR 7))
           (kseq invalidate
                 (modify (\<lambda>s. s\<lparr>mem := copy_page old_page new_page (mem s)\<rparr>)))))))"

definition do_wp_page :: "u32 \<Rightarrow> u32 \<Rightarrow> (unit, 'z mm_state_scheme) kern" where
  "do_wp_page error_code address =
     kbind (ld (drop_bit 20 address AND 0xffc)) (\<lambda>pde.
     un_wp_page ((drop_bit 10 address AND 0xffc) + page_frame pde))"

definition write_verify :: "u32 \<Rightarrow> (unit, 'z mm_state_scheme) kern" where
  "write_verify address =
     kbind (ld (drop_bit 20 address AND 0xffc)) (\<lambda>page.
     if page AND 1 = 0 then skip
     else let pte = page_frame page + (drop_bit 10 address AND 0xffc) in
       kbind (ld pte) (\<lambda>e. kwhen (3 AND e = 1) (un_wp_page pte)))"

definition get_empty_page :: "u32 \<Rightarrow> (unit, 'z mm_state_scheme) kern" where
  "get_empty_page address =
     kbind get_free_page (\<lambda>tmp.
     if tmp = 0 then kseq (free_page tmp) oom
     else kbind (put_page tmp address) (\<lambda>r.
       if r = 0 then kseq (free_page tmp) oom else skip))"

definition mem_init :: "int \<Rightarrow> int \<Rightarrow> (unit, 'z mm_state_scheme) kern" where
  "mem_init start_mem end_mem =
     (let i = (start_mem - 0x100000) div 4096; n = nat ((end_mem - start_mem) div 4096) in
      kseq (modify (\<lambda>s. s\<lparr>HIGH_MEMORY := word_of_int end_mem\<rparr>))
     (kseq (modify (\<lambda>s. s\<lparr>mem_map := replicate PAGING_PAGES USED\<rparr>))
           (kfor [0..<n] (\<lambda>k.
              if i + int k < 0 then kfault else map_upd (nat (i + int k)) (\<lambda>_. 0)))))"

definition calc_mem :: "(unit, 'z mm_state_scheme) kern" where
  "calc_mem =
     kbind (gets mem_map) (\<lambda>m.
     kseq (printk ''%d pages free (of %d)''
             [int (length (filter (\<lambda>c. c = 0) (take PAGING_PAGES m))), int PAGING_PAGES])
     (kfor [2..<1024] (\<lambda>i.
       kbind (ld (of_nat (4 * i))) (\<lambda>pde.
       kwhen (pde AND 1 \<noteq> 0)
         (kbind (gets mem) (\<lambda>c.
          printk ''Pg-dir[%d] uses %d pages''
            [int i, int (length (filter (\<lambda>j. c (page_frame pde + of_nat (4 * j)) AND 1 \<noteq> 0)
               [0..<1024]))]))))))"


section \<open>Page addresses\<close>

text \<open>The physical address of the page with index \<open>i\<close> of \<open>mem_map\<close>.\<close>

definition page_addr :: "nat \<Rightarrow> u32" where
  "page_addr i = push_bit 12 (of_nat i) + LOW_MEM"

lemma unat_page_addr: "i < PAGING_PAGES \<Longrightarrow> unat (page_addr i) = 4096 * i + 0x100000"
proof -
  assume "i < PAGING_PAGES"
  then have i: "i < 3840" by (simp add: PAGING_PAGES_def)
  have "unat (of_nat i :: u32) = i" using i by (simp add: unat_of_nat)
  with i have "unat (of_nat i * 4096 :: u32) = 4096 * i"
    by (simp add: unat_word_ariths unat_of_nat)
  with i show ?thesis
    by (simp add: page_addr_def LOW_MEM_def push_bit_eq_mult unat_word_ariths)
qed

lemma page_addr_ge: "i < PAGING_PAGES \<Longrightarrow> \<not> page_addr i < LOW_MEM"
  by (simp add: word_less_nat_alt unat_page_addr LOW_MEM_def)

lemma page_addr_less: "i < PAGING_PAGES \<Longrightarrow> page_addr i < 0x1000000"
  by (simp add: word_less_nat_alt unat_page_addr PAGING_PAGES_def)

lemma page_addr_nonzero [simp]: "i < PAGING_PAGES \<Longrightarrow> page_addr i \<noteq> 0"
  using unat_page_addr [of i] by auto

lemma MAP_NR_page_addr [simp]:
  assumes "i < PAGING_PAGES" shows "MAP_NR (page_addr i) = i"
proof -
  have i: "i < 3840" using assms by (simp add: PAGING_PAGES_def)
  then have "unat (of_nat i * 4096 :: u32) = 4096 * i"
    by (simp add: unat_word_ariths unat_of_nat)
  then show ?thesis
    by (simp add: MAP_NR_def page_addr_def push_bit_eq_mult drop_bit_eq_div unat_div)
qed

lemma page_addr_inject [simp]:
  "i < PAGING_PAGES \<Longrightarrow> j < PAGING_PAGES \<Longrightarrow> page_addr i = page_addr j \<longleftrightarrow> i = j"
  by (metis MAP_NR_page_addr)

section \<open>Allocation and release of a page\<close>

lemma get_free_page_eq:
  "get_free_page s es =
     (case scan_down (\<lambda>i. mem_map s ! i = 0) PAGING_PAGES of
        None \<Rightarrow> Ok 0 s es
      | Some i \<Rightarrow> Ok (page_addr i)
          (s\<lparr>mem_map := (mem_map s)[i := 1], mem := clear_page (page_addr i) (mem s)\<rparr>) es)"
  by (simp add: get_free_page_def page_addr_def kern_defs Let_def split: option.split)

lemma free_page_eq:
  assumes "length (mem_map s) = PAGING_PAGES" and "HIGH_MEMORY s \<le> 0x1000000"
  shows "free_page a s es =
     (if a < LOW_MEM then Ok () s es
      else if a \<ge> HIGH_MEMORY s then Panic ''trying to free nonexistent page'' s
      else if mem_map s ! MAP_NR a = 0 then Panic ''trying to free free page'' s
      else Ok () (s\<lparr>mem_map := (mem_map s)[MAP_NR a := mem_map s ! MAP_NR a - 1]\<rparr>) es)"
proof (cases "a < LOW_MEM \<or> a \<ge> HIGH_MEMORY s")
  case True
  then show ?thesis by (auto simp: free_page_def kern_defs)
next
  case False
  then have "unat a < 0x1000000" and "0x100000 \<le> unat a"
    using assms(2) by (auto simp: word_less_nat_alt word_le_nat_alt LOW_MEM_def)
  then have i: "MAP_NR a < PAGING_PAGES"
    by (simp add: MAP_NR_def LOW_MEM_def PAGING_PAGES_def drop_bit_eq_div unat_div
        unat_sub_if' word_le_nat_alt)
  have upd: "mem_map s = (mem_map s)[MAP_NR a := 0]" if "mem_map s ! MAP_NR a = 0"
    using that by (metis list_update_id)
  show ?thesis
    using False i assms(1) upd
    by (auto simp: free_page_def kern_defs map_get_def map_upd_def Let_def upd_nth_def)
qed

text \<open>C1: \<open>get_free_page\<close> takes the highest free page: when some count is zero, it returns
  the 4 KiB aligned address of the free page with the largest index, sets its count to one,
  leaves every other count alone, zeroes exactly that page, and does not sleep; when no count is
  zero, it returns 0 and changes nothing.\<close>

theorem get_free_page_spec:
  assumes "length (mem_map s) = PAGING_PAGES"
  shows "(\<exists>i < PAGING_PAGES. mem_map s ! i = 0 \<and> (\<forall>j. i < j \<and> j < PAGING_PAGES \<longrightarrow> mem_map s ! j \<noteq> 0) \<and>
            (\<exists>s'. get_free_page s es = Ok (page_addr i) s' es \<and>
              mem_map s' ! i = 1 \<and> (\<forall>j. j \<noteq> i \<longrightarrow> mem_map s' ! j = mem_map s ! j) \<and>
              (\<forall>a. mem s' a = (if in_page (page_addr i) a then 0 else mem s a))))
         \<or> (\<forall>i < PAGING_PAGES. mem_map s ! i \<noteq> 0) \<and> get_free_page s es = Ok 0 s es"
proof (cases "scan_down (\<lambda>i. mem_map s ! i = 0) PAGING_PAGES")
  case None
  then have "\<forall>i < PAGING_PAGES. mem_map s ! i \<noteq> 0" by (simp add: scan_down_None)
  moreover from None have "get_free_page s es = Ok 0 s es" by (simp add: get_free_page_eq)
  ultimately show ?thesis by blast
next
  case (Some i)
  then have i: "i < PAGING_PAGES" "mem_map s ! i = 0"
      "\<forall>j. i < j \<and> j < PAGING_PAGES \<longrightarrow> mem_map s ! j \<noteq> 0"
    by (auto simp: scan_down_Some)
  with Some assms show ?thesis
    by (intro disjI1 exI [of _ i]) (simp add: get_free_page_eq clear_page_def)
qed

text \<open>A machine with all its memory free, for concrete runs.\<close>

definition mm_boot :: mm_state where
  "mm_boot = \<lparr>klog = [], mem = (\<lambda>_. 0), mem_map = replicate PAGING_PAGES 0,
     HIGH_MEMORY = 0x1000000, cr3_loads = 0\<rparr>"

lemma mm_boot_simps [simp]:
  "length (mem_map mm_boot) = PAGING_PAGES" "HIGH_MEMORY mm_boot = 0x1000000"
  "i < PAGING_PAGES \<Longrightarrow> mem_map mm_boot ! i = 0" "mem mm_boot a = 0"
  by (simp_all add: mm_boot_def)

lemma scan_down_boot [simp]:
  "scan_down (\<lambda>i. mem_map mm_boot ! i = 0) PAGING_PAGES = Some 3839"
  by (auto simp: scan_down_Some) (simp_all add: PAGING_PAGES_def)

theorem get_free_page_spec_witness:
  "length (mem_map mm_boot) = PAGING_PAGES \<and>
   (\<exists>s'. get_free_page mm_boot [] = Ok (page_addr 3839) s' [] \<and> mem_map s' ! 3839 = 1)"
proof -
  have pp: "PAGING_PAGES = 3840" by (simp add: PAGING_PAGES_def)
  have "\<not> (\<forall>i < PAGING_PAGES. mem_map mm_boot ! i \<noteq> 0)"
    by (auto simp: pp intro: exI [of _ 0])
  with get_free_page_spec [of mm_boot "[]"] obtain i s' where i: "i < PAGING_PAGES"
      "\<forall>j. i < j \<and> j < PAGING_PAGES \<longrightarrow> mem_map mm_boot ! j \<noteq> 0"
      "get_free_page mm_boot [] = Ok (page_addr i) s' []" "mem_map s' ! i = 1"
    by auto
  have "i = 3839" using i(1) i(2) [rule_format, of 3839] by (force simp: pp)
  with i show ?thesis by auto
qed

text \<open>A page that is allocated and then released leaves every use count as it was.\<close>

lemma get_then_free_page:
  assumes "length (mem_map s) = PAGING_PAGES" and "HIGH_MEMORY s = 0x1000000"
    and "get_free_page s es = Ok p s' es'" and "p \<noteq> 0"
  shows "\<exists>s''. free_page p s' es' = Ok () s'' es' \<and> mem_map s'' = mem_map s"
proof -
  from assms(3,4) obtain i where scan: "scan_down (\<lambda>i. mem_map s ! i = 0) PAGING_PAGES = Some i"
    and p: "p = page_addr i"
    and s': "s' = s\<lparr>mem_map := (mem_map s)[i := 1], mem := clear_page (page_addr i) (mem s)\<rparr>"
    by (auto simp: get_free_page_eq split: option.splits)
  from scan have i: "i < PAGING_PAGES" and free: "mem_map s ! i = 0"
    by (auto simp: scan_down_Some)
  have "(mem_map s)[i := 0] = mem_map s" using free by (metis list_update_id)
  then show ?thesis
    using i assms(1,2) p s' page_addr_less [OF i] page_addr_ge [OF i]
    by (simp add: free_page_eq not_le)
qed

text \<open>The complete behaviour of \<open>free_page\<close>: low memory is ignored, an address at or above
  the end of memory or a page that is already free stops the machine with the state unchanged,
  and every other page loses exactly one reference.\<close>

lemma free_page_cases:
  assumes "length (mem_map s) = PAGING_PAGES" and "HIGH_MEMORY s \<le> 0x1000000"
  shows "free_page a s es =
     (if a < LOW_MEM then Ok () s es
      else if a \<ge> HIGH_MEMORY s then Panic ''trying to free nonexistent page'' s
      else if mem_map s ! MAP_NR a = 0 then Panic ''trying to free free page'' s
      else Ok () (s\<lparr>mem_map := (mem_map s)[MAP_NR a := mem_map s ! MAP_NR a - 1]\<rparr>) es)"
  using assms by (rule free_page_eq)

section \<open>Sharing page tables\<close>

text \<open>A page table entry is counted when it is present and its frame is above 1 MiB;
  \<open>pte_refs m n f i\<close> is the number of counted entries for page \<open>i\<close> among the
  \<open>n\<close> entries at \<open>f\<close>.\<close>

definition counted :: "u32 \<Rightarrow> bool" where
  "counted e \<longleftrightarrow> e AND 1 \<noteq> 0 \<and> e AND NOT 2 > LOW_MEM"

fun pte_refs :: "(u32 \<Rightarrow> u32) \<Rightarrow> nat \<Rightarrow> u32 \<Rightarrow> nat \<Rightarrow> nat" where
  "pte_refs m 0 f i = 0"
| "pte_refs m (Suc n) f i =
     (if counted (m f) \<and> MAP_NR (m f AND NOT 2) = i then 1 else 0) + pte_refs m n (f + 4) i"

definition pte :: "u32 \<Rightarrow> nat \<Rightarrow> u32" where
  "pte f k = f + 4 * of_nat k"

lemma pte_0 [simp]: "pte f 0 = f"
  by (simp add: pte_def)

lemma pte_Suc: "pte (f + 4) k = pte f (Suc k)"
  by (simp add: pte_def algebra_simps)

lemma pte_inject:
  assumes "j < 1024" "k < 1024" shows "pte f j = pte f k \<longleftrightarrow> j = k"
proof
  assume "pte f j = pte f k"
  then have "unat (4 * of_nat j :: u32) = unat (4 * of_nat k :: u32)"
    by (simp add: pte_def)
  with assms show "j = k" by (simp add: unat_word_ariths unat_of_nat)
qed simp

text \<open>Two tables of \<open>n\<close> entries that do not overlap.\<close>

definition apart :: "nat \<Rightarrow> u32 \<Rightarrow> u32 \<Rightarrow> bool" where
  "apart n f t \<longleftrightarrow> (\<forall>j < n. \<forall>k < n. pte f j \<noteq> pte t k)"

lemma apart_Suc: "apart (Suc n) f t \<Longrightarrow> apart n (f + 4) (t + 4)"
  unfolding apart_def pte_Suc by simp

lemma pte_refs_cong:
  "(\<And>k. k < n \<Longrightarrow> m (pte f k) = m' (pte f k)) \<Longrightarrow> pte_refs m n f i = pte_refs m' n f i"
proof (induction n arbitrary: f)
  case (Suc n)
  have "m f = m' f" using Suc.prems [of 0] by simp
  moreover have "pte_refs m n (f + 4) i = pte_refs m' n (f + 4) i"
    by (rule Suc.IH) (simp add: pte_Suc Suc.prems)
  ultimately show ?case by simp
qed simp

text \<open>One pass of the copying loop, as a state update.\<close>

definition copy_pte1 :: "u32 \<Rightarrow> u32 \<Rightarrow> 'z mm_state_scheme \<Rightarrow> 'z mm_state_scheme" where
  "copy_pte1 f t s =
     (let e = mem s f; e' = e AND NOT 2 in
      if e AND 1 = 0 then s
      else if e' > LOW_MEM
        then s\<lparr>mem := (mem s)(t := e', f := e'), mem_map := upd_nth (MAP_NR e') (\<lambda>c. c + 1) (mem_map s)\<rparr>
        else s\<lparr>mem := (mem s)(t := e')\<rparr>)"

lemma copy_ptes_step:
  assumes "counted (mem s f) \<longrightarrow> MAP_NR (mem s f AND NOT 2) < length (mem_map s)"
  shows "copy_ptes (Suc n) f t s es = copy_ptes n (f + 4) (t + 4) (copy_pte1 f t s) es"
  using assms
  by (auto simp: copy_pte1_def counted_def Let_def kern_defs ld_def st_def map_upd_def)

lemma copy_pte1_frame:
  "length (mem_map (copy_pte1 f t s)) = length (mem_map s)"
  "HIGH_MEMORY (copy_pte1 f t s) = HIGH_MEMORY s"
  "a \<noteq> f \<Longrightarrow> a \<noteq> t \<Longrightarrow> mem (copy_pte1 f t s) a = mem s a"
  "mem (copy_pte1 f t s) t = (if mem s f AND 1 \<noteq> 0 then mem s f AND NOT 2 else mem s t)"
  "f \<noteq> t \<Longrightarrow> mem (copy_pte1 f t s) f = (if counted (mem s f) then mem s f AND NOT 2 else mem s f)"
  by (simp_all add: copy_pte1_def counted_def Let_def)

lemma copy_pte1_map:
  assumes "counted (mem s f) \<longrightarrow> MAP_NR (mem s f AND NOT 2) < length (mem_map s)"
    and "i < length (mem_map s)"
  shows "mem_map (copy_pte1 f t s) ! i =
     mem_map s ! i + (if counted (mem s f) \<and> MAP_NR (mem s f AND NOT 2) = i then 1 else 0)"
  using assms by (auto simp: copy_pte1_def counted_def Let_def)

text \<open>What \<open>copy_page_tables\<close> needs of a source table: every counted frame lies inside
  \<open>mem_map\<close>.\<close>

definition frames_ok :: "'z mm_state_scheme \<Rightarrow> nat \<Rightarrow> u32 \<Rightarrow> bool" where
  "frames_ok s n f \<longleftrightarrow>
     (\<forall>k < n. counted (mem s (pte f k)) \<longrightarrow> MAP_NR (mem s (pte f k) AND NOT 2) < length (mem_map s))"

lemma frames_ok_0: "frames_ok s (Suc n) f \<Longrightarrow>
    counted (mem s f) \<longrightarrow> MAP_NR (mem s f AND NOT 2) < length (mem_map s)"
  by (auto simp: frames_ok_def dest: spec [of _ 0])

lemma pte_neq_base: "0 < k \<Longrightarrow> k < 1024 \<Longrightarrow> pte f k \<noteq> f"
  using pte_inject [of k 0 f] by simp

lemma copy_pte1_tail:
  assumes "apart (Suc n) f t" and "Suc n \<le> 1024" and "k < n"
  shows "mem (copy_pte1 f t s) (pte (f + 4) k) = mem s (pte (f + 4) k)"
    and "mem (copy_pte1 f t s) (pte (t + 4) k) = mem s (pte (t + 4) k)"
proof -
  have "pte f (Suc k) \<noteq> f" "pte t (Suc k) \<noteq> t"
    using assms(2,3) by (simp_all add: pte_neq_base)
  moreover have "pte f (Suc k) \<noteq> t" "pte t (Suc k) \<noteq> f"
    using assms(1,3) unfolding apart_def by (metis Suc_mono pte_0 zero_less_Suc)+
  ultimately show "mem (copy_pte1 f t s) (pte (f + 4) k) = mem s (pte (f + 4) k)"
    and "mem (copy_pte1 f t s) (pte (t + 4) k) = mem s (pte (t + 4) k)"
    by (simp_all add: pte_Suc copy_pte1_frame)
qed

definition copied :: "nat \<Rightarrow> u32 \<Rightarrow> u32 \<Rightarrow> 'z mm_state_scheme \<Rightarrow> 'z mm_state_scheme \<Rightarrow> bool" where
  "copied n f t s s' \<longleftrightarrow>
     (\<forall>k < n. let e = mem s (pte f k) in
        mem s' (pte t k) = (if e AND 1 \<noteq> 0 then e AND NOT 2 else mem s (pte t k)) \<and>
        mem s' (pte f k) = (if counted e then e AND NOT 2 else e)) \<and>
     (\<forall>a. (\<forall>k < n. a \<noteq> pte f k \<and> a \<noteq> pte t k) \<longrightarrow> mem s' a = mem s a) \<and>
     length (mem_map s') = length (mem_map s) \<and> HIGH_MEMORY s' = HIGH_MEMORY s \<and>
     (\<forall>i < length (mem_map s). mem_map s' ! i = mem_map s ! i + of_nat (pte_refs (mem s) n f i))"

lemma copied_Suc:
  assumes "apart (Suc n) f t" "Suc n \<le> 1024" "frames_ok s (Suc n) f"
    and IH: "copied n (f + 4) (t + 4) (copy_pte1 f t s) s'"
  shows "copied (Suc n) f t s s'"
proof -
  let ?s1 = "copy_pte1 f t s"
  note tail = copy_pte1_tail [OF assms(1,2)]
  have ft: "f \<noteq> t" using assms(1) unfolding apart_def by (metis pte_0 zero_less_Suc)
  have off: "f \<noteq> pte (f + 4) k \<and> f \<noteq> pte (t + 4) k \<and> t \<noteq> pte (f + 4) k \<and> t \<noteq> pte (t + 4) k"
    if "k < n" for k
    using that assms(1,2) pte_neq_base [of "Suc k" f] pte_neq_base [of "Suc k" t]
    unfolding apart_def pte_Suc by (metis Suc_less_eq less_le_trans pte_0 zero_less_Suc)
  have base: "mem s' f = mem ?s1 f" "mem s' t = mem ?s1 t"
    using IH off unfolding copied_def by blast+
  have entries: "let e = mem s (pte f k) in
        mem s' (pte t k) = (if e AND 1 \<noteq> 0 then e AND NOT 2 else mem s (pte t k)) \<and>
        mem s' (pte f k) = (if counted e then e AND NOT 2 else e)" if "k < Suc n" for k
  proof (cases k)
    case 0
    with base ft show ?thesis by (simp add: copy_pte1_frame)
  next
    case (Suc j)
    with that IH show ?thesis
      unfolding copied_def by (simp add: tail pte_Suc [symmetric] Let_def)
  qed
  have others: "mem s' a = mem s a" if "\<forall>k < Suc n. a \<noteq> pte f k \<and> a \<noteq> pte t k" for a
  proof -
    have "a \<noteq> f" "a \<noteq> t" using that [rule_format, of 0] by simp_all
    moreover have "\<forall>k < n. a \<noteq> pte (f + 4) k \<and> a \<noteq> pte (t + 4) k"
      using that by (simp add: pte_Suc)
    ultimately show ?thesis using IH unfolding copied_def by (simp add: copy_pte1_frame)
  qed
  have refs: "pte_refs (mem ?s1) n (f + 4) i = pte_refs (mem s) n (f + 4) i" for i
    by (rule pte_refs_cong) (simp add: tail)
  have counts: "mem_map s' ! i = mem_map s ! i + of_nat (pte_refs (mem s) (Suc n) f i)"
    if "i < length (mem_map s)" for i
    using IH that copy_pte1_map [OF frames_ok_0 [OF assms(3)] that, of t] refs
    unfolding copied_def by (simp add: copy_pte1_frame)
  show ?thesis
    using entries others counts IH unfolding copied_def by (simp add: copy_pte1_frame)
qed

text \<open>The page sharing of fork. Copying \<open>n\<close> entries between two disjoint tables returns
  without sleeping, and afterwards: every present entry is in the new table without its write
  bit, every counted entry of the old table has lost its write bit too, no other memory has
  changed, and the use count of each page has grown (modulo 256) by exactly the number of
  entries that map it.\<close>

lemma copy_ptes_copied:
  assumes "apart n f t" "n \<le> 1024" "frames_ok s n f"
  shows "\<exists>s'. copy_ptes n f t s es = Ok () s' es \<and> copied n f t s s'"
  using assms
proof (induction n arbitrary: f t s)
  case 0
  show ?case by (simp add: copied_def kern_defs)
next
  case (Suc n)
  have "frames_ok (copy_pte1 f t s) n (f + 4)"
    using Suc.prems(3) unfolding frames_ok_def
    by (simp add: copy_pte1_frame copy_pte1_tail [OF Suc.prems(1,2)]) (simp add: pte_Suc)
  then obtain s' where s': "copy_ptes n (f + 4) (t + 4) (copy_pte1 f t s) es = Ok () s' es"
    and c: "copied n (f + 4) (t + 4) (copy_pte1 f t s) s'"
    using Suc.IH [OF apart_Suc [OF Suc.prems(1)]] Suc.prems(2) by fastforce
  from copied_Suc [OF Suc.prems c] s' show ?case
    by (simp only: copy_ptes_step [OF frames_ok_0 [OF Suc.prems(3)]]) blast
qed

section \<open>Pages as sets of addresses\<close>

lemma frame_mask: "(0xfffff000 :: u32) = NOT (mask 12)"
  by (simp add: mask_eq_exp_minus_1)

lemma unat_page_frame: "unat (page_frame a) = unat a div 4096 * 4096"
proof -
  have "page_frame a = push_bit 12 (drop_bit 12 a)"
    unfolding frame_mask by (rule bit_word_eqI) (auto simp: bit_simps)
  moreover have "unat (drop_bit 12 a) = unat a div 4096"
    by (simp add: drop_bit_eq_div unat_div)
  moreover have "unat a div 4096 * 4096 < 2 ^ 32"
    using unat_u32_less [of a] div_times_less_eq_dividend [of "unat a" 4096]
    by (simp add: le_less_trans) 
  ultimately show ?thesis
    by (simp add: push_bit_eq_mult unat_word_ariths)
qed

lemma in_page_iff:
  assumes "page_frame p = p" shows "in_page p a \<longleftrightarrow> page_frame a = p"
proof -
  define k q r where "k = unat p div 4096" and "q = unat a div 4096" and "r = unat a mod 4096"
  have p: "unat p = 4096 * k" using unat_page_frame [of p] assms by (simp add: k_def)
  have a: "unat a = 4096 * q + r" and r: "r < 4096" by (simp_all add: q_def r_def)
  have k: "k < 1048576" using unat_u32_less [of p] by (simp add: k_def)
  have "in_page p a \<longleftrightarrow> q = k"
  proof (cases "k \<le> q")
    case True
    then have "unat (a - p) = 4096 * (q - k) + r"
      using p a by (simp add: unat_sub_if' word_le_nat_alt algebra_simps)
    then show ?thesis using True r by (auto simp: in_page_def word_less_nat_alt)
  next
    case False
    then have "\<not> p \<le> a" using p a r by (simp add: word_le_nat_alt)
    then have "unat (a - p) = 4294967296 + unat a - unat p"
      by (simp add: unat_sub_if' word_le_nat_alt)
    then show ?thesis using False p a k by (simp add: in_page_def word_less_nat_alt)
  qed
  also have "\<dots> \<longleftrightarrow> unat (page_frame a) = unat p"
    unfolding unat_page_frame p by (auto simp: q_def)
  also have "\<dots> \<longleftrightarrow> page_frame a = p"
    by (simp add: word_unat_eq_iff)
  finally show ?thesis .
qed

lemma page_addr_shift: "page_addr i = push_bit 12 (of_nat (i + 256))"
  by (simp add: page_addr_def LOW_MEM_def push_bit_eq_mult algebra_simps)

lemma page_frame_page_addr [simp]:
  "page_frame (page_addr i) = page_addr i" "page_frame (page_addr i OR 7) = page_addr i"
proof -
  have seven: "(7 :: u32) = mask 3" by (simp add: mask_eq_exp_minus_1)
  show "page_frame (page_addr i) = page_addr i" "page_frame (page_addr i OR 7) = page_addr i"
    unfolding page_addr_shift frame_mask seven by (rule bit_word_eqI, auto simp: bit_simps)+
qed


lemma in_page_offset: "off < 4096 \<Longrightarrow> in_page p (p + off)"
  by (simp add: in_page_def)

text \<open>The pages two aligned addresses start are disjoint unless they are the same.\<close>

lemma in_page_disjoint:
  "page_frame p = p \<Longrightarrow> page_frame q = q \<Longrightarrow> p \<noteq> q \<Longrightarrow> in_page p a \<Longrightarrow> \<not> in_page q a"
  by (simp add: in_page_iff)

lemma frame_ge_LOW: "LOW_MEM \<le> page_frame a \<longleftrightarrow> LOW_MEM \<le> a"
proof -
  have "unat (page_frame a) \<ge> 1048576 \<longleftrightarrow> unat a \<ge> 1048576"
    unfolding unat_page_frame by (auto simp: div_le_mono)
  then show ?thesis by (simp add: word_le_nat_alt LOW_MEM_def)
qed

lemma page_frame_idem [simp]: "page_frame (page_frame a) = page_frame a"
  by (simp flip: and.assoc)

text \<open>A page that is in use is not the page that \<open>get_free_page\<close> would hand out.\<close>

lemma frame_not_fresh:
  assumes "mem_map s ! i = 0" "i < PAGING_PAGES"
    and "p \<ge> LOW_MEM \<longrightarrow> mem_map s ! MAP_NR p \<noteq> 0"
  shows "p \<noteq> page_addr i"
proof
  assume "p = page_addr i"
  with assms show False using page_addr_ge [of i] by auto
qed

lemma un_wp_page_shared:
  assumes len: "length (mem_map s) = PAGING_PAGES"
    and scan: "scan_down (\<lambda>i. mem_map s ! i = 0) PAGING_PAGES = Some i"
    and old: "old = page_frame (mem s te)"
    and inr: "old \<ge> LOW_MEM \<longrightarrow> MAP_NR old < PAGING_PAGES \<and> mem_map s ! MAP_NR old \<noteq> 1"
    and te: "\<not> in_page (page_addr i) te"
  shows "un_wp_page te s es = Ok ()
     (s\<lparr>mem_map := (let m = (mem_map s)[i := 1] in
           if old \<ge> LOW_MEM then upd_nth (MAP_NR old) (\<lambda>c. c - 1) m else m),
        mem := copy_page old (page_addr i) ((clear_page (page_addr i) (mem s))(te := page_addr i OR 7)),
        cr3_loads := Suc (cr3_loads s)\<rparr>) es"
proof -
  have i: "i < PAGING_PAGES" using scan by (simp add: scan_down_Some)
  then have nz: "page_addr i \<noteq> 0" by simp
  show ?thesis
    using scan inr nz len unfolding un_wp_page_def old [symmetric] 
    by (auto simp: kern_defs ld_def st_def old [symmetric] map_get_def map_upd_def get_free_page_eq
        invalidate_def Let_def clear_page_def te)
qed


section \<open>Copy on write\<close>

lemma or_bits: "((x :: u32) OR 2) AND 2 \<noteq> 0" "((x :: u32) OR 7) AND 2 \<noteq> 0"
proof -
  have "bit ((x OR 2) AND 2) 1" "bit ((x OR 7) AND 2) 1" by (simp_all add: bit_simps numeral_eq_Suc)
  then show "(x OR 2) AND 2 \<noteq> 0" "(x OR 7) AND 2 \<noteq> 0" by force+
qed

lemma page_frame_or2: "page_frame (x OR 2) = page_frame x"
proof -
  have two: "(2 :: u32) = push_bit 1 1" by (simp add: push_bit_eq_mult)
  show ?thesis unfolding frame_mask two by (rule bit_word_eqI) (auto simp: bit_simps)
qed

text \<open>What a write fault must leave behind: the entry is writable, its page is used by nobody
  else, holds what the page mapped before held, and the page left behind has lost one
  reference.\<close>

definition wp_private :: "u32 \<Rightarrow> 'z mm_state_scheme \<Rightarrow> 'z mm_state_scheme \<Rightarrow> bool" where
  "wp_private te s s' \<longleftrightarrow>
     (let old = page_frame (mem s te); new = page_frame (mem s' te) in
      mem s' te AND 2 \<noteq> 0 \<and> mem_map s' ! MAP_NR new = 1 \<and>
      (\<forall>off < 4096. mem s' (new + off) = mem s (old + off)) \<and>
      (old \<noteq> new \<and> old \<ge> LOW_MEM \<longrightarrow> mem_map s' ! MAP_NR old = mem_map s ! MAP_NR old - 1) \<and>
      cr3_loads s' = Suc (cr3_loads s))"

lemma wp_private_sole:
  assumes "page_frame te \<noteq> page_frame (mem s te)" and "mem_map s ! MAP_NR (page_frame (mem s te)) = 1"
  shows "wp_private te s (s\<lparr>mem := (mem s)(te := mem s te OR 2), cr3_loads := Suc (cr3_loads s)\<rparr>)"
proof -
  have "page_frame (mem s te) + off \<noteq> te" if "off < 4096" for off
    using in_page_offset [OF that, of "page_frame (mem s te)"] assms(1)
    by (auto simp: in_page_iff)
  with assms(2) show ?thesis
    by (simp add: wp_private_def Let_def page_frame_or2 or_bits)
qed

lemma wp_private_moved:
  assumes len: "length (mem_map s) = PAGING_PAGES" and i: "i < PAGING_PAGES"
    and old: "old = page_frame (mem s te)" and ne: "old \<noteq> page_addr i" and te: "page_frame te \<noteq> old"
    and te2: "page_frame te \<noteq> page_addr i"
    and inr: "old \<ge> LOW_MEM \<longrightarrow> MAP_NR old < PAGING_PAGES \<and> MAP_NR old \<noteq> i"
  shows "wp_private te s
     (s\<lparr>mem_map := (let m = (mem_map s)[i := 1] in
           if old \<ge> LOW_MEM then upd_nth (MAP_NR old) (\<lambda>c. c - 1) m else m),
        mem := copy_page old (page_addr i) ((clear_page (page_addr i) (mem s))(te := page_addr i OR 7)),
        cr3_loads := Suc (cr3_loads s)\<rparr>)" (is "wp_private te s ?s'")
proof -
  define s' where "s' = ?s'"
  have "\<not> in_page (page_addr i) te" using te2 by (simp add: in_page_iff)
  then have new: "mem s' te = page_addr i OR 7" by (simp add: s'_def copy_page_def)
  have content: "mem s' (page_addr i + off) = mem s (old + off)" if "off < 4096" for off
  proof -
    have "in_page old (old + off)" using that by (rule in_page_offset)
    then have "page_frame (old + off) = old" using old by (simp add: in_page_iff)
    then have "old + off \<noteq> te" "\<not> in_page (page_addr i) (old + off)"
      using te ne by (auto simp: in_page_iff)
    then show ?thesis
      using in_page_offset [OF that, of "page_addr i"]
      by (simp add: s'_def copy_page_def clear_page_def)
  qed
  have counts: "mem_map s' ! i = 1" "cr3_loads s' = Suc (cr3_loads s)"
      "old \<ge> LOW_MEM \<longrightarrow> mem_map s' ! MAP_NR old = mem_map s ! MAP_NR old - 1"
    using inr len i by (auto simp: s'_def Let_def)
  have "wp_private te s s'"
    using content counts i by (simp add: wp_private_def Let_def new or_bits flip: old)
  then show ?thesis by (simp only: s'_def)
qed

text \<open>C7: Breaking a shared page for a writer. Whenever the table entry lies in a page in use
  outside the page it maps, \<open>un_wp_page\<close> returns with the entry writable and mapping a page
  with count one that holds the old contents word for word, the old page having lost one
  reference if it was left; only when no page is free does the task exit with SIGSEGV, with no
  count and no memory changed.\<close>

theorem un_wp_page_private:
  assumes len: "length (mem_map s) = PAGING_PAGES"
    and te: "te \<ge> LOW_MEM \<longrightarrow> mem_map s ! MAP_NR (page_frame te) \<noteq> 0"
    and old: "page_frame (mem s te) \<ge> LOW_MEM \<longrightarrow>
        MAP_NR (page_frame (mem s te)) < PAGING_PAGES \<and> mem_map s ! MAP_NR (page_frame (mem s te)) \<noteq> 0"
    and ne: "page_frame te \<noteq> page_frame (mem s te)"
  shows "(\<exists>s'. un_wp_page te s es = Ok () s' es \<and> wp_private te s s') \<or>
         (\<forall>i < PAGING_PAGES. mem_map s ! i \<noteq> 0) \<and>
         un_wp_page te s es = Exit SIGSEGV (s\<lparr>klog := klog s @ [(''out of memory'', [])]\<rparr>) es"
proof -
  let ?old = "page_frame (mem s te)"
  consider (sole) "?old \<ge> LOW_MEM" "mem_map s ! MAP_NR ?old = 1"
    | (full) "\<not> (?old \<ge> LOW_MEM \<and> mem_map s ! MAP_NR ?old = 1)"
        "scan_down (\<lambda>i. mem_map s ! i = 0) PAGING_PAGES = None"
    | (move) i where "\<not> (?old \<ge> LOW_MEM \<and> mem_map s ! MAP_NR ?old = 1)"
        "scan_down (\<lambda>i. mem_map s ! i = 0) PAGING_PAGES = Some i"
    by (cases "scan_down (\<lambda>i. mem_map s ! i = 0) PAGING_PAGES") auto
  then show ?thesis
  proof cases
    case sole
    then have "un_wp_page te s es =
        Ok () (s\<lparr>mem := (mem s)(te := mem s te OR 2), cr3_loads := Suc (cr3_loads s)\<rparr>) es"
      using old len by (simp add: un_wp_page_def kern_defs ld_def st_def map_get_def invalidate_def Let_def)
    with wp_private_sole [OF ne sole(2)] show ?thesis by blast
  next
    case full
    then have "un_wp_page te s es =
        Exit SIGSEGV (s\<lparr>klog := klog s @ [(''out of memory'', [])]\<rparr>) es"
      using old len
      by (auto simp: un_wp_page_def kern_defs ld_def map_get_def get_free_page_eq oom_def printk_def Let_def)
    with full show ?thesis by (simp add: scan_down_None)
  next
    case move
    then have i: "i < PAGING_PAGES" "mem_map s ! i = 0" by (auto simp: scan_down_Some)
    have ne_old: "?old \<noteq> page_addr i" using i old by (intro frame_not_fresh) auto
    have ne_te: "page_frame te \<noteq> page_addr i"
      using i te by (intro frame_not_fresh) (auto simp: frame_ge_LOW)
    have "MAP_NR ?old \<noteq> i" if "?old \<ge> LOW_MEM" using that old i by auto
    then have inr: "?old \<ge> LOW_MEM \<longrightarrow> MAP_NR ?old < PAGING_PAGES \<and> MAP_NR ?old \<noteq> i"
      using old by auto
    have "\<not> in_page (page_addr i) te" using ne_te by (simp add: in_page_iff)
    with un_wp_page_shared [OF len move(2) refl] move(1) old
      wp_private_moved [OF len i(1) refl ne_old ne ne_te inr]
    show ?thesis by blast
  qed
qed


section \<open>Dropping page tables\<close>

lemma page_frame_and_not2: "page_frame (e AND NOT 2) = page_frame e"
proof -
  have two: "(2 :: u32) = push_bit 1 1" by (simp add: push_bit_eq_mult)
  show ?thesis unfolding frame_mask two by (rule bit_word_eqI) (auto simp: bit_simps)
qed

lemma counted_iff: "counted e \<longleftrightarrow> e AND 1 \<noteq> 0 \<and> \<not> page_frame e < LOW_MEM"
proof (cases "e AND 1 = 0")
  case False
  note frame = page_frame_and_not2 [of e]
  have "e AND NOT 2 \<noteq> LOW_MEM"
  proof
    assume "e AND NOT 2 = LOW_MEM"
    then have "(e AND NOT 2) AND 1 = LOW_MEM AND 1" by simp
    moreover have "(e AND NOT 2) AND 1 = e AND 1"
      by (rule bit_word_eqI) (auto simp: bit_simps)
    ultimately show False using False by (simp add: LOW_MEM_def)
  qed
  then have "LOW_MEM < e AND NOT 2 \<longleftrightarrow> LOW_MEM \<le> e AND NOT 2" by auto
  also have "\<dots> \<longleftrightarrow> LOW_MEM \<le> page_frame e" by (metis frame frame_ge_LOW)
  finally show ?thesis using False by (simp add: counted_def not_less)
qed (simp add: counted_def)

lemma MAP_NR_frame: "LOW_MEM \<le> a \<Longrightarrow> MAP_NR (page_frame a) = MAP_NR a"
proof -
  assume a: "LOW_MEM \<le> a"
  then have "LOW_MEM \<le> page_frame a" by (simp add: frame_ge_LOW)
  moreover have "(x div 4096 * 4096 - 1048576) div 4096 = (x - 1048576) div 4096" for x :: nat
    using sub_mult_div [of 4096 "x div 4096 * 4096" 256] sub_mult_div [of 4096 x 256] by simp
  ultimately show ?thesis using a
    by (simp add: MAP_NR_def LOW_MEM_def drop_bit_eq_div unat_div unat_sub_if' word_le_nat_alt
        unat_page_frame)
qed

lemma MAP_NR_pte: "counted e \<Longrightarrow> MAP_NR (page_frame e) = MAP_NR (e AND NOT 2)"
  by (metis MAP_NR_frame counted_def order_less_imp_le page_frame_and_not2)

lemma MAP_NR_less: "LOW_MEM \<le> a \<Longrightarrow> a < 0x1000000 \<Longrightarrow> MAP_NR a < PAGING_PAGES"
  by (simp add: MAP_NR_def LOW_MEM_def PAGING_PAGES_def drop_bit_eq_div unat_div
      unat_sub_if' word_le_nat_alt word_less_nat_alt)

lemma free_ptes_counts:
  assumes "length (mem_map s) = PAGING_PAGES" and "HIGH_MEMORY s \<le> 0x1000000" and "n \<le> 1024"
    and "\<forall>k < n. counted (mem s (pte t k)) \<longrightarrow> page_frame (mem s (pte t k)) < HIGH_MEMORY s"
    and "\<forall>i < PAGING_PAGES. pte_refs (mem s) n t i \<le> unat (mem_map s ! i)"
  shows "\<exists>s'. free_ptes n t s es = Ok () s' es \<and>
     mem s' = (\<lambda>a. if \<exists>k < n. a = pte t k then 0 else mem s a) \<and>
     length (mem_map s') = PAGING_PAGES \<and>
     (\<forall>i < PAGING_PAGES. mem_map s' ! i = mem_map s ! i - of_nat (pte_refs (mem s) n t i))"
  using assms
proof (induction n arbitrary: t s)
  case 0
  then show ?case by (simp add: kern_defs)
next
  case (Suc n)
  let ?e = "mem s t"
  let ?i = "MAP_NR (page_frame ?e)"
  define s1 where "s1 = (if counted ?e
     then s\<lparr>mem_map := (mem_map s)[?i := mem_map s ! ?i - 1], mem := (mem s)(t := 0)\<rparr>
     else s\<lparr>mem := (mem s)(t := 0)\<rparr>)"
  have high: "counted ?e \<longrightarrow> page_frame ?e < HIGH_MEMORY s" using Suc.prems(4) by force
  have i: "counted ?e \<Longrightarrow> ?i < PAGING_PAGES"
    using high Suc.prems(2) by (auto simp: counted_iff intro!: MAP_NR_less)
  have nz: "counted ?e \<Longrightarrow> mem_map s ! ?i \<noteq> 0"
    using Suc.prems(5) i MAP_NR_pte by fastforce
  with high have step: "free_ptes (Suc n) t s es = free_ptes n (t + 4) s1 es"
    using Suc.prems(1,2)
    by (auto simp: s1_def kern_defs ld_def st_def free_page_eq counted_iff)
  have mem1: "mem s1 = (mem s)(t := 0)" and len1: "length (mem_map s1) = PAGING_PAGES"
    and high1: "HIGH_MEMORY s1 = HIGH_MEMORY s"
    using Suc.prems(1) by (simp_all add: s1_def)
  have tail: "mem s1 (pte (t + 4) k) = mem s (pte (t + 4) k)" if "k < n" for k
    using that Suc.prems(3) pte_neq_base [of "Suc k" t] by (simp add: mem1 pte_Suc)
  have refs: "pte_refs (mem s1) n (t + 4) j = pte_refs (mem s) n (t + 4) j" for j
    by (rule pte_refs_cong) (rule tail)
  have map1: "mem_map s1 ! j = mem_map s ! j - (if counted ?e \<and> MAP_NR (?e AND NOT 2) = j then 1 else 0)"
    if "j < PAGING_PAGES" for j
    using that Suc.prems(1) i MAP_NR_pte [of ?e] by (auto simp: s1_def nth_list_update)
  have "pte_refs (mem s1) n (t + 4) j \<le> unat (mem_map s1 ! j)" if "j < PAGING_PAGES" for j
    using that Suc.prems(5) nz MAP_NR_pte [of ?e]
    by (fastforce simp: map1 refs unat_minus_one)
  moreover have "\<forall>k < n. counted (mem s1 (pte (t + 4) k)) \<longrightarrow>
      page_frame (mem s1 (pte (t + 4) k)) < HIGH_MEMORY s1"
    using Suc.prems(4) by (simp add: tail high1) (simp add: pte_Suc)
  ultimately obtain s' where s': "free_ptes n (t + 4) s1 es = Ok () s' es"
      "mem s' = (\<lambda>a. if \<exists>k < n. a = pte (t + 4) k then 0 else mem s1 a)"
      "length (mem_map s') = PAGING_PAGES"
      "\<forall>i < PAGING_PAGES. mem_map s' ! i = mem_map s1 ! i - of_nat (pte_refs (mem s1) n (t + 4) i)"
    using Suc.IH [OF len1, of "t + 4"] Suc.prems(2,3) by (auto simp: high1)
  have ex: "(\<exists>k < Suc n. a = pte t k) \<longleftrightarrow> a = t \<or> (\<exists>k < n. a = pte (t + 4) k)" for a
    unfolding pte_Suc by (metis Suc_less_eq not0_implies_Suc pte_0 zero_less_Suc)
  have "mem s' = (\<lambda>a. if \<exists>k < Suc n. a = pte t k then 0 else mem s a)"
    unfolding s'(2) mem1 ex by (rule ext) auto
  moreover have "\<forall>i < PAGING_PAGES. mem_map s' ! i = mem_map s ! i - of_nat (pte_refs (mem s) (Suc n) t i)"
    using s'(4) by (simp add: map1 refs)
  ultimately show ?case using step s'(1,3) by auto
qed


lemma pte_refs_eq:
  "(\<And>k. k < n \<Longrightarrow> counted (m (pte f k)) = counted (m' (pte t k))) \<Longrightarrow>
   (\<And>k. k < n \<Longrightarrow> counted (m (pte f k)) \<Longrightarrow> m (pte f k) AND NOT 2 = m' (pte t k) AND NOT 2) \<Longrightarrow>
   pte_refs m n f i = pte_refs m' n t i"
proof (induction n arbitrary: f t)
  case (Suc n)
  have "pte_refs m n (f + 4) i = pte_refs m' n (t + 4) i"
    by (rule Suc.IH) (simp_all only: pte_Suc Suc.prems Suc_less_eq)
  with Suc.prems(1) [of 0] Suc.prems(2) [of 0] show ?case by auto
qed simp

lemma counted_and_not2: "counted (e AND NOT 2) \<longleftrightarrow> counted e"
proof -
  have "(e AND NOT 2) AND NOT 2 = e AND NOT 2" "(e AND NOT 2) AND 1 = e AND 1"
    by (rule bit_word_eqI, auto simp: bit_simps)+
  then show ?thesis by (simp add: counted_def)
qed

text \<open>C8: copying a page table for fork into an empty one and dropping the copy again (what \<open>exit\<close> of the child
  does) leaves every use count as it was: the references that sharing adds are exactly those that
  releasing takes away, and the copy is empty again. Entries may name the same page several times, and pages of low
  memory, which are not counted. It is assumed that the two tables do not overlap, that the counted pages lie below \<open>HIGH_MEMORY\<close>, and that no count
  overflows: a count is a byte, so the count of a page and the entries that name it may come to at most 255.\<close>

theorem share_then_drop_counts:
  assumes len: "length (mem_map s) = PAGING_PAGES" and high: "HIGH_MEMORY s \<le> 0x1000000"
    and n: "n \<le> 1024" and apart: "apart n f t"
    and fresh: "\<forall>k < n. mem s (pte t k) = 0"
    and frames: "\<forall>k < n. counted (mem s (pte f k)) \<longrightarrow> page_frame (mem s (pte f k)) < HIGH_MEMORY s"
    and room: "\<forall>i < PAGING_PAGES. unat (mem_map s ! i) + pte_refs (mem s) n f i < 256"
  shows "\<exists>s1 s2. copy_ptes n f t s es = Ok () s1 es \<and> free_ptes n t s1 es = Ok () s2 es \<and>
           mem_map s2 = mem_map s \<and> (\<forall>k < n. mem s2 (pte t k) = 0)"
proof -
  have "MAP_NR (e AND NOT 2) < PAGING_PAGES" if "counted e" "page_frame e < HIGH_MEMORY s" for e
    using that high by (subst MAP_NR_pte [symmetric]) (auto simp: counted_iff intro!: MAP_NR_less)
  then have "frames_ok s n f" using frames len by (simp add: frames_ok_def)
  then obtain s1 where s1: "copy_ptes n f t s es = Ok () s1 es" and c: "copied n f t s s1"
    using copy_ptes_copied [OF apart n] by blast
  have to: "mem s1 (pte t k) = (if mem s (pte f k) AND 1 \<noteq> 0 then mem s (pte f k) AND NOT 2 else 0)"
    if "k < n" for k
    using c that fresh by (auto simp: copied_def Let_def)
  have cnt: "counted (mem s1 (pte t k)) = counted (mem s (pte f k))" if "k < n" for k
    using to [OF that] counted_and_not2 by (auto simp: counted_def)
  have fr: "page_frame (mem s1 (pte t k)) = page_frame (mem s (pte f k))"
    if "k < n" "counted (mem s (pte f k))" for k
    using to [OF that(1)] that(2) by (simp only: counted_def if_True not_False_eq_True page_frame_and_not2)
  have refs: "pte_refs (mem s1) n t i = pte_refs (mem s) n f i" for i
    by (rule pte_refs_eq) (auto simp: cnt to counted_def and.assoc)
  have map1: "mem_map s1 ! i = mem_map s ! i + of_nat (pte_refs (mem s) n f i)"
    if "i < PAGING_PAGES" for i
    using c that len by (simp add: copied_def)
  have "pte_refs (mem s1) n t i \<le> unat (mem_map s1 ! i)" if "i < PAGING_PAGES" for i
  proof -
    have "unat (mem_map s ! i) + pte_refs (mem s) n f i < 256" using room that by blast
    then have "unat (mem_map s1 ! i) = unat (mem_map s ! i) + pte_refs (mem s) n f i"
      using that by (simp add: map1 unat_word_ariths unat_of_nat)
    then show ?thesis by (simp add: refs)
  qed
  moreover have "\<forall>k < n. counted (mem s1 (pte t k)) \<longrightarrow> page_frame (mem s1 (pte t k)) < HIGH_MEMORY s1"
    using frames c fr by (simp add: cnt copied_def)
  moreover have "length (mem_map s1) = PAGING_PAGES" using c len by (simp add: copied_def)
  moreover have "HIGH_MEMORY s1 \<le> 0x1000000" using c high by (simp add: copied_def)
  ultimately obtain s2 where s2: "free_ptes n t s1 es = Ok () s2 es"
      "mem s2 = (\<lambda>a. if \<exists>k < n. a = pte t k then 0 else mem s1 a)"
      "length (mem_map s2) = PAGING_PAGES"
      "\<forall>i < PAGING_PAGES. mem_map s2 ! i = mem_map s1 ! i - of_nat (pte_refs (mem s1) n t i)"
    using free_ptes_counts [of s1 n t es] n by blast
  have "mem_map s2 = mem_map s"
    using s2(3,4) len by (intro nth_equalityI) (simp_all add: map1 refs)
  with s1 s2(1,2) show ?thesis by auto
qed

text \<open>A page table in page 0 whose first entry maps page 1, shared and write-protected.\<close>

definition cow_state :: mm_state where
  "cow_state = mm_boot\<lparr>mem_map := (replicate PAGING_PAGES 0)[0 := 1, 1 := 2],
     mem := (\<lambda>_. 0)(0x100000 := 0x101005)\<rparr>"

theorem un_wp_page_private_witness:
  "mem cow_state 0x100000 = 0x101005 \<and>
   (\<exists>s'. un_wp_page 0x100000 cow_state [] = Ok () s' [] \<and> wp_private 0x100000 cow_state s')"
proof -
  have "mem_map cow_state ! 5 = 0" by (simp add: cow_state_def PAGING_PAGES_def)
  moreover have "(5 :: nat) < PAGING_PAGES" by (simp add: PAGING_PAGES_def)
  ultimately have "\<not> (\<forall>i < PAGING_PAGES. mem_map cow_state ! i \<noteq> 0)" by blast
  moreover have "mem cow_state 0x100000 = 0x101005" by (simp add: cow_state_def)
  moreover have "length (mem_map cow_state) = PAGING_PAGES"
      "mem_map cow_state ! MAP_NR (page_frame 0x100000) \<noteq> 0"
      "MAP_NR (page_frame 0x101005) < PAGING_PAGES"
      "mem_map cow_state ! MAP_NR (page_frame 0x101005) \<noteq> 0"
      "page_frame 0x100000 \<noteq> page_frame 0x101005"
    by (simp_all add: cow_state_def MAP_NR_def LOW_MEM_def PAGING_PAGES_def)
  ultimately show ?thesis
    using un_wp_page_private [where s = cow_state and te = "0x100000" and es = "[]"] by force
qed

text \<open>Three entries of one page table: a shared page twice and a low page.\<close>

definition fork_state :: mm_state where
  "fork_state = mm_boot\<lparr>mem := (\<lambda>_. 0)(0x200000 := 0x300007, 0x200004 := 0x300007, 0x200008 := 0x5007)\<rparr>"

lemma fork_state_refs:
  "i < PAGING_PAGES \<Longrightarrow> mem_map fork_state ! i = 0"
  "pte_refs (mem fork_state) 3 0x200000 i \<le> 3"
  by (simp_all add: fork_state_def numeral_eq_Suc)

theorem share_then_drop_counts_witness:
  "pte_refs (mem fork_state) 3 0x200000 512 = 2 \<and>
   (\<exists>s1 s2. copy_ptes 3 0x200000 0x400000 fork_state [] = Ok () s1 [] \<and>
      free_ptes 3 0x400000 s1 [] = Ok () s2 [] \<and> mem_map s2 = mem_map fork_state)"
proof
  show "pte_refs (mem fork_state) 3 0x200000 512 = 2"
    by (simp add: fork_state_def numeral_3_eq_3 counted_def MAP_NR_def LOW_MEM_def)
next
  have k: "k < 3 \<longleftrightarrow> k = 0 \<or> k = 1 \<or> k = 2" for k :: nat by auto
  have "apart 3 0x200000 0x400000" "\<forall>k < 3. mem fork_state (pte 0x400000 k) = 0"
    "\<forall>k < 3. page_frame (mem fork_state (pte 0x200000 k)) < HIGH_MEMORY fork_state"
    by (auto simp: apart_def fork_state_def pte_def k)
  moreover have "unat (mem_map fork_state ! i) + pte_refs (mem fork_state) 3 0x200000 i < 256"
    if "i < PAGING_PAGES" for i
    using fork_state_refs [of i] that by (simp add: le_less_trans)
  moreover have "length (mem_map fork_state) = PAGING_PAGES" "HIGH_MEMORY fork_state \<le> 0x1000000"
    by (simp_all add: fork_state_def)
  ultimately show "\<exists>s1 s2. copy_ptes 3 0x200000 0x400000 fork_state [] = Ok () s1 [] \<and>
      free_ptes 3 0x400000 s1 [] = Ok () s2 [] \<and> mem_map s2 = mem_map fork_state"
    using share_then_drop_counts [where s = fork_state and n = 3 and f = "0x200000"
        and t = "0x400000" and es = "[]"] by auto
qed

end
