(* ===== verification/Sched.thy ===== *)
theory Sched
  imports Memory "HOL-Library.While_Combinator"
begin

unbundle bit_operations_syntax

text \<open>
  Tasks, the scheduler, sleeping and waking, the timer list and the floppy motor timers:
  \<^verbatim>\<open>include/linux/sched.h\<close> and \<^verbatim>\<open>kernel/sched.c\<close>.

  A task pointer is the 32-bit address of its \<open>task_struct\<close>, with 0 for NULL; the
  structures themselves live in a heap indexed by that address, and \<open>task\<close> is the table of
  64 slots. A wait queue of the sources is a variable that holds a task pointer; an operation
  that takes its address takes here how to read it and how to write it.

  \<open>schedule\<close> is the selection algorithm followed by the switch. Seen from the task that
  calls it, the call comes back either at once, when the task itself is selected, or after
  another task has run: that is where an interference takes place. User memory, as the segment
  register \<open>fs\<close> shows it, is a byte array. Port output is a log, port input a function of
  the port. Signed machine integers are mathematical integers.
\<close>

section \<open>Tasks\<close>

record sigaction =
  sa_handler :: u32
  sa_mask :: u32
  sa_flags :: u32
  sa_restorer :: u32

record tss_struct =
  tss_back_link :: u32
  tss_esp0 :: u32
  tss_ss0 :: u32
  tss_esp1 :: u32
  tss_ss1 :: u32
  tss_esp2 :: u32
  tss_ss2 :: u32
  tss_cr3 :: u32
  tss_eip :: u32
  tss_eflags :: u32
  tss_eax :: u32
  tss_ecx :: u32
  tss_edx :: u32
  tss_ebx :: u32
  tss_esp :: u32
  tss_ebp :: u32
  tss_esi :: u32
  tss_edi :: u32
  es_sel :: u32
  cs_sel :: u32
  ss_sel :: u32
  ds_sel :: u32
  fs_sel :: u32
  gs_sel :: u32
  ldt_sel :: u32
  trace_bitmap :: u32
  i387 :: "u32 list"

text \<open>A segment descriptor: its two 32-bit halves.\<close>

record desc_struct =
  desc_a :: u32
  desc_b :: u32

record task_struct =
  t_state :: int
  t_counter :: int
  t_priority :: int
  t_signal :: u32
  t_sigaction :: "sigaction list"
  t_blocked :: u32
  t_exit_code :: int
  t_start_code :: u32
  t_end_code :: u32
  t_end_data :: u32
  t_brk :: u32
  t_start_stack :: u32
  t_pid :: int
  t_father :: int
  t_pgrp :: int
  t_session :: int
  t_leader :: int
  t_uid :: u16
  t_euid :: u16
  t_suid :: u16
  t_gid :: u16
  t_egid :: u16
  t_sgid :: u16
  t_alarm :: int
  t_utime :: int
  t_stime :: int
  t_cutime :: int
  t_cstime :: int
  t_start_time :: int
  t_used_math :: u16
  t_tty :: int
  t_umask :: u16
  t_pwd :: "nat option"
  t_root :: "nat option"
  t_executable :: "nat option"
  t_close_on_exec :: u32
  t_filp :: "nat option list"
  t_ldt :: "desc_struct list"
  t_tss :: tss_struct

abbreviation (input) NR_TASKS :: nat where "NR_TASKS \<equiv> 64"
abbreviation (input) HZ :: int where "HZ \<equiv> 100"
abbreviation (input) TASK_RUNNING :: int where "TASK_RUNNING \<equiv> 0"
abbreviation (input) TASK_INTERRUPTIBLE :: int where "TASK_INTERRUPTIBLE \<equiv> 1"
abbreviation (input) TASK_UNINTERRUPTIBLE :: int where "TASK_UNINTERRUPTIBLE \<equiv> 2"
abbreviation (input) TASK_ZOMBIE :: int where "TASK_ZOMBIE \<equiv> 3"
abbreviation (input) TASK_STOPPED :: int where "TASK_STOPPED \<equiv> 4"

abbreviation (input) SIGHUP :: nat where "SIGHUP \<equiv> 1"
abbreviation (input) SIGKILL :: nat where "SIGKILL \<equiv> 9"
abbreviation (input) SIGPIPE :: nat where "SIGPIPE \<equiv> 13"
abbreviation (input) SIGALRM :: nat where "SIGALRM \<equiv> 14"
abbreviation (input) SIGCHLD :: nat where "SIGCHLD \<equiv> 17"
abbreviation (input) SIGSTOP :: nat where "SIGSTOP \<equiv> 19"

definition S_bit :: "nat \<Rightarrow> u32" where
  "S_bit nr = push_bit (nr - 1) 1"

definition BLOCKABLE :: u32 where
  "BLOCKABLE = NOT (S_bit SIGKILL OR S_bit SIGSTOP)"

text \<open>An entry of the timer list: the ticks left relative to the entry before it, the
  function to call (a function pointer, by number) and the next entry.\<close>

record timer =
  tl_jiffies :: int
  tl_fn :: "nat option"
  tl_next :: "nat option"

abbreviation (input) TIME_REQUESTS :: nat where "TIME_REQUESTS \<equiv> 64"

record sched_state = mm_state +
  task :: "u32 list"
  tasks :: "u32 \<Rightarrow> task_struct"
  init_task :: u32
  current :: u32
  last_task_used_math :: u32
  cr0_ts :: bool
  fpu :: "u32 list"
  jiffies :: int
  startup_time :: int
  last_pid :: int
  gdt :: "desc_struct list"
  idt :: "desc_struct list"
  timer_list :: "timer list"
  next_timer :: "nat option"
  wait_motor :: "u32 list"
  mon_timer :: "int list"
  moff_timer :: "int list"
  current_DOR :: u8
  selected :: u8
  beepcount :: int
  port_out :: "(u32 \<times> u8) list"
  port_in :: "u32 \<Rightarrow> u8"
  umem :: "u32 \<Rightarrow> u8"

definition cur :: "'z sched_state_scheme \<Rightarrow> task_struct" where
  "cur s = tasks s (current s)"

definition upd_task ::
  "u32 \<Rightarrow> (task_struct \<Rightarrow> task_struct) \<Rightarrow> 'z sched_state_scheme \<Rightarrow> 'z sched_state_scheme" where
  "upd_task p f s = s\<lparr>tasks := (tasks s)(p := f (tasks s p))\<rparr>"

definition upd_cur ::
  "(task_struct \<Rightarrow> task_struct) \<Rightarrow> (unit, 'z sched_state_scheme) kern" where
  "upd_cur f = modify (\<lambda>s. upd_task (current s) f s)"

definition outb :: "u8 \<Rightarrow> u32 \<Rightarrow> (unit, 'z sched_state_scheme) kern" where
  "outb v port = modify (\<lambda>s. s\<lparr>port_out := port_out s @ [(port, v)]\<rparr>)"

definition CURRENT_TIME :: "'z sched_state_scheme \<Rightarrow> int" where
  "CURRENT_TIME s = startup_time s + cdiv (jiffies s) HZ"

definition suser :: "'z sched_state_scheme \<Rightarrow> bool" where
  "suser s \<longleftrightarrow> t_euid (cur s) = 0"

text \<open>User memory through \<open>fs\<close> (\<^verbatim>\<open>include/asm/segment.h\<close>), little endian.\<close>

definition get_fs_byte :: "u32 \<Rightarrow> (u8, 'z sched_state_scheme) kern" where
  "get_fs_byte a = gets (\<lambda>s. umem s a)"

definition put_fs_byte :: "u8 \<Rightarrow> u32 \<Rightarrow> (unit, 'z sched_state_scheme) kern" where
  "put_fs_byte v a = modify (\<lambda>s. s\<lparr>umem := (umem s)(a := v)\<rparr>)"

definition get_fs_long :: "u32 \<Rightarrow> (u32, 'z sched_state_scheme) kern" where
  "get_fs_long a = gets (\<lambda>s. ucast (umem s a) OR push_bit 8 (ucast (umem s (a + 1)))
     OR push_bit 16 (ucast (umem s (a + 2))) OR push_bit 24 (ucast (umem s (a + 3))))"

definition put_fs_long :: "u32 \<Rightarrow> u32 \<Rightarrow> (unit, 'z sched_state_scheme) kern" where
  "put_fs_long v a = modify (\<lambda>s. s\<lparr>umem := (umem s)(a := ucast v, a + 1 := ucast (drop_bit 8 v),
     a + 2 := ucast (drop_bit 16 v), a + 3 := ucast (drop_bit 24 v))\<rparr>)"

section \<open>Descriptors\<close>

text \<open>The byte moves of \<open>_set_base\<close>, \<open>_set_limit\<close> and \<open>_get_base\<close>: bytes 2-3,
  4 and 7 of a descriptor hold the base, bytes 0-1 and the low half of byte 6 the limit.\<close>

definition set_base :: "u32 \<Rightarrow> desc_struct \<Rightarrow> desc_struct" where
  "set_base base d =
     d\<lparr>desc_a := (desc_a d AND 0x0000ffff) OR push_bit 16 (base AND 0xffff),
       desc_b := (desc_b d AND 0x00ffff00) OR (drop_bit 16 base AND 0xff) OR (base AND 0xff000000)\<rparr>"

definition get_base :: "desc_struct \<Rightarrow> u32" where
  "get_base d = (desc_b d AND 0xff000000) OR push_bit 16 (desc_b d AND 0xff) OR drop_bit 16 (desc_a d)"

definition set_limit :: "u32 \<Rightarrow> desc_struct \<Rightarrow> desc_struct" where
  "set_limit limit d =
     (let l = drop_bit 12 (limit - 1) in
      d\<lparr>desc_a := (desc_a d AND 0xffff0000) OR (l AND 0xffff),
        desc_b := (desc_b d AND 0xff00ffff) OR
          push_bit 16 ((drop_bit 16 l AND 0xff) OR (drop_bit 16 (desc_b d) AND 0xf0))\<rparr>)"

text \<open>\<open>get_limit\<close> is \<open>lsll\<close> plus one: the limit field, in pages when the
  granularity bit is set.\<close>

definition get_limit :: "desc_struct \<Rightarrow> u32" where
  "get_limit d =
     (let l = (desc_a d AND 0xffff) OR (desc_b d AND 0xf0000) in
      (if bit (desc_b d) 23 then push_bit 12 l OR 0xfff else l) + 1)"

definition set_tssldt_desc :: "u32 \<Rightarrow> u32 \<Rightarrow> desc_struct" where
  "set_tssldt_desc addr typ =
     \<lparr>desc_a = 104 OR push_bit 16 (addr AND 0xffff),
      desc_b = (drop_bit 16 addr AND 0xff) OR push_bit 8 typ OR (addr AND 0xff000000)\<rparr>"

text \<open>\<open>_set_gate\<close>: an entry of the interrupt table for a handler at \<open>addr\<close> in the
  kernel's code segment.\<close>

definition set_gate :: "u32 \<Rightarrow> u32 \<Rightarrow> u32 \<Rightarrow> desc_struct" where
  "set_gate typ dpl addr =
     \<lparr>desc_a = 0x00080000 OR (addr AND 0xffff),
      desc_b = (addr AND 0xffff0000) OR (0x8000 + push_bit 13 dpl + push_bit 8 typ)\<rparr>"

definition set_intr_gate :: "u32 \<Rightarrow> desc_struct" where
  "set_intr_gate addr = set_gate 14 0 addr"

definition set_trap_gate :: "u32 \<Rightarrow> desc_struct" where
  "set_trap_gate addr = set_gate 15 0 addr"

definition set_system_gate :: "u32 \<Rightarrow> desc_struct" where
  "set_system_gate addr = set_gate 15 3 addr"

abbreviation (input) FIRST_TSS_ENTRY :: nat where "FIRST_TSS_ENTRY \<equiv> 4"
abbreviation (input) FIRST_LDT_ENTRY :: nat where "FIRST_LDT_ENTRY \<equiv> 5"

definition TSS_sel :: "nat \<Rightarrow> u32" where
  "TSS_sel n = push_bit 4 (of_nat n) + push_bit 3 (of_nat FIRST_TSS_ENTRY)"

definition LDT_sel :: "nat \<Rightarrow> u32" where
  "LDT_sel n = push_bit 4 (of_nat n) + push_bit 3 (of_nat FIRST_LDT_ENTRY)"

section \<open>The scheduler\<close>

definition math_state_restore :: "(unit, 'z sched_state_scheme) kern" where
  "math_state_restore =
     kbind (gets (\<lambda>s. (last_task_used_math s, current s))) (\<lambda>(lm, me).
     if lm = me then skip
     else kseq (kwhen (lm \<noteq> 0)
            (modify (\<lambda>s. upd_task lm (\<lambda>t. t\<lparr>t_tss := (t_tss t)\<lparr>i387 := fpu s\<rparr>\<rparr>) s)))
         (kseq (modify (\<lambda>s. s\<lparr>last_task_used_math := me\<rparr>))
         (kbind (gets cur) (\<lambda>t.
          if t_used_math t \<noteq> 0 then modify (\<lambda>s. s\<lparr>fpu := i387 (t_tss t)\<rparr>)
          else kseq (modify (\<lambda>s. s\<lparr>fpu := []\<rparr>))
                    (upd_cur (\<lambda>t. t\<lparr>t_used_math := 1\<rparr>))))))"

text \<open>The first loop of \<open>schedule\<close>: alarms that have passed become signals, and an
  interruptible task with a signal it does not block becomes runnable.\<close>

definition wake_signalled :: "int \<Rightarrow> task_struct \<Rightarrow> task_struct" where
  "wake_signalled now t =
     (let t1 = (if t_alarm t \<noteq> 0 \<and> t_alarm t < now
                then t\<lparr>t_signal := t_signal t OR S_bit SIGALRM, t_alarm := 0\<rparr> else t) in
      if t_signal t1 AND NOT (BLOCKABLE AND t_blocked t1) \<noteq> 0 \<and> t_state t1 = TASK_INTERRUPTIBLE
      then t1\<lparr>t_state := TASK_RUNNING\<rparr> else t1)"

text \<open>\<open>p\<close> runs from the last slot down to slot 1.\<close>

definition on_tasks ::
  "(task_struct \<Rightarrow> task_struct) \<Rightarrow> 'z sched_state_scheme \<Rightarrow> 'z sched_state_scheme" where
  "on_tasks f s = fold (\<lambda>i s. if task s ! i \<noteq> 0 then upd_task (task s ! i) f s else s)
     (rev [1..<NR_TASKS]) s"

text \<open>The selection loop: the runnable task with the largest counter, the highest slot first
  among equals; the counter found and the slot, \<open>(-1, 0)\<close> when nothing is runnable.\<close>

definition pick_next :: "'z sched_state_scheme \<Rightarrow> int \<times> nat" where
  "pick_next s = fold (\<lambda>i (c, next).
       if task s ! i \<noteq> 0 \<and> t_state (tasks s (task s ! i)) = TASK_RUNNING
          \<and> t_counter (tasks s (task s ! i)) > c
       then (t_counter (tasks s (task s ! i)), i) else (c, next))
     (rev [1..<NR_TASKS]) (- 1, 0)"

definition recalc :: "task_struct \<Rightarrow> task_struct" where
  "recalc t = t\<lparr>t_counter := t_counter t div 2 + t_priority t\<rparr>"

definition switch_to :: "nat \<Rightarrow> 'z sched_state_scheme \<Rightarrow> 'z sched_state_scheme" where
  "switch_to n s =
     (if task s ! n = current s then s
      else s\<lparr>current := task s ! n, cr0_ts := (last_task_used_math s \<noteq> task s ! n)\<rparr>)"

text \<open>The whole of \<open>schedule\<close> up to and including the switch; \<open>None\<close> if the
  recalculation loop never ends.\<close>

definition schedule_to :: "'z sched_state_scheme \<Rightarrow> 'z sched_state_scheme option" where
  "schedule_to s = map_option (\<lambda>s. switch_to (snd (pick_next s)) s)
     (while_option (\<lambda>s. fst (pick_next s) = 0) (on_tasks recalc)
        (on_tasks (wake_signalled (jiffies s)) s))"

definition schedule :: "(unit, 'z sched_state_scheme) kern" where
  "schedule = (\<lambda>s es. let me = current s in
     case schedule_to s of
       None \<Rightarrow> Loops s
     | Some s1 \<Rightarrow>
         if current s1 = me then Ok () s1 es
         else (case es of [] \<Rightarrow> Asleep s1 | f # es' \<Rightarrow> Ok () ((f s1)\<lparr>current := me\<rparr>) es'))"

definition sys_pause :: "(int, 'z sched_state_scheme) kern" where
  "sys_pause = kseq (upd_cur (\<lambda>t. t\<lparr>t_state := TASK_INTERRUPTIBLE\<rparr>)) (kseq schedule (ret 0))"

section \<open>Sleeping and waking\<close>

type_synonym 's waitq = "('s \<Rightarrow> u32) \<times> (u32 \<Rightarrow> 's \<Rightarrow> 's)"

definition sleep_on :: "'z sched_state_scheme waitq \<Rightarrow> (unit, 'z sched_state_scheme) kern" where
  "sleep_on p =
     kbind (gets (\<lambda>s. (current s, init_task s))) (\<lambda>(me, init).
     if me = init then kpanic ''task[0] trying to sleep''
     else kbind (gets (fst p)) (\<lambda>tmp.
       kseq (modify (snd p me))
      (kseq (upd_cur (\<lambda>t. t\<lparr>t_state := TASK_UNINTERRUPTIBLE\<rparr>))
      (kseq schedule
            (kwhen (tmp \<noteq> 0) (modify (upd_task tmp (\<lambda>t. t\<lparr>t_state := 0\<rparr>))))))))"

text \<open>The \<open>repeat\<close> of \<open>interruptible_sleep_on\<close>, with fuel: it ends when the task is
  at the head of the queue again or the queue is empty.\<close>

primrec isleep_repeat ::
  "nat \<Rightarrow> 'z sched_state_scheme waitq \<Rightarrow> u32 \<Rightarrow> u32 \<Rightarrow> (unit, 'z sched_state_scheme) kern" where
  "isleep_repeat 0 p me tmp = kloops"
| "isleep_repeat (Suc n) p me tmp =
     kseq (upd_cur (\<lambda>t. t\<lparr>t_state := TASK_INTERRUPTIBLE\<rparr>))
    (kseq schedule
    (kbind (gets (fst p)) (\<lambda>h.
     if h \<noteq> 0 \<and> h \<noteq> me
     then kseq (modify (upd_task h (\<lambda>t. t\<lparr>t_state := 0\<rparr>))) (isleep_repeat n p me tmp)
     else kseq (modify (snd p 0))
               (kwhen (tmp \<noteq> 0) (modify (upd_task tmp (\<lambda>t. t\<lparr>t_state := 0\<rparr>)))))))"

definition interruptible_sleep_on ::
  "nat \<Rightarrow> 'z sched_state_scheme waitq \<Rightarrow> (unit, 'z sched_state_scheme) kern" where
  "interruptible_sleep_on fuel p =
     kbind (gets (\<lambda>s. (current s, init_task s))) (\<lambda>(me, init).
     if me = init then kpanic ''task[0] trying to sleep''
     else kbind (gets (fst p)) (\<lambda>tmp.
       kseq (modify (snd p me)) (isleep_repeat fuel p me tmp)))"

definition wake_up_last :: "'z sched_state_scheme waitq \<Rightarrow> (unit, 'z sched_state_scheme) kern" where
  "wake_up_last p =
     kbind (gets (fst p)) (\<lambda>h.
     kwhen (h \<noteq> 0) (kseq (modify (upd_task h (\<lambda>t. t\<lparr>t_state := 0\<rparr>))) (modify (snd p 0))))"

text \<open>\<open>while (locked) sleep_on(queue)\<close>, the waiting loop of buffers, inodes and super
  blocks. A pass that does not end the loop sleeps, and a sleep consumes an interference, so
  one pass more than there are interferences is enough.\<close>

fun wait_while ::
  "('z sched_state_scheme \<Rightarrow> bool) \<Rightarrow> 'z sched_state_scheme waitq \<Rightarrow> nat \<Rightarrow>
   (unit, 'z sched_state_scheme) kern" where
  "wait_while locked p 0 = kbind (gets locked) (\<lambda>l. if l then kloops else skip)"
| "wait_while locked p (Suc n) =
     kbind (gets locked) (\<lambda>l. if l then kseq (sleep_on p) (wait_while locked p n) else skip)"

definition wait_on ::
  "('z sched_state_scheme \<Rightarrow> bool) \<Rightarrow> 'z sched_state_scheme waitq \<Rightarrow>
   (unit, 'z sched_state_scheme) kern" where
  "wait_on locked p = (\<lambda>s es. wait_while locked p (Suc (length es)) s es)"

section \<open>Floppy motors\<close>

abbreviation (input) FD_DOR :: u32 where "FD_DOR \<equiv> 0x3f2"

definition motor_queue :: "nat \<Rightarrow> 'z sched_state_scheme waitq" where
  "motor_queue nr = (\<lambda>s. wait_motor s ! nr, \<lambda>v s. s\<lparr>wait_motor := (wait_motor s)[nr := v]\<rparr>)"

definition ticks_to_floppy_on :: "nat \<Rightarrow> (int, 'z sched_state_scheme) kern" where
  "ticks_to_floppy_on nr =
     (if nr > 3 then kpanic ''floppy_on: nr>3''
      else kseq (modify (\<lambda>s. s\<lparr>moff_timer := (moff_timer s)[nr := 10000]\<rparr>))
          (kbind (gets (\<lambda>s. (current_DOR s, selected s))) (\<lambda>(dor, sel).
           let m0 = push_bit nr 0x10 OR dor;
               mask = (if sel = 0 then (m0 AND 0xFC) OR of_nat nr else m0) in
           kseq (kwhen (mask \<noteq> dor)
             (kblock [outb mask FD_DOR,
                modify (\<lambda>s. if (mask XOR dor) AND 0xf0 \<noteq> 0
                  then s\<lparr>mon_timer := (mon_timer s)[nr := HZ div 2]\<rparr>
                  else if mon_timer s ! nr < 2
                  then s\<lparr>mon_timer := (mon_timer s)[nr := 2]\<rparr> else s),
                modify (\<lambda>s. s\<lparr>current_DOR := mask\<rparr>)]))
           (gets (\<lambda>s. mon_timer s ! nr)))))"

primrec floppy_on :: "nat \<Rightarrow> nat \<Rightarrow> (unit, 'z sched_state_scheme) kern" where
  "floppy_on 0 nr = kloops"
| "floppy_on (Suc fuel) nr =
     kbind (ticks_to_floppy_on nr) (\<lambda>ticks.
     if ticks \<noteq> 0 then kseq (sleep_on (motor_queue nr)) (floppy_on fuel nr) else skip)"

definition floppy_off :: "nat \<Rightarrow> (unit, 'z sched_state_scheme) kern" where
  "floppy_off nr = modify (\<lambda>s. s\<lparr>moff_timer := (moff_timer s)[nr := 3 * HZ]\<rparr>)"

definition do_floppy_timer :: "(unit, 'z sched_state_scheme) kern" where
  "do_floppy_timer = kfor [0..<4] (\<lambda>i.
     let mask = push_bit i 0x10 in
     kbind (gets (\<lambda>s. (current_DOR s, mon_timer s ! i, moff_timer s ! i))) (\<lambda>(dor, mon, moff).
     if mask AND dor = 0 then skip
     else if mon \<noteq> 0 then
       kseq (modify (\<lambda>s. s\<lparr>mon_timer := (mon_timer s)[i := mon - 1]\<rparr>))
            (kwhen (mon - 1 = 0) (wake_up_last (motor_queue i)))
     else if moff = 0 then
       kseq (modify (\<lambda>s. s\<lparr>current_DOR := dor AND NOT mask\<rparr>)) (outb (dor AND NOT mask) FD_DOR)
     else modify (\<lambda>s. s\<lparr>moff_timer := (moff_timer s)[i := moff - 1]\<rparr>)))"

section \<open>Timers\<close>

text \<open>The sorting loop of \<open>add_timer\<close>: the new entry starts at the head of the list and
  trades contents with its successor while that one is due earlier. The list has at most 64
  entries, which bounds the loop.\<close>

fun sift_timer :: "nat \<Rightarrow> nat \<Rightarrow> timer list \<Rightarrow> timer list option" where
  "sift_timer 0 p l = None"
| "sift_timer (Suc n) p l =
     (case tl_next (l ! p) of
        None \<Rightarrow> Some l
      | Some q \<Rightarrow>
          if tl_jiffies (l ! q) < tl_jiffies (l ! p)
          then sift_timer n q
            (upd_nth q (\<lambda>e. e\<lparr>tl_fn := tl_fn (l ! p), tl_jiffies := tl_jiffies (l ! p) - tl_jiffies (l ! q)\<rparr>)
            (upd_nth p (\<lambda>e. e\<lparr>tl_fn := tl_fn (l ! q), tl_jiffies := tl_jiffies (l ! q)\<rparr>) l))
          else Some l)"

text \<open>Function pointers are numbers; \<open>call\<close> says what calling one does.\<close>

definition add_timer ::
  "(nat \<Rightarrow> (unit, 'z sched_state_scheme) kern) \<Rightarrow> int \<Rightarrow> nat option \<Rightarrow>
   (unit, 'z sched_state_scheme) kern" where
  "add_timer call ticks fn =
     (case fn of None \<Rightarrow> skip
      | Some f \<Rightarrow>
          if ticks \<le> 0 then call f
          else kbind (gets timer_list) (\<lambda>l.
            case scan_up (\<lambda>i. tl_fn (l ! i) = None) TIME_REQUESTS of
              None \<Rightarrow> kpanic ''No more time requests free''
            | Some p \<Rightarrow>
                kbind (gets next_timer) (\<lambda>nt.
                let l1 = l[p := \<lparr>tl_jiffies = ticks, tl_fn = Some f, tl_next = nt\<rparr>] in
                kseq (modify (\<lambda>s. s\<lparr>timer_list := l1, next_timer := Some p\<rparr>))
                (case sift_timer (Suc TIME_REQUESTS) p l1 of
                   None \<Rightarrow> kloops
                 | Some l2 \<Rightarrow> modify (\<lambda>s. s\<lparr>timer_list := l2\<rparr>)))))"

primrec run_timers ::
  "nat \<Rightarrow> (nat \<Rightarrow> (unit, 'z sched_state_scheme) kern) \<Rightarrow> (unit, 'z sched_state_scheme) kern" where
  "run_timers 0 call = kloops"
| "run_timers (Suc fuel) call =
     kbind (gets (\<lambda>s. (next_timer s, timer_list s))) (\<lambda>(nt, l).
     case nt of None \<Rightarrow> skip
     | Some p \<Rightarrow>
         if tl_jiffies (l ! p) > 0 then skip
         else (case tl_fn (l ! p) of
           None \<Rightarrow> kfault
         | Some f \<Rightarrow>
             kseq (modify (\<lambda>s. s\<lparr>timer_list := upd_nth p (\<lambda>e. e\<lparr>tl_fn := None\<rparr>) l,
                    next_timer := tl_next (l ! p)\<rparr>))
            (kseq (call f) (run_timers fuel call))))"

definition sysbeepstop :: "(unit, 'z sched_state_scheme) kern" where
  "sysbeepstop = kbind (gets (\<lambda>s. port_in s 0x61)) (\<lambda>v. outb (v AND 0xFC) 0x61)"

definition do_timer ::
  "nat \<Rightarrow> (nat \<Rightarrow> (unit, 'z sched_state_scheme) kern) \<Rightarrow> int \<Rightarrow> (unit, 'z sched_state_scheme) kern" where
  "do_timer fuel call cpl =
     kbind (gets beepcount) (\<lambda>b.
     kseq (kwhen (b \<noteq> 0)
       (kseq (modify (\<lambda>s. s\<lparr>beepcount := b - 1\<rparr>)) (kwhen (b - 1 = 0) sysbeepstop)))
    (kseq (if cpl \<noteq> 0 then upd_cur (\<lambda>t. t\<lparr>t_utime := t_utime t + 1\<rparr>)
           else upd_cur (\<lambda>t. t\<lparr>t_stime := t_stime t + 1\<rparr>))
    (kbind (gets next_timer) (\<lambda>nt.
     kseq (case nt of None \<Rightarrow> skip
           | Some p \<Rightarrow>
               kseq (modify (\<lambda>s. s\<lparr>timer_list :=
                       upd_nth p (\<lambda>e. e\<lparr>tl_jiffies := tl_jiffies e - 1\<rparr>) (timer_list s)\<rparr>))
                    (run_timers fuel call))
    (kbind (gets current_DOR) (\<lambda>dor.
     kseq (kwhen (dor AND 0xf0 \<noteq> 0) do_floppy_timer)
    (kseq (upd_cur (\<lambda>t. t\<lparr>t_counter := t_counter t - 1\<rparr>))
    (kbind (gets (\<lambda>s. t_counter (cur s))) (\<lambda>c.
     if c > 0 then skip
     else kseq (upd_cur (\<lambda>t. t\<lparr>t_counter := 0\<rparr>))
               (if cpl = 0 then skip else schedule))))))))))"

section \<open>Small system calls\<close>

definition sys_alarm :: "int \<Rightarrow> (int, 'z sched_state_scheme) kern" where
  "sys_alarm seconds =
     kbind (gets (\<lambda>s. (t_alarm (cur s), jiffies s))) (\<lambda>(old, now).
     kseq (upd_cur (\<lambda>t. t\<lparr>t_alarm := (if seconds > 0 then now + HZ * seconds else 0)\<rparr>))
          (ret (if old \<noteq> 0 then cdiv (old - now) HZ else old)))"

definition sys_getpid :: "(int, 'z sched_state_scheme) kern" where
  "sys_getpid = gets (\<lambda>s. t_pid (cur s))"

definition sys_getppid :: "(int, 'z sched_state_scheme) kern" where
  "sys_getppid = gets (\<lambda>s. t_father (cur s))"

definition sys_getuid :: "(int, 'z sched_state_scheme) kern" where
  "sys_getuid = gets (\<lambda>s. uint (t_uid (cur s)))"

definition sys_geteuid :: "(int, 'z sched_state_scheme) kern" where
  "sys_geteuid = gets (\<lambda>s. uint (t_euid (cur s)))"

definition sys_getgid :: "(int, 'z sched_state_scheme) kern" where
  "sys_getgid = gets (\<lambda>s. uint (t_gid (cur s)))"

definition sys_getegid :: "(int, 'z sched_state_scheme) kern" where
  "sys_getegid = gets (\<lambda>s. uint (t_egid (cur s)))"

definition sys_nice :: "int \<Rightarrow> (int, 'z sched_state_scheme) kern" where
  "sys_nice increment =
     kseq (upd_cur (\<lambda>t. if t_priority t - increment > 0
             then t\<lparr>t_priority := t_priority t - increment\<rparr> else t))
          (ret 0)"

text \<open>The descriptors of a task lie inside its structure, at the offsets the compiler gives
  them.\<close>

definition ldt_off :: u32 where "ldt_off = 720"
definition tss_off :: u32 where "tss_off = 744"

definition sched_init :: "u32 \<Rightarrow> u32 \<Rightarrow> (unit, 'z sched_state_scheme) kern" where
  "sched_init timer_interrupt system_call =
     kblock [
       modify (\<lambda>s. s\<lparr>gdt := (gdt s)[FIRST_TSS_ENTRY := set_tssldt_desc (init_task s + tss_off) 0x89,
                                    FIRST_LDT_ENTRY := set_tssldt_desc (init_task s + ldt_off) 0x82]\<rparr>),
       kfor [1..<NR_TASKS] (\<lambda>i. modify (\<lambda>s.
         s\<lparr>task := (task s)[i := 0],
           gdt := (gdt s)[2 * i + 4 := \<lparr>desc_a = 0, desc_b = 0\<rparr>, 2 * i + 5 := \<lparr>desc_a = 0, desc_b = 0\<rparr>]\<rparr>)),
       outb 0x36 0x43, outb (word_of_int (11931 mod 256)) 0x40, outb (word_of_int (11931 div 256)) 0x40,
       modify (\<lambda>s. s\<lparr>idt := (idt s)[0x20 := set_intr_gate timer_interrupt]\<rparr>),
       kbind (gets (\<lambda>s. port_in s 0x21)) (\<lambda>v. outb (v AND NOT 1) 0x21),
       modify (\<lambda>s. s\<lparr>idt := (idt s)[0x80 := set_system_gate system_call]\<rparr>)]"

text \<open>The first task, as \<open>INIT_TASK\<close> sets it up at the address \<open>addr\<close>.\<close>

definition INIT_TASK :: "u32 \<Rightarrow> task_struct" where
  "INIT_TASK addr =
     \<lparr>t_state = 0, t_counter = 15, t_priority = 15,
      t_signal = 0,
      t_sigaction = replicate 32 \<lparr>sa_handler = 0, sa_mask = 0, sa_flags = 0, sa_restorer = 0\<rparr>,
      t_blocked = 0,
      t_exit_code = 0, t_start_code = 0, t_end_code = 0, t_end_data = 0, t_brk = 0, t_start_stack = 0,
      t_pid = 0, t_father = - 1, t_pgrp = 0, t_session = 0, t_leader = 0,
      t_uid = 0, t_euid = 0, t_suid = 0, t_gid = 0, t_egid = 0, t_sgid = 0,
      t_alarm = 0, t_utime = 0, t_stime = 0, t_cutime = 0, t_cstime = 0, t_start_time = 0,
      t_used_math = 0,
      t_tty = - 1, t_umask = 18, t_pwd = None, t_root = None, t_executable = None, t_close_on_exec = 0,
      t_filp = replicate 20 None,
      t_ldt = [\<lparr>desc_a = 0, desc_b = 0\<rparr>, \<lparr>desc_a = 0x9f, desc_b = 0xc0fa00\<rparr>,
               \<lparr>desc_a = 0x9f, desc_b = 0xc0f200\<rparr>],
      t_tss = \<lparr>tss_back_link = 0, tss_esp0 = 4096 + addr, tss_ss0 = 0x10, tss_esp1 = 0, tss_ss1 = 0, tss_esp2 = 0, tss_ss2 = 0,
        tss_cr3 = 0, tss_eip = 0, tss_eflags = 0, tss_eax = 0, tss_ecx = 0, tss_edx = 0, tss_ebx = 0, tss_esp = 0, tss_ebp = 0, tss_esi = 0, tss_edi = 0,
        es_sel = 0x17, cs_sel = 0x17, ss_sel = 0x17, ds_sel = 0x17, fs_sel = 0x17, gs_sel = 0x17,
        ldt_sel = LDT_sel 0, trace_bitmap = 0x80000000, i387 = []\<rparr>\<rparr>"

text \<open>A machine with two tasks, the second one running, for concrete runs.\<close>

definition sched_boot :: sched_state where
  "sched_boot = \<lparr>klog = [], mem = (\<lambda>_. 0), mem_map = replicate PAGING_PAGES 0,
     HIGH_MEMORY = 0x1000000, cr3_loads = 0,
     task = 0x10000 # 0x20000 # replicate 62 0,
     tasks = (\<lambda>p. (INIT_TASK p)\<lparr>t_pid := (if p = 0x20000 then 1 else 0)\<rparr>),
     init_task = 0x10000, current = 0x20000, last_task_used_math = 0, cr0_ts = False, fpu = [],
     jiffies = 0, startup_time = 0, last_pid = 1,
     gdt = replicate 256 \<lparr>desc_a = 0, desc_b = 0\<rparr>, idt = replicate 256 \<lparr>desc_a = 0, desc_b = 0\<rparr>,
     timer_list = replicate 64 \<lparr>tl_jiffies = 0, tl_fn = None, tl_next = None\<rparr>, next_timer = None,
     wait_motor = replicate 4 0, mon_timer = [50, 0, 0, 0], moff_timer = replicate 4 0,
     current_DOR = 0x0C, selected = 0, beepcount = 0, port_out = [], port_in = (\<lambda>_. 0),
     umem = (\<lambda>_. 0)\<rparr>"

section \<open>Facts about tasks\<close>

lemma tasks_upd_task [simp]: "tasks (upd_task p f s) = (tasks s)(p := f (tasks s p))"
  and task_upd_task [simp]: "task (upd_task p f s) = task s"
  and current_upd_task [simp]: "current (upd_task p f s) = current s"
  and init_task_upd_task [simp]: "init_task (upd_task p f s) = init_task s"
  and jiffies_upd_task [simp]: "jiffies (upd_task p f s) = jiffies s"
  by (simp_all add: upd_task_def)

lemma on_tasks_frame [simp]:
  "task (on_tasks f s) = task s" "current (on_tasks f s) = current s"
  "init_task (on_tasks f s) = init_task s" "jiffies (on_tasks f s) = jiffies s"
proof -
  have "task (fold (\<lambda>i s. if task s ! i \<noteq> 0 then upd_task (task s ! i) f s else s) is s) = task s
      \<and> current (fold (\<lambda>i s. if task s ! i \<noteq> 0 then upd_task (task s ! i) f s else s) is s) = current s
      \<and> init_task (fold (\<lambda>i s. if task s ! i \<noteq> 0 then upd_task (task s ! i) f s else s) is s) = init_task s
      \<and> jiffies (fold (\<lambda>i s. if task s ! i \<noteq> 0 then upd_task (task s ! i) f s else s) is s) = jiffies s" for "is"
    by (induction "is" arbitrary: s) auto
  then show "task (on_tasks f s) = task s" "current (on_tasks f s) = current s"
    "init_task (on_tasks f s) = init_task s" "jiffies (on_tasks f s) = jiffies s"
    by (simp_all add: on_tasks_def)
qed

text \<open>What a pass over the task table does to one task: nothing when no slot holds it, and
  otherwise the function as many times as slots hold it.\<close>

lemma on_tasks_tasks:
  "tasks (on_tasks f s) p =
     (f ^^ (if p = 0 then 0 else card {i. 1 \<le> i \<and> i < NR_TASKS \<and> task s ! i = p})) (tasks s p)"
proof -
  have "tasks (fold (\<lambda>i s. if task s ! i \<noteq> 0 then upd_task (task s ! i) f s else s) is s) p =
     (f ^^ (if p = 0 then 0 else card {i \<in> set is. task s ! i = p})) (tasks s p)"
    if "distinct is" for "is"
    using that
  proof (induction "is" arbitrary: s)
    case (Cons a "is")
    have "{i \<in> set (a # is). task s ! i = p}
        = (if task s ! a = p then insert a {i \<in> set is. task s ! i = p} else {i \<in> set is. task s ! i = p})"
      by auto
    moreover have "a \<notin> {i \<in> set is. task s ! i = p}" using Cons.prems by simp
    ultimately show ?case using Cons by (auto simp: funpow_swap1)
  qed simp
  from this [of "rev [1..<NR_TASKS]"] show ?thesis
    by (simp add: on_tasks_def conj_commute conj_left_commute)
qed

lemma on_tasks_keeps:
  assumes "P (tasks s p)" and "\<And>t. P t \<Longrightarrow> P (f t)"
  shows "P (tasks (on_tasks f s) p)"
proof -
  have "P ((f ^^ n) (tasks s p))" for n by (induction n) (use assms in auto)
  then show ?thesis by (simp only: on_tasks_tasks)
qed

lemma on_tasks_reaches:
  assumes "P (tasks s p)" and "\<And>t. P t \<Longrightarrow> Q (f t)" and "\<And>t. Q t \<Longrightarrow> P t"
    and "1 \<le> i" "i < NR_TASKS" "task s ! i = p" "p \<noteq> 0"
  shows "Q (tasks (on_tasks f s) p)"
proof -
  have Q: "Q ((f ^^ Suc n) (tasks s p))" for n by (induction n) (use assms(1-3) in auto)
  have "finite {i. 1 \<le> i \<and> i < NR_TASKS \<and> task s ! i = p}" by (rule finite_subset [of _ "{..<NR_TASKS}"]) auto
  then have "card {i. 1 \<le> i \<and> i < NR_TASKS \<and> task s ! i = p} \<noteq> 0"
    using assms(4-6) by (auto simp: card_eq_0_iff)
  then obtain n where "card {i. 1 \<le> i \<and> i < NR_TASKS \<and> task s ! i = p} = Suc n"
    using not0_implies_Suc by blast
  with Q [of n] assms(7) show ?thesis by (simp only: on_tasks_tasks if_False)
qed

definition runnable :: "'z sched_state_scheme \<Rightarrow> nat \<Rightarrow> bool" where
  "runnable s i \<longleftrightarrow> 1 \<le> i \<and> i < NR_TASKS \<and> task s ! i \<noteq> 0 \<and> t_state (tasks s (task s ! i)) = TASK_RUNNING"

abbreviation counter_of :: "'z sched_state_scheme \<Rightarrow> nat \<Rightarrow> int" where
  "counter_of s i \<equiv> t_counter (tasks s (task s ! i))"

lemma pick_fold:
  assumes "fold (\<lambda>i (c, next).
       if task s ! i \<noteq> 0 \<and> t_state (tasks s (task s ! i)) = TASK_RUNNING
          \<and> t_counter (tasks s (task s ! i)) > c
       then (t_counter (tasks s (task s ! i)), i) else (c, next)) is (c0, n0) = (c, n)"
    and "set is \<subseteq> {1..<NR_TASKS}"
  shows "c0 \<le> c \<and> (\<forall>i \<in> set is. runnable s i \<longrightarrow> counter_of s i \<le> c) \<and>
    (c = c0 \<and> n = n0 \<or> c0 < c \<and> n \<in> set is \<and> runnable s n \<and> counter_of s n = c)"
  using assms
proof (induction "is" arbitrary: c0 n0)
  case (Cons a "is")
  show ?case
  proof (cases "task s ! a \<noteq> 0 \<and> t_state (tasks s (task s ! a)) = TASK_RUNNING \<and> counter_of s a > c0")
    case True
    with Cons.prems Cons.IH [of "counter_of s a" a] show ?thesis by (auto simp: runnable_def)
  next
    case False
    with Cons.prems Cons.IH [of c0 n0] show ?thesis by (auto simp: runnable_def)
  qed
qed simp

lemma pick_next_max:
  assumes "pick_next s = (c, n)"
  shows "- 1 \<le> c" "\<And>i. runnable s i \<Longrightarrow> counter_of s i \<le> c"
    "c = - 1 \<and> n = 0 \<or> - 1 < c \<and> runnable s n \<and> counter_of s n = c"
  using pick_fold [OF assms [unfolded pick_next_def]] by (auto simp: runnable_def)

text \<open>Every task in the table has time left or at least none owed, and a priority that gives
  it some.\<close>

definition entitled :: "task_struct \<Rightarrow> bool" where
  "entitled t \<longleftrightarrow> 0 \<le> t_counter t \<and> 0 < t_priority t"

definition sched_wf :: "'z sched_state_scheme \<Rightarrow> bool" where
  "sched_wf s \<longleftrightarrow> (\<forall>i. 1 \<le> i \<longrightarrow> i < NR_TASKS \<longrightarrow> task s ! i \<noteq> 0 \<longrightarrow>
     entitled (tasks s (task s ! i)))"

lemma sched_wf_on_tasks:
  assumes "sched_wf s" and "\<And>t. entitled t \<Longrightarrow> entitled (f t)"
  shows "sched_wf (on_tasks f s)"
  using assms(1) by (auto simp: sched_wf_def intro: on_tasks_keeps assms(2))

lemma wake_signalled_frame [simp]:
  "t_counter (wake_signalled now t) = t_counter t" "t_priority (wake_signalled now t) = t_priority t"
  by (simp_all add: wake_signalled_def Let_def)

lemma recalc_positive:
  assumes "sched_wf s" "runnable (on_tasks recalc s) i"
  shows "0 < counter_of (on_tasks recalc s) i"
proof -
  have slot: "1 \<le> i" "i < NR_TASKS" "task s ! i \<noteq> 0" using assms(2) by (auto simp: runnable_def)
  have "0 < t_counter (tasks (on_tasks recalc s) (task s ! i)) \<and> entitled (tasks (on_tasks recalc s) (task s ! i))"
  proof (rule on_tasks_reaches [of entitled, OF _ _ _ slot(1,2) refl slot(3)])
    show "entitled (tasks s (task s ! i))" using assms(1) slot by (auto simp: sched_wf_def)
    show "0 < t_counter (recalc t) \<and> entitled (recalc t)" if "entitled t" for t
      using that pos_imp_zdiv_nonneg_iff [of 2 "t_counter t"] by (auto simp: entitled_def recalc_def)
  qed auto
  then show ?thesis by simp
qed

lemma switch_to_frame [simp]:
  "task (switch_to n s) = task s" "tasks (switch_to n s) = tasks s"
  "init_task (switch_to n s) = init_task s" "current (switch_to n s) = task s ! n"
  "runnable (switch_to n s) i = runnable s i"
  by (simp_all add: switch_to_def runnable_def)

text \<open>C2: when every task in the table has a non-negative counter and a positive
  priority, \<open>schedule\<close> always ends its recalculation loop, and the task it switches to is
  runnable, has time left and has the largest counter of all runnable tasks; slot 0 is chosen only
  when no other task is runnable.\<close>

theorem schedule_to_selects:
  assumes "sched_wf s"
  shows "\<exists>s' n. schedule_to s = Some s' \<and> current s' = task s' ! n \<and>
    (if n = 0 then \<forall>i. \<not> runnable s' i
     else runnable s' n \<and> 0 < counter_of s' n \<and> (\<forall>i. runnable s' i \<longrightarrow> counter_of s' i \<le> counter_of s' n))"
proof -
  define s1 where "s1 = on_tasks (wake_signalled (jiffies s)) s"
  have wf1: "sched_wf s1" unfolding s1_def by (rule sched_wf_on_tasks [OF assms]) (simp add: entitled_def)
  obtain s2 where loop: "while_option (\<lambda>s. fst (pick_next s) = 0) (on_tasks recalc) s1 = Some s2"
    and sel: "fst (pick_next s2) \<noteq> 0" and wf2: "sched_wf s2"
  proof (cases "fst (pick_next s1) = 0")
    case False
    then show ?thesis using wf1 that [of s1] by (simp add: while_option_unfold)
  next
    case True
    let ?s = "on_tasks recalc s1"
    obtain c n where pick: "pick_next ?s = (c, n)" by force
    have "c \<noteq> 0" using pick_next_max(3) [OF pick] recalc_positive [OF wf1, of n] by auto
    moreover have "sched_wf ?s" by (rule sched_wf_on_tasks [OF wf1]) (auto simp: recalc_def entitled_def)
    ultimately show ?thesis using True that [of ?s] pick by (simp add: while_option_unfold)
  qed
  obtain c n where pick: "pick_next s2 = (c, n)" by force
  note max = pick_next_max [OF pick]
  let ?s' = "switch_to n s2"
  have "schedule_to s = Some ?s'" using loop pick by (simp add: schedule_to_def s1_def)
  moreover have "if n = 0 then \<forall>i. \<not> runnable ?s' i
     else runnable ?s' n \<and> 0 < counter_of ?s' n \<and> (\<forall>i. runnable ?s' i \<longrightarrow> counter_of ?s' i \<le> counter_of ?s' n)"
  proof (cases "n = 0")
    case True
    then have "c = - 1" using max(3) by (auto simp: runnable_def)
    then have "\<not> runnable s2 i" for i
      using max(2) [of i] wf2 by (fastforce simp: sched_wf_def runnable_def entitled_def)
    with True show ?thesis by simp
  next
    case False
    with max sel pick show ?thesis by auto
  qed
  ultimately show ?thesis by (intro exI [of _ ?s'] exI [of _ n]) simp
qed

section \<open>Waiting for a lock\<close>

text \<open>Whatever the other tasks do, the waiting loop comes back only when the condition it
  waits for holds.\<close>

lemma wait_while_Ok:
  "wait_while locked p n s es = Ok v s' es' \<Longrightarrow> \<not> locked s'"
proof (induction n arbitrary: s es)
  case 0
  then show ?case by (auto simp: kern_defs split: if_splits)
next
  case (Suc n)
  show ?case
  proof (cases "locked s")
    case True
    with Suc.prems have "kbind (sleep_on p) (\<lambda>_. wait_while locked p n) s es = Ok v s' es'"
      by (simp add: kseq_def gets_def kbind_def)
    then show ?thesis using Suc.IH by (auto simp: kbind_Ok)
  next
    case False
    with Suc.prems show ?thesis by (simp add: kern_defs)
  qed
qed

lemma wait_on_Ok: "wait_on locked p s es = Ok v s' es' \<Longrightarrow> \<not> locked s'"
  unfolding wait_on_def by (rule wait_while_Ok)

text \<open>A task that has made itself uninterruptible and calls the scheduler is not selected:
  the call sleeps, and a sleep takes one interference. So the waiting loop always ends.\<close>

definition idle_ok :: "'z sched_state_scheme \<Rightarrow> bool" where
  "idle_ok s \<longleftrightarrow> sched_wf s \<and> task s ! 0 = init_task s"

lemma schedule_to_not_me:
  assumes "idle_ok s" "current s \<noteq> init_task s" "t_state (cur s) = TASK_UNINTERRUPTIBLE"
  shows "\<exists>s'. schedule_to s = Some s' \<and> current s' \<noteq> current s \<and> idle_ok s' \<and> init_task s' = init_task s"
proof -
  from schedule_to_selects [of s] assms(1) obtain s' n
    where s': "schedule_to s = Some s'" "current s' = task s' ! n"
      "n = 0 \<or> runnable s' n" by (auto simp: idle_ok_def split: if_splits)
  let ?I = "\<lambda>u. sched_wf u \<and> task u = task s \<and> init_task u = init_task s \<and> t_state (tasks u (current s)) = TASK_UNINTERRUPTIBLE"
  have I: "?I s'"
  proof -
    obtain u where u: "while_option (\<lambda>s. fst (pick_next s) = 0) (on_tasks recalc)
        (on_tasks (wake_signalled (jiffies s)) s) = Some u" and "s' = switch_to (snd (pick_next u)) u"
      using s'(1) by (auto simp: schedule_to_def)
    moreover have "?I u"
    proof (rule while_option_rule [OF _ u])
      show "?I (on_tasks (wake_signalled (jiffies s)) s)"
        using assms(3) on_tasks_keeps [of "\<lambda>t. t_state t = TASK_UNINTERRUPTIBLE" s "current s"]
          sched_wf_on_tasks [of s "wake_signalled (jiffies s)"] assms(1)
        by (auto simp: cur_def wake_signalled_def Let_def entitled_def idle_ok_def)
      show "?I (on_tasks recalc v)" if "?I v" for v
        using that on_tasks_keeps [of "\<lambda>t. t_state t = TASK_UNINTERRUPTIBLE" v "current s" recalc]
          sched_wf_on_tasks [of v recalc]
        by (auto simp: recalc_def entitled_def)
    qed
    ultimately show ?thesis by (auto simp: sched_wf_def)
  qed
  have "current s' \<noteq> current s"
  proof (cases "n = 0")
    case True
    with s' I assms(1,2) show ?thesis by (auto simp: idle_ok_def)
  next
    case False
    with s' I show ?thesis by (auto simp: runnable_def)
  qed
  with s'(1) I assms(1) show ?thesis by (auto simp: idle_ok_def)
qed

lemma idle_ok_upd_task:
  "idle_ok s \<Longrightarrow> t_counter (f (tasks s p)) = t_counter (tasks s p) \<Longrightarrow>
   t_priority (f (tasks s p)) = t_priority (tasks s p) \<Longrightarrow> idle_ok (upd_task p f s)"
  by (auto simp: idle_ok_def sched_wf_def entitled_def)

text \<open>A wait queue that is a variable of its own: writing it touches no task.\<close>

definition own_queue :: "'z sched_state_scheme waitq \<Rightarrow> bool" where
  "own_queue p \<longleftrightarrow> (\<forall>v s. task (snd p v s) = task s \<and> tasks (snd p v s) = tasks s \<and>
     current (snd p v s) = current s \<and> init_task (snd p v s) = init_task s)"

text \<open>The environments that keep the scheduler's tables sane.\<close>

abbreviation keeps_idle_ok :: "u32 \<Rightarrow> 'z sched_state_scheme \<Rightarrow> 'z sched_state_scheme \<Rightarrow> bool" where
  "keeps_idle_ok init t t' \<equiv> idle_ok t \<and> init_task t = init \<longrightarrow> idle_ok t' \<and> init_task t' = init"

lemma sleep_on_sleeps:
  assumes "idle_ok s" "init_task s = init" "current s \<noteq> init" "own_queue p"
    and "conforms (keeps_idle_ok init) es"
  shows "case es of [] \<Rightarrow> \<exists>s'. sleep_on p s es = Asleep s'
    | f # fs \<Rightarrow> \<exists>s'. sleep_on p s es = Ok () s' fs \<and> idle_ok s' \<and> init_task s' = init \<and>
        current s' = current s \<and>
        (\<exists>u. s' = (if fst p s \<noteq> 0 then upd_task (fst p s) (\<lambda>t. t\<lparr>t_state := 0\<rparr>) ((f u)\<lparr>current := current s\<rparr>)
                else (f u)\<lparr>current := current s\<rparr>))"
proof -
  let ?u = "upd_task (current s) (\<lambda>t. t\<lparr>t_state := TASK_UNINTERRUPTIBLE\<rparr>) (snd p (current s) s)"
  have q: "task (snd p v t) = task t" "tasks (snd p v t) = tasks t" "current (snd p v t) = current t"
    "init_task (snd p v t) = init_task t" for v t using assms(4) by (simp_all add: own_queue_def)
  have "idle_ok (snd p (current s) s)" using assms(1) by (simp add: idle_ok_def sched_wf_def q)
  then have u: "idle_ok ?u" by (rule idle_ok_upd_task) simp_all
  have cu: "current ?u = current s" "init_task ?u = init" "t_state (cur ?u) = TASK_UNINTERRUPTIBLE"
    using assms(2) by (simp_all add: q cur_def)
  then obtain u' where u': "schedule_to ?u = Some u'" "current u' \<noteq> current s" "idle_ok u'" "init_task u' = init"
    using schedule_to_not_me [OF u] assms(3) by auto
  show ?thesis
  proof (cases es)
    case Nil
    with u' assms(2,3) cu(1) show ?thesis
      by (simp add: sleep_on_def upd_cur_def schedule_def kern_defs Let_def q)
  next
    case (Cons f fs)
    then have f: "idle_ok (f u')" "init_task (f u') = init"
      using assms(5) u'(3,4) by (auto simp: conforms_def)
    let ?t = "(f u')\<lparr>current := current s\<rparr>"
    let ?w = "if fst p s \<noteq> 0 then upd_task (fst p s) (\<lambda>t. t\<lparr>t_state := 0\<rparr>) ?t else ?t"
    have t: "idle_ok ?t" using f(1) by (simp add: idle_ok_def sched_wf_def)
    have "sleep_on p s es = Ok () ?w fs"
      using u' assms(2,3) cu(1) Cons
      by (simp add: sleep_on_def upd_cur_def schedule_def kern_defs Let_def q)
    moreover have "idle_ok ?w" using t idle_ok_upd_task [OF t] by simp
    ultimately show ?thesis using Cons f(2) 
      by (simp only: list.case, intro exI [of _ ?w]) (auto intro: exI [of _ u'])
  qed
qed

text \<open>C3: the loop \<open>while (locked) sleep_on(&queue)\<close> of buffers, inodes and super blocks
  comes back, to the same task, only when the lock is off, and the only other outcome is that the
  task is never woken again: it does not panic, fault or spin, whatever the other tasks do as long
  as they keep the scheduler's tables sane.\<close>

theorem wait_on_total:
  assumes "idle_ok s" "init_task s = init" "current s \<noteq> init" "own_queue p"
    and "conforms (keeps_idle_ok init) es"
  shows "(\<exists>s' es'. wait_on locked p s es = Ok () s' es' \<and> \<not> locked s' \<and> current s' = current s)
       \<or> (\<exists>s'. wait_on locked p s es = Asleep s')"
proof -
  have "(\<exists>s' es'. wait_while locked p n s es = Ok () s' es' \<and> \<not> locked s' \<and> current s' = current s)
       \<or> (\<exists>s'. wait_while locked p n s es = Asleep s')" if "length es < n" for n
    using that assms
  proof (induction n arbitrary: s es)
    case (Suc n)
    show ?case
    proof (cases "locked s")
      case False
      then show ?thesis by (simp add: kern_defs)
    next
      case True
      note sl = sleep_on_sleeps [OF Suc.prems(2-)]
      show ?thesis
      proof (cases es)
        case Nil
        with sl True show ?thesis by (auto simp: kern_defs)
      next
        case (Cons f fs)
        with sl obtain s1 where s1: "sleep_on p s es = Ok () s1 fs" "idle_ok s1"
          "init_task s1 = init" "current s1 = current s" by auto
        have "conforms (keeps_idle_ok init) fs" using Suc.prems(6) Cons by (simp add: conforms_def)
        with Suc.IH [of fs s1] Suc.prems Cons s1 True show ?thesis by (auto simp: kern_defs)
      qed
    qed
  qed simp
  from this [of "Suc (length es)"] show ?thesis by (simp add: wait_on_def)
qed

section \<open>Descriptors\<close>

lemma bit_int_field:
  "(w :: int) = push_bit k (mask m) \<Longrightarrow> bit w n \<longleftrightarrow> k \<le> n \<and> n < k + m"
  by (auto simp: bit_simps)

lemma bit_desc_masks:
  "bit (0xff :: int) n \<longleftrightarrow> n < 8" "bit (0xf0 :: int) n \<longleftrightarrow> 4 \<le> n \<and> n < 8"
  "bit (0xfff :: int) n \<longleftrightarrow> n < 12" "bit (0xffff :: int) n \<longleftrightarrow> n < 16"
  "bit (0x00ffff00 :: int) n \<longleftrightarrow> 8 \<le> n \<and> n < 24" "bit (0x00ff0000 :: int) n \<longleftrightarrow> 16 \<le> n \<and> n < 24"
  "bit (0xf0000 :: int) n \<longleftrightarrow> 16 \<le> n \<and> n < 20" "bit (0xffff0000 :: int) n \<longleftrightarrow> 16 \<le> n \<and> n < 32"
  "bit (0xff000000 :: int) n \<longleftrightarrow> 24 \<le> n \<and> n < 32"
  "bit (0xffff000000 :: int) n \<longleftrightarrow> 24 \<le> n \<and> n < 40"
  "bit (0xff00ffff :: int) n \<longleftrightarrow> n < 16 \<or> 24 \<le> n \<and> n < 32"
  "bit (0xf00000 :: int) n \<longleftrightarrow> 20 \<le> n \<and> n < 24" "bit (0xff0000000000 :: int) n \<longleftrightarrow> 40 \<le> n \<and> n < 48"
  "bit (0xff00ffff0000 :: int) n \<longleftrightarrow> 16 \<le> n \<and> n < 32 \<or> 40 \<le> n \<and> n < 48"
proof -
  note f = push_bit_eq_mult mask_eq_exp_minus_1
  show "bit (0xff :: int) n \<longleftrightarrow> n < 8" using bit_int_field [of "0xff" 0 8 n] by (simp add: f)
  show "bit (0xf0 :: int) n \<longleftrightarrow> 4 \<le> n \<and> n < 8" using bit_int_field [of "0xf0" 4 4 n] by (simp add: f)
  show "bit (0xfff :: int) n \<longleftrightarrow> n < 12" using bit_int_field [of "0xfff" 0 12 n] by (simp add: f)
  show lo: "bit (0xffff :: int) n \<longleftrightarrow> n < 16" using bit_int_field [of "0xffff" 0 16 n] by (simp add: f)
  show "bit (0x00ffff00 :: int) n \<longleftrightarrow> 8 \<le> n \<and> n < 24" using bit_int_field [of "0x00ffff00" 8 16 n] by (simp add: f)
  show "bit (0x00ff0000 :: int) n \<longleftrightarrow> 16 \<le> n \<and> n < 24" using bit_int_field [of "0x00ff0000" 16 8 n] by (simp add: f)
  show "bit (0xf0000 :: int) n \<longleftrightarrow> 16 \<le> n \<and> n < 20" using bit_int_field [of "0xf0000" 16 4 n] by (simp add: f)
  show mid: "bit (0xffff0000 :: int) n \<longleftrightarrow> 16 \<le> n \<and> n < 32" using bit_int_field [of "0xffff0000" 16 16 n] by (simp add: f)
  show hi: "bit (0xff000000 :: int) n \<longleftrightarrow> 24 \<le> n \<and> n < 32" using bit_int_field [of "0xff000000" 24 8 n] by (simp add: f)
  show "bit (0xffff000000 :: int) n \<longleftrightarrow> 24 \<le> n \<and> n < 40" using bit_int_field [of "0xffff000000" 24 16 n] by (simp add: f)
  show "bit (0xf00000 :: int) n \<longleftrightarrow> 20 \<le> n \<and> n < 24" using bit_int_field [of "0xf00000" 20 4 n] by (simp add: f)
  show top: "bit (0xff0000000000 :: int) n \<longleftrightarrow> 40 \<le> n \<and> n < 48" using bit_int_field [of "0xff0000000000" 40 8 n] by (simp add: f)
  have "(0xff00ffff0000 :: int) = 0xffff0000 OR 0xff0000000000" by simp
  then show "bit (0xff00ffff0000 :: int) n \<longleftrightarrow> 16 \<le> n \<and> n < 32 \<or> 40 \<le> n \<and> n < 48" by (simp only: bit_or_iff mid top)
  have "(0xff00ffff :: int) = 0xffff OR 0xff000000" by simp
  then show "bit (0xff00ffff :: int) n \<longleftrightarrow> n < 16 \<or> 24 \<le> n \<and> n < 32" by (simp only: bit_or_iff lo hi)
qed

text \<open>The byte moves of \<open>_set_base\<close> and \<open>_get_base\<close> are inverse: the base
  written into a descriptor is the base read back, for every 32-bit base and every descriptor.\<close>

lemma get_base_set_base: "get_base (set_base base d) = base"
proof (rule bit_eqI)
  fix n assume "possible_bit TYPE(32 word) n"
  then have "n < 32" by simp
  then show "bit (get_base (set_base base d)) n = bit base n"
    by (cases "n < 16"; cases "n < 24")
      (auto simp: get_base_def set_base_def bit_simps bit_desc_masks)
qed

lemma get_base_set_limit: "get_base (set_limit l d) = get_base d"
proof (rule bit_eqI)
  fix n assume "possible_bit TYPE(32 word) n"
  then have "n < 32" by simp
  then show "bit (get_base (set_limit l d)) n = bit (get_base d) n"
    using bit_imp_le_length [of "desc_a d" "16 + n"]
    by (cases "n < 16"; cases "n < 24")
      (auto simp: get_base_def set_limit_def Let_def bit_simps bit_desc_masks)
qed

lemma get_limit_set_base: "get_limit (set_base b d) = get_limit d"
proof -
  have "(desc_a (set_base b d) AND 0xffff) OR (desc_b (set_base b d) AND 0xf0000)
      = (desc_a d AND 0xffff) OR (desc_b d AND 0xf0000)"
  proof (rule bit_eqI)
    fix n assume "possible_bit TYPE(32 word) n"
    then show "bit ((desc_a (set_base b d) AND 0xffff) OR (desc_b (set_base b d) AND 0xf0000)) n
      = bit ((desc_a d AND 0xffff) OR (desc_b d AND 0xf0000)) n"
      by (cases "n < 16") (auto simp: set_base_def bit_simps bit_desc_masks)
  qed
  moreover have "bit (desc_b (set_base b d)) 23 = bit (desc_b d) 23"
    by (auto simp: set_base_def bit_simps bit_desc_masks)
  ultimately show ?thesis by (simp add: get_limit_def Let_def)
qed

text \<open>For a page-granular descriptor the limit that \<open>set_limit\<close> writes is the limit
  \<open>get_limit\<close> reads, for every multiple of the page size.\<close>

lemma get_limit_set_limit:
  assumes "bit (desc_b d) 23" and "4096 dvd unat limit"
  shows "get_limit (set_limit limit d) = limit"
proof -
  let ?l = "drop_bit 12 (limit - 1)"
  have field: "(desc_a (set_limit limit d) AND 0xffff) OR (desc_b (set_limit limit d) AND 0xf0000) = ?l"
  proof (rule bit_eqI)
    fix n assume "possible_bit TYPE(32 word) n"
    then have "n < 32" by simp
    moreover have "\<not> bit ?l n" if "20 \<le> n" using that bit_imp_le_length [of "limit - 1" "n + 12"]
      by (auto simp: bit_simps add.commute)
    ultimately show "bit ((desc_a (set_limit limit d) AND 0xffff) OR (desc_b (set_limit limit d) AND 0xf0000)) n
      = bit ?l n"
      by (cases "n < 16"; cases "n < 20") (auto simp: set_limit_def Let_def bit_simps bit_desc_masks)
  qed
  have gran: "bit (desc_b (set_limit limit d)) 23"
    using assms(1) by (auto simp: set_limit_def Let_def bit_simps bit_desc_masks)
  have low: "(limit - 1) AND 0xfff = (0xfff :: u32)"
  proof -
    have "uint (limit - 1) mod 4096 = (uint limit - 1) mod 4096"
      by (simp add: uint_word_ariths mod_mod_cancel)
    also have "\<dots> = 4095"
    proof -
      obtain k where "uint limit = 4096 * k"
        using assms(2) by (metis dvd_def int_dvd_int_iff of_nat_numeral uint_nat)
      then have "uint limit - 1 = 4095 + 4096 * (k - 1)" by (simp add: algebra_simps)
      then show ?thesis by (simp only: mod_mult_self2) simp
    qed
    finally have "uint (take_bit 12 (limit - 1)) = 4095" by (simp only: unsigned_take_bit_eq) (simp add: take_bit_eq_mod)
    then have "take_bit 12 (limit - 1) = 4095" by (metis word_of_int_numeral word_of_int_uint)
    then show ?thesis using take_bit_eq_mask [of 12 "limit - 1"] by (simp add: mask_eq_exp_minus_1)
  qed
  have "push_bit 12 ?l OR 0xfff = limit - 1"
  proof (rule bit_eqI)
    fix n assume "possible_bit TYPE(32 word) n"
    then show "bit (push_bit 12 ?l OR 0xfff) n = bit (limit - 1) n"
      using low [THEN arg_cong, of "\<lambda>w. bit w n"] by (cases "n < 12") (auto simp: bit_simps bit_desc_masks)
  qed
  with field gran show ?thesis by (simp add: get_limit_def Let_def)
qed

text \<open>the byte moves of the descriptor macros. A base and a limit written one after the other into a page-granular
  descriptor, as \<open>copy_mem\<close> and \<open>change_ldt\<close> do for the segments of a task, are both read back, for every
  32-bit base and every limit of whole pages; writing one leaves the other as it was.\<close>

lemma descriptor_roundtrip:
  assumes "bit (desc_b d) 23" and "4096 dvd unat limit"
  shows "get_base (set_limit limit (set_base base d)) = base \<and> get_limit (set_limit limit (set_base base d)) = limit \<and>
    get_limit (set_base base d) = get_limit d \<and> get_base (set_limit limit d) = get_base d"
proof -
  have "bit (desc_b (set_base base d)) 23"
    using assms(1) by (auto simp: set_base_def bit_simps bit_desc_masks)
  then show ?thesis
    using assms(2) by (simp add: get_base_set_limit get_base_set_base get_limit_set_base get_limit_set_limit)
qed

section \<open>The timer list\<close>

text \<open>The linked entries from \<open>nt\<close> on, as positions in the table.\<close>

primrec linked :: "timer list \<Rightarrow> nat option \<Rightarrow> nat list \<Rightarrow> bool" where
  "linked l nt [] \<longleftrightarrow> nt = None"
| "linked l nt (p # ps) \<longleftrightarrow> nt = Some p \<and> p < length l \<and> linked l (tl_next (l ! p)) ps"

definition deltas :: "timer list \<Rightarrow> nat list \<Rightarrow> (int \<times> nat option) list" where
  "deltas l ps = map (\<lambda>p. (tl_jiffies (l ! p), tl_fn (l ! p))) ps"

text \<open>What the trading loop computes, on the list of differences.\<close>

fun insert_delta :: "int \<Rightarrow> nat option \<Rightarrow> (int \<times> nat option) list \<Rightarrow> (int \<times> nat option) list" where
  "insert_delta t f [] = [(t, f)]"
| "insert_delta t f ((d, g) # ds) =
     (if d < t then (d, g) # insert_delta (t - d) f ds else (t, f) # (d, g) # ds)"

lemma linked_upd_nth:
  "linked l nt ps \<Longrightarrow> (\<And>e. tl_next (f e) = tl_next e) \<Longrightarrow> linked (upd_nth p f l) nt ps"
  by (induction ps arbitrary: nt) auto

lemma deltas_Cons [simp]: "deltas l (p # ps) = (tl_jiffies (l ! p), tl_fn (l ! p)) # deltas l ps"
  by (simp add: deltas_def)

lemma deltas_upd_nth: "p \<notin> set ps \<Longrightarrow> deltas (upd_nth p f l) ps = deltas l ps"
  by (induction ps) (simp_all add: deltas_def)

lemma deltas_list_update: "p \<notin> set ps \<Longrightarrow> deltas (l[p := e]) ps = deltas l ps"
  by (induction ps) (simp_all add: deltas_def)

lemma sift_timer_inserts:
  assumes "linked l (Some p) (p # ps)" "distinct (p # ps)" "length ps < n"
  shows "\<exists>l'. sift_timer n p l = Some l' \<and> linked l' (Some p) (p # ps) \<and> length l' = length l \<and>
    deltas l' (p # ps) = insert_delta (tl_jiffies (l ! p)) (tl_fn (l ! p)) (deltas l ps) \<and>
    (\<forall>i. i \<notin> set (p # ps) \<longrightarrow> l' ! i = l ! i)"
  using assms
proof (induction n arbitrary: p ps l)
  case (Suc n)
  show ?case
  proof (cases ps)
    case Nil
    with Suc.prems show ?thesis by (auto simp: deltas_def)
  next
    case (Cons q qs)
    with Suc.prems have q: "tl_next (l ! p) = Some q" "q < length l" "p < length l" "p \<noteq> q" by auto
    show ?thesis
    proof (cases "tl_jiffies (l ! q) < tl_jiffies (l ! p)")
      case False
      with Suc.prems Cons q show ?thesis by (auto simp: deltas_def)
    next
      case True
      let ?l = "upd_nth q (\<lambda>e. e\<lparr>tl_fn := tl_fn (l ! p), tl_jiffies := tl_jiffies (l ! p) - tl_jiffies (l ! q)\<rparr>)
            (upd_nth p (\<lambda>e. e\<lparr>tl_fn := tl_fn (l ! q), tl_jiffies := tl_jiffies (l ! q)\<rparr>) l)"
      have "linked l (Some q) (q # qs)" using Suc.prems(1) Cons by simp
      then have lk: "linked ?l (Some q) (q # qs)" by (intro linked_upd_nth) simp_all
      from Suc.IH [OF this] Suc.prems Cons obtain l' where
        l': "sift_timer n q ?l = Some l'" "linked l' (Some q) (q # qs)" "length l' = length ?l"
          "deltas l' (q # qs) = insert_delta (tl_jiffies (?l ! q)) (tl_fn (?l ! q)) (deltas ?l qs)"
          and rest: "\<And>i. i \<notin> set (q # qs) \<Longrightarrow> l' ! i = ?l ! i" by auto
      have p: "l' ! p = ?l ! p" using rest Suc.prems Cons by auto
      have "deltas ?l qs = deltas l qs" using Suc.prems Cons by (simp add: deltas_upd_nth)
      then have "deltas l' (p # ps) = insert_delta (tl_jiffies (l ! p)) (tl_fn (l ! p)) (deltas l ps)"
        using l'(4) p q True Cons by simp
      moreover have "linked l' (Some p) (p # ps)" using l'(2,3) p q Cons by simp
      moreover have "sift_timer (Suc n) p l = Some l'" using l'(1) q True by simp
      moreover have "l' ! i = l ! i" if "i \<notin> set (p # ps)" for i using rest [of i] that Cons by auto
      ultimately show ?thesis using l'(3) by auto
    qed
  qed
qed simp

text \<open>The times at which the entries fall due, from the differences.\<close>

fun due_times :: "int \<Rightarrow> (int \<times> nat option) list \<Rightarrow> (int \<times> nat option) list" where
  "due_times now [] = []"
| "due_times now ((d, g) # ds) = (now + d, g) # due_times (now + d) ds"

lemma insert_delta_due: "(now + t, f) \<in> set (due_times now (insert_delta t f ds))"
proof (induction t f ds arbitrary: now rule: insert_delta.induct)
  case (2 t f d g ds)
  then show ?case using "2.IH" [of "now + d"] by auto
qed simp

lemma length_insert_delta [simp]: "length (insert_delta t f ds) = Suc (length ds)"
  by (induction t f ds rule: insert_delta.induct) auto

definition timers_wf :: "'z sched_state_scheme \<Rightarrow> nat list \<Rightarrow> bool" where
  "timers_wf s ps \<longleftrightarrow> length (timer_list s) = TIME_REQUESTS \<and> distinct ps \<and>
     linked (timer_list s) (next_timer s) ps \<and>
     set ps = {i. i < TIME_REQUESTS \<and> tl_fn (timer_list s ! i) \<noteq> None}"

lemma add_timer_run:
  assumes wf: "timers_wf s ps" and "length ps < TIME_REQUESTS" and "0 < ticks"
  shows "\<exists>s' p. add_timer call ticks (Some f) s es = Ok () s' es \<and> timers_wf s' (p # ps) \<and>
    deltas (timer_list s') (p # ps) = insert_delta ticks (Some f) (deltas (timer_list s) ps)"
proof -
  let ?l = "timer_list s"
  have len: "length ?l = TIME_REQUESTS" and dist: "distinct ps" and lk: "linked ?l (next_timer s) ps"
    and used: "set ps = {i. i < TIME_REQUESTS \<and> tl_fn (?l ! i) \<noteq> None}" using wf by (auto simp: timers_wf_def)
  have "\<exists>i < TIME_REQUESTS. tl_fn (?l ! i) = None"
  proof (rule ccontr)
    assume "\<not> ?thesis"
    then have "set ps = {..<TIME_REQUESTS}" using used by auto
    then show False using assms(2) dist distinct_card by fastforce
  qed
  then obtain p where p: "scan_up (\<lambda>i. tl_fn (?l ! i) = None) TIME_REQUESTS = Some p"
    using scan_up_None [of "\<lambda>i. tl_fn (?l ! i) = None" TIME_REQUESTS] by fastforce
  then have p': "p < TIME_REQUESTS" "tl_fn (?l ! p) = None" by (simp_all add: scan_up_Some)
  then have notin: "p \<notin> set ps" using used by auto
  let ?l1 = "?l[p := \<lparr>tl_jiffies = ticks, tl_fn = Some f, tl_next = next_timer s\<rparr>]"
  have "linked ?l1 nt qs" if "p \<notin> set qs" "linked ?l nt qs" for nt qs
    using that by (induction qs arbitrary: nt) auto
  then have lk1: "linked ?l1 (Some p) (p # ps)" using notin lk p' len by simp
  have d1: "deltas ?l1 ps = deltas ?l ps" using notin by (rule deltas_list_update)
  from sift_timer_inserts [OF lk1, of "Suc TIME_REQUESTS"] notin dist assms(2) obtain l' where
    l': "sift_timer (Suc TIME_REQUESTS) p ?l1 = Some l'" "linked l' (Some p) (p # ps)" "length l' = TIME_REQUESTS"
      "deltas l' (p # ps) = insert_delta ticks (Some f) (deltas ?l ps)"
      and rest: "\<And>i. i \<notin> set (p # ps) \<Longrightarrow> l' ! i = ?l1 ! i"
    using p' len d1 by auto
  let ?s' = "s\<lparr>timer_list := l', next_timer := Some p\<rparr>"
  have run: "add_timer call ticks (Some f) s es = Ok () ?s' es"
    using assms(3) p l'(1) by (simp add: add_timer_def kern_defs Let_def)
  have "snd ` set (deltas l' (p # ps)) \<subseteq> {g. g \<noteq> None}"
  proof -
    have "snd ` set (insert_delta t (Some f) ds) = insert (Some f) (snd ` set ds)" for t ds
      by (induction t "Some f" ds rule: insert_delta.induct) auto
    moreover have "snd ` set (deltas ?l ps) \<subseteq> {g. g \<noteq> None}" using used by (auto simp: deltas_def)
    ultimately show ?thesis using l'(4) by auto
  qed
  then have "\<forall>i \<in> set (p # ps). tl_fn (l' ! i) \<noteq> None" by (auto simp: deltas_def image_subset_iff)
  moreover have "tl_fn (l' ! i) = None" if "i < TIME_REQUESTS" "i \<notin> set (p # ps)" for i
    using rest [OF that(2)] that used by auto
  ultimately have "set (p # ps) = {i. i < TIME_REQUESTS \<and> tl_fn (l' ! i) \<noteq> None}"
    using used p' by auto
  then have "timers_wf ?s' (p # ps)" using l' notin dist by (simp add: timers_wf_def)
  then show ?thesis using run l'(4) by (intro exI [of _ ?s'] exI [of _ p]) simp
qed
text \<open>C9: as long as an entry is free, \<open>add_timer\<close> takes one and the loop that trades
  entries inserts the new request in the list of time differences: the earlier differences are
  subtracted from its own, so that it falls due after exactly the ticks asked for, and the entries in use stay one linked list.\<close>

theorem add_timer_inserts:
  assumes "timers_wf s ps" and "length ps < TIME_REQUESTS" and "0 < ticks"
  shows "\<exists>s' p. add_timer call ticks (Some f) s es = Ok () s' es \<and> timers_wf s' (p # ps) \<and>
    deltas (timer_list s') (p # ps) = insert_delta ticks (Some f) (deltas (timer_list s) ps) \<and>
    (ticks, Some f) \<in> set (due_times 0 (deltas (timer_list s') (p # ps)))"
  using add_timer_run [OF assms, of call f es] insert_delta_due [of 0 ticks "Some f"]
  by (metis add_0)

lemma due_times_shift: "due_times (now + t) ds = map (\<lambda>(d, g). (d + t, g)) (due_times now ds)"
  by (induction now ds rule: due_times.induct) (auto simp: algebra_simps)

lemma insert_delta_front: "(case ds of [] \<Rightarrow> True | (d, g) # r \<Rightarrow> t \<le> d) \<Longrightarrow> insert_delta t f ds = (t, f) # ds"
  by (cases ds) auto

text \<open>C10: a request that falls due no later than the head of the list is put in front of it
  without taking its time off the old head, so every request already in the list is delayed by
  the ticks of the new one.\<close>

theorem add_timer_delays_others:
  assumes "timers_wf s (q # ps)" and "length ps < 63" and "0 < ticks"
    and "ticks \<le> tl_jiffies (timer_list s ! q)"
  shows "\<exists>s' p. add_timer call ticks (Some f) s es = Ok () s' es \<and> timers_wf s' (p # q # ps) \<and>
    due_times 0 (deltas (timer_list s') (p # q # ps)) =
      (ticks, Some f) # map (\<lambda>(d, g). (d + ticks, g)) (due_times 0 (deltas (timer_list s) (q # ps)))"
proof -
  have "length (q # ps) < TIME_REQUESTS" using assms(2) by simp
  from add_timer_run [OF assms(1) this assms(3), of call f es] obtain s' p where
    run: "add_timer call ticks (Some f) s es = Ok () s' es" "timers_wf s' (p # q # ps)" and
    ds: "deltas (timer_list s') (p # q # ps) = insert_delta ticks (Some f) (deltas (timer_list s) (q # ps))"
    by blast
  have "deltas (timer_list s') (p # q # ps) = (ticks, Some f) # deltas (timer_list s) (q # ps)"
    unfolding ds using assms(4) by (intro insert_delta_front) simp
  then have "due_times 0 (deltas (timer_list s') (p # q # ps)) =
      (ticks, Some f) # due_times (0 + ticks) (deltas (timer_list s) (q # ps))"
    by (simp del: deltas_Cons)
  then show ?thesis using run due_times_shift [of 0 ticks] by metis
qed

text \<open>One request, due in ten ticks.\<close>

definition one_timer :: sched_state where
  "one_timer = sched_boot\<lparr>timer_list := \<lparr>tl_jiffies = 10, tl_fn = Some 1, tl_next = None\<rparr> #
     replicate 63 \<lparr>tl_jiffies = 0, tl_fn = None, tl_next = None\<rparr>, next_timer := Some 0\<rparr>"

lemma one_timer_wf: "timers_wf one_timer [0]"
proof -
  have "{i. i < TIME_REQUESTS \<and> tl_fn (timer_list one_timer ! i) \<noteq> None} = {0}"
    by (auto simp: one_timer_def nth_Cons' split: if_splits)
  then show ?thesis by (simp add: timers_wf_def one_timer_def)
qed

theorem add_timer_delays_others_witness:
  "\<exists>s' p. add_timer (\<lambda>_. skip) 5 (Some 2) one_timer [] = Ok () s' [] \<and>
     due_times 0 (deltas (timer_list one_timer) [0]) = [(10, Some 1)] \<and>
     due_times 0 (deltas (timer_list s') [p, 0]) = [(5, Some 2), (15, Some 1)]"
  using add_timer_delays_others [OF one_timer_wf, of 5 "\<lambda>_. skip" 2 "[]"]
  by (auto simp: one_timer_def deltas_def)

lemma idle_ok_boot: "idle_ok sched_boot"
  by (auto simp: idle_ok_def sched_wf_def sched_boot_def entitled_def INIT_TASK_def)

theorem schedule_to_selects_witness:
  "sched_wf sched_boot \<and> (\<exists>s' n. schedule_to sched_boot = Some s' \<and> current s' = task s' ! n)"
  using schedule_to_selects [of sched_boot] idle_ok_boot by (auto simp: idle_ok_def)

lemma own_motor_queue: "own_queue (motor_queue nr)"
  by (simp add: own_queue_def motor_queue_def)

theorem wait_on_total_witness:
  "\<exists>s' es'. wait_on (\<lambda>s. mon_timer s ! 0 \<noteq> 0) (motor_queue 0) sched_boot [\<lambda>s. s\<lparr>mon_timer := [0, 0, 0, 0]\<rparr>]
     = Ok () s' es' \<and> mon_timer s' ! 0 = 0 \<and> current s' = 0x20000"
proof -
  let ?f = "\<lambda>s :: sched_state. s\<lparr>mon_timer := [0, 0, 0, 0]\<rparr>"
  let ?wait = "wait_on (\<lambda>s :: sched_state. mon_timer s ! 0 \<noteq> 0) (motor_queue 0) sched_boot [?f]"
  have env: "conforms (keeps_idle_ok 0x10000) [?f]"
    by (auto simp: conforms_def idle_ok_def sched_wf_def)
  have boot: "init_task sched_boot = 0x10000" "current sched_boot \<noteq> 0x10000" "current sched_boot = 0x20000"
    "mon_timer sched_boot ! 0 \<noteq> 0" by (simp_all add: sched_boot_def)
  from sleep_on_sleeps [OF idle_ok_boot boot(1,2) own_motor_queue env] obtain s1 where
    s1: "sleep_on (motor_queue 0) sched_boot [?f] = Ok () s1 []"
    and u: "\<exists>u. s1 = (if fst (motor_queue 0) sched_boot \<noteq> 0
        then upd_task (fst (motor_queue 0) sched_boot) (\<lambda>t. t\<lparr>t_state := 0\<rparr>) ((?f u)\<lparr>current := current sched_boot\<rparr>)
        else (?f u)\<lparr>current := current sched_boot\<rparr>)"
    by auto
  have mon: "mon_timer (upd_task p g t) = mon_timer t" for p g and t :: sched_state by (simp add: upd_task_def)
  have "mon_timer s1 = [0, 0, 0, 0]"
    using u by (auto simp: mon)
  then have "?wait \<noteq> Asleep s'" for s'
    using s1 boot(4) by (simp add: wait_on_def kern_defs)
  with wait_on_total [OF idle_ok_boot boot(1,2) own_motor_queue env, of "\<lambda>s. mon_timer s ! 0 \<noteq> 0"] boot(3)
  show ?thesis by auto
qed

theorem add_timer_inserts_witness:
  "timers_wf one_timer [0] \<and>
   (\<exists>s' p. add_timer (\<lambda>_. skip) 5 (Some 2) one_timer [] = Ok () s' [] \<and> timers_wf s' [p, 0])"
  using add_timer_inserts [OF one_timer_wf, of 5 "\<lambda>_. skip" 2 "[]"] one_timer_wf by auto

section \<open>What survives a sleep\<close>

text \<open>
  The contract of the sleeping operations. \<open>I\<close> is a property of the part of the state that the
  scheduler does not own, and \<open>R\<close> is what the rest of the system promises to do to the state
  while a task sleeps. If what it does keeps \<open>I\<close>, then sleeping, waiting for a lock and
  waking up keep \<open>I\<close> too, for a queue whose head is not part of \<open>I\<close>.
\<close>

lemma more_upd_task [simp]: "sched_state.more (upd_task a f s) = sched_state.more s"
  by (simp add: upd_task_def)

lemma more_on_tasks [simp]: "sched_state.more (on_tasks f s) = sched_state.more s"
proof -
  have "sched_state.more (fold (\<lambda>i s. if task s ! i \<noteq> 0 then upd_task (task s ! i) f s else s) ks s) = sched_state.more s"
    for ks and s :: "'z sched_state_scheme" by (induction ks arbitrary: s) auto
  then show ?thesis by (simp add: on_tasks_def)
qed

lemma more_schedule_to:
  assumes "schedule_to s = Some t"
  shows "sched_state.more t = sched_state.more s"
proof -
  from assms obtain u where
    u: "while_option (\<lambda>s. fst (pick_next s) = 0) (on_tasks recalc) (on_tasks (wake_signalled (jiffies s)) s) = Some u"
    and t: "t = switch_to (snd (pick_next u)) u"
    by (auto simp: schedule_to_def)
  have "sched_state.more u = sched_state.more s"
    by (rule while_option_rule [OF _ u]) simp_all
  then show ?thesis by (simp add: t switch_to_def)
qed

locale waiting =
  fixes I :: "'z sched_state_scheme \<Rightarrow> bool"
    and R :: "'z sched_state_scheme \<Rightarrow> 'z sched_state_scheme \<Rightarrow> bool"
  assumes more: "sched_state.more s = sched_state.more t \<Longrightarrow> I s \<Longrightarrow> I t"
    and rely: "R s t \<Longrightarrow> I s \<Longrightarrow> I t"
begin

lemma upd_task_keeps [keeps]: "keeps R I (modify (upd_task a f))"
  by (rule keeps_modify) (rule more [rotated], auto)

lemma upd_cur_keeps [keeps]: "keeps R I (upd_cur f)"
  unfolding upd_cur_def by (rule keeps_modify) (rule more [rotated], auto)

lemma schedule_keeps [keeps]: "keeps R I schedule"
  unfolding keeps_def
proof (rule tripleI)
  fix s es v s' es'
  assume I: "I s" and es: "conforms R es" and run: "schedule s es = Ok v s' es'"
  from run obtain s1 where s1: "schedule_to s = Some s1"
    by (auto simp: schedule_def Let_def split: option.splits)
  have I1: "I s1" using more [of s s1] more_schedule_to [OF s1] I by simp
  have cur: "I (t\<lparr>current := c\<rparr>)" if "I t" for t c using more [of t "t\<lparr>current := c\<rparr>"] that by simp
  show "I s' \<and> conforms R es'"
  proof (cases "current s1 = current s")
    case True
    then show ?thesis using run s1 I1 es by (simp add: schedule_def)
  next
    case False
    with run s1 obtain f where f: "es = f # es'" "s' = (f s1)\<lparr>current := current s\<rparr>"
      by (auto simp: schedule_def Let_def split: list.splits)
    then have "R s1 (f s1)" using es by (simp add: conforms_def)
    then have "I (f s1)" using I1 by (rule rely)
    then show ?thesis using f es cur by (simp add: conforms_def)
  qed
qed

lemma sleep_on_keeps:
  assumes "\<And>v s. I s \<Longrightarrow> I (snd p v s)"
  shows "keeps R I (sleep_on p)"
  unfolding sleep_on_def by (intro keeps assms)

lemma interruptible_sleep_on_keeps:
  assumes "\<And>v s. I s \<Longrightarrow> I (snd p v s)"
  shows "keeps R I (interruptible_sleep_on fuel p)"
proof -
  have "keeps R I (isleep_repeat n p me tmp)" for n me tmp
    by (induction n) (auto intro!: keeps assms simp del: kbind_ret)
  then show ?thesis unfolding interruptible_sleep_on_def by (intro keeps assms)
qed

lemma wait_on_keeps:
  assumes "\<And>v s. I s \<Longrightarrow> I (snd p v s)"
  shows "triple R I (wait_on locked p) (\<lambda>_ s. I s \<and> \<not> locked s)"
proof -
  have "keeps R I (wait_while locked p n)" for n
    by (induction n) (auto intro!: keeps sleep_on_keeps assms simp del: kbind_ret)
  then show ?thesis
    unfolding wait_on_def by (intro tripleI conjI) (blast dest: keepsD wait_while_Ok)+
qed

lemma wake_up_keeps:
  assumes "\<And>v s. I s \<Longrightarrow> I (snd p v s)"
  shows "keeps R I (wake_up_last p)"
  unfolding wake_up_last_def by (intro keeps assms)

end

end
