(* ===== verification/Blk.thy ===== *)
theory Blk
  imports Sched
begin

unbundle bit_operations_syntax

text \<open>
  Block requests: \<^verbatim>\<open>kernel/blk_drv/blk.h\<close>, \<^verbatim>\<open>ll_rw_blk.c\<close> and the ram disk
  driver \<^verbatim>\<open>ramdisk.c\<close>, with the buffer heads of \<^verbatim>\<open>include/linux/fs.h\<close> they work on.

  A pointer to a buffer head or to a request is the position of the entry in its table, or
  \<open>None\<close> for NULL. \<open>b_data\<close> is the block of memory the field of that name points to;
  no two buffer heads share one. The \<open>buffer\<close> of a request is a place in such a block, the
  buffer head \<open>r_buffer\<close> and the offset \<open>r_off\<close>. A device number is the 16-bit value the tables store. A
  driver's \<open>request_fn\<close> is a function pointer, a number here; the parameter \<open>call\<close> says
  what calling it does. \<open>do_rd_request\<close> below is one such function.
\<close>

section \<open>State\<close>

record buffer_head =
  b_data :: "u8 list"
  b_blocknr :: u32
  b_dev :: u16
  b_uptodate :: u8
  b_dirt :: u8
  b_count :: u8
  b_lock :: u8
  b_wait :: u32
  b_prev :: "nat option"
  b_next :: "nat option"
  b_prev_free :: "nat option"
  b_next_free :: "nat option"

record blk_request =
  r_dev :: int
  r_cmd :: int
  r_errors :: int
  r_sector :: u32
  r_nr_sectors :: u32
  r_buffer :: "nat option"
  r_off :: nat
  r_waiting :: u32
  r_bh :: "nat option"
  r_next :: "nat option"

record blk_dev_struct =
  request_fn :: "nat option"
  current_request :: "nat option"

record blk_state = sched_state +
  bufs :: "buffer_head list"
  start_buffer :: u32
  hash_table :: "nat option list"
  free_list :: nat
  buffer_wait :: u32
  request :: "blk_request list"
  wait_for_request :: u32
  blk_dev :: "blk_dev_struct list"
  rd_start :: u32
  rd_length :: int
  rd_bytes :: "u32 \<Rightarrow> u8"
  wait_on_floppy_select :: u32

abbreviation (input) READ :: int where "READ \<equiv> 0"
abbreviation (input) WRITE :: int where "WRITE \<equiv> 1"
abbreviation (input) READA :: int where "READA \<equiv> 2"
abbreviation (input) WRITEA :: int where "WRITEA \<equiv> 3"
abbreviation (input) NR_REQUEST :: nat where "NR_REQUEST \<equiv> 32"
abbreviation (input) NR_BLK_DEV :: nat where "NR_BLK_DEV \<equiv> 7"
abbreviation (input) BLOCK_SIZE :: nat where "BLOCK_SIZE \<equiv> 1024"

definition MAJOR :: "u16 \<Rightarrow> nat" where
  "MAJOR a = unat (drop_bit 8 a)"

definition MINOR :: "u16 \<Rightarrow> nat" where
  "MINOR a = unat (a AND 0xff)"

definition buf :: "'z blk_state_scheme \<Rightarrow> nat \<Rightarrow> buffer_head" where
  "buf s i = bufs s ! i"

definition upd_buf ::
  "nat \<Rightarrow> (buffer_head \<Rightarrow> buffer_head) \<Rightarrow> 'z blk_state_scheme \<Rightarrow> 'z blk_state_scheme" where
  "upd_buf i f s = s\<lparr>bufs := upd_nth i f (bufs s)\<rparr>"

definition upd_req ::
  "nat \<Rightarrow> (blk_request \<Rightarrow> blk_request) \<Rightarrow> 'z blk_state_scheme \<Rightarrow> 'z blk_state_scheme" where
  "upd_req i f s = s\<lparr>request := upd_nth i f (request s)\<rparr>"

definition bwait_queue :: "nat \<Rightarrow> 'z blk_state_scheme waitq" where
  "bwait_queue i = (\<lambda>s. b_wait (buf s i), \<lambda>v. upd_buf i (\<lambda>b. b\<lparr>b_wait := v\<rparr>))"

definition rwait_queue :: "nat \<Rightarrow> 'z blk_state_scheme waitq" where
  "rwait_queue i = (\<lambda>s. r_waiting (request s ! i), \<lambda>v. upd_req i (\<lambda>r. r\<lparr>r_waiting := v\<rparr>))"

definition request_queue :: "'z blk_state_scheme waitq" where
  "request_queue = (wait_for_request, \<lambda>v s. s\<lparr>wait_for_request := v\<rparr>)"

type_synonym 's fptrs = "nat \<Rightarrow> (unit, 's) kern"

section \<open>Locking a buffer\<close>

definition wait_buffer_unlock :: "nat \<Rightarrow> (unit, 'z blk_state_scheme) kern" where
  "wait_buffer_unlock i = wait_on (\<lambda>s. b_lock (buf s i) \<noteq> 0) (bwait_queue i)"

definition lock_buffer :: "nat \<Rightarrow> (unit, 'z blk_state_scheme) kern" where
  "lock_buffer i = kseq (wait_buffer_unlock i) (modify (upd_buf i (\<lambda>b. b\<lparr>b_lock := 1\<rparr>)))"

definition unlock_buffer :: "nat \<Rightarrow> (unit, 'z blk_state_scheme) kern" where
  "unlock_buffer i =
     kbind (gets (\<lambda>s. b_lock (buf s i))) (\<lambda>l.
     kseq (kwhen (l = 0) (printk ''ll_rw_block.c: buffer not locked'' []))
    (kseq (modify (upd_buf i (\<lambda>b. b\<lparr>b_lock := 0\<rparr>)))
          (wake_up_last (bwait_queue i))))"

section \<open>The request queue\<close>

definition IN_ORDER :: "blk_request \<Rightarrow> blk_request \<Rightarrow> bool" where
  "IN_ORDER s1 s2 \<longleftrightarrow> r_cmd s1 < r_cmd s2 \<or> (r_cmd s1 = r_cmd s2 \<and>
     (r_dev s1 < r_dev s2 \<or> (r_dev s1 = r_dev s2 \<and> r_sector s1 < r_sector s2)))"

text \<open>The elevator: the request after which the new one goes. The table has 32 entries, so a
  walk of more than 32 steps is a cycle and never ends.\<close>

primrec elevator :: "nat \<Rightarrow> blk_request list \<Rightarrow> nat \<Rightarrow> nat \<Rightarrow> nat option" where
  "elevator 0 rs req tmp = None"
| "elevator (Suc n) rs req tmp =
     (case r_next (rs ! tmp) of
        None \<Rightarrow> Some tmp
      | Some nx \<Rightarrow>
          if (IN_ORDER (rs ! tmp) (rs ! req) \<or> \<not> IN_ORDER (rs ! tmp) (rs ! nx))
             \<and> IN_ORDER (rs ! req) (rs ! nx)
          then Some tmp else elevator n rs req nx)"

definition add_request ::
  "'z blk_state_scheme fptrs \<Rightarrow> nat \<Rightarrow> nat \<Rightarrow> (unit, 'z blk_state_scheme) kern" where
  "add_request call dev req =
     kseq (modify (upd_req req (\<lambda>r. r\<lparr>r_next := None\<rparr>)))
    (kbind (gets (\<lambda>s. r_bh (request s ! req))) (\<lambda>bh.
     kseq (case bh of None \<Rightarrow> skip | Some i \<Rightarrow> modify (upd_buf i (\<lambda>b. b\<lparr>b_dirt := 0\<rparr>)))
    (kbind (gets (\<lambda>s. blk_dev s ! dev)) (\<lambda>d.
     case current_request d of
       None \<Rightarrow>
         kseq (modify (\<lambda>s. s\<lparr>blk_dev := upd_nth dev (\<lambda>d. d\<lparr>current_request := Some req\<rparr>) (blk_dev s)\<rparr>))
              (case request_fn d of None \<Rightarrow> kfault | Some f \<Rightarrow> call f)
     | Some tmp0 \<Rightarrow>
         kbind (gets (\<lambda>s. elevator (Suc NR_REQUEST) (request s) req tmp0)) (\<lambda>t.
         case t of
           None \<Rightarrow> kloops
         | Some tmp \<Rightarrow>
             kseq (modify (\<lambda>s. upd_req req (\<lambda>r. r\<lparr>r_next := r_next (request s ! tmp)\<rparr>) s))
                  (modify (upd_req tmp (\<lambda>r. r\<lparr>r_next := Some req\<rparr>))))))))"

text \<open>The search for a free entry of \<open>make_request\<close>: reads may take all entries, writes
  only the first two thirds. It sleeps while there is none, unless the request is a read ahead.\<close>

primrec find_request ::
  "nat \<Rightarrow> int \<Rightarrow> bool \<Rightarrow> (nat option, 'z blk_state_scheme) kern" where
  "find_request 0 rw rw_ahead = kloops"
| "find_request (Suc n) rw rw_ahead =
     kbind (gets (\<lambda>s. scan_down (\<lambda>i. r_dev (request s ! i) < 0)
                (if rw = READ then NR_REQUEST else NR_REQUEST * 2 div 3))) (\<lambda>r.
     case r of
       Some i \<Rightarrow> ret (Some i)
     | None \<Rightarrow> if rw_ahead then ret None
               else kseq (sleep_on request_queue) (find_request n rw rw_ahead))"

definition make_request ::
  "nat \<Rightarrow> 'z blk_state_scheme fptrs \<Rightarrow> nat \<Rightarrow> int \<Rightarrow> nat \<Rightarrow> (unit, 'z blk_state_scheme) kern" where
  "make_request fuel call major rw0 bh =
     (let rw_ahead = (rw0 = READA \<or> rw0 = WRITEA);
          rw = (if rw0 = READA then READ else if rw0 = WRITEA then WRITE else rw0) in
      kbind (gets (\<lambda>s. buf s bh)) (\<lambda>b0.
      if rw_ahead \<and> b_lock b0 \<noteq> 0 then skip
      else if rw \<noteq> READ \<and> rw \<noteq> WRITE then kpanic ''Bad block dev command, must be R/W/RA/WA''
      else kseq (lock_buffer bh)
          (kbind (gets (\<lambda>s. buf s bh)) (\<lambda>b.
           if rw = WRITE \<and> b_dirt b = 0 \<or> rw = READ \<and> b_uptodate b \<noteq> 0 then unlock_buffer bh
           else kbind (find_request fuel rw rw_ahead) (\<lambda>r.
             case r of
               None \<Rightarrow> unlock_buffer bh
             | Some req \<Rightarrow>
                 kseq (modify (\<lambda>s. upd_req req (\<lambda>_.
                        \<lparr>r_dev = uint (b_dev (buf s bh)), r_cmd = rw, r_errors = 0,
                         r_sector = push_bit 1 (b_blocknr (buf s bh)), r_nr_sectors = 2,
                         r_buffer = Some bh, r_off = 0, r_waiting = 0, r_bh = Some bh, r_next = None\<rparr>) s))
                      (add_request call major req))))))"

definition ll_rw_block ::
  "nat \<Rightarrow> 'z blk_state_scheme fptrs \<Rightarrow> int \<Rightarrow> nat \<Rightarrow> (unit, 'z blk_state_scheme) kern" where
  "ll_rw_block fuel call rw bh =
     kbind (gets (\<lambda>s. (MAJOR (b_dev (buf s bh)), blk_dev s))) (\<lambda>(major, devs).
     if major \<ge> NR_BLK_DEV \<or> request_fn (devs ! major) = None
     then printk ''Trying to read nonexistent block-device'' []
     else make_request fuel call major rw bh)"

definition blk_dev_init :: "(unit, 'z blk_state_scheme) kern" where
  "blk_dev_init = kfor [0..<NR_REQUEST] (\<lambda>i.
     modify (upd_req i (\<lambda>r. r\<lparr>r_dev := - 1, r_next := None\<rparr>)))"

section \<open>What every driver shares\<close>

definition drv_unlock_buffer :: "string \<Rightarrow> nat \<Rightarrow> (unit, 'z blk_state_scheme) kern" where
  "drv_unlock_buffer device_name i =
     kbind (gets (\<lambda>s. b_lock (buf s i))) (\<lambda>l.
     kseq (kwhen (l = 0) (printk (device_name @ '': free buffer being unlocked'') []))
    (kseq (modify (upd_buf i (\<lambda>b. b\<lparr>b_lock := 0\<rparr>)))
          (wake_up_last (bwait_queue i))))"

definition CURRENT :: "nat \<Rightarrow> 'z blk_state_scheme \<Rightarrow> nat option" where
  "CURRENT major s = current_request (blk_dev s ! major)"

definition end_request ::
  "string \<Rightarrow> (int \<Rightarrow> (unit, 'z blk_state_scheme) kern) \<Rightarrow> nat \<Rightarrow> u8 \<Rightarrow> (unit, 'z blk_state_scheme) kern" where
  "end_request device_name device_off major uptodate =
     kbind (gets (CURRENT major)) (\<lambda>c.
     case c of
       None \<Rightarrow> kfault
     | Some c \<Rightarrow>
         kbind (gets (\<lambda>s. request s ! c)) (\<lambda>r.
         kseq (device_off (r_dev r))
        (kseq (case r_bh r of
                 None \<Rightarrow> skip
               | Some i \<Rightarrow> kseq (modify (upd_buf i (\<lambda>b. b\<lparr>b_uptodate := uptodate\<rparr>)))
                                (drv_unlock_buffer device_name i))
        (kseq (kwhen (uptodate = 0)
                 (kseq (printk (device_name @ '' I/O error'') [])
                 (kbind (gets (\<lambda>s. case r_bh r of None \<Rightarrow> mem s 4 | Some i \<Rightarrow> b_blocknr (buf s i))) (\<lambda>b.
                  printk ''dev %04x, block %d'' [r_dev r, uint b]))))
        (kseq (wake_up_last (rwait_queue c))
        (kseq (wake_up_last request_queue)
        (kseq (modify (upd_req c (\<lambda>r. r\<lparr>r_dev := - 1\<rparr>)))
              (modify (\<lambda>s. s\<lparr>blk_dev :=
                 upd_nth major (\<lambda>d. d\<lparr>current_request := r_next (request s ! c)\<rparr>) (blk_dev s)\<rparr>)))))))))"

text \<open>\<open>INIT_REQUEST\<close>: \<open>None\<close> when there is nothing to do, the request otherwise.\<close>

definition INIT_REQUEST :: "string \<Rightarrow> nat \<Rightarrow> (nat option, 'z blk_state_scheme) kern" where
  "INIT_REQUEST device_name major =
     kbind (gets (CURRENT major)) (\<lambda>c.
     case c of
       None \<Rightarrow> ret None
     | Some c \<Rightarrow>
         kbind (gets (\<lambda>s. request s ! c)) (\<lambda>r.
         if MAJOR (word_of_int (r_dev r)) \<noteq> major \<or> r_dev r < 0 \<or> r_dev r \<ge> 65536
         then kpanic (device_name @ '': request list destroyed'')
         else kbind (gets (\<lambda>s. case r_bh r of None \<Rightarrow> 1 | Some i \<Rightarrow> b_lock (buf s i))) (\<lambda>l.
           if l = 0 then kpanic (device_name @ '': block not locked'') else ret (Some c))))"

section \<open>The ram disk\<close>

definition rd_copy_out :: "u32 \<Rightarrow> u8 list \<Rightarrow> (u32 \<Rightarrow> u8) \<Rightarrow> (u32 \<Rightarrow> u8)" where
  "rd_copy_out addr bs m = fold (\<lambda>i m. m(addr + of_nat i := bs ! i)) [0..<length bs] m"

definition rd_copy_in :: "u32 \<Rightarrow> nat \<Rightarrow> (u32 \<Rightarrow> u8) \<Rightarrow> u8 list" where
  "rd_copy_in addr len m = map (\<lambda>i. m (addr + of_nat i)) [0..<len]"

text \<open>One request, then \<open>goto repeat\<close>: each pass takes a request off the list.\<close>

primrec do_rd_request :: "nat \<Rightarrow> (unit, 'z blk_state_scheme) kern" where
  "do_rd_request 0 = kloops"
| "do_rd_request (Suc n) =
     kbind (INIT_REQUEST ''ramdisk'' 1) (\<lambda>c.
     case c of
       None \<Rightarrow> skip
     | Some c \<Rightarrow>
         kbind (gets (\<lambda>s. (request s ! c, rd_start s, rd_length s))) (\<lambda>x.
         let r = fst x; start = fst (snd x); lim = snd (snd x);
             addr = start + push_bit 9 (r_sector r); len = push_bit 9 (r_nr_sectors r) in
         if MINOR (word_of_int (r_dev r)) \<noteq> 1 \<or> addr + len > start + word_of_int lim
         then kseq (end_request ''ramdisk'' (\<lambda>_. skip) 1 0) (do_rd_request n)
         else (case r_buffer r of
           None \<Rightarrow> kfault
         | Some i \<Rightarrow>
             kseq (if r_cmd r = WRITE then
                     modify (\<lambda>s. s\<lparr>rd_bytes := rd_copy_out addr (take (unat len) (b_data (buf s i))) (rd_bytes s)\<rparr>)
                   else if r_cmd r = READ then
                     modify (\<lambda>s. upd_buf i (\<lambda>b. b\<lparr>b_data := rd_copy_in addr (unat len) (rd_bytes s)\<rparr>) s)
                   else kpanic ''unknown ramdisk-command'')
            (kseq (end_request ''ramdisk'' (\<lambda>_. skip) 1 1) (do_rd_request n)))))"

definition rd_init :: "nat \<Rightarrow> u32 \<Rightarrow> int \<Rightarrow> (int, 'z blk_state_scheme) kern" where
  "rd_init do_rd_request_ptr mem_start len =
     kseq (kblock [
       modify (\<lambda>s. s\<lparr>blk_dev := upd_nth 1 (\<lambda>d. d\<lparr>request_fn := Some do_rd_request_ptr\<rparr>) (blk_dev s)\<rparr>),
       modify (\<lambda>s. s\<lparr>rd_start := mem_start, rd_length := len\<rparr>),
       modify (\<lambda>s. s\<lparr>rd_bytes := rd_copy_out mem_start (replicate (nat len) 0) (rd_bytes s)\<rparr>)])
     (ret len)"

section \<open>Floppy selection\<close>

text \<open>From \<^verbatim>\<open>floppy.c\<close>: giving up the selected drive, and asking whether the disk in a
  drive has been changed, which turns the motor on and waits for the drive to be selected.\<close>

definition select_queue :: "'z blk_state_scheme waitq" where
  "select_queue = (wait_on_floppy_select, \<lambda>v s. s\<lparr>wait_on_floppy_select := v\<rparr>)"

definition floppy_deselect :: "nat \<Rightarrow> (unit, 'z blk_state_scheme) kern" where
  "floppy_deselect nr =
     kbind (gets current_DOR) (\<lambda>dor.
     kseq (kwhen (nr \<noteq> unat (dor AND 3)) (printk ''floppy_deselect: drive not selected'' []))
    (kseq (modify (\<lambda>s. s\<lparr>selected := 0\<rparr>))
          (wake_up_last select_queue)))"

primrec wait_select :: "nat \<Rightarrow> nat \<Rightarrow> (unit, 'z blk_state_scheme) kern" where
  "wait_select 0 nr = kloops"
| "wait_select (Suc n) nr =
     kbind (gets (\<lambda>s. unat (current_DOR s AND 3) \<noteq> nr \<and> selected s \<noteq> 0)) (\<lambda>w.
     if w then kseq (interruptible_sleep_on n select_queue) (wait_select n nr) else skip)"

primrec floppy_change :: "nat \<Rightarrow> nat \<Rightarrow> (bool, 'z blk_state_scheme) kern" where
  "floppy_change 0 nr = kloops"
| "floppy_change (Suc n) nr =
     kseq (floppy_on n nr)
    (kseq (wait_select n nr)
    (kbind (gets (\<lambda>s. (unat (current_DOR s AND 3), port_in s 0x3f7))) (\<lambda>x.
     if fst x \<noteq> nr then floppy_change n nr
     else kseq (floppy_off nr) (ret (snd x AND 0x80 \<noteq> 0)))))"

section \<open>The elevator\<close>









lemma IN_ORDER_next [simp]: "IN_ORDER (r_next_update f a) b = IN_ORDER a b" "IN_ORDER a (r_next_update f b) = IN_ORDER a b"
  by (simp_all add: IN_ORDER_def)




text \<open>A device with requests for sectors 20 and 40 in its list, entries 5 and 3, and a new
  request for sector 30 in entry 0.\<close>

definition blk_demo :: blk_state where
  "blk_demo = sched_state.extend sched_boot
     (blk_state.fields [] 0 [] 0 0
        (let r = \<lparr>r_dev = - 1, r_cmd = READ, r_errors = 0, r_sector = 0, r_nr_sectors = 0,
           r_buffer = None, r_off = 0, r_waiting = 0, r_bh = None, r_next = None\<rparr> in
         (replicate 32 r)[5 := r\<lparr>r_dev := 0x301, r_sector := 20, r_next := Some 3\<rparr>,
           3 := r\<lparr>r_dev := 0x301, r_sector := 40\<rparr>, 0 := r\<lparr>r_dev := 0x301, r_sector := 30\<rparr>]) 0
        ((replicate 7 \<lparr>request_fn = None, current_request = None\<rparr>)
           [3 := \<lparr>request_fn = Some 1, current_request = Some 5\<rparr>]) 0 0 (\<lambda>_. 0) 0)"


section \<open>Free entries\<close>

text \<open>The entry \<open>make_request\<close> fills is free at that moment, whatever happened while it
  slept, and a write never takes one of the last eleven entries, which are for reads.\<close>

lemma find_request_free:
  assumes "find_request fuel rw rw_ahead s es = Ok (Some i) s' es'"
  shows "r_dev (request s' ! i) < 0 \<and> i < (if rw = READ then 32 else 21)"
  using assms
proof (induction fuel arbitrary: s es)
  case 0
  then show ?case by (simp add: kern_defs)
next
  case (Suc n)
  show ?case
  proof (cases "scan_down (\<lambda>i. r_dev (request s ! i) < 0) (if rw = READ then NR_REQUEST else NR_REQUEST * 2 div 3)")
    case None
    with Suc.prems obtain t fs where "find_request n rw rw_ahead t fs = Ok (Some i) s' es'"
      by (auto simp: run_simps split: if_splits)
    then show ?thesis by (rule Suc.IH)
  next
    case (Some j)
    with Suc.prems have "j = i" "s' = s" by (auto simp: run_simps)
    with Some show ?thesis by (auto simp: scan_down_Some split: if_splits)
  qed
qed

section \<open>The ram disk keeps what is written\<close>

lemma rd_copy_out_nth:
  assumes "length bs \<le> 2 ^ 32"
  shows "rd_copy_out addr bs m a = (if unat (a - addr) < length bs then bs ! unat (a - addr) else m a)"
  unfolding rd_copy_out_def fold_store [OF assms] ..

lemma rd_copy_in_out:
  assumes "length bs \<le> 2 ^ 32"
  shows "rd_copy_in addr (length bs) (rd_copy_out addr bs m) = bs"
proof (rule nth_equalityI)
  fix i
  assume "i < length (rd_copy_in addr (length bs) (rd_copy_out addr bs m))"
  then have i: "i < length bs" by (simp add: rd_copy_in_def)
  then have "unat (of_nat i :: u32) = i" using assms by (simp add: unsigned_of_nat take_bit_nat_eq_self)
  then show "rd_copy_in addr (length bs) (rd_copy_out addr bs m) ! i = bs ! i"
    using i by (simp add: rd_copy_in_def rd_copy_out_nth [OF assms])
qed (simp add: rd_copy_in_def)

text \<open>What ending a request leaves: the buffer is marked and unlocked, the list of the device goes on
  with the next request, and the data of every buffer and of the ram disk are untouched.\<close>

lemma end_request_run:
  assumes "CURRENT major s = Some c" and "r_bh (request s ! c) = Some i" and "i < length (bufs s)" and "major < length (blk_dev s)"
    and "c < length (request s)"
  shows "\<exists>t. end_request name (\<lambda>_. skip) major u s es = Ok () t es \<and> rd_bytes t = rd_bytes s \<and>
    rd_start t = rd_start s \<and> rd_length t = rd_length s \<and>
    CURRENT major t = r_next (request s ! c) \<and> b_uptodate (buf t i) = u \<and> b_lock (buf t i) = 0 \<and>
    b_data (buf t i) = b_data (buf s i) \<and> r_dev (request t ! c) = - 1"
  using assms
  by (auto simp: end_request_def drv_unlock_buffer_def printk_def wake_up_last_def kern_defs CURRENT_def buf_def upd_buf_def
     upd_req_def upd_task_def bwait_queue_def rwait_queue_def request_queue_def nth_upd_nth)


text \<open>The ram disk driver serves the request at the head of its list. A write puts the bytes of
  the buffer into the disk's memory at the sector's place, so that reading the place gives them
  back; a read fills the buffer from there. Either way the buffer ends up marked valid and
  unlocked, the request's entry is free, and the list has moved on. A request that does not lie on
  the disk is ended with an error and touches neither the disk nor the buffer's data.\<close>

lemma do_rd_request_serves:
  assumes "CURRENT 1 s = Some c" and "c < length (request s)" and "1 < length (blk_dev s)"
    and "r_bh (request s ! c) = Some i" and "r_buffer (request s ! c) = Some i" and "i < length (bufs s)"
    and "b_lock (buf s i) \<noteq> 0" and "length (b_data (buf s i)) = 1024" and "r_nr_sectors (request s ! c) = 2"
    and "r_next (request s ! c) = None" and "r_dev (request s ! c) = 0x101"
    and "r_cmd (request s ! c) = READ \<or> r_cmd (request s ! c) = WRITE"
    and "addr = rd_start s + push_bit 9 (r_sector (request s ! c))"
  shows "\<exists>t. do_rd_request 2 s es = Ok () t es \<and> CURRENT 1 t = None \<and> r_dev (request t ! c) = - 1 \<and>
    b_lock (buf t i) = 0 \<and>
    (if addr + 1024 > rd_start s + word_of_int (rd_length s)
     then b_uptodate (buf t i) = 0 \<and> rd_bytes t = rd_bytes s \<and> b_data (buf t i) = b_data (buf s i)
     else b_uptodate (buf t i) = 1 \<and> rd_copy_in addr 1024 (rd_bytes t) = b_data (buf t i) \<and>
       (r_cmd (request s ! c) = READ \<longrightarrow> rd_bytes t = rd_bytes s) \<and>
       (r_cmd (request s ! c) = WRITE \<longrightarrow> b_data (buf t i) = b_data (buf s i)))"
proof -
  let ?r = "request s ! c"
  have init: "INIT_REQUEST ''ramdisk'' 1 s es = Ok (Some c) s es"
    using assms by (simp add: INIT_REQUEST_def kern_defs MAJOR_def)
  have minor: "MINOR (word_of_int (r_dev ?r)) = 1" using assms(11) by (simp add: MINOR_def)
  have len: "push_bit 9 (r_nr_sectors ?r) = 1024" using assms(9) by simp
  have last: "do_rd_request 1 t es = Ok () t es" if "CURRENT 1 t = None" for t
    using that by (simp add: INIT_REQUEST_def kern_defs)
  show ?thesis
  proof (cases "addr + 1024 > rd_start s + word_of_int (rd_length s)")
    case True
    from end_request_run [OF assms(1,4,6,3,2), of "''ramdisk''" 0 es] obtain t where
      t: "end_request ''ramdisk'' (\<lambda>_. skip) 1 0 s es = Ok () t es" "rd_bytes t = rd_bytes s"
      "CURRENT 1 t = None" "b_uptodate (buf t i) = 0" "b_lock (buf t i) = 0" "b_data (buf t i) = b_data (buf s i)"
      "r_dev (request t ! c) = - 1" using assms(10) by auto
    have "do_rd_request (Suc 1) s es = Ok () t es"
      using init len True last [OF t(3)] t(1) assms(13) by (simp add: kern_defs Let_def)
    then show ?thesis using t True by (auto simp: numeral_2_eq_2)
  next
    case False
    define s1 where "s1 = (if r_cmd ?r = WRITE
      then s\<lparr>rd_bytes := rd_copy_out addr (take 1024 (b_data (buf s i))) (rd_bytes s)\<rparr>
      else upd_buf i (\<lambda>b. b\<lparr>b_data := rd_copy_in addr 1024 (rd_bytes s)\<rparr>) s)"
    have s1: "CURRENT 1 s1 = Some c" "request s1 = request s" "length (bufs s1) = length (bufs s)" "blk_dev s1 = blk_dev s"
      using assms(1) by (auto simp: s1_def CURRENT_def upd_buf_def)
    from end_request_run [of 1 s1 c i "''ramdisk''" 1 es] s1 assms obtain t where
      t: "end_request ''ramdisk'' (\<lambda>_. skip) 1 1 s1 es = Ok () t es" "rd_bytes t = rd_bytes s1"
      "CURRENT 1 t = None" "b_uptodate (buf t i) = 1" "b_lock (buf t i) = 0" "b_data (buf t i) = b_data (buf s1 i)"
      "r_dev (request t ! c) = - 1" by auto
    have run: "do_rd_request (Suc 1) s es = Ok () t es"
      using init minor len False last [OF t(3)] t(1) assms(5,12,13)
      by (cases "r_cmd ?r = WRITE") (simp_all add: kern_defs Let_def s1_def)
    have "b_data (buf s i) = rd_copy_in addr 1024 (rd_copy_out addr (b_data (buf s i)) (rd_bytes s))"
      using rd_copy_in_out [of "b_data (buf s i)" addr] assms(8) by simp
    then have "rd_copy_in addr 1024 (rd_bytes s1) = b_data (buf s1 i)"
      using assms(6,8) by (auto simp: s1_def buf_def upd_buf_def)
    then show ?thesis using run t False assms(12) by (auto simp: numeral_2_eq_2 s1_def buf_def upd_buf_def)
  qed
qed

definition rd_demo :: blk_state where
  "rd_demo = blk_demo\<lparr>bufs := [\<lparr>b_data = replicate 1024 7, b_blocknr = 3, b_dev = 0x101, b_uptodate = 1, b_dirt = 0,
       b_count = 1, b_lock = 1, b_wait = 0, b_prev = None, b_next = None, b_prev_free = None, b_next_free = None\<rparr>],
     request := [\<lparr>r_dev = 0x101, r_cmd = WRITE, r_errors = 0, r_sector = 6, r_nr_sectors = 2,
           r_buffer = Some 0, r_off = 0, r_waiting = 0, r_bh = Some 0, r_next = None\<rparr>],
     blk_dev := [\<lparr>request_fn = None, current_request = None\<rparr>, \<lparr>request_fn = Some 1, current_request = Some 0\<rparr>],
     rd_start := 0x300000, rd_length := 0x100000\<rparr>"

end
