(* ===== verification/Buffer.thy ===== *)
theory Buffer
  imports Blk
begin

unbundle bit_operations_syntax

text \<open>
  The buffer cache: \<^verbatim>\<open>fs/buffer.c\<close>.

  Every buffer head is on one ring through \<open>b_prev_free\<close> and \<open>b_next_free\<close>, and a buffer
  with a device is on the hash chain of its device and block through \<open>b_prev\<close> and \<open>b_next\<close>.
  \<open>getblk\<close> may have to write out a device to get a clean buffer, which writes inodes through
  \<open>bread\<close> and so calls \<open>getblk\<close> again; here \<open>sync_dev\<close> is therefore a parameter of
  \<open>getblk_of\<close>, and the circle is closed in the theory of inodes. Every loop that ends only when
  other tasks let it has fuel; running out of it is the outcome \<open>Loops\<close>.
\<close>

section \<open>The two queues\<close>

abbreviation (input) NR_HASH :: nat where "NR_HASH \<equiv> 307"

definition hashfn :: "u16 \<Rightarrow> u32 \<Rightarrow> nat" where
  "hashfn dev block = unat (ucast dev XOR block) mod NR_HASH"

text \<open>The address of a buffer head, and a store of it through a NULL pointer to a field at
  offset \<open>off\<close>: page zero is mapped, it holds the page directory.\<close>

definition bh_addr :: "'z blk_state_scheme \<Rightarrow> nat \<Rightarrow> u32" where
  "bh_addr s i = start_buffer s + 36 * of_nat i"

definition null_store :: "u32 \<Rightarrow> nat \<Rightarrow> (unit, 'z blk_state_scheme) kern" where
  "null_store off i = modify (\<lambda>s. s\<lparr>mem := (mem s)(off := bh_addr s i)\<rparr>)"

definition remove_from_queues :: "nat \<Rightarrow> (unit, 'z blk_state_scheme) kern" where
  "remove_from_queues bh =
     kbind (gets (\<lambda>s. buf s bh)) (\<lambda>b.
     kseq (case b_next b of None \<Rightarrow> skip | Some n \<Rightarrow> modify (upd_buf n (\<lambda>x. x\<lparr>b_prev := b_prev b\<rparr>)))
    (kseq (case b_prev b of None \<Rightarrow> skip | Some p \<Rightarrow> modify (upd_buf p (\<lambda>x. x\<lparr>b_next := b_next b\<rparr>)))
    (kseq (modify (\<lambda>s. let h = hashfn (b_dev b) (b_blocknr b) in
             if hash_table s ! h = Some bh then s\<lparr>hash_table := (hash_table s)[h := b_next b]\<rparr> else s))
    (case (b_prev_free b, b_next_free b) of
       (Some p, Some n) \<Rightarrow>
         kseq (modify (upd_buf p (\<lambda>x. x\<lparr>b_next_free := Some n\<rparr>)))
        (kseq (modify (upd_buf n (\<lambda>x. x\<lparr>b_prev_free := Some p\<rparr>)))
              (modify (\<lambda>s. if free_list s = bh then s\<lparr>free_list := n\<rparr> else s)))
     | _ \<Rightarrow> kpanic ''Free block list corrupted''))))"

definition insert_into_queues :: "nat \<Rightarrow> (unit, 'z blk_state_scheme) kern" where
  "insert_into_queues bh =
     kbind (gets free_list) (\<lambda>fl.
     kseq (modify (upd_buf bh (\<lambda>x. x\<lparr>b_next_free := Some fl\<rparr>)))
    (kseq (modify (\<lambda>s. upd_buf bh (\<lambda>x. x\<lparr>b_prev_free := b_prev_free (buf s fl)\<rparr>) s))
    (kbind (gets (\<lambda>s. b_prev_free (buf s fl))) (\<lambda>p.
     kseq (case p of None \<Rightarrow> null_store 32 bh
           | Some p \<Rightarrow> modify (upd_buf p (\<lambda>x. x\<lparr>b_next_free := Some bh\<rparr>)))
    (kseq (modify (upd_buf fl (\<lambda>x. x\<lparr>b_prev_free := Some bh\<rparr>)))
    (kseq (modify (upd_buf bh (\<lambda>x. x\<lparr>b_prev := None, b_next := None\<rparr>)))
    (kbind (gets (\<lambda>s. buf s bh)) (\<lambda>b.
     if b_dev b = 0 then skip
     else let h = hashfn (b_dev b) (b_blocknr b) in
       kbind (gets (\<lambda>s. hash_table s ! h)) (\<lambda>first.
       kseq (modify (upd_buf bh (\<lambda>x. x\<lparr>b_next := first\<rparr>)))
      (kseq (modify (\<lambda>s. s\<lparr>hash_table := (hash_table s)[h := Some bh]\<rparr>))
            (case first of None \<Rightarrow> null_store 20 bh
             | Some f \<Rightarrow> modify (upd_buf f (\<lambda>x. x\<lparr>b_prev := Some bh\<rparr>)))))))))))))"

text \<open>The walk along a hash chain. A walk of more steps than there are buffers is on a cycle
  and never ends.\<close>

primrec chain_find ::
  "nat \<Rightarrow> buffer_head list \<Rightarrow> u16 \<Rightarrow> u32 \<Rightarrow> nat option \<Rightarrow> nat option option" where
  "chain_find 0 bs dev block tmp = None"
| "chain_find (Suc n) bs dev block tmp =
     (case tmp of
        None \<Rightarrow> Some None
      | Some i \<Rightarrow> if b_dev (bs ! i) = dev \<and> b_blocknr (bs ! i) = block then Some (Some i)
                   else chain_find n bs dev block (b_next (bs ! i)))"

definition find_buffer :: "u16 \<Rightarrow> u32 \<Rightarrow> (nat option, 'z blk_state_scheme) kern" where
  "find_buffer dev block =
     kbind (gets (\<lambda>s. chain_find (Suc (length (bufs s))) (bufs s) dev block
                        (hash_table s ! hashfn dev block))) (\<lambda>r.
     case r of None \<Rightarrow> kloops | Some f \<Rightarrow> ret f)"

primrec get_hash_table ::
  "nat \<Rightarrow> u16 \<Rightarrow> u32 \<Rightarrow> (nat option, 'z blk_state_scheme) kern" where
  "get_hash_table 0 dev block = kloops"
| "get_hash_table (Suc n) dev block =
     kbind (find_buffer dev block) (\<lambda>r.
     case r of
       None \<Rightarrow> ret None
     | Some bh \<Rightarrow>
         kseq (modify (upd_buf bh (\<lambda>b. b\<lparr>b_count := b_count b + 1\<rparr>)))
        (kseq (wait_buffer_unlock bh)
        (kbind (gets (\<lambda>s. b_dev (buf s bh) = dev \<and> b_blocknr (buf s bh) = block)) (\<lambda>same.
         if same then ret (Some bh)
         else kseq (modify (upd_buf bh (\<lambda>b. b\<lparr>b_count := b_count b - 1\<rparr>)))
                   (get_hash_table n dev block)))))"

section \<open>Getting a buffer\<close>

definition buffer_queue :: "'z blk_state_scheme waitq" where
  "buffer_queue = (buffer_wait, \<lambda>v s. s\<lparr>buffer_wait := v\<rparr>)"

definition BADNESS :: "buffer_head \<Rightarrow> nat" where
  "BADNESS b = 2 * unat (b_dirt b) + unat (b_lock b)"

text \<open>The search of \<open>getblk\<close> along the ring for an unused buffer, the least bad one, ending
  early at one that is neither dirty nor locked: \<open>Some None\<close> when all are in use, \<open>None\<close>
  when the ring never comes back to its start.\<close>

primrec scan_free ::
  "nat \<Rightarrow> buffer_head list \<Rightarrow> nat \<Rightarrow> nat \<Rightarrow> nat option \<Rightarrow> nat option option" where
  "scan_free 0 bs fl tmp bh = None"
| "scan_free (Suc n) bs fl tmp bh =
     (let better = (b_count (bs ! tmp) = 0 \<and>
                    (case bh of None \<Rightarrow> True | Some i \<Rightarrow> BADNESS (bs ! tmp) < BADNESS (bs ! i)));
          bh' = (if better then Some tmp else bh) in
      if better \<and> BADNESS (bs ! tmp) = 0 then Some bh'
      else (case b_next_free (bs ! tmp) of
              None \<Rightarrow> None
            | Some t \<Rightarrow> if t = fl then Some bh' else scan_free n bs fl t bh'))"

text \<open>The loop that writes out the buffer found; false when it has been taken meanwhile.\<close>

primrec flush_dirty ::
  "nat \<Rightarrow> (u16 \<Rightarrow> (unit, 'z blk_state_scheme) kern) \<Rightarrow> nat \<Rightarrow> (bool, 'z blk_state_scheme) kern" where
  "flush_dirty 0 sync_dev bh = kloops"
| "flush_dirty (Suc n) sync_dev bh =
     kbind (gets (\<lambda>s. buf s bh)) (\<lambda>b.
     if b_dirt b = 0 then ret True
     else kseq (sync_dev (b_dev b))
         (kseq (wait_buffer_unlock bh)
         (kbind (gets (\<lambda>s. b_count (buf s bh))) (\<lambda>c.
          if c \<noteq> 0 then ret False else flush_dirty n sync_dev bh))))"

text \<open>The end of \<open>getblk\<close>: an unused, unlocked, clean buffer becomes that of the block.\<close>

definition take_buffer :: "u16 \<Rightarrow> u32 \<Rightarrow> nat \<Rightarrow> (unit, 'z blk_state_scheme) kern" where
  "take_buffer dev block bh =
     kseq (modify (upd_buf bh (\<lambda>b. b\<lparr>b_count := 1, b_dirt := 0, b_uptodate := 0\<rparr>)))
    (kseq (remove_from_queues bh)
    (kseq (modify (upd_buf bh (\<lambda>b. b\<lparr>b_dev := dev, b_blocknr := block\<rparr>)))
          (insert_into_queues bh)))"

text \<open>One pass of \<open>getblk\<close>; \<open>again\<close> is the \<open>goto repeat\<close>.\<close>

definition getblk_of ::
  "nat \<Rightarrow> (u16 \<Rightarrow> (unit, 'z blk_state_scheme) kern) \<Rightarrow> (nat, 'z blk_state_scheme) kern \<Rightarrow>
   u16 \<Rightarrow> u32 \<Rightarrow> (nat, 'z blk_state_scheme) kern" where
  "getblk_of fuel sync_dev again dev block =
     kbind (get_hash_table fuel dev block) (\<lambda>r.
     case r of
       Some bh \<Rightarrow> ret bh
     | None \<Rightarrow>
         kbind (gets (\<lambda>s. scan_free (Suc (length (bufs s))) (bufs s) (free_list s) (free_list s) None)) (\<lambda>f.
         case f of
           None \<Rightarrow> kloops
         | Some None \<Rightarrow> kseq (sleep_on buffer_queue) again
         | Some (Some bh) \<Rightarrow>
             kseq (wait_buffer_unlock bh)
            (kbind (gets (\<lambda>s. b_count (buf s bh))) (\<lambda>c.
             if c \<noteq> 0 then again
             else kbind (flush_dirty fuel sync_dev bh) (\<lambda>clean.
               if \<not> clean then again
               else kbind (find_buffer dev block) (\<lambda>found.
                 if found \<noteq> None then again
                 else kseq (take_buffer dev block bh) (ret bh)))))))"

definition brelse :: "nat option \<Rightarrow> (unit, 'z blk_state_scheme) kern" where
  "brelse b =
     (case b of
        None \<Rightarrow> skip
      | Some bh \<Rightarrow>
          kseq (wait_buffer_unlock bh)
         (kbind (gets (\<lambda>s. b_count (buf s bh))) (\<lambda>c.
          kseq (modify (upd_buf bh (\<lambda>b. b\<lparr>b_count := c - 1\<rparr>)))
               (if c = 0 then kpanic ''Trying to free free buffer'' else wake_up_last buffer_queue))))"

section \<open>Reading\<close>

type_synonym 's getblk_fn = "u16 \<Rightarrow> u32 \<Rightarrow> (nat, 's) kern"

text \<open>What follows the request in \<open>bread\<close> and \<open>breada\<close>: wait, and give the buffer back
  when the block could not be read.\<close>

definition read_result :: "nat \<Rightarrow> (nat option, 'z blk_state_scheme) kern" where
  "read_result bh =
     kseq (wait_buffer_unlock bh)
    (kbind (gets (\<lambda>s. b_uptodate (buf s bh))) (\<lambda>u.
     if u \<noteq> 0 then ret (Some bh) else kseq (brelse (Some bh)) (ret None)))"

definition bread_of ::
  "'z blk_state_scheme getblk_fn \<Rightarrow> nat \<Rightarrow> 'z blk_state_scheme fptrs \<Rightarrow>
   u16 \<Rightarrow> u32 \<Rightarrow> (nat option, 'z blk_state_scheme) kern" where
  "bread_of gb fuel call dev block =
     kbind (gb dev block) (\<lambda>bh.
     kbind (gets (\<lambda>s. b_uptodate (buf s bh))) (\<lambda>u.
     if u \<noteq> 0 then ret (Some bh)
     else kseq (ll_rw_block fuel call READ bh) (read_result bh)))"

definition le_word :: "u8 list \<Rightarrow> nat \<Rightarrow> u32" where
  "le_word bs i = ucast (bs ! i) OR push_bit 8 (ucast (bs ! (i + 1)))
     OR push_bit 16 (ucast (bs ! (i + 2))) OR push_bit 24 (ucast (bs ! (i + 3)))"

definition COPYBLK :: "u8 list \<Rightarrow> u32 \<Rightarrow> (u32 \<Rightarrow> u32) \<Rightarrow> (u32 \<Rightarrow> u32)" where
  "COPYBLK bs to m = fold (\<lambda>i m. m(to + of_nat (4 * i) := le_word bs (4 * i))) [0..<BLOCK_SIZE div 4] m"

definition bread_page_of ::
  "'z blk_state_scheme getblk_fn \<Rightarrow> nat \<Rightarrow> 'z blk_state_scheme fptrs \<Rightarrow>
   u32 \<Rightarrow> u16 \<Rightarrow> u32 list \<Rightarrow> (unit, 'z blk_state_scheme) kern" where
  "bread_page_of gb fuel call address dev b =
     kbind (kfold [0..<4] (\<lambda>i bhs.
        if b ! i \<noteq> 0 then
          kbind (gb dev (b ! i)) (\<lambda>bh.
          kbind (gets (\<lambda>s. b_uptodate (buf s bh))) (\<lambda>u.
          kseq (kwhen (u = 0) (ll_rw_block fuel call READ bh)) (ret (bhs @ [Some bh]))))
        else ret (bhs @ [None])) []) (\<lambda>bhs.
     kfor [0..<4] (\<lambda>i.
       case bhs ! i of
         None \<Rightarrow> skip
       | Some bh \<Rightarrow>
           kseq (wait_buffer_unlock bh)
          (kseq (modify (\<lambda>s. if b_uptodate (buf s bh) \<noteq> 0
                  then s\<lparr>mem := COPYBLK (b_data (buf s bh)) (address + of_nat (i * BLOCK_SIZE)) (mem s)\<rparr>
                  else s))
                (brelse (Some bh)))))"

definition breada_of ::
  "'z blk_state_scheme getblk_fn \<Rightarrow> nat \<Rightarrow> 'z blk_state_scheme fptrs \<Rightarrow>
   u16 \<Rightarrow> u32 \<Rightarrow> u32 list \<Rightarrow> (nat option, 'z blk_state_scheme) kern" where
  "breada_of gb fuel call dev first rest =
     kbind (gb dev first) (\<lambda>bh.
     kbind (gets (\<lambda>s. b_uptodate (buf s bh))) (\<lambda>u.
     kseq (kwhen (u = 0) (ll_rw_block fuel call READ bh))
    (kseq (kfor rest (\<lambda>block.
             kbind (gb dev block) (\<lambda>tmp.
             kbind (gets (\<lambda>s. b_uptodate (buf s tmp))) (\<lambda>u.
             kseq (kwhen (u = 0) (ll_rw_block fuel call READA tmp))
                  (modify (upd_buf tmp (\<lambda>b. b\<lparr>b_count := b_count b - 1\<rparr>)))))))
          (read_result bh))))"

section \<open>Writing back and invalidating\<close>

text \<open>The loop that \<open>sync_dev\<close> runs twice, and that of \<open>sys_sync\<close>.\<close>

definition sync_buffers ::
  "nat \<Rightarrow> 'z blk_state_scheme fptrs \<Rightarrow> u16 \<Rightarrow> (unit, 'z blk_state_scheme) kern" where
  "sync_buffers fuel call dev =
     kbind (gets (\<lambda>s. length (bufs s))) (\<lambda>n.
     kfor [0..<n] (\<lambda>bh.
       kbind (gets (\<lambda>s. b_dev (buf s bh))) (\<lambda>d.
       if d \<noteq> dev then skip
       else kseq (wait_buffer_unlock bh)
           (kbind (gets (\<lambda>s. b_dev (buf s bh) = dev \<and> b_dirt (buf s bh) \<noteq> 0)) (\<lambda>w.
            kwhen w (ll_rw_block fuel call WRITE bh))))))"

definition sync_dev_of ::
  "(unit, 'z blk_state_scheme) kern \<Rightarrow> nat \<Rightarrow> 'z blk_state_scheme fptrs \<Rightarrow>
   u16 \<Rightarrow> (unit, 'z blk_state_scheme) kern" where
  "sync_dev_of sync_inodes fuel call dev =
     kseq (sync_buffers fuel call dev) (kseq sync_inodes (sync_buffers fuel call dev))"

definition sys_sync_of ::
  "(unit, 'z blk_state_scheme) kern \<Rightarrow> nat \<Rightarrow> 'z blk_state_scheme fptrs \<Rightarrow>
   (int, 'z blk_state_scheme) kern" where
  "sys_sync_of sync_inodes fuel call =
     kseq sync_inodes
    (kbind (gets (\<lambda>s. length (bufs s))) (\<lambda>n.
     kseq (kfor [0..<n] (\<lambda>bh.
             kseq (wait_buffer_unlock bh)
            (kbind (gets (\<lambda>s. b_dirt (buf s bh))) (\<lambda>d.
             kwhen (d \<noteq> 0) (ll_rw_block fuel call WRITE bh)))))
          (ret 0)))"

definition invalidate_buffers :: "u16 \<Rightarrow> (unit, 'z blk_state_scheme) kern" where
  "invalidate_buffers dev =
     kbind (gets (\<lambda>s. length (bufs s))) (\<lambda>n.
     kfor [0..<n] (\<lambda>bh.
       kbind (gets (\<lambda>s. b_dev (buf s bh))) (\<lambda>d.
       if d \<noteq> dev then skip
       else kseq (wait_buffer_unlock bh)
                 (modify (\<lambda>s. if b_dev (buf s bh) = dev
                    then upd_buf bh (\<lambda>b. b\<lparr>b_uptodate := 0, b_dirt := 0\<rparr>) s else s)))))"

section \<open>Initialisation\<close>

text \<open>How many buffers fit: heads grow up from \<open>start_buffer\<close>, blocks grow down from the end,
  leaving out the hole between 640 kB and 1 MB. \<open>junk\<close> is what the memory held before.\<close>

primrec count_buffers :: "nat \<Rightarrow> int \<Rightarrow> int \<Rightarrow> nat" where
  "count_buffers 0 b h = 0"
| "count_buffers (Suc n) b h =
     (let b' = b - int BLOCK_SIZE in
      if b' \<ge> h + 36 then Suc (count_buffers n (if b' = 0x100000 then 0xA0000 else b') (h + 36)) else 0)"

definition buffer_init :: "(nat \<Rightarrow> buffer_head) \<Rightarrow> int \<Rightarrow> (unit, 'z blk_state_scheme) kern" where
  "buffer_init junk buffer_end =
     kbind (gets start_buffer) (\<lambda>sb.
     let b = (if buffer_end = 0x100000 then 640 * 1024 else buffer_end);
         n = count_buffers (nat b) b (uint sb) in
     modify (\<lambda>s. s\<lparr>bufs := map (\<lambda>i.
         (junk i)\<lparr>b_dev := 0, b_uptodate := 0, b_dirt := 0, b_count := 0, b_lock := 0,
          b_wait := 0, b_prev := None, b_next := None,
          b_prev_free := Some (if i = 0 then n - 1 else i - 1),
          b_next_free := Some (if Suc i = n then 0 else Suc i)\<rparr>) [0..<n],
       free_list := 0, hash_table := replicate NR_HASH None\<rparr>))"

end
