(* ===== verification/Cache.thy ===== *)
theory Cache
  imports Buffer
begin

text \<open>
  The buffer cache is a cache: its two queues stay well formed, whatever other tasks do between
  two sleeps, and \<open>getblk\<close> returns the one buffer of the block it is asked for.

  The links of the buffers are seen as functions from positions to positions, and the queues as
  lists. \<open>cache_inv\<close> is the invariant. The locale \<open>waiting\<close> of the scheduler's theory,
  interpreted for it, says that it survives every sleep.
\<close>

section \<open>Well-formed queues\<close>

definition ring_links ::
  "(nat \<Rightarrow> nat option) \<Rightarrow> (nat \<Rightarrow> nat option) \<Rightarrow> nat \<Rightarrow> nat list \<Rightarrow> bool" where
  "ring_links nf pf fl R \<longleftrightarrow>
     R \<noteq> [] \<and> distinct R \<and> lseg nf (Some fl) R (Some fl) \<and> bseg pf (Some (last R)) R"

definition chain_links ::
  "(nat \<Rightarrow> nat option) \<Rightarrow> (nat \<Rightarrow> nat option) \<Rightarrow> nat option \<Rightarrow> nat list \<Rightarrow> bool" where
  "chain_links nx pv h C \<longleftrightarrow> distinct C \<and> lseg nx h C None \<and> bseg pv None C"

lemma chain_links_cong:
  assumes "\<And>i. i \<in> set C \<Longrightarrow> nx i = nx' i" and "\<And>i. i \<in> set C \<Longrightarrow> pv i = pv' i"
  shows "chain_links nx pv h C = chain_links nx' pv' h C"
  using lseg_cong [of C nx nx'] bseg_cong [of C pv pv'] assms by (simp add: chain_links_def)

lemma lseg_hd: "lseg nx (Some i) xs q \<Longrightarrow> xs \<noteq> [] \<Longrightarrow> hd xs = i"
  by (cases xs) auto

lemma ring_remove:
  assumes "ring_links nf pf fl R" and "bh \<in> set R" and "2 \<le> length R"
  obtains p n where "pf bh = Some p" and "nf bh = Some n" and "p \<in> set R" and "n \<in> set R"
    and "p \<noteq> bh" and "n \<noteq> bh"
    and "ring_links (nf(p := Some n)) (pf(n := Some p)) (if fl = bh then n else fl) (remove1 bh R)"
proof -
  from assms(2) obtain xs ys where R: "R = xs @ bh # ys" by (auto simp: in_set_conv_decomp)
  have d: "distinct (xs @ bh # ys)" and l: "lseg nf (Some fl) (xs @ bh # ys) (Some fl)"
    and b: "bseg pf (Some (last R)) (xs @ bh # ys)"
    using assms(1) R by (auto simp: ring_links_def)
  have rem: "remove1 bh R = xs @ ys" using d R by (simp add: remove1_append)
  consider "xs = []" "ys \<noteq> []" | "xs \<noteq> []" "ys = []" | "xs \<noteq> []" "ys \<noteq> []"
    using assms(3) R by (cases xs; cases ys) auto
  then show thesis
  proof cases
    case 1
    then obtain zs z where ys: "ys = zs @ [z]" by (cases ys rule: rev_cases) auto
    have tail: "lseg nf (nf bh) ys (Some fl)" "fl = bh" using l 1 by auto
    then have n: "nf bh = Some (hd ys)" using 1 by (cases ys) auto
    have "lseg (nf(z := Some (hd ys))) (Some (hd ys)) ys (Some (hd ys))"
      unfolding ys using tail(1) n d ys by (intro lseg_snoc) auto
    moreover have "bseg (pf(hd ys := Some z)) (Some z) ys" using b d 1 by (cases ys) auto
    moreover have "hd ys \<in> set ys" using 1 by simp
    ultimately show thesis using that [of z "hd ys"] b R 1 n d tail(2) ys rem
      by (simp add: ring_links_def) metis
  next
    case 2
    then obtain zs z where xs: "xs = zs @ [z]" by (cases xs rule: rev_cases) auto
    have hx: "hd xs = fl" and fl: "fl \<noteq> bh" using l 2 d by (cases xs; auto)+
    have "lseg (nf(z := Some fl)) (Some fl) xs (Some fl)"
      unfolding xs using l d xs by (intro lseg_snoc) auto
    moreover have "bseg (pf(fl := Some z)) (Some z) xs" using b d 2 hx by (cases xs) auto
    moreover have "fl \<in> set xs" using 2 hx hd_in_set by blast
    ultimately show thesis using that [of z fl] b l R 2 fl d xs rem
      by (auto simp: ring_links_def)
  next
    case 3
    then obtain zs z n ns where xs: "xs = zs @ [z]" and ys: "ys = n # ns"
      by (cases xs rule: rev_cases; cases ys) auto
    have fl: "fl \<noteq> bh" using l 3 d by (cases xs) auto
    have nb: "nf bh = Some n" "pf bh = Some z" using l b xs ys by auto
    from unlink [OF l b d, of "nf(z := Some n)" "pf(n := Some z)"]
    have "lseg (nf(z := Some n)) (Some fl) (xs @ ys) (Some fl)"
      "bseg (pf(n := Some z)) (Some (last R)) (xs @ ys)" using 3 xs ys nb by auto
    then show thesis using that [of z n] nb R fl d xs ys rem by (auto simp: ring_links_def)
  qed
qed

lemma ring_insert:
  assumes "ring_links nf pf fl R" and "bh \<notin> set R"
  shows "ring_links (nf(bh := Some fl, last R := Some bh)) (pf(bh := Some (last R), fl := Some bh)) fl (R @ [bh])"
    and "pf fl = Some (last R)" and "fl \<in> set R"
proof -
  have R: "R \<noteq> []" "distinct R" "lseg nf (Some fl) R (Some fl)" "bseg pf (Some (last R)) R"
    using assms(1) by (auto simp: ring_links_def)
  then have hd: "hd R = fl" by (auto intro: lseg_hd)
  then show "pf fl = Some (last R)" and fl: "fl \<in> set R" using R by (cases R; auto)+
  from R obtain xs z where z: "R = xs @ [z]" by (cases R rule: rev_cases) auto
  have "lseg ((nf(bh := Some fl))(z := Some bh)) (Some fl) (xs @ [z]) (Some bh)"
    using R z assms(2) by (intro lseg_snoc [of _ _ _ _ "Some fl"]) auto
  moreover have "bseg (pf(bh := Some z, fl := Some bh)) (Some bh) R"
    using R hd assms(2) by (cases R) (auto simp flip: z)
  ultimately show "ring_links (nf(bh := Some fl, last R := Some bh)) (pf(bh := Some (last R), fl := Some bh)) fl (R @ [bh])"
    using R z assms(2) fl by (auto simp: ring_links_def)
qed

lemma chain_remove:
  assumes "chain_links nx pv h C" and "bh \<in> set C"
  shows "chain_links (case pv bh of None \<Rightarrow> nx | Some p \<Rightarrow> nx(p := nx bh))
      (case nx bh of None \<Rightarrow> pv | Some n \<Rightarrow> pv(n := pv bh)) (if h = Some bh then nx bh else h) (remove1 bh C)"
    and "nx bh = Some n \<Longrightarrow> n \<in> set C \<and> n \<noteq> bh" and "pv bh = Some p \<Longrightarrow> p \<in> set C \<and> p \<noteq> bh"
proof -
  from assms(2) obtain xs ys where C: "C = xs @ bh # ys" by (auto simp: in_set_conv_decomp)
  have d: "distinct (xs @ bh # ys)" and l: "lseg nx h (xs @ bh # ys) None"
    and b: "bseg pv None (xs @ bh # ys)" using assms(1) C by (auto simp: chain_links_def)
  have nb: "nx bh = (case ys of [] \<Rightarrow> None | n # _ \<Rightarrow> Some n)" using l by (rule lseg_next)
  have pb: "pv bh = last_or None xs" using b by (rule bseg_prev)
  have hd: "h = Some bh \<longleftrightarrow> xs = []" using l d by (rule lseg_head)
  show "nx bh = Some n \<Longrightarrow> n \<in> set C \<and> n \<noteq> bh" using nb d C by (cases ys) auto
  show "pv bh = Some p \<Longrightarrow> p \<in> set C \<and> p \<noteq> bh" using pb d C by (auto simp: last_or_def split: if_splits)
  have rem: "remove1 bh C = xs @ ys" using d C by (simp add: remove1_append)
  have "(case pv bh of None \<Rightarrow> nx | Some p \<Rightarrow> nx(p := nx bh)) = (if xs = [] then nx else nx(last xs := nx bh))"
    using pb by (simp add: last_or_def)
  moreover have "(case nx bh of None \<Rightarrow> pv | Some n \<Rightarrow> pv(n := pv bh)) = (case ys of [] \<Rightarrow> pv | n # _ \<Rightarrow> pv(n := pv bh))"
    using nb by (cases ys) auto
  ultimately show "chain_links (case pv bh of None \<Rightarrow> nx | Some p \<Rightarrow> nx(p := nx bh))
      (case nx bh of None \<Rightarrow> pv | Some n \<Rightarrow> pv(n := pv bh)) (if h = Some bh then nx bh else h) (remove1 bh C)"
    using unlink [OF l b d refl refl] d hd rem by (simp add: chain_links_def)
qed

lemma chain_insert:
  assumes "chain_links nx pv h C" and "bh \<notin> set C"
  shows "chain_links (nx(bh := h)) (case h of None \<Rightarrow> pv(bh := None) | Some f \<Rightarrow> pv(bh := None, f := Some bh))
    (Some bh) (bh # C)" and "h = Some f \<Longrightarrow> f \<in> set C"
  using assms by (cases C; auto simp: chain_links_def)+

text \<open>The links and the identities of the buffers as functions of their positions.\<close>

definition nx :: "'z blk_state_scheme \<Rightarrow> nat \<Rightarrow> nat option" where "nx s i = b_next (buf s i)"
definition pv :: "'z blk_state_scheme \<Rightarrow> nat \<Rightarrow> nat option" where "pv s i = b_prev (buf s i)"
definition nf :: "'z blk_state_scheme \<Rightarrow> nat \<Rightarrow> nat option" where "nf s i = b_next_free (buf s i)"
definition pf :: "'z blk_state_scheme \<Rightarrow> nat \<Rightarrow> nat option" where "pf s i = b_prev_free (buf s i)"

definition bkey :: "'z blk_state_scheme \<Rightarrow> nat \<Rightarrow> u16 \<times> u32" where
  "bkey s i = (b_dev (buf s i), b_blocknr (buf s i))"

definition bhash :: "u16 \<times> u32 \<Rightarrow> nat" where
  "bhash k = hashfn (fst k) (snd k)"

definition cached :: "'z blk_state_scheme \<Rightarrow> nat set" where
  "cached s = {i. i < length (bufs s) \<and> fst (bkey s i) \<noteq> 0}"

text \<open>
  The invariant of the cache. \<open>R\<close> is the ring from \<open>free_list\<close> on and \<open>C h\<close> the chain of
  hash value \<open>h\<close>: the ring has every buffer once, a chain has the buffers with a device whose
  hash value it is, the links agree in both directions, and no two buffers hold the same
  block of the same device.
\<close>

definition queues ::
  "'z blk_state_scheme \<Rightarrow> nat list \<Rightarrow> (nat \<Rightarrow> nat list) \<Rightarrow> nat set \<Rightarrow> bool" where
  "queues s R C A \<longleftrightarrow>
     length (hash_table s) = NR_HASH \<and> ring_links (nf s) (pf s) (free_list s) R \<and>
     (\<forall>h < NR_HASH. chain_links (nx s) (pv s) (hash_table s ! h) (C h) \<and>
        set (C h) = {i \<in> A. bhash (bkey s i) = h})"

definition cache_inv :: "'z blk_state_scheme \<Rightarrow> bool" where
  "cache_inv s \<longleftrightarrow> 2 \<le> length (bufs s) \<and> inj_on (bkey s) (cached s) \<and>
     (\<forall>i < length (bufs s). i \<notin> cached s \<longrightarrow> pv s i = None \<and> nx s i = None) \<and>
     (\<exists>R C. queues s R C (cached s) \<and> set R = {..<length (bufs s)})"

lemmas link_defs = nx_def pv_def nf_def pf_def bkey_def

lemma buf_upd_buf: "i < length (bufs s) \<Longrightarrow> buf (upd_buf i f s) = (buf s)(i := f (buf s i))"
  by (rule ext) (simp add: buf_def upd_buf_def upd_nth_def nth_list_update)

lemma upd_buf_simps [simp]:
  "length (bufs (upd_buf i f s)) = length (bufs s)" "hash_table (upd_buf i f s) = hash_table s"
  "free_list (upd_buf i f s) = free_list s"
  by (simp_all add: upd_buf_def)

lemma upd_buf_link [simp]:
  "i < length (bufs s) \<Longrightarrow> nx (upd_buf i (b_next_update (\<lambda>_. v)) s) = (nx s)(i := v)"
  "i < length (bufs s) \<Longrightarrow> pv (upd_buf i (b_prev_update (\<lambda>_. v)) s) = (pv s)(i := v)"
  "i < length (bufs s) \<Longrightarrow> nf (upd_buf i (b_next_free_update (\<lambda>_. v)) s) = (nf s)(i := v)"
  "i < length (bufs s) \<Longrightarrow> pf (upd_buf i (b_prev_free_update (\<lambda>_. v)) s) = (pf s)(i := v)"
  "i < length (bufs s) \<Longrightarrow> nx (upd_buf i (\<lambda>x. x\<lparr>b_prev := v, b_next := w\<rparr>) s) = (nx s)(i := w)"
  "i < length (bufs s) \<Longrightarrow> pv (upd_buf i (\<lambda>x. x\<lparr>b_prev := v, b_next := w\<rparr>) s) = (pv s)(i := v)"
  by (simp_all add: fun_eq_iff link_defs buf_upd_buf)

lemma buf_other: "(\<And>b. g (f b) = g b) \<Longrightarrow> g (buf (upd_buf i f s) j) = g (buf s j)"
  by (simp add: buf_def upd_buf_def upd_nth_def nth_list_update split: if_splits)
    (metis list_update_beyond not_le nth_list_update nth_list_update_neq)

lemma upd_buf_other [simp]:
  "(\<And>b. b_next (f b) = b_next b) \<Longrightarrow> nx (upd_buf i f s) = nx s"
  "(\<And>b. b_prev (f b) = b_prev b) \<Longrightarrow> pv (upd_buf i f s) = pv s"
  "(\<And>b. b_next_free (f b) = b_next_free b) \<Longrightarrow> nf (upd_buf i f s) = nf s"
  "(\<And>b. b_prev_free (f b) = b_prev_free b) \<Longrightarrow> pf (upd_buf i f s) = pf s"
  "(\<And>b. b_dev (f b) = b_dev b) \<Longrightarrow> (\<And>b. b_blocknr (f b) = b_blocknr b) \<Longrightarrow> bkey (upd_buf i f s) = bkey s"
  by (simp_all add: fun_eq_iff link_defs buf_other)

lemma bhash_less [simp]: "bhash k < 307"
  by (simp add: bhash_def hashfn_def)

lemma link_more [simp]:
  "nx (s\<lparr>hash_table := t\<rparr>) = nx s" "nx (s\<lparr>free_list := l\<rparr>) = nx s" "nx (s\<lparr>mem := m\<rparr>) = nx s"
  "pv (s\<lparr>hash_table := t\<rparr>) = pv s" "pv (s\<lparr>free_list := l\<rparr>) = pv s" "pv (s\<lparr>mem := m\<rparr>) = pv s"
  "nf (s\<lparr>hash_table := t\<rparr>) = nf s" "nf (s\<lparr>free_list := l\<rparr>) = nf s" "nf (s\<lparr>mem := m\<rparr>) = nf s"
  "pf (s\<lparr>hash_table := t\<rparr>) = pf s" "pf (s\<lparr>free_list := l\<rparr>) = pf s" "pf (s\<lparr>mem := m\<rparr>) = pf s"
  "bkey (s\<lparr>hash_table := t\<rparr>) = bkey s" "bkey (s\<lparr>free_list := l\<rparr>) = bkey s" "bkey (s\<lparr>mem := m\<rparr>) = bkey s"
  by (simp_all add: link_defs buf_def fun_eq_iff)

lemma remove_run:
  assumes "bh < length (bufs s)" and "pf s bh = Some p" and "nf s bh = Some n"
    and "p < length (bufs s)" and "n < length (bufs s)" and "p \<noteq> bh" and "n \<noteq> bh"
    and "\<And>i. nx s bh = Some i \<Longrightarrow> i < length (bufs s)" and "\<And>i. pv s bh = Some i \<Longrightarrow> i < length (bufs s)"
    and h: "h = bhash (bkey s bh)"
  shows "\<exists>s'. remove_from_queues bh s es = Ok () s' es \<and> length (bufs s') = length (bufs s) \<and>
    hash_table s' = (if hash_table s ! h = Some bh then (hash_table s)[h := nx s bh] else hash_table s) \<and>
    free_list s' = (if free_list s = bh then n else free_list s) \<and>
    nx s' = (case pv s bh of None \<Rightarrow> nx s | Some p \<Rightarrow> (nx s)(p := nx s bh)) \<and>
    pv s' = (case nx s bh of None \<Rightarrow> pv s | Some p \<Rightarrow> (pv s)(p := pv s bh)) \<and>
    nf s' = (nf s)(p := Some n) \<and> pf s' = (pf s)(n := Some p) \<and> bkey s' = bkey s"
proof -
  define s1 where "s1 = (case nx s bh of None \<Rightarrow> s | Some i \<Rightarrow> upd_buf i (b_prev_update (\<lambda>_. pv s bh)) s)"
  define s2 where "s2 = (case pv s bh of None \<Rightarrow> s1 | Some i \<Rightarrow> upd_buf i (b_next_update (\<lambda>_. nx s bh)) s1)"
  define s3 where "s3 = (if hash_table s2 ! h = Some bh then s2\<lparr>hash_table := (hash_table s2)[h := nx s bh]\<rparr> else s2)"
  define s4 where "s4 = upd_buf n (b_prev_free_update (\<lambda>_. Some p)) (upd_buf p (b_next_free_update (\<lambda>_. Some n)) s3)"
  define s5 where "s5 = (if free_list s4 = bh then s4\<lparr>free_list := n\<rparr> else s4)"
  have 1: "length (bufs s1) = length (bufs s) \<and> hash_table s1 = hash_table s \<and> free_list s1 = free_list s \<and>
      nx s1 = nx s \<and> nf s1 = nf s \<and> pf s1 = pf s \<and> bkey s1 = bkey s \<and>
      pv s1 = (case nx s bh of None \<Rightarrow> pv s | Some p \<Rightarrow> (pv s)(p := pv s bh))"
    using assms(8) by (simp add: s1_def split: option.split)
  have 2: "length (bufs s2) = length (bufs s) \<and> hash_table s2 = hash_table s \<and> free_list s2 = free_list s \<and>
      nx s2 = (case pv s bh of None \<Rightarrow> nx s | Some p \<Rightarrow> (nx s)(p := nx s bh)) \<and>
      nf s2 = nf s \<and> pf s2 = pf s \<and> bkey s2 = bkey s \<and> pv s2 = pv s1"
    using 1 assms(9) by (simp add: s2_def split: option.split)
  have run: "remove_from_queues bh s es = Ok () s5 es"
    using assms(2,3,10)
    by (cases "nx s bh"; cases "pv s bh")
      (simp_all add: remove_from_queues_def kern_defs Let_def s1_def s2_def s3_def s4_def s5_def link_defs bhash_def)
  show ?thesis
    using 1 2 assms(4,5) by (intro exI [of _ s5] conjI run) (simp_all add: s3_def s4_def s5_def)
qed


lemma insert_run:
  assumes "bh < length (bufs s)" and "free_list s = fl" and "pf s fl = Some z" and "fl \<noteq> bh" and "z \<noteq> bh"
    and "fl < length (bufs s)" and "z < length (bufs s)"
    and h: "h = bhash (bkey s bh)" and "fst (bkey s bh) \<noteq> 0"
    and "\<And>i. hash_table s ! h = Some i \<Longrightarrow> i < length (bufs s)"
  shows "\<exists>s'. insert_into_queues bh s es = Ok () s' es \<and> length (bufs s') = length (bufs s) \<and>
    hash_table s' = (hash_table s)[h := Some bh] \<and> free_list s' = fl \<and>
    nx s' = (nx s)(bh := hash_table s ! h) \<and>
    pv s' = (case hash_table s ! h of None \<Rightarrow> (pv s)(bh := None) | Some f \<Rightarrow> (pv s)(bh := None, f := Some bh)) \<and>
    nf s' = (nf s)(bh := Some fl, z := Some bh) \<and> pf s' = (pf s)(bh := Some z, fl := Some bh) \<and>
    bkey s' = bkey s"
proof -
  define s1 where "s1 = upd_buf bh (b_prev_free_update (\<lambda>_. Some z)) (upd_buf bh (b_next_free_update (\<lambda>_. Some fl)) s)"
  define s2 where "s2 = upd_buf fl (b_prev_free_update (\<lambda>_. Some bh)) (upd_buf z (b_next_free_update (\<lambda>_. Some bh)) s1)"
  define s3 where "s3 = upd_buf bh (\<lambda>x. x\<lparr>b_prev := None, b_next := None\<rparr>) s2"
  define s4 where "s4 = (upd_buf bh (b_next_update (\<lambda>_. hash_table s ! h)) s3)\<lparr>hash_table := (hash_table s)[h := Some bh]\<rparr>"
  define s5 where "s5 = (case hash_table s ! h of None \<Rightarrow> s4\<lparr>mem := (mem s4)(20 := bh_addr s4 bh)\<rparr>
     | Some f \<Rightarrow> upd_buf f (b_prev_update (\<lambda>_. Some bh)) s4)"
  have 4: "length (bufs s4) = length (bufs s)" "hash_table s4 = (hash_table s)[h := Some bh]" "free_list s4 = fl"
      "nx s4 = (nx s)(bh := hash_table s ! h)" "pv s4 = (pv s)(bh := None)"
      "nf s4 = (nf s)(bh := Some fl, z := Some bh)" "pf s4 = (pf s)(bh := Some z, fl := Some bh)" "bkey s4 = bkey s"
    using assms(1-7) by (simp_all add: s1_def s2_def s3_def s4_def)
  have pf1: "b_prev_free (buf (upd_buf bh (b_next_free_update (\<lambda>_. Some fl)) s) fl) = Some z"
    "b_prev_free (buf s1 fl) = Some z"
    using assms(1,3-4) by (simp_all add: pf_def s1_def buf_other buf_upd_buf)
  have k3: "fst (bkey s3 bh) = fst (bkey s bh)" "bhash (bkey s3 bh) = h" "hash_table s3 = hash_table s"
    using h by (simp_all add: s1_def s2_def s3_def)
  have run: "insert_into_queues bh s es = Ok () s5 es"
    unfolding insert_into_queues_def null_store_def kern_defs assms(2) pf1
    using k3 assms(9) by (simp add: pf1 s4_def s5_def bkey_def bhash_def Let_def flip: s1_def s2_def s3_def split: option.split)
  show ?thesis
    using 4 assms(10) by (intro exI [of _ s5] conjI run) (simp_all add: s5_def split: option.split)
qed


lemma insert_run0:
  assumes "bh < length (bufs s)" and "free_list s = fl" and "pf s fl = Some z" and "fl \<noteq> bh" and "z \<noteq> bh"
    and "fl < length (bufs s)" and "z < length (bufs s)" and "fst (bkey s bh) = 0"
  shows "\<exists>s'. insert_into_queues bh s es = Ok () s' es \<and> length (bufs s') = length (bufs s) \<and>
    hash_table s' = hash_table s \<and> free_list s' = fl \<and> nx s' = (nx s)(bh := None) \<and> pv s' = (pv s)(bh := None) \<and>
    nf s' = (nf s)(bh := Some fl, z := Some bh) \<and> pf s' = (pf s)(bh := Some z, fl := Some bh) \<and>
    bkey s' = bkey s"
proof -
  define s1 where "s1 = upd_buf bh (b_prev_free_update (\<lambda>_. Some z)) (upd_buf bh (b_next_free_update (\<lambda>_. Some fl)) s)"
  define s2 where "s2 = upd_buf fl (b_prev_free_update (\<lambda>_. Some bh)) (upd_buf z (b_next_free_update (\<lambda>_. Some bh)) s1)"
  define s3 where "s3 = upd_buf bh (\<lambda>x. x\<lparr>b_prev := None, b_next := None\<rparr>) s2"
  have pf1: "b_prev_free (buf (upd_buf bh (b_next_free_update (\<lambda>_. Some fl)) s) fl) = Some z"
    "b_prev_free (buf s1 fl) = Some z"
    using assms(1,3-4) by (simp_all add: pf_def s1_def buf_other buf_upd_buf)
  have "fst (bkey s3 bh) = 0" using assms(8) by (simp add: s1_def s2_def s3_def)
  then have run: "insert_into_queues bh s es = Ok () s3 es"
    unfolding insert_into_queues_def null_store_def kern_defs assms(2) pf1
    by (simp add: pf1 bkey_def Let_def flip: s1_def s2_def s3_def)
  show ?thesis
    using assms(1-7) by (intro exI [of _ s3] conjI run) (simp_all add: s1_def s2_def s3_def)
qed

lemma queues_remove:
  assumes inv: "queues s R C A" and A: "A \<subseteq> {..<length (bufs s)}" and R: "set R = {..<length (bufs s)}"
    and "2 \<le> length (bufs s)" and bh: "bh < length (bufs s)"
    and free: "\<forall>i < length (bufs s). i \<notin> A \<longrightarrow> pv s i = None \<and> nx s i = None"
  shows "\<exists>s'. remove_from_queues bh s es = Ok () s' es \<and> length (bufs s') = length (bufs s) \<and>
    queues s' (remove1 bh R) (\<lambda>h. remove1 bh (C h)) (A - {bh}) \<and> bkey s' = bkey s \<and>
    (\<forall>i < length (bufs s). i \<notin> A \<longrightarrow> pv s' i = None \<and> nx s' i = None)"
proof -
  define h where "h = bhash (bkey s bh)"
  have h: "h < 307" by (simp add: h_def)
  have ring: "ring_links (nf s) (pf s) (free_list s) R" and len: "length (hash_table s) = 307"
    and chain: "\<And>k. k < 307 \<Longrightarrow> chain_links (nx s) (pv s) (hash_table s ! k) (C k)"
    and mem: "\<And>k. k < 307 \<Longrightarrow> set (C k) = {i \<in> A. bhash (bkey s i) = k}"
    using inv by (auto simp: queues_def)
  have "distinct R" using ring by (simp add: ring_links_def)
  then have lR: "2 \<le> length R" using R assms(4) distinct_card [of R] by simp
  from ring_remove [OF ring _ lR, of bh] bh R obtain p n where
    pn: "pf s bh = Some p" "nf s bh = Some n" "p < length (bufs s)" "n < length (bufs s)" "p \<noteq> bh" "n \<noteq> bh"
    and ring': "ring_links ((nf s)(p := Some n)) ((pf s)(n := Some p)) (if free_list s = bh then n else free_list s) (remove1 bh R)"
    by auto
  have nb: "nx s bh = Some i \<Longrightarrow> i \<in> set (C h)" and pb: "pv s bh = Some i \<Longrightarrow> i \<in> set (C h)" for i
  proof -
    have "bh \<in> A \<Longrightarrow> bh \<in> set (C h)" using mem [OF h] by (simp add: h_def)
    moreover have "bh \<notin> A \<Longrightarrow> nx s bh = None \<and> pv s bh = None" using free [rule_format, OF bh] by simp
    ultimately have in_C: "nx s bh \<noteq> None \<or> pv s bh \<noteq> None \<Longrightarrow> bh \<in> set (C h)" by (cases "bh \<in> A") simp_all
    show "i \<in> set (C h)" if "nx s bh = Some i"
      using chain_remove(2) [OF chain [OF h] in_C that] that by simp
    show "i \<in> set (C h)" if "pv s bh = Some i"
      using chain_remove(3) [OF chain [OF h] in_C that] that by simp
  qed
  have sub: "i \<in> set (C h) \<Longrightarrow> i < length (bufs s)" for i using mem [OF h] A by auto
  from remove_run [OF bh pn _ _ h_def, of es] nb pb sub obtain s' where
    run: "remove_from_queues bh s es = Ok () s' es" and l': "length (bufs s') = length (bufs s)" and
    ht: "hash_table s' = (if hash_table s ! h = Some bh then (hash_table s)[h := nx s bh] else hash_table s)" and
    fl': "free_list s' = (if free_list s = bh then n else free_list s)" and
    nx': "nx s' = (case pv s bh of None \<Rightarrow> nx s | Some p \<Rightarrow> (nx s)(p := nx s bh))" and
    pv': "pv s' = (case nx s bh of None \<Rightarrow> pv s | Some p \<Rightarrow> (pv s)(p := pv s bh))" and
    free': "nf s' = (nf s)(p := Some n)" "pf s' = (pf s)(n := Some p)" and k': "bkey s' = bkey s"
    by auto
  have same: "i \<notin> set (C h) \<Longrightarrow> nx s' i = nx s i \<and> pv s' i = pv s i" for i
    using nb pb by (auto simp: nx' pv' split: option.split)
  have "chain_links (nx s') (pv s') (hash_table s' ! k) (remove1 bh (C k))" if k: "k < 307" for k
  proof (cases "k = h \<and> bh \<in> A")
    case True
    then have "bh \<in> set (C h)" using mem [OF h] by (simp add: h_def)
    from chain_remove(1) [OF chain [OF h] this] show ?thesis
      using True len h by (cases "hash_table s ! h = Some bh") (simp_all add: nx' pv' ht)
  next
    case False
    then have nin: "bh \<notin> set (C k)" using mem [OF k] by (auto simp: h_def)
    have hd: "hash_table s' ! k = hash_table s ! k"
    proof (cases "k = h")
      case True
      then show ?thesis using nin chain [OF h] ht by (cases "C h") (auto simp: chain_links_def)
    qed (simp add: ht)
    have "nx s' i = nx s i \<and> pv s' i = pv s i" if "i \<in> set (C k)" for i
    proof (cases "k = h")
      case True
      then have "nx s bh = None" "pv s bh = None" using False free bh by auto
      then show ?thesis by (simp add: nx' pv')
    next
      case False
      then show ?thesis using that mem [OF h] mem [OF k] by (intro same) auto
    qed
    then show ?thesis
      using chain_links_cong [of "C k" "nx s'" "nx s" "pv s'" "pv s"] chain [OF k] nin hd by (simp add: remove1_idem)
  qed
  moreover have "set (remove1 bh (C k)) = {i \<in> A - {bh}. bhash (bkey s' i) = k}" if "k < 307" for k
    using mem [OF that] chain [OF that] by (auto simp: k' chain_links_def)
  moreover have "length (hash_table s') = 307" using len by (simp add: ht)
  moreover have "pv s' i = None \<and> nx s' i = None" if "i < length (bufs s)" "i \<notin> A" for i
    using same [of i] free that mem [OF h] by auto
  ultimately show ?thesis using run l' k' ring' fl' free' by (auto simp: queues_def)
qed

lemma queues_insert:
  assumes inv: "queues s R C A" and A: "A \<subseteq> {..<length (bufs s)}" and R: "set R = {..<length (bufs s)} - {bh}"
    and bh: "bh < length (bufs s)" "bh \<notin> A" and dev: "fst (bkey s bh) \<noteq> 0"
  shows "\<exists>s'. insert_into_queues bh s es = Ok () s' es \<and> length (bufs s') = length (bufs s) \<and>
    (\<exists>C'. queues s' (R @ [bh]) C' (insert bh A)) \<and> bkey s' = bkey s \<and>
    (\<forall>i. i \<notin> insert bh A \<longrightarrow> pv s' i = pv s i \<and> nx s' i = nx s i)"
proof -
  define h where "h = bhash (bkey s bh)"
  have h: "h < 307" by (simp add: h_def)
  have ring: "ring_links (nf s) (pf s) (free_list s) R" and len: "length (hash_table s) = 307"
    and chain: "\<And>k. k < 307 \<Longrightarrow> chain_links (nx s) (pv s) (hash_table s ! k) (C k)"
    and mem: "\<And>k. k < 307 \<Longrightarrow> set (C k) = {i \<in> A. bhash (bkey s i) = k}"
    using inv by (auto simp: queues_def)
  have nR: "bh \<notin> set R" using R by simp
  note ri = ring_insert [OF ring nR]
  have lR: "last R \<in> set R" using ring by (auto simp: ring_links_def)
  have nin: "bh \<notin> set (C h)" using mem [OF h] bh by simp
  note ci = chain_insert [OF chain [OF h] nin]
  have sub: "hash_table s ! h = Some i \<Longrightarrow> i < length (bufs s)" for i using ci(2) [of i] mem [OF h] A by auto
  from insert_run [OF bh(1) refl ri(2) _ _ _ _ h_def dev sub, of es] ri(3) lR R obtain s' where
    run: "insert_into_queues bh s es = Ok () s' es" and l': "length (bufs s') = length (bufs s)" and
    ht: "hash_table s' = (hash_table s)[h := Some bh]" and fl: "free_list s' = free_list s" and
    nx': "nx s' = (nx s)(bh := hash_table s ! h)" and
    pv': "pv s' = (case hash_table s ! h of None \<Rightarrow> (pv s)(bh := None) | Some f \<Rightarrow> (pv s)(bh := None, f := Some bh))" and
    free': "nf s' = (nf s)(bh := Some (free_list s), last R := Some bh)"
      "pf s' = (pf s)(bh := Some (last R), free_list s := Some bh)" and k': "bkey s' = bkey s"
    by auto
  define C' where "C' = C(h := bh # C h)"
  have same: "pv s' i = pv s i \<and> nx s' i = nx s i" if "i \<noteq> bh" "i \<notin> set (C h)" for i
    using that ci(2) by (auto simp: nx' pv' split: option.split)
  have same': "pv s' i = pv s i \<and> nx s' i = nx s i" if "i \<notin> insert bh A" for i
    using that mem [OF h] by (intro same) auto
  have "chain_links (nx s') (pv s') (hash_table s' ! k) (C' k)" if k: "k < 307" for k
  proof (cases "k = h")
    case True
    then show ?thesis using ci(1) len h by (simp add: C'_def ht nx' pv')
  next
    case False
    have "pv s' i = pv s i \<and> nx s' i = nx s i" if "i \<in> set (C k)" for i
      using that mem [OF h] mem [OF k] False bh by (intro same) auto
    then show ?thesis
      using chain_links_cong [of "C k" "nx s'" "nx s" "pv s'" "pv s"] chain [OF k] False by (simp add: C'_def ht)
  qed
  moreover have "set (C' k) = {i \<in> insert bh A. bhash (bkey s' i) = k}" if "k < 307" for k
    using mem [OF that] by (auto simp: k' C'_def h_def)
  moreover have "length (hash_table s') = 307" using len by (simp add: ht)
  ultimately have "queues s' (R @ [bh]) C' (insert bh A)" using ri(1) fl free' by (simp add: queues_def)
  with run l' k' same' show ?thesis by auto
qed


lemma queues_insert0:
  assumes inv: "queues s R C A" and A: "A \<subseteq> {..<length (bufs s)}" and R: "set R = {..<length (bufs s)} - {bh}"
    and bh: "bh < length (bufs s)" "bh \<notin> A" and dev: "fst (bkey s bh) = 0"
  shows "\<exists>s'. insert_into_queues bh s es = Ok () s' es \<and> length (bufs s') = length (bufs s) \<and>
    queues s' (R @ [bh]) C A \<and> bkey s' = bkey s \<and> pv s' = (pv s)(bh := None) \<and> nx s' = (nx s)(bh := None)"
proof -
  have ring: "ring_links (nf s) (pf s) (free_list s) R" and len: "length (hash_table s) = 307"
    and chain: "\<And>k. k < 307 \<Longrightarrow> chain_links (nx s) (pv s) (hash_table s ! k) (C k)"
    and mem: "\<And>k. k < 307 \<Longrightarrow> set (C k) = {i \<in> A. bhash (bkey s i) = k}"
    using inv by (auto simp: queues_def)
  have nR: "bh \<notin> set R" using R by simp
  note ri = ring_insert [OF ring nR]
  have lR: "last R \<in> set R" using ring by (auto simp: ring_links_def)
  from insert_run0 [OF bh(1) refl ri(2) _ _ _ _ dev, of es] ri(3) lR R obtain s' where
    run: "insert_into_queues bh s es = Ok () s' es" and l': "length (bufs s') = length (bufs s)" and
    ht: "hash_table s' = hash_table s" and fl: "free_list s' = free_list s" and
    nx': "nx s' = (nx s)(bh := None)" and pv': "pv s' = (pv s)(bh := None)" and
    free': "nf s' = (nf s)(bh := Some (free_list s), last R := Some bh)"
      "pf s' = (pf s)(bh := Some (last R), free_list s := Some bh)" and k': "bkey s' = bkey s"
    by auto
  have "chain_links (nx s') (pv s') (hash_table s' ! k) (C k)" if k: "k < 307" for k
  proof -
    have "bh \<notin> set (C k)" using mem [OF k] bh by simp
    then show ?thesis using chain [OF k] by (simp add: chain_links_def ht nx' pv')
  qed
  with mem len have "queues s' (R @ [bh]) C A" using ri(1) fl free' by (simp add: queues_def ht k')
  with run l' k' nx' pv' show ?thesis by auto
qed

lemma cache_inv_cong:
  assumes "cache_inv s" and "length (bufs s') = length (bufs s)" and "hash_table s' = hash_table s"
    and "free_list s' = free_list s" and "nx s' = nx s" and "pv s' = pv s" and "nf s' = nf s" and "pf s' = pf s"
    and "bkey s' = bkey s"
  shows "cache_inv s'"
  using assms by (simp add: cache_inv_def queues_def cached_def)

lemma take_buffer_inv:
  assumes inv: "cache_inv s" and bh: "bh < length (bufs s)"
    and new: "\<And>i. i < length (bufs s) \<Longrightarrow> dev \<noteq> 0 \<Longrightarrow> bkey s i \<noteq> (dev, block)"
  shows "\<exists>s'. take_buffer dev block bh s es = Ok () s' es \<and> cache_inv s' \<and> length (bufs s') = length (bufs s) \<and>
    bkey s' = (bkey s)(bh := (dev, block))"
proof -
  define s1 where "s1 = upd_buf bh (\<lambda>b. b\<lparr>b_count := 1, b_dirt := 0, b_uptodate := 0\<rparr>) s"
  have "cache_inv s1" using inv by (rule cache_inv_cong) (simp_all add: s1_def)
  then obtain R C where n: "2 \<le> length (bufs s1)" and inj: "inj_on (bkey s1) (cached s1)"
    and free: "\<forall>i < length (bufs s1). i \<notin> cached s1 \<longrightarrow> pv s1 i = None \<and> nx s1 i = None"
    and q: "queues s1 R C (cached s1)" and R: "set R = {..<length (bufs s1)}"
    unfolding cache_inv_def by blast
  have same: "length (bufs s1) = length (bufs s)" "bkey s1 = bkey s" by (simp_all add: s1_def)
  have bh1: "bh < length (bufs s1)" and sub: "cached s1 \<subseteq> {..<length (bufs s1)}"
    using bh same by (auto simp: cached_def)
  from queues_remove [OF q sub R n bh1 free, of es] obtain s2 where
    rem: "remove_from_queues bh s1 es = Ok () s2 es" and l2: "length (bufs s2) = length (bufs s1)"
    and q2: "queues s2 (remove1 bh R) (\<lambda>h. remove1 bh (C h)) (cached s1 - {bh})" and k2: "bkey s2 = bkey s1"
    and free2: "\<forall>i < length (bufs s1). i \<notin> cached s1 \<longrightarrow> pv s2 i = None \<and> nx s2 i = None" by auto
  define s3 where "s3 = upd_buf bh (\<lambda>b. b\<lparr>b_dev := dev, b_blocknr := block\<rparr>) s2"
  have l3: "length (bufs s3) = length (bufs s1)" using l2 by (simp add: s3_def)
  have k3: "bkey s3 = (bkey s1)(bh := (dev, block))"
    using bh1 l2 k2 by (simp add: fun_eq_iff s3_def bkey_def buf_upd_buf)
  have q3: "queues s3 (remove1 bh R) (\<lambda>h. remove1 bh (C h)) (cached s1 - {bh})"
    using q2 k2 k3 by (simp add: queues_def) (auto simp: s3_def)
  have "distinct R" using q by (simp add: queues_def ring_links_def)
  then have R3: "set (remove1 bh R) = {..<length (bufs s3)} - {bh}" using R l3 by simp
  have A3: "cached s1 - {bh} \<subseteq> {..<length (bufs s3)}" "bh < length (bufs s3)" "bh \<notin> cached s1 - {bh}"
    using sub bh1 l3 by auto
  define A where "A = (if dev = 0 then cached s1 - {bh} else insert bh (cached s1 - {bh}))"
  obtain s4 C' where
    ins: "insert_into_queues bh s3 es = Ok () s4 es" and l4: "length (bufs s4) = length (bufs s1)"
    and q4: "queues s4 (remove1 bh R @ [bh]) C' A" and k4: "bkey s4 = bkey s3"
    and free4: "\<And>i. i < length (bufs s1) \<Longrightarrow> i \<notin> A \<Longrightarrow> pv s4 i = None \<and> nx s4 i = None"
  proof (cases "dev = 0")
    case True
    with queues_insert0 [OF q3 A3(1) R3 A3(2,3), of es] k3 obtain s4 where
      "insert_into_queues bh s3 es = Ok () s4 es" "length (bufs s4) = length (bufs s1)"
      "queues s4 (remove1 bh R @ [bh]) (\<lambda>h. remove1 bh (C h)) (cached s1 - {bh})" "bkey s4 = bkey s3"
      "pv s4 = (pv s3)(bh := None)" "nx s4 = (nx s3)(bh := None)" by (auto simp: l3)
    moreover from this have "pv s4 i = None \<and> nx s4 i = None" if "i < length (bufs s1)" "i \<notin> A" for i
      using that free2 True by (cases "i = bh") (auto simp: A_def s3_def)
    ultimately show thesis using that [of s4 "\<lambda>h. remove1 bh (C h)"] True by (simp add: A_def)
  next
    case False
    with queues_insert [OF q3 A3(1) R3 A3(2,3), of es] k3 obtain s4 C' where
      "insert_into_queues bh s3 es = Ok () s4 es" "length (bufs s4) = length (bufs s1)"
      "queues s4 (remove1 bh R @ [bh]) C' (insert bh (cached s1 - {bh}))" "bkey s4 = bkey s3"
      "\<forall>i. i \<notin> insert bh (cached s1 - {bh}) \<longrightarrow> pv s4 i = pv s3 i \<and> nx s4 i = nx s3 i" by (auto simp: l3)
    then show thesis using that [of s4 C'] free2 False by (auto simp: A_def s3_def)
  qed
  have c4: "cached s4 = A"
    using bh1 by (auto simp: cached_def k4 k3 l4 A_def)
  have "take_buffer dev block bh s es = Ok () s4 es"
    using rem ins by (simp add: take_buffer_def kern_defs s1_def s3_def)
  moreover have "inj_on (bkey s4) (cached s4)"
  proof (rule inj_onI)
    fix i j
    assume ij: "i \<in> cached s4" "j \<in> cached s4" "bkey s4 i = bkey s4 j"
    have old: "bkey s k \<noteq> (dev, block)" if "k \<in> cached s4" "dev \<noteq> 0" for k
      using that new [of k] by (simp add: cached_def l4 same)
    have other: "k \<in> cached s1" "bkey s4 k = bkey s k" if "k \<noteq> bh" "k \<in> cached s4" for k
      using that by (simp_all add: c4 A_def k4 k3 same split: if_splits)
    have new_bh: "dev \<noteq> 0" "bkey s4 bh = (dev, block)" if "bh \<in> cached s4"
      using that by (simp_all add: c4 A_def k4 k3 split: if_splits)
    show "i = j"
    proof (cases "i = bh \<or> j = bh")
      case True
      then show ?thesis using ij other(2) [of i] other(2) [of j] new_bh old [of i] old [of j] by metis
    next
      case False
      then have "i \<in> cached s1" "j \<in> cached s1" "bkey s1 i = bkey s1 j" using ij other same by auto
      with inj show ?thesis by (simp add: inj_on_def)
    qed
  qed
  moreover have "pv s4 i = None \<and> nx s4 i = None" if "i < length (bufs s1)" "i \<notin> cached s4" for i
    using that free4 c4 by simp
  moreover have "set (remove1 bh R @ [bh]) = {..<length (bufs s4)}" using R3 bh1 l3 l4 by auto
  ultimately have "cache_inv s4" using q4 n l4 c4 unfolding cache_inv_def by auto
  with \<open>take_buffer dev block bh s es = Ok () s4 es\<close> l4 same k4 k3 show ?thesis by auto
qed

section \<open>Finding a buffer\<close>

lemma chain_find_spec:
  assumes "lseg (\<lambda>i. b_next (bs ! i)) t C None" and "length C < n"
  shows "chain_find n bs dev block t = Some (find (\<lambda>i. b_dev (bs ! i) = dev \<and> b_blocknr (bs ! i) = block) C)"
  using assms
proof (induction C arbitrary: n t)
  case Nil
  then show ?case by (cases n) auto
next
  case (Cons i C)
  then show ?case by (cases n) auto
qed

lemma find_buffer_run:
  assumes "cache_inv s"
  shows "\<exists>r. find_buffer dev block s es = Ok r s es \<and>
    (case r of None \<Rightarrow> \<forall>i < length (bufs s). dev \<noteq> 0 \<longrightarrow> bkey s i \<noteq> (dev, block)
     | Some i \<Rightarrow> i < length (bufs s) \<and> bkey s i = (dev, block))"
proof -
  define h where "h = hashfn dev block"
  have h: "h < 307" by (simp add: h_def hashfn_def)
  from assms obtain R C where q: "queues s R C (cached s)" by (auto simp: cache_inv_def)
  with h have chain: "chain_links (nx s) (pv s) (hash_table s ! h) (C h)"
    and C: "set (C h) = {i \<in> cached s. bhash (bkey s i) = h}"
    by (auto simp: queues_def)
  have "nx s = (\<lambda>i. b_next (bufs s ! i))" by (simp add: fun_eq_iff nx_def buf_def)
  with chain have seg: "lseg (\<lambda>i. b_next (bufs s ! i)) (hash_table s ! h) (C h) None"
    by (simp add: chain_links_def)
  have "card (set (C h)) \<le> card {..<length (bufs s)}" using C by (intro card_mono) (auto simp: cached_def)
  then have len: "length (C h) < Suc (length (bufs s))"
    using chain by (simp add: chain_links_def distinct_card)
  let ?r = "find (\<lambda>i. b_dev (bufs s ! i) = dev \<and> b_blocknr (bufs s ! i) = block) (C h)"
  have run: "find_buffer dev block s es = Ok ?r s es"
    using chain_find_spec [OF seg len] by (simp add: find_buffer_def kern_defs h_def)
  have key: "bkey s i = (dev, block) \<longleftrightarrow> b_dev (bufs s ! i) = dev \<and> b_blocknr (bufs s ! i) = block" for i
    by (simp add: bkey_def buf_def)
  show ?thesis
  proof (cases ?r)
    case None
    have "bkey s i \<noteq> (dev, block)" if "i < length (bufs s)" "dev \<noteq> 0" for i
    proof
      assume k: "bkey s i = (dev, block)"
      then have "i \<in> set (C h)" using that C by (simp add: cached_def bhash_def h_def)
      with None k key show False by (auto simp: find_None_iff)
    qed
    with run None show ?thesis by simp
  next
    case (Some i)
    then have "i \<in> set (C h)" "bkey s i = (dev, block)" by (auto simp: find_Some_iff key)
    with C run Some show ?thesis by (auto simp: cached_def)
  qed
qed

section \<open>The cache while tasks sleep\<close>

text \<open>The rest of the system may do anything to the cache that keeps its invariant; it never
  changes the number of buffers.\<close>

definition cache_ok :: "nat \<Rightarrow> 'z blk_state_scheme \<Rightarrow> bool" where
  "cache_ok n s \<longleftrightarrow> cache_inv s \<and> length (bufs s) = n"

definition cache_rely :: "'z blk_state_scheme \<Rightarrow> 'z blk_state_scheme \<Rightarrow> bool" where
  "cache_rely s t \<longleftrightarrow> (\<forall>n. cache_ok n s \<longrightarrow> cache_ok n t)"

lemma cache_ok_cong:
  assumes "bufs s = bufs t" and "hash_table s = hash_table t" and "free_list s = free_list t"
  shows "cache_ok n s = cache_ok n t"
proof -
  have "buf s = buf t" using assms(1) by (simp add: fun_eq_iff buf_def)
  then have "nx s = nx t" "pv s = pv t" "nf s = nf t" "pf s = pf t" "bkey s = bkey t"
    by (simp_all add: fun_eq_iff link_defs)
  then show ?thesis using assms by (simp add: cache_ok_def cache_inv_def queues_def cached_def)
qed

lemma cache_ok_upd_buf [simp]:
  assumes "\<And>b. b_next (f b) = b_next b" and "\<And>b. b_prev (f b) = b_prev b"
    and "\<And>b. b_next_free (f b) = b_next_free b" and "\<And>b. b_prev_free (f b) = b_prev_free b"
    and "\<And>b. b_dev (f b) = b_dev b" and "\<And>b. b_blocknr (f b) = b_blocknr b"
  shows "cache_ok n (upd_buf i f s) = cache_ok n s"
  using assms by (simp add: cache_ok_def cache_inv_def queues_def cached_def)

lemma cache_ok_fields [simp]:
  "cache_ok n (s\<lparr>request := rs\<rparr>) = cache_ok n s" "cache_ok n (s\<lparr>blk_dev := ds\<rparr>) = cache_ok n s"
  "cache_ok n (s\<lparr>buffer_wait := w\<rparr>) = cache_ok n s" "cache_ok n (s\<lparr>wait_for_request := w\<rparr>) = cache_ok n s"
  "cache_ok n (s\<lparr>rd_bytes := b\<rparr>) = cache_ok n s" "cache_ok n (s\<lparr>mem := m\<rparr>) = cache_ok n s"
  "cache_ok n (s\<lparr>wait_on_floppy_select := w\<rparr>) = cache_ok n s" "cache_ok n (upd_req k g s) = cache_ok n s"
  by (rule cache_ok_cong; simp add: upd_req_def)+

lemma same_more:
  "sched_state.more s = sched_state.more t \<Longrightarrow> bufs s = bufs t \<and> hash_table s = hash_table t \<and> free_list s = free_list t"
  by (cases s; cases t) simp

interpretation cache: waiting "cache_ok n" cache_rely
proof
  fix s t :: "'z blk_state_scheme"
  assume "sched_state.more s = sched_state.more t" and "cache_ok n s"
  then show "cache_ok n t" using same_more [of s t] cache_ok_cong [of s t n] by blast
next
  fix s t :: "'z blk_state_scheme"
  assume "cache_rely s t" and "cache_ok n s"
  then show "cache_ok n t" by (simp add: cache_rely_def)
qed


lemma printk_keeps [keeps]: "keeps R (cache_ok n) (printk msg args)"
  unfolding printk_def by (rule keeps_modify, erule subst [OF cache_ok_cong, rotated 3]) simp_all

lemma buffer_queues [simp]:
  "cache_ok n s \<Longrightarrow> cache_ok n (snd (bwait_queue i) v s)" "cache_ok n s \<Longrightarrow> cache_ok n (snd (rwait_queue i) v s)"
  "cache_ok n s \<Longrightarrow> cache_ok n (snd request_queue v s)" "cache_ok n s \<Longrightarrow> cache_ok n (snd buffer_queue v s)"
  by (simp_all add: bwait_queue_def rwait_queue_def request_queue_def buffer_queue_def)

lemma wait_buffer_unlock_cache: "triple cache_rely (cache_ok n) (wait_buffer_unlock i) (\<lambda>_ s. cache_ok n s \<and> b_lock (buf s i) = 0)"
  unfolding wait_buffer_unlock_def by (rule triple_weaken [OF cache.wait_on_keeps]) auto

lemma keeps_triple: "triple R I m Q \<Longrightarrow> (\<And>v s. Q v s \<Longrightarrow> I s) \<Longrightarrow> keeps R I m"
  unfolding keeps_def by (rule triple_weaken)

lemma buffer_waits [keeps]:
  "keeps cache_rely (cache_ok n) (wait_buffer_unlock i)" "keeps cache_rely (cache_ok n) (sleep_on request_queue)"
  "keeps cache_rely (cache_ok n) (sleep_on buffer_queue)" "keeps cache_rely (cache_ok n) (wake_up_last buffer_queue)"
  "keeps cache_rely (cache_ok n) (wake_up_last (bwait_queue i))" "keeps cache_rely (cache_ok n) (wake_up_last (rwait_queue i))"
  "keeps cache_rely (cache_ok n) (wake_up_last request_queue)"
  by (simp_all add: cache.sleep_on_keeps cache.wake_up_keeps keeps_triple [OF wait_buffer_unlock_cache])

definition found :: "nat \<Rightarrow> u16 \<Rightarrow> u32 \<Rightarrow> nat \<Rightarrow> 'z blk_state_scheme \<Rightarrow> bool" where
  "found n dev block i s \<longleftrightarrow> cache_ok n s \<and> i < n \<and> bkey s i = (dev, block)"

lemma find_buffer_cache:
  assumes "find_buffer dev block s es = Ok r t fs" and "cache_ok n s"
  shows "t = s" and "fs = es" and "r = Some i \<Longrightarrow> found n dev block i s"
    and "r = None \<Longrightarrow> i < n \<Longrightarrow> dev \<noteq> 0 \<Longrightarrow> bkey s i \<noteq> (dev, block)"
  using find_buffer_run [of s dev block es] assms by (auto simp: cache_ok_def found_def)

lemma get_hash_table_cache:
  "triple cache_rely (cache_ok n) (get_hash_table fuel dev block :: (nat option, 'z blk_state_scheme) kern)
    (\<lambda>r s. cache_ok n s \<and> (case r of None \<Rightarrow> True | Some i \<Rightarrow> found n dev block i s))"
proof (induction fuel)
  case 0
  show ?case by (simp add: triple_def kloops_def)
next
  case (Suc k)
  show ?case
  proof (rule tripleI)
    fix s s' :: "'z blk_state_scheme" and es r es'
    assume ok: "cache_ok n s" and es: "conforms cache_rely es"
      and run: "get_hash_table (Suc k) dev block s es = Ok r s' es'"
    from run obtain f where f: "find_buffer dev block s es = Ok f s es"
      using find_buffer_cache(1,2) [OF _ ok] by (auto simp: run_simps)
    show "(cache_ok n s' \<and> (case r of None \<Rightarrow> True | Some i \<Rightarrow> found n dev block i s')) \<and> conforms cache_rely es'"
    proof (cases f)
      case None
      with f run ok es show ?thesis by (simp add: run_simps)
    next
      case (Some bh)
      with f find_buffer_cache(3) [OF f ok] have bh: "bh < n" by (simp add: found_def)
      let ?s1 = "upd_buf bh (\<lambda>b. b\<lparr>b_count := b_count b + 1\<rparr>) s"
      from run f Some obtain t fs where w: "wait_buffer_unlock bh ?s1 es = Ok () t fs"
        and rest: "(if b_dev (buf t bh) = dev \<and> b_blocknr (buf t bh) = block then ret (Some bh)
          else kseq (modify (upd_buf bh (\<lambda>b. b\<lparr>b_count := b_count b - 1\<rparr>))) (get_hash_table k dev block)) t fs = Ok r s' es'"
        by (auto simp: run_simps)
      have t: "cache_ok n t" "conforms cache_rely fs"
        using keepsD [OF buffer_waits(1) _ es w, of n] ok by simp_all
      show ?thesis
      proof (cases "b_dev (buf t bh) = dev \<and> b_blocknr (buf t bh) = block")
        case True
        then show ?thesis using rest t bh by (auto simp: run_simps found_def bkey_def)
      next
        case False
        then have "get_hash_table k dev block (upd_buf bh (\<lambda>b. b\<lparr>b_count := b_count b - 1\<rparr>) t) fs = Ok r s' es'"
          using rest unfolding if_not_P [OF False] by (simp add: run_simps)
        from tripleD [OF Suc.IH _ t(2) this] t(1) show ?thesis by simp
      qed
    qed
  qed
qed

lemma flush_dirty_cache:
  assumes "\<And>d. keeps cache_rely (cache_ok n) (sync_dev d)"
  shows "keeps cache_rely (cache_ok n) (flush_dirty fuel sync_dev bh)"
  by (induction fuel) (simp_all only: flush_dirty.simps keeps_prims, intro keeps assms)

lemma scan_free_in_ring:
  assumes "lseg (\<lambda>i. b_next_free (bs ! i)) (Some t) R (Some fl)" and "R \<noteq> []" and "distinct R"
    and "fl \<notin> set (tl R)" and "length R \<le> k" and "\<And>i. bh = Some i \<Longrightarrow> b_count (bs ! i) = 0"
  shows "\<exists>r. scan_free k bs fl t bh = Some r \<and>
    (case r of None \<Rightarrow> bh = None \<and> (\<forall>i \<in> set R. b_count (bs ! i) \<noteq> 0)
     | Some i \<Rightarrow> (i \<in> set R \<or> bh = Some i) \<and> b_count (bs ! i) = 0 \<and>
         (\<forall>j \<in> set R \<union> set_option bh. b_count (bs ! j) = 0 \<longrightarrow> BADNESS (bs ! i) \<le> BADNESS (bs ! j)))"
  using assms
proof (induction k arbitrary: t R bh)
  case 0
  then show ?case by simp
next
  case (Suc k)
  then obtain R' where R: "R = t # R'" by (cases R) auto
  define better where "better \<longleftrightarrow> b_count (bs ! t) = 0 \<and>
    (case bh of None \<Rightarrow> True | Some i \<Rightarrow> BADNESS (bs ! t) < BADNESS (bs ! i))"
  define bh' where "bh' = (if better then Some t else bh)"
  have bh': "bh' = Some i \<Longrightarrow> b_count (bs ! i) = 0" for i
    using Suc.prems(6) by (auto simp: bh'_def better_def split: if_splits)
  have seg: "lseg (\<lambda>i. b_next_free (bs ! i)) (b_next_free (bs ! t)) R' (Some fl)"
    using Suc.prems(1) R by simp
  show ?case
  proof (cases "better \<and> BADNESS (bs ! t) = 0")
    case True
    then show ?thesis using R by (auto simp: Let_def better_def)
  next
    case False
    show ?thesis
    proof (cases R')
      case Nil
      with seg have "scan_free (Suc k) bs fl t bh = Some bh'"
        using False by (auto simp: Let_def better_def bh'_def)
      moreover have "case bh' of None \<Rightarrow> bh = None \<and> b_count (bs ! t) \<noteq> 0
        | Some i \<Rightarrow> (i = t \<or> bh = Some i) \<and> b_count (bs ! i) = 0 \<and>
           (\<forall>j \<in> {t} \<union> set_option bh. b_count (bs ! j) = 0 \<longrightarrow> BADNESS (bs ! i) \<le> BADNESS (bs ! j))"
        using Suc.prems(6) by (cases bh; cases better) (auto simp: bh'_def better_def)
      ultimately show ?thesis unfolding R Nil by (cases bh') (auto simp del: scan_free.simps)
    next
      case (Cons u R'')
      with seg have u: "b_next_free (bs ! t) = Some u" "u \<noteq> fl"
        using Suc.prems(4) R by auto
      have step: "scan_free (Suc k) bs fl t bh = scan_free k bs fl u bh'"
        using False u by (auto simp: Let_def better_def bh'_def)
      have "lseg (\<lambda>i. b_next_free (bs ! i)) (Some u) R' (Some fl)" using seg u by simp
      from Suc.IH [OF this _ _ _ _ bh'] obtain r where r: "scan_free k bs fl u bh' = Some r"
        "case r of None \<Rightarrow> bh' = None \<and> (\<forall>i \<in> set R'. b_count (bs ! i) \<noteq> 0)
         | Some i \<Rightarrow> (i \<in> set R' \<or> bh' = Some i) \<and> b_count (bs ! i) = 0 \<and>
         (\<forall>j \<in> set R' \<union> set_option bh'. b_count (bs ! j) = 0 \<longrightarrow> BADNESS (bs ! i) \<le> BADNESS (bs ! j))"
        using Suc.prems(3-5) R Cons by auto
      show ?thesis
      proof (cases r)
        case None
        with r show ?thesis using R by (auto simp: step bh'_def better_def simp del: scan_free.simps split: if_splits)
      next
        case (Some i)
        have "i \<in> set R \<or> bh = Some i" using r Some R by (auto simp: bh'_def split: if_splits)
        moreover have "BADNESS (bs ! i) \<le> BADNESS (bs ! j)"
          if "j \<in> set R \<union> set_option bh" "b_count (bs ! j) = 0" for j
        proof -
          have "j \<in> set R' \<union> set_option bh' \<or> (\<exists>k \<in> set_option bh'. BADNESS (bs ! k) \<le> BADNESS (bs ! j))"
            using that R by (auto simp: bh'_def better_def split: option.splits)
          then show ?thesis using r Some that(2) bh' by (auto intro: order_trans)
        qed
        ultimately show ?thesis using r Some by (simp add: step del: scan_free.simps)
      qed
    qed
  qed
qed


text \<open>The search of \<open>getblk\<close> always ends, and finds a least bad unused buffer if there is an
  unused one.\<close>

lemma scan_free_cache:
  assumes "cache_inv s"
  shows "\<exists>r. scan_free (Suc (length (bufs s))) (bufs s) (free_list s) (free_list s) None = Some r \<and>
    (case r of None \<Rightarrow> \<forall>i < length (bufs s). b_count (buf s i) \<noteq> 0
     | Some i \<Rightarrow> i < length (bufs s) \<and> b_count (buf s i) = 0 \<and>
         (\<forall>j < length (bufs s). b_count (buf s j) = 0 \<longrightarrow> BADNESS (buf s i) \<le> BADNESS (buf s j)))"
proof -
  from assms obtain R C where q: "queues s R C (cached s)" and R: "set R = {..<length (bufs s)}"
    by (auto simp: cache_inv_def)
  have nf: "nf s = (\<lambda>i. b_next_free (bufs s ! i))" by (simp add: fun_eq_iff nf_def buf_def)
  have ring: "R \<noteq> []" "distinct R" "lseg (nf s) (Some (free_list s)) R (Some (free_list s))"
    using q by (auto simp: queues_def ring_links_def)
  have "hd R = free_list s" using ring by (auto intro: lseg_hd)
  with ring have "free_list s \<notin> set (tl R)" by (cases R) auto
  moreover have "length R \<le> Suc (length (bufs s))" using R ring(2) distinct_card [of R] by simp
  ultimately show ?thesis
    using scan_free_in_ring [of "bufs s" "free_list s" R "free_list s" "Suc (length (bufs s))" None] ring R
    by (auto simp: nf buf_def simp del: scan_free.simps split: option.splits)
qed

lemma getblk_of_cache:
  assumes sync: "\<And>d. keeps cache_rely (cache_ok n) (sync_dev d)"
    and again: "triple cache_rely (cache_ok n) again (found n dev block)"
  shows "triple cache_rely (cache_ok n) (getblk_of fuel sync_dev again dev block :: (nat, 'z blk_state_scheme) kern)
    (found n dev block)"
proof (rule tripleI)
  fix s s' :: "'z blk_state_scheme" and es bh es'
  assume ok: "cache_ok n s" and es: "conforms cache_rely es"
    and run: "getblk_of fuel sync_dev again dev block s es = Ok bh s' es'"
  note again_ok = tripleD [OF again]
  from run obtain r s1 es1 where h: "get_hash_table fuel dev block s es = Ok r s1 es1"
    unfolding getblk_of_def by (auto simp: kbind_Ok)
  from tripleD [OF get_hash_table_cache ok es h]
  have 1: "cache_ok n s1" "conforms cache_rely es1" "\<And>i. r = Some i \<Longrightarrow> found n dev block i s1"
    by (auto split: option.splits)
  from scan_free_cache [of s1] 1(1) obtain f where
    scan: "scan_free (Suc (length (bufs s1))) (bufs s1) (free_list s1) (free_list s1) None = Some f"
    and f: "\<And>i. f = Some i \<Longrightarrow> i < n"
    by (auto simp: cache_ok_def split: option.splits)
  show "found n dev block bh s' \<and> conforms cache_rely es'"
  proof (cases r)
    case (Some i)
    with run h 1 show ?thesis by (simp add: getblk_of_def run_simps)
  next
    case None
    show ?thesis
    proof (cases f)
      case None
      with \<open>r = None\<close> run h scan obtain t fs where "sleep_on buffer_queue s1 es1 = Ok () t fs"
        and "again t fs = Ok bh s' es'" by (auto simp: getblk_of_def run_simps simp del: scan_free.simps)
      then show ?thesis using keepsD [OF buffer_waits(3) 1(1,2)] again_ok by blast
    next
      case (Some i)
      let ?take = "\<lambda>clean. if \<not> clean then again else kbind (find_buffer dev block) (\<lambda>found.
                 if found \<noteq> None then again else kseq (take_buffer dev block i) (ret i))"
      from \<open>r = None\<close> Some run h scan obtain t fs where w: "wait_buffer_unlock i s1 es1 = Ok () t fs"
        and rest: "(if b_count (buf t i) \<noteq> 0 then again else kbind (flush_dirty fuel sync_dev i) ?take) t fs = Ok bh s' es'"
        by (auto simp: getblk_of_def run_simps simp del: scan_free.simps)
      have t: "cache_ok n t" "conforms cache_rely fs" using keepsD [OF buffer_waits(1) 1(1,2) w] by simp_all
      show ?thesis
      proof (cases "b_count (buf t i) \<noteq> 0")
        case True
        then show ?thesis using rest again_ok [OF t] by simp
      next
        case False
        with rest obtain clean u gs where fl: "flush_dirty fuel sync_dev i t fs = Ok clean u gs"
          and rest2: "?take clean u gs = Ok bh s' es'" by (auto simp: kbind_Ok)
        have u: "cache_ok n u" "conforms cache_rely gs" using keepsD [OF flush_dirty_cache [OF sync] t fl] by simp_all
        from find_buffer_run [of u dev block gs] u(1) obtain k where
          k: "find_buffer dev block u gs = Ok k u gs" by (auto simp: cache_ok_def)
        show ?thesis
        proof (cases "clean \<and> k = None")
          case True
          from take_buffer_inv [of u i dev block gs] u(1) f [OF Some] find_buffer_cache(4) [OF k u(1)] True
          obtain v where "take_buffer dev block i u gs = Ok () v gs" "cache_inv v" "length (bufs v) = n"
            "bkey v i = (dev, block)" by (auto simp: cache_ok_def)
          then show ?thesis using rest2 True k u f [OF Some] by (auto simp: run_simps found_def cache_ok_def)
        next
          case False
          then show ?thesis using rest2 again_ok [OF u] k by (auto simp: run_simps split: if_splits)
        qed
      qed
    qed
  qed
qed

section \<open>Operations that keep the cache\<close>

text \<open>\<open>drivers n call\<close>: calling a driver's request function keeps the invariant of the cache.\<close>

definition drivers :: "nat \<Rightarrow> 'z blk_state_scheme fptrs \<Rightarrow> bool" where
  "drivers n call \<longleftrightarrow> (\<forall>f. keeps cache_rely (cache_ok n) (call f))"

lemma driver_call: "drivers n call \<Longrightarrow> keeps cache_rely (cache_ok n) (call f)"
  by (simp add: drivers_def)

lemma brelse_keeps [keeps]: "keeps cache_rely (cache_ok n) (brelse b)"
  unfolding brelse_def by (intro keeps) simp_all

lemma lock_keeps [keeps]:
  "keeps cache_rely (cache_ok n) (lock_buffer i)" "keeps cache_rely (cache_ok n) (unlock_buffer i)"
  "keeps cache_rely (cache_ok n) (drv_unlock_buffer name i)"
  unfolding lock_buffer_def unlock_buffer_def drv_unlock_buffer_def by (intro keeps; simp)+

lemma find_request_keeps [keeps]: "keeps cache_rely (cache_ok n) (find_request k rw ahead)"
  by (induction k) (simp_all only: find_request.simps, intro keeps, intro keeps)

lemma ll_rw_block_keeps:
  assumes "drivers n call"
  shows "keeps cache_rely (cache_ok n) (ll_rw_block fuel call rw bh)"
  unfolding ll_rw_block_def make_request_def add_request_def
  by (intro keeps driver_call assms) simp_all

lemma bread_of_keeps:
  assumes "drivers n call" and "\<And>d b. keeps cache_rely (cache_ok n) (gb d b)"
  shows "keeps cache_rely (cache_ok n) (bread_of gb fuel call dev block)"
  unfolding bread_of_def read_result_def by (intro keeps assms ll_rw_block_keeps)

lemma sync_dev_of_keeps:
  assumes "drivers n call" and "keeps cache_rely (cache_ok n) sync_inodes"
  shows "keeps cache_rely (cache_ok n) (sync_dev_of sync_inodes fuel call dev)"
  unfolding sync_dev_of_def sync_buffers_def by (intro keeps assms ll_rw_block_keeps)

text \<open>The ram disk is such a driver.\<close>

lemma do_rd_request_keeps: "keeps cache_rely (cache_ok n) (do_rd_request k)"
proof (induction k)
  case 0
  then show ?case by (simp add: keeps)
next
  case (Suc k)
  then show ?case
    unfolding do_rd_request.simps INIT_REQUEST_def end_request_def by (intro keeps) simp_all
qed

section \<open>Initialisation\<close>

lemma lseg_upt: "(\<And>i. i < n \<Longrightarrow> f i = Some (if Suc i = n then z else Suc i)) \<Longrightarrow> k < n \<Longrightarrow> lseg f (Some k) [k..<n] (Some z)"
proof (induction "n - k" arbitrary: k)
  case (Suc m)
  then show ?case by (cases "Suc k = n") (auto simp: upt_conv_Cons)
qed simp

lemma bseg_upt: "(\<And>i. k < i \<Longrightarrow> i < n \<Longrightarrow> f i = Some (i - 1)) \<Longrightarrow> k < n \<Longrightarrow> bseg f (f k) [k..<n]"
proof (induction "n - k" arbitrary: k)
  case (Suc m)
  show ?case
  proof (cases "Suc k = n")
    case False
    then have "bseg f (f (Suc k)) [Suc k..<n]" using Suc by (intro Suc.hyps(1)) auto
    moreover have "f (Suc k) = Some k" using Suc.prems False by simp
    ultimately have "bseg f (Some k) [Suc k..<n]" by simp
    then show ?thesis using Suc.prems(2) by (simp add: upt_conv_Cons)
  qed (use Suc in \<open>simp add: upt_conv_Cons\<close>)
qed simp

lemma buffer_init_inv:
  assumes "buffer_init junk e s es = Ok u s' es'" and "2 \<le> length (bufs s')"
  shows "cache_inv s'"
proof -
  define n where "n = length (bufs s')"
  from assms(1) have s': "hash_table s' = replicate 307 None" "free_list s' = 0"
    and b: "\<And>i. i < n \<Longrightarrow> b_dev (buf s' i) = 0 \<and> b_prev (buf s' i) = None \<and> b_next (buf s' i) = None \<and>
      b_prev_free (buf s' i) = Some (if i = 0 then n - 1 else i - 1) \<and>
      b_next_free (buf s' i) = Some (if Suc i = n then 0 else Suc i)"
    by (auto simp: buffer_init_def run_simps Let_def n_def buf_def)
  have n: "2 \<le> n" using assms(2) by (simp add: n_def)
  have none: "cached s' = {}" using b by (auto simp: cached_def n_def bkey_def)
  have "lseg (nf s') (Some 0) [0..<n] (Some 0)" using b n by (intro lseg_upt) (auto simp: nf_def)
  moreover have "pf s' 0 = Some (last [0..<n])" using b [of 0] n by (simp add: pf_def)
  moreover have "bseg (pf s') (pf s' 0) [0..<n]" using b n by (intro bseg_upt) (auto simp: pf_def)
  ultimately have "ring_links (nf s') (pf s') (free_list s') [0..<n]"
    using n s' by (simp add: ring_links_def)
  then have "queues s' [0..<n] (\<lambda>_. []) (cached s')"
    using s' by (simp add: queues_def none chain_links_def)
  then show ?thesis using n b none unfolding cache_inv_def by (fastforce simp: n_def pv_def nx_def)
qed

end
