(* ===== verification/Inode.thy ===== *)
theory Inode
  imports Buffer
begin

unbundle bit_operations_syntax

text \<open>
  Inodes, super blocks and the bitmaps: \<^verbatim>\<open>fs/inode.c\<close>, \<^verbatim>\<open>fs/bitmap.c\<close>,
  \<^verbatim>\<open>fs/truncate.c\<close> and the table of super blocks of \<^verbatim>\<open>fs/super.c\<close>.

  The circle \<open>getblk\<close>, \<open>sync_dev\<close>, \<open>sync_inodes\<close>, \<open>write_inode\<close>, \<open>bread\<close>,
  \<open>getblk\<close> is closed here: \<open>getblk\<close> with fuel \<open>n + 1\<close> uses \<open>sync_dev\<close> over
  \<open>getblk\<close> with fuel \<open>n\<close>. Everything above takes a context \<open>K\<close>: the fuel, and what
  calling a driver's function pointer does.
\<close>

section \<open>State\<close>

record m_inode =
  i_mode :: u16
  i_uid :: u16
  i_size :: u32
  i_mtime :: u32
  i_gid :: u8
  i_nlinks :: u8
  i_zone :: "u16 list"
  i_wait :: u32
  i_atime :: u32
  i_ctime :: u32
  i_dev :: u16
  i_num :: u16
  i_count :: u16
  i_lock :: u8
  i_dirt :: u8
  i_pipe :: u8
  i_mount :: u8
  i_seek :: u8
  i_update :: u8

record super_block =
  s_ninodes :: u16
  s_nzones :: u16
  s_imap_blocks :: u16
  s_zmap_blocks :: u16
  s_firstdatazone :: u16
  s_log_zone_size :: u16
  s_max_size :: u32
  s_magic :: u16
  s_imap :: "nat option list"
  s_zmap :: "nat option list"
  s_dev :: u16
  s_inode_super :: "nat option"
  s_inode_mount :: "nat option"
  s_time :: u32
  s_wait :: u32
  s_lock :: u8
  s_rd_only :: u8
  s_dirt :: u8

record file_struct =
  f_mode :: u16
  f_flags :: u16
  f_count :: u16
  f_inode :: "nat option"
  f_pos :: int

record fs_state = blk_state +
  inode_table :: "m_inode list"
  last_inode :: nat
  super_blocks :: "super_block list"
  file_table :: "file_struct list"
  ROOT_DEV :: u16

abbreviation (input) NR_INODE :: nat where "NR_INODE \<equiv> 32"
abbreviation (input) NR_SUPER :: nat where "NR_SUPER \<equiv> 8"
abbreviation (input) NR_FILE :: nat where "NR_FILE \<equiv> 64"
abbreviation (input) NR_OPEN :: nat where "NR_OPEN \<equiv> 20"
abbreviation (input) SUPER_MAGIC :: u16 where "SUPER_MAGIC \<equiv> 0x137F"
abbreviation (input) ROOT_INO :: u16 where "ROOT_INO \<equiv> 1"
abbreviation (input) INODES_PER_BLOCK :: nat where "INODES_PER_BLOCK \<equiv> 32"

abbreviation (input) S_IFMT :: u16 where "S_IFMT \<equiv> 0xF000"
abbreviation (input) S_IFREG :: u16 where "S_IFREG \<equiv> 0x8000"
abbreviation (input) S_IFBLK :: u16 where "S_IFBLK \<equiv> 0x6000"
abbreviation (input) S_IFDIR :: u16 where "S_IFDIR \<equiv> 0x4000"
abbreviation (input) S_IFCHR :: u16 where "S_IFCHR \<equiv> 0x2000"

definition S_ISREG :: "u16 \<Rightarrow> bool" where "S_ISREG m \<longleftrightarrow> m AND S_IFMT = S_IFREG"
definition S_ISDIR :: "u16 \<Rightarrow> bool" where "S_ISDIR m \<longleftrightarrow> m AND S_IFMT = S_IFDIR"
definition S_ISCHR :: "u16 \<Rightarrow> bool" where "S_ISCHR m \<longleftrightarrow> m AND S_IFMT = S_IFCHR"
definition S_ISBLK :: "u16 \<Rightarrow> bool" where "S_ISBLK m \<longleftrightarrow> m AND S_IFMT = S_IFBLK"

definition zero_inode :: m_inode where
  "zero_inode = \<lparr>i_mode = 0, i_uid = 0, i_size = 0, i_mtime = 0, i_gid = 0, i_nlinks = 0,
     i_zone = replicate 9 0, i_wait = 0, i_atime = 0, i_ctime = 0, i_dev = 0, i_num = 0, i_count = 0,
     i_lock = 0, i_dirt = 0, i_pipe = 0, i_mount = 0, i_seek = 0, i_update = 0\<rparr>"

type_synonym 's ctx = "nat \<times> 's fptrs"

definition ino :: "'z fs_state_scheme \<Rightarrow> nat \<Rightarrow> m_inode" where
  "ino s i = inode_table s ! i"

definition upd_ino ::
  "nat \<Rightarrow> (m_inode \<Rightarrow> m_inode) \<Rightarrow> 'z fs_state_scheme \<Rightarrow> 'z fs_state_scheme" where
  "upd_ino i f s = s\<lparr>inode_table := upd_nth i f (inode_table s)\<rparr>"

definition sup :: "'z fs_state_scheme \<Rightarrow> nat \<Rightarrow> super_block" where
  "sup s i = super_blocks s ! i"

definition upd_sup ::
  "nat \<Rightarrow> (super_block \<Rightarrow> super_block) \<Rightarrow> 'z fs_state_scheme \<Rightarrow> 'z fs_state_scheme" where
  "upd_sup i f s = s\<lparr>super_blocks := upd_nth i f (super_blocks s)\<rparr>"

definition iwait_queue :: "nat \<Rightarrow> 'z fs_state_scheme waitq" where
  "iwait_queue i = (\<lambda>s. i_wait (ino s i), \<lambda>v. upd_ino i (\<lambda>n. n\<lparr>i_wait := v\<rparr>))"

definition swait_queue :: "nat \<Rightarrow> 'z fs_state_scheme waitq" where
  "swait_queue i = (\<lambda>s. s_wait (sup s i), \<lambda>v. upd_sup i (\<lambda>b. b\<lparr>s_wait := v\<rparr>))"

section \<open>Locking\<close>

definition wait_on_inode_unlock :: "nat \<Rightarrow> (unit, 'z fs_state_scheme) kern" where
  "wait_on_inode_unlock i = wait_on (\<lambda>s. i_lock (ino s i) \<noteq> 0) (iwait_queue i)"

definition lock_inode :: "nat \<Rightarrow> (unit, 'z fs_state_scheme) kern" where
  "lock_inode i = kseq (wait_on_inode_unlock i) (modify (upd_ino i (\<lambda>n. n\<lparr>i_lock := 1\<rparr>)))"

definition unlock_inode :: "nat \<Rightarrow> (unit, 'z fs_state_scheme) kern" where
  "unlock_inode i = kseq (modify (upd_ino i (\<lambda>n. n\<lparr>i_lock := 0\<rparr>))) (wake_up_last (iwait_queue i))"

definition wait_on_super_unlock :: "nat \<Rightarrow> (unit, 'z fs_state_scheme) kern" where
  "wait_on_super_unlock i = wait_on (\<lambda>s. s_lock (sup s i) \<noteq> 0) (swait_queue i)"

definition lock_super :: "nat \<Rightarrow> (unit, 'z fs_state_scheme) kern" where
  "lock_super i = kseq (wait_on_super_unlock i) (modify (upd_sup i (\<lambda>b. b\<lparr>s_lock := 1\<rparr>)))"

definition unlock_super :: "nat \<Rightarrow> (unit, 'z fs_state_scheme) kern" where
  "unlock_super i = kseq (modify (upd_sup i (\<lambda>b. b\<lparr>s_lock := 0\<rparr>))) (wake_up_last (swait_queue i))"

text \<open>The table of super blocks; the search starts again when the entry has changed while
  waiting for its lock.\<close>

primrec check_in_superb :: "nat \<Rightarrow> u16 \<Rightarrow> (nat option, 'z fs_state_scheme) kern" where
  "check_in_superb 0 dev = kloops"
| "check_in_superb (Suc n) dev =
     (if dev = 0 then ret None
      else kbind (gets (\<lambda>s. scan_up (\<lambda>i. s_dev (sup s i) = dev) NR_SUPER)) (\<lambda>r.
        case r of
          None \<Rightarrow> ret None
        | Some i \<Rightarrow>
            kseq (wait_on_super_unlock i)
           (kbind (gets (\<lambda>s. s_dev (sup s i))) (\<lambda>d.
            if d = dev then ret (Some i) else check_in_superb n dev))))"

section \<open>Disk format\<close>

definition le16 :: "u8 list \<Rightarrow> nat \<Rightarrow> u16" where
  "le16 bs i = ucast (bs ! i) OR push_bit 8 (ucast (bs ! (i + 1)))"

definition put16 :: "u16 \<Rightarrow> u8 list" where
  "put16 w = [ucast w, ucast (drop_bit 8 w)]"

definition put32 :: "u32 \<Rightarrow> u8 list" where
  "put32 w = [ucast w, ucast (drop_bit 8 w), ucast (drop_bit 16 w), ucast (drop_bit 24 w)]"

text \<open>\<open>bs\<close> with the bytes from \<open>off\<close> on replaced by \<open>new\<close>.\<close>

definition overlay :: "nat \<Rightarrow> u8 list \<Rightarrow> u8 list \<Rightarrow> u8 list" where
  "overlay off new bs = take off bs @ new @ drop (off + length new) bs"

text \<open>\<open>struct d_inode\<close>: 32 bytes.\<close>

definition get_d_inode :: "u8 list \<Rightarrow> nat \<Rightarrow> m_inode \<Rightarrow> m_inode" where
  "get_d_inode bs off n =
     n\<lparr>i_mode := le16 bs off, i_uid := le16 bs (off + 2), i_size := le_word bs (off + 4),
       i_mtime := le_word bs (off + 8), i_gid := bs ! (off + 12), i_nlinks := bs ! (off + 13),
       i_zone := map (\<lambda>k. le16 bs (off + 14 + 2 * k)) [0..<9]\<rparr>"

definition put_d_inode :: "m_inode \<Rightarrow> u8 list" where
  "put_d_inode n = put16 (i_mode n) @ put16 (i_uid n) @ put32 (i_size n) @ put32 (i_mtime n)
     @ [i_gid n, i_nlinks n] @ concat (map put16 (i_zone n))"

definition get_d_super :: "u8 list \<Rightarrow> super_block \<Rightarrow> super_block" where
  "get_d_super bs b =
     b\<lparr>s_ninodes := le16 bs 0, s_nzones := le16 bs 2, s_imap_blocks := le16 bs 4, s_zmap_blocks := le16 bs 6,
       s_firstdatazone := le16 bs 8, s_log_zone_size := le16 bs 10, s_max_size := le_word bs 12,
       s_magic := le16 bs 16\<rparr>"

text \<open>The block of an inode and its place there. \<open>INODES_PER_BLOCK\<close> comes from
  \<open>sizeof\<close>, so the division is unsigned.\<close>

definition inode_block :: "super_block \<Rightarrow> m_inode \<Rightarrow> u32" where
  "inode_block sb n = 2 + ucast (s_imap_blocks sb) + ucast (s_zmap_blocks sb)
     + (ucast (i_num n) - 1) div of_nat INODES_PER_BLOCK"

definition inode_offset :: "m_inode \<Rightarrow> nat" where
  "inode_offset n = 32 * unat ((ucast (i_num n) - 1 :: u32) mod of_nat INODES_PER_BLOCK)"

section \<open>Reading and writing inodes\<close>

type_synonym 's bread_fn = "u16 \<Rightarrow> u32 \<Rightarrow> (nat option, 's) kern"

definition write_inode_of ::
  "'z fs_state_scheme bread_fn \<Rightarrow> nat \<Rightarrow> nat \<Rightarrow> (unit, 'z fs_state_scheme) kern" where
  "write_inode_of bread fuel i =
     kseq (lock_inode i)
    (kbind (gets (\<lambda>s. ino s i)) (\<lambda>n.
     if i_dirt n = 0 \<or> i_dev n = 0 then unlock_inode i
     else kbind (check_in_superb fuel (i_dev n)) (\<lambda>sb.
       case sb of
         None \<Rightarrow> kpanic ''trying to write inode without device''
       | Some sb \<Rightarrow>
           kbind (gets (\<lambda>s. (i_dev (ino s i), inode_block (sup s sb) (ino s i)))) (\<lambda>x.
           kbind (bread (fst x) (snd x)) (\<lambda>bh.
           case bh of
             None \<Rightarrow> kpanic ''unable to read i-node block''
           | Some bh \<Rightarrow>
               kseq (modify (\<lambda>s. upd_buf bh (\<lambda>b.
                       b\<lparr>b_data := overlay (inode_offset (ino s i)) (put_d_inode (ino s i)) (b_data b),
                         b_dirt := 1\<rparr>) s))
              (kseq (modify (upd_ino i (\<lambda>n. n\<lparr>i_dirt := 0\<rparr>)))
              (kseq (brelse (Some bh))
                    (unlock_inode i))))))))"

definition sync_inodes_of ::
  "'z fs_state_scheme bread_fn \<Rightarrow> nat \<Rightarrow> (unit, 'z fs_state_scheme) kern" where
  "sync_inodes_of bread fuel =
     kfor [0..<NR_INODE] (\<lambda>i.
       kseq (wait_on_inode_unlock i)
      (kbind (gets (\<lambda>s. ino s i)) (\<lambda>n.
       kwhen (i_dirt n \<noteq> 0 \<and> i_pipe n = 0) (write_inode_of bread fuel i))))"

primrec getblk_fuel ::
  "nat \<Rightarrow> 'z fs_state_scheme fptrs \<Rightarrow> u16 \<Rightarrow> u32 \<Rightarrow> (nat, 'z fs_state_scheme) kern" where
  "getblk_fuel 0 call dev block = kloops"
| "getblk_fuel (Suc n) call dev block =
     getblk_of n
       (sync_dev_of (sync_inodes_of (bread_of (getblk_fuel n call) n call) n) n call)
       (getblk_fuel n call dev block) dev block"

definition getblk :: "'z fs_state_scheme ctx \<Rightarrow> 'z fs_state_scheme getblk_fn" where
  "getblk K = getblk_fuel (fst K) (snd K)"

definition bread :: "'z fs_state_scheme ctx \<Rightarrow> 'z fs_state_scheme bread_fn" where
  "bread K = bread_of (getblk K) (fst K) (snd K)"

definition breada ::
  "'z fs_state_scheme ctx \<Rightarrow> u16 \<Rightarrow> u32 \<Rightarrow> u32 list \<Rightarrow> (nat option, 'z fs_state_scheme) kern" where
  "breada K = breada_of (getblk K) (fst K) (snd K)"

definition bread_page ::
  "'z fs_state_scheme ctx \<Rightarrow> u32 \<Rightarrow> u16 \<Rightarrow> u32 list \<Rightarrow> (unit, 'z fs_state_scheme) kern" where
  "bread_page K = bread_page_of (getblk K) (fst K) (snd K)"

definition write_inode :: "'z fs_state_scheme ctx \<Rightarrow> nat \<Rightarrow> (unit, 'z fs_state_scheme) kern" where
  "write_inode K = write_inode_of (bread K) (fst K)"

definition sync_inodes :: "'z fs_state_scheme ctx \<Rightarrow> (unit, 'z fs_state_scheme) kern" where
  "sync_inodes K = sync_inodes_of (bread K) (fst K)"

definition sync_dev :: "'z fs_state_scheme ctx \<Rightarrow> u16 \<Rightarrow> (unit, 'z fs_state_scheme) kern" where
  "sync_dev K = sync_dev_of (sync_inodes K) (fst K) (snd K)"

definition sys_sync :: "'z fs_state_scheme ctx \<Rightarrow> (int, 'z fs_state_scheme) kern" where
  "sys_sync K = sys_sync_of (sync_inodes K) (fst K) (snd K)"

definition read_inode :: "'z fs_state_scheme ctx \<Rightarrow> nat \<Rightarrow> (unit, 'z fs_state_scheme) kern" where
  "read_inode K i =
     kseq (lock_inode i)
    (kbind (gets (\<lambda>s. i_dev (ino s i))) (\<lambda>dev.
     kbind (check_in_superb (fst K) dev) (\<lambda>sb.
     case sb of
       None \<Rightarrow> kpanic ''trying to read inode without dev''
     | Some sb \<Rightarrow>
         kbind (gets (\<lambda>s. (i_dev (ino s i), inode_block (sup s sb) (ino s i)))) (\<lambda>x.
         kbind (bread K (fst x) (snd x)) (\<lambda>bh.
         case bh of
           None \<Rightarrow> kpanic ''unable to read i-node block''
         | Some bh \<Rightarrow>
             kseq (modify (\<lambda>s. upd_ino i (\<lambda>n. get_d_inode (b_data (buf s bh)) (inode_offset n) n) s))
            (kseq (brelse (Some bh))
                  (unlock_inode i)))))))"

definition invalidate_inodes :: "u16 \<Rightarrow> (unit, 'z fs_state_scheme) kern" where
  "invalidate_inodes dev =
     kfor [0..<NR_INODE] (\<lambda>i.
       kseq (wait_on_inode_unlock i)
      (kbind (gets (\<lambda>s. ino s i)) (\<lambda>n.
       kwhen (i_dev n = dev)
         (kseq (kwhen (i_count n \<noteq> 0) (printk ''inode in use on removed disk'' []))
               (modify (upd_ino i (\<lambda>n. n\<lparr>i_dev := 0, i_dirt := 0\<rparr>)))))))"

section \<open>Bitmaps\<close>

definition test_bit :: "nat \<Rightarrow> u8 list \<Rightarrow> bool" where
  "test_bit nr bs = bit (bs ! (nr div 8)) (nr mod 8)"

text \<open>\<open>set_bit\<close> returns the old bit, \<open>clear_bit\<close> its complement.\<close>

definition set_bit_map :: "nat \<Rightarrow> u8 list \<Rightarrow> u8 list" where
  "set_bit_map nr bs = upd_nth (nr div 8) (\<lambda>b. b OR push_bit (nr mod 8) 1) bs"

definition clear_bit_map :: "nat \<Rightarrow> u8 list \<Rightarrow> u8 list" where
  "clear_bit_map nr bs = upd_nth (nr div 8) (\<lambda>b. b AND NOT (push_bit (nr mod 8) 1)) bs"

text \<open>\<open>bsfl\<close>: the lowest bit that is set.\<close>

definition bsfl :: "u32 \<Rightarrow> nat option" where
  "bsfl w = scan_up (bit w) 32"

primrec ffz_loop :: "nat \<Rightarrow> u8 list \<Rightarrow> nat \<Rightarrow> nat" where
  "ffz_loop 0 bs ecx = ecx"
| "ffz_loop (Suc n) bs ecx =
     (case bsfl (NOT (le_word bs (ecx div 8))) of
        Some edx \<Rightarrow> ecx + edx
      | None \<Rightarrow> if ecx + 32 < 8192 then ffz_loop n bs (ecx + 32) else ecx + 32)"

definition find_first_zero :: "u8 list \<Rightarrow> nat" where
  "find_first_zero bs = ffz_loop 256 bs 0"

text \<open>The search both allocators run over the eight bitmap blocks: the slot, the buffer and the
  bit of the first free one. \<open>bh\<close> and \<open>j\<close> are what the loop leaves behind when it ends
  without a \<open>break\<close>.\<close>

definition scan_map :: "'z blk_state_scheme \<Rightarrow> nat option list \<Rightarrow> nat \<times> nat option \<times> nat" where
  "scan_map s maps =
     (case scan_up (\<lambda>i. case maps ! i of None \<Rightarrow> False | Some bh \<Rightarrow> find_first_zero (b_data (buf s bh)) < 8192) 8 of
        Some i \<Rightarrow> (i, maps ! i, find_first_zero (b_data (buf s (the (maps ! i)))))
      | None \<Rightarrow> (8, maps ! 7, 8192))"

definition free_block :: "'z fs_state_scheme ctx \<Rightarrow> u16 \<Rightarrow> int \<Rightarrow> (unit, 'z fs_state_scheme) kern" where
  "free_block K dev block =
     kbind (check_in_superb (fst K) dev) (\<lambda>sb.
     case sb of
       None \<Rightarrow> kpanic ''trying to free block on nonexistent device''
     | Some sb \<Rightarrow>
         kbind (gets (\<lambda>s. sup s sb)) (\<lambda>b.
         if block < uint (s_firstdatazone b) \<or> block \<ge> uint (s_nzones b)
         then kpanic ''trying to free block not in datazone''
         else kbind (get_hash_table (fst K) dev (word_of_int block)) (\<lambda>bh.
           kbind (case bh of
               None \<Rightarrow> ret True
             | Some bh \<Rightarrow>
                 kbind (gets (\<lambda>s. b_count (buf s bh))) (\<lambda>c.
                 if c \<noteq> 1 then
                   kseq (printk ''trying to free block (%04x:%d), count=%d'' [uint dev, block, uint c]) (ret False)
                 else kseq (modify (upd_buf bh (\<lambda>b. b\<lparr>b_dirt := 0, b_uptodate := 0\<rparr>)))
                     (kseq (brelse (Some bh)) (ret True)))) (\<lambda>go.
           if \<not> go then skip
           else kbind (gets (\<lambda>s. sup s sb)) (\<lambda>b.
             let nr = block - (uint (s_firstdatazone b) - 1) in
             if nr < 0 \<or> nr div 8192 \<ge> 8 then kfault
             else (case s_zmap b ! nat (nr div 8192) of
               None \<Rightarrow> kfault
             | Some m \<Rightarrow>
                 kbind (gets (\<lambda>s. test_bit (nat (nr mod 8192)) (b_data (buf s m)))) (\<lambda>was.
                 kseq (modify (upd_buf m (\<lambda>x. x\<lparr>b_data := clear_bit_map (nat (nr mod 8192)) (b_data x)\<rparr>)))
                 (if \<not> was
                  then kseq (printk ''block (%04x:%d) '' [uint dev, block]) (kpanic ''free_block: bit already cleared'')
                  else modify (upd_buf m (\<lambda>x. x\<lparr>b_dirt := 1\<rparr>))))))))))"

definition new_block :: "'z fs_state_scheme ctx \<Rightarrow> u16 \<Rightarrow> (int, 'z fs_state_scheme) kern" where
  "new_block K dev =
     kbind (check_in_superb (fst K) dev) (\<lambda>sb.
     case sb of
       None \<Rightarrow> kpanic ''trying to get new block from nonexistant device''
     | Some sb \<Rightarrow>
         kbind (gets (\<lambda>s. (sup s sb, scan_map s (s_zmap (sup s sb))))) (\<lambda>x.
         let b = fst x; i = fst (snd x); bh = fst (snd (snd x)); j0 = snd (snd (snd x)) in
         case bh of
           None \<Rightarrow> ret 0
         | Some bh \<Rightarrow>
             if i \<ge> 8 \<or> j0 \<ge> 8192 then ret 0
             else kbind (gets (\<lambda>s. test_bit j0 (b_data (buf s bh)))) (\<lambda>was.
               kseq (modify (upd_buf bh (\<lambda>x. x\<lparr>b_data := set_bit_map j0 (b_data x)\<rparr>)))
               (if was then kpanic ''new_block: bit already set''
                else kseq (modify (upd_buf bh (\<lambda>x. x\<lparr>b_dirt := 1\<rparr>)))
                  (let j = int j0 + int i * 8192 + uint (s_firstdatazone b) - 1 in
                   if j \<ge> uint (s_nzones b) then ret 0
                   else kbind (getblk K dev (word_of_int j)) (\<lambda>nb.
                     kbind (gets (\<lambda>s. b_count (buf s nb))) (\<lambda>c.
                     if c \<noteq> 1 then kpanic ''new block: count is != 1''
                     else kseq (modify (upd_buf nb (\<lambda>x. x\<lparr>b_data := replicate BLOCK_SIZE 0, b_uptodate := 1, b_dirt := 1\<rparr>)))
                         (kseq (brelse (Some nb))
                               (ret j)))))))))"

definition free_inode :: "'z fs_state_scheme ctx \<Rightarrow> nat option \<Rightarrow> (unit, 'z fs_state_scheme) kern" where
  "free_inode K inode =
     (case inode of
        None \<Rightarrow> skip
      | Some i \<Rightarrow>
          kbind (gets (\<lambda>s. ino s i)) (\<lambda>n.
          if i_dev n = 0 then modify (upd_ino i (\<lambda>_. zero_inode))
          else if i_count n > 1 then
            kseq (printk ''trying to free inode with count=%d'' [uint (i_count n)]) (kpanic ''free_inode'')
          else if i_nlinks n \<noteq> 0 then kpanic ''trying to free inode with links''
          else kbind (check_in_superb (fst K) (i_dev n)) (\<lambda>sb.
            case sb of
              None \<Rightarrow> kpanic ''trying to free inode on nonexistent device''
            | Some sb \<Rightarrow>
                kbind (gets (\<lambda>s. (ino s i, sup s sb))) (\<lambda>x.
                let n = fst x; b = snd x in
                if i_num n < 1 \<or> i_num n > s_ninodes b then kpanic ''trying to free inode 0 or nonexistant inode''
                else (case s_imap b ! unat (drop_bit 13 (i_num n)) of
                  None \<Rightarrow> kpanic ''nonexistent imap in superblock''
                | Some bh \<Rightarrow>
                    let nr = unat (i_num n AND 8191) in
                    kbind (gets (\<lambda>s. test_bit nr (b_data (buf s bh)))) (\<lambda>was.
                    kseq (modify (upd_buf bh (\<lambda>x. x\<lparr>b_data := clear_bit_map nr (b_data x)\<rparr>)))
                   (kseq (kwhen (\<not> was) (printk ''free_inode: bit already cleared.'' []))
                   (kseq (modify (upd_buf bh (\<lambda>x. x\<lparr>b_dirt := 1\<rparr>)))
                         (modify (upd_ino i (\<lambda>_. zero_inode)))))))))))"

section \<open>Truncation\<close>

text \<open>The loop over the 512 entries of an indirect block, with what frees an entry.\<close>

definition free_entries ::
  "(int \<Rightarrow> (unit, 'z fs_state_scheme) kern) \<Rightarrow> nat \<Rightarrow> (unit, 'z fs_state_scheme) kern" where
  "free_entries free1 bh =
     kfor [0..<512] (\<lambda>i.
       kbind (gets (\<lambda>s. le16 (b_data (buf s bh)) (2 * i))) (\<lambda>p.
       kwhen (p \<noteq> 0) (free1 (uint p))))"

definition free_ind :: "'z fs_state_scheme ctx \<Rightarrow> u16 \<Rightarrow> int \<Rightarrow> (unit, 'z fs_state_scheme) kern" where
  "free_ind K dev block =
     (if block = 0 then skip
      else kbind (bread K dev (word_of_int block)) (\<lambda>bh.
        kseq (case bh of
                None \<Rightarrow> skip
              | Some bh \<Rightarrow> kseq (free_entries (free_block K dev) bh) (brelse (Some bh)))
             (free_block K dev block)))"

definition free_dind :: "'z fs_state_scheme ctx \<Rightarrow> u16 \<Rightarrow> int \<Rightarrow> (unit, 'z fs_state_scheme) kern" where
  "free_dind K dev block =
     (if block = 0 then skip
      else kbind (bread K dev (word_of_int block)) (\<lambda>bh.
        kseq (case bh of
                None \<Rightarrow> skip
              | Some bh \<Rightarrow> kseq (free_entries (free_ind K dev) bh) (brelse (Some bh)))
             (free_block K dev block)))"

definition truncate :: "'z fs_state_scheme ctx \<Rightarrow> nat \<Rightarrow> (unit, 'z fs_state_scheme) kern" where
  "truncate K i =
     kbind (gets (\<lambda>s. i_mode (ino s i))) (\<lambda>mode.
     if \<not> (S_ISREG mode \<or> S_ISDIR mode) then skip
     else kseq (kfor [0..<7] (\<lambda>k.
         kbind (gets (\<lambda>s. ino s i)) (\<lambda>n.
         kwhen (i_zone n ! k \<noteq> 0)
           (kseq (free_block K (i_dev n) (uint (i_zone n ! k)))
                 (modify (upd_ino i (\<lambda>n. n\<lparr>i_zone := (i_zone n)[k := 0]\<rparr>)))))))
       (kbind (gets (\<lambda>s. ino s i)) (\<lambda>n.
        kseq (free_ind K (i_dev n) (uint (i_zone n ! 7)))
       (kbind (gets (\<lambda>s. ino s i)) (\<lambda>n.
        kseq (free_dind K (i_dev n) (uint (i_zone n ! 8)))
             (modify (\<lambda>s. upd_ino i (\<lambda>n. n\<lparr>i_zone := (i_zone n)[7 := 0, 8 := 0], i_size := 0, i_dirt := 1,
                i_mtime := word_of_int (CURRENT_TIME s), i_ctime := word_of_int (CURRENT_TIME s)\<rparr>) s)))))))"

section \<open>The block map of a file\<close>

text \<open>Entry \<open>k\<close> of an indirect block, allocated on demand: the shape of the two levels of
  \<open>_bmap\<close>.\<close>

definition ind_entry ::
  "'z fs_state_scheme ctx \<Rightarrow> nat \<Rightarrow> bool \<Rightarrow> nat \<Rightarrow> nat \<Rightarrow> (int, 'z fs_state_scheme) kern" where
  "ind_entry K i create bh k =
     kbind (gets (\<lambda>s. uint (le16 (b_data (buf s bh)) (2 * k)))) (\<lambda>e.
     kbind (if create \<and> e = 0 then
              kbind (gets (\<lambda>s. i_dev (ino s i))) (\<lambda>dev.
              kbind (new_block K dev) (\<lambda>nb.
              kseq (kwhen (nb \<noteq> 0)
                      (modify (upd_buf bh (\<lambda>b. b\<lparr>b_data := overlay (2 * k) (put16 (word_of_int nb)) (b_data b),
                                                b_dirt := 1\<rparr>))))
                   (ret nb)))
            else ret e) (\<lambda>r.
     kseq (brelse (Some bh)) (ret r)))"

text \<open>The zone in slot \<open>k\<close> of the inode, allocated on demand.\<close>

definition zone_entry ::
  "'z fs_state_scheme ctx \<Rightarrow> nat \<Rightarrow> bool \<Rightarrow> nat \<Rightarrow> (unit, 'z fs_state_scheme) kern" where
  "zone_entry K i create k =
     kbind (gets (\<lambda>s. ino s i)) (\<lambda>n.
     kwhen (create \<and> i_zone n ! k = 0)
       (kbind (new_block K (i_dev n)) (\<lambda>nb.
        kseq (modify (upd_ino i (\<lambda>n. n\<lparr>i_zone := (i_zone n)[k := word_of_int nb]\<rparr>)))
             (kwhen (word_of_int nb \<noteq> (0 :: u16))
               (modify (\<lambda>s. upd_ino i (\<lambda>n. n\<lparr>i_ctime := word_of_int (CURRENT_TIME s), i_dirt := 1\<rparr>) s))))))"

definition bmap :: "'z fs_state_scheme ctx \<Rightarrow> nat \<Rightarrow> int \<Rightarrow> bool \<Rightarrow> (int, 'z fs_state_scheme) kern" where
  "bmap K i block_seq create =
     (if block_seq < 0 then kpanic ''_bmap: block<0''
      else if block_seq \<ge> 7 + 512 + 512 * 512 then kpanic ''_bmap: block>big''
      else if block_seq < 7 then
        kseq (zone_entry K i create (nat block_seq))
             (gets (\<lambda>s. uint (i_zone (ino s i) ! nat block_seq)))
      else if block_seq - 7 < 512 then
        kseq (zone_entry K i create 7)
       (kbind (gets (\<lambda>s. ino s i)) (\<lambda>n.
        if i_zone n ! 7 = 0 then ret 0
        else kbind (bread K (i_dev n) (ucast (i_zone n ! 7))) (\<lambda>bh.
          case bh of
            None \<Rightarrow> ret 0
          | Some bh \<Rightarrow> ind_entry K i create bh (nat (block_seq - 7)))))
      else let b = block_seq - 7 - 512 in
        kseq (zone_entry K i create 8)
       (kbind (gets (\<lambda>s. ino s i)) (\<lambda>n.
        if i_zone n ! 8 = 0 then ret 0
        else kbind (bread K (i_dev n) (ucast (i_zone n ! 8))) (\<lambda>bh.
          case bh of
            None \<Rightarrow> ret 0
          | Some bh \<Rightarrow>
              kbind (ind_entry K i create bh (nat (b div 512))) (\<lambda>e.
              if e = 0 then ret 0
              else kbind (gets (\<lambda>s. i_dev (ino s i))) (\<lambda>dev.
                kbind (bread K dev (word_of_int e)) (\<lambda>bh2.
                case bh2 of
                  None \<Rightarrow> ret 0
                | Some bh2 \<Rightarrow> ind_entry K i create bh2 (nat (b mod 512)))))))))"

definition get_diskBlock :: "'z fs_state_scheme ctx \<Rightarrow> nat \<Rightarrow> int \<Rightarrow> (int, 'z fs_state_scheme) kern" where
  "get_diskBlock K i block_seq = bmap K i block_seq False"

definition create_diskBlock :: "'z fs_state_scheme ctx \<Rightarrow> nat \<Rightarrow> int \<Rightarrow> (int, 'z fs_state_scheme) kern" where
  "create_diskBlock K i block_seq = bmap K i block_seq True"


section \<open>Bitmaps and the least free bit\<close>

lemma bit_le_word:
  assumes "k < 32"
  shows "bit (le_word bs i) k = bit (bs ! (i + k div 8)) (k mod 8)"
proof -
  have "bit (le_word bs i) k \<longleftrightarrow> (k < 8 \<and> bit (bs ! i) k) \<or> (8 \<le> k \<and> k < 16 \<and> bit (bs ! (i + 1)) (k - 8))
    \<or> (16 \<le> k \<and> k < 24 \<and> bit (bs ! (i + 2)) (k - 16)) \<or> (24 \<le> k \<and> k < 32 \<and> bit (bs ! (i + 3)) (k - 24))"
    using assms by (auto simp: le_word_def bit_or_iff bit_push_bit_iff bit_ucast_iff dest: bit_imp_le_length)
  moreover have "k < 8 \<or> 8 \<le> k \<and> k < 16 \<or> 16 \<le> k \<and> k < 24 \<or> 24 \<le> k \<and> k < 32" using assms by arith
  ultimately show ?thesis
    by (elim disjE) (auto simp: mod_if div_if le_mod_geq numeral_3_eq_3)
qed

lemma ffz_loop_spec:
  assumes "8192 = ecx + 32 * n" and "0 < n" and "32 dvd ecx"
  shows "ffz_loop n bs ecx = (case scan_up (\<lambda>j. \<not> test_bit (ecx + j) bs) (32 * n) of None \<Rightarrow> 8192 | Some j \<Rightarrow> ecx + j)"
  using assms
proof (induction n arbitrary: ecx)
  case (Suc n)
  from Suc.prems(3) obtain q where q: "ecx = 32 * q" by blast
  have clear: "bit (NOT (le_word bs (ecx div 8))) j \<longleftrightarrow> \<not> test_bit (ecx + j) bs" if "j < 32" for j
  proof -
    have "(ecx + j) div 8 = ecx div 8 + j div 8" "(ecx + j) mod 8 = j mod 8" using q by (simp, presburger)
    then show ?thesis using bit_le_word [OF that, of bs "ecx div 8"] that by (simp add: test_bit_def bit_not_iff)
  qed
  show ?case
  proof (cases "bsfl (NOT (le_word bs (ecx div 8)))")
    case (Some j)
    then have "scan_up (\<lambda>j. \<not> test_bit (ecx + j) bs) (32 * Suc n) = Some j"
      by (auto simp: bsfl_def scan_up_Some clear)
    then show ?thesis using Some by simp
  next
    case None
    then have all: "\<forall>j < 32. test_bit (ecx + j) bs" by (auto simp: bsfl_def scan_up_None clear)
    let ?u = "scan_up (\<lambda>j. \<not> test_bit (ecx + 32 + j) bs) (32 * n)"
    have shift: "scan_up (\<lambda>j. \<not> test_bit (ecx + j) bs) (32 * Suc n) = map_option (\<lambda>j. 32 + j) ?u"
    proof (cases ?u)
      case None
      have "test_bit (ecx + j) bs" if "j < 32 * Suc n" for j
        using all that None [unfolded scan_up_None, rule_format, of "j - 32"]
        by (cases "j < 32") auto
      then have "scan_up (\<lambda>j. \<not> test_bit (ecx + j) bs) (32 * Suc n) = None" by (simp add: scan_up_None)
      then show ?thesis using None by simp
    next
      case (Some j)
      have "test_bit (ecx + i) bs" if "i < 32 + j" for i
        using all that Some [unfolded scan_up_Some] by (cases "i < 32") (auto dest!: spec [of _ "i - 32"])
      moreover have "j < 32 * n" "\<not> test_bit (ecx + (32 + j)) bs"
        using Some by (simp_all add: scan_up_Some add.assoc)
      ultimately have "scan_up (\<lambda>j. \<not> test_bit (ecx + j) bs) (32 * Suc n) = Some (32 + j)"
        by (simp add: scan_up_Some)
      then show ?thesis using Some by simp
    qed
    show ?thesis
    proof (cases "n = 0")
      case True
      then have "scan_up (\<lambda>j. \<not> test_bit (ecx + j) bs) (32 * Suc n) = None" using all by (simp add: scan_up_None)
      then show ?thesis using None True Suc.prems(1) by simp
    next
      case False
      have "32 dvd ecx + 32" using Suc.prems(3) by simp
      with Suc.IH [of "ecx + 32"] False Suc.prems(1)
      have "ffz_loop n bs (ecx + 32) = (case ?u of None \<Rightarrow> 8192 | Some j \<Rightarrow> ecx + 32 + j)" by simp
      then show ?thesis using None False Suc.prems(1) shift by (cases ?u) simp_all
    qed
  qed
qed simp

text \<open>The word-at-a-time search of the allocators finds the lowest clear bit of a bitmap
  block, and 8192 when every bit is set.\<close>

lemma find_first_zero_least:
  "find_first_zero bs = (case scan_up (\<lambda>j. \<not> test_bit j bs) 8192 of None \<Rightarrow> 8192 | Some j \<Rightarrow> j)"
  using ffz_loop_spec [of 0 256 bs] by (simp add: find_first_zero_def split: option.split)

section \<open>The disk format\<close>

lemma join16: "ucast (ucast w :: u8) OR push_bit 8 (ucast (ucast (drop_bit 8 w) :: u8)) = (w :: u16)"
  by (rule bit_word_eqI) (auto simp: bit_or_iff bit_push_bit_iff bit_ucast_iff bit_drop_bit_eq not_less)

lemma join32: "ucast (ucast w :: u8) OR push_bit 8 (ucast (ucast (drop_bit 8 w) :: u8))
     OR push_bit 16 (ucast (ucast (drop_bit 16 w) :: u8)) OR push_bit 24 (ucast (ucast (drop_bit 24 w) :: u8)) = (w :: u32)"
proof (rule bit_word_eqI)
  fix k :: nat
  assume "k < LENGTH(32)"
  then consider "k < 8" | "8 \<le> k" "k < 16" | "16 \<le> k" "k < 24" | "24 \<le> k" "k < 32" by fastforce
  then show "bit (ucast (ucast w :: u8) OR push_bit 8 (ucast (ucast (drop_bit 8 w) :: u8))
     OR push_bit 16 (ucast (ucast (drop_bit 16 w) :: u8)) OR push_bit 24 (ucast (ucast (drop_bit 24 w) :: u8)) :: u32) k = bit w k"
    by cases (auto simp: bit_or_iff bit_push_bit_iff bit_ucast_iff bit_drop_bit_eq)
qed

lemma nth_overlay: "off \<le> length bs \<Longrightarrow> i < length new \<Longrightarrow> overlay off new bs ! (off + i) = new ! i"
  by (simp add: overlay_def nth_append)

lemma overlay_le16: "off \<le> length bs \<Longrightarrow> i + 1 < length new \<Longrightarrow> le16 (overlay off new bs) (off + i) = le16 new i"
  using nth_overlay [of off bs i new] nth_overlay [of off bs "i + 1" new] by (simp add: le16_def)

lemma overlay_le_word: "off \<le> length bs \<Longrightarrow> i + 3 < length new \<Longrightarrow> le_word (overlay off new bs) (off + i) = le_word new i"
  using nth_overlay [of off bs i new] nth_overlay [of off bs "i + 1" new]
    nth_overlay [of off bs "i + 2" new] nth_overlay [of off bs "i + 3" new]
  by (simp add: le_word_def add.assoc)

lemma length_overlay [simp]: "off + length new \<le> length bs \<Longrightarrow> length (overlay off new bs) = length bs"
  by (simp add: overlay_def)

lemma length_put_d_inode [simp]: "length (i_zone n) = 9 \<Longrightarrow> length (put_d_inode n) = 32"
  by (simp add: put_d_inode_def put16_def put32_def length_concat comp_def sum_list_triv)

lemma put_d_inode_fields:
  assumes "length (i_zone n) = 9"
  shows "le16 (put_d_inode n) 0 = i_mode n" "le16 (put_d_inode n) 2 = i_uid n" "le_word (put_d_inode n) 4 = i_size n"
    "le_word (put_d_inode n) 8 = i_mtime n" "put_d_inode n ! 12 = i_gid n" "put_d_inode n ! 13 = i_nlinks n"
    "map (\<lambda>k. le16 (put_d_inode n) (14 + 2 * k)) [0..<9] = i_zone n"
proof -
  obtain a b c d e f g h i where "i_zone n = [a, b, c, d, e, f, g, h, i]"
    using assms by (auto simp: length_Suc_conv eval_nat_numeral)
  then show "le16 (put_d_inode n) 0 = i_mode n" "le16 (put_d_inode n) 2 = i_uid n" "le_word (put_d_inode n) 4 = i_size n"
    "le_word (put_d_inode n) 8 = i_mtime n" "put_d_inode n ! 12 = i_gid n" "put_d_inode n ! 13 = i_nlinks n"
    "map (\<lambda>k. le16 (put_d_inode n) (14 + 2 * k)) [0..<9] = i_zone n"
    by (simp_all add: put_d_inode_def put16_def put32_def le16_def le_word_def join16 join32 upt_rec)
qed

text \<open>An inode put into a block is taken out of it unchanged: mode, owner, size, time, group, link count and the nine
  zone numbers. The other bytes of the block stay as they are.\<close>

lemma d_inode_roundtrip:
  assumes "length (i_zone n) = 9" and "off + 32 \<le> length bs"
  shows "get_d_inode (overlay off (put_d_inode n) bs) off m =
      m\<lparr>i_mode := i_mode n, i_uid := i_uid n, i_size := i_size n, i_mtime := i_mtime n,
        i_gid := i_gid n, i_nlinks := i_nlinks n, i_zone := i_zone n\<rparr>
    \<and> length (overlay off (put_d_inode n) bs) = length bs
    \<and> (\<forall>i. i < off \<or> off + 32 \<le> i \<longrightarrow> i < length bs \<longrightarrow> overlay off (put_d_inode n) bs ! i = bs ! i)"
proof -
  let ?bs = "overlay off (put_d_inode n) bs"
  have off: "off \<le> length bs" and len: "length (put_d_inode n) = 32" using assms by simp_all
  have w16: "le16 ?bs (off + i) = le16 (put_d_inode n) i" if "i \<le> 30" for i
    using that off len by (intro overlay_le16) simp_all
  have "le_word ?bs (off + i) = le_word (put_d_inode n) i" if "i \<le> 28" for i
    using that off len by (intro overlay_le_word) simp_all
  moreover have "?bs ! (off + i) = put_d_inode n ! i" if "i < 32" for i
    using that off len by (intro nth_overlay) simp_all
  moreover have "map (\<lambda>k. le16 ?bs (off + 14 + 2 * k)) [0..<9] = map (\<lambda>k. le16 (put_d_inode n) (14 + 2 * k)) [0..<9]"
    using w16 by (intro map_cong) (simp_all add: add.assoc)
  ultimately have "get_d_inode ?bs off m = m\<lparr>i_mode := i_mode n, i_uid := i_uid n, i_size := i_size n,
      i_mtime := i_mtime n, i_gid := i_gid n, i_nlinks := i_nlinks n, i_zone := i_zone n\<rparr>"
    using put_d_inode_fields [OF assms(1)] w16 [of 0] w16 [of 2] by (simp add: get_d_inode_def)
  moreover have "?bs ! i = bs ! i" if "i < off \<or> off + 32 \<le> i" "i < length bs" for i
    using that len off by (auto simp: overlay_def nth_append)
  ultimately show ?thesis using assms(2) len by auto
qed

end
