(* ===== verification/Itable.thy ===== *)
theory Itable
  imports Inode
begin

unbundle bit_operations_syntax

text \<open>
  The table of inodes in memory (the second half of \<^verbatim>\<open>fs/inode.c\<close>, \<open>new_inode\<close> of
  \<^verbatim>\<open>fs/bitmap.c\<close>) and the operations on super blocks of \<^verbatim>\<open>fs/super.c\<close> and
  \<^verbatim>\<open>fs/buffer.c\<close> that use it.
\<close>

section \<open>Releasing an inode\<close>

text \<open>From the label \<open>repeat\<close> of \<open>iput\<close> on.\<close>

primrec iput_repeat ::
  "nat \<Rightarrow> 'z fs_state_scheme ctx \<Rightarrow> nat \<Rightarrow> (unit, 'z fs_state_scheme) kern" where
  "iput_repeat 0 K i = kloops"
| "iput_repeat (Suc fuel) K i =
     kbind (gets (\<lambda>s. ino s i)) (\<lambda>n.
     if i_count n > 1 then modify (upd_ino i (\<lambda>n. n\<lparr>i_count := i_count n - 1\<rparr>))
     else if i_nlinks n = 0 then kseq (truncate K i) (free_inode K (Some i))
     else if i_dirt n \<noteq> 0 then
       kseq (write_inode K i) (kseq (wait_on_inode_unlock i) (iput_repeat fuel K i))
     else modify (upd_ino i (\<lambda>n. n\<lparr>i_count := i_count n - 1\<rparr>)))"

definition iput :: "'z fs_state_scheme ctx \<Rightarrow> nat option \<Rightarrow> (unit, 'z fs_state_scheme) kern" where
  "iput K inode =
     (case inode of
        None \<Rightarrow> skip
      | Some i \<Rightarrow>
          kseq (wait_on_inode_unlock i)
         (kbind (gets (\<lambda>s. ino s i)) (\<lambda>n.
          if i_count n = 0 then kpanic ''iput: trying to free free inode''
          else if i_pipe n \<noteq> 0 then
            kseq (wake_up_last (iwait_queue i))
           (kseq (modify (upd_ino i (\<lambda>n. n\<lparr>i_count := i_count n - 1\<rparr>)))
           (kbind (gets (\<lambda>s. ino s i)) (\<lambda>n.
            if i_count n \<noteq> 0 then skip
            else kseq (free_page (i_size n))
                      (modify (upd_ino i (\<lambda>n. n\<lparr>i_count := 0, i_dirt := 0, i_pipe := 0\<rparr>))))))
          else if i_dev n = 0 then modify (upd_ino i (\<lambda>n. n\<lparr>i_count := i_count n - 1\<rparr>))
          else kseq (kwhen (S_ISBLK (i_mode n))
                 (kseq (sync_dev K (i_zone n ! 0)) (wait_on_inode_unlock i)))
               (iput_repeat (fst K) K i))))"

section \<open>Finding a free entry\<close>

text \<open>The round over the table: \<open>lst\<close> moves on before each look, an unused entry is
  remembered, a clean unlocked one ends the search.\<close>

primrec next_empty :: "nat \<Rightarrow> m_inode list \<Rightarrow> nat \<Rightarrow> nat option \<Rightarrow> nat \<times> nat option" where
  "next_empty 0 tab lst found = (lst, found)"
| "next_empty (Suc n) tab lst found =
     (let lst' = (if Suc lst \<ge> NR_INODE then 0 else Suc lst) in
      if i_count (tab ! lst') = 0 then
        (if i_dirt (tab ! lst') = 0 \<and> i_lock (tab ! lst') = 0 then (lst', Some lst')
         else next_empty n tab lst' (Some lst'))
      else next_empty n tab lst' found)"

primrec write_back ::
  "nat \<Rightarrow> 'z fs_state_scheme ctx \<Rightarrow> nat \<Rightarrow> (unit, 'z fs_state_scheme) kern" where
  "write_back 0 K i = kloops"
| "write_back (Suc fuel) K i =
     kbind (gets (\<lambda>s. i_dirt (ino s i))) (\<lambda>d.
     if d = 0 then skip
     else kseq (write_inode K i) (kseq (wait_on_inode_unlock i) (write_back fuel K i)))"

primrec get_empty_loop ::
  "nat \<Rightarrow> 'z fs_state_scheme ctx \<Rightarrow> (nat, 'z fs_state_scheme) kern" where
  "get_empty_loop 0 K = kloops"
| "get_empty_loop (Suc fuel) K =
     kbind (gets (\<lambda>s. next_empty NR_INODE (inode_table s) (last_inode s) None)) (\<lambda>x.
     kseq (modify (\<lambda>s. s\<lparr>last_inode := fst x\<rparr>))
     (case snd x of
        None \<Rightarrow>
          kseq (kfor [0..<NR_INODE] (\<lambda>i. kbind (gets (\<lambda>s. ino s i)) (\<lambda>n.
                  printk ''%04x: %6d'' [uint (i_dev n), uint (i_num n)])))
               (kpanic ''No free inodes in mem'')
      | Some i \<Rightarrow>
          kseq (wait_on_inode_unlock i)
         (kseq (write_back (fst K) K i)
         (kbind (gets (\<lambda>s. i_count (ino s i))) (\<lambda>c.
          if c \<noteq> 0 then get_empty_loop fuel K
          else kseq (modify (upd_ino i (\<lambda>_. zero_inode\<lparr>i_count := 1\<rparr>))) (ret i))))))"

definition get_empty_inode :: "'z fs_state_scheme ctx \<Rightarrow> (nat, 'z fs_state_scheme) kern" where
  "get_empty_inode K = get_empty_loop (fst K) K"

definition get_pipe_inode :: "'z fs_state_scheme ctx \<Rightarrow> (nat option, 'z fs_state_scheme) kern" where
  "get_pipe_inode K =
     kbind (get_empty_inode K) (\<lambda>i.
     kbind get_free_page (\<lambda>page.
     kseq (modify (upd_ino i (\<lambda>n. n\<lparr>i_size := page\<rparr>)))
     (if page = 0 then kseq (modify (upd_ino i (\<lambda>n. n\<lparr>i_count := 0\<rparr>))) (ret None)
      else kseq (modify (upd_ino i (\<lambda>n. n\<lparr>i_count := 2, i_zone := (i_zone n)[0 := 0, 1 := 0], i_pipe := 1\<rparr>)))
                (ret (Some i)))))"

text \<open>The search of \<open>iget\<close>. It starts again from the first entry when the one it waited for
  has changed, and with the root of the mounted device when the inode is a mount point.\<close>

primrec iget_search ::
  "nat \<Rightarrow> 'z fs_state_scheme ctx \<Rightarrow> u16 \<Rightarrow> u16 \<Rightarrow> nat \<Rightarrow> (nat, 'z fs_state_scheme) kern" where
  "iget_search 0 K dev nr spare = kloops"
| "iget_search (Suc fuel) K dev nr spare =
     kbind (gets (\<lambda>s. scan_up (\<lambda>i. i_dev (ino s i) = dev \<and> i_num (ino s i) = nr) NR_INODE)) (\<lambda>r.
     case r of
       None \<Rightarrow>
         kseq (modify (upd_ino spare (\<lambda>n. n\<lparr>i_dev := dev, i_num := nr\<rparr>)))
        (kseq (read_inode K spare) (ret spare))
     | Some i \<Rightarrow>
         kseq (wait_on_inode_unlock i)
        (kbind (gets (\<lambda>s. i_dev (ino s i) = dev \<and> i_num (ino s i) = nr)) (\<lambda>same.
         if \<not> same then iget_search fuel K dev nr spare
         else kseq (modify (upd_ino i (\<lambda>n. n\<lparr>i_count := i_count n + 1\<rparr>)))
             (kbind (gets (\<lambda>s. (i_mount (ino s i), scan_up (\<lambda>k. s_inode_mount (sup s k) = Some i) NR_SUPER))) (\<lambda>x.
              if fst x = 0 then kseq (iput K (Some spare)) (ret i)
              else (case snd x of
                None \<Rightarrow> kseq (printk ''Mounted inode hasn't got sb'' []) (kseq (iput K (Some spare)) (ret i))
              | Some k \<Rightarrow>
                  kseq (iput K (Some i))
                 (kbind (gets (\<lambda>s. s_dev (sup s k))) (\<lambda>d.
                  iget_search fuel K d ROOT_INO spare))))))))"

definition iget :: "'z fs_state_scheme ctx \<Rightarrow> u16 \<Rightarrow> u16 \<Rightarrow> (nat, 'z fs_state_scheme) kern" where
  "iget K dev nr =
     (if dev = 0 then kpanic ''iget with dev==0''
      else kbind (get_empty_inode K) (iget_search (fst K) K dev nr))"

definition new_inode :: "'z fs_state_scheme ctx \<Rightarrow> u16 \<Rightarrow> (nat option, 'z fs_state_scheme) kern" where
  "new_inode K dev =
     kbind (get_empty_inode K) (\<lambda>i.
     kbind (check_in_superb (fst K) dev) (\<lambda>sb.
     case sb of
       None \<Rightarrow> kpanic ''new_inode with unknown device''
     | Some sb \<Rightarrow>
         kbind (gets (\<lambda>s. (sup s sb, scan_map s (s_imap (sup s sb))))) (\<lambda>x.
         let b = fst x; slot = fst (snd x); j = snd (snd (snd x)) in
         case fst (snd (snd x)) of
           None \<Rightarrow> kseq (iput K (Some i)) (ret None)
         | Some bh \<Rightarrow>
             if j \<ge> 8192 \<or> j + slot * 8192 > unat (s_ninodes b) then kseq (iput K (Some i)) (ret None)
             else kbind (gets (\<lambda>s. test_bit j (b_data (buf s bh)))) (\<lambda>was.
               kseq (modify (upd_buf bh (\<lambda>x. x\<lparr>b_data := set_bit_map j (b_data x)\<rparr>)))
               (if was then kpanic ''new_inode: bit already set''
                else kseq (modify (upd_buf bh (\<lambda>x. x\<lparr>b_dirt := 1\<rparr>)))
                    (kseq (modify (\<lambda>s. upd_ino i (\<lambda>n. n\<lparr>i_count := 1, i_nlinks := 1, i_dev := dev,
                             i_uid := t_euid (cur s), i_gid := ucast (t_egid (cur s)), i_dirt := 1,
                             i_num := of_nat (j + slot * 8192), i_mtime := word_of_int (CURRENT_TIME s),
                             i_atime := word_of_int (CURRENT_TIME s), i_ctime := word_of_int (CURRENT_TIME s)\<rparr>) s))
                          (ret (Some i))))))))"

section \<open>Super blocks\<close>

definition release_maps :: "nat option list \<Rightarrow> (unit, 'z fs_state_scheme) kern" where
  "release_maps maps = kfor maps brelse"

definition release_super :: "nat \<Rightarrow> u16 \<Rightarrow> (unit, 'z fs_state_scheme) kern" where
  "release_super fuel dev =
     kbind (gets ROOT_DEV) (\<lambda>root.
     if dev = root then printk ''root diskette changed: prepare for armageddon'' []
     else kbind (check_in_superb fuel dev) (\<lambda>sb.
       case sb of
         None \<Rightarrow> skip
       | Some k \<Rightarrow>
           kbind (gets (\<lambda>s. s_inode_mount (sup s k))) (\<lambda>m.
           if m \<noteq> None then printk ''Mounted disk changed - tssk, tssk'' []
           else kseq (lock_super k)
               (kseq (modify (upd_sup k (\<lambda>b. b\<lparr>s_dev := 0\<rparr>)))
               (kbind (gets (\<lambda>s. sup s k)) (\<lambda>b.
                kseq (release_maps (s_imap b))
               (kseq (release_maps (s_zmap b))
                     (unlock_super k))))))))"

definition check_disk_change :: "nat \<Rightarrow> u16 \<Rightarrow> (unit, 'z fs_state_scheme) kern" where
  "check_disk_change fuel dev =
     (if MAJOR dev \<noteq> 2 then skip
      else kbind (floppy_change fuel (unat (dev AND 3))) (\<lambda>changed.
        if \<not> changed then skip
        else kseq (kfor [0..<NR_SUPER] (\<lambda>k.
               kbind (gets (\<lambda>s. s_dev (sup s k))) (\<lambda>d.
               kwhen (d = dev) (release_super fuel d))))
            (kseq (invalidate_inodes dev)
                  (invalidate_buffers dev))))"

text \<open>The loops of \<open>read_super\<close> that read the bitmap blocks: how many were read. More than
  eight run past the end of the array.\<close>

primrec read_maps ::
  "nat \<Rightarrow> 'z fs_state_scheme ctx \<Rightarrow> (nat \<Rightarrow> nat option \<Rightarrow> super_block \<Rightarrow> super_block) \<Rightarrow>
   nat \<Rightarrow> u16 \<Rightarrow> nat \<Rightarrow> nat \<Rightarrow> (nat, 'z fs_state_scheme) kern" where
  "read_maps 0 K store k dev i block = ret block"
| "read_maps (Suc n) K store k dev i block =
     (if i \<ge> 8 then kfault
      else kbind (bread K dev (of_nat block)) (\<lambda>bh.
        kseq (modify (upd_sup k (store i bh)))
        (if bh = None then ret block else read_maps n K store k dev (Suc i) (Suc block))))"

definition read_super :: "'z fs_state_scheme ctx \<Rightarrow> u16 \<Rightarrow> (nat option, 'z fs_state_scheme) kern" where
  "read_super K dev =
     (if dev = 0 then ret None
      else kseq (check_disk_change (fst K) dev)
       (kbind (check_in_superb (fst K) dev) (\<lambda>sb.
        case sb of
          Some k \<Rightarrow> ret (Some k)
        | None \<Rightarrow>
            kbind (gets (\<lambda>s. scan_up (\<lambda>k. s_dev (sup s k) = 0) NR_SUPER)) (\<lambda>r.
            case r of
              None \<Rightarrow> ret None
            | Some k \<Rightarrow>
                let fail = kseq (modify (upd_sup k (\<lambda>b. b\<lparr>s_dev := 0\<rparr>))) (kseq (unlock_super k) (ret None)) in
                kseq (modify (upd_sup k (\<lambda>b. b\<lparr>s_dev := dev, s_inode_super := None, s_inode_mount := None,
                        s_time := 0, s_rd_only := 0, s_dirt := 0\<rparr>)))
               (kseq (lock_super k)
               (kbind (bread K dev 1) (\<lambda>bh.
                case bh of
                  None \<Rightarrow> fail
                | Some bh \<Rightarrow>
                    kseq (modify (\<lambda>s. upd_sup k (get_d_super (b_data (buf s bh))) s))
                   (kseq (brelse (Some bh))
                   (kbind (gets (\<lambda>s. sup s k)) (\<lambda>b.
                    if s_magic b \<noteq> SUPER_MAGIC then fail
                    else kseq (modify (upd_sup k (\<lambda>b. b\<lparr>s_imap := replicate 8 None, s_zmap := replicate 8 None\<rparr>)))
                        (kbind (read_maps (unat (s_imap_blocks b)) K (\<lambda>i bh b. b\<lparr>s_imap := (s_imap b)[i := bh]\<rparr>) k dev 0 2) (\<lambda>block1.
                         kbind (read_maps (unat (s_zmap_blocks b)) K (\<lambda>i bh b. b\<lparr>s_zmap := (s_zmap b)[i := bh]\<rparr>) k dev 0 block1) (\<lambda>block.
                         kbind (gets (\<lambda>s. sup s k)) (\<lambda>b.
                         if block \<noteq> 2 + unat (s_imap_blocks b) + unat (s_zmap_blocks b)
                         then kseq (release_maps (s_imap b)) (kseq (release_maps (s_zmap b)) fail)
                         else (case (s_imap b ! 0, s_zmap b ! 0) of
                           (Some im, Some zm) \<Rightarrow>
                             kseq (modify (upd_buf im (\<lambda>x. x\<lparr>b_data := upd_nth 0 (\<lambda>c. c OR 1) (b_data x)\<rparr>)))
                            (kseq (modify (upd_buf zm (\<lambda>x. x\<lparr>b_data := upd_nth 0 (\<lambda>c. c OR 1) (b_data x)\<rparr>)))
                            (kseq (unlock_super k)
                                  (ret (Some k))))
                         | _ \<Rightarrow> kfault)))))))))))))))"

text \<open>\<open>mount_root\<close>; \<open>wait_for_keypress\<close> is the console's.\<close>

definition mount_root ::
  "'z fs_state_scheme ctx \<Rightarrow> (unit, 'z fs_state_scheme) kern \<Rightarrow> (unit, 'z fs_state_scheme) kern" where
  "mount_root K wait_for_keypress =
     kseq (modify (\<lambda>s. s\<lparr>file_table := map (\<lambda>f. f\<lparr>f_count := 0\<rparr>) (file_table s)\<rparr>))
    (kbind (gets ROOT_DEV) (\<lambda>root.
     kseq (kwhen (MAJOR root = 2) (kseq (printk ''Insert root floppy and press ENTER'' []) wait_for_keypress))
    (kseq (modify (\<lambda>s. s\<lparr>super_blocks := map (\<lambda>b. b\<lparr>s_dev := 0, s_lock := 0, s_wait := 0\<rparr>) (super_blocks s)\<rparr>))
    (kbind (read_super K root) (\<lambda>p.
     case p of
       None \<Rightarrow> kpanic ''Unable to mount root''
     | Some p \<Rightarrow>
         kbind (gets ROOT_DEV) (\<lambda>root.
         kbind (iget K root ROOT_INO) (\<lambda>mi.
         kseq (modify (upd_ino mi (\<lambda>n. n\<lparr>i_count := i_count n + 3\<rparr>)))
        (kseq (modify (upd_sup p (\<lambda>b. b\<lparr>s_inode_super := Some mi, s_inode_mount := Some mi\<rparr>)))
        (kseq (upd_cur (\<lambda>t. t\<lparr>t_pwd := Some mi, t_root := Some mi\<rparr>))
        (kbind (gets (\<lambda>s. (sup s p, s))) (\<lambda>x.
         let b = fst x; s = snd x;
             free_in = (\<lambda>maps n k. if \<exists>i \<in> {0..<n}. maps ! (i div 8192) = None then kfault
                else k (int (length (filter (\<lambda>i. \<not> test_bit (i mod 8192) (b_data (buf s (the (maps ! (i div 8192)))))) [0..<n])))) in
         free_in (s_zmap b) (unat (s_nzones b)) (\<lambda>free.
         kseq (printk ''%d/%d free blocks'' [free, uint (s_nzones b)])
        (free_in (s_imap b) (Suc (unat (s_ninodes b))) (\<lambda>free.
         printk ''%d/%d free inodes'' [free, uint (s_ninodes b)]))))))))))))))"

end
