(* ===== verification/Fs_cache.thy ===== *)
theory Fs_cache
  imports Cache Itable
begin

text \<open>
  The buffer cache under the file system: \<open>getblk\<close> writes out inodes to get a clean buffer and
  so calls itself through \<open>bread\<close>. The invariant of the cache is kept on the whole circle.
\<close>

section \<open>Inodes and super blocks keep the cache\<close>

lemma cache_ok_fs_fields [simp]:
  "cache_ok n (s\<lparr>inode_table := t\<rparr>) = cache_ok n s" "cache_ok n (s\<lparr>super_blocks := b\<rparr>) = cache_ok n s"
  "cache_ok n (s\<lparr>file_table := f\<rparr>) = cache_ok n s" "cache_ok n (s\<lparr>last_inode := l\<rparr>) = cache_ok n s"
  "cache_ok n (upd_ino i g s) = cache_ok n s" "cache_ok n (upd_sup i h s) = cache_ok n s"
  by (rule cache_ok_cong; simp add: upd_ino_def upd_sup_def)+

lemma fs_queues [simp]:
  "cache_ok n s \<Longrightarrow> cache_ok n (snd (iwait_queue i) v s)" "cache_ok n s \<Longrightarrow> cache_ok n (snd (swait_queue i) v s)"
  by (simp_all add: iwait_queue_def swait_queue_def)

lemma fs_waits [keeps]:
  "keeps cache_rely (cache_ok n) (wait_on_inode_unlock i)" "keeps cache_rely (cache_ok n) (wait_on_super_unlock i)"
  "keeps cache_rely (cache_ok n) (wake_up_last (iwait_queue i))" "keeps cache_rely (cache_ok n) (wake_up_last (swait_queue i))"
  unfolding wait_on_inode_unlock_def wait_on_super_unlock_def
  by (rule cache.wake_up_keeps keeps_triple [OF cache.wait_on_keeps]; simp)+

lemma inode_locks [keeps]:
  "keeps cache_rely (cache_ok n) (lock_inode i)" "keeps cache_rely (cache_ok n) (unlock_inode i)"
  "keeps cache_rely (cache_ok n) (lock_super i)" "keeps cache_rely (cache_ok n) (unlock_super i)"
  unfolding lock_inode_def unlock_inode_def lock_super_def unlock_super_def by (intro keeps; simp)+

lemma check_in_superb_keeps [keeps]: "keeps cache_rely (cache_ok n) (check_in_superb k dev)"
proof (induction k)
  case (Suc k)
  show ?case unfolding check_in_superb.simps by (intro keeps Suc)
qed (simp add: keeps)

lemma sync_inodes_of_keeps:
  assumes "\<And>d b. keeps cache_rely (cache_ok n) (br d b)"
  shows "keeps cache_rely (cache_ok n) (sync_inodes_of br fuel)"
  unfolding sync_inodes_of_def write_inode_of_def by (intro keeps assms) simp_all

lemma getblk_fuel_found:
  assumes "drivers n call"
  shows "triple cache_rely (cache_ok n) (getblk_fuel k call dev block) (found n dev block)"
proof (induction k arbitrary: dev block)
  case 0
  show ?case by (simp add: triple_def kloops_def)
next
  case (Suc k)
  have gb: "keeps cache_rely (cache_ok n) (getblk_fuel k call d b)" for d b
    using Suc.IH [of d b] by (rule keeps_triple) (simp add: found_def)
  show ?case
    unfolding getblk_fuel.simps
    by (intro getblk_of_cache Suc.IH sync_dev_of_keeps sync_inodes_of_keeps bread_of_keeps gb assms)
qed

text \<open>C11: whatever other tasks and the drivers do while it sleeps, as long as they keep the
  cache's invariant, the buffer that \<open>getblk\<close> returns is that of the device and block asked
  for, it is the only buffer of that block, and the two queues are well formed afterwards. The
  second search in \<open>getblk\<close>, after the sleeps, is what this rests on.\<close>

theorem getblk_unique:
  assumes "cache_inv s" and "drivers (length (bufs s)) (snd K)" and "conforms cache_rely es"
    and "getblk K dev block s es = Ok bh s' es'" and "dev \<noteq> 0"
  shows "cache_inv s' \<and> bh < length (bufs s') \<and>
    (\<forall>i < length (bufs s'). b_dev (buf s' i) = dev \<and> b_blocknr (buf s' i) = block \<longleftrightarrow> i = bh)"
proof -
  have ok: "cache_ok (length (bufs s)) s" using assms(1) by (simp add: cache_ok_def)
  have "getblk_fuel (fst K) (snd K) dev block s es = Ok bh s' es'" using assms(4) by (simp add: getblk_def)
  from tripleD [OF getblk_fuel_found [OF assms(2)] ok assms(3) this]
  have f: "found (length (bufs s)) dev block bh s'" by simp
  then have inv: "cache_inv s'" and bh: "bh < length (bufs s')" "bkey s' bh = (dev, block)"
    by (auto simp: found_def cache_ok_def)
  have uniq: "i = bh" if "i < length (bufs s')" "bkey s' i = (dev, block)" for i
  proof -
    have "inj_on (bkey s') (cached s')" using inv by (simp add: cache_inv_def)
    then show ?thesis using that bh assms(5) by (auto simp: inj_on_def cached_def)
  qed
  have "b_dev (buf s' i) = dev \<and> b_blocknr (buf s' i) = block \<longleftrightarrow> i = bh" if "i < length (bufs s')" for i
    using uniq [OF that] bh(2) by (cases "i = bh") (auto simp: bkey_def)
  with inv bh(1) show ?thesis by blast
qed

lemma wait_unlocked: "b_lock (buf s i) = 0 \<Longrightarrow> wait_buffer_unlock i s es = Ok () s es"
  by (simp add: wait_buffer_unlock_def wait_on_def kern_defs)

lemma getblk_hit:
  assumes "cache_inv s" and "dev \<noteq> 0" and hit: "i < length (bufs s)" "bkey s i = (dev, block)" "b_lock (buf s i) = 0"
    and fuel: "1 < fst K"
  shows "getblk K dev block s es = Ok i (upd_buf i (\<lambda>b. b\<lparr>b_count := b_count b + 1\<rparr>) s) es"
proof -
  obtain k where k: "fst K = Suc (Suc k)" using fuel less_imp_Suc_add [of 1 "fst K"] by auto
  have "inj_on (bkey s) (cached s)" using assms(1) by (simp add: cache_inv_def)
  with hit assms(2) have "j = i" if "j < length (bufs s)" "bkey s j = (dev, block)" for j
    using that by (auto simp: inj_on_def cached_def)
  then have uniq: "j < length (bufs s) \<and> bkey s j = (dev, block) \<longleftrightarrow> j = i" for j using hit by blast
  from find_buffer_run [OF assms(1), of dev block es] obtain r where
    r: "find_buffer dev block s es = Ok r s es"
    "case r of None \<Rightarrow> \<forall>i < length (bufs s). dev \<noteq> 0 \<longrightarrow> bkey s i \<noteq> (dev, block)
     | Some i \<Rightarrow> i < length (bufs s) \<and> bkey s i = (dev, block)" by blast
  have f: "find_buffer dev block s es = Ok (Some i) s es"
    using r hit assms(2) by (cases r) (simp_all add: uniq)
  let ?s = "upd_buf i (\<lambda>b. b\<lparr>b_count := b_count b + 1\<rparr>) s"
  have i: "b_lock (buf ?s i) = 0" "b_dev (buf ?s i) = dev" "b_blocknr (buf ?s i) = block"
    using hit by (simp_all add: buf_upd_buf bkey_def)
  show ?thesis
    unfolding getblk_def k getblk_fuel.simps getblk_of_def
    using f i wait_unlocked [OF i(1)] by (simp add: kern_defs)
qed

lemma getblk_fresh:
  assumes "cache_inv s" and "dev \<noteq> 0" and new: "\<And>i. i < length (bufs s) \<Longrightarrow> bkey s i \<noteq> (dev, block)"
    and free: "i < length (bufs s)" "b_count (buf s i) = 0" "b_dirt (buf s i) = 0" "b_lock (buf s i) = 0"
    and fuel: "1 < fst K"
  shows "\<exists>bh s'. getblk K dev block s es = Ok bh s' es \<and> b_count (buf s bh) = 0 \<and> bh < length (bufs s) \<and> b_lock (buf s bh) = 0 \<and>
    take_buffer dev block bh s es = Ok () s' es"
proof -
  obtain k where k: "fst K = Suc (Suc k)" using fuel less_imp_Suc_add [of 1 "fst K"] by auto
  obtain r where r: "find_buffer dev block s es = Ok r s es"
    and rs: "case r of None \<Rightarrow> True | Some i \<Rightarrow> i < length (bufs s) \<and> bkey s i = (dev, block)"
    using find_buffer_run [OF assms(1), of dev block es] by (auto split: option.splits)
  then have r: "find_buffer dev block s es = Ok None s es" using new by (auto split: option.splits)
  from scan_free_cache [OF assms(1)] obtain f where
    scan: "scan_free (Suc (length (bufs s))) (bufs s) (free_list s) (free_list s) None = Some f"
    and fs: "case f of None \<Rightarrow> \<forall>i < length (bufs s). b_count (buf s i) \<noteq> 0
     | Some i \<Rightarrow> i < length (bufs s) \<and> b_count (buf s i) = 0 \<and>
         (\<forall>j < length (bufs s). b_count (buf s j) = 0 \<longrightarrow> BADNESS (buf s i) \<le> BADNESS (buf s j))" by blast
  with free obtain bh where bh: "f = Some bh" "bh < length (bufs s)" "b_count (buf s bh) = 0"
    and "BADNESS (buf s bh) \<le> BADNESS (buf s i)" by (cases f) auto
  then have clean: "b_dirt (buf s bh) = 0" "b_lock (buf s bh) = 0"
    using free by (simp_all add: BADNESS_def unat_eq_zero)
  from take_buffer_inv [OF assms(1) bh(2) new, of es] obtain s' where
    take: "take_buffer dev block bh s es = Ok () s' es" by auto
  then have "getblk K dev block s es = Ok bh s' es"
    using r scan bh clean
    by (simp add: getblk_def k getblk_of_def kern_defs wait_unlocked del: scan_free.simps)
  then show ?thesis using bh take clean by blast
qed


text \<open>\<open>getblk\<close> does not sleep when it need not. If the block is in the cache and its buffer
  is unlocked, it returns that buffer with one more user; if the block is not in the cache and some
  buffer is unused, clean and unlocked, it returns a buffer that was unused. The ring is
  searched to its end only when there is no such buffer.\<close>

lemma getblk_returns:
  assumes "cache_inv s" and "dev \<noteq> 0" and "1 < fst K"
    and "(\<exists>i < length (bufs s). b_dev (buf s i) = dev \<and> b_blocknr (buf s i) = block \<and> b_lock (buf s i) = 0) \<or>
      (\<forall>i < length (bufs s). (b_dev (buf s i), b_blocknr (buf s i)) \<noteq> (dev, block)) \<and>
      (\<exists>i < length (bufs s). b_count (buf s i) = 0 \<and> b_dirt (buf s i) = 0 \<and> b_lock (buf s i) = 0)"
  shows "\<exists>bh s'. getblk K dev block s es = Ok bh s' es \<and> bh < length (bufs s) \<and>
    ((b_dev (buf s bh), b_blocknr (buf s bh)) = (dev, block) \<and>
       s' = upd_buf bh (\<lambda>b. b\<lparr>b_count := b_count b + 1\<rparr>) s \<or>
     (b_dev (buf s bh), b_blocknr (buf s bh)) \<noteq> (dev, block) \<and> b_count (buf s bh) = 0)"
  using assms(4)
proof
  assume "\<exists>i < length (bufs s). b_dev (buf s i) = dev \<and> b_blocknr (buf s i) = block \<and> b_lock (buf s i) = 0"
  then obtain i where i: "i < length (bufs s)" "bkey s i = (dev, block)" "b_lock (buf s i) = 0"
    by (auto simp: bkey_def)
  from getblk_hit [OF assms(1,2) i assms(3), of es] i show ?thesis by (auto simp: bkey_def)
next
  assume "(\<forall>i < length (bufs s). (b_dev (buf s i), b_blocknr (buf s i)) \<noteq> (dev, block)) \<and>
      (\<exists>i < length (bufs s). b_count (buf s i) = 0 \<and> b_dirt (buf s i) = 0 \<and> b_lock (buf s i) = 0)"
  then obtain i where new: "\<And>i. i < length (bufs s) \<Longrightarrow> bkey s i \<noteq> (dev, block)"
    and i: "i < length (bufs s)" "b_count (buf s i) = 0" "b_dirt (buf s i) = 0" "b_lock (buf s i) = 0"
    by (auto simp: bkey_def)
  from getblk_fresh [OF assms(1,2) new i assms(3), of es] obtain bh s' where
    "getblk K dev block s es = Ok bh s' es" "b_count (buf s bh) = 0" "bh < length (bufs s)" by blast
  with new [of bh] show ?thesis by (auto simp: bkey_def)
qed

section \<open>A cache at boot\<close>

text \<open>Two buffers, as \<open>buffer_init\<close> makes them from a small memory, with the ram disk as the
  only driver.\<close>

definition cache_boot0 :: fs_state where
  "cache_boot0 = blk_state.extend (sched_state.extend sched_boot
     (blk_state.fields [] 0x200000 [] 0 0
        (replicate 32 \<lparr>r_dev = - 1, r_cmd = 0, r_errors = 0, r_sector = 0, r_nr_sectors = 0,
           r_buffer = None, r_off = 0, r_waiting = 0, r_bh = None, r_next = None\<rparr>) 0
        (replicate 7 \<lparr>request_fn = None, current_request = None\<rparr>) 0x300000 0 (\<lambda>_. 0) 0))
        (fs_state.fields (replicate 32 zero_inode) 0 [] [] 0x101)"

definition zero_buffer :: buffer_head where
  "zero_buffer = \<lparr>b_data = replicate 1024 0, b_blocknr = 0, b_dev = 0, b_uptodate = 0, b_dirt = 0,
     b_count = 0, b_lock = 0, b_wait = 0, b_prev = None, b_next = None, b_prev_free = None, b_next_free = None\<rparr>"

definition rd_ctx :: "fs_state ctx" where
  "rd_ctx = (3, \<lambda>_. do_rd_request 40)"

lemma boot_start: "start_buffer cache_boot0 = 0x200000"
  by (simp add: cache_boot0_def sched_state.defs blk_state.defs fs_state.defs)

lemma count_two: "count_buffers 2099272 2099272 2097152 = 2"
proof -
  have step: "count_buffers n b h = (if 0 < n \<and> b - 1024 \<ge> h + 36 then
      Suc (count_buffers (n - 1) (if b - 1024 = 0x100000 then 0xA0000 else b - 1024) (h + 36)) else 0)" for n b h
    by (cases n) (simp_all add: Let_def)
  show ?thesis by (subst step, simp, subst step, simp, subst step, simp)
qed

lemma cache_boot:
  obtains s where "buffer_init (\<lambda>_. zero_buffer) 2099272 cache_boot0 [] = Ok () s []" and "length (bufs s) = 2"
    and "\<And>i. i < 2 \<Longrightarrow> b_dev (buf s i) = 0 \<and> b_count (buf s i) = 0 \<and> b_dirt (buf s i) = 0 \<and> b_lock (buf s i) = 0"
proof
  let ?s = "cache_boot0\<lparr>bufs := map (\<lambda>i.
         zero_buffer\<lparr>b_dev := 0, b_uptodate := 0, b_dirt := 0, b_count := 0, b_lock := 0,
          b_wait := 0, b_prev := None, b_next := None,
          b_prev_free := Some (if i = 0 then 1 else i - 1),
          b_next_free := Some (if Suc i = 2 then 0 else Suc i)\<rparr>) [0..<2],
       free_list := 0, hash_table := replicate NR_HASH None\<rparr>"
  show "buffer_init (\<lambda>_. zero_buffer) 2099272 cache_boot0 [] = Ok () ?s []"
    by (simp add: buffer_init_def kern_defs boot_start count_two Let_def)
  show "length (bufs ?s) = 2" by simp
  show "i < 2 \<Longrightarrow> b_dev (buf ?s i) = 0 \<and> b_count (buf ?s i) = 0 \<and> b_dirt (buf ?s i) = 0 \<and> b_lock (buf ?s i) = 0" for i
    by (simp add: buf_def)
qed

theorem getblk_unique_witness:
  "\<exists>s s' bh. buffer_init (\<lambda>_. zero_buffer) 2099272 cache_boot0 [] = Ok () s [] \<and>
     getblk rd_ctx 0x101 7 s [] = Ok bh s' [] \<and> b_dev (buf s' bh) = 0x101 \<and> b_blocknr (buf s' bh) = 7"
proof -
  obtain s where s: "buffer_init (\<lambda>_. zero_buffer) 2099272 cache_boot0 [] = Ok () s []" "length (bufs s) = 2"
    and b: "\<And>i. i < 2 \<Longrightarrow> b_dev (buf s i) = 0 \<and> b_count (buf s i) = 0 \<and> b_dirt (buf s i) = 0 \<and> b_lock (buf s i) = 0"
    by (rule cache_boot) blast
  have inv: "cache_inv s" using buffer_init_inv [OF s(1)] s(2) by simp
  from getblk_fresh [OF inv, of "0x101" 7 0 rd_ctx "[]"] s(2) b obtain bh s' where
    g: "getblk rd_ctx 0x101 7 s [] = Ok bh s' []" by (auto simp: bkey_def rd_ctx_def)
  have "drivers (length (bufs s)) (snd rd_ctx)" by (simp add: drivers_def rd_ctx_def do_rd_request_keeps)
  from getblk_unique [OF inv this _ g] s g show ?thesis by (auto simp: conforms_def)
qed

end
