(* ===== verification/Ring.thy ===== *)
theory Ring
  imports K_Prelude
begin

text \<open>
  Ring buffers. Pipes and terminal queues both keep bytes in a fixed array with a head and a tail
  that wrap around. \<open>ring\<close> is the sequence of bytes such a buffer stands for; the locale
  \<open>fifo\<close> is the contract of a byte queue, and its lemma says that what comes out of a queue is
  what went in, in order, over any sequence of operations.
\<close>

section \<open>The contents of a ring\<close>

definition ring :: "nat \<Rightarrow> (nat \<Rightarrow> 'b) \<Rightarrow> nat \<Rightarrow> nat \<Rightarrow> 'b list" where
  "ring N f t h = map (\<lambda>k. f ((t + k) mod N)) [0..<(h + N - t) mod N]"

lemma length_ring [simp]: "length (ring N f t h) = (h + N - t) mod N"
  by (simp add: ring_def)

lemma ring_cong: "(\<And>i. i < N \<Longrightarrow> f i = g i) \<Longrightarrow> 0 < N \<Longrightarrow> ring N f t h = ring N g t h"
  by (simp add: ring_def)

lemma ring_empty: "t < N \<Longrightarrow> h < N \<Longrightarrow> ring N f t h = [] \<longleftrightarrow> t = h"
proof -
  assume th: "t < N" "h < N"
  have "(h + N - t) mod N = 0 \<longleftrightarrow> t = h"
  proof (cases "t \<le> h")
    case True
    then have "(h + N - t) mod N = h - t" using th by (simp add: mod_if)
    then show ?thesis using True by auto
  next
    case False
    then show ?thesis using th by simp
  qed
  then show ?thesis by (simp add: ring_def)
qed

lemma ring_head: "t < N \<Longrightarrow> h < N \<Longrightarrow> (t + (h + N - t) mod N) mod N = (h :: nat)"
proof -
  assume th: "t < N" "h < N"
  have "(t + (h + N - t) mod N) mod N = (t + (h + N - t)) mod N" by (simp add: mod_simps)
  also have "\<dots> = h" using th by simp
  finally show ?thesis .
qed

lemma ring_diff:
  assumes "(h :: nat) = (a + e) mod N" and "a < N" and "e < N"
  shows "(h + N - a) mod N = e"
proof (cases "a + e < N")
  case True
  then show ?thesis using assms by simp
next
  case False
  then have "h = a + e - N" using assms by (simp add: mod_if)
  then show ?thesis using False assms by simp
qed

lemma ring_length_put:
  assumes "t < N" and "h < N" and "l + (h + N - t) mod N < N"
  shows "((h + l) mod N + N - t) mod N = (h + N - t) mod N + (l :: nat)"
proof -
  have "((h + l) mod N + N - t) mod N = ((h + l) mod N + (N - t)) mod N" using assms(1) by simp
  also have "\<dots> = (h + l + (N - t)) mod N" by (simp add: mod_simps)
  also have "\<dots> = ((h + N - t) mod N + l) mod N" using assms(1) by (simp add: mod_simps algebra_simps)
  also have "\<dots> = (h + N - t) mod N + l" using assms(3) by (simp add: add.commute)
  finally show ?thesis .
qed

text \<open>Storing bytes at the head appends them, as long as they do not run over the end of the array
  and leave one cell free.\<close>

lemma ring_put:
  assumes "t < N" and "h < N" and room: "length bs + length (ring N f t h) < N" and end_: "h + length bs \<le> N"
    and g: "\<And>i. i < N \<Longrightarrow> g i = (if h \<le> i \<and> i < h + length bs then bs ! (i - h) else f i)"
  shows "ring N g t ((h + length bs) mod N) = ring N f t h @ bs"
proof (rule nth_equalityI)
  define d where "d = (h + N - t) mod N"
  have d: "length (ring N f t h) = d" "d + length bs < N" "0 < N" using room assms(1) by (simp_all add: d_def)
  have len: "length (ring N g t ((h + length bs) mod N)) = d + length bs"
    using ring_length_put [of t N h "length bs"] assms(1,2) room by (simp add: d_def)
  then show "length (ring N g t ((h + length bs) mod N)) = length (ring N f t h @ bs)" using d by simp
  fix k
  assume "k < length (ring N g t ((h + length bs) mod N))"
  then have k: "k < d + length bs" using len by simp
  then have lhs: "ring N g t ((h + length bs) mod N) ! k = g ((t + k) mod N)"
    using len unfolding ring_def by simp
  have td: "(t + d) mod N = h" using ring_head [OF assms(1,2)] by (simp add: d_def)
  show "ring N g t ((h + length bs) mod N) ! k = (ring N f t h @ bs) ! k"
  proof (cases "k < d")
    case True
    have "\<not> (h \<le> (t + k) mod N \<and> (t + k) mod N < h + length bs)"
    proof
      assume in_bs: "h \<le> (t + k) mod N \<and> (t + k) mod N < h + length bs"
      define j where "j = (t + k) mod N - h"
      have j: "(t + k) mod N = h + j" "j < length bs" using in_bs by (auto simp: j_def)
      have "(t + k) mod N = (t + (d + j)) mod N"
        using j(1) td mod_less [of "h + j" N] mod_less_divisor [of N "t + k"] d(3)
        by (metis add.assoc mod_add_left_eq)
      then have "N dvd (t + (d + j)) - (t + k)" using True mod_eq_dvd_iff_nat [of "t + k" "t + (d + j)" N] by simp
      then have "N \<le> d + j - k" using True by (intro dvd_imp_le) simp_all
      then show False using j(2) d(2) by simp
    qed
    then have "g ((t + k) mod N) = f ((t + k) mod N)" using g [of "(t + k) mod N"] d(3) by auto
    moreover have "ring N f t h ! k = f ((t + k) mod N)" using True by (simp add: ring_def d_def)
    ultimately show ?thesis using True lhs d(1) by (simp add: nth_append)
  next
    case False
    then have j: "k - d < length bs" using k by simp
    have "(t + k) mod N = (t + d + (k - d)) mod N" using False by simp
    also have "\<dots> = (h + (k - d)) mod N" using td by (metis mod_add_left_eq)
    also have "\<dots> = h + (k - d)" using j end_ by simp
    finally have "ring N g t ((h + length bs) mod N) ! k = g (h + (k - d))" using lhs by simp
    also have "\<dots> = bs ! (k - d)" using j end_ by (subst g) auto
    finally show ?thesis using False d(1) by (simp add: nth_append)
  qed
qed

lemma ring_get:
  assumes "t < N" and "h < N" and n: "n \<le> length (ring N f t h)" and "t + n \<le> N"
  shows "ring N f t h = map f [t..<t + n] @ ring N f ((t + n) mod N) h"
proof (rule nth_equalityI)
  define d where "d = (h + N - t) mod N"
  have d: "n \<le> d" "d < N" using n assms(1) by (simp_all add: d_def)
  have "(h + N - (t + n) mod N) mod N = d - n"
  proof -
    have td: "(t + d) mod N = h" using ring_head [OF assms(1,2)] by (simp add: d_def)
    have "((t + n) mod N + (d - n)) mod N = (t + n + (d - n)) mod N" by (simp only: mod_add_left_eq)
    then have "h = ((t + n) mod N + (d - n)) mod N" using td d by simp
    then show ?thesis using d by (intro ring_diff) simp_all
  qed
  then have len: "length (ring N f ((t + n) mod N) h) = d - n" by simp
  then show "length (ring N f t h) = length (map f [t..<t + n] @ ring N f ((t + n) mod N) h)"
    using d by (simp add: d_def)
  fix k
  assume "k < length (ring N f t h)"
  then have k: "k < d" by (simp add: d_def)
  then have lhs: "ring N f t h ! k = f ((t + k) mod N)" by (simp add: ring_def d_def)
  show "ring N f t h ! k = (map f [t..<t + n] @ ring N f ((t + n) mod N) h) ! k"
  proof (cases "k < n")
    case True
    then show ?thesis using lhs assms(4) by (simp add: nth_append)
  next
    case False
    then have "((t + n) mod N + (k - n)) mod N = (t + k) mod N" using mod_add_left_eq [of "t + n" N "k - n"] by simp
    moreover have "k - n < d - n" using k False by simp
    ultimately show ?thesis using False lhs len by (simp add: nth_append) (simp add: ring_def)
  qed
qed

section \<open>First in, first out\<close>

datatype 'b qop = Put "'b list" | Get nat

text \<open>A sequence of operations on a queue: the queue after it and all that was taken out; whether
  every operation was allowed when it ran; and all that was put in.\<close>

primrec qrun ::
  "('b list \<Rightarrow> 'q \<Rightarrow> 'q) \<Rightarrow> (nat \<Rightarrow> 'q \<Rightarrow> 'b list) \<Rightarrow> (nat \<Rightarrow> 'q \<Rightarrow> 'q) \<Rightarrow> 'b qop list \<Rightarrow> 'q \<Rightarrow> 'q \<times> 'b list" where
  "qrun put taken get [] q = (q, [])"
| "qrun put taken get (x # xs) q =
     (case x of
        Put bs \<Rightarrow> qrun put taken get xs (put bs q)
      | Get n \<Rightarrow> (let r = qrun put taken get xs (get n q) in (fst r, taken n q @ snd r)))"

primrec qallowed ::
  "('q \<Rightarrow> 'b qop \<Rightarrow> bool) \<Rightarrow> ('b list \<Rightarrow> 'q \<Rightarrow> 'q) \<Rightarrow> (nat \<Rightarrow> 'q \<Rightarrow> 'q) \<Rightarrow> 'b qop list \<Rightarrow> 'q \<Rightarrow> bool" where
  "qallowed ok put get [] q \<longleftrightarrow> True"
| "qallowed ok put get (x # xs) q \<longleftrightarrow> ok q x \<and>
     qallowed ok put get xs (case x of Put bs \<Rightarrow> put bs q | Get n \<Rightarrow> get n q)"

primrec qinput :: "'b qop list \<Rightarrow> 'b list" where
  "qinput [] = []"
| "qinput (x # xs) = (case x of Put bs \<Rightarrow> bs | Get n \<Rightarrow> []) @ qinput xs"

locale fifo =
  fixes inv :: "'q \<Rightarrow> bool"
    and contents :: "'q \<Rightarrow> 'b list"
    and ok :: "'q \<Rightarrow> 'b qop \<Rightarrow> bool"
    and put :: "'b list \<Rightarrow> 'q \<Rightarrow> 'q"
    and taken :: "nat \<Rightarrow> 'q \<Rightarrow> 'b list"
    and get :: "nat \<Rightarrow> 'q \<Rightarrow> 'q"
  assumes put_inv: "inv q \<Longrightarrow> ok q (Put bs) \<Longrightarrow> inv (put bs q)"
    and put_contents: "inv q \<Longrightarrow> ok q (Put bs) \<Longrightarrow> contents (put bs q) = contents q @ bs"
    and get_inv: "inv q \<Longrightarrow> ok q (Get n) \<Longrightarrow> inv (get n q)"
    and get_contents: "inv q \<Longrightarrow> ok q (Get n) \<Longrightarrow> contents q = taken n q @ contents (get n q)"
begin

lemma fifo_run:
  assumes "inv q" and "qallowed ok put get xs q"
  shows "inv (fst (qrun put taken get xs q)) \<and>
    contents q @ qinput xs = snd (qrun put taken get xs q) @ contents (fst (qrun put taken get xs q))"
  using assms
proof (induction xs arbitrary: q)
  case (Cons x xs)
  show ?case
  proof (cases x)
    case (Put bs)
    then show ?thesis using Cons.prems Cons.IH [of "put bs q"] put_inv put_contents [of q bs] by simp
  next
    case (Get n)
    then show ?thesis using Cons get_inv get_contents [of q n] by (simp add: Let_def)
  qed
qed simp

end

end
