(* ===== verification/Files.thy ===== *)
theory Files
  imports Itable Ring
begin

unbundle bit_operations_syntax

text \<open>
  Reading and writing: \<^verbatim>\<open>fs/block_dev.c\<close>, \<^verbatim>\<open>fs/file_dev.c\<close>, \<^verbatim>\<open>fs/pipe.c\<close>,
  \<^verbatim>\<open>fs/char_dev.c\<close> and \<^verbatim>\<open>fs/read_write.c\<close>, with \<open>verify_area\<close> of
  \<^verbatim>\<open>kernel/fork.c\<close>.

  An open file is an entry of \<open>file_table\<close>; where the sources pass the address of its
  \<open>f_pos\<close>, the functions here take the entry. Reading and writing a terminal is the parameter
  \<open>tty_rw\<close> of the functions that reach it. A system call returns a negative error number.
\<close>

section \<open>Error numbers and open files\<close>

abbreviation (input) ERROR :: int where "ERROR \<equiv> 99"
abbreviation (input) EPERM :: int where "EPERM \<equiv> 1"
abbreviation (input) ENOENT :: int where "ENOENT \<equiv> 2"
abbreviation (input) ESRCH :: int where "ESRCH \<equiv> 3"
abbreviation (input) EINTR :: int where "EINTR \<equiv> 4"
abbreviation (input) EIO :: int where "EIO \<equiv> 5"
abbreviation (input) E2BIG :: int where "E2BIG \<equiv> 7"
abbreviation (input) ENOEXEC :: int where "ENOEXEC \<equiv> 8"
abbreviation (input) EBADF :: int where "EBADF \<equiv> 9"
abbreviation (input) ECHILD :: int where "ECHILD \<equiv> 10"
abbreviation (input) EAGAIN :: int where "EAGAIN \<equiv> 11"
abbreviation (input) ENOMEM :: int where "ENOMEM \<equiv> 12"
abbreviation (input) EACCES :: int where "EACCES \<equiv> 13"
abbreviation (input) ENOTBLK :: int where "ENOTBLK \<equiv> 15"
abbreviation (input) EBUSY :: int where "EBUSY \<equiv> 16"
abbreviation (input) EEXIST :: int where "EEXIST \<equiv> 17"
abbreviation (input) EXDEV :: int where "EXDEV \<equiv> 18"
abbreviation (input) ENODEV :: int where "ENODEV \<equiv> 19"
abbreviation (input) ENOTDIR :: int where "ENOTDIR \<equiv> 20"
abbreviation (input) EISDIR :: int where "EISDIR \<equiv> 21"
abbreviation (input) EINVAL :: int where "EINVAL \<equiv> 22"
abbreviation (input) EMFILE :: int where "EMFILE \<equiv> 24"
abbreviation (input) ENOTTY :: int where "ENOTTY \<equiv> 25"
abbreviation (input) ENOSPC :: int where "ENOSPC \<equiv> 28"
abbreviation (input) ESPIPE :: int where "ESPIPE \<equiv> 29"
abbreviation (input) ENOSYS :: int where "ENOSYS \<equiv> 38"
abbreviation (input) ENOTEMPTY :: int where "ENOTEMPTY \<equiv> 39"

abbreviation (input) O_ACCMODE :: u16 where "O_ACCMODE \<equiv> 3"
abbreviation (input) O_WRONLY :: u16 where "O_WRONLY \<equiv> 1"
abbreviation (input) O_CREAT :: u16 where "O_CREAT \<equiv> 0x40"
abbreviation (input) O_EXCL :: u16 where "O_EXCL \<equiv> 0x80"
abbreviation (input) O_TRUNC :: u16 where "O_TRUNC \<equiv> 0x200"
abbreviation (input) O_APPEND :: u16 where "O_APPEND \<equiv> 0x400"
abbreviation (input) O_NONBLOCK :: u16 where "O_NONBLOCK \<equiv> 0x800"

definition fil :: "'z fs_state_scheme \<Rightarrow> nat \<Rightarrow> file_struct" where
  "fil s f = file_table s ! f"

definition upd_fil ::
  "nat \<Rightarrow> (file_struct \<Rightarrow> file_struct) \<Rightarrow> 'z fs_state_scheme \<Rightarrow> 'z fs_state_scheme" where
  "upd_fil i f s = s\<lparr>file_table := upd_nth i f (file_table s)\<rparr>"

text \<open>The file behind a descriptor of the running task; descriptors are unsigned.\<close>

definition fd_file :: "'z fs_state_scheme \<Rightarrow> nat \<Rightarrow> nat option" where
  "fd_file s fd = (if fd \<ge> NR_OPEN then None else t_filp (cur s) ! fd)"

definition set_fd :: "nat \<Rightarrow> nat option \<Rightarrow> (unit, 'z fs_state_scheme) kern" where
  "set_fd fd f = upd_cur (\<lambda>t. t\<lparr>t_filp := (t_filp t)[fd := f]\<rparr>)"

section \<open>User memory\<close>

primrec verify_pages :: "nat \<Rightarrow> u32 \<Rightarrow> int \<Rightarrow> (unit, 'z sched_state_scheme) kern" where
  "verify_pages 0 start sz = skip"
| "verify_pages (Suc n) start sz =
     (if sz > 0 then kseq (write_verify start) (verify_pages n (start + 4096) (sz - 4096)) else skip)"

definition verify_area :: "u32 \<Rightarrow> int \<Rightarrow> (unit, 'z sched_state_scheme) kern" where
  "verify_area addr sz =
     kbind (gets (\<lambda>s. get_base (t_ldt (cur s) ! 2))) (\<lambda>base.
     let sz' = sz + uint (addr AND 0xfff) in
     verify_pages (nat sz') ((addr AND 0xfffff000) + base) sz')"

text \<open>The copying loops: \<open>n\<close> bytes from or to user memory.\<close>

definition user_bytes :: "'z sched_state_scheme \<Rightarrow> u32 \<Rightarrow> nat \<Rightarrow> u8 list" where
  "user_bytes s a n = map (\<lambda>k. umem s (a + of_nat k)) [0..<n]"

definition put_user :: "u32 \<Rightarrow> u8 list \<Rightarrow> (unit, 'z sched_state_scheme) kern" where
  "put_user a bs = modify (\<lambda>s. s\<lparr>umem := fold (\<lambda>k m. m(a + of_nat k := bs ! k)) [0..<length bs] (umem s)\<rparr>)"

definition slice :: "nat \<Rightarrow> nat \<Rightarrow> 'a list \<Rightarrow> 'a list" where
  "slice off n xs = take n (drop off xs)"

section \<open>Block devices\<close>

text \<open>Each pass handles at least one byte, so \<open>count\<close> bounds the number of passes.\<close>

primrec block_write_loop ::
  "nat \<Rightarrow> 'z fs_state_scheme ctx \<Rightarrow> u16 \<Rightarrow> nat \<Rightarrow> int \<Rightarrow> int \<Rightarrow> u32 \<Rightarrow> int \<Rightarrow> int \<Rightarrow>
   (int, 'z fs_state_scheme) kern" where
  "block_write_loop 0 K dev f block offset ubuf count written = ret written"
| "block_write_loop (Suc n) K dev f block offset ubuf count written =
     (if count \<le> 0 then ret written
      else let chars = min (1024 - offset) count in
        kbind (if chars = 1024 then kbind (getblk K dev (word_of_int block)) (\<lambda>b. ret (Some b))
               else breada K dev (word_of_int block) [word_of_int (block + 1), word_of_int (block + 2)]) (\<lambda>bh.
        case bh of
          None \<Rightarrow> ret (if written \<noteq> 0 then written else - EIO)
        | Some bh \<Rightarrow>
            kseq (modify (upd_fil f (\<lambda>x. x\<lparr>f_pos := f_pos x + chars\<rparr>)))
           (kseq (modify (\<lambda>s. upd_buf bh (\<lambda>b.
                    b\<lparr>b_data := overlay (nat offset) (user_bytes s ubuf (nat chars)) (b_data b), b_dirt := 1\<rparr>) s))
           (kseq (brelse (Some bh))
                 (block_write_loop n K dev f (block + 1) 0 (ubuf + word_of_int chars)
                    (count - chars) (written + chars))))))"

definition block_write ::
  "'z fs_state_scheme ctx \<Rightarrow> u16 \<Rightarrow> nat \<Rightarrow> u32 \<Rightarrow> int \<Rightarrow> (int, 'z fs_state_scheme) kern" where
  "block_write K dev f ubuf count =
     kbind (gets (\<lambda>s. f_pos (fil s f))) (\<lambda>pos.
     block_write_loop (nat count) K dev f (pos div 1024) (pos mod 1024) ubuf count 0)"

primrec block_read_loop ::
  "nat \<Rightarrow> 'z fs_state_scheme ctx \<Rightarrow> u16 \<Rightarrow> nat \<Rightarrow> int \<Rightarrow> int \<Rightarrow> u32 \<Rightarrow> int \<Rightarrow> int \<Rightarrow>
   (int, 'z fs_state_scheme) kern" where
  "block_read_loop 0 K dev f block offset ubuf count got = ret got"
| "block_read_loop (Suc n) K dev f block offset ubuf count got =
     (if count \<le> 0 then ret got
      else let chars = min (1024 - offset) count in
        kbind (breada K dev (word_of_int block) [word_of_int (block + 1), word_of_int (block + 2)]) (\<lambda>bh.
        case bh of
          None \<Rightarrow> ret (if got \<noteq> 0 then got else - EIO)
        | Some bh \<Rightarrow>
            kseq (modify (upd_fil f (\<lambda>x. x\<lparr>f_pos := f_pos x + chars\<rparr>)))
           (kbind (gets (\<lambda>s. slice (nat offset) (nat chars) (b_data (buf s bh)))) (\<lambda>bs.
            kseq (put_user ubuf bs)
           (kseq (brelse (Some bh))
                 (block_read_loop n K dev f (block + 1) 0 (ubuf + word_of_int chars)
                    (count - chars) (got + chars)))))))"

definition block_read ::
  "'z fs_state_scheme ctx \<Rightarrow> u16 \<Rightarrow> nat \<Rightarrow> u32 \<Rightarrow> int \<Rightarrow> (int, 'z fs_state_scheme) kern" where
  "block_read K dev f ubuf count =
     kbind (gets (\<lambda>s. f_pos (fil s f))) (\<lambda>pos.
     block_read_loop (nat count) K dev f (pos div 1024) (pos mod 1024) ubuf count 0)"

section \<open>Regular files\<close>

text \<open>The loop of \<open>file_read\<close>: how many bytes are left when it ends. A hole reads as
  zeroes.\<close>

primrec file_read_loop ::
  "nat \<Rightarrow> 'z fs_state_scheme ctx \<Rightarrow> nat \<Rightarrow> nat \<Rightarrow> u32 \<Rightarrow> int \<Rightarrow> (int, 'z fs_state_scheme) kern" where
  "file_read_loop 0 K i f ubuf left = ret left"
| "file_read_loop (Suc n) K i f ubuf left =
     (if left = 0 then ret 0
      else kbind (gets (\<lambda>s. f_pos (fil s f))) (\<lambda>pos.
        kbind (get_diskBlock K i (cdiv pos 1024)) (\<lambda>nr.
        kbind (if nr \<noteq> 0 then kbind (gets (\<lambda>s. i_dev (ino s i))) (\<lambda>dev. bread K dev (word_of_int nr))
               else ret None) (\<lambda>bh.
        if nr \<noteq> 0 \<and> bh = None then ret left
        else kbind (gets (\<lambda>s. f_pos (fil s f))) (\<lambda>pos.
          let off = crem pos 1024; chars = min (1024 - off) left in
          kseq (modify (upd_fil f (\<lambda>x. x\<lparr>f_pos := f_pos x + chars\<rparr>)))
         (kseq (case bh of
                  Some bh \<Rightarrow>
                    kbind (gets (\<lambda>s. slice (nat off) (nat chars) (b_data (buf s bh)))) (\<lambda>bs.
                    kseq (put_user ubuf bs) (brelse (Some bh)))
                | None \<Rightarrow> put_user ubuf (replicate (nat chars) 0))
               (file_read_loop n K i f (ubuf + word_of_int chars) (left - chars))))))))"

definition file_read ::
  "'z fs_state_scheme ctx \<Rightarrow> nat \<Rightarrow> nat \<Rightarrow> u32 \<Rightarrow> int \<Rightarrow> (int, 'z fs_state_scheme) kern" where
  "file_read K i f ubuf count =
     (if count \<le> 0 then ret 0
      else kbind (file_read_loop (nat count) K i f ubuf count) (\<lambda>left.
        kseq (modify (\<lambda>s. upd_ino i (\<lambda>n. n\<lparr>i_atime := word_of_int (CURRENT_TIME s)\<rparr>) s))
             (ret (if count - left \<noteq> 0 then count - left else - ERROR))))"

text \<open>The loop of \<open>file_write\<close>: the position and the number of bytes written. The length
  of the file is compared as an unsigned number.\<close>

primrec file_write_loop ::
  "nat \<Rightarrow> 'z fs_state_scheme ctx \<Rightarrow> nat \<Rightarrow> u32 \<Rightarrow> int \<Rightarrow> int \<Rightarrow> int \<Rightarrow>
   (int \<times> int, 'z fs_state_scheme) kern" where
  "file_write_loop 0 K i ubuf count pos k = ret (pos, k)"
| "file_write_loop (Suc n) K i ubuf count pos k =
     (if k \<ge> count then ret (pos, k)
      else kbind (create_diskBlock K i (cdiv pos 1024)) (\<lambda>block.
        if block = 0 then ret (pos, k)
        else kbind (gets (\<lambda>s. i_dev (ino s i))) (\<lambda>dev.
          kbind (bread K dev (word_of_int block)) (\<lambda>bh.
          case bh of
            None \<Rightarrow> ret (pos, k)
          | Some bh \<Rightarrow>
              let off = crem pos 1024; c = min (1024 - off) (count - k); pos' = pos + c in
              kseq (modify (upd_ino i (\<lambda>n. if (word_of_int pos' :: u32) > i_size n
                      then n\<lparr>i_size := word_of_int pos', i_dirt := 1\<rparr> else n)))
             (kseq (modify (\<lambda>s. upd_buf bh (\<lambda>b.
                      b\<lparr>b_data := overlay (nat off) (user_bytes s ubuf (nat c)) (b_data b), b_dirt := 1\<rparr>) s))
             (kseq (brelse (Some bh))
                   (file_write_loop n K i (ubuf + word_of_int c) count pos' (k + c))))))))"

definition file_write ::
  "'z fs_state_scheme ctx \<Rightarrow> nat \<Rightarrow> nat \<Rightarrow> u32 \<Rightarrow> int \<Rightarrow> (int, 'z fs_state_scheme) kern" where
  "file_write K i f ubuf count =
     kbind (gets (\<lambda>s. if f_flags (fil s f) AND O_APPEND \<noteq> 0 then sint (i_size (ino s i)) else f_pos (fil s f))) (\<lambda>pos.
     kbind (file_write_loop (nat count) K i ubuf count pos 0) (\<lambda>r.
     kseq (modify (\<lambda>s. upd_ino i (\<lambda>n. n\<lparr>i_mtime := word_of_int (CURRENT_TIME s)\<rparr>) s))
    (kseq (modify (\<lambda>s. if f_flags (fil s f) AND O_APPEND = 0
             then upd_ino i (\<lambda>n. n\<lparr>i_ctime := word_of_int (CURRENT_TIME s)\<rparr>)
                    (upd_fil f (\<lambda>x. x\<lparr>f_pos := fst r\<rparr>) s)
             else s))
          (ret (if snd r \<noteq> 0 then snd r else - 1)))))"

section \<open>Pipes\<close>

text \<open>The page of a pipe lies in kernel memory, which is an array of longs; a byte of it.\<close>

definition ld8 :: "(u32 \<Rightarrow> u32) \<Rightarrow> u32 \<Rightarrow> u8" where
  "ld8 m a = ucast (drop_bit (8 * unat (a AND 3)) (m (a AND NOT 3)))"

definition st8 :: "u32 \<Rightarrow> u8 \<Rightarrow> (u32 \<Rightarrow> u32) \<Rightarrow> (u32 \<Rightarrow> u32)" where
  "st8 a v m = m(a AND NOT 3 :=
     (m (a AND NOT 3) AND NOT (push_bit (8 * unat (a AND 3)) 0xff)) OR push_bit (8 * unat (a AND 3)) (ucast v))"

definition ld_bytes :: "(u32 \<Rightarrow> u32) \<Rightarrow> u32 \<Rightarrow> nat \<Rightarrow> u8 list" where
  "ld_bytes m a n = map (\<lambda>k. ld8 m (a + of_nat k)) [0..<n]"

definition st_bytes :: "u32 \<Rightarrow> u8 list \<Rightarrow> (u32 \<Rightarrow> u32) \<Rightarrow> (u32 \<Rightarrow> u32)" where
  "st_bytes a bs m = fold (\<lambda>k m. st8 (a + of_nat k) (bs ! k) m) [0..<length bs] m"

definition PIPE_HEAD :: "m_inode \<Rightarrow> u16" where "PIPE_HEAD n = i_zone n ! 0"
definition PIPE_TAIL :: "m_inode \<Rightarrow> u16" where "PIPE_TAIL n = i_zone n ! 1"

definition PIPE_SIZE :: "m_inode \<Rightarrow> int" where
  "PIPE_SIZE n = (uint (PIPE_HEAD n) - uint (PIPE_TAIL n)) mod 4096"

text \<open>One transfer out of the pipe, up to the end of the page; how many bytes.\<close>

definition pipe_take :: "nat \<Rightarrow> u32 \<Rightarrow> int \<Rightarrow> (int, 'z fs_state_scheme) kern" where
  "pipe_take i ubuf count =
     kbind (gets (\<lambda>s. ino s i)) (\<lambda>n.
     let tail = PIPE_TAIL n; chars = min (PIPE_SIZE n) (min count (4096 - uint tail)) in
     kseq (modify (upd_ino i (\<lambda>n. n\<lparr>i_zone := (i_zone n)[1 := (tail + word_of_int chars) AND 4095]\<rparr>)))
    (kbind (gets (\<lambda>s. ld_bytes (mem s) (i_size n + ucast tail) (nat chars))) (\<lambda>bs.
     kseq (put_user ubuf bs) (ret chars))))"

primrec read_pipe_loop ::
  "nat \<Rightarrow> nat \<Rightarrow> u32 \<Rightarrow> int \<Rightarrow> int \<Rightarrow> (int, 'z fs_state_scheme) kern" where
  "read_pipe_loop 0 i ubuf count got = kloops"
| "read_pipe_loop (Suc fuel) i ubuf count got =
     (if count \<le> 0 then kseq (wake_up_last (iwait_queue i)) (ret got)
      else kbind (gets (\<lambda>s. ino s i)) (\<lambda>n.
        if PIPE_SIZE n = 0 then
          kseq (wake_up_last (iwait_queue i))
         (kbind (gets (\<lambda>s. i_count (ino s i))) (\<lambda>c.
          if c \<noteq> 2 then ret got
          else kseq (sleep_on (iwait_queue i)) (read_pipe_loop fuel i ubuf count got)))
        else kbind (pipe_take i ubuf count) (\<lambda>chars.
          read_pipe_loop fuel i (ubuf + word_of_int chars) (count - chars) (got + chars))))"

definition read_pipe :: "nat \<Rightarrow> nat \<Rightarrow> u32 \<Rightarrow> int \<Rightarrow> (int, 'z fs_state_scheme) kern" where
  "read_pipe fuel i ubuf count = read_pipe_loop fuel i ubuf count 0"

text \<open>One transfer into the pipe: at most up to the end of the page, leaving one byte of it
  unused.\<close>

definition pipe_put :: "nat \<Rightarrow> u32 \<Rightarrow> int \<Rightarrow> (int, 'z fs_state_scheme) kern" where
  "pipe_put i ubuf count =
     kbind (gets (\<lambda>s. ino s i)) (\<lambda>n.
     let head = PIPE_HEAD n; chars = min (4095 - PIPE_SIZE n) (min count (4096 - uint head)) in
     kseq (modify (upd_ino i (\<lambda>n. n\<lparr>i_zone := (i_zone n)[0 := (head + word_of_int chars) AND 4095]\<rparr>)))
    (kseq (modify (\<lambda>s. s\<lparr>mem := st_bytes (i_size n + ucast head) (user_bytes s ubuf (nat chars)) (mem s)\<rparr>))
          (ret chars)))"

primrec write_pipe_loop ::
  "nat \<Rightarrow> nat \<Rightarrow> u32 \<Rightarrow> int \<Rightarrow> int \<Rightarrow> (int, 'z fs_state_scheme) kern" where
  "write_pipe_loop 0 i ubuf count written = kloops"
| "write_pipe_loop (Suc fuel) i ubuf count written =
     (if count \<le> 0 then kseq (wake_up_last (iwait_queue i)) (ret written)
      else kbind (gets (\<lambda>s. ino s i)) (\<lambda>n.
        if PIPE_SIZE n = 4095 then
          kseq (wake_up_last (iwait_queue i))
         (kbind (gets (\<lambda>s. i_count (ino s i))) (\<lambda>c.
          if c \<noteq> 2 then
            kseq (upd_cur (\<lambda>t. t\<lparr>t_signal := t_signal t OR S_bit SIGPIPE\<rparr>))
                 (ret (if written \<noteq> 0 then written else - 1))
          else kseq (sleep_on (iwait_queue i)) (write_pipe_loop fuel i ubuf count written)))
        else kbind (pipe_put i ubuf count) (\<lambda>chars.
          write_pipe_loop fuel i (ubuf + word_of_int chars) (count - chars) (written + chars))))"

definition write_pipe :: "nat \<Rightarrow> nat \<Rightarrow> u32 \<Rightarrow> int \<Rightarrow> (int, 'z fs_state_scheme) kern" where
  "write_pipe fuel i ubuf count = write_pipe_loop fuel i ubuf count 0"

text \<open>\<open>sys_pipe\<close>: the first two free files and the first two free descriptors, given back
  when there are not two of each or there is no inode.\<close>

definition first_two :: "(nat \<Rightarrow> bool) \<Rightarrow> nat \<Rightarrow> nat list" where
  "first_two p n = take 2 (filter p [0..<n])"

definition sys_pipe :: "'z fs_state_scheme ctx \<Rightarrow> u32 \<Rightarrow> (int, 'z fs_state_scheme) kern" where
  "sys_pipe K fildes =
     kbind (gets (\<lambda>s. first_two (\<lambda>k. f_count (fil s k) = 0) NR_FILE)) (\<lambda>fs.
     if length fs < 2 then ret (- 1)
     else let f0 = fs ! 0; f1 = fs ! 1;
              drop_files = kseq (modify (upd_fil f0 (\<lambda>x. x\<lparr>f_count := 0\<rparr>))) (modify (upd_fil f1 (\<lambda>x. x\<lparr>f_count := 0\<rparr>))) in
       kseq (modify (upd_fil f0 (\<lambda>x. x\<lparr>f_count := f_count x + 1\<rparr>)))
      (kseq (modify (upd_fil f1 (\<lambda>x. x\<lparr>f_count := f_count x + 1\<rparr>)))
      (kbind (gets (\<lambda>s. first_two (\<lambda>k. t_filp (cur s) ! k = None) NR_OPEN)) (\<lambda>fds.
       if length fds < 2 then kseq drop_files (ret (- 1))
       else let d0 = fds ! 0; d1 = fds ! 1 in
         kseq (set_fd d0 (Some f0))
        (kseq (set_fd d1 (Some f1))
        (kbind (get_pipe_inode K) (\<lambda>inode.
         case inode of
           None \<Rightarrow> kseq (kblock [set_fd d0 None, set_fd d1 None, drop_files]) (ret (- 1))
         | Some i \<Rightarrow>
             kseq (modify (upd_fil f0 (\<lambda>x. x\<lparr>f_inode := Some i, f_pos := 0, f_mode := 1\<rparr>)))
            (kseq (modify (upd_fil f1 (\<lambda>x. x\<lparr>f_inode := Some i, f_pos := 0, f_mode := 2\<rparr>)))
            (kseq (put_fs_long (of_nat d0) fildes)
            (kseq (put_fs_long (of_nat d1) (fildes + 4))
                  (ret 0)))))))))))"

section \<open>Character devices\<close>

type_synonym 's tty_io = "int \<Rightarrow> nat \<Rightarrow> u32 \<Rightarrow> int \<Rightarrow> (int, 's) kern"

definition rw_ttyx ::
  "'s tty_io \<Rightarrow> int \<Rightarrow> nat \<Rightarrow> u32 \<Rightarrow> int \<Rightarrow> (int, 's) kern" where
  "rw_ttyx tty_rw rw minor ubuf count = tty_rw rw minor ubuf count"

definition rw_tty ::
  "'z fs_state_scheme tty_io \<Rightarrow> int \<Rightarrow> u32 \<Rightarrow> int \<Rightarrow> (int, 'z fs_state_scheme) kern" where
  "rw_tty tty_rw rw ubuf count =
     kbind (gets (\<lambda>s. t_tty (cur s))) (\<lambda>t.
     if t < 0 then ret (- EPERM) else rw_ttyx tty_rw rw (nat t) ubuf count)"

primrec rw_port_loop :: "nat \<Rightarrow> int \<Rightarrow> u32 \<Rightarrow> int \<Rightarrow> (int, 'z fs_state_scheme) kern" where
  "rw_port_loop 0 rw ubuf i = ret i"
| "rw_port_loop (Suc n) rw ubuf i =
     (if i \<ge> 65536 then ret i
      else kseq (if rw = READ then kbind (gets (\<lambda>s. port_in s (word_of_int i))) (\<lambda>v. put_fs_byte v ubuf)
                 else kbind (get_fs_byte ubuf) (\<lambda>v. outb v (word_of_int i)))
                (rw_port_loop n rw (ubuf + 1) (i + 1)))"

definition rw_port :: "int \<Rightarrow> u32 \<Rightarrow> int \<Rightarrow> nat \<Rightarrow> (int, 'z fs_state_scheme) kern" where
  "rw_port rw ubuf count f =
     kbind (gets (\<lambda>s. f_pos (fil s f))) (\<lambda>pos.
     kbind (rw_port_loop (nat count) rw ubuf pos) (\<lambda>i.
     kseq (modify (upd_fil f (\<lambda>x. x\<lparr>f_pos := pos + (i - pos)\<rparr>)))
          (ret (i - pos))))"

definition rw_memory :: "int \<Rightarrow> nat \<Rightarrow> u32 \<Rightarrow> int \<Rightarrow> nat \<Rightarrow> (int, 'z fs_state_scheme) kern" where
  "rw_memory rw minor ubuf count f =
     (if minor = 0 \<or> minor = 1 \<or> minor = 2 then ret (- EIO)
      else if minor = 3 then ret (if rw = READ then 0 else count)
      else if minor = 4 then rw_port rw ubuf count f
      else ret (- EIO))"

definition rw_char ::
  "'z fs_state_scheme tty_io \<Rightarrow> int \<Rightarrow> u16 \<Rightarrow> u32 \<Rightarrow> int \<Rightarrow> nat \<Rightarrow> (int, 'z fs_state_scheme) kern" where
  "rw_char tty_rw rw dev ubuf count f =
     (if MAJOR dev = 1 then rw_memory rw (MINOR dev) ubuf count f
      else if MAJOR dev = 4 then rw_ttyx tty_rw rw (MINOR dev) ubuf count
      else if MAJOR dev = 5 then rw_tty tty_rw rw ubuf count
      else ret (- ENODEV))"

section \<open>The system calls\<close>

definition IS_SEEKABLE :: "nat \<Rightarrow> bool" where
  "IS_SEEKABLE x \<longleftrightarrow> x \<ge> 1 \<and> x \<le> 3"

definition sys_lseek :: "nat \<Rightarrow> int \<Rightarrow> int \<Rightarrow> (int, 'z fs_state_scheme) kern" where
  "sys_lseek fd offset origin =
     kbind (gets (\<lambda>s. fd_file s fd)) (\<lambda>x.
     case x of
       None \<Rightarrow> ret (- EBADF)
     | Some f \<Rightarrow>
         kbind (gets (\<lambda>s. f_inode (fil s f))) (\<lambda>y.
         case y of
           None \<Rightarrow> ret (- EBADF)
         | Some i \<Rightarrow>
             kbind (gets (\<lambda>s. (fil s f, ino s i))) (\<lambda>z.
             let file = fst z; n = snd z;
                 set_pos = (\<lambda>p. kseq (modify (upd_fil f (\<lambda>x. x\<lparr>f_pos := p\<rparr>))) (ret p));
                 tmp = sint (i_size n + word_of_int offset) in
             if \<not> IS_SEEKABLE (MAJOR (i_dev n)) then ret (- EBADF)
             else if i_pipe n \<noteq> 0 then ret (- ESPIPE)
             else if origin = 0 then (if offset < 0 then ret (- EINVAL) else set_pos offset)
             else if origin = 1 then
               (if s32 (f_pos file + offset) < 0 then ret (- EINVAL) else set_pos (s32 (f_pos file + offset)))
             else if origin = 2 then (if tmp < 0 then ret (- EINVAL) else set_pos tmp)
             else ret (- EINVAL))))"

definition sys_read ::
  "'z fs_state_scheme ctx \<Rightarrow> 'z fs_state_scheme tty_io \<Rightarrow> nat \<Rightarrow> u32 \<Rightarrow> int \<Rightarrow> (int, 'z fs_state_scheme) kern" where
  "sys_read K tty_rw fd ubuf count =
     kbind (gets (\<lambda>s. fd_file s fd)) (\<lambda>x.
     case x of
       None \<Rightarrow> ret (- EINVAL)
     | Some f \<Rightarrow>
         if count < 0 then ret (- EINVAL)
         else if count = 0 then ret 0
         else kseq (verify_area ubuf count)
          (kbind (gets (\<lambda>s. f_inode (fil s f))) (\<lambda>y.
           case y of
             None \<Rightarrow> kfault
           | Some i \<Rightarrow>
               kbind (gets (\<lambda>s. (fil s f, ino s i))) (\<lambda>z.
               let file = fst z; n = snd z; mode = i_mode n in
               if i_pipe n \<noteq> 0 then
                 (if f_mode file AND 1 \<noteq> 0 then read_pipe (fst K) i ubuf count else ret (- EIO))
               else if S_ISCHR mode then rw_char tty_rw READ (i_zone n ! 0) ubuf count f
               else if S_ISBLK mode then block_read K (i_zone n ! 0) f ubuf count
               else if S_ISDIR mode \<or> S_ISREG mode then
                 let count' = (if (word_of_int (count + f_pos file) :: u32) > i_size n
                               then sint (i_size n - word_of_int (f_pos file)) else count) in
                 if count' \<le> 0 then ret 0 else file_read K i f ubuf count'
               else kseq (printk ''(Read)inode->i_mode=%06o'' [uint mode]) (ret (- EINVAL))))))"

definition sys_write ::
  "'z fs_state_scheme ctx \<Rightarrow> 'z fs_state_scheme tty_io \<Rightarrow> nat \<Rightarrow> u32 \<Rightarrow> int \<Rightarrow> (int, 'z fs_state_scheme) kern" where
  "sys_write K tty_rw fd ubuf count =
     kbind (gets (\<lambda>s. fd_file s fd)) (\<lambda>x.
     case x of
       None \<Rightarrow> ret (- EINVAL)
     | Some f \<Rightarrow>
         if count < 0 then ret (- EINVAL)
         else if count = 0 then ret 0
         else kbind (gets (\<lambda>s. f_inode (fil s f))) (\<lambda>y.
           case y of
             None \<Rightarrow> kfault
           | Some i \<Rightarrow>
               kbind (gets (\<lambda>s. (fil s f, ino s i))) (\<lambda>z.
               let file = fst z; n = snd z; mode = i_mode n in
               if i_pipe n \<noteq> 0 then
                 (if f_mode file AND 2 \<noteq> 0 then write_pipe (fst K) i ubuf count else ret (- EIO))
               else if S_ISCHR mode then rw_char tty_rw WRITE (i_zone n ! 0) ubuf count f
               else if S_ISBLK mode then block_write K (i_zone n ! 0) f ubuf count
               else if S_ISREG mode then file_write K i f ubuf count
               else kseq (printk ''(Write)inode->i_mode=%06o'' [uint mode]) (ret (- EINVAL)))))"

section \<open>A pipe is a queue\<close>

text \<open>Bytes of an array of longs behave like bytes.\<close>

lemma and3: "(a :: u32) AND 3 = b AND 3 \<Longrightarrow> a AND NOT 3 = b AND NOT 3 \<Longrightarrow> a = b"
proof -
  have "w = (w AND c) OR (w AND NOT c)" for w c :: u32
    by (rule bit_word_eqI) (auto simp: bit_or_iff bit_and_iff bit_not_iff)
  then show "a AND 3 = b AND 3 \<Longrightarrow> a AND NOT 3 = b AND NOT 3 \<Longrightarrow> a = b" by metis
qed

lemma ld8_bits: "bit (ld8 m a) k \<longleftrightarrow> k < 8 \<and> bit (m (a AND NOT 3)) (8 * unat (a AND 3) + k)"
  by (simp add: ld8_def bit_ucast_iff bit_drop_bit_eq)

lemma unat_and_3: "unat (a AND 3 :: u32) < 4"
proof -
  have "a AND 3 \<le> 3" by (rule word_and_le1)
  then have "unat (a AND 3) \<le> unat (3 :: u32)" by (simp add: word_le_nat_alt)
  then show ?thesis by simp
qed

lemma ld8_st8: "ld8 (st8 a v m) b = (if a = b then v else ld8 m b)"
proof (rule bit_word_eqI)
  fix k :: nat
  assume "k < LENGTH(8)"
  then have k: "k < 8" by simp
  let ?i = "8 * unat (a AND 3)" and ?j = "8 * unat (b AND 3)"
  have ij: "?i < 32" "?j + k < 32" using unat_and_3 [of a] unat_and_3 [of b] k by simp_all
  have stored: "bit ((m w AND NOT (push_bit ?i 0xff)) OR push_bit ?i (ucast v) :: u32) n \<longleftrightarrow>
      (if ?i \<le> n \<and> n < ?i + 8 then bit v (n - ?i) else bit (m w) n)" if "n < 32" for n w
  proof -
    have "bit (0xff :: u32) q \<longleftrightarrow> q < 8" if "q < 32" for q
      using bit_mask_iff [of 8 q, where ?'a = u32] that by (auto simp: mask_eq_exp_minus_1)
    moreover have "bit (ucast v :: u32) q \<longleftrightarrow> bit v q" if "q < 32" for q
      using that by (simp add: bit_ucast_iff)
    moreover have "\<not> bit v q" if "8 \<le> q" for q using that bit_imp_le_length [of v q] by auto
    moreover have "n - ?i < 8 \<longleftrightarrow> n < ?i + 8" by arith
    ultimately show ?thesis using that
      by (cases "?i \<le> n"; cases "n < ?i + 8") (simp_all add: bit_or_iff bit_and_iff bit_not_iff bit_push_bit_iff)
  qed
  show "bit (ld8 (st8 a v m) b) k = bit (if a = b then v else ld8 m b) k"
  proof (cases "a AND NOT 3 = b AND NOT 3")
    case False
    then have "a \<noteq> b" by auto
    then show ?thesis using False k by (simp add: ld8_bits st8_def)
  next
    case True
    have "bit (ld8 (st8 a v m) b) k \<longleftrightarrow> (if ?i \<le> ?j + k \<and> ?j + k < ?i + 8 then bit v (?j + k - ?i) else bit (m (b AND NOT 3)) (?j + k))"
      using True k ij by (simp add: ld8_bits st8_def stored)
    moreover have "?i \<le> ?j + k \<and> ?j + k < ?i + 8 \<longleftrightarrow> unat (a AND 3) = unat (b AND 3)" using k by auto
    moreover have "unat (a AND 3) = unat (b AND 3) \<longleftrightarrow> a = b"
      using True and3 [of a b] word_unat_eq_iff [of "a AND 3" "b AND 3"] by blast
    ultimately show ?thesis using k by (auto simp: ld8_bits)
  qed
qed


lemma st_bytes_nth:
  assumes "length bs \<le> 2 ^ 32"
  shows "ld8 (st_bytes a bs m) b = (if unat (b - a) < length bs then bs ! unat (b - a) else ld8 m b)"
proof -
  have "ld8 (fold (\<lambda>k m. st8 (a + of_nat k) (bs ! k) m) ks m) b =
      fold (\<lambda>i m. m(a + of_nat i := bs ! i)) ks (ld8 m) b" for ks
  proof (induction ks arbitrary: m)
    case (Cons k ks)
    have "ld8 (st8 (a + of_nat k) (bs ! k) m) = (ld8 m)(a + of_nat k := bs ! k)"
      by (rule ext) (simp add: ld8_st8)
    then show ?case using Cons by simp
  qed simp
  then show ?thesis by (simp add: st_bytes_def fold_store [OF assms])
qed

definition pipe_ok :: "nat \<Rightarrow> 'z fs_state_scheme \<Rightarrow> bool" where
  "pipe_ok i s \<longleftrightarrow> i < length (inode_table s) \<and> 2 \<le> length (i_zone (ino s i)) \<and>
     unat (PIPE_HEAD (ino s i)) < 4096 \<and> unat (PIPE_TAIL (ino s i)) < 4096"

definition pipe_cell :: "nat \<Rightarrow> 'z fs_state_scheme \<Rightarrow> nat \<Rightarrow> u8" where
  "pipe_cell i s k = ld8 (mem s) (i_size (ino s i) + of_nat k)"

text \<open>The bytes in a pipe.\<close>

definition pipe_contents :: "nat \<Rightarrow> 'z fs_state_scheme \<Rightarrow> u8 list" where
  "pipe_contents i s = ring 4096 (pipe_cell i s) (unat (PIPE_TAIL (ino s i))) (unat (PIPE_HEAD (ino s i)))"

text \<open>What one transfer does to the pipe.\<close>

definition pipe_store :: "nat \<Rightarrow> u8 list \<Rightarrow> 'z fs_state_scheme \<Rightarrow> 'z fs_state_scheme" where
  "pipe_store i bs s = (upd_ino i (\<lambda>n. n\<lparr>i_zone := (i_zone n)[0 := (PIPE_HEAD (ino s i) + of_nat (length bs)) AND 4095]\<rparr>) s)
     \<lparr>mem := st_bytes (i_size (ino s i) + ucast (PIPE_HEAD (ino s i))) bs (mem s)\<rparr>"

definition pipe_drop :: "nat \<Rightarrow> nat \<Rightarrow> 'z fs_state_scheme \<Rightarrow> 'z fs_state_scheme" where
  "pipe_drop i n s = upd_ino i (\<lambda>x. x\<lparr>i_zone := (i_zone x)[1 := (PIPE_TAIL (ino s i) + of_nat n) AND 4095]\<rparr>) s"

definition pipe_front :: "nat \<Rightarrow> nat \<Rightarrow> 'z fs_state_scheme \<Rightarrow> u8 list" where
  "pipe_front i n s = ld_bytes (mem s) (i_size (ino s i) + ucast (PIPE_TAIL (ino s i))) n"

fun pipe_allowed :: "nat \<Rightarrow> 'z fs_state_scheme \<Rightarrow> u8 qop \<Rightarrow> bool" where
  "pipe_allowed i s (Put bs) \<longleftrightarrow>
     length bs + length (pipe_contents i s) < 4096 \<and> unat (PIPE_HEAD (ino s i)) + length bs \<le> 4096"
| "pipe_allowed i s (Get n) \<longleftrightarrow>
     n \<le> length (pipe_contents i s) \<and> unat (PIPE_TAIL (ino s i)) + n \<le> 4096"

lemma ino_upd_ino [simp]:
  "i < length (inode_table s) \<Longrightarrow> ino (upd_ino i f s) i = f (ino s i)"
  "length (inode_table (upd_ino i f s)) = length (inode_table s)"
  "ino (s\<lparr>mem := m\<rparr>) = ino s" "mem (upd_ino i f s) = mem s"
  by (simp_all add: ino_def upd_ino_def fun_eq_iff)

lemma wrap4096:
  assumes "unat (h :: u16) < 4096" and "unat h + n \<le> 4096"
  shows "unat ((h + of_nat n) AND 4095) = (unat h + n) mod 4096"
proof -
  have "(4095 :: u16) = mask 12" by (simp add: mask_eq_exp_minus_1)
  then have "unat ((h + of_nat n) AND 4095) = take_bit 12 (unat (h + of_nat n))"
    by (simp only: take_bit_eq_mask [symmetric] unsigned_take_bit_eq)
  moreover have "unat (h + of_nat n) = unat h + n"
    using assms by (simp add: unat_word_ariths unsigned_of_nat take_bit_nat_eq_self)
  ultimately show ?thesis by (simp add: take_bit_eq_mod)
qed

lemma ucast_of_nat_unat: "ucast (h :: u16) = (of_nat (unat h) :: u32)"
  by (rule bit_word_eqI) (simp add: bit_ucast_iff bit_of_nat_iff_bit bit_unsigned_iff)

lemma pipe_store_fifo:
  assumes "pipe_ok i s" and "pipe_allowed i s (Put bs)"
  shows "pipe_ok i (pipe_store i bs s)" and "pipe_contents i (pipe_store i bs s) = pipe_contents i s @ bs"
proof -
  let ?t = "pipe_store i bs s"
  define h where "h = unat (PIPE_HEAD (ino s i))"
  have ok: "i < length (inode_table s)" "2 \<le> length (i_zone (ino s i))" "h < 4096" "unat (PIPE_TAIL (ino s i)) < 4096"
    "i_zone (ino s i) \<noteq> []" using assms(1) by (auto simp: pipe_ok_def h_def)
  have bs: "length bs + length (pipe_contents i s) < 4096" "h + length bs \<le> 4096" using assms(2) by (simp_all add: h_def)
  have t: "unat (PIPE_HEAD (ino ?t i)) = (h + length bs) mod 4096" "PIPE_TAIL (ino ?t i) = PIPE_TAIL (ino s i)"
    "i_size (ino ?t i) = i_size (ino s i)" "length (i_zone (ino ?t i)) = length (i_zone (ino s i))"
    "length (inode_table ?t) = length (inode_table s)"
    using ok bs(2) wrap4096 [of "PIPE_HEAD (ino s i)" "length bs"]
    by (simp_all add: pipe_store_def PIPE_HEAD_def PIPE_TAIL_def h_def nth_list_update)
  show "pipe_ok i ?t" using ok t by (simp add: pipe_ok_def)
  have "pipe_cell i ?t k = (if h \<le> k \<and> k < h + length bs then bs ! (k - h) else pipe_cell i s k)" if k: "k < 4096" for k
  proof -
    have "unat (of_nat k - of_nat h :: u32) = (if h \<le> k then k - h else 2 ^ 32 + k - h)"
    proof (cases "h \<le> k")
      case True
      then have e: "of_nat k - of_nat h = (of_nat (k - h) :: u32)" by (simp add: of_nat_diff)
      show ?thesis using True k by (simp only: e unsigned_of_nat) (simp add: take_bit_nat_eq_self)
    next
      case False
      have "(of_nat (2 ^ 32 + k - h) :: u32) = of_nat (2 ^ 32 + k) - of_nat h" using ok(3) by (intro of_nat_diff) simp
      also have "\<dots> = of_nat k - of_nat h" by simp
      finally have e: "of_nat k - of_nat h = (of_nat (2 ^ 32 + k - h) :: u32)" by simp
      then show ?thesis using False ok(3) k by (simp only: e unsigned_of_nat) (simp add: take_bit_nat_eq_self)
    qed
    then show ?thesis
      using k bs(2) ok(3) t(3) st_bytes_nth [of bs "i_size (ino s i) + ucast (PIPE_HEAD (ino s i))" "mem s" "i_size (ino s i) + of_nat k"]
      by (auto simp: pipe_cell_def pipe_store_def ok(1) ucast_of_nat_unat h_def [symmetric])
  qed
  from ring_put [OF ok(4,3) _ bs(2) this] bs(1)
  show "pipe_contents i ?t = pipe_contents i s @ bs"
    by (simp add: pipe_contents_def t h_def)
qed

lemma pipe_drop_fifo:
  assumes "pipe_ok i s" and "pipe_allowed i s (Get n)"
  shows "pipe_ok i (pipe_drop i n s)" and "pipe_contents i s = pipe_front i n s @ pipe_contents i (pipe_drop i n s)"
proof -
  let ?t = "pipe_drop i n s"
  define t where "t = unat (PIPE_TAIL (ino s i))"
  have ok: "i < length (inode_table s)" "2 \<le> length (i_zone (ino s i))" "t < 4096" "unat (PIPE_HEAD (ino s i)) < 4096"
    using assms(1) by (simp_all add: pipe_ok_def t_def)
  have n: "n \<le> length (pipe_contents i s)" "t + n \<le> 4096" using assms(2) by (simp_all add: t_def)
  have u: "unat (PIPE_TAIL (ino ?t i)) = (t + n) mod 4096" "PIPE_HEAD (ino ?t i) = PIPE_HEAD (ino s i)"
    "i_size (ino ?t i) = i_size (ino s i)" "length (i_zone (ino ?t i)) = length (i_zone (ino s i))"
    "length (inode_table ?t) = length (inode_table s)" "pipe_cell i ?t = pipe_cell i s"
    using ok n(2) wrap4096 [of "PIPE_TAIL (ino s i)" n]
    by (simp_all add: pipe_drop_def PIPE_HEAD_def PIPE_TAIL_def t_def nth_list_update pipe_cell_def fun_eq_iff)
  show "pipe_ok i ?t" using ok u by (simp add: pipe_ok_def)
  have "pipe_front i n s = map (pipe_cell i s) [t..<t + n]"
    unfolding pipe_front_def ld_bytes_def pipe_cell_def ucast_of_nat_unat t_def [symmetric]
    by (rule nth_equalityI) (simp_all add: add.assoc)
  then show "pipe_contents i s = pipe_front i n s @ pipe_contents i ?t"
    using ring_get [OF ok(3,4), of n "pipe_cell i s"] n by (simp add: pipe_contents_def u t_def)
qed

interpretation pipe: fifo "pipe_ok i" "pipe_contents i" "pipe_allowed i" "pipe_store i" "pipe_front i" "pipe_drop i"
  by unfold_locales (fact pipe_store_fifo pipe_drop_fifo)+


lemma PIPE_SIZE_contents:
  assumes "pipe_ok i s"
  shows "PIPE_SIZE (ino s i) = int (length (pipe_contents i s))"
proof -
  let ?h = "unat (PIPE_HEAD (ino s i))" and ?t = "unat (PIPE_TAIL (ino s i))"
  have "(int ?h - int ?t) mod 4096 = (int ?h + 4096 - int ?t) mod 4096"
    using mod_add_self2 [of "int ?h - int ?t" 4096] by (simp add: algebra_simps)
  also have "\<dots> = int ((?h + 4096 - ?t) mod 4096)"
    using assms by (simp add: pipe_ok_def zmod_int of_nat_diff)
  finally show ?thesis by (simp add: PIPE_SIZE_def pipe_contents_def)
qed

lemma length_user_bytes [simp]: "length (user_bytes s a n) = n"
  by (simp add: user_bytes_def)

lemma uint_less_4096: "unat (w :: u16) < 4096 \<Longrightarrow> uint w < 4096"
proof -
  assume "unat w < 4096"
  then have "int (unat w) < int 4096" by (simp only: of_nat_less_iff)
  then show ?thesis by simp
qed

lemma pipe_put_run:
  assumes ok: "pipe_ok i s" and "0 \<le> count"
    and c: "chars = min (4095 - PIPE_SIZE (ino s i)) (min count (4096 - uint (PIPE_HEAD (ino s i))))"
  shows "pipe_put i ubuf count s es = Ok chars (pipe_store i (user_bytes s ubuf (nat chars)) s) es"
    and "pipe_allowed i s (Put (user_bytes s ubuf (nat chars)))" and "0 \<le> chars"
proof -
  have size: "PIPE_SIZE (ino s i) = int (length (pipe_contents i s))" by (rule PIPE_SIZE_contents [OF ok])
  have len: "length (pipe_contents i s) < 4096" by (simp add: pipe_contents_def)
  have head: "uint (PIPE_HEAD (ino s i)) = int (unat (PIPE_HEAD (ino s i)))" by simp
  show 0: "0 \<le> chars" using assms(2) len ok uint_less_4096 [of "PIPE_HEAD (ino s i)"] unfolding c size head
    by (simp add: pipe_ok_def)
  show "pipe_allowed i s (Put (user_bytes s ubuf (nat chars)))"
  proof -
    have "chars \<le> 4095 - int (length (pipe_contents i s))" "chars \<le> 4096 - int (unat (PIPE_HEAD (ino s i)))"
      unfolding c size head by simp_all
    then have "nat chars + length (pipe_contents i s) < 4096" "unat (PIPE_HEAD (ino s i)) + nat chars \<le> 4096"
      using 0 by linarith+
    then show ?thesis by simp
  qed
  have "word_of_int chars = (of_nat (nat chars) :: u16)" using 0 by simp
  then show "pipe_put i ubuf count s es = Ok chars (pipe_store i (user_bytes s ubuf (nat chars)) s) es"
    unfolding pipe_put_def Let_def
    by (simp add: kern_defs pipe_store_def user_bytes_def upd_ino_def flip: c)
qed

lemma pipe_take_run:
  assumes ok: "pipe_ok i s" and "0 \<le> count"
    and c: "chars = min (PIPE_SIZE (ino s i)) (min count (4096 - uint (PIPE_TAIL (ino s i))))"
  shows "pipe_take i ubuf count s es = Ok chars ((pipe_drop i (nat chars) s)\<lparr>umem :=
      fold (\<lambda>k m. m(ubuf + of_nat k := pipe_front i (nat chars) s ! k)) [0..<nat chars] (umem s)\<rparr>) es"
    and "pipe_allowed i s (Get (nat chars))" and "0 \<le> chars"
proof -
  have size: "PIPE_SIZE (ino s i) = int (length (pipe_contents i s))" by (rule PIPE_SIZE_contents [OF ok])
  have tail: "uint (PIPE_TAIL (ino s i)) = int (unat (PIPE_TAIL (ino s i)))" by simp
  show 0: "0 \<le> chars" using assms(2) ok uint_less_4096 [of "PIPE_TAIL (ino s i)"] unfolding c size tail
    by (simp add: pipe_ok_def)
  show "pipe_allowed i s (Get (nat chars))"
  proof -
    have "chars \<le> int (length (pipe_contents i s))" "chars \<le> 4096 - int (unat (PIPE_TAIL (ino s i)))"
      unfolding c size tail by simp_all
    then have "nat chars \<le> length (pipe_contents i s)" "unat (PIPE_TAIL (ino s i)) + nat chars \<le> 4096"
      using 0 by linarith+
    then show ?thesis by simp
  qed
  have "word_of_int chars = (of_nat (nat chars) :: u16)" using 0 by simp
  then show "pipe_take i ubuf count s es = Ok chars ((pipe_drop i (nat chars) s)\<lparr>umem :=
      fold (\<lambda>k m. m(ubuf + of_nat k := pipe_front i (nat chars) s ! k)) [0..<nat chars] (umem s)\<rparr>) es"
    unfolding pipe_take_def Let_def
    by (simp add: kern_defs pipe_drop_def put_user_def pipe_front_def ld_bytes_def upd_ino_def flip: c)
qed


lemma pipe_wake:
  assumes "pipe_ok i s"
  shows "\<exists>t. wake_up_last (iwait_queue i) s es = Ok () t es \<and> pipe_ok i t \<and> pipe_contents i t = pipe_contents i s \<and> umem t = umem s"
  using assms
  by (auto simp: wake_up_last_def kern_defs iwait_queue_def upd_task_def pipe_ok_def pipe_contents_def pipe_cell_def
      PIPE_HEAD_def PIPE_TAIL_def upd_ino_def ino_def intro!: ring_cong)

text \<open>The loops need three passes at most: a transfer up to the end of the page, one from its start, and
  one that finds nothing left to do.\<close>

definition passes :: "nat \<Rightarrow> int \<Rightarrow> nat" where
  "passes pos count = (if count \<le> 0 then 1 else if int pos + count \<le> 4096 then 2 else 3)"

lemma user_bytes_split:
  "0 \<le> a \<Longrightarrow> 0 \<le> b \<Longrightarrow> user_bytes s u (nat (a + b)) = user_bytes s u (nat a) @ user_bytes s (u + word_of_int a) (nat b)"
  by (rule nth_equalityI) (auto simp: user_bytes_def nth_append nat_add_distrib add.assoc
      simp flip: of_nat_add)

lemma write_pipe_loop_room:
  assumes "pipe_ok i s" and "0 \<le> count" and "count + int (length (pipe_contents i s)) < 4096"
    and "passes (unat (PIPE_HEAD (ino s i))) count \<le> fuel"
  shows "\<exists>t. write_pipe_loop fuel i u count w s es = Ok (w + count) t es \<and> pipe_ok i t \<and>
    pipe_contents i t = pipe_contents i s @ user_bytes s u (nat count) \<and> umem t = umem s"
  using assms
proof (induction fuel arbitrary: s u count w)
  case 0
  then show ?case by (simp add: passes_def split: if_splits)
next
  case (Suc fuel)
  show ?case
  proof (cases "count \<le> 0")
    case True
    then have "count = 0" using Suc.prems(2) by simp
    with pipe_wake [OF Suc.prems(1), of es] show ?thesis by (auto simp: kern_defs user_bytes_def)
  next
    case False
    define h where "h = unat (PIPE_HEAD (ino s i))"
    define chars where "chars = min (4095 - PIPE_SIZE (ino s i)) (min count (4096 - uint (PIPE_HEAD (ino s i))))"
    note put = pipe_put_run [OF Suc.prems(1,2) chars_def]
    let ?s = "pipe_store i (user_bytes s u (nat chars)) s"
    have h: "uint (PIPE_HEAD (ino s i)) = int h" "h < 4096" using Suc.prems(1) by (simp_all add: h_def pipe_ok_def)
    have chars: "chars = min count (4096 - int h)"
      using Suc.prems(3) PIPE_SIZE_contents [OF Suc.prems(1)] h by (simp add: chars_def)
    have ok: "pipe_ok i ?s" and cont: "pipe_contents i ?s = pipe_contents i s @ user_bytes s u (nat chars)"
      using put(2) Suc.prems(1) pipe.put_inv pipe.put_contents by blast+
    have umem: "umem ?s = umem s" by (simp add: pipe_store_def upd_ino_def)
    have left: "0 \<le> count - chars" "0 < chars" using chars h False by auto
    have head: "unat (PIPE_HEAD (ino ?s i)) = (h + nat chars) mod 4096"
      using Suc.prems(1) put(2) wrap4096 [of "PIPE_HEAD (ino s i)" "nat chars"]
      by (simp add: pipe_store_def PIPE_HEAD_def h_def pipe_ok_def) (metis nth_list_update_eq length_greater_0_conv list.size(3) not_numeral_le_zero)
    have wrap: "h + nat (4096 - int h) = 4096" using h by simp
    have "passes (unat (PIPE_HEAD (ino ?s i))) (count - chars) \<le> fuel"
      using Suc.prems(4) False chars h Suc.prems(3) unfolding head
      by (auto simp: passes_def h_def [symmetric] min_def wrap split: if_splits)
    from Suc.IH [OF ok left(1) _ this, of "u + word_of_int chars" "w + chars"] Suc.prems(3) cont left put(3)
    obtain t where t: "write_pipe_loop fuel i (u + word_of_int chars) (count - chars) (w + chars) ?s es = Ok (w + count) t es"
      "pipe_ok i t" "pipe_contents i t = pipe_contents i ?s @ user_bytes ?s (u + word_of_int chars) (nat (count - chars))"
      "umem t = umem ?s" by auto
    have "PIPE_SIZE (ino s i) \<noteq> 4095" using PIPE_SIZE_contents [OF Suc.prems(1)] Suc.prems(3) False by simp
    then have "write_pipe_loop (Suc fuel) i u count w s es = Ok (w + count) t es"
      using False put(1) [of u es] t(1) by (simp add: kern_defs)
    moreover have "user_bytes ?s = user_bytes s" using umem by (simp add: fun_eq_iff user_bytes_def)
    moreover have "user_bytes s u (nat count) = user_bytes s u (nat chars) @ user_bytes s (u + word_of_int chars) (nat (count - chars))"
      using user_bytes_split [of chars "count - chars" s u] put(3) left by simp
    ultimately show ?thesis using t cont umem by simp
  qed
qed


lemma user_store:
  assumes "length bs \<le> 2 ^ 32"
  shows "user_bytes (s\<lparr>umem := fold (\<lambda>k m. m(u + of_nat k := bs ! k)) [0..<length bs] (umem s)\<rparr>) u (length bs) = bs"
proof (rule nth_equalityI)
  fix k
  assume "k < length (user_bytes (s\<lparr>umem := fold (\<lambda>k m. m(u + of_nat k := bs ! k)) [0..<length bs] (umem s)\<rparr>) u (length bs))"
  then have k: "k < length bs" by simp
  then have "unat (of_nat k :: u32) = k" using assms by (simp add: unsigned_of_nat take_bit_nat_eq_self)
  then show "user_bytes (s\<lparr>umem := fold (\<lambda>k m. m(u + of_nat k := bs ! k)) [0..<length bs] (umem s)\<rparr>) u (length bs) ! k = bs ! k"
    using k by (simp add: user_bytes_def fold_store [OF assms])
qed simp

text \<open>Bytes stored later, behind an earlier piece, leave that piece alone.\<close>

definition user_same :: "u32 \<Rightarrow> nat \<Rightarrow> 'z sched_state_scheme \<Rightarrow> 'z sched_state_scheme \<Rightarrow> bool" where
  "user_same u n s t \<longleftrightarrow> (\<forall>x. n \<le> unat (x - u) \<longrightarrow> umem t x = umem s x)"

lemma user_store_same:
  "length bs \<le> 2 ^ 32 \<Longrightarrow>
   user_same u (length bs) s (s\<lparr>umem := fold (\<lambda>k m. m(u + of_nat k := bs ! k)) [0..<length bs] (umem s)\<rparr>)"
  by (simp add: user_same_def fold_store)

lemma user_same_bytes:
  assumes "user_same (u + of_nat a) b s t" and "a + b \<le> 2 ^ 32"
  shows "user_bytes t u a = user_bytes s u a"
proof (rule nth_equalityI)
  fix k
  assume "k < length (user_bytes t u a)"
  then have k: "k < a" by simp
  have "b \<le> unat (u + of_nat k - (u + of_nat a) :: u32)"
  proof (cases "b = 0")
    case False
    have "(of_nat (2 ^ 32 + k - a) :: u32) = of_nat (2 ^ 32 + k) - of_nat a" using assms(2) by (intro of_nat_diff) simp
    also have "\<dots> = of_nat k - of_nat a" by simp
    finally have e: "u + of_nat k - (u + of_nat a) = (of_nat (2 ^ 32 + k - a) :: u32)" by (simp add: algebra_simps)
    have "2 ^ 32 + k - a < 2 ^ 32" using k by simp
    then have "unat (of_nat (2 ^ 32 + k - a) :: u32) = 2 ^ 32 + k - a" by (rule unat_of_nat_u32)
    then have "unat (u + of_nat k - (u + of_nat a) :: u32) = 2 ^ 32 + k - a" by (simp only: e)
    moreover have "b \<le> 2 ^ 32 + k - a" using assms(2) by simp
    ultimately show ?thesis by (simp only:)
  qed simp
  then have "umem t (u + of_nat k) = umem s (u + of_nat k)" using assms(1) unfolding user_same_def by blast
  then show "user_bytes t u a ! k = user_bytes s u a ! k" using k by (simp add: user_bytes_def)
qed simp

lemma read_pipe_loop_avail:
  assumes "pipe_ok i s" and "0 \<le> count" and "count \<le> int (length (pipe_contents i s))"
    and "passes (unat (PIPE_TAIL (ino s i))) count \<le> fuel"
  shows "\<exists>t. read_pipe_loop fuel i u count g s es = Ok (g + count) t es \<and> pipe_ok i t \<and>
    pipe_contents i s = user_bytes t u (nat count) @ pipe_contents i t \<and> user_same u (nat count) s t"
  using assms
proof (induction fuel arbitrary: s u count g)
  case 0
  then show ?case by (simp add: passes_def split: if_splits)
next
  case (Suc fuel)
  show ?case
  proof (cases "count \<le> 0")
    case True
    then have "count = 0" using Suc.prems(2) by simp
    with pipe_wake [OF Suc.prems(1), of es] show ?thesis by (auto simp: kern_defs user_bytes_def user_same_def)
  next
    case False
    define p where "p = unat (PIPE_TAIL (ino s i))"
    define chars where "chars = min (PIPE_SIZE (ino s i)) (min count (4096 - uint (PIPE_TAIL (ino s i))))"
    note get = pipe_take_run [OF Suc.prems(1,2) chars_def]
    let ?bs = "pipe_front i (nat chars) s"
    let ?d = "pipe_drop i (nat chars) s"
    let ?s = "?d\<lparr>umem := fold (\<lambda>k m. m(u + of_nat k := ?bs ! k)) [0..<nat chars] (umem s)\<rparr>"
    have p: "uint (PIPE_TAIL (ino s i)) = int p" "p < 4096" using Suc.prems(1) by (simp_all add: p_def pipe_ok_def)
    have chars: "chars = min count (4096 - int p)"
      using Suc.prems(3) PIPE_SIZE_contents [OF Suc.prems(1)] p by (simp add: chars_def)
    have lb: "length ?bs = nat chars" by (simp add: pipe_front_def ld_bytes_def)
    have len: "length (pipe_contents i s) < 4096" by (simp add: pipe_contents_def)
    have d: "pipe_ok i ?d" "pipe_contents i s = ?bs @ pipe_contents i ?d"
      using get(2) Suc.prems(1) pipe.get_inv pipe.get_contents by blast+
    have view: "pipe_ok i ?s = pipe_ok i ?d" "pipe_contents i ?s = pipe_contents i ?d" "ino ?s i = ino ?d i" "umem ?d = umem s"
      by (simp_all add: pipe_ok_def pipe_contents_def pipe_cell_def [abs_def] ino_def pipe_drop_def upd_ino_def)
    have left: "0 \<le> count - chars" "0 < chars" using chars p False by auto
    have tail: "unat (PIPE_TAIL (ino ?d i)) = (p + nat chars) mod 4096"
      using Suc.prems(1) get(2) wrap4096 [of "PIPE_TAIL (ino s i)" "nat chars"]
      by (simp add: pipe_drop_def PIPE_TAIL_def p_def pipe_ok_def nth_list_update)
    have wrap: "p + nat (4096 - int p) = 4096" using p by simp
    have more: "passes (unat (PIPE_TAIL (ino ?s i))) (count - chars) \<le> fuel"
      using Suc.prems(4) False chars p Suc.prems(3) len unfolding view tail
      by (auto simp: passes_def p_def [symmetric] min_def wrap split: if_splits)
    have dl: "count - chars \<le> int (length (pipe_contents i ?s))" using Suc.prems(3) d(2) lb get(3) unfolding view by simp
    from Suc.IH [OF _ left(1) dl more, of "u + word_of_int chars" "g + chars"] d(1) view(1)
    obtain t where t: "read_pipe_loop fuel i (u + word_of_int chars) (count - chars) (g + chars) ?s es = Ok (g + count) t es"
      "pipe_ok i t" "pipe_contents i ?s = user_bytes t (u + word_of_int chars) (nat (count - chars)) @ pipe_contents i t"
      "user_same (u + word_of_int chars) (nat (count - chars)) ?s t" by auto
    have size: "PIPE_SIZE (ino s i) \<noteq> 0" using PIPE_SIZE_contents [OF Suc.prems(1)] Suc.prems(3) False by auto
    have run: "read_pipe_loop (Suc fuel) i u count g s es = Ok (g + count) t es"
      using False size get(1) [of u es] t(1) by (simp add: kern_defs)
    have w: "word_of_int chars = (of_nat (nat chars) :: u32)" using get(3) by simp
    have small: "nat chars + nat (count - chars) \<le> 2 ^ 32" "nat chars \<le> 2 ^ 32" "nat chars < 4096"
    proof -
      have "nat chars + nat (count - chars) = nat count" "nat chars \<le> nat count" using left by (simp_all add: nat_diff_distrib)
      moreover have "nat count < 4096" using Suc.prems(3) len by linarith
      ultimately show "nat chars + nat (count - chars) \<le> 2 ^ 32" "nat chars \<le> 2 ^ 32" "nat chars < 4096" by simp_all
    qed
    have "user_bytes t u (nat chars) = user_bytes ?s u (nat chars)"
      using t(4) small(1) unfolding w by (rule user_same_bytes)
    also have "\<dots> = ?bs" using user_store [where bs = ?bs and s = ?d and u = u] small(2) lb view(4) by simp
    finally have first: "user_bytes t u (nat chars) = ?bs" .
    have "user_bytes t u (nat count) = ?bs @ user_bytes t (u + word_of_int chars) (nat (count - chars))"
      using user_bytes_split [of chars "count - chars" t u] left first by simp
    then have "pipe_contents i s = user_bytes t u (nat count) @ pipe_contents i t"
      using d(2) t(3) view(2) by simp
    moreover have "user_same u (nat count) s t"
      unfolding user_same_def
    proof (intro allI impI)
      fix x
      assume x: "nat count \<le> unat (x - u)"
      have xc: "nat chars \<le> unat (x - u)" using x left by simp
      have "user_same u (nat chars) ?d ?s"
        using user_store_same [where bs = ?bs and s = ?d and u = u] small(2) lb view(4) by simp
      then have "umem ?s x = umem ?d x" using xc by (simp only: user_same_def)
      then have "umem ?s x = umem s x" by (simp only: view(4))
      moreover have "nat (count - chars) \<le> unat (x - (u + word_of_int chars))"
      proof -
        have e: "x - (u + word_of_int chars) = (x - u) - of_nat (nat chars)" using w by (simp add: algebra_simps)
        have c: "unat (of_nat (nat chars) :: u32) = nat chars" using small(3) by (intro unat_of_nat_u32) simp
        have "unat ((x - u) - of_nat (nat chars)) = unat (x - u) - unat (of_nat (nat chars) :: u32)"
          by (rule unat_sub) (simp only: word_le_nat_alt c xc)
        then have "unat (x - (u + word_of_int chars)) = unat (x - u) - nat chars" by (simp only: e c)
        then show ?thesis using x left by simp
      qed
      ultimately show "umem t x = umem s x" using t(4) by (simp add: user_same_def)
    qed
    ultimately show ?thesis using run t(2) by blast
  qed
qed


text \<open>C19: writing to a pipe that has room for all of it returns at once with the whole count, and the
  bytes of the user's buffer are behind those that were in the pipe, also when they run over the
  end of the page and continue at its start.\<close>

theorem write_pipe_appends:
  assumes "pipe_ok i s" and "n + length (pipe_contents i s) < 4096" and "3 \<le> fuel"
  shows "\<exists>t. write_pipe fuel i u (int n) s es = Ok (int n) t es \<and> pipe_ok i t \<and>
    pipe_contents i t = pipe_contents i s @ user_bytes s u n"
proof -
  have "passes (unat (PIPE_HEAD (ino s i))) (int n) \<le> fuel" using assms(3) by (simp add: passes_def)
  from write_pipe_loop_room [OF assms(1) _ _ this, of u 0 es] assms(2) show ?thesis
    by (auto simp: write_pipe_def)
qed

text \<open>C20: reading no more than a pipe holds returns at once with the whole count, the user's buffer
  gets the oldest bytes of the pipe in order, the rest stays in the pipe, and no other byte of user
  memory changes.\<close>

theorem read_pipe_takes:
  assumes "pipe_ok i s" and "n \<le> length (pipe_contents i s)" and "3 \<le> fuel"
  shows "\<exists>t. read_pipe fuel i u (int n) s es = Ok (int n) t es \<and> pipe_ok i t \<and>
    pipe_contents i s = user_bytes t u n @ pipe_contents i t \<and>
    (\<forall>x. n \<le> unat (x - u) \<longrightarrow> umem t x = umem s x)"
proof -
  have "passes (unat (PIPE_TAIL (ino s i))) (int n) \<le> fuel" using assms(3) by (simp add: passes_def)
  from read_pipe_loop_avail [OF assms(1) _ _ this, of u 0 es] assms(2) show ?thesis
    by (auto simp: read_pipe_def user_same_def)
qed

text \<open>A pipe whose head and tail stand four bytes before the end of its page.\<close>

definition pipe_demo :: fs_state where
  "pipe_demo = blk_state.extend blk_demo
     (fs_state.fields [zero_inode\<lparr>i_zone := [4092, 4092, 0, 0, 0, 0, 0, 0, 0], i_pipe := 1, i_count := 2, i_size := 0x100000\<rparr>]
        0 [] [] 0)"

lemma pipe_demo_ok: "pipe_ok 0 pipe_demo" "pipe_contents 0 pipe_demo = []"
  by (simp_all add: pipe_demo_def pipe_ok_def pipe_contents_def ring_def ino_def PIPE_HEAD_def PIPE_TAIL_def
      blk_state.defs fs_state.defs)

theorem write_pipe_appends_witness:
  "\<exists>t. write_pipe 3 0 0x2000 10 pipe_demo [] = Ok 10 t [] \<and> pipe_contents 0 t = user_bytes pipe_demo 0x2000 10"
  using write_pipe_appends [of 0 pipe_demo 10 3 "0x2000" "[]"] by (auto simp: pipe_demo_ok)

theorem read_pipe_takes_witness:
  "\<exists>t. read_pipe 3 0 0x2000 1 (pipe_demo\<lparr>inode_table := [zero_inode\<lparr>i_zone := [0, 4095, 0, 0, 0, 0, 0, 0, 0], i_size := 0x100000\<rparr>]\<rparr>) [] = Ok 1 t []"
proof -
  let ?s = "pipe_demo\<lparr>inode_table := [zero_inode\<lparr>i_zone := [0, 4095, 0, 0, 0, 0, 0, 0, 0], i_size := 0x100000\<rparr>]\<rparr>"
  have "pipe_ok 0 ?s" "length (pipe_contents 0 ?s) = 1"
    by (simp_all add: pipe_ok_def pipe_contents_def ino_def PIPE_HEAD_def PIPE_TAIL_def)
  then show ?thesis using read_pipe_takes [of 0 ?s 1 3 "0x2000" "[]"] by auto
qed

end
