(* ===== verification/Namei.thy ===== *)
theory Namei
  imports Files
begin

unbundle bit_operations_syntax

text \<open>
  Directories and path names: \<^verbatim>\<open>fs/namei.c\<close>.

  A directory entry is 16 bytes of a block, a 16-bit inode number and 14 bytes of name; a pointer
  to one is the buffer and the offset in its block. Names are in user memory, read through
  \<open>fs\<close>. A function that sets \<open>*res_dir\<close> or \<open>*res_inode\<close> returns that value here.
\<close>

section \<open>Permissions and names\<close>

abbreviation (input) NAME_LEN :: nat where "NAME_LEN \<equiv> 14"
abbreviation (input) DIR_ENTRIES_PER_BLOCK :: nat where "DIR_ENTRIES_PER_BLOCK \<equiv> 64"
abbreviation (input) MAY_EXEC :: u16 where "MAY_EXEC \<equiv> 1"
abbreviation (input) MAY_WRITE :: u16 where "MAY_WRITE \<equiv> 2"
abbreviation (input) MAY_READ :: u16 where "MAY_READ \<equiv> 4"
abbreviation (input) I_REGULAR :: u16 where "I_REGULAR \<equiv> 0x8000"
abbreviation (input) I_DIRECTORY :: u16 where "I_DIRECTORY \<equiv> 0x4000"
abbreviation (input) S_ISVTX :: u16 where "S_ISVTX \<equiv> 0x200"

definition ACC_MODE :: "u16 \<Rightarrow> u16" where
  "ACC_MODE x = [4, 2, 6, 0xFFFF] ! unat (x AND O_ACCMODE)"

definition permission :: "'z fs_state_scheme \<Rightarrow> nat \<Rightarrow> u16 \<Rightarrow> bool" where
  "permission s i msk =
     (let n = ino s i; t = cur s in
      if i_dev n \<noteq> 0 \<and> i_nlinks n = 0 then False
      else let mode = (if t_euid t = i_uid n then drop_bit 6 (i_mode n)
                       else if t_egid t = ucast (i_gid n) then drop_bit 3 (i_mode n)
                       else i_mode n) in
        mode AND msk AND 7 = msk \<or> suser s)"

text \<open>\<open>match\<close>. For a length of 0 the comparison leaves the flag as it was; no caller gives that length, and here it is a match.\<close>

definition match_entry :: "(u32 \<Rightarrow> u8) \<Rightarrow> nat \<Rightarrow> u32 \<Rightarrow> u8 list \<Rightarrow> nat \<Rightarrow> bool" where
  "match_entry um len name bs off \<longleftrightarrow>
     le16 bs off \<noteq> 0 \<and> len \<le> NAME_LEN \<and> (len < NAME_LEN \<longrightarrow> bs ! (off + 2 + len) = 0) \<and>
     (\<forall>k < len. um (name + of_nat k) = bs ! (off + 2 + k))"

section \<open>Searching a directory\<close>

text \<open>The loop of \<open>find_entry\<close>. When a block of the directory cannot be read, \<open>bh\<close> is
  NULL and the next pass compares \<open>de\<close> with what lies at address 0, the first word of the page
  directory; that is below every buffer, so the pass goes on to the next block.\<close>

primrec find_loop ::
  "nat \<Rightarrow> 'z fs_state_scheme ctx \<Rightarrow> nat \<Rightarrow> u32 \<Rightarrow> nat \<Rightarrow> nat \<Rightarrow> nat option \<Rightarrow> nat \<Rightarrow> nat \<Rightarrow>
   ((nat \<times> nat) option, 'z fs_state_scheme) kern" where
  "find_loop 0 K dir name namelen entries bh off i = kseq (brelse bh) (ret None)"
| "find_loop (Suc n) K dir name namelen entries bh off i =
     (if i \<ge> entries then kseq (brelse bh) (ret None)
      else let look = (\<lambda>b off.
             kbind (gets (\<lambda>s. match_entry (umem s) namelen name (b_data (buf s b)) off)) (\<lambda>m.
             if m then ret (Some (b, off))
             else find_loop n K dir name namelen entries (Some b) (off + 16) (i + 1))) in
        (case bh of
           Some b \<Rightarrow>
             if off < BLOCK_SIZE then look b off
             else kseq (brelse (Some b))
              (kbind (get_diskBlock K dir (int (i div DIR_ENTRIES_PER_BLOCK))) (\<lambda>block.
               if block = 0 then find_loop n K dir name namelen entries None off (i + DIR_ENTRIES_PER_BLOCK)
               else kbind (gets (\<lambda>s. i_dev (ino s dir))) (\<lambda>dev.
                 kbind (bread K dev (word_of_int block)) (\<lambda>r.
                 case r of
                   None \<Rightarrow> find_loop n K dir name namelen entries None off (i + DIR_ENTRIES_PER_BLOCK)
                 | Some b \<Rightarrow> look b 0))))
         | None \<Rightarrow>
             kbind (get_diskBlock K dir (int (i div DIR_ENTRIES_PER_BLOCK))) (\<lambda>block.
             if block = 0 then find_loop n K dir name namelen entries None off (i + DIR_ENTRIES_PER_BLOCK)
             else kbind (gets (\<lambda>s. i_dev (ino s dir))) (\<lambda>dev.
               kbind (bread K dev (word_of_int block)) (\<lambda>r.
               case r of
                 None \<Rightarrow> find_loop n K dir name namelen entries None off (i + DIR_ENTRIES_PER_BLOCK)
               | Some b \<Rightarrow> look b 0)))))"

text \<open>\<open>find_entry\<close> returns the directory too: \<open>..\<close> in the root of a mounted device is
  looked up in the directory it is mounted on.\<close>

definition find_entry ::
  "'z fs_state_scheme ctx \<Rightarrow> nat \<Rightarrow> u32 \<Rightarrow> nat \<Rightarrow> (nat \<times> (nat \<times> nat) option, 'z fs_state_scheme) kern" where
  "find_entry K dir0 name namelen0 =
     (let len1 = min namelen0 NAME_LEN in
      kbind (gets (\<lambda>s. unat (i_size (ino s dir0)) div 16)) (\<lambda>entries.
      if len1 = 0 then ret (dir0, None)
      else kbind (gets (\<lambda>s. (umem s name = 0x2e \<and> umem s (name + 1) = 0x2e, t_root (cur s), ino s dir0))) (\<lambda>x.
        kbind (if len1 = 2 \<and> fst x then
                 (if fst (snd x) = Some dir0 then ret (dir0, 1)
                  else if i_num (snd (snd x)) = ROOT_INO then
                    kbind (check_in_superb (fst K) (i_dev (snd (snd x)))) (\<lambda>sb.
                    case sb of
                      None \<Rightarrow> kfault
                    | Some k \<Rightarrow>
                        kbind (gets (\<lambda>s. s_inode_mount (sup s k))) (\<lambda>m.
                        if m = None then ret (dir0, len1)
                        else kseq (iput K (Some dir0))
                          (kbind (gets (\<lambda>s. s_inode_mount (sup s k))) (\<lambda>m.
                           case m of
                             None \<Rightarrow> kfault
                           | Some d \<Rightarrow>
                               kseq (modify (upd_ino d (\<lambda>n. n\<lparr>i_count := i_count n + 1\<rparr>))) (ret (d, len1))))))
                  else ret (dir0, len1))
               else ret (dir0, len1)) (\<lambda>y.
        let dir = fst y; namelen = snd y in
        kbind (gets (\<lambda>s. ino s dir)) (\<lambda>n.
        if i_zone n ! 0 = 0 then ret (dir, None)
        else kbind (bread K (i_dev n) (ucast (i_zone n ! 0))) (\<lambda>bh.
          if bh = None then ret (dir, None)
          else kbind (find_loop (Suc entries) K dir name namelen entries bh 0 0) (\<lambda>r. ret (dir, r))))))))"

text \<open>The entry \<open>add_entry\<close> fills in: an unused one, or one past the end of the
  directory, which grows.\<close>

definition fill_entry ::
  "nat \<Rightarrow> u32 \<Rightarrow> nat \<Rightarrow> nat \<Rightarrow> nat \<Rightarrow> (unit, 'z fs_state_scheme) kern" where
  "fill_entry dir name namelen b off =
     kseq (modify (\<lambda>s. upd_ino dir (\<lambda>n. n\<lparr>i_mtime := word_of_int (CURRENT_TIME s)\<rparr>) s))
          (modify (\<lambda>s. upd_buf b (\<lambda>x. x\<lparr>b_data := overlay (off + 2)
              (map (\<lambda>k. if k < namelen then umem s (name + of_nat k) else 0) [0..<NAME_LEN]) (b_data x),
              b_dirt := 1\<rparr>) s))"

primrec add_loop ::
  "nat \<Rightarrow> 'z fs_state_scheme ctx \<Rightarrow> nat \<Rightarrow> u32 \<Rightarrow> nat \<Rightarrow> nat option \<Rightarrow> nat \<Rightarrow> nat \<Rightarrow>
   ((nat \<times> nat) option, 'z fs_state_scheme) kern" where
  "add_loop 0 K dir name namelen bh off i = kloops"
| "add_loop (Suc fuel) K dir name namelen bh off i =
     (let use = (\<lambda>b off.
        kseq (modify (\<lambda>s. if i * 16 \<ge> unat (i_size (ino s dir))
                then upd_ino dir (\<lambda>n. n\<lparr>i_size := of_nat ((i + 1) * 16), i_dirt := 1,
                                        i_ctime := word_of_int (CURRENT_TIME s)\<rparr>)
                      (upd_buf b (\<lambda>x. x\<lparr>b_data := overlay off [0, 0] (b_data x)\<rparr>) s)
                else s))
       (kbind (gets (\<lambda>s. le16 (b_data (buf s b)) off)) (\<lambda>nr.
        if nr = 0 then kseq (fill_entry dir name namelen b off) (ret (Some (b, off)))
        else add_loop fuel K dir name namelen (Some b) (off + 16) (i + 1)))) in
      if bh \<noteq> None \<and> off < BLOCK_SIZE then use (the bh) off
      else kseq (brelse bh)
       (kbind (create_diskBlock K dir (int (i div DIR_ENTRIES_PER_BLOCK))) (\<lambda>block.
        if block = 0 then ret None
        else kbind (gets (\<lambda>s. i_dev (ino s dir))) (\<lambda>dev.
          kbind (bread K dev (word_of_int block)) (\<lambda>r.
          case r of
            None \<Rightarrow> add_loop fuel K dir name namelen None off (i + DIR_ENTRIES_PER_BLOCK)
          | Some b \<Rightarrow> use b 0)))))"

definition add_entry ::
  "'z fs_state_scheme ctx \<Rightarrow> nat \<Rightarrow> u32 \<Rightarrow> nat \<Rightarrow> ((nat \<times> nat) option, 'z fs_state_scheme) kern" where
  "add_entry K dir name namelen0 =
     (let namelen = min namelen0 NAME_LEN in
      if namelen = 0 then ret None
      else kbind (gets (\<lambda>s. ino s dir)) (\<lambda>n.
        if i_zone n ! 0 = 0 then ret None
        else kbind (bread K (i_dev n) (ucast (i_zone n ! 0))) (\<lambda>bh.
          if bh = None then ret None
          else add_loop (fst K) K dir name namelen bh 0 0)))"

text \<open>Setting the inode number of an entry, with the buffer marked dirty.\<close>

definition set_entry :: "nat \<times> nat \<Rightarrow> u16 \<Rightarrow> 'z blk_state_scheme \<Rightarrow> 'z blk_state_scheme" where
  "set_entry de nr = upd_buf (fst de) (\<lambda>x. x\<lparr>b_data := overlay (snd de) (put16 nr) (b_data x), b_dirt := 1\<rparr>)"

definition entry_inr :: "'z blk_state_scheme \<Rightarrow> nat \<times> nat \<Rightarrow> u16" where
  "entry_inr s de = le16 (b_data (buf s (fst de))) (snd de)"

section \<open>Walking a path\<close>

text \<open>The length of the next component and the byte that ends it, \<open>None\<close> when the fuel runs
  out before an end.\<close>

primrec component :: "nat \<Rightarrow> (u32 \<Rightarrow> u8) \<Rightarrow> u32 \<Rightarrow> nat \<Rightarrow> (nat \<times> u8) option" where
  "component 0 um p len = None"
| "component (Suc fuel) um p len =
     (if um p = 0 \<or> um p = 0x2f then Some (len, um p) else component fuel um (p + 1) (len + 1))"

primrec dir_walk ::
  "nat \<Rightarrow> 'z fs_state_scheme ctx \<Rightarrow> nat \<Rightarrow> u32 \<Rightarrow> (nat option, 'z fs_state_scheme) kern" where
  "dir_walk 0 K inode pathname = kloops"
| "dir_walk (Suc fuel) K inode pathname =
     kbind (gets (\<lambda>s. S_ISDIR (i_mode (ino s inode)) \<and> permission s inode MAY_EXEC)) (\<lambda>ok.
     if \<not> ok then kseq (iput K (Some inode)) (ret None)
     else kbind (gets (\<lambda>s. component (fst K) (umem s) pathname 0)) (\<lambda>c.
       case c of
         None \<Rightarrow> kloops
       | Some (namelen, ch) \<Rightarrow>
           if ch = 0 then ret (Some inode)
           else kbind (find_entry K inode pathname namelen) (\<lambda>r.
             case snd r of
               None \<Rightarrow> kseq (iput K (Some (fst r))) (ret None)
             | Some de \<Rightarrow>
                 kbind (gets (\<lambda>s. (entry_inr s de, i_dev (ino s (fst r))))) (\<lambda>x.
                 kseq (brelse (Some (fst de)))
                (kseq (iput K (Some (fst r)))
                (kbind (iget K (snd x) (fst x)) (\<lambda>next.
                 dir_walk fuel K next (pathname + of_nat namelen + 1))))))))"

definition get_dir_inode :: "'z fs_state_scheme ctx \<Rightarrow> u32 \<Rightarrow> (nat option, 'z fs_state_scheme) kern" where
  "get_dir_inode K pathname =
     kbind (gets (\<lambda>s. (t_root (cur s), t_pwd (cur s), s))) (\<lambda>x.
     let s = snd (snd x); live = (\<lambda>p. case p of None \<Rightarrow> False | Some i \<Rightarrow> i_count (ino s i) \<noteq> 0);
         c = umem s pathname in
     if \<not> live (fst x) then kpanic ''No root inode''
     else if \<not> live (fst (snd x)) then kpanic ''No cwd inode''
     else if c = 0 then ret None
     else let start = the (if c = 0x2f then fst x else fst (snd x)) in
       kseq (modify (upd_ino start (\<lambda>n. n\<lparr>i_count := i_count n + 1\<rparr>)))
            (dir_walk (fst K) K start (if c = 0x2f then pathname + 1 else pathname)))"

text \<open>The last component: where it starts and how long it is.\<close>

primrec base_scan :: "nat \<Rightarrow> (u32 \<Rightarrow> u8) \<Rightarrow> u32 \<Rightarrow> u32 \<Rightarrow> nat \<Rightarrow> (u32 \<times> nat) option" where
  "base_scan 0 um p base len = None"
| "base_scan (Suc fuel) um p base len =
     (if um p = 0 then Some (base, len)
      else if um p = 0x2f then base_scan fuel um (p + 1) (p + 1) 0
      else base_scan fuel um (p + 1) base (len + 1))"

definition dir_namei ::
  "'z fs_state_scheme ctx \<Rightarrow> u32 \<Rightarrow> ((nat \<times> u32 \<times> nat) option, 'z fs_state_scheme) kern" where
  "dir_namei K pathname =
     kbind (get_dir_inode K pathname) (\<lambda>d.
     case d of
       None \<Rightarrow> ret None
     | Some dir \<Rightarrow>
         kbind (gets (\<lambda>s. base_scan (fst K) (umem s) pathname pathname 0)) (\<lambda>b.
         case b of
           None \<Rightarrow> kloops
         | Some (base, len) \<Rightarrow> ret (Some (dir, base, len))))"

definition namei :: "'z fs_state_scheme ctx \<Rightarrow> u32 \<Rightarrow> (nat option, 'z fs_state_scheme) kern" where
  "namei K pathname =
     kbind (dir_namei K pathname) (\<lambda>d.
     case d of
       None \<Rightarrow> ret None
     | Some (dir, base, namelen) \<Rightarrow>
         if namelen = 0 then ret (Some dir)
         else kbind (find_entry K dir base namelen) (\<lambda>r.
           case snd r of
             None \<Rightarrow> kseq (iput K (Some (fst r))) (ret None)
           | Some de \<Rightarrow>
               kbind (gets (\<lambda>s. (entry_inr s de, i_dev (ino s (fst r))))) (\<lambda>x.
               kseq (brelse (Some (fst de)))
              (kseq (iput K (Some (fst r)))
              (kbind (iget K (snd x) (fst x)) (\<lambda>i.
               kseq (modify (\<lambda>s. upd_ino i (\<lambda>n. n\<lparr>i_atime := word_of_int (CURRENT_TIME s), i_dirt := 1\<rparr>) s))
                    (ret (Some i))))))))"

section \<open>Opening\<close>

text \<open>Release some inodes, in this order, and return a code.\<close>

definition give_up ::
  "'z fs_state_scheme ctx \<Rightarrow> nat list \<Rightarrow> int \<Rightarrow> (int, 'z fs_state_scheme) kern" where
  "give_up K is code = kseq (kfor is (\<lambda>i. iput K (Some i))) (ret code)"

text \<open>\<open>open_namei\<close>: the inode, or the error.\<close>

definition open_namei ::
  "'z fs_state_scheme ctx \<Rightarrow> u32 \<Rightarrow> u16 \<Rightarrow> u16 \<Rightarrow> (int + nat, 'z fs_state_scheme) kern" where
  "open_namei K pathname flag0 mode0 =
     (let flag = (if flag0 AND O_TRUNC \<noteq> 0 \<and> flag0 AND O_ACCMODE = 0 then flag0 OR O_WRONLY else flag0);
          err = (\<lambda>is code. kbind (give_up K is code) (\<lambda>c. ret (Inl c))) in
      kbind (gets (\<lambda>s. (mode0 AND 0x1FF AND NOT (t_umask (cur s))) OR I_REGULAR)) (\<lambda>mode.
      kbind (dir_namei K pathname) (\<lambda>d.
      case d of
        None \<Rightarrow> ret (Inl (- ENOENT))
      | Some (dir0, base, namelen) \<Rightarrow>
          if namelen = 0 then
            (if flag AND (O_ACCMODE OR O_CREAT OR O_TRUNC) = 0 then ret (Inr dir0) else err [dir0] (- EISDIR))
          else kbind (find_entry K dir0 base namelen) (\<lambda>r.
            let dir = fst r in
            case snd r of
              None \<Rightarrow>
                if flag AND O_CREAT = 0 then err [dir] (- ENOENT)
                else kbind (gets (\<lambda>s. permission s dir MAY_WRITE)) (\<lambda>ok.
                  if \<not> ok then err [dir] (- EACCES)
                  else kbind (gets (\<lambda>s. i_dev (ino s dir))) (\<lambda>dev.
                    kbind (new_inode K dev) (\<lambda>ni.
                    case ni of
                      None \<Rightarrow> err [dir] (- ENOSPC)
                    | Some i \<Rightarrow>
                        kseq (modify (\<lambda>s. upd_ino i (\<lambda>n. n\<lparr>i_uid := t_euid (cur s), i_mode := mode, i_dirt := 1\<rparr>) s))
                       (kbind (add_entry K dir base namelen) (\<lambda>e.
                        case e of
                          None \<Rightarrow> kseq (modify (upd_ino i (\<lambda>n. n\<lparr>i_nlinks := i_nlinks n - 1\<rparr>)))
                                       (err [i, dir] (- ENOSPC))
                        | Some de \<Rightarrow>
                            kseq (modify (\<lambda>s. set_entry de (i_num (ino s i)) s))
                           (kseq (brelse (Some (fst de)))
                           (kseq (iput K (Some dir))
                                 (ret (Inr i)))))))))
            | Some de \<Rightarrow>
                kbind (gets (\<lambda>s. (entry_inr s de, i_dev (ino s dir)))) (\<lambda>x.
                kseq (brelse (Some (fst de)))
               (kseq (iput K (Some dir))
                (if flag AND O_EXCL \<noteq> 0 then ret (Inl (- EEXIST))
                 else kbind (iget K (snd x) (fst x)) (\<lambda>i.
                   kbind (gets (\<lambda>s. S_ISDIR (i_mode (ino s i)) \<and> flag AND O_ACCMODE \<noteq> 0
                                     \<or> \<not> permission s i (ACC_MODE flag))) (\<lambda>bad.
                   if bad then err [i] (- EPERM)
                   else kseq (modify (\<lambda>s. upd_ino i (\<lambda>n. n\<lparr>i_atime := word_of_int (CURRENT_TIME s)\<rparr>) s))
                       (kseq (kwhen (flag AND O_TRUNC \<noteq> 0) (truncate K i))
                             (ret (Inr i))))))))))))"

section \<open>Creating\<close>

text \<open>How \<open>sys_mknod\<close>, \<open>sys_mkdir\<close>, \<open>sys_rmdir\<close> and \<open>sys_unlink\<close> begin: the
  directory with write permission, or the error.\<close>

definition writable_dir ::
  "'z fs_state_scheme ctx \<Rightarrow> u32 \<Rightarrow> (int + nat \<times> u32 \<times> nat, 'z fs_state_scheme) kern" where
  "writable_dir K pathname =
     kbind (dir_namei K pathname) (\<lambda>d.
     case d of
       None \<Rightarrow> ret (Inl (- ENOENT))
     | Some (dir, base, namelen) \<Rightarrow>
         if namelen = 0 then kbind (give_up K [dir] (- ENOENT)) (\<lambda>c. ret (Inl c))
         else kbind (gets (\<lambda>s. permission s dir MAY_WRITE)) (\<lambda>ok.
           if \<not> ok then kbind (give_up K [dir] (- EPERM)) (\<lambda>c. ret (Inl c))
           else ret (Inr (dir, base, namelen))))"

text \<open>And how the first two go on: no entry of that name, and a new inode.\<close>

definition fresh_entry ::
  "'z fs_state_scheme ctx \<Rightarrow> nat \<Rightarrow> u32 \<Rightarrow> nat \<Rightarrow> (int + nat \<times> nat, 'z fs_state_scheme) kern" where
  "fresh_entry K dir0 base namelen =
     kbind (find_entry K dir0 base namelen) (\<lambda>r.
     let dir = fst r in
     case snd r of
       Some de \<Rightarrow> kseq (brelse (Some (fst de))) (kbind (give_up K [dir] (- EEXIST)) (\<lambda>c. ret (Inl c)))
     | None \<Rightarrow>
         kbind (gets (\<lambda>s. i_dev (ino s dir))) (\<lambda>dev.
         kbind (new_inode K dev) (\<lambda>ni.
         case ni of
           None \<Rightarrow> kbind (give_up K [dir] (- ENOSPC)) (\<lambda>c. ret (Inl c))
         | Some i \<Rightarrow> ret (Inr (dir, i)))))"

definition sys_mknod ::
  "'z fs_state_scheme ctx \<Rightarrow> u32 \<Rightarrow> u16 \<Rightarrow> u16 \<Rightarrow> (int, 'z fs_state_scheme) kern" where
  "sys_mknod K filename mode dev =
     kbind (gets suser) (\<lambda>su.
     if \<not> su then ret (- EPERM)
     else kbind (writable_dir K filename) (\<lambda>w.
       case w of
         Inl c \<Rightarrow> ret c
       | Inr (dir0, base, namelen) \<Rightarrow>
           kbind (fresh_entry K dir0 base namelen) (\<lambda>f.
           case f of
             Inl c \<Rightarrow> ret c
           | Inr (dir, i) \<Rightarrow>
               kseq (modify (\<lambda>s. upd_ino i (\<lambda>n. n\<lparr>i_mode := mode,
                       i_zone := (if S_ISBLK mode \<or> S_ISCHR mode then (i_zone n)[0 := dev] else i_zone n),
                       i_mtime := word_of_int (CURRENT_TIME s), i_atime := word_of_int (CURRENT_TIME s),
                       i_dirt := 1\<rparr>) s))
              (kbind (add_entry K dir base namelen) (\<lambda>e.
               case e of
                 None \<Rightarrow> kseq (iput K (Some dir))
                        (kseq (modify (upd_ino i (\<lambda>n. n\<lparr>i_nlinks := 0\<rparr>)))
                              (give_up K [i] (- ENOSPC)))
               | Some de \<Rightarrow>
                   kseq (modify (\<lambda>s. set_entry de (i_num (ino s i)) s))
                  (kseq (iput K (Some dir))
                  (kseq (iput K (Some i))
                  (kseq (brelse (Some (fst de)))
                        (ret 0)))))))))"

text \<open>The first two entries of a new directory.\<close>

definition dot_entries :: "u16 \<Rightarrow> u16 \<Rightarrow> u8 list \<Rightarrow> u8 list" where
  "dot_entries self parent bs =
     overlay 16 (put16 parent @ [0x2e, 0x2e, 0]) (overlay 0 (put16 self @ [0x2e, 0]) bs)"

definition sys_mkdir :: "'z fs_state_scheme ctx \<Rightarrow> u32 \<Rightarrow> u16 \<Rightarrow> (int, 'z fs_state_scheme) kern" where
  "sys_mkdir K pathname mode =
     kbind (gets suser) (\<lambda>su.
     if \<not> su then ret (- EPERM)
     else kbind (writable_dir K pathname) (\<lambda>w.
       case w of
         Inl c \<Rightarrow> ret c
       | Inr (dir0, base, namelen) \<Rightarrow>
           kbind (fresh_entry K dir0 base namelen) (\<lambda>f.
           case f of
             Inl c \<Rightarrow> ret c
           | Inr (dir, i) \<Rightarrow>
               kseq (modify (\<lambda>s. upd_ino i (\<lambda>n. n\<lparr>i_size := 32, i_dirt := 1,
                       i_mtime := word_of_int (CURRENT_TIME s), i_atime := word_of_int (CURRENT_TIME s)\<rparr>) s))
              (kbind (gets (\<lambda>s. i_dev (ino s i))) (\<lambda>dev.
               kbind (new_block K dev) (\<lambda>nb.
               kseq (modify (upd_ino i (\<lambda>n. n\<lparr>i_zone := (i_zone n)[0 := word_of_int nb]\<rparr>)))
               (if word_of_int nb = (0 :: u16) then
                  kseq (iput K (Some dir))
                 (kseq (modify (upd_ino i (\<lambda>n. n\<lparr>i_nlinks := i_nlinks n - 1\<rparr>)))
                       (give_up K [i] (- ENOSPC)))
                else
                  kseq (modify (upd_ino i (\<lambda>n. n\<lparr>i_dirt := 1\<rparr>)))
                 (kbind (gets (\<lambda>s. ino s i)) (\<lambda>n.
                  kbind (bread K (i_dev n) (ucast (i_zone n ! 0))) (\<lambda>db.
                  case db of
                    None \<Rightarrow>
                      kseq (iput K (Some dir))
                     (kbind (gets (\<lambda>s. ino s i)) (\<lambda>n.
                      kseq (free_block K (i_dev n) (uint (i_zone n ! 0)))
                     (kseq (modify (upd_ino i (\<lambda>n. n\<lparr>i_nlinks := i_nlinks n - 1\<rparr>)))
                           (give_up K [i] (- ERROR)))))
                  | Some db \<Rightarrow>
                      kseq (modify (\<lambda>s. upd_buf db (\<lambda>x.
                              x\<lparr>b_data := dot_entries (i_num (ino s i)) (i_num (ino s dir)) (b_data x), b_dirt := 1\<rparr>) s))
                     (kseq (modify (upd_ino i (\<lambda>n. n\<lparr>i_nlinks := 2\<rparr>)))
                     (kseq (brelse (Some db))
                     (kseq (modify (\<lambda>s. upd_ino i (\<lambda>n. n\<lparr>i_mode := I_DIRECTORY OR
                              (mode AND 0x1FF AND NOT (t_umask (cur s))), i_dirt := 1\<rparr>) s))
                     (kbind (add_entry K dir base namelen) (\<lambda>e.
                      case e of
                        None \<Rightarrow>
                          kseq (iput K (Some dir))
                         (kbind (gets (\<lambda>s. ino s i)) (\<lambda>n.
                          kseq (free_block K (i_dev n) (uint (i_zone n ! 0)))
                         (kseq (modify (upd_ino i (\<lambda>n. n\<lparr>i_nlinks := 0\<rparr>)))
                               (give_up K [i] (- ENOSPC)))))
                      | Some de \<Rightarrow>
                          kseq (modify (\<lambda>s. set_entry de (i_num (ino s i)) s))
                         (kseq (modify (upd_ino dir (\<lambda>n. n\<lparr>i_nlinks := i_nlinks n + 1, i_dirt := 1\<rparr>)))
                         (kseq (iput K (Some dir))
                         (kseq (iput K (Some i))
                         (kseq (brelse (Some (fst de)))
                               (ret 0))))))))))))))))))))"

section \<open>Removing\<close>

text \<open>The loop of \<open>is_empty_dir\<close>. The pass after a missing block looks at the buffer it has
  already released.\<close>

primrec empty_loop ::
  "nat \<Rightarrow> 'z fs_state_scheme ctx \<Rightarrow> nat \<Rightarrow> nat \<Rightarrow> nat \<Rightarrow> nat \<Rightarrow> nat \<Rightarrow> (bool, 'z fs_state_scheme) kern" where
  "empty_loop 0 K i len bh off nr = kseq (brelse (Some bh)) (ret True)"
| "empty_loop (Suc n) K i len bh off nr =
     (if nr \<ge> len then kseq (brelse (Some bh)) (ret True)
      else let look = (\<lambda>b off.
             kbind (gets (\<lambda>s. entry_inr s (b, off))) (\<lambda>e.
             if e \<noteq> 0 then kseq (brelse (Some b)) (ret False)
             else empty_loop n K i len b (off + 16) (nr + 1))) in
        if off < BLOCK_SIZE then look bh off
        else kseq (brelse (Some bh))
         (kbind (get_diskBlock K i (int (nr div DIR_ENTRIES_PER_BLOCK))) (\<lambda>block.
          if block = 0 then empty_loop n K i len bh off (nr + DIR_ENTRIES_PER_BLOCK)
          else kbind (gets (\<lambda>s. i_dev (ino s i))) (\<lambda>dev.
            kbind (bread K dev (word_of_int block)) (\<lambda>r.
            case r of
              None \<Rightarrow> ret False
            | Some b \<Rightarrow> look b 0)))))"

definition is_empty_dir :: "'z fs_state_scheme ctx \<Rightarrow> nat \<Rightarrow> (bool, 'z fs_state_scheme) kern" where
  "is_empty_dir K i =
     kbind (gets (\<lambda>s. ino s i)) (\<lambda>n.
     let len = unat (i_size n) div 16;
         bad = kbind (gets (\<lambda>s. i_dev (ino s i))) (\<lambda>d.
               kseq (printk ''warning - bad directory on dev %04x'' [uint d]) (ret False)) in
     if len < 2 \<or> i_zone n ! 0 = 0 then bad
     else kbind (bread K (i_dev n) (ucast (i_zone n ! 0))) (\<lambda>r.
       case r of
         None \<Rightarrow> bad
       | Some bh \<Rightarrow>
           kbind (gets (\<lambda>s. let bs = b_data (buf s bh) in
              le16 bs 0 \<noteq> i_num (ino s i) \<or> le16 bs 16 = 0
              \<or> \<not> (bs ! 2 = 0x2e \<and> bs ! 3 = 0) \<or> \<not> (bs ! 18 = 0x2e \<and> bs ! 19 = 0x2e \<and> bs ! 20 = 0))) (\<lambda>wrong.
           if wrong then bad else empty_loop (Suc len) K i len bh 32 2)))"

definition sys_rmdir :: "'z fs_state_scheme ctx \<Rightarrow> u32 \<Rightarrow> (int, 'z fs_state_scheme) kern" where
  "sys_rmdir K name =
     kbind (gets suser) (\<lambda>su.
     if \<not> su then ret (- EPERM)
     else kbind (writable_dir K name) (\<lambda>w.
       case w of
         Inl c \<Rightarrow> ret c
       | Inr (dir0, base, namelen) \<Rightarrow>
           kbind (find_entry K dir0 base namelen) (\<lambda>r.
           let dir = fst r in
           case snd r of
             None \<Rightarrow> give_up K [dir] (- ENOENT)
           | Some de \<Rightarrow>
               kbind (gets (\<lambda>s. (i_dev (ino s dir), entry_inr s de))) (\<lambda>x.
               kbind (iget K (fst x) (snd x)) (\<lambda>i.
               let leave = (\<lambda>is code. kbind (give_up K is code) (\<lambda>c. kseq (brelse (Some (fst de))) (ret c))) in
               kbind (gets (\<lambda>s. (ino s dir, ino s i, t_euid (cur s)))) (\<lambda>y.
               let d = fst y; n = fst (snd y); euid = snd (snd y) in
               if i_mode d AND S_ISVTX \<noteq> 0 \<and> euid \<noteq> 0 \<and> i_uid n \<noteq> euid then leave [dir, i] (- EPERM)
               else if i_dev n \<noteq> i_dev d \<or> i_count n > 1 then leave [dir, i] (- EPERM)
               else if i = dir then leave [i, dir] (- EPERM)
               else if \<not> S_ISDIR (i_mode n) then leave [i, dir] (- ENOTDIR)
               else kbind (is_empty_dir K i) (\<lambda>e.
                 if \<not> e then leave [i, dir] (- ENOTEMPTY)
                 else kbind (gets (\<lambda>s. i_nlinks (ino s i))) (\<lambda>nl.
                   kseq (kwhen (nl \<noteq> 2) (printk ''empty directory has nlink!=2 (%d)'' [uint nl]))
                  (kseq (modify (set_entry de 0))
                  (kseq (brelse (Some (fst de)))
                  (kseq (modify (upd_ino i (\<lambda>n. n\<lparr>i_nlinks := 0, i_dirt := 1\<rparr>)))
                  (kseq (modify (\<lambda>s. upd_ino dir (\<lambda>n. n\<lparr>i_nlinks := i_nlinks n - 1,
                           i_ctime := word_of_int (CURRENT_TIME s), i_mtime := word_of_int (CURRENT_TIME s),
                           i_dirt := 1\<rparr>) s))
                        (give_up K [dir, i] 0)))))))))))))"

definition sys_unlink :: "'z fs_state_scheme ctx \<Rightarrow> u32 \<Rightarrow> (int, 'z fs_state_scheme) kern" where
  "sys_unlink K name =
     kbind (writable_dir K name) (\<lambda>w.
     case w of
       Inl c \<Rightarrow> ret c
     | Inr (dir0, base, namelen) \<Rightarrow>
         kbind (find_entry K dir0 base namelen) (\<lambda>r.
         let dir = fst r in
         case snd r of
           None \<Rightarrow> give_up K [dir] (- ENOENT)
         | Some de \<Rightarrow>
             kbind (gets (\<lambda>s. (i_dev (ino s dir), entry_inr s de))) (\<lambda>x.
             kbind (iget K (fst x) (snd x)) (\<lambda>i.
             let leave = (\<lambda>is code. kbind (give_up K is code) (\<lambda>c. kseq (brelse (Some (fst de))) (ret c))) in
             kbind (gets (\<lambda>s. (ino s dir, ino s i, t_euid (cur s), suser s))) (\<lambda>y.
             let d = fst y; n = fst (snd y); euid = fst (snd (snd y)); su = snd (snd (snd y)) in
             if i_mode d AND S_ISVTX \<noteq> 0 \<and> \<not> su \<and> euid \<noteq> i_uid n \<and> euid \<noteq> i_uid d
             then leave [dir, i] (- EPERM)
             else if S_ISDIR (i_mode n) then leave [i, dir] (- EPERM)
             else kseq (kwhen (i_nlinks n = 0)
                    (kseq (printk ''Deleting nonexistent file (%04x:%d), %d'' [uint (i_dev n), uint (i_num n), 0])
                          (modify (upd_ino i (\<lambda>n. n\<lparr>i_nlinks := 1\<rparr>)))))
                 (kseq (modify (set_entry de 0))
                 (kseq (brelse (Some (fst de)))
                 (kseq (modify (\<lambda>s. upd_ino i (\<lambda>n. n\<lparr>i_nlinks := i_nlinks n - 1, i_dirt := 1,
                          i_ctime := word_of_int (CURRENT_TIME s)\<rparr>) s))
                       (give_up K [i, dir] 0)))))))))"

definition sys_link :: "'z fs_state_scheme ctx \<Rightarrow> u32 \<Rightarrow> u32 \<Rightarrow> (int, 'z fs_state_scheme) kern" where
  "sys_link K oldname newname =
     kbind (namei K oldname) (\<lambda>o_i.
     case o_i of
       None \<Rightarrow> ret (- ENOENT)
     | Some old \<Rightarrow>
         kbind (gets (\<lambda>s. S_ISDIR (i_mode (ino s old)))) (\<lambda>isdir.
         if isdir then give_up K [old] (- EPERM)
         else kbind (dir_namei K newname) (\<lambda>d.
           case d of
             None \<Rightarrow> give_up K [old] (- EACCES)
           | Some (dir0, base, namelen) \<Rightarrow>
               if namelen = 0 then give_up K [old, dir0] (- EPERM)
               else kbind (gets (\<lambda>s. i_dev (ino s dir0) \<noteq> i_dev (ino s old))) (\<lambda>xdev.
                 if xdev then give_up K [dir0, old] (- EXDEV)
                 else kbind (gets (\<lambda>s. permission s dir0 MAY_WRITE)) (\<lambda>ok.
                   if \<not> ok then give_up K [dir0, old] (- EACCES)
                   else kbind (find_entry K dir0 base namelen) (\<lambda>r.
                     let dir = fst r in
                     case snd r of
                       Some de \<Rightarrow> kseq (brelse (Some (fst de))) (give_up K [dir, old] (- EEXIST))
                     | None \<Rightarrow>
                         kbind (add_entry K dir base namelen) (\<lambda>e.
                         case e of
                           None \<Rightarrow> give_up K [dir, old] (- ENOSPC)
                         | Some de \<Rightarrow>
                             kseq (modify (\<lambda>s. set_entry de (i_num (ino s old)) s))
                            (kseq (brelse (Some (fst de)))
                            (kseq (iput K (Some dir))
                            (kseq (modify (\<lambda>s. upd_ino old (\<lambda>n. n\<lparr>i_nlinks := i_nlinks n + 1,
                                     i_ctime := word_of_int (CURRENT_TIME s), i_dirt := 1\<rparr>) s))
                                  (give_up K [old] 0)))))))))))"

section \<open>Mounting\<close>

text \<open>\<open>sys_umount\<close> and \<open>sys_mount\<close> of \<^verbatim>\<open>fs/super.c\<close>.\<close>

definition sys_umount :: "'z fs_state_scheme ctx \<Rightarrow> u32 \<Rightarrow> (int, 'z fs_state_scheme) kern" where
  "sys_umount K dev_name =
     kbind (namei K dev_name) (\<lambda>r.
     case r of
       None \<Rightarrow> ret (- ENOENT)
     | Some i \<Rightarrow>
         kbind (gets (\<lambda>s. (i_zone (ino s i) ! 0, S_ISBLK (i_mode (ino s i))))) (\<lambda>x.
         let dev = fst x in
         if \<not> snd x then give_up K [i] (- ENOTBLK)
         else kseq (iput K (Some i))
          (kbind (gets ROOT_DEV) (\<lambda>root.
           if dev = root then ret (- EBUSY)
           else kbind (check_in_superb (fst K) dev) (\<lambda>sb.
             case sb of
               None \<Rightarrow> ret (- ENOENT)
             | Some k \<Rightarrow>
                 kbind (gets (\<lambda>s. s_inode_mount (sup s k))) (\<lambda>m.
                 case m of
                   None \<Rightarrow> ret (- ENOENT)
                 | Some mi \<Rightarrow>
                     kbind (gets (\<lambda>s. i_mount (ino s mi))) (\<lambda>im.
                     kseq (kwhen (im = 0) (printk ''Mounted inode has i_mount=0'' []))
                    (kbind (gets (\<lambda>s. \<exists>j < NR_INODE. i_dev (ino s j) = dev \<and> i_count (ino s j) \<noteq> 0)) (\<lambda>busy.
                     if busy then ret (- EBUSY)
                     else kseq (modify (upd_ino mi (\<lambda>n. n\<lparr>i_mount := 0\<rparr>)))
                         (kseq (iput K (Some mi))
                         (kseq (modify (upd_sup k (\<lambda>b. b\<lparr>s_inode_mount := None\<rparr>)))
                         (kbind (gets (\<lambda>s. s_inode_super (sup s k))) (\<lambda>is.
                          kseq (iput K is)
                         (kseq (modify (upd_sup k (\<lambda>b. b\<lparr>s_inode_super := None\<rparr>)))
                         (kseq (release_super (fst K) dev)
                         (kseq (sync_dev K dev)
                               (ret 0)))))))))))))))))"

definition sys_mount :: "'z fs_state_scheme ctx \<Rightarrow> u32 \<Rightarrow> u32 \<Rightarrow> (int, 'z fs_state_scheme) kern" where
  "sys_mount K dev_name dir_name =
     kbind (namei K dev_name) (\<lambda>r.
     case r of
       None \<Rightarrow> ret (- ENOENT)
     | Some dev_i \<Rightarrow>
         kbind (gets (\<lambda>s. (i_zone (ino s dev_i) ! 0, S_ISBLK (i_mode (ino s dev_i))))) (\<lambda>x.
         let dev = fst x in
         if \<not> snd x then give_up K [dev_i] (- EPERM)
         else kseq (iput K (Some dev_i))
          (kbind (namei K dir_name) (\<lambda>d.
           case d of
             None \<Rightarrow> ret (- ENOENT)
           | Some dir \<Rightarrow>
               kbind (gets (\<lambda>s. ino s dir)) (\<lambda>n.
               if i_count n \<noteq> 1 \<or> i_num n = ROOT_INO then give_up K [dir] (- EBUSY)
               else if \<not> S_ISDIR (i_mode n) then give_up K [dir] (- EPERM)
               else kbind (read_super K dev) (\<lambda>sb.
                 case sb of
                   None \<Rightarrow> give_up K [dir] (- EBUSY)
                 | Some k \<Rightarrow>
                     kbind (gets (\<lambda>s. (s_inode_mount (sup s k), i_mount (ino s dir)))) (\<lambda>y.
                     if fst y \<noteq> None then give_up K [dir] (- EBUSY)
                     else if snd y \<noteq> 0 then give_up K [dir] (- EPERM)
                     else kseq (modify (upd_sup k (\<lambda>b. b\<lparr>s_inode_mount := Some dir\<rparr>)))
                         (kseq (modify (upd_ino dir (\<lambda>n. n\<lparr>i_mount := 1, i_dirt := 1\<rparr>)))
                               (ret 0)))))))))"

section \<open>Entries of a directory\<close>

lemma overlay_nth:
  assumes "off + length new \<le> length bs" and "x < length bs"
  shows "overlay off new bs ! x = (if off \<le> x \<and> x < off + length new then new ! (x - off) else bs ! x)"
  using assms by (auto simp: overlay_def nth_append not_le not_less min_def)

lemma le16_put16: "le16 (put16 w) 0 = w"
  unfolding le16_def put16_def by (rule bit_word_eqI) (auto simp: bit_simps)

text \<open>The sixteen bytes of an entry, once \<open>add_entry\<close> has written the name and its caller the number.\<close>

definition entry_bytes :: "(u32 \<Rightarrow> u8) \<Rightarrow> u32 \<Rightarrow> nat \<Rightarrow> u16 \<Rightarrow> u8 list" where
  "entry_bytes um name namelen nr = put16 nr @ map (\<lambda>k. if k < namelen then um (name + of_nat k) else 0) [0..<14]"

lemma match_entry_written:
  assumes "bs = overlay off (entry_bytes um name namelen nr) bs0" and "off + 16 \<le> length bs0" and "nr \<noteq> 0"
    and "namelen \<le> 14" and "len \<le> 14"
    and "\<forall>k < namelen. um (name + of_nat k) \<noteq> 0" and "\<forall>k < len. um (name' + of_nat k) \<noteq> 0"
  shows "match_entry um len name' bs off \<longleftrightarrow> len = namelen \<and> (\<forall>k < len. um (name' + of_nat k) = um (name + of_nat k))"
proof -
  have "length (entry_bytes um name namelen nr) = 16" by (simp add: entry_bytes_def put16_def)
  then have byte: "bs ! (off + x) = entry_bytes um name namelen nr ! x" if "x < 16" for x
    using nth_overlay [of off bs0 x] assms(1,2) that by simp
  have name: "bs ! (off + 2 + k) = (if k < namelen then um (name + of_nat k) else 0)" if "k < 14" for k
    using byte [of "2 + k"] that by (simp add: entry_bytes_def put16_def add.assoc)
  have "le16 bs off = le16 (put16 nr) 0"
    using byte [of 0] byte [of 1] by (simp add: le16_def entry_bytes_def put16_def)
  then have nr: "le16 bs off \<noteq> 0" using assms(3) by (simp add: le16_put16)
  show ?thesis
  proof
    assume m: "match_entry um len name' bs off"
    then have same: "um (name' + of_nat k) = (if k < namelen then um (name + of_nat k) else 0)" if "k < len" for k
      using name [of k] that assms(5) by (simp add: match_entry_def)
    have "\<not> namelen < len" using same [of namelen] assms(7) by auto
    moreover have "\<not> len < namelen" using m name [of len] assms(4,6) by (auto simp: match_entry_def)
    ultimately show "len = namelen \<and> (\<forall>k < len. um (name' + of_nat k) = um (name + of_nat k))" using same by auto
  next
    assume "len = namelen \<and> (\<forall>k < len. um (name' + of_nat k) = um (name + of_nat k))"
    then show "match_entry um len name' bs off" using nr name assms(5) by (auto simp: match_entry_def)
  qed
qed

end
