(* ===== verification/Tty.thy ===== *)
theory Tty
  imports Files
begin

unbundle bit_operations_syntax

text \<open>
  Terminals: \<^verbatim>\<open>include/linux/tty.h\<close>, \<^verbatim>\<open>kernel/chr_drv/tty_io.c\<close>,
  \<^verbatim>\<open>tty_ioctl.c\<close> and \<^verbatim>\<open>serial.c\<close>, with the character classes of
  \<^verbatim>\<open>include/ctype.h\<close> and \<^verbatim>\<open>lib/ctype.c\<close>.

  A terminal is its position in \<open>tty_table\<close>, and a queue is a terminal and one of its three
  queues. The function pointer \<open>write\<close> of a terminal, \<open>con_write\<close> or \<open>rs_write\<close>, is
  the parameter \<open>wr\<close>. A character is the byte it is stored in; where the sources compare a
  \<open>signed char\<close> with a number, so does the model.
\<close>

section \<open>Character classes\<close>

definition U_class :: u8 where "U_class = 0x01"
definition L_class :: u8 where "L_class = 0x02"
definition D_class :: u8 where "D_class = 0x04"
definition C_class :: u8 where "C_class = 0x08"
definition P_class :: u8 where "P_class = 0x10"
definition S_class :: u8 where "S_class = 0x20"
definition X_class :: u8 where "X_class = 0x40"
definition SP_class :: u8 where "SP_class = 0x80"

lemmas class_defs = U_class_def L_class_def D_class_def C_class_def P_class_def S_class_def
  X_class_def SP_class_def

text \<open>The table, from the class of \<open>EOF\<close> on.\<close>

definition ctype_table :: "u8 list" where
  "ctype_table = [0]
     @ replicate 9 C_class @ replicate 5 (C_class OR S_class) @ replicate 18 C_class
     @ [S_class OR SP_class] @ replicate 15 P_class
     @ replicate 10 D_class @ replicate 7 P_class
     @ replicate 6 (U_class OR X_class) @ replicate 20 U_class @ replicate 6 P_class
     @ replicate 6 (L_class OR X_class) @ replicate 20 L_class @ replicate 4 P_class @ [C_class]
     @ replicate 128 0"

text \<open>\<open>(_ctype+1)[c]\<close>; what lies before the table has no class here.\<close>

definition ctype_of :: "int \<Rightarrow> u8" where
  "ctype_of c = (if c < - 1 \<or> c > 255 then 0 else ctype_table ! nat (c + 1))"

definition isupper :: "int \<Rightarrow> bool" where "isupper c \<longleftrightarrow> ctype_of c AND U_class \<noteq> 0"
definition islower :: "int \<Rightarrow> bool" where "islower c \<longleftrightarrow> ctype_of c AND L_class \<noteq> 0"
definition isdigit :: "int \<Rightarrow> bool" where "isdigit c \<longleftrightarrow> ctype_of c AND D_class \<noteq> 0"
definition isalpha :: "int \<Rightarrow> bool" where "isalpha c \<longleftrightarrow> ctype_of c AND (U_class OR L_class) \<noteq> 0"
definition isspace :: "int \<Rightarrow> bool" where "isspace c \<longleftrightarrow> ctype_of c AND S_class \<noteq> 0"
definition isxdigit :: "int \<Rightarrow> bool" where "isxdigit c \<longleftrightarrow> ctype_of c AND (D_class OR X_class) \<noteq> 0"
definition tolower :: "int \<Rightarrow> int" where "tolower c = (if isupper c then c + 32 else c)"
definition toupper :: "int \<Rightarrow> int" where "toupper c = (if islower c then c - 32 else c)"

section \<open>State\<close>

record tty_queue =
  tq_data :: u32
  tq_head :: u32
  tq_tail :: u32
  tq_proc_list :: u32
  tq_buf :: "u8 list"

text \<open>\<open>struct termios\<close> is 36 bytes, the last two of them padding.\<close>

record termios =
  c_iflag :: u32
  c_oflag :: u32
  c_cflag :: u32
  c_lflag :: u32
  c_line :: u8
  c_cc :: "u8 list"
  c_pad :: "u8 list"

record tty_struct =
  tty_termios :: termios
  tty_pgrp :: int
  tty_stopped :: int
  tty_read_q :: tty_queue
  tty_write_q :: tty_queue
  tty_secondary :: tty_queue

record tty_state = fs_state +
  tty_table :: "tty_struct list"
  cr_flag :: bool

datatype qsel = Read_q | Write_q | Secondary

definition tty :: "'z tty_state_scheme \<Rightarrow> nat \<Rightarrow> tty_struct" where
  "tty s ch = tty_table s ! ch"

definition upd_tty ::
  "nat \<Rightarrow> (tty_struct \<Rightarrow> tty_struct) \<Rightarrow> 'z tty_state_scheme \<Rightarrow> 'z tty_state_scheme" where
  "upd_tty ch f s = s\<lparr>tty_table := upd_nth ch f (tty_table s)\<rparr>"

definition queue :: "'z tty_state_scheme \<Rightarrow> nat \<times> qsel \<Rightarrow> tty_queue" where
  "queue s q = (case snd q of Read_q \<Rightarrow> tty_read_q (tty s (fst q))
     | Write_q \<Rightarrow> tty_write_q (tty s (fst q)) | Secondary \<Rightarrow> tty_secondary (tty s (fst q)))"

definition upd_queue ::
  "nat \<times> qsel \<Rightarrow> (tty_queue \<Rightarrow> tty_queue) \<Rightarrow> 'z tty_state_scheme \<Rightarrow> 'z tty_state_scheme" where
  "upd_queue q f = upd_tty (fst q) (\<lambda>t. case snd q of
       Read_q \<Rightarrow> t\<lparr>tty_read_q := f (tty_read_q t)\<rparr>
     | Write_q \<Rightarrow> t\<lparr>tty_write_q := f (tty_write_q t)\<rparr>
     | Secondary \<Rightarrow> t\<lparr>tty_secondary := f (tty_secondary t)\<rparr>)"

section \<open>Queues\<close>

abbreviation (input) TTY_BUF_SIZE :: nat where "TTY_BUF_SIZE \<equiv> 1024"

definition INC :: "u32 \<Rightarrow> u32" where "INC a = (a + 1) AND 1023"
definition DEC :: "u32 \<Rightarrow> u32" where "DEC a = (a - 1) AND 1023"
definition EMPTY :: "tty_queue \<Rightarrow> bool" where "EMPTY q \<longleftrightarrow> tq_head q = tq_tail q"
definition LEFT :: "tty_queue \<Rightarrow> u32" where "LEFT q = (tq_tail q - tq_head q - 1) AND 1023"
definition LAST :: "tty_queue \<Rightarrow> u8" where "LAST q = tq_buf q ! unat ((tq_head q - 1) AND 1023)"
definition FULL :: "tty_queue \<Rightarrow> bool" where "FULL q \<longleftrightarrow> LEFT q = 0"
definition CHARS :: "tty_queue \<Rightarrow> u32" where "CHARS q = (tq_head q - tq_tail q) AND 1023"

text \<open>\<open>GETCH\<close>: the character, and the queue without it.\<close>

definition GETCH_char :: "tty_queue \<Rightarrow> u8" where
  "GETCH_char q = tq_buf q ! unat (tq_tail q)"

definition GETCH :: "tty_queue \<Rightarrow> tty_queue" where
  "GETCH q = q\<lparr>tq_tail := INC (tq_tail q)\<rparr>"

definition PUTCH :: "u8 \<Rightarrow> tty_queue \<Rightarrow> tty_queue" where
  "PUTCH c q = q\<lparr>tq_buf := (tq_buf q)[unat (tq_head q) := c], tq_head := INC (tq_head q)\<rparr>"

definition proc_queue :: "nat \<times> qsel \<Rightarrow> 'z tty_state_scheme waitq" where
  "proc_queue q = (\<lambda>s. tq_proc_list (queue s q), \<lambda>v. upd_queue q (\<lambda>x. x\<lparr>tq_proc_list := v\<rparr>))"

section \<open>Flags\<close>

abbreviation (input) VINTR :: nat where "VINTR \<equiv> 0"
abbreviation (input) VQUIT :: nat where "VQUIT \<equiv> 1"
abbreviation (input) VERASE :: nat where "VERASE \<equiv> 2"
abbreviation (input) VKILL :: nat where "VKILL \<equiv> 3"
abbreviation (input) VEOF :: nat where "VEOF \<equiv> 4"
abbreviation (input) VTIME :: nat where "VTIME \<equiv> 5"
abbreviation (input) VMIN :: nat where "VMIN \<equiv> 6"
abbreviation (input) VSTART :: nat where "VSTART \<equiv> 8"
abbreviation (input) VSTOP :: nat where "VSTOP \<equiv> 9"

definition L_FLAG :: "u32 \<Rightarrow> tty_struct \<Rightarrow> bool" where "L_FLAG f t \<longleftrightarrow> c_lflag (tty_termios t) AND f \<noteq> 0"
definition I_FLAG :: "u32 \<Rightarrow> tty_struct \<Rightarrow> bool" where "I_FLAG f t \<longleftrightarrow> c_iflag (tty_termios t) AND f \<noteq> 0"
definition O_FLAG :: "u32 \<Rightarrow> tty_struct \<Rightarrow> bool" where "O_FLAG f t \<longleftrightarrow> c_oflag (tty_termios t) AND f \<noteq> 0"

abbreviation (input) L_ISIG :: "tty_struct \<Rightarrow> bool" where "L_ISIG \<equiv> L_FLAG 0x1"
abbreviation (input) L_CANON :: "tty_struct \<Rightarrow> bool" where "L_CANON \<equiv> L_FLAG 0x2"
abbreviation (input) L_ECHO :: "tty_struct \<Rightarrow> bool" where "L_ECHO \<equiv> L_FLAG 0x8"
abbreviation (input) L_ECHOCTL :: "tty_struct \<Rightarrow> bool" where "L_ECHOCTL \<equiv> L_FLAG 0x200"
abbreviation (input) I_NLCR :: "tty_struct \<Rightarrow> bool" where "I_NLCR \<equiv> I_FLAG 0x40"
abbreviation (input) I_NOCR :: "tty_struct \<Rightarrow> bool" where "I_NOCR \<equiv> I_FLAG 0x80"
abbreviation (input) I_CRNL :: "tty_struct \<Rightarrow> bool" where "I_CRNL \<equiv> I_FLAG 0x100"
abbreviation (input) I_UCLC :: "tty_struct \<Rightarrow> bool" where "I_UCLC \<equiv> I_FLAG 0x200"
abbreviation (input) O_POST :: "tty_struct \<Rightarrow> bool" where "O_POST \<equiv> O_FLAG 0x1"
abbreviation (input) O_LCUC :: "tty_struct \<Rightarrow> bool" where "O_LCUC \<equiv> O_FLAG 0x2"
abbreviation (input) O_NLCR :: "tty_struct \<Rightarrow> bool" where "O_NLCR \<equiv> O_FLAG 0x4"
abbreviation (input) O_CRNL :: "tty_struct \<Rightarrow> bool" where "O_CRNL \<equiv> O_FLAG 0x8"
abbreviation (input) O_NLRET :: "tty_struct \<Rightarrow> bool" where "O_NLRET \<equiv> O_FLAG 0x20"

text \<open>The control character \<open>v\<close>, an unsigned byte compared with a signed one.\<close>

definition is_cc :: "nat \<Rightarrow> tty_struct \<Rightarrow> u8 \<Rightarrow> bool" where
  "is_cc v t c \<longleftrightarrow> sint c = uint (c_cc (tty_termios t) ! v)"

section \<open>Input\<close>

definition SIGINT_mask :: u32 where "SIGINT_mask = S_bit 2"
definition SIGQUIT_mask :: u32 where "SIGQUIT_mask = S_bit 3"
definition ALRMMASK :: u32 where "ALRMMASK = S_bit SIGALRM"

definition tty_intr :: "nat \<Rightarrow> u32 \<Rightarrow> (unit, 'z tty_state_scheme) kern" where
  "tty_intr ch sigs =
     kbind (gets (\<lambda>s. tty_pgrp (tty s ch))) (\<lambda>pgrp.
     if pgrp \<le> 0 then skip
     else kfor [0..<NR_TASKS] (\<lambda>i. modify (\<lambda>s.
       if task s ! i \<noteq> 0 \<and> t_pgrp (tasks s (task s ! i)) = pgrp
       then upd_task (task s ! i) (\<lambda>t. t\<lparr>t_signal := t_signal t OR sigs\<rparr>) s else s)))"

primrec sleep_while ::
  "nat \<Rightarrow> (tty_queue \<Rightarrow> bool) \<Rightarrow> nat \<times> qsel \<Rightarrow> (unit, 'z tty_state_scheme) kern" where
  "sleep_while 0 p q = kloops"
| "sleep_while (Suc n) p q =
     kbind (gets (\<lambda>s. t_signal (cur s) = 0 \<and> p (queue s q))) (\<lambda>w.
     if w then kseq (interruptible_sleep_on n (proc_queue q)) (sleep_while n p q) else skip)"

definition sleep_if_empty :: "nat \<Rightarrow> nat \<times> qsel \<Rightarrow> (unit, 'z tty_state_scheme) kern" where
  "sleep_if_empty fuel q = sleep_while fuel EMPTY q"

definition sleep_if_full :: "nat \<Rightarrow> nat \<times> qsel \<Rightarrow> (unit, 'z tty_state_scheme) kern" where
  "sleep_if_full fuel q =
     kbind (gets (\<lambda>s. FULL (queue s q))) (\<lambda>full.
     if \<not> full then skip else sleep_while fuel (\<lambda>x. LEFT x < 128) q)"

definition wait_for_keypress :: "nat \<Rightarrow> (unit, 'z tty_state_scheme) kern" where
  "wait_for_keypress fuel = sleep_if_empty fuel (0, Secondary)"

definition putq :: "u8 \<Rightarrow> nat \<times> qsel \<Rightarrow> (unit, 'z tty_state_scheme) kern" where
  "putq c q = modify (upd_queue q (PUTCH c))"

text \<open>What \<open>ERASE\<close> and \<open>KILL\<close> do to one character: echo it and take it back.\<close>

definition at_line_start :: "tty_struct \<Rightarrow> bool" where
  "at_line_start t \<longleftrightarrow> EMPTY (tty_secondary t) \<or> LAST (tty_secondary t) = 10 \<or> is_cc VEOF t (LAST (tty_secondary t))"

definition erase1 :: "(nat \<Rightarrow> (unit, 'z tty_state_scheme) kern) \<Rightarrow> nat \<Rightarrow> (unit, 'z tty_state_scheme) kern" where
  "erase1 wr ch =
     kbind (gets (\<lambda>s. tty s ch)) (\<lambda>t.
     kseq (kwhen (L_ECHO t)
       (kseq (kwhen (sint (LAST (tty_secondary t)) < 32) (putq 127 (ch, Write_q)))
       (kseq (putq 127 (ch, Write_q)) (wr ch))))
     (modify (upd_queue (ch, Secondary) (\<lambda>q. q\<lparr>tq_head := DEC (tq_head q)\<rparr>))))"

primrec kill_line ::
  "nat \<Rightarrow> (nat \<Rightarrow> (unit, 'z tty_state_scheme) kern) \<Rightarrow> nat \<Rightarrow> (unit, 'z tty_state_scheme) kern" where
  "kill_line 0 wr ch = kloops"
| "kill_line (Suc n) wr ch =
     kbind (gets (\<lambda>s. at_line_start (tty s ch))) (\<lambda>stop.
     if stop then skip else kseq (erase1 wr ch) (kill_line n wr ch))"

text \<open>The translation of an incoming character; \<open>None\<close> when it is dropped.\<close>

definition input_char :: "tty_struct \<Rightarrow> u8 \<Rightarrow> u8 option" where
  "input_char t c0 =
     (if c0 = 13 \<and> \<not> I_CRNL t \<and> I_NOCR t then None
      else let c1 = (if c0 = 13 then (if I_CRNL t then 10 else 13)
                     else if c0 = 10 \<and> I_NLCR t then 13 else c0) in
        Some (if I_UCLC t then word_of_int (tolower (sint c1)) else c1))"

definition echo_char ::
  "(nat \<Rightarrow> (unit, 'z tty_state_scheme) kern) \<Rightarrow> nat \<Rightarrow> u8 \<Rightarrow> (unit, 'z tty_state_scheme) kern" where
  "echo_char wr ch c =
     kbind (gets (\<lambda>s. tty s ch)) (\<lambda>t.
     kwhen (L_ECHO t)
       (kseq (if c = 10 then kseq (putq 10 (ch, Write_q)) (putq 13 (ch, Write_q))
              else if sint c < 32 then
                kwhen (L_ECHOCTL t) (kseq (putq 0x5e (ch, Write_q)) (putq (c + 64) (ch, Write_q)))
              else putq c (ch, Write_q))
             (wr ch)))"

text \<open>One pass of the loop of \<open>copy_to_cooked\<close>, for a character that was not dropped.\<close>

definition cook ::
  "(nat \<Rightarrow> (unit, 'z tty_state_scheme) kern) \<Rightarrow> nat \<Rightarrow> u8 \<Rightarrow> (unit, 'z tty_state_scheme) kern" where
  "cook wr ch c =
     kbind (gets (\<lambda>s. tty s ch)) (\<lambda>t.
     if L_CANON t \<and> is_cc VKILL t c then kill_line (Suc TTY_BUF_SIZE) wr ch
     else if L_CANON t \<and> is_cc VERASE t c then (if at_line_start t then skip else erase1 wr ch)
     else if L_CANON t \<and> is_cc VSTOP t c then modify (upd_tty ch (\<lambda>t. t\<lparr>tty_stopped := 1\<rparr>))
     else if L_CANON t \<and> is_cc VSTART t c then modify (upd_tty ch (\<lambda>t. t\<lparr>tty_stopped := 0\<rparr>))
     else if L_ISIG t \<and> is_cc VINTR t c then tty_intr ch SIGINT_mask
     else if L_ISIG t \<and> is_cc VQUIT t c then tty_intr ch SIGQUIT_mask
     else kseq (kwhen (c = 10 \<or> is_cc VEOF t c)
            (modify (upd_queue (ch, Secondary) (\<lambda>q. q\<lparr>tq_data := tq_data q + 1\<rparr>))))
         (kseq (echo_char wr ch c)
               (putq c (ch, Secondary))))"

primrec cook_loop ::
  "nat \<Rightarrow> (nat \<Rightarrow> (unit, 'z tty_state_scheme) kern) \<Rightarrow> nat \<Rightarrow> (unit, 'z tty_state_scheme) kern" where
  "cook_loop 0 wr ch = kloops"
| "cook_loop (Suc n) wr ch =
     kbind (gets (\<lambda>s. tty s ch)) (\<lambda>t.
     if EMPTY (tty_read_q t) \<or> FULL (tty_secondary t) then skip
     else kseq (modify (upd_queue (ch, Read_q) GETCH))
         (kseq (case input_char t (GETCH_char (tty_read_q t)) of None \<Rightarrow> skip | Some c \<Rightarrow> cook wr ch c)
               (cook_loop n wr ch)))"

definition copy_to_cooked ::
  "nat \<Rightarrow> (nat \<Rightarrow> (unit, 'z tty_state_scheme) kern) \<Rightarrow> nat \<Rightarrow> (unit, 'z tty_state_scheme) kern" where
  "copy_to_cooked fuel wr ch = kseq (cook_loop fuel wr ch) (wake_up_last (proc_queue (ch, Secondary)))"

definition do_tty_interrupt ::
  "nat \<Rightarrow> (nat \<Rightarrow> (unit, 'z tty_state_scheme) kern) \<Rightarrow> nat \<Rightarrow> (unit, 'z tty_state_scheme) kern" where
  "do_tty_interrupt fuel wr ch = copy_to_cooked fuel wr ch"

section \<open>Reading\<close>

text \<open>The inner loop of \<open>tty_read\<close>: \<open>Inl\<close> the count when an end of file ends the call,
  \<open>Inr\<close> the count and what is left to read otherwise.\<close>

primrec read_run ::
  "nat \<Rightarrow> nat \<Rightarrow> u32 \<Rightarrow> int \<Rightarrow> int \<Rightarrow> (int + int \<times> int, 'z tty_state_scheme) kern" where
  "read_run 0 ch ubuf got nr = kloops"
| "read_run (Suc n) ch ubuf got nr =
     kbind (gets (\<lambda>s. tty s ch)) (\<lambda>t.
     let c = GETCH_char (tty_secondary t) in
     kseq (modify (upd_queue (ch, Secondary) GETCH))
    (kseq (kwhen (is_cc VEOF t c \<or> c = 10)
            (modify (upd_queue (ch, Secondary) (\<lambda>q. q\<lparr>tq_data := tq_data q - 1\<rparr>))))
     (if is_cc VEOF t c \<and> L_CANON t then ret (Inl got)
      else kseq (put_fs_byte c (ubuf + word_of_int got))
       (if nr - 1 = 0 then ret (Inr (got + 1, 0))
        else kbind (gets (\<lambda>s. EMPTY (queue s (ch, Secondary)))) (\<lambda>e.
          if nr - 1 > 0 \<and> \<not> e then read_run n ch ubuf (got + 1) (nr - 1)
          else ret (Inr (got + 1, nr - 1)))))))"

definition set_alarm :: "int \<Rightarrow> (unit, 'z tty_state_scheme) kern" where
  "set_alarm a = upd_cur (\<lambda>t. t\<lparr>t_alarm := a\<rparr>)"

text \<open>The outer loop: the value returned at once, or the count at a \<open>break\<close> or at the end.\<close>

primrec read_loop ::
  "nat \<Rightarrow> nat \<Rightarrow> u32 \<Rightarrow> int \<Rightarrow> int \<Rightarrow> int \<Rightarrow> bool \<Rightarrow> int \<Rightarrow> int \<Rightarrow> (int + int, 'z tty_state_scheme) kern" where
  "read_loop 0 ch ubuf oldalarm time minimum flag got nr = kloops"
| "read_loop (Suc n) ch ubuf oldalarm time minimum flag got nr =
     (if nr \<le> 0 then ret (Inr got)
      else kbind (gets (\<lambda>s. (t_signal (cur s), tty s ch, jiffies s))) (\<lambda>x.
        let sig = fst x; t = fst (snd x) in
        if flag \<and> sig AND ALRMMASK \<noteq> 0 then
          kseq (upd_cur (\<lambda>t. t\<lparr>t_signal := t_signal t AND NOT ALRMMASK\<rparr>)) (ret (Inr got))
        else if sig \<noteq> 0 then ret (Inr got)
        else if EMPTY (tty_secondary t) \<or>
                (L_CANON t \<and> tq_data (tty_secondary t) = 0 \<and> LEFT (tty_secondary t) > 20) then
          kseq (sleep_if_empty n (ch, Secondary)) (read_loop n ch ubuf oldalarm time minimum flag got nr)
        else kbind (read_run (Suc TTY_BUF_SIZE) ch ubuf got nr) (\<lambda>r.
          case r of
            Inl k \<Rightarrow> ret (Inl k)
          | Inr (got', nr') \<Rightarrow>
              kbind (gets (\<lambda>s. (tty s ch, jiffies s))) (\<lambda>y.
              let t = fst y; soon = (oldalarm = 0 \<or> time + snd y < oldalarm);
                  timed = (time \<noteq> 0 \<and> \<not> L_CANON t) in
              kseq (kwhen timed (set_alarm (if soon then time + snd y else oldalarm)))
              (if (if L_CANON t then got' \<noteq> 0 else got' \<ge> minimum) then ret (Inr got')
               else read_loop n ch ubuf oldalarm time minimum (if timed then soon else flag) got' nr')))))"

definition tty_read :: "nat \<Rightarrow> nat \<Rightarrow> u32 \<Rightarrow> int \<Rightarrow> (int, 'z tty_state_scheme) kern" where
  "tty_read fuel channel ubuf nr =
     (if channel > 2 \<or> nr < 0 then ret (- 1)
      else kbind (gets (\<lambda>s. (t_alarm (cur s), tty s channel, jiffies s))) (\<lambda>x.
        let oldalarm = fst x; cc = c_cc (tty_termios (fst (snd x))); now = snd (snd x);
            time = 10 * uint (cc ! VTIME); min0 = uint (cc ! VMIN);
            timed = (time \<noteq> 0 \<and> min0 = 0);
            flag = (timed \<and> (oldalarm = 0 \<or> time + now < oldalarm));
            minimum = min nr (if timed then 1 else min0) in
        kseq (kwhen flag (set_alarm (time + now)))
       (kbind (read_loop fuel channel ubuf oldalarm time minimum flag 0 nr) (\<lambda>r.
        case r of
          Inl k \<Rightarrow> ret k
        | Inr got \<Rightarrow>
            kseq (set_alarm oldalarm)
           (kbind (gets (\<lambda>s. t_signal (cur s))) (\<lambda>sig.
            ret (if sig \<noteq> 0 \<and> got = 0 then - EINTR else got)))))))"

section \<open>Writing\<close>

text \<open>The inner loop of \<open>tty_write\<close>: how far it got and what is left. A newline goes out as
  a carriage return and a newline, in two passes with \<open>cr_flag\<close> set in between.\<close>

primrec write_run ::
  "nat \<Rightarrow> nat \<Rightarrow> u32 \<Rightarrow> int \<Rightarrow> int \<Rightarrow> (int \<times> int, 'z tty_state_scheme) kern" where
  "write_run 0 ch ubuf b nr = kloops"
| "write_run (Suc n) ch ubuf b nr =
     kbind (gets (\<lambda>s. (tty s ch, umem s (ubuf + word_of_int b), cr_flag s))) (\<lambda>x.
     let t = fst x; c0 = fst (snd x);
         c1 = (if c0 = 13 \<and> O_CRNL t then 10 else if c0 = 10 \<and> O_NLRET t then 13 else c0) in
     if nr \<le> 0 \<or> FULL (tty_write_q t) then ret (b, nr)
     else if O_POST t \<and> c1 = 10 \<and> \<not> snd (snd x) \<and> O_NLCR t then
       kseq (modify (\<lambda>s. s\<lparr>cr_flag := True\<rparr>))
      (kseq (putq 13 (ch, Write_q)) (write_run n ch ubuf b nr))
     else let c2 = (if O_POST t then (if O_LCUC t then word_of_int (toupper (sint c1)) else c1) else c0) in
       kseq (modify (\<lambda>s. s\<lparr>cr_flag := False\<rparr>))
      (kseq (putq c2 (ch, Write_q)) (write_run n ch ubuf (b + 1) (nr - 1))))"

primrec write_loop ::
  "nat \<Rightarrow> (nat \<Rightarrow> (unit, 'z tty_state_scheme) kern) \<Rightarrow> nat \<Rightarrow> u32 \<Rightarrow> int \<Rightarrow> int \<Rightarrow>
   (int, 'z tty_state_scheme) kern" where
  "write_loop 0 wr ch ubuf b nr = kloops"
| "write_loop (Suc n) wr ch ubuf b nr =
     (if nr \<le> 0 then ret b
      else kseq (sleep_if_full n (ch, Write_q))
       (kbind (gets (\<lambda>s. t_signal (cur s))) (\<lambda>sig.
        if sig \<noteq> 0 then ret b
        else kbind (write_run (Suc TTY_BUF_SIZE) ch ubuf b nr) (\<lambda>r.
          kseq (wr ch)
         (kseq (kwhen (snd r > 0) schedule)
               (write_loop n wr ch ubuf (fst r) (snd r)))))))"

definition tty_write ::
  "nat \<Rightarrow> (nat \<Rightarrow> (unit, 'z tty_state_scheme) kern) \<Rightarrow> nat \<Rightarrow> u32 \<Rightarrow> int \<Rightarrow> (int, 'z tty_state_scheme) kern" where
  "tty_write fuel wr channel ubuf nr =
     (if channel > 2 \<or> nr < 0 then ret (- 1) else write_loop fuel wr channel ubuf 0 nr)"

text \<open>The two as the parameter of \<open>rw_char\<close>.\<close>

definition tty_rw ::
  "nat \<Rightarrow> (nat \<Rightarrow> (unit, 'z tty_state_scheme) kern) \<Rightarrow> 'z tty_state_scheme tty_io" where
  "tty_rw fuel wr rw minor ubuf count =
     (if rw = READ then tty_read fuel minor ubuf count else tty_write fuel wr minor ubuf count)"

section \<open>The serial lines\<close>

definition rs_init_port :: "u32 \<Rightarrow> (unit, 'z tty_state_scheme) kern" where
  "rs_init_port port = kblock [outb 0x80 (port + 3), outb 0x30 port, outb 0x00 (port + 1),
     outb 0x03 (port + 3), outb 0x0b (port + 4), outb 0x0d (port + 1)]"

definition rs_init :: "u32 \<Rightarrow> u32 \<Rightarrow> (unit, 'z tty_state_scheme) kern" where
  "rs_init rs1_interrupt rs2_interrupt =
     kseq (modify (\<lambda>s. s\<lparr>idt := (idt s)[0x24 := set_intr_gate rs1_interrupt, 0x23 := set_intr_gate rs2_interrupt]\<rparr>))
    (kbind (gets (\<lambda>s. (tq_data (tty_read_q (tty s 1)), tq_data (tty_read_q (tty s 2))))) (\<lambda>x.
     kseq (rs_init_port (fst x))
    (kseq (rs_init_port (snd x))
    (kbind (gets (\<lambda>s. port_in s 0x21)) (\<lambda>v. outb (v AND 0xE7) 0x21)))))"

definition rs_write :: "nat \<Rightarrow> (unit, 'z tty_state_scheme) kern" where
  "rs_write ch =
     kbind (gets (\<lambda>s. queue s (ch, Write_q))) (\<lambda>q.
     kwhen (\<not> EMPTY q)
       (kbind (gets (\<lambda>s. port_in s (tq_data q + 1))) (\<lambda>v. outb (v OR 2) (tq_data q + 1))))"

section \<open>Control\<close>

definition quotient :: "nat list" where
  "quotient = [0, 2304, 1536, 1047, 857, 768, 576, 384, 192, 96, 64, 48, 24, 12, 6, 3]"

definition change_speed :: "nat \<Rightarrow> (unit, 'z tty_state_scheme) kern" where
  "change_speed ch =
     kbind (gets (\<lambda>s. tty s ch)) (\<lambda>t.
     let port = (ucast (ucast (tq_data (tty_read_q t)) :: u16) :: u32);
         quot = quotient ! unat (c_cflag (tty_termios t) AND 15) in
     if port = 0 then skip
     else kblock [outb 0x80 (port + 3), outb (of_nat (quot mod 256)) port,
            outb (of_nat (quot div 256)) (port + 1), outb 0x03 (port + 3)])"

definition flush :: "nat \<times> qsel \<Rightarrow> (unit, 'z tty_state_scheme) kern" where
  "flush q = modify (upd_queue q (\<lambda>x. x\<lparr>tq_head := tq_tail x\<rparr>))"

definition termios_bytes :: "termios \<Rightarrow> u8 list" where
  "termios_bytes t = put32 (c_iflag t) @ put32 (c_oflag t) @ put32 (c_cflag t) @ put32 (c_lflag t)
     @ [c_line t] @ c_cc t @ c_pad t"

definition termios_of :: "u8 list \<Rightarrow> termios" where
  "termios_of bs = \<lparr>c_iflag = le_word bs 0, c_oflag = le_word bs 4, c_cflag = le_word bs 8,
     c_lflag = le_word bs 12, c_line = bs ! 16, c_cc = slice 17 17 bs, c_pad = slice 34 2 bs\<rparr>"

definition get_termios :: "nat \<Rightarrow> u32 \<Rightarrow> (int, 'z tty_state_scheme) kern" where
  "get_termios ch arg =
     kseq (verify_area arg 36)
    (kbind (gets (\<lambda>s. termios_bytes (tty_termios (tty s ch)))) (\<lambda>bs.
     kseq (put_user arg bs) (ret 0)))"

definition set_termios :: "nat \<Rightarrow> u32 \<Rightarrow> (int, 'z tty_state_scheme) kern" where
  "set_termios ch arg =
     kseq (modify (\<lambda>s. upd_tty ch (\<lambda>t. t\<lparr>tty_termios := termios_of (user_bytes s arg 36)\<rparr>) s))
    (kseq (change_speed ch) (ret 0))"

text \<open>\<open>struct termio\<close> is 18 bytes; the last one is never written, \<open>junk\<close> is what the
  stack held there.\<close>

definition termio_bytes :: "u8 \<Rightarrow> termios \<Rightarrow> u8 list" where
  "termio_bytes junk t = put16 (ucast (c_iflag t)) @ put16 (ucast (c_oflag t)) @ put16 (ucast (c_cflag t))
     @ put16 (ucast (c_lflag t)) @ [c_line t] @ take 8 (c_cc t) @ [junk]"

definition get_termio :: "u8 \<Rightarrow> nat \<Rightarrow> u32 \<Rightarrow> (int, 'z tty_state_scheme) kern" where
  "get_termio junk ch arg =
     kseq (verify_area arg 18)
    (kbind (gets (\<lambda>s. termio_bytes junk (tty_termios (tty s ch)))) (\<lambda>bs.
     kseq (put_user arg bs) (ret 0)))"

definition low16 :: "u32 \<Rightarrow> u16 \<Rightarrow> u32" where
  "low16 old v = (old AND 0xffff0000) OR ucast v"

definition termio_into :: "u8 list \<Rightarrow> termios \<Rightarrow> termios" where
  "termio_into bs t = t\<lparr>c_iflag := low16 (c_iflag t) (le16 bs 0), c_oflag := low16 (c_oflag t) (le16 bs 2),
     c_cflag := low16 (c_cflag t) (le16 bs 4), c_lflag := low16 (c_lflag t) (le16 bs 6),
     c_line := bs ! 8, c_cc := slice 9 8 bs @ drop 8 (c_cc t)\<rparr>"

definition set_termio :: "nat \<Rightarrow> u32 \<Rightarrow> (int, 'z tty_state_scheme) kern" where
  "set_termio ch arg =
     kseq (modify (\<lambda>s. upd_tty ch (\<lambda>t. t\<lparr>tty_termios := termio_into (user_bytes s arg 18) (tty_termios t)\<rparr>) s))
    (kseq (change_speed ch) (ret 0))"

text \<open>\<open>tty_ioctl\<close>. Nothing bounds the minor number, so it may leave the table.\<close>

definition tty_ioctl :: "u8 \<Rightarrow> u16 \<Rightarrow> u32 \<Rightarrow> u32 \<Rightarrow> (int, 'z tty_state_scheme) kern" where
  "tty_ioctl junk dev0 cmd arg =
     kbind (gets (\<lambda>s. t_tty (cur s))) (\<lambda>mine.
     if MAJOR dev0 = 5 \<and> mine < 0 then kpanic ''tty_ioctl: dev<0''
     else let ch = (if MAJOR dev0 = 5 then nat mine else MINOR dev0) in
       if ch > 2 then kfault
       else if cmd = 0x5401 then get_termios ch arg
       else if cmd = 0x5404 then kseq (flush (ch, Read_q)) (set_termios ch arg)
       else if cmd = 0x5403 \<or> cmd = 0x5402 then set_termios ch arg
       else if cmd = 0x5405 then get_termio junk ch arg
       else if cmd = 0x5408 then kseq (flush (ch, Read_q)) (set_termio ch arg)
       else if cmd = 0x5407 \<or> cmd = 0x5406 then set_termio ch arg
       else if cmd = 0x5409 then ret 0
       else if cmd = 0x540B then
         (if arg = 0 then kseq (flush (ch, Read_q)) (ret 0)
          else if arg = 1 then kseq (flush (ch, Write_q)) (ret 0)
          else if arg = 2 then kseq (flush (ch, Read_q)) (kseq (flush (ch, Write_q)) (ret 0))
          else ret (- EINVAL))
       else if cmd = 0x540F then
         kseq (verify_area arg 4)
        (kbind (gets (\<lambda>s. tty_pgrp (tty s ch))) (\<lambda>p. kseq (put_fs_long (word_of_int p) arg) (ret 0)))
       else if cmd = 0x5410 then
         kbind (get_fs_long arg) (\<lambda>v. kseq (modify (upd_tty ch (\<lambda>t. t\<lparr>tty_pgrp := sint v\<rparr>))) (ret 0))
       else if cmd = 0x5411 then
         kseq (verify_area arg 4)
        (kbind (gets (\<lambda>s. CHARS (queue s (ch, Write_q)))) (\<lambda>v. kseq (put_fs_long v arg) (ret 0)))
       else if cmd = 0x541B then
         kseq (verify_area arg 4)
        (kbind (gets (\<lambda>s. CHARS (queue s (ch, Secondary)))) (\<lambda>v. kseq (put_fs_long v arg) (ret 0)))
       else ret (- EINVAL))"

section \<open>A terminal queue is a queue\<close>

lemma uint_and_1023: "uint (w AND 1023 :: u32) = uint w mod 1024"
proof -
  have "(1023 :: u32) = mask 10" by (simp add: mask_eq_exp_minus_1)
  then have "uint (w AND 1023) = take_bit 10 (uint w)"
    by (simp only: take_bit_eq_mask [symmetric] unsigned_take_bit_eq)
  then show ?thesis by (simp add: take_bit_eq_mod)
qed

lemma unat_diff_mask:
  fixes a b :: u32
  assumes "unat a < 1024" and "unat b < 1024"
  shows "unat ((a - b) AND 1023) = (unat a + 1024 - unat b) mod 1024"
proof -
  have "uint ((a - b) AND 1023) = (uint a - uint b) mod 1024"
    by (simp add: uint_and_1023 uint_word_ariths mod_mod_cancel)
  also have "\<dots> = (uint a + 1024 - uint b) mod 1024"
    using mod_add_self2 [of "uint a - uint b" 1024] by (simp add: algebra_simps)
  also have "\<dots> = int ((unat a + 1024 - unat b) mod 1024)"
    using assms by (simp add: zmod_int of_nat_diff)
  finally show ?thesis by (simp only: uint_nat of_nat_eq_iff)
qed


definition tq_ok :: "tty_queue \<Rightarrow> bool" where
  "tq_ok q \<longleftrightarrow> unat (tq_head q) < 1024 \<and> unat (tq_tail q) < 1024 \<and> length (tq_buf q) = 1024"

definition tq_contents :: "tty_queue \<Rightarrow> u8 list" where
  "tq_contents q = ring 1024 (\<lambda>i. tq_buf q ! i) (unat (tq_tail q)) (unat (tq_head q))"

primrec tq_taken :: "nat \<Rightarrow> tty_queue \<Rightarrow> u8 list" where
  "tq_taken 0 q = []"
| "tq_taken (Suc n) q = GETCH_char q # tq_taken n (GETCH q)"

primrec tq_get :: "nat \<Rightarrow> tty_queue \<Rightarrow> tty_queue" where
  "tq_get 0 q = q"
| "tq_get (Suc n) q = tq_get n (GETCH q)"

lemma length_tq_taken [simp]: "length (tq_taken n q) = n"
  by (induction n arbitrary: q) simp_all

fun tq_allowed :: "tty_queue \<Rightarrow> u8 qop \<Rightarrow> bool" where
  "tq_allowed q (Put bs) \<longleftrightarrow> length bs \<le> unat (LEFT q)"
| "tq_allowed q (Get n) \<longleftrightarrow> n \<le> unat (CHARS q)"

lemma unat_INC:
  assumes "unat a < 1024"
  shows "unat (INC a) = (unat a + 1) mod 1024"
proof -
  have "unat (a + 1) = unat a + 1" using assms by (simp add: unat_word_ariths)
  then have "int (unat (a + 1)) = int (unat a + 1)" by (rule arg_cong)
  then have "uint (a + 1) = int (unat a + 1)" by (simp only: of_nat_unat)
  then have "uint (INC a) = int ((unat a + 1) mod 1024)" by (simp add: INC_def uint_and_1023 zmod_int)
  then show ?thesis by (simp only: uint_nat of_nat_eq_iff)
qed

lemma CHARS_contents: "tq_ok q \<Longrightarrow> unat (CHARS q) = length (tq_contents q)"
  by (simp add: tq_ok_def CHARS_def tq_contents_def unat_diff_mask)

lemma length_tq_contents: "length (tq_contents q) < 1024"
  by (simp add: tq_contents_def)

lemma neg_mod: "(- x - 1) mod 1024 = 1023 - x mod (1024 :: int)"
proof -
  define d m where "d = x div 1024" and "m = x mod 1024"
  have "x = 1024 * d + m" by (simp add: d_def m_def)
  then have "- x - 1 = (1023 - m) + 1024 * (- 1 - d)" by simp
  then have "- x - 1 = (1023 - x mod 1024) + 1024 * (- 1 - x div 1024)" by (simp only: d_def m_def)
  then have "(- x - 1) mod 1024 = (1023 - x mod 1024) mod 1024" by (simp only: mod_mult_self2)
  then show ?thesis by simp
qed

lemma LEFT_contents: "tq_ok q \<Longrightarrow> unat (LEFT q) = 1023 - length (tq_contents q)"
proof -
  assume ok: "tq_ok q"
  let ?x = "uint (tq_head q) - uint (tq_tail q)"
  have "uint (CHARS q) = ?x mod 1024"
    by (simp add: CHARS_def uint_and_1023 uint_word_ariths mod_mod_cancel)
  then have len: "int (length (tq_contents q)) = ?x mod 1024"
    using CHARS_contents [OF ok] by (simp only: uint_nat)
  have "LEFT q = (tq_tail q - (tq_head q + 1)) AND 1023" by (simp add: LEFT_def algebra_simps)
  then have "uint (LEFT q) = (- ?x - 1) mod 1024"
    by (simp add: uint_and_1023 uint_word_ariths mod_mod_cancel mod_simps algebra_simps)
  also have "\<dots> = int (1023 - length (tq_contents q))"
    unfolding neg_mod len [symmetric] using length_tq_contents [of q] by simp
  finally show ?thesis by (simp only: uint_nat of_nat_eq_iff)
qed

lemma PUTCH_fifo:
  assumes "tq_ok q" and "0 < unat (LEFT q)"
  shows "tq_ok (PUTCH c q)" and "tq_contents (PUTCH c q) = tq_contents q @ [c]"
proof -
  have th: "unat (tq_tail q) < 1024" "unat (tq_head q) < 1024" "length (tq_buf q) = 1024"
    using assms(1) by (simp_all add: tq_ok_def)
  show "tq_ok (PUTCH c q)" using th by (simp add: tq_ok_def PUTCH_def unat_INC)
  have "length [c] + length (tq_contents q) < 1024" using LEFT_contents [OF assms(1)] assms(2) by simp
  then show "tq_contents (PUTCH c q) = tq_contents q @ [c]"
    using ring_put [of "unat (tq_tail q)" 1024 "unat (tq_head q)" "[c]" "\<lambda>i. tq_buf q ! i" "\<lambda>i. tq_buf (PUTCH c q) ! i"] th
    by (simp add: tq_contents_def PUTCH_def unat_INC nth_list_update)
qed

lemma GETCH_fifo:
  assumes "tq_ok q" and "0 < unat (CHARS q)"
  shows "tq_ok (GETCH q)" and "tq_contents q = GETCH_char q # tq_contents (GETCH q)"
proof -
  have th: "unat (tq_tail q) < 1024" "unat (tq_head q) < 1024" "length (tq_buf q) = 1024"
    using assms(1) by (simp_all add: tq_ok_def)
  show "tq_ok (GETCH q)" using th by (simp add: tq_ok_def GETCH_def unat_INC)
  have "1 \<le> length (tq_contents q)" using CHARS_contents [OF assms(1)] assms(2) by (cases "tq_contents q") auto
  then show "tq_contents q = GETCH_char q # tq_contents (GETCH q)"
    using ring_get [of "unat (tq_tail q)" 1024 "unat (tq_head q)" 1 "\<lambda>i. tq_buf q ! i"] th
    by (simp add: tq_contents_def GETCH_def GETCH_char_def unat_INC)
qed

lemma PUTCH_many:
  assumes "tq_ok q" and "length bs \<le> unat (LEFT q)"
  shows "tq_ok (fold PUTCH bs q) \<and> tq_contents (fold PUTCH bs q) = tq_contents q @ bs"
  using assms
proof (induction bs arbitrary: q)
  case (Cons b bs)
  then have p: "tq_ok (PUTCH b q)" "tq_contents (PUTCH b q) = tq_contents q @ [b]" using PUTCH_fifo by auto
  then have "length bs \<le> unat (LEFT (PUTCH b q))" using Cons.prems by (simp add: LEFT_contents)
  with Cons.IH p show ?case by simp
qed simp

lemma GETCH_many:
  assumes "tq_ok q" and "n \<le> unat (CHARS q)"
  shows "tq_ok (tq_get n q) \<and> tq_contents q = tq_taken n q @ tq_contents (tq_get n q)"
  using assms
proof (induction n arbitrary: q)
  case (Suc n)
  then have g: "tq_ok (GETCH q)" "tq_contents q = GETCH_char q # tq_contents (GETCH q)"
    using GETCH_fifo [of q] by simp_all
  then have "n \<le> unat (CHARS (GETCH q))" using Suc.prems by (simp add: CHARS_contents)
  with Suc.IH g show ?case by simp
qed simp

interpretation ttyq: fifo tq_ok tq_contents tq_allowed "fold PUTCH" tq_taken tq_get
  by unfold_locales (use PUTCH_many GETCH_many in auto)

text \<open>C18: characters leave a terminal queue in the order in which they entered it. For every sequence of
  \<open>PUTCH\<close>es, none of them into a full queue, and \<open>GETCH\<close>es, none of them from an empty
  one, what was taken out followed by what is still there is what was there followed by what was
  put in; the head and the tail wrap around at 1024 and stay in range.\<close>

theorem tty_queue_fifo:
  assumes "tq_ok q" and "qallowed tq_allowed (fold PUTCH) tq_get ops q"
    and "qrun (fold PUTCH) tq_taken tq_get ops q = (q', out)"
  shows "tq_ok q' \<and> tq_contents q @ qinput ops = out @ tq_contents q'"
  using ttyq.fifo_run [OF assms(1,2)] assms(3) by simp

theorem tty_queue_fifo_witness:
  "snd (qrun (fold PUTCH) tq_taken tq_get [Put [104, 105], Get 1, Put [10], Get 2]
     \<lparr>tq_data = 0, tq_head = 1023, tq_tail = 1023, tq_proc_list = 0, tq_buf = replicate 1024 0\<rparr>) = [104, 105, 10]"
proof -
  let ?q = "\<lparr>tq_data = 0, tq_head = 1023, tq_tail = 1023, tq_proc_list = 0, tq_buf = replicate 1024 0\<rparr> :: tty_queue"
  let ?ops = "[Put [104, 105], Get 1, Put [10], Get 2] :: u8 qop list"
  obtain q' out where run: "qrun (fold PUTCH) tq_taken tq_get ?ops ?q = (q', out)" by fastforce
  have ok: "tq_ok ?q" by (simp add: tq_ok_def)
  have "qallowed tq_allowed (fold PUTCH) tq_get ?ops ?q"
    by (simp add: LEFT_def CHARS_def PUTCH_def GETCH_def INC_def)
  from tty_queue_fifo [OF ok this run] have "tq_contents ?q @ [104, 105, 10] = out @ tq_contents q'" by simp
  moreover have "tq_contents ?q = []" by (simp add: tq_contents_def ring_def)
  moreover have "length out = 3" using run by auto
  ultimately have out: "[104, 105, 10] = out @ tq_contents q'" "length out = 3" by simp_all
  have "tq_contents q' = []" using arg_cong [OF out(1), of length] out(2) by simp
  with out have "out = [104, 105, 10]" by simp
  with run show ?thesis by simp
qed

end
