(* ===== verification/Open.thy ===== *)
theory Open
  imports Namei Tty
begin

unbundle bit_operations_syntax

text \<open>
  Opening, closing and describing files: \<^verbatim>\<open>fs/open.c\<close>, \<^verbatim>\<open>fs/fcntl.c\<close>,
  \<^verbatim>\<open>fs/stat.c\<close> and \<^verbatim>\<open>fs/ioctl.c\<close>.

  A system call that looks a name up begins with \<open>with_name\<close>: the inode of the name, or the
  error the call returns when there is none.
\<close>

definition with_name ::
  "'z fs_state_scheme ctx \<Rightarrow> u32 \<Rightarrow> int \<Rightarrow> (nat \<Rightarrow> (int, 'z fs_state_scheme) kern) \<Rightarrow>
   (int, 'z fs_state_scheme) kern" where
  "with_name K filename err body =
     kbind (namei K filename) (\<lambda>r. case r of None \<Rightarrow> ret (- err) | Some i \<Rightarrow> body i)"

section \<open>Attributes\<close>

definition sys_ustat :: "(int, 'z fs_state_scheme) kern" where
  "sys_ustat = ret (- ENOSYS)"

definition sys_utime :: "'z fs_state_scheme ctx \<Rightarrow> u32 \<Rightarrow> u32 \<Rightarrow> (int, 'z fs_state_scheme) kern" where
  "sys_utime K filename tms =
     with_name K filename ENOENT (\<lambda>i.
     kbind (if tms \<noteq> 0 then kbind (get_fs_long tms) (\<lambda>a. kbind (get_fs_long (tms + 4)) (\<lambda>m. ret (a, m)))
            else gets (\<lambda>s. (word_of_int (CURRENT_TIME s), word_of_int (CURRENT_TIME s)))) (\<lambda>x.
     kseq (modify (upd_ino i (\<lambda>n. n\<lparr>i_atime := fst x, i_mtime := snd x, i_dirt := 1\<rparr>)))
          (give_up K [i] 0)))"

text \<open>\<open>sys_access\<close>: the rights of the real user; the inode is read after it has been
  released.\<close>

definition access_ok :: "u16 \<Rightarrow> u16 \<Rightarrow> u16 \<Rightarrow> m_inode \<Rightarrow> u16 \<Rightarrow> bool" where
  "access_ok uid gid i_mode9 n mode \<longleftrightarrow>
     (let res = (if uid = i_uid n then drop_bit 6 i_mode9
                 else if gid = ucast (i_gid n) then drop_bit 6 i_mode9 else i_mode9) in
      res AND 7 AND mode = mode \<or> uid = 0 \<and> (mode AND 1 = 0 \<or> i_mode9 AND 0x49 \<noteq> 0))"

definition sys_access :: "'z fs_state_scheme ctx \<Rightarrow> u32 \<Rightarrow> u16 \<Rightarrow> (int, 'z fs_state_scheme) kern" where
  "sys_access K filename mode0 =
     with_name K filename EACCES (\<lambda>i.
     kbind (gets (\<lambda>s. i_mode (ino s i) AND 0x1FF)) (\<lambda>m.
     kseq (iput K (Some i))
    (kbind (gets (\<lambda>s. access_ok (t_uid (cur s)) (t_gid (cur s)) m (ino s i) (mode0 AND 7))) (\<lambda>ok.
     ret (if ok then 0 else - EACCES)))))"

definition sys_chdir :: "'z fs_state_scheme ctx \<Rightarrow> u32 \<Rightarrow> (int, 'z fs_state_scheme) kern" where
  "sys_chdir K filename =
     with_name K filename ENOENT (\<lambda>i.
     kbind (gets (\<lambda>s. (S_ISDIR (i_mode (ino s i)), t_pwd (cur s)))) (\<lambda>x.
     if \<not> fst x then give_up K [i] (- ENOTDIR)
     else kseq (iput K (snd x))
         (kseq (upd_cur (\<lambda>t. t\<lparr>t_pwd := Some i\<rparr>)) (ret 0))))"

definition sys_chroot :: "'z fs_state_scheme ctx \<Rightarrow> u32 \<Rightarrow> (int, 'z fs_state_scheme) kern" where
  "sys_chroot K filename =
     with_name K filename ENOENT (\<lambda>i.
     kbind (gets (\<lambda>s. (S_ISDIR (i_mode (ino s i)), t_root (cur s)))) (\<lambda>x.
     if \<not> fst x then give_up K [i] (- ENOTDIR)
     else kseq (iput K (snd x))
         (kseq (upd_cur (\<lambda>t. t\<lparr>t_root := Some i\<rparr>)) (ret 0))))"

definition sys_chmod :: "'z fs_state_scheme ctx \<Rightarrow> u32 \<Rightarrow> u16 \<Rightarrow> (int, 'z fs_state_scheme) kern" where
  "sys_chmod K filename mode =
     with_name K filename ENOENT (\<lambda>i.
     kbind (gets (\<lambda>s. t_euid (cur s) \<noteq> i_uid (ino s i) \<and> \<not> suser s)) (\<lambda>deny.
     if deny then give_up K [i] (- EACCES)
     else kseq (modify (upd_ino i (\<lambda>n. n\<lparr>i_mode := (mode AND 0xFFF) OR (i_mode n AND NOT 0xFFF), i_dirt := 1\<rparr>)))
               (give_up K [i] 0)))"

definition sys_chown :: "'z fs_state_scheme ctx \<Rightarrow> u32 \<Rightarrow> u16 \<Rightarrow> u8 \<Rightarrow> (int, 'z fs_state_scheme) kern" where
  "sys_chown K filename uid gid =
     with_name K filename ENOENT (\<lambda>i.
     kbind (gets suser) (\<lambda>su.
     if \<not> su then give_up K [i] (- EACCES)
     else kseq (modify (upd_ino i (\<lambda>n. n\<lparr>i_uid := uid, i_gid := gid, i_dirt := 1\<rparr>)))
               (give_up K [i] 0)))"

section \<open>Descriptors\<close>

definition clear_cloexec :: "nat \<Rightarrow> (unit, 'z fs_state_scheme) kern" where
  "clear_cloexec fd = upd_cur (\<lambda>t. t\<lparr>t_close_on_exec := t_close_on_exec t AND NOT (push_bit fd 1)\<rparr>)"

text \<open>What \<open>sys_open\<close> does for a terminal: false when the open is refused.\<close>

definition open_tty :: "nat \<Rightarrow> (bool, 'z tty_state_scheme) kern" where
  "open_tty i =
     kbind (gets (\<lambda>s. (ino s i, cur s))) (\<lambda>x.
     let n = fst x; t = snd x; dev = i_zone n ! 0 in
     if \<not> S_ISCHR (i_mode n) then ret True
     else if MAJOR dev = 4 then
       (if t_leader t \<noteq> 0 \<and> t_tty t < 0 then
          kseq (upd_cur (\<lambda>t. t\<lparr>t_tty := int (MINOR dev)\<rparr>))
          (if MINOR dev > 2 then kfault
           else kseq (modify (\<lambda>s. upd_tty (MINOR dev) (\<lambda>y. y\<lparr>tty_pgrp := t_pgrp (cur s)\<rparr>) s)) (ret True))
        else ret True)
     else ret (\<not> (MAJOR dev = 5 \<and> t_tty t < 0)))"

definition sys_open :: "'z tty_state_scheme ctx \<Rightarrow> u32 \<Rightarrow> u16 \<Rightarrow> u16 \<Rightarrow> (int, 'z tty_state_scheme) kern" where
  "sys_open K filename flag mode0 =
     kbind (gets (\<lambda>s. (mode0 AND 0x1FF AND NOT (t_umask (cur s)),
                       scan_up (\<lambda>k. t_filp (cur s) ! k = None) NR_OPEN))) (\<lambda>x.
     case snd x of
       None \<Rightarrow> ret (- EINVAL)
     | Some fd \<Rightarrow>
         kseq (clear_cloexec fd)
        (kbind (gets (\<lambda>s. scan_up (\<lambda>k. f_count (fil s k) = 0) NR_FILE)) (\<lambda>r.
         case r of
           None \<Rightarrow> ret (- EINVAL)
         | Some f \<Rightarrow>
             let undo = kseq (set_fd fd None) (modify (upd_fil f (\<lambda>x. x\<lparr>f_count := 0\<rparr>))) in
             kseq (set_fd fd (Some f))
            (kseq (modify (upd_fil f (\<lambda>x. x\<lparr>f_count := f_count x + 1\<rparr>)))
            (kbind (open_namei K filename flag (fst x)) (\<lambda>o_r.
             case o_r of
               Inl e \<Rightarrow> kseq undo (ret e)
             | Inr i \<Rightarrow>
                 kbind (open_tty i) (\<lambda>ok.
                 if \<not> ok then kseq (iput K (Some i)) (kseq undo (ret (- EPERM)))
                 else kbind (gets (\<lambda>s. ino s i)) (\<lambda>n.
                   kseq (kwhen (S_ISBLK (i_mode n)) (check_disk_change (fst K) (i_zone n ! 0)))
                  (kseq (modify (\<lambda>s. upd_fil f (\<lambda>x. x\<lparr>f_mode := i_mode (ino s i), f_flags := flag, f_count := 1,
                           f_inode := Some i, f_pos := 0\<rparr>) s))
                        (ret (int fd)))))))))))"

definition sys_creat :: "'z tty_state_scheme ctx \<Rightarrow> u32 \<Rightarrow> u16 \<Rightarrow> (int, 'z tty_state_scheme) kern" where
  "sys_creat K pathname mode = sys_open K pathname (O_CREAT OR O_TRUNC) mode"

definition sys_close :: "'z fs_state_scheme ctx \<Rightarrow> nat \<Rightarrow> (int, 'z fs_state_scheme) kern" where
  "sys_close K fd =
     (if fd \<ge> NR_OPEN then ret (- EINVAL)
      else kseq (clear_cloexec fd)
       (kbind (gets (\<lambda>s. fd_file s fd)) (\<lambda>r.
        case r of
          None \<Rightarrow> ret (- EINVAL)
        | Some f \<Rightarrow>
            kseq (set_fd fd None)
           (kbind (gets (\<lambda>s. f_count (fil s f))) (\<lambda>c.
            if c = 0 then kpanic ''Close: file count is 0''
            else kseq (modify (upd_fil f (\<lambda>x. x\<lparr>f_count := f_count x - 1\<rparr>)))
              (if c - 1 \<noteq> 0 then ret 0
               else kbind (gets (\<lambda>s. f_inode (fil s f))) (\<lambda>i. kseq (iput K i) (ret 0))))))))"

definition dupfd :: "nat \<Rightarrow> nat \<Rightarrow> (int, 'z fs_state_scheme) kern" where
  "dupfd fd arg =
     kbind (gets (\<lambda>s. (fd_file s fd, find (\<lambda>k. t_filp (cur s) ! k = None) [arg..<NR_OPEN]))) (\<lambda>x.
     case fst x of
       None \<Rightarrow> ret (- EBADF)
     | Some f \<Rightarrow>
         if arg \<ge> NR_OPEN then ret (- EINVAL)
         else (case snd x of
           None \<Rightarrow> ret (- EMFILE)
         | Some new \<Rightarrow>
             kseq (clear_cloexec new)
            (kseq (set_fd new (Some f))
            (kseq (modify (upd_fil f (\<lambda>x. x\<lparr>f_count := f_count x + 1\<rparr>)))
                  (ret (int new))))))"

definition sys_dup2 :: "'z fs_state_scheme ctx \<Rightarrow> nat \<Rightarrow> nat \<Rightarrow> (int, 'z fs_state_scheme) kern" where
  "sys_dup2 K oldfd newfd = kbind (sys_close K newfd) (\<lambda>_. dupfd oldfd newfd)"

definition sys_dup :: "nat \<Rightarrow> (int, 'z fs_state_scheme) kern" where
  "sys_dup fd = dupfd fd 0"

definition sys_fcntl :: "nat \<Rightarrow> nat \<Rightarrow> u32 \<Rightarrow> (int, 'z fs_state_scheme) kern" where
  "sys_fcntl fd cmd arg =
     kbind (gets (\<lambda>s. fd_file s fd)) (\<lambda>r.
     case r of
       None \<Rightarrow> ret (- EBADF)
     | Some f \<Rightarrow>
         if cmd = 0 then dupfd fd (unat arg)
         else if cmd = 1 then gets (\<lambda>s. of_bool (bit (t_close_on_exec (cur s)) fd))
         else if cmd = 2 then
           kseq (if arg AND 1 \<noteq> 0
                 then upd_cur (\<lambda>t. t\<lparr>t_close_on_exec := t_close_on_exec t OR push_bit fd 1\<rparr>)
                 else clear_cloexec fd)
                (ret 0)
         else if cmd = 3 then gets (\<lambda>s. uint (f_flags (fil s f)))
         else if cmd = 4 then
           kseq (modify (upd_fil f (\<lambda>x. x\<lparr>f_flags := (f_flags x AND NOT (O_APPEND OR O_NONBLOCK))
                   OR (ucast arg AND (O_APPEND OR O_NONBLOCK))\<rparr>)))
                (ret 0)
         else ret (- 1))"

section \<open>Status\<close>

text \<open>\<open>struct stat\<close>: 32 bytes, with a byte of padding after the one-byte \<open>st_nlink\<close> and
  \<open>st_gid\<close> and two after \<open>st_rdev\<close>; \<open>junk\<close> is what the stack held there.\<close>

definition stat_bytes :: "(nat \<Rightarrow> u8) \<Rightarrow> m_inode \<Rightarrow> u8 list" where
  "stat_bytes junk n =
     put16 (i_dev n) @ put16 (i_num n) @ put16 (i_mode n) @ [i_nlinks n, junk 7] @ put16 (i_uid n)
     @ [i_gid n, junk 11] @ put16 (i_zone n ! 0) @ [junk 14, junk 15] @ put32 (i_size n) @ put32 (i_atime n)
     @ put32 (i_mtime n) @ put32 (i_ctime n)"

definition cp_stat :: "(nat \<Rightarrow> u8) \<Rightarrow> nat \<Rightarrow> u32 \<Rightarrow> (unit, 'z fs_state_scheme) kern" where
  "cp_stat junk i statbuf =
     kseq (verify_area statbuf 32)
    (kbind (gets (\<lambda>s. stat_bytes junk (ino s i))) (put_user statbuf))"

definition sys_stat :: "'z fs_state_scheme ctx \<Rightarrow> (nat \<Rightarrow> u8) \<Rightarrow> u32 \<Rightarrow> u32 \<Rightarrow> (int, 'z fs_state_scheme) kern" where
  "sys_stat K junk filename statbuf =
     with_name K filename ENOENT (\<lambda>i. kseq (cp_stat junk i statbuf) (give_up K [i] 0))"

definition sys_fstat :: "(nat \<Rightarrow> u8) \<Rightarrow> nat \<Rightarrow> u32 \<Rightarrow> (int, 'z fs_state_scheme) kern" where
  "sys_fstat junk fd statbuf =
     kbind (gets (\<lambda>s. case fd_file s fd of None \<Rightarrow> None | Some f \<Rightarrow> f_inode (fil s f))) (\<lambda>r.
     case r of
       None \<Rightarrow> ret (- EBADF)
     | Some i \<Rightarrow> kseq (cp_stat junk i statbuf) (ret 0))"

section \<open>Device control\<close>

definition sys_ioctl :: "u8 \<Rightarrow> nat \<Rightarrow> u32 \<Rightarrow> u32 \<Rightarrow> (int, 'z tty_state_scheme) kern" where
  "sys_ioctl junk fd cmd arg =
     kbind (gets (\<lambda>s. fd_file s fd)) (\<lambda>r.
     case r of
       None \<Rightarrow> ret (- EBADF)
     | Some f \<Rightarrow>
         kbind (gets (\<lambda>s. f_inode (fil s f))) (\<lambda>y.
         case y of
           None \<Rightarrow> kfault
         | Some i \<Rightarrow>
             kbind (gets (\<lambda>s. ino s i)) (\<lambda>n.
             let dev = i_zone n ! 0 in
             if \<not> S_ISCHR (i_mode n) \<and> \<not> S_ISBLK (i_mode n) then ret (- EINVAL)
             else if MAJOR dev \<ge> 8 then ret (- ENODEV)
             else if MAJOR dev \<noteq> 4 \<and> MAJOR dev \<noteq> 5 then ret (- ENOTTY)
             else tty_ioctl junk dev cmd arg)))"

section \<open>Use counts of open files\<close>

text \<open>How many descriptors of all the tasks refer to an entry of the file table, and that its count says so.\<close>

definition fd_refs :: "nat \<Rightarrow> 'z sched_state_scheme \<Rightarrow> nat" where
  "fd_refs f s = (\<Sum>i < NR_TASKS. if task s ! i = 0 then 0 else count_list (t_filp (tasks s (task s ! i))) (Some f))"

definition fd_counted :: "'z fs_state_scheme \<Rightarrow> bool" where
  "fd_counted s \<longleftrightarrow> length (file_table s) = NR_FILE \<and> (\<forall>f < NR_FILE. unat (f_count (fil s f)) = fd_refs f s)"

definition fds_wf :: "'z sched_state_scheme \<Rightarrow> bool" where
  "fds_wf s \<longleftrightarrow> (\<exists>i < NR_TASKS. task s ! i = current s) \<and> current s \<noteq> 0 \<and>
     (\<forall>i < NR_TASKS. \<forall>j < NR_TASKS. task s ! i = task s ! j \<longrightarrow> task s ! i \<noteq> 0 \<longrightarrow> i = j) \<and>
     (\<forall>i < NR_TASKS. task s ! i \<noteq> 0 \<longrightarrow> length (t_filp (tasks s (task s ! i))) = NR_OPEN \<and>
        set (t_filp (tasks s (task s ! i))) \<subseteq> insert None (Some ` {..<NR_FILE}))"

lemma count_list_fill:
  "k < length xs \<Longrightarrow> xs ! k = None \<Longrightarrow> count_list (xs[k := Some g]) (Some f) = count_list xs (Some f) + (if f = g then 1 else 0)"
proof (induction xs arbitrary: k)
  case (Cons x xs)
  then show ?case by (cases k) auto
qed simp

lemma count_list_clear:
  "k < length xs \<Longrightarrow> xs ! k = Some g \<Longrightarrow> count_list (xs[k := None]) (Some f) + (if f = g then 1 else 0) = count_list xs (Some f)"
proof (induction xs arbitrary: k)
  case (Cons x xs)
  then show ?case by (cases k) auto
qed simp

lemma fd_refs_less:
  assumes "fds_wf s"
  shows "fd_refs f s \<le> 1280"
proof -
  have "fd_refs f s \<le> (\<Sum>i < 64 :: nat. 20)"
    unfolding fd_refs_def
  proof (rule sum_mono)
    fix i :: nat
    assume "i \<in> {..<64}"
    then show "(if task s ! i = 0 then 0 else count_list (t_filp (tasks s (task s ! i))) (Some f)) \<le> 20"
      using assms count_le_length [of "t_filp (tasks s (task s ! i))" "Some f"] by (auto simp: fds_wf_def)
  qed
  then show ?thesis by simp
qed

text \<open>When only the descriptors of the running task change, the number of references changes by the difference.\<close>

lemma fd_refs_change:
  assumes "fds_wf s" and "task t = task s" and "\<And>p. p \<noteq> current s \<Longrightarrow> tasks t p = tasks s p"
  shows "fd_refs f t + count_list (t_filp (cur s)) (Some f) = fd_refs f s + count_list (t_filp (tasks t (current s))) (Some f)"
proof -
  obtain i where i: "i < 64" "task s ! i = current s" using assms(1) by (auto simp: fds_wf_def)
  have cur: "current s \<noteq> 0" using assms(1) by (simp add: fds_wf_def)
  let ?F = "\<lambda>s i. if task s ! i = 0 then 0 else count_list (t_filp (tasks s (task s ! i))) (Some f)"
  have "?F t j = ?F s j" if "j \<in> {..<64} - {i}" for j
  proof -
    have "task s ! j \<noteq> current s" using assms(1) i cur that unfolding fds_wf_def by auto
    then show ?thesis using assms(2,3) by simp
  qed
  then have same: "(\<Sum>j \<in> {..<64} - {i}. ?F t j) = (\<Sum>j \<in> {..<64} - {i}. ?F s j)" by (rule sum.cong [OF refl])
  have "fd_refs f s = ?F s i + (\<Sum>j \<in> {..<64} - {i}. ?F s j)" "fd_refs f t = ?F t i + (\<Sum>j \<in> {..<64} - {i}. ?F t j)"
    unfolding fd_refs_def using i(1) by (simp_all only: sum.remove [OF finite_lessThan] lessThan_iff)
  moreover have "?F s i = count_list (t_filp (cur s)) (Some f)" "?F t i = count_list (t_filp (tasks t (current s))) (Some f)"
    using i cur assms(2) by (simp_all add: cur_def)
  ultimately show ?thesis using same by (simp only: add_ac)
qed

lemma fds_wf_change:
  assumes "fds_wf s" and "task t = task s" and "\<And>p. p \<noteq> current s \<Longrightarrow> tasks t p = tasks s p" and "current t = current s"
    and "t_filp (tasks t (current s)) = (t_filp (cur s))[k := x]" and "x \<in> insert None (Some ` {..<NR_FILE})"
  shows "fds_wf t"
proof -
  have "length (t_filp (tasks t (task s ! j))) = 20 \<and> set (t_filp (tasks t (task s ! j))) \<subseteq> insert None (Some ` {..<64})"
    if "j < 64" "task s ! j \<noteq> 0" for j
  proof (cases "task s ! j = current s")
    case True
    then have "length (t_filp (cur s)) = 20" "set (t_filp (cur s)) \<subseteq> insert None (Some ` {..<64})"
      using assms(1) that unfolding fds_wf_def cur_def by metis+
    then show ?thesis
      using True assms(5,6) set_update_subset_insert [of "t_filp (cur s)" k x] by auto
  next
    case False
    then show ?thesis using assms(1,3) that by (simp add: fds_wf_def)
  qed
  then show ?thesis using assms(1) unfolding fds_wf_def assms(2,4) by blast
qed

text \<open>A free descriptor of the running task is set to an open file.\<close>

lemma fd_refs_set:
  assumes "fds_wf s" and "k < NR_OPEN" and "t_filp (cur s) ! k = None"
    and "task t = task s" and "\<And>p. p \<noteq> current s \<Longrightarrow> tasks t p = tasks s p" and "t_filp (tasks t (current s)) = (t_filp (cur s))[k := Some g]"
  shows "fd_refs f t = fd_refs f s + (if f = g then 1 else 0)"
proof -
  have "length (t_filp (cur s)) = NR_OPEN" using assms(1) unfolding fds_wf_def cur_def by metis
  then show ?thesis
    using fd_refs_change [OF assms(1,4,5), of f] count_list_fill [of k "t_filp (cur s)" g f] assms(2,3,6) by simp
qed

lemma dupfd_takes:
  assumes "fds_wf s" and "fd_counted s" and "fd_file s fd = Some f" and "new < NR_OPEN" and "t_filp (cur s) ! new = None"
    and "t = upd_fil f (\<lambda>x. x\<lparr>f_count := f_count x + 1\<rparr>) (upd_task (current s) (\<lambda>t. t\<lparr>t_filp := (t_filp t)[new := Some f]\<rparr>)
      (upd_task (current s) (\<lambda>t. t\<lparr>t_close_on_exec := t_close_on_exec t AND NOT (push_bit new 1)\<rparr>) s))"
  shows "fds_wf t \<and> fd_counted t \<and> t_filp (cur t) = (t_filp (cur s))[new := Some f] \<and> \<not> bit (t_close_on_exec (cur t)) new"
proof -
  obtain i where i: "i < 64" "task s ! i = current s" using assms(1) by (auto simp: fds_wf_def)
  have cur: "current s \<noteq> 0" "length (t_filp (cur s)) = 20" "set (t_filp (cur s)) \<subseteq> insert None (Some ` {..<64})"
    using assms(1) i unfolding fds_wf_def cur_def by metis+
  have "fd < 20" "t_filp (cur s) ! fd = Some f" using assms(3) by (auto simp: fd_file_def split: if_splits)
  then have "Some f \<in> set (t_filp (cur s))" using cur(2) by (metis nth_mem)
  then have f: "f < 64" using cur(3) by auto
  have t: "task t = task s" "current t = current s" "t_filp (tasks t (current s)) = (t_filp (cur s))[new := Some f]"
    "\<And>p. p \<noteq> current s \<Longrightarrow> tasks t p = tasks s p" "\<not> bit (t_close_on_exec (cur t)) new"
    "file_table t = upd_nth f (\<lambda>x. x\<lparr>f_count := f_count x + 1\<rparr>) (file_table s)"
    using assms(4) by (auto simp: assms(6) upd_fil_def cur_def upd_task_def bit_simps)
  have refs: "fd_refs g t = fd_refs g s + (if g = f then 1 else 0)" for g
    by (rule fd_refs_set [OF assms(1,4,5) t(1) t(4) t(3)])
  have "unat (f_count (fil s f)) \<le> 1280" using assms(2) f fd_refs_less [OF assms(1), of f] by (simp add: fd_counted_def)
  then have inc: "unat (f_count (fil s f) + 1) = unat (f_count (fil s f)) + 1"
    by (simp add: unat_word_ariths)
  have "fd_counted t"
    using assms(2) refs inc t(6) f by (auto simp: fd_counted_def fil_def)
  moreover have "fds_wf t" by (rule fds_wf_change [OF assms(1) t(1,4,2,3)]) (use f in auto)
  ultimately show ?thesis using t(2,3,5) by (simp add: cur_def)
qed

text \<open>C31: duplicating a descriptor. The call always returns; a bad descriptor, a bad lower bound and a full table are
  EBADF, EINVAL and EMFILE in this order, and change nothing. Otherwise the result is the lowest free
  descriptor from \<open>arg\<close> on; it refers to the same open file, is not closed on exec, and no other descriptor has
  changed. In every case the use count of each open file is still the number of descriptors that refer to it.\<close>

theorem dupfd_lowest:
  assumes "fds_wf s" and "fd_counted s"
  shows "\<exists>v t. dupfd fd arg s es = Ok v t es \<and> fds_wf t \<and> fd_counted t \<and>
    (case fd_file s fd of
       None \<Rightarrow> v = - EBADF \<and> t = s
     | Some f \<Rightarrow>
         if arg \<ge> NR_OPEN then v = - EINVAL \<and> t = s
         else if \<forall>k \<in> {arg..<NR_OPEN}. t_filp (cur s) ! k \<noteq> None then v = - EMFILE \<and> t = s
         else \<exists>new \<in> {arg..<NR_OPEN}. v = int new \<and> t_filp (cur s) ! new = None \<and>
           (\<forall>k \<in> {arg..<new}. t_filp (cur s) ! k \<noteq> None) \<and>
           t_filp (cur t) = (t_filp (cur s))[new := Some f] \<and> \<not> bit (t_close_on_exec (cur t)) new)"
proof (cases "fd_file s fd")
  case None
  then show ?thesis using assms by (simp add: dupfd_def kern_defs)
next
  case f: (Some f)
  show ?thesis
  proof (cases "arg \<ge> NR_OPEN \<or> find (\<lambda>k. t_filp (cur s) ! k = None) [arg..<NR_OPEN] = None")
    case True
    have "dupfd fd arg s es = Ok (if arg \<ge> NR_OPEN then - EINVAL else - EMFILE) s es"
      using True f by (auto simp: dupfd_def kern_defs)
    then show ?thesis using True f assms by (auto simp: find_None_iff)
  next
    case False
    then obtain new where new: "find (\<lambda>k. t_filp (cur s) ! k = None) [arg..<NR_OPEN] = Some new" and arg: "arg < NR_OPEN" by auto
    then obtain j where j: "j < NR_OPEN - arg" "new = arg + j" "t_filp (cur s) ! new = None"
      "\<And>i. i < j \<Longrightarrow> t_filp (cur s) ! (arg + i) \<noteq> None" by (auto simp: find_Some_iff)
    have low: "t_filp (cur s) ! k \<noteq> None" if "k \<in> {arg..<new}" for k
      using j(4) [of "k - arg"] that j(2) by auto
    define t where "t = upd_fil f (\<lambda>x. x\<lparr>f_count := f_count x + 1\<rparr>) (upd_task (current s) (\<lambda>t. t\<lparr>t_filp := (t_filp t)[new := Some f]\<rparr>)
      (upd_task (current s) (\<lambda>t. t\<lparr>t_close_on_exec := t_close_on_exec t AND NOT (push_bit new 1)\<rparr>) s))"
    have "dupfd fd arg s es = Ok (int new) t es"
      using f new arg by (simp add: dupfd_def kern_defs clear_cloexec_def set_fd_def upd_cur_def t_def)
    moreover have "fds_wf t \<and> fd_counted t \<and> t_filp (cur t) = (t_filp (cur s))[new := Some f] \<and> \<not> bit (t_close_on_exec (cur t)) new"
      by (rule dupfd_takes [OF assms f _ j(3) t_def]) (use j in simp)
    moreover have "new \<in> {arg..<NR_OPEN}" using j(1,2) arg by auto
    ultimately show ?thesis using f arg j(3) low by (auto intro!: exI [of _ t] bexI [of _ new])
  qed
qed


text \<open>Two tasks; the running one has its descriptors 0 and 2 open on the first entry of the file table.\<close>

definition fd_demo :: fs_state where
  "fd_demo = blk_state.extend blk_demo
     (fs_state.fields [] 0 [] (\<lparr>f_mode = 0, f_flags = 0, f_count = 2, f_inode = None, f_pos = 0\<rparr> #
        replicate 63 \<lparr>f_mode = 0, f_flags = 0, f_count = 0, f_inode = None, f_pos = 0\<rparr>) 0)
     \<lparr>tasks := \<lambda>p. (INIT_TASK p)\<lparr>t_filp := (if p = 0x20000 then (replicate 20 None)[0 := Some 0, 2 := Some 0] else replicate 20 None)\<rparr>\<rparr>"

lemma fd_demo_ok: "fds_wf fd_demo" "fd_counted fd_demo"
proof -
  let ?s = fd_demo
  have tab: "task ?s = 0x10000 # 0x20000 # replicate 62 0" "current ?s = 0x20000"
    "file_table ?s = \<lparr>f_mode = 0, f_flags = 0, f_count = 2, f_inode = None, f_pos = 0\<rparr> #
        replicate 63 \<lparr>f_mode = 0, f_flags = 0, f_count = 0, f_inode = None, f_pos = 0\<rparr>"
    "\<And>p. t_filp (tasks ?s p) = (if p = 0x20000 then (replicate 20 None)[0 := Some 0, 2 := Some 0] else replicate 20 None)"
    by (simp_all add: fd_demo_def blk_demo_def sched_boot_def sched_state.defs blk_state.defs fs_state.defs)
  have two: "i < 2" if "i < 64" "task ?s ! i \<noteq> 0" for i using that by (auto simp: tab(1) nth_Cons split: nat.splits)
  show "fds_wf ?s"
    unfolding fds_wf_def
  proof (intro conjI allI impI)
    show "\<exists>i < 64. task ?s ! i = current ?s" by (intro exI [of _ 1]) (simp add: tab)
    show "i = j" if "i < 64" "j < 64" "task ?s ! i = task ?s ! j" "task ?s ! i \<noteq> 0" for i j
      using two [of i] two [of j] that by (auto simp: tab(1) less_2_cases_iff)
  qed (auto simp: tab dest!: set_update_subset_insert [THEN subsetD])
  have filp: "count_list ((replicate 20 None)[0 := Some 0, 2 := Some 0]) (Some f) = (if f = 0 then 2 else 0)"
    "count_list (replicate 20 None) (Some f) = 0" for f :: nat
    by (simp_all add: eval_nat_numeral)
  have refs: "fd_refs f ?s = (if f = 0 then 2 else 0)" for f
  proof -
    have "task ?s ! i = 0" if "i < 64" "\<not> i < 2" for i using two [of i] that by auto
    then have "fd_refs f ?s = (\<Sum>i < 2. if task ?s ! i = 0 then 0 else count_list (t_filp (tasks ?s (task ?s ! i))) (Some f))"
      unfolding fd_refs_def by (intro sum.mono_neutral_right) auto
    also have "{..<2 :: nat} = {0, 1}" by auto
    finally show ?thesis by (simp add: tab filp)
  qed
  show "fd_counted ?s" by (auto simp: fd_counted_def refs fil_def tab(3) nth_Cons split: nat.split)
qed

theorem dupfd_lowest_witness: "\<exists>t. dupfd 2 0 fd_demo [] = Ok 1 t [] \<and> fd_counted t"
proof -
  have "t_filp (cur fd_demo) = (replicate 20 None)[0 := Some 0, 2 := Some 0]"
    by (simp add: fd_demo_def blk_demo_def sched_boot_def sched_state.defs blk_state.defs fs_state.defs cur_def)
  then show ?thesis
    using dupfd_lowest [OF fd_demo_ok, of 2 0 "[]"]
    by (auto simp: fd_file_def nth_list_update split: if_splits dest!: bspec [of _ _ 1])
qed

lemma clear_bit_of: "bit (w AND NOT (2 ^ fd) :: u32) k \<longleftrightarrow> bit w k \<and> k \<noteq> fd"
  by (auto simp: bit_simps dest: bit_imp_le_length)

lemma close_not_open:
  assumes "fds_wf s" and "fd_counted s" and "fd_file s fd = None"
  shows "\<exists>t. fds_wf t \<and> fd_counted t \<and> sys_close K fd s es = Ok (- EINVAL) t es \<and> t_filp (cur t) = t_filp (cur s) \<and>
    file_table t = file_table s \<and>
    (\<forall>k. bit (t_close_on_exec (cur t)) k \<longleftrightarrow> bit (t_close_on_exec (cur s)) k \<and> \<not> (k = fd \<and> fd < NR_OPEN)) \<and>
    (cur t)\<lparr>t_filp := t_filp (cur s), t_close_on_exec := t_close_on_exec (cur s)\<rparr> = cur s \<and>
    (\<forall>p. p \<noteq> current s \<longrightarrow> tasks t p = tasks s p) \<and> t\<lparr>tasks := tasks s, file_table := file_table s\<rparr> = s"
proof -
  define c where "c = upd_task (current s) (\<lambda>t. t\<lparr>t_close_on_exec := t_close_on_exec t AND NOT (push_bit fd 1)\<rparr>) s"
  have same: "task c = task s" "current c = current s" "\<And>p. t_filp (tasks c p) = t_filp (tasks s p)" "file_table c = file_table s"
    by (simp_all add: c_def upd_task_def)
  have rest: "bit (t_close_on_exec (cur c)) k \<longleftrightarrow> bit (t_close_on_exec (cur s)) k \<and> k \<noteq> fd"
    "(cur c)\<lparr>t_filp := t_filp (cur s), t_close_on_exec := t_close_on_exec (cur s)\<rparr> = cur s"
    "\<forall>p. p \<noteq> current s \<longrightarrow> tasks c p = tasks s p" "c\<lparr>tasks := tasks s, file_table := file_table s\<rparr> = s" for k
    by (auto simp: c_def cur_def upd_task_def clear_bit_of)
  have "sys_close K fd s es = Ok (- EINVAL) (if fd \<ge> NR_OPEN then s else c) es"
    using assms(3) by (cases "fd \<ge> NR_OPEN") (simp_all add: sys_close_def clear_cloexec_def upd_cur_def kern_defs fd_file_def cur_def c_def)
  moreover have "fds_wf c" using assms(1) unfolding fds_wf_def same .
  moreover have "fd_counted c" using assms(2) unfolding fd_counted_def fd_refs_def fil_def same .
  ultimately show ?thesis
    using assms same rest by (intro exI [of _ "if fd \<ge> NR_OPEN then s else c"]) (simp add: cur_def)
qed

text \<open>C30: closing a descriptor. A number that is no open descriptor is EINVAL. Otherwise the
  descriptor is free and the use count of each open file is the number of descriptors that refer to it, when the call
  returns, or, if it was the last descriptor of the file, before the inode is given back. So the kernel never stops with
  \<open>Close: file count is 0\<close>. Of the close-on-exec bits of the task, that of the number is cleared, if it is a possible descriptor, and no other
  changes. Up to the release of the inode nothing else changes: no other descriptor, no other task, no
  other open file and no other part of the state.\<close>

theorem close_counts:
  assumes "fds_wf s" and "fd_counted s"
  shows "\<exists>t. fds_wf t \<and> fd_counted t \<and>
    (case fd_file s fd of
       None \<Rightarrow> sys_close K fd s es = Ok (- EINVAL) t es \<and> t_filp (cur t) = t_filp (cur s) \<and> file_table t = file_table s
     | Some f \<Rightarrow>
         sys_close K fd s es = (if fd_refs f t \<noteq> 0 then Ok 0 t es else kseq (iput K (f_inode (fil s f))) (ret 0) t es) \<and>
         t_filp (cur t) = (t_filp (cur s))[fd := None] \<and> fd_refs f s = Suc (fd_refs f t) \<and>
         fil t f = (fil s f)\<lparr>f_count := f_count (fil s f) - 1\<rparr> \<and> (\<forall>g. g \<noteq> f \<longrightarrow> fil t g = fil s g)) \<and>
    (\<forall>k. bit (t_close_on_exec (cur t)) k \<longleftrightarrow> bit (t_close_on_exec (cur s)) k \<and> \<not> (k = fd \<and> fd < NR_OPEN)) \<and>
    (cur t)\<lparr>t_filp := t_filp (cur s), t_close_on_exec := t_close_on_exec (cur s)\<rparr> = cur s \<and>
    (\<forall>p. p \<noteq> current s \<longrightarrow> tasks t p = tasks s p) \<and> t\<lparr>tasks := tasks s, file_table := file_table s\<rparr> = s"
proof (cases "fd_file s fd")
  case None
  then show ?thesis using close_not_open [OF assms None, of K es] by simp
next
  case (Some f)
  define t where "t = upd_fil f (\<lambda>x. x\<lparr>f_count := f_count x - 1\<rparr>) (upd_task (current s) (\<lambda>t. t\<lparr>t_filp := (t_filp t)[fd := None]\<rparr>)
      (upd_task (current s) (\<lambda>t. t\<lparr>t_close_on_exec := t_close_on_exec t AND NOT (push_bit fd 1)\<rparr>) s))"
  have fd: "fd < NR_OPEN" "t_filp (cur s) ! fd = Some f" using Some by (auto simp: fd_file_def split: if_splits)
  have filp: "length (t_filp (cur s)) = NR_OPEN" "set (t_filp (cur s)) \<subseteq> insert None (Some ` {..<NR_FILE})"
    using assms(1) unfolding fds_wf_def cur_def by metis+
  then have f: "f < NR_FILE" using fd nth_mem [of fd "t_filp (cur s)"] by auto
  have t: "task t = task s" "\<And>p. p \<noteq> current s \<Longrightarrow> tasks t p = tasks s p" "current t = current s"
    "t_filp (tasks t (current s)) = (t_filp (cur s))[fd := None]"
    "file_table t = upd_nth f (\<lambda>x. x\<lparr>f_count := f_count x - 1\<rparr>) (file_table s)"
    by (auto simp: t_def upd_fil_def cur_def upd_task_def)
  have refs: "fd_refs g t + (if g = f then 1 else 0) = fd_refs g s" for g
    using fd_refs_change [OF assms(1) t(1,2), of g] count_list_clear [of fd "t_filp (cur s)" f g] fd filp t(4) by simp
  have cnt: "length (file_table s) = NR_FILE" "unat (f_count (fil s f)) = Suc (fd_refs f t)"
    "\<And>g. g < NR_FILE \<Longrightarrow> unat (f_count (fil s g)) = fd_refs g s"
    using assms(2) refs [of f] f by (auto simp: fd_counted_def)
  then have nz: "f_count (fil s f) \<noteq> 0" by auto
  with cnt(2) have dec: "unat (f_count (fil s f) - 1) = fd_refs f t" by (simp add: unat_minus_one)
  have "fd_refs g s = fd_refs g t" if "g \<noteq> f" for g using refs [of g] that by simp
  then have "fd_counted t"
    using cnt dec f t(5) unfolding fd_counted_def fil_def by (auto simp: nth_upd_nth)
  moreover have "fds_wf t" by (rule fds_wf_change [OF assms(1) t(1,2,3,4) insertI1])
  moreover have "sys_close K fd s es = (if fd_refs f t \<noteq> 0 then Ok 0 t es else kseq (iput K (f_inode (fil s f))) (ret 0) t es)"
  proof -
    have "f_count (fil s f) - 1 = 0 \<longleftrightarrow> fd_refs f t = 0" unfolding dec [symmetric] by (simp only: unat_eq_zero)
    then show ?thesis
      using Some fd(1) nz f cnt(1)
      by (simp add: sys_close_def clear_cloexec_def set_fd_def upd_cur_def kern_defs fd_file_def cur_def t_def fil_def upd_fil_def upd_task_def)
  qed
  moreover have "bit (t_close_on_exec (cur t)) k \<longleftrightarrow> bit (t_close_on_exec (cur s)) k \<and> \<not> (k = fd \<and> fd < NR_OPEN)"
    "(cur t)\<lparr>t_filp := t_filp (cur s), t_close_on_exec := t_close_on_exec (cur s)\<rparr> = cur s"
    "t\<lparr>tasks := tasks s, file_table := file_table s\<rparr> = s" for k
    using fd(1) by (auto simp: t_def upd_fil_def cur_def upd_task_def clear_bit_of)
  moreover have "fil t f = (fil s f)\<lparr>f_count := f_count (fil s f) - 1\<rparr>" using cnt(1) f by (simp add: fil_def t(5))
  ultimately show ?thesis
    using Some t(2-5) refs [of f] by (intro exI [of _ t]) (simp add: cur_def fil_def)
qed

theorem close_counts_witness: "\<forall>K. \<exists>t. sys_close K 2 fd_demo [] = Ok 0 t [] \<and> t_filp (cur t) ! 0 = Some 0 \<and> fd_counted t"
proof
  fix K
  have s: "t_filp (cur fd_demo) = (replicate 20 None)[0 := Some 0, 2 := Some 0]" "f_count (fil fd_demo 0) = 2"
    by (simp_all add: fd_demo_def blk_demo_def sched_boot_def sched_state.defs blk_state.defs fs_state.defs cur_def fil_def)
  have "\<forall>f < NR_FILE. unat (f_count (fil fd_demo f)) = fd_refs f fd_demo" using fd_demo_ok(2) by (simp add: fd_counted_def)
  then have "fd_refs 0 fd_demo = unat (f_count (fil fd_demo 0))" by simp
  then have "fd_refs 0 fd_demo = 2" by (simp add: s(2))
  moreover have "fd_file fd_demo 2 = Some 0" using s(1) by (simp add: fd_file_def)
  ultimately show "\<exists>t. sys_close K 2 fd_demo [] = Ok 0 t [] \<and> t_filp (cur t) ! 0 = Some 0 \<and> fd_counted t"
    using close_counts [OF fd_demo_ok, where fd = 2 and K = K and es = "[]"] s(1) by (auto split: if_splits)
qed

end
