(* ===== verification/Proc.thy ===== *)
theory Proc
  imports Open
begin

unbundle bit_operations_syntax

text \<open>
  Processes: \<^verbatim>\<open>kernel/fork.c\<close>, \<^verbatim>\<open>kernel/exit.c\<close>, \<^verbatim>\<open>kernel/signal.c\<close>,
  \<^verbatim>\<open>kernel/sys.c\<close>, \<^verbatim>\<open>kernel/traps.c\<close>, and the demand paging of
  \<^verbatim>\<open>mm/memory.c\<close>, which reads executables.

  The selectors \<open>0x0f\<close> and \<open>0x17\<close> are entries 1 and 2 of the running task's local
  descriptor table. What the machine pushed on the kernel stack is a record of registers; a
  function that changes the saved registers returns them.
\<close>

section \<open>Forking\<close>

definition copy_mem :: "nat \<Rightarrow> u32 \<Rightarrow> (int, 'z sched_state_scheme) kern" where
  "copy_mem nr p =
     kbind (gets cur) (\<lambda>t.
     let code_limit = get_limit (t_ldt t ! 1); data_limit = get_limit (t_ldt t ! 2);
         old_code_base = get_base (t_ldt t ! 1); old_data_base = get_base (t_ldt t ! 2);
         new_base = of_nat nr * 0x4000000 in
     if old_data_base \<noteq> old_code_base then kpanic ''We don't support separate I&D''
     else if data_limit < code_limit then kpanic ''Bad data_limit''
     else kseq (modify (upd_task p (\<lambda>t. t\<lparr>t_start_code := new_base,
                  t_ldt := upd_nth 2 (set_base new_base) (upd_nth 1 (set_base new_base) (t_ldt t))\<rparr>)))
       (kbind (copy_page_tables old_data_base new_base data_limit) (\<lambda>r.
        if r \<noteq> 0 then
          kseq (printk ''free_page_tables: from copy_mem'' [])
         (kbind (free_page_tables new_base data_limit) (\<lambda>_. ret (- ENOMEM)))
        else ret 0)))"

record regs =
  rg_ebp :: u32
  rg_edi :: u32
  rg_esi :: u32
  rg_gs :: u32
  rg_ebx :: u32
  rg_ecx :: u32
  rg_edx :: u32
  rg_fs :: u32
  rg_es :: u32
  rg_ds :: u32
  rg_eip :: u32
  rg_cs :: u32
  rg_eflags :: u32
  rg_esp :: u32
  rg_ss :: u32

text \<open>The child's structure: the parent's, with the fields \<open>copy_process\<close> sets.\<close>

definition child_of :: "nat \<Rightarrow> u32 \<Rightarrow> regs \<Rightarrow> int \<Rightarrow> int \<Rightarrow> task_struct \<Rightarrow> task_struct" where
  "child_of nr p r pid now t =
     t\<lparr>t_state := TASK_UNINTERRUPTIBLE, t_pid := pid, t_father := t_pid t, t_counter := t_priority t,
       t_signal := 0, t_alarm := 0, t_leader := 0, t_utime := 0, t_stime := 0, t_cutime := 0, t_cstime := 0,
       t_start_time := now,
       t_tss := (t_tss t)\<lparr>tss_back_link := 0, tss_esp0 := 4096 + p, tss_ss0 := 0x10, tss_eip := rg_eip r,
         tss_eflags := rg_eflags r, tss_eax := 0, tss_ecx := rg_ecx r, tss_edx := rg_edx r, tss_ebx := rg_ebx r,
         tss_esp := rg_esp r, tss_ebp := rg_ebp r, tss_esi := rg_esi r, tss_edi := rg_edi r,
         es_sel := rg_es r AND 0xffff, cs_sel := rg_cs r AND 0xffff, ss_sel := rg_ss r AND 0xffff,
         ds_sel := rg_ds r AND 0xffff, fs_sel := rg_fs r AND 0xffff, gs_sel := rg_gs r AND 0xffff,
         ldt_sel := LDT_sel nr, trace_bitmap := 0x80000000\<rparr>\<rparr>"

definition inc_icount :: "nat option \<Rightarrow> (unit, 'z fs_state_scheme) kern" where
  "inc_icount x = (case x of None \<Rightarrow> skip | Some i \<Rightarrow> modify (upd_ino i (\<lambda>n. n\<lparr>i_count := i_count n + 1\<rparr>)))"

definition copy_process :: "nat \<Rightarrow> regs \<Rightarrow> (int, 'z fs_state_scheme) kern" where
  "copy_process nr r =
     kbind get_free_page (\<lambda>p.
     if p = 0 then ret (- EAGAIN)
     else kseq (modify (\<lambda>s. s\<lparr>task := (task s)[nr := p]\<rparr>))
      (kseq (modify (\<lambda>s. upd_task p (\<lambda>_. child_of nr p r (last_pid s) (jiffies s) (cur s)) s))
      (kseq (modify (\<lambda>s. if last_task_used_math s = current s
               then (upd_task p (\<lambda>t. t\<lparr>t_tss := (t_tss t)\<lparr>i387 := fpu s\<rparr>\<rparr>) s)\<lparr>cr0_ts := False, fpu := []\<rparr>
               else s))
      (kbind (copy_mem nr p) (\<lambda>e.
       if e \<noteq> 0 then
         kseq (modify (\<lambda>s. s\<lparr>task := (task s)[nr := 0]\<rparr>)) (kseq (free_page p) (ret (- EAGAIN)))
       else
         kseq (kfor [0..<NR_OPEN] (\<lambda>k.
             kbind (gets (\<lambda>s. t_filp (tasks s p) ! k)) (\<lambda>f.
             case f of None \<Rightarrow> skip | Some f \<Rightarrow> modify (upd_fil f (\<lambda>x. x\<lparr>f_count := f_count x + 1\<rparr>)))))
        (kbind (gets cur) (\<lambda>t.
         kseq (inc_icount (t_pwd t))
        (kseq (inc_icount (t_root t))
        (kseq (inc_icount (t_executable t))
        (kseq (modify (\<lambda>s. s\<lparr>gdt := (gdt s)[2 * nr + FIRST_TSS_ENTRY := set_tssldt_desc (p + tss_off) 0x89,
                                             2 * nr + FIRST_LDT_ENTRY := set_tssldt_desc (p + ldt_off) 0x82]\<rparr>))
        (kseq (modify (upd_task p (\<lambda>t. t\<lparr>t_state := TASK_RUNNING\<rparr>)))
              (gets last_pid))))))))))))"

text \<open>\<open>++last_pid\<close>, which wraps to a negative number after the largest one.\<close>

definition next_pid :: "int \<Rightarrow> int" where
  "next_pid n = (if n + 1 < 0 \<or> n + 1 \<ge> 2 ^ 31 then 1 else n + 1)"

definition pid_used :: "'z sched_state_scheme \<Rightarrow> int \<Rightarrow> bool" where
  "pid_used s pid \<longleftrightarrow> (\<exists>i < NR_TASKS. task s ! i \<noteq> 0 \<and> t_pid (tasks s (task s ! i)) = pid)"

primrec free_pid :: "nat \<Rightarrow> 'z sched_state_scheme \<Rightarrow> int \<Rightarrow> int option" where
  "free_pid 0 s n = None"
| "free_pid (Suc k) s n = (if pid_used s (next_pid n) then free_pid k s (next_pid n) else Some (next_pid n))"

text \<open>There are 64 tasks, so 65 candidates are enough.\<close>

definition find_empty_process :: "(int, 'z sched_state_scheme) kern" where
  "find_empty_process =
     kbind (gets (\<lambda>s. free_pid (Suc NR_TASKS) s (last_pid s))) (\<lambda>r.
     case r of
       None \<Rightarrow> kloops
     | Some pid \<Rightarrow>
         kseq (modify (\<lambda>s. s\<lparr>last_pid := pid\<rparr>))
        (gets (\<lambda>s. case find (\<lambda>i. task s ! i = 0) [1..<NR_TASKS] of None \<Rightarrow> - EAGAIN | Some i \<Rightarrow> int i)))"

section \<open>Exiting\<close>

definition release :: "u32 \<Rightarrow> (unit, 'z sched_state_scheme) kern" where
  "release p =
     (if p = 0 then skip
      else kbind (gets (\<lambda>s. find (\<lambda>i. task s ! i = p) [1..<NR_TASKS])) (\<lambda>r.
        case r of
          None \<Rightarrow> kpanic ''trying to release non-existent task''
        | Some i \<Rightarrow>
            kseq (modify (\<lambda>s. s\<lparr>task := (task s)[i := 0]\<rparr>))
           (kseq (free_page p) schedule)))"

definition send_sig :: "int \<Rightarrow> u32 \<Rightarrow> bool \<Rightarrow> (int, 'z sched_state_scheme) kern" where
  "send_sig sig p priv =
     (if p = 0 \<or> sig < 1 \<or> sig > 32 then ret (- EINVAL)
      else kbind (gets (\<lambda>s. priv \<or> t_euid (cur s) = t_euid (tasks s p) \<or> suser s)) (\<lambda>ok.
        if ok then kseq (modify (upd_task p (\<lambda>t. t\<lparr>t_signal := t_signal t OR S_bit (nat sig)\<rparr>))) (ret 0)
        else ret (- EPERM)))"

definition kill_session :: "(unit, 'z sched_state_scheme) kern" where
  "kill_session =
     kfor (rev [1..<NR_TASKS]) (\<lambda>i. modify (\<lambda>s.
       if task s ! i \<noteq> 0 \<and> t_session (tasks s (task s ! i)) = t_session (cur s)
       then upd_task (task s ! i) (\<lambda>t. t\<lparr>t_signal := t_signal t OR S_bit SIGHUP\<rparr>) s else s))"

text \<open>The loop of \<open>sys_kill\<close> over the tasks that \<open>sel\<close> selects; the last error stays.\<close>

definition kill_all ::
  "(task_struct \<Rightarrow> task_struct \<Rightarrow> bool) \<Rightarrow> bool \<Rightarrow> int \<Rightarrow> (int, 'z sched_state_scheme) kern" where
  "kill_all sel priv sig =
     kfold (rev [1..<NR_TASKS]) (\<lambda>i retval.
       kbind (gets (\<lambda>s. (task s ! i, sel (cur s) (tasks s (task s ! i))))) (\<lambda>x.
       if fst x \<noteq> 0 \<and> snd x then
         kbind (send_sig sig (fst x) priv) (\<lambda>err. ret (if err \<noteq> 0 then err else retval))
       else ret retval)) 0"

text \<open>For \<open>pid\<close> -1 the sources call \<open>send_sig\<close> for empty slots too, which is an error.\<close>

definition kill_every :: "int \<Rightarrow> (int, 'z sched_state_scheme) kern" where
  "kill_every sig =
     kfold (rev [1..<NR_TASKS]) (\<lambda>i retval.
       kbind (gets (\<lambda>s. task s ! i)) (\<lambda>p.
       kbind (send_sig sig p False) (\<lambda>err. ret (if err \<noteq> 0 then err else retval)))) 0"

definition sys_kill :: "int \<Rightarrow> int \<Rightarrow> (int, 'z sched_state_scheme) kern" where
  "sys_kill pid sig =
     (if pid = 0 then kill_all (\<lambda>me t. t_pgrp t = t_pid me) True sig
      else if pid > 0 then kill_all (\<lambda>me t. t_pid t = pid) False sig
      else if pid = - 1 then kill_every sig
      else kill_all (\<lambda>me t. t_pgrp t = - pid) False sig)"

definition tell_father :: "int \<Rightarrow> (unit, 'z sched_state_scheme) kern" where
  "tell_father pid =
     kbind (gets (\<lambda>s. if pid = 0 then None
              else find (\<lambda>i. task s ! i \<noteq> 0 \<and> t_pid (tasks s (task s ! i)) = pid) [0..<NR_TASKS])) (\<lambda>r.
     case r of
       Some i \<Rightarrow> modify (\<lambda>s. upd_task (task s ! i) (\<lambda>t. t\<lparr>t_signal := t_signal t OR S_bit SIGCHLD\<rparr>) s)
     | None \<Rightarrow> kseq (printk ''BAD BAD - no father found'' []) (kbind (gets current) release))"

text \<open>The children of the exiting task get task 1 as their father.\<close>

definition orphan :: "nat \<Rightarrow> (unit, 'z sched_state_scheme) kern" where
  "orphan i =
     kbind (gets (\<lambda>s. (task s ! i, tasks s (task s ! i), t_pid (cur s), task s ! 1))) (\<lambda>x.
     let p = fst x; t = fst (snd x); me = fst (snd (snd x)); init = snd (snd (snd x)) in
     kwhen (p \<noteq> 0 \<and> t_father t = me)
       (kseq (modify (upd_task p (\<lambda>t. t\<lparr>t_father := 1\<rparr>)))
             (kwhen (t_state t = TASK_ZOMBIE) (kbind (send_sig 17 init True) (\<lambda>_. skip)))))"

definition do_exit :: "'z tty_state_scheme ctx \<Rightarrow> int \<Rightarrow> (int, 'z tty_state_scheme) kern" where
  "do_exit K code =
     kbind (gets cur) (\<lambda>t.
     kbind (free_page_tables (get_base (t_ldt t ! 1)) (get_limit (t_ldt t ! 1))) (\<lambda>_.
     kbind (free_page_tables (get_base (t_ldt t ! 2)) (get_limit (t_ldt t ! 2))) (\<lambda>_.
     kseq (kfor [0..<NR_TASKS] orphan)
    (kseq (kfor [0..<NR_OPEN] (\<lambda>fd.
             kbind (gets (\<lambda>s. fd_file s fd)) (\<lambda>f.
             kwhen (f \<noteq> None) (kbind (sys_close K fd) (\<lambda>_. skip)))))
    (kseq (kbind (gets (\<lambda>s. t_pwd (cur s))) (iput K))
    (kseq (upd_cur (\<lambda>t. t\<lparr>t_pwd := None\<rparr>))
    (kseq (kbind (gets (\<lambda>s. t_root (cur s))) (iput K))
    (kseq (upd_cur (\<lambda>t. t\<lparr>t_root := None\<rparr>))
    (kseq (kbind (gets (\<lambda>s. t_executable (cur s))) (iput K))
    (kseq (upd_cur (\<lambda>t. t\<lparr>t_executable := None\<rparr>))
    (kbind (gets cur) (\<lambda>t.
     kseq (kwhen (t_leader t \<noteq> 0 \<and> t_tty t \<ge> 0)
            (if t_tty t > 2 then kfault else modify (upd_tty (nat (t_tty t)) (\<lambda>y. y\<lparr>tty_pgrp := 0\<rparr>))))
    (kseq (modify (\<lambda>s. if last_task_used_math s = current s then s\<lparr>last_task_used_math := 0\<rparr> else s))
    (kseq (kwhen (t_leader t \<noteq> 0) kill_session)
    (kseq (upd_cur (\<lambda>t. t\<lparr>t_state := TASK_ZOMBIE, t_exit_code := code\<rparr>))
    (kseq (tell_father (t_father t))
    (kseq schedule
          (ret (- 1)))))))))))))))))))"

text \<open>Code that ends in \<open>do_exit\<close> (\<open>oom\<close>, a trap): the call itself.\<close>

definition or_exit :: "'z tty_state_scheme ctx \<Rightarrow> ('a, 'z tty_state_scheme) kern \<Rightarrow> ('a option, 'z tty_state_scheme) kern" where
  "or_exit K m = (\<lambda>s es. case m s es of
       Ok v s' es' \<Rightarrow> Ok (Some v) s' es'
     | Exit code s' es' \<Rightarrow> kbind (do_exit K code) (\<lambda>_. ret None) s' es'
     | Panic msg s' \<Rightarrow> Panic msg s' | Asleep s' \<Rightarrow> Asleep s' | Fault s' \<Rightarrow> Fault s' | Loops s' \<Rightarrow> Loops s')"

definition sys_exit :: "'z tty_state_scheme ctx \<Rightarrow> int \<Rightarrow> (int, 'z tty_state_scheme) kern" where
  "sys_exit K error_code = do_exit K ((error_code mod 256) * 256)"

section \<open>Waiting for children\<close>

text \<open>The children \<open>sys_waitpid\<close> looks at.\<close>

definition waited :: "int \<Rightarrow> task_struct \<Rightarrow> task_struct \<Rightarrow> bool" where
  "waited pid me t \<longleftrightarrow> t_father t = t_pid me \<and>
     (if pid > 0 then t_pid t = pid
      else if pid = 0 then t_pgrp t = t_pgrp me
      else pid = - 1 \<or> t_pgrp t = - pid)"

datatype wait_result = Stopped u32 | Zombie u32 | Running | No_child

primrec wait_scan ::
  "nat list \<Rightarrow> bool \<Rightarrow> int \<Rightarrow> bool \<Rightarrow> 'z sched_state_scheme \<Rightarrow> wait_result" where
  "wait_scan [] untraced pid flag s = (if flag then Running else No_child)"
| "wait_scan (i # is) untraced pid flag s =
     (let p = task s ! i; t = tasks s p in
      if p = 0 \<or> p = current s \<or> \<not> waited pid (cur s) t then wait_scan is untraced pid flag s
      else if t_state t = TASK_STOPPED then
        (if untraced then Stopped p else wait_scan is untraced pid flag s)
      else if t_state t = TASK_ZOMBIE then Zombie p
      else wait_scan is untraced pid True s)"

primrec waitpid_repeat ::
  "nat \<Rightarrow> int \<Rightarrow> u32 \<Rightarrow> u32 \<Rightarrow> (int, 'z sched_state_scheme) kern" where
  "waitpid_repeat 0 pid stat_addr options = kloops"
| "waitpid_repeat (Suc n) pid stat_addr options =
     kbind (gets (wait_scan (rev [1..<NR_TASKS]) (options AND 2 \<noteq> 0) pid False)) (\<lambda>r.
     case r of
       Stopped p \<Rightarrow> kseq (put_fs_long 0x7f stat_addr) (gets (\<lambda>s. t_pid (tasks s p)))
     | Zombie p \<Rightarrow>
         kbind (gets (\<lambda>s. tasks s p)) (\<lambda>t.
         kseq (upd_cur (\<lambda>me. me\<lparr>t_cutime := t_cutime me + t_utime t, t_cstime := t_cstime me + t_stime t\<rparr>))
        (kseq (release p)
        (kseq (put_fs_long (word_of_int (t_exit_code t)) stat_addr)
              (ret (t_pid t)))))
     | Running \<Rightarrow>
         if options AND 1 \<noteq> 0 then ret 0
         else kseq (upd_cur (\<lambda>t. t\<lparr>t_state := TASK_INTERRUPTIBLE\<rparr>))
          (kseq schedule
          (kseq (upd_cur (\<lambda>t. t\<lparr>t_signal := t_signal t AND NOT (S_bit SIGCHLD)\<rparr>))
          (kbind (gets (\<lambda>s. t_signal (cur s))) (\<lambda>sig.
           if sig = 0 then waitpid_repeat n pid stat_addr options else ret (- EINTR)))))
     | No_child \<Rightarrow> ret (- ECHILD))"

definition sys_waitpid :: "nat \<Rightarrow> int \<Rightarrow> u32 \<Rightarrow> u32 \<Rightarrow> (int, 'z sched_state_scheme) kern" where
  "sys_waitpid fuel pid stat_addr options =
     kseq (verify_area stat_addr 4) (waitpid_repeat fuel pid stat_addr options)"

section \<open>Signals\<close>

abbreviation (input) SA_NOMASK :: u32 where "SA_NOMASK \<equiv> 0x40000000"
abbreviation (input) SA_ONESHOT :: u32 where "SA_ONESHOT \<equiv> 0x80000000"

definition sys_sgetmask :: "(int, 'z sched_state_scheme) kern" where
  "sys_sgetmask = gets (\<lambda>s. sint (t_blocked (cur s)))"

definition sys_ssetmask :: "u32 \<Rightarrow> (int, 'z sched_state_scheme) kern" where
  "sys_ssetmask newmask =
     kbind (gets (\<lambda>s. t_blocked (cur s))) (\<lambda>old.
     kseq (upd_cur (\<lambda>t. t\<lparr>t_blocked := newmask AND NOT (S_bit SIGKILL)\<rparr>))
          (ret (sint old)))"

definition sigaction_bytes :: "sigaction \<Rightarrow> u8 list" where
  "sigaction_bytes a = put32 (sa_handler a) @ put32 (sa_mask a) @ put32 (sa_flags a) @ put32 (sa_restorer a)"

definition sigaction_of :: "u8 list \<Rightarrow> sigaction" where
  "sigaction_of bs = \<lparr>sa_handler = le_word bs 0, sa_mask = le_word bs 4, sa_flags = le_word bs 8,
     sa_restorer = le_word bs 12\<rparr>"

definition save_old :: "sigaction \<Rightarrow> u32 \<Rightarrow> (unit, 'z sched_state_scheme) kern" where
  "save_old a to = kseq (verify_area to 16) (put_user to (sigaction_bytes a))"

definition set_action :: "int \<Rightarrow> (sigaction \<Rightarrow> sigaction) \<Rightarrow> (unit, 'z sched_state_scheme) kern" where
  "set_action signum f = upd_cur (\<lambda>t. t\<lparr>t_sigaction := upd_nth (nat (signum - 1)) f (t_sigaction t)\<rparr>)"

definition get_new :: "u32 \<Rightarrow> int \<Rightarrow> (unit, 'z sched_state_scheme) kern" where
  "get_new from signum = kbind (gets (\<lambda>s. sigaction_of (user_bytes s from 16))) (\<lambda>a. set_action signum (\<lambda>_. a))"

definition sys_signal :: "int \<Rightarrow> u32 \<Rightarrow> u32 \<Rightarrow> (int, 'z sched_state_scheme) kern" where
  "sys_signal signum handler restorer =
     (if signum < 1 \<or> signum > 32 \<or> signum = 9 then ret (- 1)
      else kbind (gets (\<lambda>s. sa_handler (t_sigaction (cur s) ! nat (signum - 1)))) (\<lambda>old.
        kseq (set_action signum (\<lambda>_. \<lparr>sa_handler = handler, sa_mask = 0,
                sa_flags = SA_ONESHOT OR SA_NOMASK, sa_restorer = restorer\<rparr>))
             (ret (sint old))))"

definition sys_sigaction :: "int \<Rightarrow> u32 \<Rightarrow> u32 \<Rightarrow> (int, 'z sched_state_scheme) kern" where
  "sys_sigaction signum action oldaction =
     (if signum < 1 \<or> signum > 32 \<or> signum = 9 then ret (- 1)
      else kbind (gets (\<lambda>s. t_sigaction (cur s) ! nat (signum - 1))) (\<lambda>tmp.
        kseq (get_new action signum)
       (kseq (kwhen (oldaction \<noteq> 0) (save_old tmp oldaction))
       (kseq (set_action signum (\<lambda>a. if sa_flags a AND SA_NOMASK \<noteq> 0 then a\<lparr>sa_mask := 0\<rparr>
                else a\<lparr>sa_mask := sa_mask a OR S_bit (nat signum)\<rparr>))
             (ret 0)))))"

text \<open>Values pushed on the user's stack, from the lowest address up.\<close>

definition put_longs :: "u32 \<Rightarrow> u32 list \<Rightarrow> (unit, 'z sched_state_scheme) kern" where
  "put_longs a vs = kfor [0..<length vs] (\<lambda>k. put_fs_long (vs ! k) (a + of_nat (4 * k)))"

text \<open>\<open>do_signal\<close>: the saved \<open>eip\<close> and \<open>esp\<close> as it leaves them.\<close>

definition do_signal ::
  "'z tty_state_scheme ctx \<Rightarrow> int \<Rightarrow> u32 \<Rightarrow> regs \<Rightarrow> (u32 \<times> u32, 'z tty_state_scheme) kern" where
  "do_signal K signr eax r =
     kbind (gets (\<lambda>s. t_sigaction (cur s) ! nat (signr - 1))) (\<lambda>sa.
     if sa_handler sa = 1 then ret (rg_eip r, rg_esp r)
     else if sa_handler sa = 0 \<and> signr = 17 then ret (rg_eip r, rg_esp r)
     else kseq (kwhen (sa_handler sa = 0) (kbind (do_exit K (sint (S_bit (nat signr)))) (\<lambda>_. skip)))
      (kseq (kwhen (sa_flags sa AND SA_ONESHOT \<noteq> 0) (set_action signr (\<lambda>a. a\<lparr>sa_handler := 0\<rparr>)))
       (let nomask = (sa_flags sa AND SA_NOMASK \<noteq> 0); longs = (if nomask then 7 else 8);
            sp = rg_esp r - 4 * longs in
        kseq (verify_area sp (uint longs * 4))
       (kbind (gets (\<lambda>s. t_blocked (cur s))) (\<lambda>blocked.
        kseq (put_longs sp ([sa_restorer sa, word_of_int signr] @ (if nomask then [] else [blocked])
                @ [eax, rg_ecx r, rg_edx r, rg_eflags r, rg_eip r]))
       (kseq (upd_cur (\<lambda>t. t\<lparr>t_blocked := t_blocked t OR sa_mask sa\<rparr>))
             (ret (sa_handler sa, sp))))))))"

section \<open>Identity, time and other small calls\<close>

definition sys_enosys :: "(int, 'z sched_state_scheme) kern" where
  "sys_enosys = ret (- ENOSYS)"

definition sys_setregid :: "int \<Rightarrow> int \<Rightarrow> (int, 'z sched_state_scheme) kern" where
  "sys_setregid rgid egid =
     kbind (gets (\<lambda>s. (cur s, suser s))) (\<lambda>x.
     let t = fst x; su = snd x in
     if rgid > 0 \<and> \<not> (uint (t_gid t) = rgid \<or> su) then ret (- EPERM)
     else kseq (kwhen (rgid > 0) (upd_cur (\<lambda>t. t\<lparr>t_gid := word_of_int rgid\<rparr>)))
       (kbind (gets cur) (\<lambda>t.
        if egid > 0 \<and> \<not> (uint (t_gid t) = egid \<or> uint (t_egid t) = egid \<or> uint (t_sgid t) = egid \<or> su)
        then ret (- EPERM)
        else kseq (kwhen (egid > 0) (upd_cur (\<lambda>t. t\<lparr>t_egid := word_of_int egid\<rparr>))) (ret 0))))"

definition sys_setgid :: "int \<Rightarrow> (int, 'z sched_state_scheme) kern" where
  "sys_setgid gid = sys_setregid gid gid"

definition sys_time :: "u32 \<Rightarrow> (int, 'z sched_state_scheme) kern" where
  "sys_time tloc =
     kbind (gets CURRENT_TIME) (\<lambda>i.
     kseq (kwhen (tloc \<noteq> 0) (kseq (verify_area tloc 4) (put_fs_long (word_of_int i) tloc)))
          (ret i))"

definition sys_setreuid :: "int \<Rightarrow> int \<Rightarrow> (int, 'z sched_state_scheme) kern" where
  "sys_setreuid ruid euid =
     kbind (gets cur) (\<lambda>t0.
     let old = uint (t_uid t0) in
     kbind (gets suser) (\<lambda>su.
     if ruid > 0 \<and> \<not> (uint (t_euid t0) = ruid \<or> old = ruid \<or> su) then ret (- EPERM)
     else kseq (kwhen (ruid > 0) (upd_cur (\<lambda>t. t\<lparr>t_uid := word_of_int ruid\<rparr>)))
       (if euid > 0 then
          (if old = euid \<or> uint (t_euid t0) = euid \<or> su
           then kseq (upd_cur (\<lambda>t. t\<lparr>t_euid := word_of_int euid\<rparr>)) (ret 0)
           else kseq (upd_cur (\<lambda>t. t\<lparr>t_uid := t_uid t0\<rparr>)) (ret (- EPERM)))
        else ret 0)))"

definition sys_setuid :: "int \<Rightarrow> (int, 'z sched_state_scheme) kern" where
  "sys_setuid uid = sys_setreuid uid uid"

definition sys_stime :: "u32 \<Rightarrow> (int, 'z sched_state_scheme) kern" where
  "sys_stime tptr =
     kbind (gets suser) (\<lambda>su.
     if \<not> su then ret (- EPERM)
     else kbind (get_fs_long tptr) (\<lambda>v.
       kseq (modify (\<lambda>s. s\<lparr>startup_time := s32 (sint v - cdiv (jiffies s) HZ)\<rparr>)) (ret 0)))"

definition sys_times :: "u32 \<Rightarrow> (int, 'z sched_state_scheme) kern" where
  "sys_times tbuf =
     kseq (kwhen (tbuf \<noteq> 0)
       (kseq (verify_area tbuf 16)
       (kbind (gets cur) (\<lambda>t.
        put_longs tbuf [word_of_int (t_utime t), word_of_int (t_stime t), word_of_int (t_cutime t),
          word_of_int (t_cstime t)]))))
     (gets jiffies)"

definition sys_brk :: "u32 \<Rightarrow> (int, 'z sched_state_scheme) kern" where
  "sys_brk end_data_seg =
     kseq (upd_cur (\<lambda>t. if end_data_seg \<ge> t_end_code t \<and> end_data_seg < t_start_stack t - 16384
             then t\<lparr>t_brk := end_data_seg\<rparr> else t))
          (gets (\<lambda>s. sint (t_brk (cur s))))"

definition sys_setpgid :: "int \<Rightarrow> int \<Rightarrow> (int, 'z sched_state_scheme) kern" where
  "sys_setpgid pid0 pgid0 =
     kbind (gets (\<lambda>s. t_pid (cur s))) (\<lambda>me.
     let pid = (if pid0 = 0 then me else pid0); pgid = (if pgid0 = 0 then me else pgid0) in
     kbind (gets (\<lambda>s. find (\<lambda>i. task s ! i \<noteq> 0 \<and> t_pid (tasks s (task s ! i)) = pid) [0..<NR_TASKS])) (\<lambda>r.
     case r of
       None \<Rightarrow> ret (- ESRCH)
     | Some i \<Rightarrow>
         kbind (gets (\<lambda>s. (tasks s (task s ! i), t_session (cur s)))) (\<lambda>x.
         if t_leader (fst x) \<noteq> 0 then ret (- EPERM)
         else if t_session (fst x) \<noteq> snd x then ret (- EPERM)
         else kseq (modify (\<lambda>s. upd_task (task s ! i) (\<lambda>t. t\<lparr>t_pgrp := pgid\<rparr>) s)) (ret 0))))"

definition sys_getpgrp :: "(int, 'z sched_state_scheme) kern" where
  "sys_getpgrp = gets (\<lambda>s. t_pgrp (cur s))"

definition sys_setsid :: "(int, 'z sched_state_scheme) kern" where
  "sys_setsid =
     kbind (gets (\<lambda>s. t_leader (cur s) \<noteq> 0 \<and> \<not> suser s)) (\<lambda>deny.
     if deny then ret (- EPERM)
     else kseq (upd_cur (\<lambda>t. t\<lparr>t_leader := 1, t_session := t_pid t, t_pgrp := t_pid t, t_tty := - 1\<rparr>))
               (gets (\<lambda>s. t_pgrp (cur s))))"

definition ascii :: "string \<Rightarrow> u8 list" where
  "ascii cs = map of_char cs"

definition thisname :: "u8 list" where
  "thisname = concat (map (\<lambda>f. ascii f @ replicate (9 - length f) 0)
     [''linux .0'', ''nodename'', ''release '', ''version '', ''machine ''])"

definition sys_uname :: "u32 \<Rightarrow> (int, 'z sched_state_scheme) kern" where
  "sys_uname name =
     (if name = 0 then ret (- ERROR)
      else kseq (verify_area name 45) (kseq (put_user name thisname) (ret 0)))"

definition sys_umask :: "u16 \<Rightarrow> (int, 'z sched_state_scheme) kern" where
  "sys_umask msk =
     kbind (gets (\<lambda>s. uint (t_umask (cur s)))) (\<lambda>old.
     kseq (upd_cur (\<lambda>t. t\<lparr>t_umask := msk AND 0x1FF\<rparr>)) (ret old))"

section \<open>Demand paging\<close>

definition try_to_share :: "u32 \<Rightarrow> u32 \<Rightarrow> (bool, 'z sched_state_scheme) kern" where
  "try_to_share address p =
     kbind (gets (\<lambda>s. (t_start_code (tasks s p), t_start_code (cur s)))) (\<lambda>x.
     let d = drop_bit 20 address AND 0xffc;
         from_dir = d + (drop_bit 20 (fst x) AND 0xffc); to_dir = d + (drop_bit 20 (snd x) AND 0xffc);
         t = drop_bit 10 address AND 0xffc in
     kbind (ld from_dir) (\<lambda>from.
     if from AND 1 = 0 then ret False
     else let from_page = page_frame from + t in
       kbind (ld from_page) (\<lambda>entry.
       if entry AND 0x41 \<noteq> 1 then ret False
       else let phys = page_frame entry in
         kbind (gets HIGH_MEMORY) (\<lambda>high.
         if phys \<ge> high \<or> phys < LOW_MEM then ret False
         else kbind (ld to_dir) (\<lambda>to0.
           kbind (if to0 AND 1 = 0 then
                    kbind get_free_page (\<lambda>page.
                    if page \<noteq> 0 then kseq (st to_dir (page OR 7)) (ret page) else oom)
                  else ret to0) (\<lambda>to1.
           let to_page = page_frame to1 + t in
           kbind (ld to_page) (\<lambda>e.
           if e AND 1 \<noteq> 0 then kpanic ''try_to_share: to_page already exists''
           else kbind (ld from_page) (\<lambda>f.
             kseq (st from_page (f AND NOT 2))
            (kbind (ld from_page) (\<lambda>f.
             kseq (st to_page f)
            (kseq invalidate
            (kseq (map_upd (MAP_NR phys) (\<lambda>c. c + 1))
                  (ret True)))))))))))))"

definition share_page :: "u32 \<Rightarrow> (bool, 'z fs_state_scheme) kern" where
  "share_page address =
     kbind (gets (\<lambda>s. (t_executable (cur s), s))) (\<lambda>x.
     case fst x of
       None \<Rightarrow> ret False
     | Some e \<Rightarrow>
         if i_count (ino (snd x) e) < 2 then ret False
         else kbind (kfind (rev [1..<NR_TASKS]) (\<lambda>i.
             kbind (gets (\<lambda>s. (task s ! i, current s, t_executable (tasks s (task s ! i)), t_executable (cur s)))) (\<lambda>y.
             let p = fst y; me = fst (snd y) in
             if p = 0 \<or> me = p \<or> fst (snd (snd y)) \<noteq> snd (snd (snd y)) then ret None
             else kbind (try_to_share address p) (\<lambda>ok. ret (if ok then Some () else None))))) (\<lambda>r.
           ret (r \<noteq> None)))"

text \<open>The bytes after the end of the data in the last page are cleared.\<close>

definition clear_tail :: "u32 \<Rightarrow> int \<Rightarrow> (u32 \<Rightarrow> u32) \<Rightarrow> (u32 \<Rightarrow> u32)" where
  "clear_tail page n m = fold (\<lambda>k m. st8 (page + 4096 - of_nat (Suc k)) 0 m) [0..<nat n] m"

definition do_no_page :: "'z fs_state_scheme ctx \<Rightarrow> u32 \<Rightarrow> (unit, 'z fs_state_scheme) kern" where
  "do_no_page K address0 =
     (let address = address0 AND 0xfffff000 in
      kbind (gets cur) (\<lambda>t.
      let tmp = address - t_start_code t in
      case t_executable t of
        None \<Rightarrow> get_empty_page address
      | Some e \<Rightarrow>
          if tmp \<ge> t_end_data t then get_empty_page address
          else kbind (share_page tmp) (\<lambda>shared.
            if shared then skip
            else kbind get_free_page (\<lambda>page0.
              kbind (if page0 = 0 then oom else ret page0) (\<lambda>page.
              let block = 1 + uint tmp div 1024 in
              kbind (kfold [0..<4] (\<lambda>i nr.
                  kbind (gets (\<lambda>s. t_executable (cur s))) (\<lambda>x.
                  case x of None \<Rightarrow> kfault
                  | Some e \<Rightarrow> kbind (get_diskBlock K e (block + int i)) (\<lambda>b. ret (nr @ [word_of_int b])))) []) (\<lambda>nr.
              kbind (gets (\<lambda>s. case t_executable (cur s) of None \<Rightarrow> 0 | Some e \<Rightarrow> i_dev (ino s e))) (\<lambda>dev.
              kseq (bread_page K page dev nr)
             (kbind (gets (\<lambda>s. sint (tmp + 4096 - t_end_data (cur s)))) (\<lambda>i.
              kseq (modify (\<lambda>s. s\<lparr>mem := clear_tail page i (mem s)\<rparr>))
             (kbind (put_page page address) (\<lambda>r.
              if r \<noteq> 0 then skip else kseq (free_page page) oom)))))))))))"

section \<open>Traps\<close>

text \<open>\<open>die\<close>: what it prints of the saved registers, and the end of the task. \<open>stack\<close> is
  the five longs at \<open>esp_ptr\<close>, \<open>code\<close> reads a byte of the code segment and \<open>fs\<close>
  and \<open>nr_task\<close> are the registers it prints.\<close>

definition die ::
  "'z tty_state_scheme ctx \<Rightarrow> string \<Rightarrow> u32 list \<Rightarrow> (u32 \<Rightarrow> u8) \<Rightarrow> u16 \<Rightarrow> u16 \<Rightarrow> u32 \<Rightarrow> (unit, 'z tty_state_scheme) kern" where
  "die K msg stack code fs nr_task nr =
     kseq (printk (msg @ '': %04x'') [uint (nr AND 0xffff)])
    (kseq (printk ''EIP: %04x:%p EFLAGS: %p ESP: %04x:%p''
            [uint (stack ! 1), uint (stack ! 0), uint (stack ! 2), uint (stack ! 4), uint (stack ! 3)])
    (kseq (printk ''fs: %04x'' [uint fs])
    (kbind (gets cur) (\<lambda>t.
     kseq (printk ''base: %p, limit: %p'' [uint (get_base (t_ldt t ! 1)), uint (get_limit (t_ldt t ! 2))])
    (kseq (kwhen (stack ! 4 = 0x17)
            (kseq (printk ''Stack: '' [])
            (kseq (kfor [0..<4] (\<lambda>i.
                     kbind (get_fs_long (stack ! 3 + of_nat (4 * i))) (\<lambda>v. printk ''%p '' [uint v])))
                  (printk '''' []))))
    (kseq (printk ''Pid: %d, process nr: %d'' [t_pid t, uint nr_task])
    (kseq (kfor [0..<10] (\<lambda>i. printk ''%02x '' [uint (code (stack ! 0 + of_nat i))]))
    (kseq (printk '''' [])
    (kbind (do_exit K 11) (\<lambda>_. skip))))))))))"

definition do_coprocessor_error ::
  "'z tty_state_scheme ctx \<Rightarrow> u32 list \<Rightarrow> (u32 \<Rightarrow> u8) \<Rightarrow> u16 \<Rightarrow> u16 \<Rightarrow> u32 \<Rightarrow> (unit, 'z tty_state_scheme) kern" where
  "do_coprocessor_error K stack code fs nr_task error_code =
     kbind (gets (\<lambda>s. last_task_used_math s \<noteq> current s)) (\<lambda>other.
     if other then skip else die K ''coprocessor error'' stack code fs nr_task error_code)"

text \<open>\<open>trap_init\<close>: the first seventeen gates and those of the reserved traps; \<open>handler\<close>
  gives the addresses of the assembly stubs.\<close>

definition trap_init :: "(string \<Rightarrow> u32) \<Rightarrow> (unit, 'z sched_state_scheme) kern" where
  "trap_init handler =
     (let gate = (\<lambda>n d. modify (\<lambda>s. s\<lparr>idt := (idt s)[n := d]\<rparr>)) in
      kblock ([gate 0 (set_trap_gate (handler ''divide_error'')), gate 1 (set_trap_gate (handler ''debug'')),
        gate 2 (set_trap_gate (handler ''nmi'')), gate 3 (set_system_gate (handler ''int3'')),
        gate 4 (set_system_gate (handler ''overflow'')), gate 5 (set_system_gate (handler ''bounds'')),
        gate 6 (set_trap_gate (handler ''invalid_op'')), gate 7 (set_trap_gate (handler ''device_not_available'')),
        gate 8 (set_trap_gate (handler ''double_fault'')),
        gate 9 (set_trap_gate (handler ''coprocessor_segment_overrun'')),
        gate 10 (set_trap_gate (handler ''invalid_TSS'')), gate 11 (set_trap_gate (handler ''segment_not_present'')),
        gate 12 (set_trap_gate (handler ''stack_segment'')), gate 13 (set_trap_gate (handler ''general_protection'')),
        gate 14 (set_trap_gate (handler ''page_fault'')), gate 15 (set_trap_gate (handler ''reserved'')),
        gate 16 (set_trap_gate (handler ''coprocessor_error''))]
       @ map (\<lambda>i. gate i (set_trap_gate (handler ''reserved''))) [17..<48]
       @ [gate 45 (set_trap_gate (handler ''irq13'')),
          kbind (gets (\<lambda>s. port_in s 0x21)) (\<lambda>v. outb (v AND 0xfb) 0x21),
          kbind (gets (\<lambda>s. port_in s 0xA1)) (\<lambda>v. outb (v AND 0xdf) 0xA1),
          gate 39 (set_trap_gate (handler ''parallel_interrupt''))]))"

section \<open>Process numbers\<close>

lemma next_pid_mod:
  assumes "0 \<le> n" and "n < 2 ^ 31"
  shows "next_pid n = n mod (2 ^ 31 - 1) + 1"
  using assms by (cases "n = 2 ^ 31 - 1") (auto simp: next_pid_def)

lemma next_pid_range: "0 \<le> n \<Longrightarrow> n < 2 ^ 31 \<Longrightarrow> 1 \<le> next_pid n \<and> next_pid n < 2 ^ 31"
  by (auto simp: next_pid_def)

lemma next_pid_iter:
  assumes "0 \<le> n" and "n < 2 ^ 31"
  shows "(next_pid ^^ Suc k) n = (n + int k) mod (2 ^ 31 - 1) + 1"
proof (induction k)
  case 0
  then show ?case using next_pid_mod [OF assms] by simp
next
  case (Suc k)
  let ?M = "2 ^ 31 - 1 :: int"
  have r: "0 \<le> (n + int k) mod ?M" "(n + int k) mod ?M < ?M" by (simp_all add: pos_mod_bound)
  have "(next_pid ^^ Suc (Suc k)) n = next_pid ((n + int k) mod ?M + 1)" using Suc.IH by simp
  also have "\<dots> = ((n + int k) mod ?M + 1) mod ?M + 1" using r by (intro next_pid_mod) auto
  also have "\<dots> = (n + int (Suc k)) mod ?M + 1" by (simp add: mod_simps ac_simps)
  finally show ?case .
qed

lemma next_pid_iter_inj:
  assumes "0 \<le> n" and "n < 2 ^ 31"
  shows "inj_on (\<lambda>k. (next_pid ^^ Suc k) n) {..<65}"
proof (rule inj_onI)
  fix j k :: nat
  let ?M = "2 ^ 31 - 1 :: int"
  assume jk: "j \<in> {..<65}" "k \<in> {..<65}" "(next_pid ^^ Suc j) n = (next_pid ^^ Suc k) n"
  then have "(n + int j) mod ?M = (n + int k) mod ?M" unfolding next_pid_iter [OF assms] by simp
  then have "?M dvd int j - int k" by (simp add: mod_eq_dvd_iff)
  moreover have "\<bar>int j - int k\<bar> < ?M" using jk(1,2) by simp
  ultimately show "j = k" using zdvd_not_zless [of "\<bar>int j - int k\<bar>" ?M] by (cases "int j = int k") auto
qed

lemma free_pid_Some:
  "free_pid k s n = Some pid \<Longrightarrow> \<not> pid_used s pid \<and> (\<exists>j < k. pid = (next_pid ^^ Suc j) n)"
proof (induction k arbitrary: n)
  case (Suc k)
  show ?case
  proof (cases "pid_used s (next_pid n)")
    case True
    with Suc.prems obtain j where "j < k" "pid = (next_pid ^^ Suc j) (next_pid n)" "\<not> pid_used s pid" using Suc.IH [of "next_pid n"] by auto
    then show ?thesis by (intro conjI exI [of _ "Suc j"]) (auto simp: funpow_swap1)
  next
    case False
    with Suc.prems show ?thesis by (auto intro!: exI [of _ 0])
  qed
qed simp

lemma free_pid_None: "free_pid k s n = None \<Longrightarrow> j < k \<Longrightarrow> pid_used s ((next_pid ^^ Suc j) n)"
proof (induction k arbitrary: n j)
  case (Suc k)
  then show ?case by (cases j) (auto simp: funpow_swap1 split: if_splits)
qed simp

text \<open>With 64 tasks at most 64 numbers are taken, so one of 65 candidates is free.\<close>

lemma free_pid_exists:
  assumes "0 \<le> n" and "n < 2 ^ 31"
  shows "\<exists>pid. free_pid 65 s n = Some pid"
proof (rule ccontr)
  assume "\<not> ?thesis"
  then have None: "free_pid 65 s n = None" by (cases "free_pid 65 s n") auto
  let ?f = "\<lambda>k. (next_pid ^^ Suc k) n"
  let ?taken = "(\<lambda>i. t_pid (tasks s (task s ! i))) ` {..<64}"
  have "?f ` {..<65} \<subseteq> ?taken"
  proof
    fix x
    assume "x \<in> ?f ` {..<65}"
    then obtain k where "k < 65" and x: "x = ?f k" by blast
    from free_pid_None [OF None this(1)] obtain i where "i < 64" "t_pid (tasks s (task s ! i)) = x"
      unfolding pid_used_def x by blast
    then show "x \<in> ?taken" by auto
  qed
  then have "card (?f ` {..<65}) \<le> card ?taken" by (intro card_mono) auto
  moreover have "card (?f ` {..<65}) = 65" using next_pid_iter_inj [OF assms] by (simp add: card_image)
  moreover have "card ?taken \<le> 64" using card_image_le [of "{..<64::nat}" "\<lambda>i. t_pid (tasks s (task s ! i))"] by simp
  ultimately show False by simp
qed

text \<open>C34: \<open>find_empty_process\<close> always comes back: among 65 candidates, with the wrap-around after the largest number,
  there is one that no task has. It becomes \<open>last_pid\<close> and is positive. The result is the lowest free slot
  above 0, or EAGAIN when there is none; nothing else changes.\<close>

theorem find_empty_process_total:
  assumes "0 \<le> last_pid s" and "last_pid s < 2 ^ 31"
  shows "\<exists>pid r. find_empty_process s es = Ok r (s\<lparr>last_pid := pid\<rparr>) es \<and> \<not> pid_used s pid \<and> 1 \<le> pid \<and> pid < 2 ^ 31 \<and>
    (if \<forall>i \<in> {1..<64}. task s ! i \<noteq> 0 then r = - EAGAIN
     else \<exists>i \<in> {1..<64}. r = int i \<and> task s ! i = 0 \<and> (\<forall>j \<in> {1..<i}. task s ! j \<noteq> 0))"
proof -
  obtain pid where pid: "free_pid 65 s (last_pid s) = Some pid" using free_pid_exists [OF assms] by blast
  then obtain j where fresh: "\<not> pid_used s pid" and j: "pid = (next_pid ^^ Suc j) (last_pid s)"
    using free_pid_Some by blast
  have range: "1 \<le> pid \<and> pid < 2 ^ 31"
    unfolding j next_pid_iter [OF assms] using pos_mod_bound [of "2 ^ 31 - 1" "last_pid s + int j"] by simp
  define r where "r = (case find (\<lambda>i. task s ! i = 0) [1..<64] of None \<Rightarrow> - EAGAIN | Some i \<Rightarrow> int i)"
  have "find_empty_process s es = Ok r (s\<lparr>last_pid := pid\<rparr>) es"
    using pid by (simp add: find_empty_process_def kern_defs r_def)
  moreover have "if \<forall>i \<in> {1..<64}. task s ! i \<noteq> 0 then r = - EAGAIN
     else \<exists>i \<in> {1..<64}. r = int i \<and> task s ! i = 0 \<and> (\<forall>j \<in> {1..<i}. task s ! j \<noteq> 0)"
  proof (cases "find (\<lambda>i. task s ! i = 0) [1..<64]")
    case None
    then have "r = - EAGAIN" by (simp add: r_def)
    then show ?thesis using None by (auto simp: find_None_iff)
  next
    case (Some i)
    then obtain k where k: "k < 63" "i = Suc k" "task s ! i = 0" "\<And>j. j < k \<Longrightarrow> task s ! Suc j \<noteq> 0"
      by (auto simp: find_Some_iff)
    have "task s ! j \<noteq> 0" if "j \<in> {1..<i}" for j using k(4) [of "j - 1"] that k(2) by (cases j) auto
    moreover have "r = int i" "i \<in> {1..<64}" using Some k(1,2) by (auto simp: r_def)
    ultimately have "\<exists>i \<in> {1..<64}. r = int i \<and> task s ! i = 0 \<and> (\<forall>j \<in> {1..<i}. task s ! j \<noteq> 0)"
      using k(3) by blast
    then show ?thesis by auto
  qed
  ultimately show ?thesis using fresh range by blast
qed


theorem find_empty_process_total_witness:
  "\<exists>pid. find_empty_process sched_boot [] = Ok 2 (sched_boot\<lparr>last_pid := pid\<rparr>) [] \<and> \<not> pid_used sched_boot pid"
proof -
  have t: "task sched_boot ! 1 \<noteq> 0" "task sched_boot ! 2 = 0" "last_pid sched_boot = 1"
    by (simp_all add: sched_boot_def)
  from find_empty_process_total [of sched_boot "[]"] t(3) obtain pid r where
    r: "find_empty_process sched_boot [] = Ok r (sched_boot\<lparr>last_pid := pid\<rparr>) []" "\<not> pid_used sched_boot pid"
      "if \<forall>i \<in> {1..<64}. task sched_boot ! i \<noteq> 0 then r = - EAGAIN
       else \<exists>i \<in> {1..<64}. r = int i \<and> task sched_boot ! i = 0 \<and> (\<forall>j \<in> {1..<i}. task sched_boot ! j \<noteq> 0)"
    by auto
  have "\<not> (\<forall>i \<in> {1..<64}. task sched_boot ! i \<noteq> 0)" using t(2) by (auto intro!: bexI [of _ 2])
  with r(3) have "\<exists>i \<in> {1..<64}. r = int i \<and> task sched_boot ! i = 0 \<and> (\<forall>j \<in> {1..<i}. task sched_boot ! j \<noteq> 0)"
    by (simp only: if_False)
  then obtain i where i: "i \<in> {1..<64}" "r = int i" "task sched_boot ! i = 0" "\<forall>j \<in> {1..<i}. task sched_boot ! j \<noteq> 0"
    by blast
  have "i = 2"
  proof (rule ccontr)
    assume "i \<noteq> 2"
    then consider "i = 1" | "2 < i" using i(1) by force
    then show False by cases (use t i in auto)
  qed
  then show ?thesis using r(1,2) i(2) by auto
qed

section \<open>Signals that cannot be refused\<close>

lemma get_free_page_tasks: "keeps R (\<lambda>s. tasks s = T \<and> current s = p) get_free_page"
  unfolding get_free_page_def by (intro keeps) auto

lemma verify_area_tasks: "keeps R (\<lambda>s. tasks s = T \<and> current s = p) (verify_area a n)"
proof -
  have u: "keeps R (\<lambda>s. tasks s = T \<and> current s = p) (un_wp_page e)" for e
    unfolding un_wp_page_def map_get_def map_upd_def st_def ld_def invalidate_def oom_def printk_def
    by (intro keeps get_free_page_tasks) auto
  have w: "keeps R (\<lambda>s. tasks s = T \<and> current s = p) (write_verify b)" for b
    unfolding write_verify_def ld_def by (intro keeps u)
  have "keeps R (\<lambda>s. tasks s = T \<and> current s = p) (verify_pages k b m)" for k b m
    by (induction k arbitrary: b m) (auto intro!: keeps w)
  then show ?thesis unfolding verify_area_def by (intro keeps)
qed

lemma verify_area_cur:
  assumes "verify_area a n s es = Ok v t fs"
  shows "tasks t = tasks s \<and> current t = current s"
  using keepsD [OF verify_area_tasks [of "\<lambda>_ _. True" "tasks s" "current s"], of s] assms
  by (auto simp: conforms_def)

text \<open>C35: a task cannot refuse to be killed by setting its mask or its handlers. Whatever \<open>sys_ssetmask\<close>,
  \<open>sys_signal\<close> and \<open>sys_sigaction\<close> are given, the action for SIGKILL stays as it is and SIGKILL
  is not blocked afterwards unless it was before.\<close>

theorem kill_not_refused:
  assumes "m = sys_ssetmask newmask \<or> m = sys_signal signum handler restorer \<or> m = sys_sigaction signum action oldaction"
    and "m s es = Ok v t fs"
  shows "t_sigaction (cur t) ! 8 = t_sigaction (cur s) ! 8 \<and> (bit (t_blocked (cur t)) 8 \<longrightarrow> bit (t_blocked (cur s)) 8)"
  using assms(1)
proof (elim disjE)
  assume "m = sys_ssetmask newmask"
  then show ?thesis
    using assms(2) by (auto simp: sys_ssetmask_def upd_cur_def kern_defs cur_def S_bit_def bit_simps)
next
  assume "m = sys_signal signum handler restorer"
  then show ?thesis
    using assms(2) by (auto simp: sys_signal_def set_action_def upd_cur_def kern_defs cur_def split: if_splits)
next
  assume m: "m = sys_sigaction signum action oldaction"
  show ?thesis
  proof (cases "signum < 1 \<or> signum > 32 \<or> signum = 9")
    case True
    then show ?thesis using assms(2) m by (auto simp: sys_sigaction_def kern_defs)
  next
    case False
    then have n: "nat (signum - 1) \<noteq> 8" by auto
    show ?thesis
      using assms(2) m False n
      by (cases "oldaction = 0")
         (auto simp: sys_sigaction_def get_new_def set_action_def save_old_def put_user_def upd_cur_def run_simps kwhen_def
           cur_def dest!: verify_area_cur)
  qed
qed


theorem kill_not_refused_witness:
  "\<exists>v t. sys_ssetmask (- 1) sched_boot [] = Ok v t [] \<and> t_sigaction (cur t) ! 8 = t_sigaction (cur sched_boot) ! 8 \<and>
     \<not> bit (t_blocked (cur t)) 8"
proof -
  have "\<exists>v t. sys_ssetmask (- 1) sched_boot [] = Ok v t []" by (simp add: sys_ssetmask_def upd_cur_def kern_defs)
  moreover have "\<not> bit (t_blocked (cur sched_boot)) 8" by (simp add: sched_boot_def cur_def INIT_TASK_def)
  ultimately show ?thesis using kill_not_refused [of "sys_ssetmask (- 1)" "- 1" 0 0 0 0 0 sched_boot "[]"] by blast
qed

text \<open>Writing to user memory changes no task.\<close>

lemma put_longs_tasks:
  assumes "put_longs a vs s es = Ok v t fs"
  shows "tasks t = tasks s \<and> current t = current s"
proof -
  have "keeps (\<lambda>_ _. True) (\<lambda>x. tasks x = tasks s \<and> current x = current s) (put_longs a vs)"
    unfolding put_longs_def put_fs_long_def by (intro keeps) simp
  from keepsD [OF this _ _ assms] show ?thesis by (simp add: conforms_def)
qed

text \<open>C36: but a handler can, while it runs. A task installs a handler of its own for some signal other than SIGKILL with
  \<open>sys_sigaction\<close>, and that signal is delivered. Then SIGKILL is blocked exactly when it was before, or
  when the mask of the action has SIGKILL in it and the flag \<open>SA_NOMASK\<close> is clear: the call takes such a mask over without
  removing SIGKILL, and clears the mask only if the flag is set.\<close>

theorem handler_blocks_kill:
  assumes "1 \<le> signum" and "signum \<le> 32" and "signum \<noteq> 9" and "length (t_sigaction (cur s)) = 32"
    and "sigaction_of (user_bytes s action 16) = a" and "1 < sa_handler a"
    and "sys_sigaction signum action 0 s es = Ok v t fs" and "do_signal K signum eax r t fs = Ok w u gs"
  shows "fst w = sa_handler a \<and>
    (bit (t_blocked (cur u)) 8 \<longleftrightarrow> bit (t_blocked (cur s)) 8 \<or> bit (sa_mask a) 8 \<and> sa_flags a AND SA_NOMASK = 0)"
proof -
  let ?n = "nat (signum - 1)"
  have n: "?n < 32" "?n \<noteq> 8" using assms(1,2,3) by auto
  define b where "b = (if sa_flags a AND SA_NOMASK \<noteq> 0 then a\<lparr>sa_mask := 0\<rparr> else a\<lparr>sa_mask := sa_mask a OR S_bit (nat signum)\<rparr>)"
  have t: "t_sigaction (cur t) ! ?n = b" "t_blocked (cur t) = t_blocked (cur s)"
    using assms(1-5,7) n
    by (auto simp: sys_sigaction_def get_new_def set_action_def upd_cur_def kern_defs cur_def b_def)
  have "\<not> bit (S_bit (nat signum)) 8" using n(2) assms(1) by (auto simp: S_bit_def bit_simps)
  then have h: "sa_handler b = sa_handler a" "sa_handler a \<noteq> 0" "sa_handler a \<noteq> 1" "bit (sa_mask b) 8 \<longleftrightarrow> bit (sa_mask a) 8 \<and> sa_flags a AND SA_NOMASK = 0"
    using assms(6) by (auto simp: b_def bit_or_iff)
  have "fst w = sa_handler a \<and> t_blocked (cur u) = t_blocked (cur t) OR sa_mask b"
    using assms(8) t(1) h(1-3)
    by (auto simp: do_signal_def run_simps Let_def kwhen_def upd_cur_def cur_def set_action_def dest!: put_longs_tasks verify_area_cur split: if_splits)
  then show ?thesis using t(2) h(4) by (auto simp: bit_or_iff)
qed

section \<open>User and group numbers\<close>

lemma setreuid_run:
  assumes "\<not> suser s"
  shows "\<exists>v t. sys_setreuid ruid euid s es = Ok v t es \<and> {t_uid (cur t), t_euid (cur t)} \<subseteq> {t_uid (cur s), t_euid (cur s)} \<and>
      (v \<noteq> 0 \<longrightarrow> v = - EPERM \<and> cur t = cur s)"
proof (cases "ruid > 0 \<and> \<not> (uint (t_euid (cur s)) = ruid \<or> uint (t_uid (cur s)) = ruid)")
  case True
  then show ?thesis using assms by (simp add: sys_setreuid_def kern_defs Let_def)
next
  case ok: False
  let ?R = "(word_of_int ruid :: u16)" and ?E = "(word_of_int euid :: u16)"
  let ?t = "if ruid > 0 then upd_task (current s) (\<lambda>t. t\<lparr>t_uid := ?R\<rparr>) s else s"
  have R: "ruid > 0 \<Longrightarrow> ?R \<in> {t_uid (cur s), t_euid (cur s)}"
    using ok by (metis insert_iff word_of_int_uint)
  show ?thesis
  proof (cases "euid > 0 \<and> (uint (t_uid (cur s)) = euid \<or> uint (t_euid (cur s)) = euid)")
    case True
    then have E: "?E \<in> {t_uid (cur s), t_euid (cur s)}" by (metis insert_iff word_of_int_uint)
    have "sys_setreuid ruid euid s es = Ok 0 (upd_task (current s) (\<lambda>t. t\<lparr>t_euid := ?E\<rparr>) ?t) es"
      using True ok assms by (cases "ruid > 0") (auto simp: sys_setreuid_def kern_defs upd_cur_def Let_def)
    then show ?thesis using R E by (auto simp: cur_def)
  next
    case no: False
    show ?thesis
    proof (cases "euid > 0")
      case True
      have "sys_setreuid ruid euid s es = Ok (- EPERM) (upd_task (current s) (\<lambda>t. t\<lparr>t_uid := t_uid (cur s)\<rparr>) ?t) es"
        using True no ok assms by (cases "ruid > 0") (auto simp: sys_setreuid_def kern_defs upd_cur_def Let_def)
      then show ?thesis by (simp add: cur_def)
    next
      case False
      then have "sys_setreuid ruid euid s es = Ok 0 ?t es"
        using ok assms by (cases "ruid > 0") (simp_all add: sys_setreuid_def kern_defs upd_cur_def Let_def)
      then show ?thesis using R by (simp add: cur_def)
    qed
  qed
qed

lemma setregid_run:
  assumes "\<not> suser s"
  shows "\<exists>v t. sys_setregid rgid egid s es = Ok v t es \<and> (v = 0 \<or> v = - EPERM) \<and> t_gid (cur t) = t_gid (cur s) \<and>
      t_egid (cur t) \<in> {t_gid (cur s), t_egid (cur s), t_sgid (cur s)}"
proof (cases "rgid > 0 \<and> uint (t_gid (cur s)) \<noteq> rgid")
  case True
  then show ?thesis using assms by (simp add: sys_setregid_def kern_defs Let_def)
next
  case ok: False
  let ?E = "(word_of_int egid :: u16)"
  have t: "rgid > 0 \<Longrightarrow> upd_task (current s) (\<lambda>t. t\<lparr>t_gid := word_of_int rgid\<rparr>) s = s"
    using ok by (auto simp: cur_def upd_task_def)
  show ?thesis
  proof (cases "egid > 0 \<and> (uint (t_gid (cur s)) = egid \<or> uint (t_egid (cur s)) = egid \<or> uint (t_sgid (cur s)) = egid)")
    case True
    then have E: "?E \<in> {t_gid (cur s), t_egid (cur s), t_sgid (cur s)}" by (metis insert_iff word_of_int_uint)
    have "sys_setregid rgid egid s es = Ok 0 (upd_task (current s) (\<lambda>t. t\<lparr>t_egid := ?E\<rparr>) s) es"
      using True ok assms t by (cases "rgid > 0") (auto simp: sys_setregid_def kern_defs upd_cur_def Let_def)
    then show ?thesis using E by (auto simp: cur_def)
  next
    case False
    then have "sys_setregid rgid egid s es = Ok (if egid > 0 then - EPERM else 0) s es"
      using ok assms t by (cases "rgid > 0") (auto simp: sys_setregid_def kern_defs upd_cur_def Let_def)
    then show ?thesis by auto
  qed
qed

text \<open>C37: a task that is not the superuser's gets no number by \<open>sys_setreuid\<close> and \<open>sys_setregid\<close> that it did not have:
  afterwards its real and effective user are among the two it had, its effective group among the three it had
  and its real group the same, and when \<open>sys_setreuid\<close> refuses, nothing has changed. Both calls always return.\<close>

theorem setreuid_safe:
  assumes "\<not> suser s"
  shows "(\<exists>v t. sys_setreuid ruid euid s es = Ok v t es \<and> {t_uid (cur t), t_euid (cur t)} \<subseteq> {t_uid (cur s), t_euid (cur s)} \<and>
      (v \<noteq> 0 \<longrightarrow> v = - EPERM \<and> cur t = cur s)) \<and>
    (\<exists>v t. sys_setregid rgid egid s es = Ok v t es \<and> (v = 0 \<or> v = - EPERM) \<and> t_gid (cur t) = t_gid (cur s) \<and>
      t_egid (cur t) \<in> {t_gid (cur s), t_egid (cur s), t_sgid (cur s)})"
  using setreuid_run [OF assms] setregid_run [OF assms] by blast

theorem setreuid_safe_witness:
  "\<exists>v t. sys_setreuid 7 9 (upd_task 0x20000 (\<lambda>t. t\<lparr>t_uid := 7, t_euid := 8\<rparr>) sched_boot) [] = Ok v t [] \<and>
     {t_uid (cur t), t_euid (cur t)} \<subseteq> {7, 8}"
proof -
  let ?s = "upd_task 0x20000 (\<lambda>t. t\<lparr>t_uid := 7, t_euid := 8\<rparr>) sched_boot"
  have "\<not> suser ?s" "t_uid (cur ?s) = 7" "t_euid (cur ?s) = 8"
    by (simp_all add: suser_def cur_def sched_boot_def)
  then show ?thesis using setreuid_safe [of ?s 7 9 "[]" 0 0] by auto
qed

text \<open>A task in whose memory the action at address 0x1000 has handler 0x100 and a mask with SIGKILL in it.\<close>

definition action_demo :: tty_state where
  "action_demo = fs_state.extend (blk_state.extend blk_demo (fs_state.fields [] 0 [] [] 0)) (tty_state.fields [] False)
     \<lparr>umem := (\<lambda>_. 0)(0x1001 := 1, 0x1005 := 1)\<rparr>"


definition regs_demo :: regs where
  "regs_demo = \<lparr>rg_ebp = 0, rg_edi = 0, rg_esi = 0, rg_gs = 0, rg_ebx = 0, rg_ecx = 0, rg_edx = 0, rg_fs = 0, rg_es = 0,
     rg_ds = 0, rg_eip = 0x500, rg_cs = 0, rg_eflags = 0, rg_esp = 0x3fff000, rg_ss = 0\<rparr>"

lemma verify_area_unmapped:
  assumes "mem s = (\<lambda>_. 0)"
  shows "verify_area a n s es = Ok () s es"
proof -
  have w: "write_verify b s es = Ok () s es" for b using assms by (simp add: write_verify_def ld_def kern_defs)
  have "verify_pages k b m s es = Ok () s es" for k b m
    by (induction k arbitrary: b m) (simp_all add: kern_defs w)
  then show ?thesis by (simp add: verify_area_def kern_defs Let_def)
qed

theorem handler_blocks_kill_witness:
  "\<exists>v t w u. sys_sigaction 2 0x1000 0 action_demo [] = Ok v t [] \<and>
     do_signal (0, \<lambda>_. skip) 2 0 regs_demo t [] = Ok w u [] \<and> bit (t_blocked (cur u)) 8"
proof -
  let ?a = "\<lparr>sa_handler = 0x100, sa_mask = 0x100, sa_flags = 0, sa_restorer = 0\<rparr>"
  have a: "sigaction_of (user_bytes action_demo 0x1000 16) = ?a"
    by (simp add: action_demo_def sigaction_of_def user_bytes_def le_word_def le16_def upt_rec)
  define t where "t = upd_task (current action_demo) (\<lambda>x. x\<lparr>t_sigaction := (t_sigaction x)[1 := ?a\<lparr>sa_mask := 0x102\<rparr>]\<rparr>) action_demo"
  have len: "length (t_sigaction (cur action_demo)) = 32" and m: "mem t = (\<lambda>_. 0)"
    by (simp_all add: t_def cur_def action_demo_def blk_demo_def sched_boot_def INIT_TASK_def sched_state.defs blk_state.defs
        fs_state.defs tty_state.defs upd_task_def)
  have run: "sys_sigaction 2 0x1000 0 action_demo [] = Ok 0 t []"
    using a len by (simp add: sys_sigaction_def get_new_def set_action_def upd_cur_def kern_defs t_def S_bit_def upd_nth_def
        cur_def upd_task_def)
  have sa: "t_sigaction (cur t) ! nat (2 - 1) = ?a\<lparr>sa_mask := 0x102\<rparr>" using len by (simp add: t_def cur_def)
  have "\<exists>w u. do_signal (0, \<lambda>_. skip) 2 0 regs_demo t [] = Ok w u []"
    using sa m by (simp add: do_signal_def Let_def kern_defs verify_area_unmapped put_longs_def put_fs_long_def upd_cur_def upt_rec)
  then obtain w u where "do_signal (0, \<lambda>_. skip) 2 0 regs_demo t [] = Ok w u []" by blast
  with handler_blocks_kill [OF _ _ _ len a _ run this] run show ?thesis by (auto simp: bit_simps)
qed

end
