(* ===== verification/Fork.thy ===== *)
theory Fork
  imports Proc
begin

unbundle bit_operations_syntax

text \<open>
  What \<^verbatim>\<open>kernel/fork.c\<close> promises as a whole. The memory manager works on its own part of the state: a run
  depends on nothing else and changes nothing else. With this, the two halves of \<open>copy_process\<close>, the page tables and
  the tables of tasks, files and inodes, are put together.
\<close>

section \<open>Memory management is local\<close>

text \<open>A run of \<open>m\<close> that returns does the same whatever the rest of the state is, and leaves it alone.\<close>

definition mm_local :: "('a, 'z mm_state_scheme) kern \<Rightarrow> bool" where
  "mm_local m \<longleftrightarrow> (\<forall>s x es v s' es'. m s es = Ok v s' es' \<longrightarrow>
     es' = es \<and> m (mm_state.more_update (\<lambda>_. x) s) es = Ok v (mm_state.more_update (\<lambda>_. x) s') es)"

named_theorems mm_local \<open>introduction rules for local operations of the memory manager\<close>

lemma mm_localD:
  assumes "mm_local m" and "m s es = Ok v s' es'"
  shows "m (mm_state.more_update (\<lambda>_. x) s) es = Ok v (mm_state.more_update (\<lambda>_. x) s') es"
  using assms unfolding mm_local_def by blast

lemma mm_local_kbind [mm_local]:
  assumes "mm_local m" and "\<And>v. mm_local (f v)"
  shows "mm_local (kbind m f)"
  unfolding mm_local_def kbind_Ok using assms unfolding mm_local_def by blast

lemma mm_local_kseq [mm_local]: "mm_local m \<Longrightarrow> mm_local n \<Longrightarrow> mm_local (kseq m n)"
  unfolding kseq_def by (rule mm_local_kbind)

lemma mm_local_stops [mm_local]: "mm_local (ret v)" "mm_local (kpanic msg)" "mm_local kfault"
  by (simp_all add: mm_local_def kern_defs)

lemma mm_local_gets [mm_local]: "mm_local (gets mem_map)" "mm_local (gets HIGH_MEMORY)" "mm_local (ld a)"
  by (simp_all add: mm_local_def kern_defs ld_def)

lemma mm_local_modify [mm_local]:
  "mm_local (modify (\<lambda>s. s\<lparr>mem_map := f (mem_map s)\<rparr>))" "mm_local (modify (\<lambda>s. s\<lparr>mem := g (mem s)\<rparr>))" "mm_local (st a w)"
  by (simp_all add: mm_local_def kern_defs st_def)

lemma mm_local_if [mm_local]: "(b \<Longrightarrow> mm_local m) \<Longrightarrow> (\<not> b \<Longrightarrow> mm_local n) \<Longrightarrow> mm_local (if b then m else n)"
  by simp

lemma mm_local_kwhen [mm_local]: "mm_local m \<Longrightarrow> mm_local (kwhen b m)"
  by (simp add: kwhen_def mm_local_stops)

lemma mm_local_option [mm_local]:
  "(x = None \<Longrightarrow> mm_local m) \<Longrightarrow> (\<And>y. x = Some y \<Longrightarrow> mm_local (f y)) \<Longrightarrow> mm_local (case x of None \<Rightarrow> m | Some y \<Rightarrow> f y)"
  by (cases x) simp_all

lemma mm_local_map [mm_local]: "mm_local (map_get i)" "mm_local (map_upd i f)" "mm_local invalidate"
  by (auto simp: mm_local_def kern_defs map_get_def map_upd_def invalidate_def)

lemma mm_local_pages [mm_local]: "mm_local get_free_page" "mm_local (free_page p)"
  unfolding get_free_page_def free_page_def Let_def by (intro mm_local)+

lemma mm_local_copy_ptes [mm_local]: "mm_local (copy_ptes n f t)"
  by (induction n arbitrary: f t) (auto simp only: copy_ptes.simps Let_def intro!: mm_local)

lemma mm_local_copy_pdes [mm_local]: "mm_local (copy_pdes z n f t)"
  by (induction n arbitrary: f t) (auto simp only: copy_pdes.simps Let_def intro!: mm_local)

lemma mm_local_copy_page_tables: "mm_local (copy_page_tables f t n)"
  unfolding copy_page_tables_def by (intro mm_local)


text \<open>Memory from one state, everything else from another.\<close>

abbreviation put_mm :: "'z mm_state_scheme \<Rightarrow> 'z mm_state_scheme \<Rightarrow> 'z mm_state_scheme" where
  "put_mm s2 s \<equiv> mm_state.more_update (\<lambda>_. mm_state.more s) s2"

lemma put_mm_rest [simp]:
  fixes s s2 :: "'z fs_state_scheme"
  shows "task (put_mm s2 s) = task s" "tasks (put_mm s2 s) = tasks s" "current (put_mm s2 s) = current s" "cur (put_mm s2 s) = cur s"
    "last_pid (put_mm s2 s) = last_pid s" "jiffies (put_mm s2 s) = jiffies s" "fpu (put_mm s2 s) = fpu s"
    "last_task_used_math (put_mm s2 s) = last_task_used_math s" "gdt (put_mm s2 s) = gdt s" "file_table (put_mm s2 s) = file_table s"
    "inode_table (put_mm s2 s) = inode_table s" "mem (put_mm s2 s) = mem s2" "mem_map (put_mm s2 s) = mem_map s2"
  by (cases s; cases s2; simp add: cur_def)+

lemma put_mm_id: "put_mm s (s :: 'z mm_state_scheme) = s"
  by simp

lemma put_mm_upd:
  fixes s s1 :: "'z fs_state_scheme"
  shows "(put_mm s1 s)\<lparr>task := T\<rparr> = put_mm s1 (s\<lparr>task := T\<rparr>)" "upd_task q f (put_mm s1 s) = put_mm s1 (upd_task q f s)"
    "(put_mm s1 s)\<lparr>cr0_ts := b\<rparr> = put_mm s1 (s\<lparr>cr0_ts := b\<rparr>)" "(put_mm s1 s)\<lparr>fpu := ws\<rparr> = put_mm s1 (s\<lparr>fpu := ws\<rparr>)"
  by (cases s; cases s1; simp add: upd_task_def)+

section \<open>What fork shares\<close>

text \<open>The loop over the descriptors counts each of them in its open file.\<close>

lemma fork_files:
  fixes s :: "'z fs_state_scheme"
  assumes "n \<le> length (t_filp (tasks s p))"
  shows "\<exists>T. kfor [0..<n] (\<lambda>k. kbind (gets (\<lambda>s. t_filp (tasks s p) ! k)) (\<lambda>f.
             case f of None \<Rightarrow> skip | Some f \<Rightarrow> modify (upd_fil f (\<lambda>x. x\<lparr>f_count := f_count x + 1\<rparr>)))) s es
           = Ok () (s\<lparr>file_table := T\<rparr>) es \<and> length T = length (file_table s) \<and>
    (\<forall>f < length (file_table s). f_count (T ! f) = f_count (file_table s ! f) + of_nat (count_list (take n (t_filp (tasks s p))) (Some f)))"
  using assms
proof (induction n)
  case 0
  then show ?case by (intro exI [of _ "file_table s"]) (simp add: kern_defs)
next
  case (Suc n)
  let ?body = "\<lambda>k. kbind (gets (\<lambda>s. t_filp (tasks s p) ! k)) (\<lambda>f.
             case f of None \<Rightarrow> skip | Some f \<Rightarrow> modify (upd_fil f (\<lambda>x. x\<lparr>f_count := f_count x + 1\<rparr>)))"
  from Suc obtain T where T: "kfor [0..<n] ?body s es = Ok () (s\<lparr>file_table := T\<rparr>) es" "length T = length (file_table s)"
    "\<And>f. f < length (file_table s) \<Longrightarrow>
      f_count (T ! f) = f_count (file_table s ! f) + of_nat (count_list (take n (t_filp (tasks s p))) (Some f))" by auto
  let ?x = "t_filp (tasks s p) ! n"
  let ?T = "case ?x of None \<Rightarrow> T | Some f \<Rightarrow> upd_nth f (\<lambda>x. x\<lparr>f_count := f_count x + 1\<rparr>) T"
  have "?body n (s\<lparr>file_table := T\<rparr>) es = Ok () (s\<lparr>file_table := ?T\<rparr>) es"
    by (cases ?x) (simp_all add: kern_defs upd_fil_def)
  then have "kfor [0..<Suc n] ?body s es = Ok () (s\<lparr>file_table := ?T\<rparr>) es"
    using T(1) by (simp add: kfor_append kseq_def kbind_def ret_def)
  moreover have "take (Suc n) (t_filp (tasks s p)) = take n (t_filp (tasks s p)) @ [?x]"
    using Suc.prems by (simp add: take_Suc_conv_app_nth)
  ultimately show ?case
    using T(2,3) by (intro exI [of _ ?T]) (auto simp: nth_upd_nth split: option.splits)
qed

lemma inc_icount_run:
  "\<exists>T. inc_icount x s es = Ok () (s\<lparr>inode_table := T\<rparr>) es \<and> length T = length (inode_table s) \<and>
    (\<forall>i < length (inode_table s). i_count (T ! i) = i_count (inode_table s ! i) + of_bool (x = Some i))"
  by (cases x) (auto simp: inc_icount_def kern_defs upd_ino_def nth_upd_nth
      intro: exI [of _ "inode_table s"] exI [of _ "upd_nth i (\<lambda>n. n\<lparr>i_count := i_count n + 1\<rparr>) (inode_table s)" for i])

text \<open>A task structure is never on a page that counts as free.\<close>

definition task_pages_used :: "'z sched_state_scheme \<Rightarrow> bool" where
  "task_pages_used s \<longleftrightarrow> (\<forall>i < NR_TASKS. task s ! i \<noteq> 0 \<longrightarrow> LOW_MEM \<le> task s ! i \<longrightarrow> mem_map s ! MAP_NR (task s ! i) \<noteq> 0)"

lemma new_page_not_task:
  assumes "task_pages_used s" and "get_free_page s es = Ok p s1 es'" and "p \<noteq> 0" and "i < NR_TASKS"
  shows "task s ! i \<noteq> p"
proof -
  obtain k where "k < PAGING_PAGES" "mem_map s ! k = 0" "p = page_addr k"
    using assms(2,3) by (auto simp: get_free_page_eq scan_down_Some split: option.splits)
  then show ?thesis
    using assms(1,4) page_addr_ge [of k] unfolding task_pages_used_def by (auto simp: not_less)
qed

text \<open>A task with the descriptors of the running one is put into a free entry of the table.\<close>

lemma fd_refs_fork:
  assumes "nr < NR_TASKS" and "length (task s) = NR_TASKS" and "task s ! nr = 0" and "p \<noteq> 0" and "\<forall>i < NR_TASKS. task s ! i \<noteq> p"
    and "task t = (task s)[nr := p]" and "\<And>q. q \<noteq> p \<Longrightarrow> t_filp (tasks t q) = t_filp (tasks s q)" and "t_filp (tasks t p) = fl"
  shows "fd_refs f t = fd_refs f s + count_list fl (Some f)"
proof -
  let ?F = "\<lambda>s i. if task s ! i = 0 then 0 else count_list (t_filp (tasks s (task s ! i))) (Some f)"
  have "?F t j = ?F s j + (if j = nr then count_list fl (Some f) else 0)" if "j < 64" for j
    using assms that by (auto simp: nth_list_update)
  then have "fd_refs f t = (\<Sum>j < 64. ?F s j + (if j = nr then count_list fl (Some f) else 0))"
    unfolding fd_refs_def by (intro sum.cong) auto
  also have "\<dots> = fd_refs f s + count_list fl (Some f)"
    unfolding fd_refs_def sum.distrib using assms(1) by simp
  finally show ?thesis .
qed

lemma fork_keeps_counts:
  assumes "fds_wf s" and "fd_counted s" and "nr < NR_TASKS" and "length (task s) = NR_TASKS" and "task s ! nr = 0" and "p \<noteq> 0"
    and "\<forall>i < NR_TASKS. task s ! i \<noteq> p" and "task t = (task s)[nr := p]" and "\<And>q. q \<noteq> p \<Longrightarrow> tasks t q = tasks s q"
    and "t_filp (tasks t p) = t_filp (cur s)" and "current t = current s" and "length (file_table t) = length (file_table s)"
    and "\<And>f. f < length (file_table s) \<Longrightarrow> f_count (fil t f) = f_count (fil s f) + of_nat (count_list (t_filp (cur s)) (Some f))"
  shows "fds_wf t \<and> fd_counted t"
proof
  obtain i where i': "i < 64" "task s ! i = current s" using assms(1) by (auto simp: fds_wf_def)
  moreover have "current s \<noteq> 0" using assms(1) by (simp add: fds_wf_def)
  ultimately have i: "i < 64" "task s ! i = current s" "i \<noteq> nr" using assms(5) by auto
  have fl: "length (t_filp (cur s)) = 20" "set (t_filp (cur s)) \<subseteq> insert None (Some ` {..<64})"
    using assms(1) i unfolding fds_wf_def cur_def by metis+
  have "length (t_filp (tasks t (task t ! j))) = 20 \<and> set (t_filp (tasks t (task t ! j))) \<subseteq> insert None (Some ` {..<64})"
    if "j < 64" "task t ! j \<noteq> 0" for j
  proof (cases "j = nr")
    case True
    then show ?thesis using assms(3,4,8,10) fl by simp
  next
    case False
    then have "task t ! j = task s ! j" "tasks t (task s ! j) = tasks s (task s ! j)" using assms(7,8,9) that by simp_all
    then show ?thesis using assms(1) that unfolding fds_wf_def by simp
  qed
  moreover have "j = k" if "j < 64" "k < 64" "task t ! j = task t ! k" "task t ! j \<noteq> 0" for j k
    using that assms(3,4,7,8) assms(1) [unfolded fds_wf_def, THEN conjunct2, THEN conjunct2, THEN conjunct1]
    by (cases "j = nr"; cases "k = nr") (simp_all, metis+)
  moreover have "\<exists>i < 64. task t ! i = current t" using i assms(8,11) by (auto intro!: exI [of _ i])
  moreover have "current t \<noteq> 0" using assms(1,11) by (simp add: fds_wf_def)
  ultimately show "fds_wf t" unfolding fds_wf_def by simp
  have "unat (f_count (fil t f)) = fd_refs f t" if "f < 64" for f
  proof -
    have "fd_refs f s \<le> 1280" by (rule fd_refs_less [OF assms(1)])
    moreover have "count_list (t_filp (cur s)) (Some f) \<le> 20" using count_le_length [of "t_filp (cur s)" "Some f"] fl by simp
    moreover have "unat (f_count (fil s f)) = fd_refs f s" "f < length (file_table s)" using assms(2) that by (auto simp: fd_counted_def)
    moreover have "fd_refs f t = fd_refs f s + count_list (t_filp (cur s)) (Some f)"
      by (rule fd_refs_fork [OF assms(3-8) _ assms(10)]) (simp add: assms(9))
    ultimately show ?thesis
      using assms(13) [of f] by (simp add: unat_word_ariths unat_of_nat)
  qed
  then show "fd_counted t" using assms(2,12) by (simp add: fd_counted_def)
qed

text \<open>The state in which \<open>copy_mem\<close> copies the page tables, and its outcome when that succeeds.\<close>

lemma copy_mem_run:
  fixes s s1 :: "'z fs_state_scheme"
  assumes "get_base (t_ldt (cur s) ! 1) = get_base (t_ldt (cur s) ! 2)"
    and "get_limit (t_ldt (cur s) ! 1) \<le> get_limit (t_ldt (cur s) ! 2)"
    and "copy_page_tables (get_base (t_ldt (cur s) ! 2)) (of_nat nr * 0x4000000) (get_limit (t_ldt (cur s) ! 2)) s1 es = Ok 0 s2 es"
  shows "copy_mem nr p (put_mm s1 s) es = Ok 0 (put_mm s2 (upd_task p (\<lambda>t. t\<lparr>t_start_code := of_nat nr * 0x4000000,
      t_ldt := upd_nth 2 (set_base (of_nat nr * 0x4000000)) (upd_nth 1 (set_base (of_nat nr * 0x4000000)) (t_ldt t))\<rparr>) s)) es"
proof -
  have "\<not> get_limit (t_ldt (cur s) ! 2) < get_limit (t_ldt (cur s) ! 1)" using assms(2) by simp
  then show ?thesis
    using assms(1) mm_localD [OF mm_local_copy_page_tables assms(3)]
    by (simp add: copy_mem_def kbind_def kseq_def gets_def modify_def ret_def Let_def put_mm_upd)
qed

text \<open>The second half of \<open>copy_process\<close>: descriptors, inodes, the two descriptors of the task, and the child may run.\<close>

abbreviation fork_tail :: "u32 \<Rightarrow> ('z fs_state_scheme \<Rightarrow> desc_struct list) \<Rightarrow> (int, 'z fs_state_scheme) kern" where
  "fork_tail p G \<equiv>
     kseq (kfor [0..<NR_OPEN] (\<lambda>k.
             kbind (gets (\<lambda>s. t_filp (tasks s p) ! k)) (\<lambda>f.
             case f of None \<Rightarrow> skip | Some f \<Rightarrow> modify (upd_fil f (\<lambda>x. x\<lparr>f_count := f_count x + 1\<rparr>)))))
        (kbind (gets cur) (\<lambda>t.
         kseq (inc_icount (t_pwd t))
        (kseq (inc_icount (t_root t))
        (kseq (inc_icount (t_executable t))
        (kseq (modify (\<lambda>s. s\<lparr>gdt := G s\<rparr>))
        (kseq (modify (upd_task p (\<lambda>t. t\<lparr>t_state := TASK_RUNNING\<rparr>)))
              (gets last_pid)))))))"

lemma fork_shares:
  fixes y :: "'z fs_state_scheme"
  assumes "length (t_filp (tasks y p)) = NR_OPEN"
  shows "\<exists>T I. fork_tail p G y es = Ok (last_pid y) (upd_task p (\<lambda>t. t\<lparr>t_state := TASK_RUNNING\<rparr>)
          (y\<lparr>file_table := T, inode_table := I, gdt := G (y\<lparr>file_table := T, inode_table := I\<rparr>)\<rparr>)) es \<and>
    length T = length (file_table y) \<and>
    (\<forall>f < length (file_table y). f_count (T ! f) = f_count (file_table y ! f) + of_nat (count_list (t_filp (tasks y p)) (Some f))) \<and>
    (\<forall>i < length (inode_table y). i_count (I ! i) = i_count (inode_table y ! i) +
       of_nat (count_list [t_pwd (cur y), t_root (cur y), t_executable (cur y)] (Some i)))"
proof -
  obtain T where T: "kfor [0..<NR_OPEN] (\<lambda>k. kbind (gets (\<lambda>s. t_filp (tasks s p) ! k)) (\<lambda>f.
      case f of None \<Rightarrow> skip | Some f \<Rightarrow> modify (upd_fil f (\<lambda>x. x\<lparr>f_count := f_count x + 1\<rparr>)))) y es = Ok () (y\<lparr>file_table := T\<rparr>) es"
    "length T = length (file_table y)"
    "\<And>f. f < length (file_table y) \<Longrightarrow> f_count (T ! f) = f_count (file_table y ! f) + of_nat (count_list (t_filp (tasks y p)) (Some f))"
    using fork_files [of NR_OPEN y p es] assms by auto
  obtain I1 where 1: "inc_icount (t_pwd (cur y)) (y\<lparr>file_table := T\<rparr>) es = Ok () (y\<lparr>file_table := T, inode_table := I1\<rparr>) es"
    "length I1 = length (inode_table y)"
    "\<And>i. i < length (inode_table y) \<Longrightarrow> i_count (I1 ! i) = i_count (inode_table y ! i) + of_bool (t_pwd (cur y) = Some i)"
    using inc_icount_run [of "t_pwd (cur y)" "y\<lparr>file_table := T\<rparr>" es] by auto
  obtain I2 where 2: "inc_icount (t_root (cur y)) (y\<lparr>file_table := T, inode_table := I1\<rparr>) es = Ok () (y\<lparr>file_table := T, inode_table := I2\<rparr>) es"
    "length I2 = length I1" "\<And>i. i < length I1 \<Longrightarrow> i_count (I2 ! i) = i_count (I1 ! i) + of_bool (t_root (cur y) = Some i)"
    using inc_icount_run [of "t_root (cur y)" "y\<lparr>file_table := T, inode_table := I1\<rparr>" es] by auto
  obtain I3 where 3: "inc_icount (t_executable (cur y)) (y\<lparr>file_table := T, inode_table := I2\<rparr>) es = Ok () (y\<lparr>file_table := T, inode_table := I3\<rparr>) es"
    "length I3 = length I2" "\<And>i. i < length I2 \<Longrightarrow> i_count (I3 ! i) = i_count (I2 ! i) + of_bool (t_executable (cur y) = Some i)"
    using inc_icount_run [of "t_executable (cur y)" "y\<lparr>file_table := T, inode_table := I2\<rparr>" es] by auto
  have "i_count (I3 ! i) = i_count (inode_table y ! i) +
      of_nat (count_list [t_pwd (cur y), t_root (cur y), t_executable (cur y)] (Some i))" if "i < length (inode_table y)" for i
    using that 1(2,3) 2(2,3) 3(2,3) by (auto simp: of_bool_def)
  moreover have "cur (y\<lparr>file_table := T\<rparr>) = cur y" by (simp add: cur_def)
  ultimately show ?thesis
    using T(2,3) 1(1) 2(1) 3(1) T(1)
    by (intro exI [of _ T] exI [of _ I3]) (simp add: kseq_def kbind_def gets_def modify_def upd_task_def del: upt_Suc)
qed

lemma copy_process_run:
  fixes s s1 s2 :: "'z fs_state_scheme"
  assumes "p \<noteq> current s" and "length (t_filp (cur s)) = NR_OPEN"
    and "get_base (t_ldt (cur s) ! 1) = get_base (t_ldt (cur s) ! 2)"
    and "get_limit (t_ldt (cur s) ! 1) \<le> get_limit (t_ldt (cur s) ! 2)"
    and "get_free_page s es = Ok p s1 es" and "p \<noteq> 0"
    and "copy_page_tables (get_base (t_ldt (cur s) ! 2)) (of_nat nr * 0x4000000) (get_limit (t_ldt (cur s) ! 2)) s1 es = Ok 0 s2 es"
  shows "\<exists>T I G x w. copy_process nr r s es = Ok (last_pid s) (upd_task p (\<lambda>t. t\<lparr>t_state := TASK_RUNNING\<rparr>)
      ((put_mm s2 x)\<lparr>file_table := T, inode_table := I, gdt := G\<rparr>)) es \<and>
    task x = (task s)[nr := p] \<and> current x = current s \<and> (\<forall>q. q \<noteq> p \<longrightarrow> tasks x q = tasks s q) \<and>
    tasks x p = (child_of nr p r (last_pid s) (jiffies s) (cur s))\<lparr>t_tss := w, t_start_code := of_nat nr * 0x4000000,
      t_ldt := upd_nth 2 (set_base (of_nat nr * 0x4000000)) (upd_nth 1 (set_base (of_nat nr * 0x4000000)) (t_ldt (cur s)))\<rparr> \<and>
    (tss_eax w, tss_eip w, tss_esp w) = (0, rg_eip r, rg_esp r) \<and> length T = length (file_table s) \<and>
    (\<forall>f < length (file_table s). f_count (T ! f) = f_count (fil s f) + of_nat (count_list (t_filp (cur s)) (Some f))) \<and>
    (\<forall>i < length (inode_table s). i_count (I ! i) = i_count (ino s i) +
       of_nat (count_list [t_pwd (cur s), t_root (cur s), t_executable (cur s)] (Some i)))"
proof -
  have page: "get_free_page s es = Ok p (put_mm s1 s) es"
    using mm_localD [OF mm_local_pages(1) assms(5), of "mm_state.more s"] by simp
  define x2 where "x2 = upd_task p (\<lambda>_. child_of nr p r (last_pid s) (jiffies s) (cur s)) (s\<lparr>task := (task s)[nr := p]\<rparr>)"
  define x3 where "x3 = (if last_task_used_math s = current s
      then (upd_task p (\<lambda>t. t\<lparr>t_tss := (t_tss t)\<lparr>i387 := fpu s\<rparr>\<rparr>) x2)\<lparr>cr0_ts := False, fpu := []\<rparr> else x2)"
  define x4 where "x4 = upd_task p (\<lambda>t. t\<lparr>t_start_code := of_nat nr * 0x4000000,
      t_ldt := upd_nth 2 (set_base (of_nat nr * 0x4000000)) (upd_nth 1 (set_base (of_nat nr * 0x4000000)) (t_ldt t))\<rparr>) x3"
  have x3: "task x3 = (task s)[nr := p]" "\<And>q. q \<noteq> p \<Longrightarrow> tasks x3 q = tasks s q" "cur x3 = cur s" "current x3 = current s"
    "file_table x3 = file_table s" "inode_table x3 = inode_table s" "last_pid x3 = last_pid s"
    using assms(1) by (auto simp: x3_def x2_def upd_task_def cur_def)
  define w where "w = t_tss (tasks x3 p)"
  have w: "tasks x3 p = (child_of nr p r (last_pid s) (jiffies s) (cur s))\<lparr>t_tss := w\<rparr>"
      "(tss_eax w, tss_eip w, tss_esp w) = (0, rg_eip r, rg_esp r)"
    by (simp_all add: w_def x3_def x2_def upd_task_def child_of_def)
  have mem: "copy_mem nr p (put_mm s1 x3) es = Ok 0 (put_mm s2 x4) es"
    unfolding x4_def by (rule copy_mem_run) (use assms(3,4,7) x3(3) in simp_all)
  have x4: "task x4 = task x3" "\<And>q. q \<noteq> p \<Longrightarrow> tasks x4 q = tasks x3 q" "cur x4 = cur x3" "current x4 = current x3"
    "file_table x4 = file_table x3" "inode_table x4 = inode_table x3" "last_pid x4 = last_pid x3"
    "tasks x4 p = (tasks x3 p)\<lparr>t_start_code := of_nat nr * 0x4000000,
      t_ldt := upd_nth 2 (set_base (of_nat nr * 0x4000000)) (upd_nth 1 (set_base (of_nat nr * 0x4000000)) (t_ldt (tasks x3 p)))\<rparr>"
    using assms(1) x3(4) by (auto simp: x4_def upd_task_def cur_def)
  have filp: "t_filp (tasks x4 p) = t_filp (cur s)" using x4(8) w(1) by (simp add: child_of_def)
  let ?G = "\<lambda>s :: 'z fs_state_scheme. (gdt s)[2 * nr + FIRST_TSS_ENTRY := set_tssldt_desc (p + tss_off) 0x89,
                                             2 * nr + FIRST_LDT_ENTRY := set_tssldt_desc (p + ldt_off) 0x82]"
  have step2: "upd_task p (\<lambda>_. child_of nr p r (last_pid y) (jiffies y) (cur y)) y = put_mm s1 x2"
    if "y = (put_mm s1 s)\<lparr>task := (task (put_mm s1 s))[nr := p]\<rparr>" for y
    using that by (simp add: put_mm_upd x2_def) (simp add: cur_def)
  have step3: "(if last_task_used_math (put_mm s1 x2) = current (put_mm s1 x2)
      then (upd_task p (\<lambda>t. t\<lparr>t_tss := (t_tss t)\<lparr>i387 := fpu (put_mm s1 x2)\<rparr>\<rparr>) (put_mm s1 x2))\<lparr>cr0_ts := False, fpu := []\<rparr>
      else put_mm s1 x2) = put_mm s1 x3"
    by (simp add: put_mm_upd x3_def) (simp add: x2_def upd_task_def)
  have "copy_process nr r s es = fork_tail p ?G (put_mm s2 x4) es"
    using assms(6) by (simp only: copy_process_def kbind_def kseq_def modify_def page outcome.case if_False step2 [OF refl] step3 mem simp_thms)
  moreover obtain T I where
    tail: "fork_tail p ?G (put_mm s2 x4) es = Ok (last_pid s) (upd_task p (\<lambda>t. t\<lparr>t_state := TASK_RUNNING\<rparr>)
        ((put_mm s2 x4)\<lparr>file_table := T, inode_table := I, gdt := ?G ((put_mm s2 x4)\<lparr>file_table := T, inode_table := I\<rparr>)\<rparr>)) es"
    and T: "length T = length (file_table s)"
      "\<forall>f < length (file_table s). f_count (T ! f) = f_count (fil s f) + of_nat (count_list (t_filp (cur s)) (Some f))"
    and I: "\<forall>i < length (inode_table s). i_count (I ! i) = i_count (ino s i) +
       of_nat (count_list [t_pwd (cur s), t_root (cur s), t_executable (cur s)] (Some i))"
    using fork_shares [of "put_mm s2 x4" p ?G es] unfolding put_mm_rest x4(3,5,6,7) x3(3,5,6,7) filp fil_def ino_def
    using assms(2) by blast
  ultimately have "copy_process nr r s es = Ok (last_pid s) (upd_task p (\<lambda>t. t\<lparr>t_state := TASK_RUNNING\<rparr>)
        ((put_mm s2 x4)\<lparr>file_table := T, inode_table := I, gdt := ?G ((put_mm s2 x4)\<lparr>file_table := T, inode_table := I\<rparr>)\<rparr>)) es"
    by (simp only:)
  moreover have "tasks x4 p = (child_of nr p r (last_pid s) (jiffies s) (cur s))\<lparr>t_tss := w, t_start_code := of_nat nr * 0x4000000,
      t_ldt := upd_nth 2 (set_base (of_nat nr * 0x4000000)) (upd_nth 1 (set_base (of_nat nr * 0x4000000)) (t_ldt (cur s)))\<rparr>"
    unfolding x4(8) w(1) by (simp add: child_of_def)
  moreover have "\<forall>q. q \<noteq> p \<longrightarrow> tasks x4 q = tasks s q" using x4(2) x3(2) by simp
  ultimately show ?thesis
    using T I w(2) unfolding x4(1) [unfolded x3(1), symmetric] x4(4) [unfolded x3(4), symmetric]
    by (intro exI [of _ T] exI [of _ I] exI [of _ "?G ((put_mm s2 x4)\<lparr>file_table := T, inode_table := I\<rparr>)"] exI [of _ x4] exI [of _ w] conjI)
      (assumption | simp only:)+
qed

text \<open>C33: forking. Whenever there is a page for the task structure and the page tables can be copied, \<open>copy_process\<close> returns the new process
  number, without sleeping. The free entry of the task table has a new, runnable task: with the parent's descriptors,
  working and root directory and program, a counter of its own, no pending signal, the memory of its slot under the old limits, and a
  zero to return from the call where the parent goes on. No other task has changed; pages are as the copy of the
  tables left them; the use count of each open file is still the number of descriptors that refer to it; and
  each inode is counted once more for each of the three places that refer to it.\<close>

theorem fork_child:
  fixes s s1 s2 :: "'z fs_state_scheme"
  assumes "fds_wf s" and "fd_counted s" and "task_pages_used s"
    and "nr < NR_TASKS" and "length (task s) = NR_TASKS" and "task s ! nr = 0" and "length (t_ldt (cur s)) = 3"
    and "get_base (t_ldt (cur s) ! 1) = get_base (t_ldt (cur s) ! 2)"
    and "get_limit (t_ldt (cur s) ! 1) \<le> get_limit (t_ldt (cur s) ! 2)"
    and "get_free_page s es = Ok p s1 es" and "p \<noteq> 0"
    and "copy_page_tables (get_base (t_ldt (cur s) ! 2)) (of_nat nr * 0x4000000) (get_limit (t_ldt (cur s) ! 2)) s1 es = Ok 0 s2 es"
  shows "\<exists>t c. copy_process nr r s es = Ok (last_pid s) t es \<and> mem t = mem s2 \<and> mem_map t = mem_map s2 \<and>
    task t = (task s)[nr := p] \<and> (\<forall>q. q \<noteq> p \<longrightarrow> tasks t q = tasks s q) \<and> tasks t p = c \<and>
    (t_state c, t_pid c, t_father c, t_counter c, t_signal c) = (TASK_RUNNING, last_pid s, t_pid (cur s), t_priority (cur s), 0) \<and>
    (t_filp c, t_pwd c, t_root c, t_executable c) = (t_filp (cur s), t_pwd (cur s), t_root (cur s), t_executable (cur s)) \<and>
    (tss_eax (t_tss c), tss_eip (t_tss c), tss_esp (t_tss c)) = (0, rg_eip r, rg_esp r) \<and>
    (\<forall>k \<in> {1, 2}. get_base (t_ldt c ! k) = of_nat nr * 0x4000000 \<and> get_limit (t_ldt c ! k) = get_limit (t_ldt (cur s) ! k)) \<and>
    fds_wf t \<and> fd_counted t \<and>
    (\<forall>i < length (inode_table s). i_count (ino t i) = i_count (ino s i) +
       of_nat (count_list [t_pwd (cur s), t_root (cur s), t_executable (cur s)] (Some i)))"
proof -
  have new: "\<forall>i < NR_TASKS. task s ! i \<noteq> p" using new_page_not_task [OF assms(3,10,11)] by blast
  then have p: "p \<noteq> current s" using assms(1) by (auto simp: fds_wf_def)
  have len: "length (t_filp (cur s)) = NR_OPEN" using assms(1) unfolding fds_wf_def cur_def by metis
  from copy_process_run [OF p len assms(8-12), of r] obtain T I G x w where
    run: "copy_process nr r s es = Ok (last_pid s) (upd_task p (\<lambda>t. t\<lparr>t_state := TASK_RUNNING\<rparr>)
      ((put_mm s2 x)\<lparr>file_table := T, inode_table := I, gdt := G\<rparr>)) es"
    and x: "task x = (task s)[nr := p]" "current x = current s" "\<And>q. q \<noteq> p \<Longrightarrow> tasks x q = tasks s q"
      "tasks x p = (child_of nr p r (last_pid s) (jiffies s) (cur s))\<lparr>t_tss := w, t_start_code := of_nat nr * 0x4000000,
      t_ldt := upd_nth 2 (set_base (of_nat nr * 0x4000000)) (upd_nth 1 (set_base (of_nat nr * 0x4000000)) (t_ldt (cur s)))\<rparr>"
      "(tss_eax w, tss_eip w, tss_esp w) = (0, rg_eip r, rg_esp r)"
    and T: "length T = length (file_table s)"
      "\<And>f. f < length (file_table s) \<Longrightarrow> f_count (T ! f) = f_count (fil s f) + of_nat (count_list (t_filp (cur s)) (Some f))"
    and I: "\<And>i. i < length (inode_table s) \<Longrightarrow> i_count (I ! i) = i_count (ino s i) +
       of_nat (count_list [t_pwd (cur s), t_root (cur s), t_executable (cur s)] (Some i))" by auto
  define t where "t = upd_task p (\<lambda>t. t\<lparr>t_state := TASK_RUNNING\<rparr>) ((put_mm s2 x)\<lparr>file_table := T, inode_table := I, gdt := G\<rparr>)"
  have t: "task t = (task s)[nr := p]" "current t = current s" "\<And>q. q \<noteq> p \<Longrightarrow> tasks t q = tasks s q"
    "tasks t p = (tasks x p)\<lparr>t_state := TASK_RUNNING\<rparr>" "file_table t = T" "inode_table t = I" "mem t = mem s2" "mem_map t = mem_map s2"
    using x by (auto simp: t_def upd_task_def)
  have "fds_wf t \<and> fd_counted t"
    by (rule fork_keeps_counts [OF assms(1,2,4,5,6,11) new t(1,3) _ t(2)])
      (use t T x(4) in \<open>simp_all add: child_of_def fil_def\<close>)
  moreover have "\<forall>k \<in> {1, 2}. get_base (t_ldt (tasks t p) ! k) = of_nat nr * 0x4000000 \<and> get_limit (t_ldt (tasks t p) ! k) = get_limit (t_ldt (cur s) ! k)"
    using assms(7) t(4) x(4) by (simp add: get_base_set_base get_limit_set_base nth_upd_nth)
  ultimately show ?thesis
    using run [folded t_def] t I x(4,5) by (intro exI [of _ t] exI [of _ "tasks t p"]) (simp add: child_of_def ino_def)
qed

text \<open>The running task of \<open>fd_demo\<close> forks; its directory entry is not in use.\<close>

theorem fork_child_witness:
  "\<forall>r. \<exists>t. copy_process 2 r fd_demo [] = Ok 1 t [] \<and> task t ! 2 = page_addr 3839 \<and> fd_counted t \<and> t_father (tasks t (page_addr 3839)) = 0"
proof
  fix r
  have s: "task fd_demo = 0x10000 # 0x20000 # replicate 62 0" "last_pid fd_demo = 1" "mem fd_demo = (\<lambda>_. 0)"
    "mem_map fd_demo = replicate PAGING_PAGES 0"
    "t_ldt (cur fd_demo) = [\<lparr>desc_a = 0, desc_b = 0\<rparr>, \<lparr>desc_a = 0x9f, desc_b = 0xc0fa00\<rparr>, \<lparr>desc_a = 0x9f, desc_b = 0xc0f200\<rparr>]"
    "t_pid (cur fd_demo) = 0"
    by (simp_all add: fd_demo_def blk_demo_def sched_boot_def sched_state.defs blk_state.defs fs_state.defs cur_def INIT_TASK_def)
  have used: "task_pages_used fd_demo"
    unfolding task_pages_used_def s(1) by (auto simp: LOW_MEM_def nth_Cons split: nat.splits)
  have "scan_down (\<lambda>i. mem_map fd_demo ! i = 0) PAGING_PAGES = Some 3839"
    by (auto simp: scan_down_Some s(4)) (simp_all add: PAGING_PAGES_def)
  then obtain s1 where page: "get_free_page fd_demo [] = Ok (page_addr 3839) s1 []" and m: "mem s1 = (\<lambda>_. 0)"
    by (simp add: get_free_page_eq s(3) clear_page_def fun_eq_iff)
  have n: "page_addr 3839 \<noteq> 0" by (simp add: PAGING_PAGES_def)
  have ldt: "get_base (t_ldt (cur fd_demo) ! k) = 0" "get_limit (t_ldt (cur fd_demo) ! k) = 0xA0000" if "k \<in> {1, 2}" for k
    using that by (auto simp: s(5) get_base_def get_limit_def)
  have "\<exists>s2. copy_page_tables 0 (of_nat 2 * 0x4000000) 0xA0000 s1 [] = Ok 0 s2 []"
    by (simp add: copy_page_tables_def m ld_def kern_defs invalidate_def)
  then obtain s2 where "copy_page_tables 0 (of_nat 2 * 0x4000000) 0xA0000 s1 [] = Ok 0 s2 []" by blast
  then show "\<exists>t. copy_process 2 r fd_demo [] = Ok 1 t [] \<and> task t ! 2 = page_addr 3839 \<and> fd_counted t \<and>
      t_father (tasks t (page_addr 3839)) = 0"
    using fork_child [OF fd_demo_ok used _ _ _ _ _ _ page n, of 2 s2 r] s ldt [of 1] ldt [of 2] by auto
qed

end
