(* ===== verification/File_io.thy ===== *)
theory File_io
  imports Fs_cache Fork
begin

unbundle bit_operations_syntax

text \<open>
  Reading a file from end to end: \<open>sys_read\<close> (fs/read_write.c), \<open>file_read\<close> (fs/file_dev.c), \<open>_bmap\<close> (fs/inode.c) and the buffer
  cache (fs/buffer.c) together give the bytes of the file, where a file is what its inode and the blocks of its device say it
  is: seven direct zones, one block of 512 zones, and one block of 512 such blocks; a zone 0 is a hole.
\<close>

section \<open>Blocks held in the cache\<close>

text \<open>The buffer of a block that can be used at once. A count of 255 would wrap around.\<close>

definition held :: "'z blk_state_scheme \<Rightarrow> u16 \<Rightarrow> u32 \<Rightarrow> nat \<Rightarrow> bool" where
  "held s dev b bh \<longleftrightarrow> bh < length (bufs s) \<and> bkey s bh = (dev, b) \<and> b_lock (buf s bh) = 0 \<and> b_uptodate (buf s bh) \<noteq> 0 \<and>
     b_count (buf s bh) \<noteq> 255 \<and> length (b_data (buf s bh)) = 1024"

definition data_of :: "'z blk_state_scheme \<Rightarrow> u16 \<Rightarrow> u32 \<Rightarrow> u8 list" where
  "data_of s dev b = (case find (\<lambda>bh. b_dev (buf s bh) = dev \<and> b_blocknr (buf s bh) = b) [0..<length (bufs s)] of
     None \<Rightarrow> [] | Some bh \<Rightarrow> b_data (buf s bh))"

lemma data_of_held:
  assumes "cache_inv s" and "dev \<noteq> 0" and "held s dev b bh"
  shows "data_of s dev b = b_data (buf s bh)"
proof -
  have bh: "bh < length (bufs s)" "bkey s bh = (dev, b)" using assms(3) by (simp_all add: held_def)
  have uniq: "j = bh" if "j < length (bufs s)" "bkey s j = (dev, b)" for j
  proof -
    have "inj_on (bkey s) (cached s)" using assms(1) by (simp add: cache_inv_def)
    then show ?thesis using that bh assms(2) by (auto simp: inj_on_def cached_def)
  qed
  have "find (\<lambda>bh. b_dev (buf s bh) = dev \<and> b_blocknr (buf s bh) = b) [0..<length (bufs s)] = Some bh"
    unfolding find_Some_iff
  proof (intro exI conjI allI impI)
    show "bh < length [0..<length (bufs s)]" "bh = [0..<length (bufs s)] ! bh" using bh(1) by simp_all
    show "b_dev (buf s ([0..<length (bufs s)] ! bh)) = dev" "b_blocknr (buf s ([0..<length (bufs s)] ! bh)) = b"
      using bh by (simp_all add: bkey_def)
    show "\<not> (b_dev (buf s ([0..<length (bufs s)] ! j)) = dev \<and> b_blocknr (buf s ([0..<length (bufs s)] ! j)) = b)" if "j < bh" for j
      using uniq [of j] that bh(1) by (auto simp: bkey_def)
  qed
  then show ?thesis by (simp add: data_of_def)
qed

abbreviation use_more :: "nat \<Rightarrow> 'z blk_state_scheme \<Rightarrow> 'z blk_state_scheme" where
  "use_more bh \<equiv> upd_buf bh (\<lambda>b. b\<lparr>b_count := b_count b + 1\<rparr>)"

lemma bread_held:
  assumes "cache_inv s" and "dev \<noteq> 0" and "1 < fst K" and "held s dev b bh"
  shows "bread K dev b s es = Ok (Some bh) (use_more bh s) es"
proof -
  have bh: "bh < length (bufs s)" "bkey s bh = (dev, b)" "b_lock (buf s bh) = 0" "b_uptodate (buf s bh) \<noteq> 0"
    using assms(4) by (simp_all add: held_def)
  have "b_uptodate (buf (use_more bh s) bh) = b_uptodate (buf s bh)" using bh(1) by (simp add: buf_upd_buf)
  then show ?thesis
    using getblk_hit [OF assms(1,2) bh(1,2,3) assms(3), of es] bh(4) by (simp add: bread_def bread_of_def kern_defs)
qed

text \<open>Giving the buffer back restores the state, when nobody waits for a buffer.\<close>

lemma brelse_held:
  assumes "held s dev b bh" and "buffer_wait s = 0"
  shows "brelse (Some bh) (use_more bh s) es = Ok () s es"
proof -
  have bh: "bh < length (bufs s)" "b_lock (buf s bh) = 0" "b_count (buf s bh) \<noteq> 255" using assms(1) by (simp_all add: held_def)
  have "x = 255" if "x + 1 = 0" for x :: u8
  proof -
    have "x = - 1" using that by (simp add: eq_neg_iff_add_eq_0)
    then show ?thesis by simp
  qed
  then have nz: "b_count (buf s bh) + 1 \<noteq> 0" using bh(3) by blast
  let ?s = "use_more bh s"
  have b: "b_lock (buf ?s bh) = 0" "b_count (buf ?s bh) = b_count (buf s bh) + 1" "buffer_wait ?s = 0"
    using bh assms(2) by (simp_all add: buf_upd_buf) (simp add: upd_buf_def)
  have "upd_buf bh (\<lambda>b. b\<lparr>b_count := b_count (buf s bh) + 1 - 1\<rparr>) ?s = s"
    using bh(1) by (simp add: upd_buf_def upd_nth_def buf_def)
  then show ?thesis
    using b nz wait_unlocked [OF b(1), of es] assms(2)
    by (simp add: brelse_def kern_defs wake_up_last_def buffer_queue_def)
qed

section \<open>The blocks of a file\<close>

text \<open>The number of the \<open>k\<close>th block of a file, 0 for a hole; and the blocks that hold the number can be used at once.\<close>

definition file_map :: "'z fs_state_scheme \<Rightarrow> nat \<Rightarrow> nat \<Rightarrow> u16" where
  "file_map s i k = (let n = ino s i; z = i_zone n in
     if k < 7 then z ! k
     else if k < 7 + 512 then (if z ! 7 = 0 then 0 else le16 (data_of s (i_dev n) (ucast (z ! 7))) (2 * (k - 7)))
     else if z ! 8 = 0 then 0
     else let e = le16 (data_of s (i_dev n) (ucast (z ! 8))) (2 * ((k - 519) div 512)) in
       if e = 0 then 0 else le16 (data_of s (i_dev n) (ucast e)) (2 * ((k - 519) mod 512)))"

definition map_held :: "'z fs_state_scheme \<Rightarrow> nat \<Rightarrow> nat \<Rightarrow> bool" where
  "map_held s i k \<longleftrightarrow> (let n = ino s i; z = i_zone n in
     if k < 7 then True
     else if k < 7 + 512 then z ! 7 = 0 \<or> (\<exists>bh. held s (i_dev n) (ucast (z ! 7)) bh)
     else z ! 8 = 0 \<or> (\<exists>bh. held s (i_dev n) (ucast (z ! 8)) bh) \<and>
       (let e = le16 (data_of s (i_dev n) (ucast (z ! 8))) (2 * ((k - 519) div 512)) in
        e = 0 \<or> (\<exists>bh. held s (i_dev n) (ucast e) bh)))"

text \<open>What reading from the cache needs of the state.\<close>

definition calm :: "'z fs_state_scheme ctx \<Rightarrow> nat \<Rightarrow> 'z fs_state_scheme \<Rightarrow> bool" where
  "calm K i s \<longleftrightarrow> cache_inv s \<and> buffer_wait s = 0 \<and> 1 < fst K \<and> i_dev (ino s i) \<noteq> 0"

text \<open>The lookup that may allocate and the one that may not agree where there is nothing to allocate.\<close>

lemma ind_entry_held:
  assumes "held s dev b bh" and "buffer_wait s = 0" and "cr \<Longrightarrow> le16 (b_data (buf s bh)) (2 * k) \<noteq> 0"
  shows "ind_entry K i cr bh k (use_more bh s) es = Ok (uint (le16 (b_data (buf s bh)) (2 * k))) s es"
  using assms brelse_held [OF assms(1,2), of es] by (auto simp: ind_entry_def kern_defs held_def buf_upd_buf uint_0_iff)

lemma zone_entry_there:
  assumes "cr \<Longrightarrow> i_zone (ino s i) ! m \<noteq> 0"
  shows "kseq (zone_entry K i cr m) rest s es = rest s es"
  using assms by (auto simp: zone_entry_def kern_defs)

text \<open>Looking up an entry of a block of numbers.\<close>

lemma lookup_entry:
  assumes "calm K i s" and "\<exists>bh. held s (i_dev (ino s i)) b bh" and "cr \<Longrightarrow> le16 (data_of s (i_dev (ino s i)) b) (2 * k) \<noteq> 0"
  shows "kbind (bread K (i_dev (ino s i)) b) (\<lambda>bh. case bh of None \<Rightarrow> ret 0 | Some bh \<Rightarrow> kbind (ind_entry K i cr bh k) rest) s es
    = rest (uint (le16 (data_of s (i_dev (ino s i)) b) (2 * k))) s es"
proof -
  obtain bh where bh: "held s (i_dev (ino s i)) b bh" using assms(2) by blast
  have c: "cache_inv s" "buffer_wait s = 0" "1 < fst K" "i_dev (ino s i) \<noteq> 0" using assms(1) by (simp_all add: calm_def)
  note d = data_of_held [OF c(1,4) bh]
  show ?thesis
    using bread_held [OF c(1,4,3) bh, of es] ind_entry_held [OF bh c(2), of cr k K i es] assms(3) by (simp add: kbind_def d)
qed

lemmas lookup_last = lookup_entry [where rest = ret, unfolded ret_kbind]

lemma gets_ino: "kbind (gets (\<lambda>s. ino s i)) rest s es = rest (ino s i) s es" "kbind (gets (\<lambda>s. i_dev (ino s i))) rest' s es = rest' (i_dev (ino s i)) s es"
  by (simp_all add: kern_defs)

text \<open>The three levels of \<open>_bmap\<close>.\<close>

lemma bmap_direct:
  assumes "k < 7" and "cr \<Longrightarrow> file_map s i k \<noteq> 0"
  shows "bmap K i (int k) cr s es = Ok (uint (file_map s i k)) s es"
proof -
  have k: "\<not> int k < 0" "\<not> int k \<ge> 7 + 512 + 512 * 512" "int k < 7" using assms(1) by simp_all
  have m: "file_map s i k = i_zone (ino s i) ! k" using assms(1) by (simp add: file_map_def Let_def)
  have "bmap K i (int k) cr s es = gets (\<lambda>s. uint (i_zone (ino s i) ! k)) s es"
    unfolding bmap_def using k zone_entry_there [of cr s i k K] assms(2) m by (simp only: if_False if_True nat_int) simp
  then show ?thesis by (simp add: gets_def m)
qed

lemma bmap_single:
  fixes s :: "'z fs_state_scheme"
  assumes "calm K i s" and "7 \<le> k" and "k < 519" and "map_held s i k" and "cr \<Longrightarrow> file_map s i k \<noteq> 0"
  shows "bmap K i (int k) cr s es = Ok (uint (file_map s i k)) s es"
proof -
  let ?n = "ino s i"
  let ?z = "i_zone ?n ! 7"
  have k: "\<not> int k < 0" "\<not> int k \<ge> 7 + 512 + 512 * 512" "\<not> int k < 7" "int k - 7 < 512" "nat (int k - 7) = k - 7" using assms(2,3) by auto
  have m: "file_map s i k = (if ?z = 0 then 0 else le16 (data_of s (i_dev ?n) (ucast ?z)) (2 * (k - 7)))"
    using assms(2,3) by (simp add: file_map_def Let_def)
  have z: "kseq (zone_entry K i cr 7) rest s es = rest s es" for rest :: "(int, 'z fs_state_scheme) kern"
    by (rule zone_entry_there) (use assms(5) m in auto)
  have "bmap K i (int k) cr s es = (if ?z = 0 then ret 0 s es
    else kbind (bread K (i_dev ?n) (ucast ?z)) (\<lambda>bh. case bh of None \<Rightarrow> ret 0 | Some bh \<Rightarrow> ind_entry K i cr bh (k - 7)) s es)"
    unfolding bmap_def using k by (simp only: if_False if_True z gets_ino) simp
  moreover have "\<exists>bh. held s (i_dev ?n) (ucast ?z) bh" if "?z \<noteq> 0"
    using assms(2-4) that by (simp add: map_held_def Let_def)
  ultimately show ?thesis
    using lookup_last [OF assms(1), of "ucast ?z" cr "k - 7" es] assms(5) m by (auto simp: ret_def split: if_splits)
qed

lemma bmap_double:
  fixes s :: "'z fs_state_scheme"
  assumes "calm K i s" and "519 \<le> k" and "k < 7 + 512 + 512 * 512" and "map_held s i k" and "cr \<Longrightarrow> file_map s i k \<noteq> 0"
  shows "bmap K i (int k) cr s es = Ok (uint (file_map s i k)) s es"
proof -
  let ?n = "ino s i"
  let ?z = "i_zone ?n ! 8"
  define b where "b = k - 519"
  let ?e = "le16 (data_of s (i_dev ?n) (ucast ?z)) (2 * (b div 512))"
  let ?rest = "\<lambda>e. if e = 0 then ret 0 else kbind (gets (\<lambda>s. i_dev (ino s i))) (\<lambda>dev. kbind (bread K dev (word_of_int e)) (\<lambda>bh2.
    case bh2 of None \<Rightarrow> ret 0 | Some bh2 \<Rightarrow> ind_entry K i cr bh2 (b mod 512)))"
  have k: "\<not> int k < 0" "\<not> int k \<ge> 7 + 512 + 512 * 512" "\<not> int k < 7" "\<not> int k - 7 < 512" "int k - 7 - 512 = int b"
    using assms(2,3) by (auto simp: b_def)
  have d: "nat (int b div 512) = b div 512" "nat (int b mod 512) = b mod 512" by (simp_all add: nat_div_distrib nat_mod_distrib)
  have m: "file_map s i k = (if ?z = 0 \<or> ?e = 0 then 0 else le16 (data_of s (i_dev ?n) (ucast ?e)) (2 * (b mod 512)))"
    using assms(2) by (simp add: file_map_def Let_def b_def)
  have h: "?z \<noteq> 0 \<Longrightarrow> \<exists>bh. held s (i_dev ?n) (ucast ?z) bh" "?z \<noteq> 0 \<Longrightarrow> ?e \<noteq> 0 \<Longrightarrow> \<exists>bh. held s (i_dev ?n) (ucast ?e) bh"
    using assms(2,4) by (auto simp: map_held_def Let_def b_def)
  have nz: "cr \<Longrightarrow> ?z \<noteq> 0" "cr \<Longrightarrow> ?e \<noteq> 0" using assms(5) m by auto
  have z: "kseq (zone_entry K i cr 8) rest s es = rest s es" for rest :: "(int, 'z fs_state_scheme) kern"
    by (rule zone_entry_there) (rule nz(1))
  have run: "bmap K i (int k) cr s es = (if ?z = 0 then ret 0 s es
    else kbind (bread K (i_dev ?n) (ucast ?z)) (\<lambda>bh. case bh of None \<Rightarrow> ret 0 | Some bh \<Rightarrow> kbind (ind_entry K i cr bh (b div 512)) ?rest) s es)"
    unfolding bmap_def Let_def using k(1-4) by (simp only: if_False k(5) d z gets_ino) simp
  have w: "word_of_int (uint e) = (ucast e :: u32)" for e :: u16 by (rule ucast_eq [symmetric])
  have rest: "?rest (uint ?e) s es = Ok (uint (file_map s i k)) s es" if z: "?z \<noteq> 0"
  proof (cases "?e = 0")
    case False
    then have "?rest (uint ?e) s es = kbind (bread K (i_dev ?n) (ucast ?e)) (\<lambda>bh2.
        case bh2 of None \<Rightarrow> ret 0 | Some bh2 \<Rightarrow> ind_entry K i cr bh2 (b mod 512)) s es"
      by (simp only: uint_0_iff if_False w gets_ino(2))
    then show ?thesis using lookup_last [OF assms(1) h(2) [OF z False], of cr "b mod 512" es] assms(5) m z False by (simp add: ret_def)
  qed (simp add: m ret_def)
  show ?thesis
  proof (cases "?z = 0")
    case False
    then show ?thesis using run lookup_entry [where rest = ?rest, OF assms(1) h(1) [OF False] nz(2)] rest [OF False] by (simp only: if_False)
  qed (use run m in \<open>simp add: ret_def\<close>)
qed

lemma bmap_reads:
  assumes "calm K i s" and "k < 7 + 512 + 512 * 512" and "map_held s i k" and "cr \<Longrightarrow> file_map s i k \<noteq> 0"
  shows "bmap K i (int k) cr s es = Ok (uint (file_map s i k)) s es"
proof -
  consider "k < 7" | "7 \<le> k" "k < 519" | "519 \<le> k" by linarith
  then show ?thesis using bmap_direct bmap_single bmap_double assms by cases blast+
qed

section \<open>Reading the bytes\<close>

text \<open>A byte of a file, and that its block and the blocks on the way to it can be used at once.\<close>

definition file_byte :: "'z fs_state_scheme \<Rightarrow> nat \<Rightarrow> nat \<Rightarrow> u8" where
  "file_byte s i pos = (let b = file_map s i (pos div 1024) in
     if b = 0 then 0 else data_of s (i_dev (ino s i)) (ucast b) ! (pos mod 1024))"

definition block_held :: "'z fs_state_scheme \<Rightarrow> nat \<Rightarrow> nat \<Rightarrow> bool" where
  "block_held s i k \<longleftrightarrow> k < 7 + 512 + 512 * 512 \<and> map_held s i k \<and>
     (file_map s i k = 0 \<or> (\<exists>bh. held s (i_dev (ino s i)) (ucast (file_map s i k)) bh))"

text \<open>All this depends on the buffers and the inodes only.\<close>

lemma file_view_cong:
  assumes "bufs t = bufs s" and "inode_table t = inode_table s"
  shows "held t = held s" "data_of t = data_of s" "file_map t = file_map s" "map_held t = map_held s" "block_held t = block_held s"
    "file_byte t = file_byte s"
proof -
  have eq: "buf t = buf s" "ino t = ino s" using assms by (simp_all add: fun_eq_iff buf_def ino_def)
  show 1: "held t = held s" by (intro ext) (simp only: held_def bkey_def assms eq)
  show 2: "data_of t = data_of s" by (intro ext) (simp only: data_of_def assms eq)
  show 3: "file_map t = file_map s" by (intro ext) (simp only: file_map_def eq 2)
  show 4: "map_held t = map_held s" by (intro ext) (simp only: map_held_def eq 1 2)
  show "block_held t = block_held s" by (intro ext) (simp only: block_held_def eq 1 3 4)
  show "file_byte t = file_byte s" by (intro ext) (simp only: file_byte_def eq 2 3)
qed

lemma calm_cong:
  assumes "bufs t = bufs s" and "inode_table t = inode_table s" and "hash_table t = hash_table s" and "free_list t = free_list s"
    and "buffer_wait t = buffer_wait s"
  shows "calm K i t = calm K i s"
  using cache_ok_cong [OF assms(1,3,4), of "length (bufs s)"] assms by (simp add: calm_def cache_ok_def ino_def)

definition moved :: "(u32 \<Rightarrow> u8) \<Rightarrow> file_struct list \<Rightarrow> 'z fs_state_scheme \<Rightarrow> 'z fs_state_scheme" where
  "moved m T s = s\<lparr>umem := m, file_table := T\<rparr>"

lemma moved_simps [simp]:
  "bufs (moved m T s) = bufs s" "buf (moved m T s) = buf s" "ino (moved m T s) = ino s" "buffer_wait (moved m T s) = buffer_wait s"
  "umem (moved m T s) = m" "file_table (moved m T s) = T" "moved m' T' (moved m T s) = moved m' T' s"
  by (simp_all add: moved_def buf_def ino_def fun_eq_iff)

lemma moved_file [simp]:
  "held (moved m T s) = held s" "data_of (moved m T s) = data_of s" "file_map (moved m T s) = file_map s"
  "map_held (moved m T s) = map_held s" "block_held (moved m T s) = block_held s" "file_byte (moved m T s) = file_byte s"
  "calm K i (moved m T s) = calm K i s"
  by (rule file_view_cong calm_cong; simp add: moved_def)+

lemma use_more_moved: "use_more bh (moved m T s) = moved m T (use_more bh s)"
  by (simp add: moved_def upd_buf_def)

definition stored :: "u32 \<Rightarrow> u8 list \<Rightarrow> (u32 \<Rightarrow> u8) \<Rightarrow> (u32 \<Rightarrow> u8)" where
  "stored a bs m = (\<lambda>x. if unat (x - a) < length bs then bs ! unat (x - a) else m x)"

lemma put_user_run: "length bs \<le> 2 ^ 32 \<Longrightarrow> put_user a bs s es = Ok () (s\<lparr>umem := stored a bs (umem s)\<rparr>) es"
  unfolding put_user_def modify_def stored_def by (simp only: fold_store)

lemma stored_append:
  assumes "length bs + length cs \<le> 2 ^ 32"
  shows "stored (a + of_nat (length bs)) cs (stored a bs m) = stored a (bs @ cs) m"
proof
  fix x
  define d c where "d = x - a" and "c = length bs"
  have e: "x - (a + of_nat c) = d - of_nat c" by (simp add: d_def)
  show "stored (a + of_nat (length bs)) cs (stored a bs m) x = stored a (bs @ cs) m x"
  proof (cases "cs = []")
    case True
    then show ?thesis by (simp add: stored_def)
  next
    case False
    then have c: "c < 2 ^ 32" using assms by (cases cs) (simp_all add: c_def)
    then have u: "unat (of_nat c :: u32) = c" by (simp add: unat_of_nat)
    have "unat (d - of_nat c) = (if c \<le> unat d then unat d - c else unat d + 2 ^ 32 - c)"
      using u unat_sub_if_size [of d "of_nat c"] by (simp add: word_size)
    then show ?thesis
      using assms unfolding stored_def c_def [symmetric] e d_def [symmetric] by (auto simp: nth_append c_def)
  qed
qed

text \<open>One pass of the loop moves the bytes up to the end of the block, or the rest.\<close>

definition file_bytes :: "'z fs_state_scheme \<Rightarrow> nat \<Rightarrow> nat \<Rightarrow> nat \<Rightarrow> u8 list" where
  "file_bytes s i pos n = map (\<lambda>k. file_byte s i (pos + k)) [0..<n]"

lemma length_file_bytes [simp]: "length (file_bytes s i pos n) = n"
  by (simp add: file_bytes_def)

lemma file_bytes_append: "file_bytes s i pos n @ file_bytes s i (pos + n) k = file_bytes s i pos (n + k)"
  by (rule nth_equalityI) (auto simp: file_bytes_def nth_append add.assoc)

lemma file_bytes_block:
  assumes "c \<le> 1024 - pos mod 1024"
  shows "file_bytes s i pos c = (if file_map s i (pos div 1024) = 0 then replicate c 0
    else map (\<lambda>k. data_of s (i_dev (ino s i)) (ucast (file_map s i (pos div 1024))) ! (pos mod 1024 + k)) [0..<c])"
proof -
  define q r where "q = pos div 1024" and "r = pos mod 1024"
  have pos: "pos = 1024 * q + r" by (simp add: q_def r_def)
  have "(pos + k) div 1024 = q \<and> (pos + k) mod 1024 = r + k" if "k < c" for k
  proof -
    have "r + k < 1024" using assms that by (simp add: r_def)
    then show ?thesis by (simp add: pos add.assoc)
  qed
  then show ?thesis unfolding q_def [symmetric] r_def [symmetric]
    by (auto simp: file_bytes_def file_byte_def Let_def intro!: nth_equalityI)
qed

definition advance :: "nat \<Rightarrow> int \<Rightarrow> file_struct list \<Rightarrow> file_struct list" where
  "advance f c = upd_nth f (\<lambda>x. x\<lparr>f_pos := f_pos x + c\<rparr>)"

lemma read_pass:
  assumes "calm K i s" and "f < length (file_table s)" and "f_pos (fil s f) = int pos" and "block_held s i (pos div 1024)" and "0 < left"
    and "c = min (1024 - pos mod 1024) left"
  shows "file_read_loop (Suc n) K i f u (int left) s es =
    file_read_loop n K i f (u + of_nat c) (int (left - c)) (moved (stored u (file_bytes s i pos c) (umem s)) (advance f (int c) (file_table s)) s) es"
proof -
  let ?k = "pos div 1024" and ?off = "pos mod 1024"
  define m where "m = file_map s i ?k"
  define bs where "bs = file_bytes s i pos c"
  define s1 where "s1 = moved (umem s) (advance f (int c) (file_table s)) s"
  define s2 where "s2 = moved (stored u bs (umem s)) (advance f (int c) (file_table s)) s"
  have c: "c \<le> 1024 - ?off" "c \<le> left" "length bs \<le> 2 ^ 32" using assms(6) by (simp_all add: bs_def)
  have "min (1024 - int o') (int l) = int (min (1024 - o') l)" if "o' < 1024" for o' l using that by (simp add: of_nat_diff of_nat_min)
  then have ch: "min (1024 - int ?off) (int left) = int c" using assms(6) by simp
  have w: "word_of_int (int c) = (of_nat c :: u32)" by simp
  have held: "?k < 7 + 512 + 512 * 512" "map_held s i ?k" "m = 0 \<or> (\<exists>bh. held s (i_dev (ino s i)) (ucast m) bh)"
    using assms(4) by (simp_all add: block_held_def m_def)
  have blk: "get_diskBlock K i (cdiv (int pos) 1024) s es = Ok (uint m) s es"
    using bmap_reads [OF assms(1) held(1,2), of False es] by (simp add: get_diskBlock_def m_def zdiv_int)
  have off: "crem (int pos) 1024 = int ?off" by (simp add: zmod_int)
  have bytes: "bs = (if m = 0 then replicate c 0 else slice ?off c (data_of s (i_dev (ino s i)) (ucast m)))"
    if "m = 0 \<or> length (data_of s (i_dev (ino s i)) (ucast m)) = 1024"
    using that c(1) unfolding bs_def file_bytes_block [OF c(1)] m_def [symmetric]
    by (auto simp: slice_def intro!: nth_equalityI)
  have adv: "upd_fil f (\<lambda>x. x\<lparr>f_pos := f_pos x + int c\<rparr>) t = moved (umem s) (advance f (int c) (file_table s)) t"
    if "umem t = umem s" "file_table t = file_table s" for t :: "'a fs_state_scheme"
    using that by (simp add: upd_fil_def moved_def advance_def)
  have put: "put_user u bs (moved (umem s) T t) es = Ok () (moved (stored u bs (umem s)) T t) es" for T and t :: "'a fs_state_scheme"
    using put_user_run [OF c(3), of u "moved (umem s) T t" es] by (simp add: moved_def)
  have left: "int left \<noteq> 0" "int left - int c = int (left - c)" using assms(5) c(2) by (simp_all add: of_nat_diff)
  show ?thesis
  proof (cases "m = 0")
    case True
    then have bs0: "replicate (nat (int c)) 0 = bs" using bytes by simp
    have u0: "uint m = 0" using True by simp
    show ?thesis
      unfolding file_read_loop.simps(2) bs_def [symmetric]
      by (simp only: kbind_def kseq_def gets_def modify_def ret_def Let_def left(1) if_False blk outcome.case assms(3) u0 simp_thms option.case
          off ch adv bs0 put w left(2))
  next
    case False
    then obtain bh where bh: "held s (i_dev (ino s i)) (ucast m) bh" using held(3) by blast
    have calm: "cache_inv s" "buffer_wait s = 0" "1 < fst K" "i_dev (ino s i) \<noteq> 0" using assms(1) by (simp_all add: calm_def)
    have br: "bread K (i_dev (ino s i)) (ucast m) s es = Ok (Some bh) (use_more bh s) es" by (rule bread_held [OF calm(1,4,3) bh])
    have data: "data_of s (i_dev (ino s i)) (ucast m) = b_data (buf s bh)" "length (b_data (buf s bh)) = 1024"
      using data_of_held [OF calm(1,4) bh] bh by (simp_all add: held_def)
    have more: "b_data (buf (use_more bh s) bh) = b_data (buf s bh)" "fil (use_more bh s) f = fil s f" "umem (use_more bh s) = umem s"
      "file_table (use_more bh s) = file_table s"
      using bh by (simp_all add: held_def buf_upd_buf) (simp_all add: upd_buf_def fil_def)
    have rel: "brelse (Some bh) (moved (stored u bs (umem s)) T (use_more bh s)) es = Ok () (moved (stored u bs (umem s)) T s) es" for T
      using brelse_held [of "moved (stored u bs (umem s)) T s" _ _ bh es] bh calm(2) by (simp add: use_more_moved)
    have slice: "slice ?off c (b_data (buf s bh)) = bs" using bytes False data by simp
    have m: "uint m \<noteq> 0" using False by (simp add: uint_0_iff)
    have wm: "word_of_int (uint m) = (ucast m :: u32)" by (rule ucast_eq [symmetric])
    show ?thesis
      unfolding file_read_loop.simps(2) bs_def [symmetric]
      by (simp only: kbind_def kseq_def gets_def modify_def ret_def Let_def left(1) if_False if_True blk outcome.case assms(3) m wm simp_thms option.case
          option.distinct br more off ch adv slice put rel moved_simps w left(2) nat_int)
  qed
qed

lemma advance_simps [simp]:
  "length (advance f c T) = length T" "advance f 0 T = T" "f < length T \<Longrightarrow> f_pos (advance f c T ! f) = f_pos (T ! f) + c"
  by (simp_all add: advance_def upd_nth_def)

lemma advance_twice [simp]: "advance f d (advance f c T) = advance f (c + d) T"
  by (cases "f < length T") (simp_all add: advance_def upd_nth_def add.assoc list_update_beyond)

lemma file_bytes_cong: "file_byte t = file_byte s \<Longrightarrow> file_bytes t = file_bytes s"
  by (simp add: file_bytes_def fun_eq_iff)

lemma file_read_loop_run:
  assumes "calm K i s" and "f < length (file_table s)" and "f_pos (fil s f) = int pos"
    and "\<And>k. pos div 1024 \<le> k \<Longrightarrow> k * 1024 < pos + left \<Longrightarrow> block_held s i k" and "left \<le> n" and "left \<le> 2 ^ 32"
  shows "file_read_loop n K i f u (int left) s es =
    Ok 0 (moved (stored u (file_bytes s i pos left) (umem s)) (advance f (int left) (file_table s)) s) es"
  using assms
proof (induction n arbitrary: s u pos left)
  case 0
  then show ?case by (simp add: ret_def file_bytes_def stored_def moved_def)
next
  case (Suc n)
  show ?case
  proof (cases "left = 0")
    case True
    then show ?thesis by (simp add: ret_def file_bytes_def stored_def moved_def)
  next
    case False
    define c where "c = min (1024 - pos mod 1024) left"
    define t where "t = moved (stored u (file_bytes s i pos c) (umem s)) (advance f (int c) (file_table s)) s"
    have off: "pos mod 1024 < 1024" by simp
    have c: "0 < c" "c \<le> left" using False off by (simp_all add: c_def)
    have "block_held s i (pos div 1024)" using Suc.prems(4) [of "pos div 1024"] False div_times_less_eq_dividend [of pos 1024] by simp
    from read_pass [OF Suc.prems(1-3) this _ c_def, of n u es] False
    have "file_read_loop (Suc n) K i f u (int left) s es = file_read_loop n K i f (u + of_nat c) (int (left - c)) t es"
      by (simp add: t_def del: file_read_loop.simps)
    also have "\<dots> = Ok 0 (moved (stored (u + of_nat c) (file_bytes t i (pos + c) (left - c)) (umem t)) (advance f (int (left - c)) (file_table t)) t) es"
    proof (rule Suc.IH)
      show "calm K i t" "f < length (file_table t)" using Suc.prems(1,2) by (simp_all add: t_def)
      show "f_pos (fil t f) = int (pos + c)" using Suc.prems(2,3) by (simp add: t_def fil_def)
      show "left - c \<le> n" "left - c \<le> 2 ^ 32" using Suc.prems(5,6) c by simp_all
      show "block_held t i k" if "(pos + c) div 1024 \<le> k" "k * 1024 < pos + c + (left - c)" for k
        using Suc.prems(4) [of k] that c div_le_mono [of pos "pos + c" 1024] by (simp add: t_def)
    qed
    also have "\<dots> = Ok 0 (moved (stored u (file_bytes s i pos left) (umem s)) (advance f (int left) (file_table s)) s) es"
    proof -
      have "file_bytes t i (pos + c) (left - c) = file_bytes s i (pos + c) (left - c)"
        by (simp add: file_bytes_def t_def)
      then have "stored (u + of_nat c) (file_bytes t i (pos + c) (left - c)) (umem t) = stored u (file_bytes s i pos left) (umem s)"
        using stored_append [of "file_bytes s i pos c" "file_bytes s i (pos + c) (left - c)" u "umem s"] c Suc.prems(6)
        by (simp add: t_def file_bytes_append)
      moreover have "advance f (int (left - c)) (file_table t) = advance f (int left) (file_table s)" using c by (simp add: t_def)
      ultimately show ?thesis by (simp add: t_def)
    qed
    finally show ?thesis .
  qed
qed

lemma file_read_run:
  assumes "calm K i s" and "f < length (file_table s)" and "f_pos (fil s f) = int pos"
    and "\<And>k. pos div 1024 \<le> k \<Longrightarrow> k * 1024 < pos + n \<Longrightarrow> block_held s i k" and "0 < n" and "n \<le> 2 ^ 32"
  shows "\<exists>t. file_read K i f u (int n) s es = Ok (int n) t es \<and> umem t = stored u (file_bytes s i pos n) (umem s) \<and>
    f_pos (fil t f) = int (pos + n)"
proof -
  let ?m = "moved (stored u (file_bytes s i pos n) (umem s)) (advance f (int n) (file_table s)) s"
  have "file_read_loop (nat (int n)) K i f u (int n) s es = Ok 0 ?m es"
    using file_read_loop_run [OF assms(1-4), of n n] assms(6) by simp
  then have "file_read K i f u (int n) s es = Ok (int n) (upd_ino i (\<lambda>x. x\<lparr>i_atime := word_of_int (CURRENT_TIME ?m)\<rparr>) ?m) es"
    using assms(5) by (simp add: file_read_def kern_defs del: file_read_loop.simps)
  moreover have "umem (upd_ino i g ?m) = stored u (file_bytes s i pos n) (umem s)" "fil (upd_ino i g ?m) f = advance f (int n) (file_table s) ! f" for g
    by (simp_all add: upd_ino_def fil_def moved_def)
  ultimately show ?thesis using assms(2,3) by (simp add: fil_def)
qed

section \<open>The system call\<close>

lemma mm_local_log [mm_local]: "mm_local (printk msg args)" "mm_local (kexit c)"
  by (simp_all add: mm_local_def kern_defs printk_def)

lemma mm_local_write_verify [mm_local]: "mm_local (write_verify a)"
  unfolding write_verify_def un_wp_page_def oom_def Let_def by (intro mm_local)

lemma mm_local_verify_pages: "mm_local (verify_pages n a z)"
  by (induction n arbitrary: a z) (auto simp only: verify_pages.simps intro!: mm_local)

lemma put_mm_cache [simp]:
  fixes s s2 :: "'z fs_state_scheme"
  shows "bufs (put_mm s2 s) = bufs s" "hash_table (put_mm s2 s) = hash_table s" "free_list (put_mm s2 s) = free_list s"
    "buffer_wait (put_mm s2 s) = buffer_wait s" "umem (put_mm s2 s) = umem s"
  by (cases s; cases s2; simp)+

text \<open>Making the user's pages writable changes neither files nor the contents of user memory.\<close>

lemma verify_area_files:
  fixes s :: "'z fs_state_scheme"
  assumes "verify_area u n s es = Ok () s1 es1"
  shows "es1 = es" and "bufs s1 = bufs s" and "hash_table s1 = hash_table s" and "free_list s1 = free_list s" and "buffer_wait s1 = buffer_wait s"
    and "umem s1 = umem s" and "file_table s1 = file_table s" and "inode_table s1 = inode_table s"
proof -
  obtain k a z where v: "verify_pages k a z s es = Ok () s1 es1" using assms by (auto simp: verify_area_def kern_defs Let_def)
  then show "es1 = es" using mm_local_verify_pages [of k a z] unfolding mm_local_def by blast
  have "Ok () s1 es1 = Ok () (put_mm s1 s) es"
    using mm_localD [OF mm_local_verify_pages v, of "mm_state.more s"] v by simp
  then have s1: "s1 = put_mm s1 s" by simp
  show "bufs s1 = bufs s" "hash_table s1 = hash_table s" "free_list s1 = free_list s" "buffer_wait s1 = buffer_wait s"
    "umem s1 = umem s" "file_table s1 = file_table s" "inode_table s1 = inode_table s"
    by (subst s1, simp)+
qed

text \<open>How much is read: what is asked for, but not beyond the end of the file. The length is unsigned in the code and
  the position is not.\<close>

lemma clip_count:
  fixes z :: u32
  assumes "unat z < 2 ^ 31" and "pos < 2 ^ 31" and "0 < count" and "count < 2 ^ 31" and "n = min (nat count) (unat z - pos)"
    and "c = (if (word_of_int (count + int pos) :: u32) > z then sint (z - word_of_int (int pos)) else count)"
  shows "if n = 0 then c \<le> 0 else c = int n"
proof -
  have small: "uint (word_of_int x :: u32) = x" if "0 \<le> x" "x < 2 ^ 32" for x using that by (simp add: uint_word_of_int)
  have "uint (word_of_int (count + int pos) :: u32) = count + int pos" using assms(2,3,4) by (intro small) simp_all
  then have gt: "(word_of_int (count + int pos) :: u32) > z \<longleftrightarrow> count + int pos > int (unat z)"
    by (simp add: word_less_def)
  have "- (2 ^ 31) \<le> int m - int k \<and> int m - int k < 2 ^ 31" if "m < 2 ^ 31" "k < 2 ^ 31" for m k :: nat using that by auto
  note small_range = this [OF assms(1,2)]
  have "z - word_of_int (int pos) = word_of_int (int (unat z) - int pos)" by simp
  moreover have "sint (word_of_int x :: u32) = x" if "- (2 ^ 31) \<le> x" "x < 2 ^ 31" for x
    using that by (simp add: signed_of_int signed_take_bit_int_eq_self)
  then have "sint (word_of_int (int (unat z) - int pos) :: u32) = int (unat z) - int pos"
    using small_range by blast
  ultimately have "c = (if count + int pos > int (unat z) then int (unat z) - int pos else count)" using assms(6) gt by simp
  moreover have "if n = 0 then c \<le> 0 else c = int n"
    if "c = (if count + int pos > int m then int m - int pos else count)" "n = min (nat count) (m - pos)" for m
    using that assms(3) by (auto simp: min_def split: if_splits)
  ultimately show ?thesis using assms(5) by blast
qed

text \<open>C14: reading a regular file, from the system call to the buffers. If the buffers of the blocks in question are in the cache and free to use, the call
  returns at once the number of bytes asked for, cut at the end of the file; the user's buffer holds these
  bytes of the file, by way of the direct, indirect and doubly indirect zones, with zeroes where the file has holes; no other user
  memory has changed; and the position has moved by as much.\<close>

theorem read_returns_file:
  fixes s :: "'z fs_state_scheme"
  assumes "fd_file s fd = Some f" and "f < length (file_table s)" and "f_inode (fil s f) = Some i" and "i_pipe (ino s i) = 0"
    and "S_ISREG (i_mode (ino s i))" and "f_pos (fil s f) = int pos" and "pos < 2 ^ 31" and "0 < count" and "count < 2 ^ 31"
    and "unat (i_size (ino s i)) < 2 ^ 31" and "n = min (nat count) (unat (i_size (ino s i)) - pos)"
    and "calm K i s" and "\<forall>k. pos div 1024 \<le> k \<and> k * 1024 < pos + n \<longrightarrow> block_held s i k" and "verify_area u count s es = Ok () s1 es1"
  shows "\<exists>t. sys_read K trw fd u count s es = Ok (int n) t es \<and> user_bytes t u n = file_bytes s i pos n \<and>
    (\<forall>x. n \<le> unat (x - u) \<longrightarrow> umem t x = umem s x) \<and> f_pos (fil t f) = int (pos + n)"
proof -
  note v = verify_area_files [OF assms(14)]
  have eq: "fil s1 = fil s" "ino s1 = ino s" using v by (simp_all add: fun_eq_iff fil_def ino_def)
  define c where "c = (if (word_of_int (count + int pos) :: u32) > i_size (ino s i) then sint (i_size (ino s i) - word_of_int (int pos)) else count)"
  have reg: "\<not> S_ISCHR (i_mode (ino s i))" "\<not> S_ISBLK (i_mode (ino s i))" using assms(5) by (auto simp: S_ISREG_def S_ISCHR_def S_ISBLK_def)
  have run: "sys_read K trw fd u count s es = (if c \<le> 0 then ret 0 s1 es else file_read K i f u c s1 es)"
    using assms(1,3-6,8,14) reg v(1) by (simp add: sys_read_def kbind_def kseq_def gets_def Let_def eq c_def)
  have c: "if n = 0 then c \<le> 0 else c = int n" by (rule clip_count [OF assms(10,7,8,9,11) c_def])
  show ?thesis
  proof (cases "n = 0")
    case True
    then show ?thesis
      using run c v assms(6) by (simp add: ret_def user_bytes_def file_bytes_def fil_def)
  next
    case False
    have n: "n \<le> 2 ^ 32" using assms(9,11) by (simp add: min_def nat_le_iff)
    have view: "calm K i s1 = calm K i s" "block_held s1 = block_held s" "file_byte s1 = file_byte s"
      by (rule calm_cong [OF v(2,8,3,4,5)], rule file_view_cong [OF v(2,8)], rule file_view_cong [OF v(2,8)])
    obtain t where t: "file_read K i f u (int n) s1 es = Ok (int n) t es" "umem t = stored u (file_bytes s1 i pos n) (umem s1)"
      "f_pos (fil t f) = int (pos + n)"
      using file_read_run [of K i s1 f pos n u es] assms(2,6,12,13) view eq v(7) n False by auto
    have "user_bytes t u n = file_bytes s i pos n"
      using n unfolding user_bytes_def t(2) file_bytes_cong [OF view(3)]
      by (intro nth_equalityI) (auto simp: stored_def unat_of_nat)
    then show ?thesis using run c False t v(6) by (auto simp: stored_def)
  qed
qed

text \<open>A file of 1500 bytes: its first block is block 7 of the device and full of the letter A, and the second is a hole.\<close>

definition read_demo :: "nat \<Rightarrow> fs_state \<Rightarrow> fs_state" where
  "read_demo bh s = (upd_buf bh (\<lambda>b. b\<lparr>b_data := replicate 1024 65, b_lock := 0, b_uptodate := 1, b_count := 1\<rparr>) s)\<lparr>buffer_wait := 0,
     mem := \<lambda>_. 0, tasks := \<lambda>p. (INIT_TASK p)\<lparr>t_filp := (replicate 20 None)[3 := Some 0]\<rparr>,
     inode_table := [zero_inode\<lparr>i_mode := 0x8000, i_size := 1500, i_dev := 0x101, i_zone := [7, 0, 0, 0, 0, 0, 0, 0, 0]\<rparr>],
     file_table := [\<lparr>f_mode = 1, f_flags = 0, f_count = 1, f_inode = Some 0, f_pos = 1000\<rparr>]\<rparr>"

lemma block_seven_cached:
  obtains s :: fs_state and bh where "cache_inv s" and "bh < length (bufs s)" and "bkey s bh = (0x101, 7)" and "length (bufs s) = 2"
proof -
  obtain s where s: "buffer_init (\<lambda>_. zero_buffer) 2099272 cache_boot0 [] = Ok () s []" "length (bufs s) = 2"
    and b: "\<And>i. i < 2 \<Longrightarrow> b_dev (buf s i) = 0 \<and> b_count (buf s i) = 0 \<and> b_dirt (buf s i) = 0 \<and> b_lock (buf s i) = 0"
    by (rule cache_boot) blast
  have inv: "cache_inv s" using buffer_init_inv [OF s(1)] s(2) by simp
  from getblk_fresh [OF inv, of "0x101" 7 0 rd_ctx "[]"] s(2) b obtain bh s' where
    g: "getblk rd_ctx 0x101 7 s [] = Ok bh s' []" by (auto simp: bkey_def rd_ctx_def)
  have d: "drivers 2 (snd rd_ctx)" by (simp add: drivers_def rd_ctx_def do_rd_request_keeps)
  have "Cache.found 2 0x101 7 bh s'"
    using tripleD [OF getblk_fuel_found [OF d], of s "[]" "fst rd_ctx" "0x101" 7 bh s' "[]"] g inv s(2)
    by (simp add: getblk_def cache_ok_def conforms_def)
  then show ?thesis using that [of s' bh] by (auto simp: Cache.found_def cache_ok_def)
qed

lemma read_demo_held:
  assumes "cache_inv s" and "bh < length (bufs s)" and "bkey s bh = (0x101, 7)"
  shows "cache_inv (read_demo bh s)" and "held (read_demo bh s) 0x101 7 bh"
proof -
  have b: "buf (read_demo bh s) = (buf s)(bh := (buf s bh)\<lparr>b_data := replicate 1024 65, b_lock := 0, b_uptodate := 1, b_count := 1\<rparr>)"
    using assms(2) by (simp add: read_demo_def fun_eq_iff) (simp add: buf_def upd_buf_def nth_upd_nth)
  have len: "length (bufs (read_demo bh s)) = length (bufs s)" "hash_table (read_demo bh s) = hash_table s" "free_list (read_demo bh s) = free_list s"
    by (simp_all add: read_demo_def)
  show "held (read_demo bh s) 0x101 7 bh" using assms(2,3) b len by (simp add: held_def bkey_def)
  show "cache_inv (read_demo bh s)"
    by (rule cache_inv_cong [OF assms(1) len]) (simp_all add: fun_eq_iff link_defs b)
qed

theorem read_returns_file_witness:
  "\<forall>trw. \<exists>s t. sys_read rd_ctx trw 3 0x2000 2000 s [] = Ok 500 t [] \<and> umem t 0x2000 = 65 \<and> umem t 0x2018 = 0 \<and> f_pos (fil t 0) = 1500"
proof
  fix trw
  obtain s0 :: fs_state and bh where s0: "cache_inv s0" "bh < length (bufs s0)" "bkey s0 bh = (0x101, 7)" by (rule block_seven_cached) blast
  let ?s = "read_demo bh s0"
  note held = read_demo_held [OF s0]
  have ino: "ino ?s 0 = zero_inode\<lparr>i_mode := 0x8000, i_size := 1500, i_dev := 0x101, i_zone := [7, 0, 0, 0, 0, 0, 0, 0, 0]\<rparr>"
    "buffer_wait ?s = 0" "mem ?s = (\<lambda>_. 0)" by (simp_all add: read_demo_def ino_def)
  have calm: "calm rd_ctx 0 ?s" using held ino by (simp add: calm_def rd_ctx_def)
  have fm: "file_map ?s 0 0 = 7" "file_map ?s 0 (Suc 0) = 0" by (simp_all add: file_map_def ino Let_def)
  have bh: "block_held ?s 0 0" "block_held ?s 0 1"
    using held(2) by (auto simp: block_held_def map_held_def fm ino)
  have data: "data_of ?s 0x101 7 = replicate 1024 65"
    using data_of_held [OF held(1) _ held(2)] s0(2) by (simp add: read_demo_def) (simp add: buf_def upd_buf_def)
  have "\<exists>t. sys_read rd_ctx trw 3 0x2000 2000 ?s [] = Ok (int 500) t [] \<and> user_bytes t 0x2000 500 = file_bytes ?s 0 1000 500 \<and>
    (\<forall>x. 500 \<le> unat (x - 0x2000) \<longrightarrow> umem t x = umem ?s x) \<and> f_pos (fil t 0) = int (1000 + 500)"
  proof (rule read_returns_file [where i = 0])
    show "verify_area 0x2000 2000 ?s [] = Ok () ?s []" by (rule verify_area_unmapped [OF ino(3)])
    show "\<forall>k. 1000 div 1024 \<le> k \<and> k * 1024 < 1000 + 500 \<longrightarrow> block_held ?s 0 k"
    proof (intro allI impI)
      fix k :: nat
      assume "1000 div 1024 \<le> k \<and> k * 1024 < 1000 + 500"
      then have "k = 0 \<or> k = 1" by auto
      then show "block_held ?s 0 k" using bh by auto
    qed
    show "S_ISREG (i_mode (ino ?s 0))" by (simp add: S_ISREG_def ino)
  qed (simp_all add: calm ino, simp_all add: read_demo_def fd_file_def cur_def fil_def zero_inode_def)
  then obtain t where t: "sys_read rd_ctx trw 3 0x2000 2000 ?s [] = Ok 500 t []" "user_bytes t 0x2000 500 = file_bytes ?s 0 1000 500" "f_pos (fil t 0) = 1500"
    by auto
  have "user_bytes t 0x2000 500 ! 0 = 65" "user_bytes t 0x2000 500 ! 24 = 0"
    unfolding t(2) by (simp_all add: file_bytes_def file_byte_def fm Let_def data ino)
  then show "\<exists>s t. sys_read rd_ctx trw 3 0x2000 2000 s [] = Ok 500 t [] \<and> umem t 0x2000 = 65 \<and> umem t 0x2018 = 0 \<and> f_pos (fil t 0) = 1500"
    using t(1,3) by (intro exI [of _ ?s] exI [of _ t]) (simp add: user_bytes_def)
qed

end
