(* ===== verification/File_write.thy ===== *)
theory File_write
  imports File_io
begin

unbundle bit_operations_syntax

text \<open>
  Writing to a file: \<open>sys_write\<close> (fs/read_write.c) and \<open>file_write\<close> (fs/file_dev.c) refine a write to an abstract file, which is a length
  and a byte at every position. The file of the kernel is the one that \<open>File_io\<close> describes, an inode and blocks of its device.
\<close>

section \<open>The abstract file\<close>

record afile =
  af_size :: nat
  af_byte :: "nat \<Rightarrow> u8"

text \<open>Writing no bytes does not make a file longer.\<close>

definition af_write :: "nat \<Rightarrow> u8 list \<Rightarrow> afile \<Rightarrow> afile" where
  "af_write pos bs a = (if bs = [] then a else a\<lparr>af_size := max (af_size a) (pos + length bs),
     af_byte := (\<lambda>p. if pos \<le> p \<and> p < pos + length bs then bs ! (p - pos) else af_byte a p)\<rparr>)"

definition af_read :: "nat \<Rightarrow> nat \<Rightarrow> afile \<Rightarrow> u8 list" where
  "af_read pos n a = map (af_byte a) [pos..<min (pos + n) (af_size a)]"

lemma af_write_append: "af_write (pos + length bs) cs (af_write pos bs a) = af_write pos (bs @ cs) a"
  by (cases a) (auto simp: af_write_def nth_append fun_eq_iff)

lemma af_read_write: "af_read pos (length bs) (af_write pos bs a) = bs"
  by (rule nth_equalityI) (auto simp: af_read_def af_write_def)

text \<open>The file that an inode is. A file has at most 7 + 512 + 512 * 512 blocks.\<close>

abbreviation max_blocks :: nat where
  "max_blocks \<equiv> 7 + 512 + 512 * 512"

definition file_abs :: "'z fs_state_scheme \<Rightarrow> nat \<Rightarrow> afile" where
  "file_abs s i = \<lparr>af_size = unat (i_size (ino s i)), af_byte = (\<lambda>p. if p div 1024 < max_blocks then file_byte s i p else 0)\<rparr>"

section \<open>Blocks of data and blocks of numbers\<close>

text \<open>The blocks of a file that hold numbers of blocks, and a block that holds data: it is there, it is not
  one of those, and it is in one place of the file only.\<close>

definition meta_block :: "'z fs_state_scheme \<Rightarrow> nat \<Rightarrow> u16 \<Rightarrow> bool" where
  "meta_block s i b \<longleftrightarrow> (let n = ino s i; z = i_zone n in b \<noteq> 0 \<and> (b = z ! 7 \<or> b = z ! 8 \<or>
     z ! 8 \<noteq> 0 \<and> (\<exists>j < 512. b = le16 (data_of s (i_dev n) (ucast (z ! 8))) (2 * j))))"

definition own_block :: "'z fs_state_scheme \<Rightarrow> nat \<Rightarrow> nat \<Rightarrow> bool" where
  "own_block s i k \<longleftrightarrow> (let b = file_map s i k in b \<noteq> 0 \<and> \<not> meta_block s i b \<and> (\<forall>j < max_blocks. file_map s i j = b \<longrightarrow> j = k))"

text \<open>Two states in which a file has the same shape.\<close>

definition same_shape :: "nat \<Rightarrow> 'z fs_state_scheme \<Rightarrow> 'z fs_state_scheme \<Rightarrow> bool" where
  "same_shape i s t \<longleftrightarrow> i_dev (ino t i) = i_dev (ino s i) \<and> i_zone (ino t i) = i_zone (ino s i) \<and> held t = held s \<and>
     (\<forall>b. meta_block s i b \<longrightarrow> data_of t (i_dev (ino s i)) (ucast b) = data_of s (i_dev (ino s i)) (ucast b))"

lemma same_shape_map:
  assumes "same_shape i s t" and "k < max_blocks"
  shows "file_map t i k = file_map s i k" and "map_held t i k = map_held s i k"
proof -
  let ?n = "ino s i"
  let ?z = "i_zone ?n"
  let ?e = "\<lambda>d. le16 (d (i_dev ?n) (ucast (?z ! 8))) (2 * ((k - 519) div 512))"
  have n: "i_dev (ino t i) = i_dev ?n" "i_zone (ino t i) = ?z" "held t = held s" using assms(1) by (simp_all add: same_shape_def)
  have d: "data_of t (i_dev ?n) (ucast b) = data_of s (i_dev ?n) (ucast b)" if "meta_block s i b" for b
    using assms(1) that by (simp add: same_shape_def)
  have z: "data_of t (i_dev ?n) (ucast (?z ! m)) = data_of s (i_dev ?n) (ucast (?z ! m))" if "?z ! m \<noteq> 0" "m = 7 \<or> m = 8" for m
    using that by (intro d) (auto simp: meta_block_def Let_def)
  have e: "data_of t (i_dev ?n) (ucast (?e (data_of s))) = data_of s (i_dev ?n) (ucast (?e (data_of s)))"
    if "?z ! 8 \<noteq> 0" "?e (data_of s) \<noteq> 0" "519 \<le> k"
  proof (rule d)
    have "(k - 519) div 512 < 512" using assms(2) by (intro less_mult_imp_div_less) simp
    then show "meta_block s i (?e (data_of s))" using that by (auto simp: meta_block_def Let_def)
  qed
  show "file_map t i k = file_map s i k" using z [of 7] z [of 8] e by (simp add: file_map_def n Let_def)
  show "map_held t i k = map_held s i k" using z [of 8] by (cases "?z ! 8 = 0") (simp_all add: map_held_def n Let_def)
qed

lemma same_shape_meta:
  assumes "same_shape i s t"
  shows "meta_block t i = meta_block s i"
proof -
  let ?n = "ino s i"
  have "data_of t (i_dev ?n) (ucast (i_zone ?n ! 8)) = data_of s (i_dev ?n) (ucast (i_zone ?n ! 8))" if "i_zone ?n ! 8 \<noteq> 0"
    using assms that by (auto simp: same_shape_def meta_block_def Let_def)
  then show ?thesis using assms by (auto simp: fun_eq_iff same_shape_def meta_block_def Let_def)
qed

lemma same_shape_blocks:
  assumes "same_shape i s t" and "k < max_blocks"
  shows "block_held t i k = block_held s i k" and "own_block t i k = own_block s i k"
  using same_shape_map [OF assms(1)] same_shape_meta [OF assms(1)] assms
  by (auto simp: block_held_def own_block_def Let_def same_shape_def)

lemma same_shape_trans:
  assumes "same_shape i s t" and "same_shape i t r"
  shows "same_shape i s r"
  using assms same_shape_meta [OF assms(1)] by (simp add: same_shape_def)

section \<open>Writing into one block\<close>

definition put_block :: "nat \<Rightarrow> nat \<Rightarrow> u8 list \<Rightarrow> 'z blk_state_scheme \<Rightarrow> 'z blk_state_scheme" where
  "put_block bh off bs = upd_buf bh (\<lambda>b. b\<lparr>b_data := overlay off bs (b_data b), b_dirt := 1\<rparr>)"

lemma nth_overlay_cases:
  assumes "off + length new \<le> length bs" and "j < length bs"
  shows "overlay off new bs ! j = (if off \<le> j \<and> j < off + length new then new ! (j - off) else bs ! j)"
  using assms by (auto simp: overlay_def nth_append)

lemma bufs_view:
  assumes "bufs t = bufs s"
  shows "held t = held s" and "data_of t = data_of s"
proof -
  have "buf t = buf s" using assms by (simp add: fun_eq_iff buf_def)
  then show "held t = held s" "data_of t = data_of s" by (intro ext, simp only: held_def data_of_def bkey_def assms)+
qed

lemma put_block_view:
  assumes "cache_inv s" and "dev \<noteq> 0" and "held s dev b bh" and "off + length bs \<le> 1024"
  shows "cache_inv (put_block bh off bs s)" and "held (put_block bh off bs s) = held s"
    and "data_of (put_block bh off bs s) d x = (if d = dev \<and> x = b then overlay off bs (data_of s dev b) else data_of s d x)"
proof -
  let ?t = "put_block bh off bs s"
  have bh: "bh < length (bufs s)" "bkey s bh = (dev, b)" "length (b_data (buf s bh)) = 1024" using assms(3) by (simp_all add: held_def)
  have buf: "buf ?t = (buf s)(bh := (buf s bh)\<lparr>b_data := overlay off bs (b_data (buf s bh)), b_dirt := 1\<rparr>)"
    unfolding put_block_def by (rule buf_upd_buf [OF bh(1)])
  have len: "length (bufs ?t) = length (bufs s)" "hash_table ?t = hash_table s" "free_list ?t = free_list s" by (simp_all add: put_block_def)
  show inv: "cache_inv ?t" by (rule cache_inv_cong [OF assms(1) len]) (simp_all add: fun_eq_iff link_defs buf)
  show held: "held ?t = held s" using bh(3) assms(4) by (intro ext) (auto simp: held_def len buf bkey_def)
  show "data_of ?t d x = (if d = dev \<and> x = b then overlay off bs (data_of s dev b) else data_of s d x)"
  proof (cases "d = dev \<and> x = b")
    case True
    then show ?thesis using data_of_held [OF inv assms(2)] data_of_held [OF assms(1-3)] assms(3) held by (simp add: buf)
  next
    case False
    have "find (\<lambda>j. b_dev (buf ?t j) = d \<and> b_blocknr (buf ?t j) = x) js = find (\<lambda>j. b_dev (buf s j) = d \<and> b_blocknr (buf s j) = x) js" for js
      by (rule arg_cong [where f = "\<lambda>P. find P js"]) (auto simp: buf fun_eq_iff)
    moreover have "j \<noteq> bh" if "find (\<lambda>j. b_dev (buf s j) = d \<and> b_blocknr (buf s j) = x) js = Some j" for j js
      using that False bh(2) by (auto simp: find_Some_iff bkey_def)
    ultimately show ?thesis using False by (auto simp: data_of_def len buf split: option.split)
  qed
qed

section \<open>What a write does\<close>

text \<open>The blocks that a write to a part of the file may change.\<close>

definition touched :: "'z fs_state_scheme \<Rightarrow> nat \<Rightarrow> nat \<Rightarrow> nat \<Rightarrow> u16 \<Rightarrow> u32 \<Rightarrow> bool" where
  "touched s i pos n d x \<longleftrightarrow> d = i_dev (ino s i) \<and>
     (\<exists>k < max_blocks. pos div 1024 \<le> k \<and> k * 1024 < pos + n \<and> x = ucast (file_map s i k))"

definition written :: "nat \<Rightarrow> nat \<Rightarrow> u8 list \<Rightarrow> 'z fs_state_scheme \<Rightarrow> 'z fs_state_scheme \<Rightarrow> bool" where
  "written i pos bs s t \<longleftrightarrow> file_abs t i = af_write pos bs (file_abs s i) \<and> same_shape i s t \<and>
     (cache_inv s \<longrightarrow> cache_inv t) \<and> buffer_wait t = buffer_wait s \<and> umem t = umem s \<and> file_table t = file_table s \<and>
     length (inode_table t) = length (inode_table s) \<and> (\<forall>j. j \<noteq> i \<longrightarrow> ino t j = ino s j) \<and>
     (\<forall>d x. \<not> touched s i pos (length bs) d x \<longrightarrow> data_of t d x = data_of s d x)"

lemma written_calm: "written i pos bs s t \<Longrightarrow> calm K i s \<Longrightarrow> calm K i t"
  by (auto simp: written_def calm_def same_shape_def)

lemma written_refl: "written i pos [] s s"
  by (simp add: written_def same_shape_def af_write_def)

lemma written_append:
  assumes "written i pos bs s r" and "written i (pos + length bs) cs r t"
  shows "written i pos (bs @ cs) s t"
proof -
  have shape: "same_shape i s r" using assms(1) by (simp add: written_def)
  have "touched s i pos (length bs) d x \<Longrightarrow> touched s i pos (length (bs @ cs)) d x" for d x by (fastforce simp: touched_def)
  moreover have "touched s i pos (length (bs @ cs)) d x" if "touched r i (pos + length bs) (length cs) d x" for d x
    using that shape same_shape_map(1) [OF shape] div_le_mono [of pos "pos + length bs" 1024]
    by (fastforce simp: touched_def same_shape_def add.assoc)
  ultimately show ?thesis
    using assms same_shape_trans [of i s r t] unfolding written_def by (metis af_write_append)
qed

definition grow :: "nat \<Rightarrow> m_inode \<Rightarrow> m_inode" where
  "grow p n = (if (word_of_int (int p) :: u32) > i_size n then n\<lparr>i_size := word_of_int (int p), i_dirt := 1\<rparr> else n)"

lemma grow_simps [simp]:
  "i_dev (grow p n) = i_dev n" "i_zone (grow p n) = i_zone n" "p < 2 ^ 32 \<Longrightarrow> unat (i_size (grow p n)) = max (unat (i_size n)) p"
  by (auto simp: grow_def max_def unat_of_nat word_less_nat_alt)

lemma ino_other [simp]: "j \<noteq> i \<Longrightarrow> ino (upd_ino i g s) j = ino s j"
  by (simp add: ino_def upd_ino_def)

lemma put_block_rest [simp]:
  "ino (put_block bh off bs s) = ino s" "inode_table (put_block bh off bs s) = inode_table s" "umem (put_block bh off bs s) = umem s"
  "file_table (put_block bh off bs s) = file_table s" "buffer_wait (put_block bh off bs s) = buffer_wait s"
  by (simp_all add: put_block_def upd_buf_def ino_def fun_eq_iff)

text \<open>One block of it.\<close>

definition wrote_block :: "nat \<Rightarrow> nat \<Rightarrow> nat \<Rightarrow> u8 list \<Rightarrow> 'z fs_state_scheme \<Rightarrow> 'z fs_state_scheme" where
  "wrote_block i bh pos bs s = put_block bh (pos mod 1024) bs (upd_ino i (grow (pos + length bs)) s)"

lemma wrote_block_view:
  assumes "calm K i s" and "held s (i_dev (ino s i)) (ucast b) bh" and "pos mod 1024 + length bs \<le> 1024"
  shows "cache_inv (wrote_block i bh pos bs s)" and "held (wrote_block i bh pos bs s) = held s"
    and "data_of (wrote_block i bh pos bs s) d x = (if d = i_dev (ino s i) \<and> x = ucast b
      then overlay (pos mod 1024) bs (data_of s (i_dev (ino s i)) (ucast b)) else data_of s d x)"
proof -
  let ?r = "upd_ino i (grow (pos + length bs)) s"
  have bufs: "bufs ?r = bufs s" "hash_table ?r = hash_table s" "free_list ?r = free_list s" by (simp_all add: upd_ino_def)
  note v = bufs_view [OF bufs(1)]
  have inv: "cache_inv ?r" using assms(1) cache_ok_cong [OF bufs, of "length (bufs s)"] bufs by (simp add: calm_def cache_ok_def)
  have "i_dev (ino s i) \<noteq> 0" using assms(1) by (simp add: calm_def)
  note p = put_block_view [OF inv this _ assms(3), unfolded v, OF assms(2)]
  show "cache_inv (wrote_block i bh pos bs s)" "held (wrote_block i bh pos bs s) = held s"
    "data_of (wrote_block i bh pos bs s) d x = (if d = i_dev (ino s i) \<and> x = ucast b
      then overlay (pos mod 1024) bs (data_of s (i_dev (ino s i)) (ucast b)) else data_of s d x)"
    unfolding wrote_block_def using p by simp_all
qed

lemma zone_number_inj: "(ucast (a :: u16) :: u32) = ucast b \<longleftrightarrow> a = b"
proof
  have e: "ucast (ucast c :: u32) = c" for c :: u16 by (rule bit_word_eqI) (simp add: bit_ucast_iff)
  assume "(ucast a :: u32) = ucast b"
  then show "a = b" by (metis e)
qed simp

lemma wrote_block_shape:
  assumes "calm K i s" and "held s (i_dev (ino s i)) (ucast (file_map s i k)) bh" and "own_block s i k" and "i < length (inode_table s)"
    and "pos mod 1024 + length bs \<le> 1024"
  shows "same_shape i s (wrote_block i bh pos bs s)"
proof -
  note v = wrote_block_view [OF assms(1,2,5)]
  have "ucast b \<noteq> (ucast (file_map s i k) :: u32)" if "meta_block s i b" for b
    using assms(3) that by (auto simp: own_block_def Let_def zone_number_inj)
  moreover have "i_dev (ino (wrote_block i bh pos bs s) i) = i_dev (ino s i)" "i_zone (ino (wrote_block i bh pos bs s) i) = i_zone (ino s i)"
    using assms(4) by (simp_all add: wrote_block_def)
  ultimately show ?thesis by (simp add: same_shape_def v)
qed

text \<open>A position and a range that stays in its block.\<close>

lemma in_block:
  fixes p pos n :: nat
  assumes "pos mod 1024 + n \<le> 1024" and "0 < n"
  shows "pos \<le> p \<and> p < pos + n \<longleftrightarrow> p div 1024 = pos div 1024 \<and> pos mod 1024 \<le> p mod 1024 \<and> p mod 1024 < pos mod 1024 + n"
    and "p div 1024 = pos div 1024 \<Longrightarrow> p mod 1024 - pos mod 1024 = p - pos"
proof -
  define a b c d where "a = p div 1024" and "b = p mod 1024" and "c = pos div 1024" and "d = pos mod 1024"
  have e: "p = 1024 * a + b" "pos = 1024 * c + d" "b < 1024" "d < 1024" by (simp_all add: a_def b_def c_def d_def)
  have d: "d + n \<le> 1024" using assms(1) by (simp add: d_def)
  show "pos \<le> p \<and> p < pos + n \<longleftrightarrow> p div 1024 = pos div 1024 \<and> pos mod 1024 \<le> p mod 1024 \<and> p mod 1024 < pos mod 1024 + n"
    unfolding a_def [symmetric] b_def [symmetric] c_def [symmetric] d_def [symmetric]
    using e d assms(2) by (cases a c rule: linorder_cases) auto
  show "p mod 1024 - pos mod 1024 = p - pos" if "p div 1024 = pos div 1024"
    using that e unfolding a_def [symmetric] b_def [symmetric] c_def [symmetric] d_def [symmetric] by simp
qed

lemma wrote_block_bytes:
  assumes "calm K i s" and "held s (i_dev (ino s i)) (ucast (file_map s i (pos div 1024))) bh" and "own_block s i (pos div 1024)"
    and "i < length (inode_table s)" and "pos mod 1024 + length bs \<le> 1024" and "bs \<noteq> []" and "p div 1024 < max_blocks"
  shows "file_byte (wrote_block i bh pos bs s) i p = (if pos \<le> p \<and> p < pos + length bs then bs ! (p - pos) else file_byte s i p)"
proof -
  let ?t = "wrote_block i bh pos bs s"
  let ?k = "pos div 1024" and ?dev = "i_dev (ino s i)"
  have map: "file_map ?t i (p div 1024) = file_map s i (p div 1024)"
    by (rule same_shape_map [OF wrote_block_shape [OF assms(1-5)] assms(7)])
  have dev: "i_dev (ino ?t i) = ?dev" using assms(4) by (simp add: wrote_block_def)
  note data = wrote_block_view(3) [OF assms(1,2,5)]
  have own: "file_map s i ?k \<noteq> 0" "file_map s i (p div 1024) = file_map s i ?k \<Longrightarrow> p div 1024 = ?k"
    using assms(3,7) by (auto simp: own_block_def Let_def)
  have n: "0 < length bs" using assms(6) by simp
  show ?thesis
  proof (cases "p div 1024 = ?k")
    case True
    have "length (data_of s ?dev (ucast (file_map s i ?k))) = 1024"
      using data_of_held [OF _ _ assms(2)] assms(1,2) by (simp add: calm_def held_def)
    then show ?thesis
      using nth_overlay_cases [of "pos mod 1024" bs _ "p mod 1024"] in_block [OF assms(5) n, of p] assms(5) own(1) True
      by (simp add: file_byte_def map [unfolded True] dev data Let_def)
  next
    case False
    then show ?thesis
      using own(2) in_block(1) [OF assms(5) n, of p] by (auto simp: file_byte_def map dev data Let_def zone_number_inj)
  qed
qed

lemma wrote_block_written:
  assumes "calm K i s" and "held s (i_dev (ino s i)) (ucast (file_map s i (pos div 1024))) bh" and "own_block s i (pos div 1024)"
    and "i < length (inode_table s)" and "pos mod 1024 + length bs \<le> 1024" and "bs \<noteq> []" and "pos div 1024 < max_blocks"
    and "pos + length bs < 2 ^ 32"
  shows "written i pos bs s (wrote_block i bh pos bs s)"
proof -
  let ?t = "wrote_block i bh pos bs s"
  note v = wrote_block_view [OF assms(1,2,5)]
  have ino: "ino ?t i = grow (pos + length bs) (ino s i)" using assms(4) by (simp add: wrote_block_def)
  have "touched s i pos (length bs) (i_dev (ino s i)) (ucast (file_map s i (pos div 1024)))"
    using assms(6,7) div_times_less_eq_dividend [of pos 1024] unfolding touched_def
    by (intro conjI exI [of _ "pos div 1024"]) (simp_all add: le_less_trans [OF _ less_add_same_cancel1 [THEN iffD2]])
  then have "data_of ?t d x = data_of s d x" if "\<not> touched s i pos (length bs) d x" for d x using that v(3) by auto
  moreover have "file_abs ?t i = af_write pos bs (file_abs s i)"
    using wrote_block_bytes [OF assms(1-6)] in_block(1) [OF assms(5), of _ ] assms(6-8)
    by (auto simp: file_abs_def af_write_def ino fun_eq_iff)
  ultimately show ?thesis
    using v(1) wrote_block_shape [OF assms(1-5)] by (simp add: written_def) (simp add: wrote_block_def upd_ino_def ino_def)
qed

section \<open>The loop\<close>

lemma use_more_wrote_block:
  "put_block bh (pos mod 1024) bs (upd_ino i (grow (pos + length bs)) (use_more bh s)) = use_more bh (wrote_block i bh pos bs s)"
proof -
  let ?d = "overlay (pos mod 1024) bs"
  have "(\<lambda>b :: buffer_head. b\<lparr>b_data := ?d (b_data b), b_dirt := 1\<rparr>) \<circ> (\<lambda>b. b\<lparr>b_count := b_count b + 1\<rparr>) =
    (\<lambda>b. b\<lparr>b_count := b_count b + 1\<rparr>) \<circ> (\<lambda>b. b\<lparr>b_data := ?d (b_data b), b_dirt := 1\<rparr>)"
    by (simp add: fun_eq_iff)
  then show ?thesis by (simp add: wrote_block_def put_block_def upd_buf_def upd_ino_def)
qed

lemma write_pass:
  fixes s :: "'z fs_state_scheme"
  assumes "calm K i s" and "block_held s i (pos div 1024)" and "own_block s i (pos div 1024)"
    and "k < count" and "c = min (1024 - pos mod 1024) (count - k)" and "bs = user_bytes s u c"
  shows "\<exists>bh. held s (i_dev (ino s i)) (ucast (file_map s i (pos div 1024))) bh \<and>
    file_write_loop (Suc n) K i u (int count) (int pos) (int k) s es =
    file_write_loop n K i (u + of_nat c) (int count) (int (pos + c)) (int (k + c)) (wrote_block i bh pos bs s) es"
proof -
  let ?k = "pos div 1024" and ?off = "pos mod 1024"
  define m where "m = file_map s i ?k"
  have m: "m \<noteq> 0" using assms(3) by (simp add: own_block_def m_def Let_def)
  obtain bh where bh: "held s (i_dev (ino s i)) (ucast m) bh" using assms(2) m by (auto simp: block_held_def m_def)
  let ?t = "wrote_block i bh pos bs s"
  have calm: "cache_inv s" "buffer_wait s = 0" "1 < fst K" "i_dev (ino s i) \<noteq> 0" using assms(1) by (simp_all add: calm_def)
  have blk: "create_diskBlock K i (cdiv (int pos) 1024) s es = Ok (uint m) s es"
    using bmap_reads [OF assms(1), of ?k True es] assms(2) m by (simp add: create_diskBlock_def m_def zdiv_int block_held_def)
  have um: "uint m \<noteq> 0" using m by (simp add: uint_0_iff)
  have wm: "word_of_int (uint m) = (ucast m :: u32)" by (rule ucast_eq [symmetric])
  have br: "bread K (i_dev (ino s i)) (ucast m) s es = Ok (Some bh) (use_more bh s) es" by (rule bread_held [OF calm(1,4,3) bh])
  have off: "crem (int pos) 1024 = int ?off" by (simp add: zmod_int)
  have "min (1024 - int o') (int l - int j) = int (min (1024 - o') (l - j))" if "o' < 1024" "j < l" for o' l j
    using that by (simp add: of_nat_diff of_nat_min)
  then have c: "min (1024 - int ?off) (int count - int k) = int c" using assms(4,5) by simp
  have bs: "length bs = c" "user_bytes (upd_ino i g (use_more bh s)) u c = bs" for g
    using assms(6) by (simp_all add: user_bytes_def upd_ino_def upd_buf_def)
  have put: "upd_buf bh (\<lambda>b. b\<lparr>b_data := overlay ?off bs (b_data b), b_dirt := 1\<rparr>) (upd_ino i (\<lambda>n. if (word_of_int (int (pos + c)) :: u32) > i_size n
      then n\<lparr>i_size := word_of_int (int (pos + c)), i_dirt := 1\<rparr> else n) (use_more bh s)) = use_more bh ?t"
    using use_more_wrote_block [of bh pos bs i s] by (simp only: put_block_def grow_def [abs_def] bs(1))
  have "?off < 1024" "c \<le> 1024 - ?off" using assms(5) by simp_all
  then have "?off + length bs \<le> 1024" using bs(1) by linarith
  then have "held ?t (i_dev (ino s i)) (ucast m) bh" using wrote_block_view(2) [OF assms(1) bh, of pos bs] bh by simp
  moreover have "buffer_wait ?t = 0" using calm(2) by (simp add: wrote_block_def upd_ino_def)
  ultimately have rel: "brelse (Some bh) (use_more bh ?t) es = Ok () ?t es" by (rule brelse_held)
  have "\<not> int count \<le> int k" "word_of_int (int c) = (of_nat c :: u32)" "int pos + int c = int (pos + c)" "int k + int c = int (k + c)"
    using assms(4) by simp_all
  then have "file_write_loop (Suc n) K i u (int count) (int pos) (int k) s es =
      file_write_loop n K i (u + of_nat c) (int count) (int (pos + c)) (int (k + c)) ?t es"
    unfolding file_write_loop.simps(2)
    by (simp only: kbind_def kseq_def gets_def modify_def Let_def if_False blk outcome.case um wm option.case br off c nat_int bs(2) put rel)
  then show ?thesis using bh by (auto simp: m_def)
qed

lemma file_write_loop_run:
  fixes s :: "'z fs_state_scheme"
  assumes "calm K i s" and "i < length (inode_table s)"
    and "\<And>j. pos div 1024 \<le> j \<Longrightarrow> j * 1024 < pos + (count - k) \<Longrightarrow> block_held s i j \<and> own_block s i j"
    and "k \<le> count" and "count - k \<le> n" and "pos + (count - k) < 2 ^ 32"
  shows "\<exists>t. file_write_loop n K i u (int count) (int pos) (int k) s es = Ok (int (pos + (count - k)), int count) t es \<and>
    written i pos (user_bytes s u (count - k)) s t"
  using assms
proof (induction n arbitrary: s u pos k)
  case 0
  then have "k = count" by simp
  then show ?case by (auto simp: ret_def user_bytes_def intro: written_refl)
next
  case (Suc n)
  show ?case
  proof (cases "k = count")
    case True
    then show ?thesis by (auto simp: ret_def user_bytes_def intro: written_refl)
  next
    case False
    then have k: "k < count" using Suc.prems(4) by simp
    define c where "c = min (1024 - pos mod 1024) (count - k)"
    define bs where "bs = user_bytes s u c"
    have "pos mod 1024 < 1024" by simp
    then have c: "0 < c" "c \<le> count - k" "pos mod 1024 + c \<le> 1024" "length bs = c" using k by (simp_all add: c_def bs_def user_bytes_def)
    have b: "block_held s i (pos div 1024)" "own_block s i (pos div 1024)"
      using Suc.prems(3) [of "pos div 1024"] k div_times_less_eq_dividend [of pos 1024] by simp_all
    from write_pass [OF Suc.prems(1) b k c_def bs_def, of n es] obtain bh where
      bh: "held s (i_dev (ino s i)) (ucast (file_map s i (pos div 1024))) bh" and
      run: "file_write_loop (Suc n) K i u (int count) (int pos) (int k) s es =
        file_write_loop n K i (u + of_nat c) (int count) (int (pos + c)) (int (k + c)) (wrote_block i bh pos bs s) es" by blast
    define r where "r = wrote_block i bh pos bs s"
    have w: "written i pos bs s r" unfolding r_def
      using b c Suc.prems(6) by (intro wrote_block_written [OF Suc.prems(1) bh b(2) Suc.prems(2)]) (auto simp: block_held_def)
    have shape: "same_shape i s r" using w by (simp add: written_def)
    have "\<exists>t. file_write_loop n K i (u + of_nat c) (int count) (int (pos + c)) (int (k + c)) r es =
        Ok (int (pos + c + (count - (k + c))), int count) t es \<and> written i (pos + c) (user_bytes r (u + of_nat c) (count - (k + c))) r t"
    proof (rule Suc.IH)
      show "calm K i r" using w Suc.prems(1) by (rule written_calm)
      show "i < length (inode_table r)" using w Suc.prems(2) by (simp add: written_def)
      show "k + c \<le> count" "count - (k + c) \<le> n" "pos + c + (count - (k + c)) < 2 ^ 32" using c Suc.prems(4-6) by auto
      fix j
      assume j: "(pos + c) div 1024 \<le> j" "j * 1024 < pos + c + (count - (k + c))"
      have "block_held s i j \<and> own_block s i j"
        using Suc.prems(3) [of j] j c(2) div_le_mono [of pos "pos + c" 1024] by simp
      then show "block_held r i j \<and> own_block r i j"
        using same_shape_blocks [OF shape, of j] by (simp add: block_held_def)
    qed
    then obtain t where t: "file_write_loop n K i (u + of_nat c) (int count) (int (pos + c)) (int (k + c)) r es =
        Ok (int (pos + c + (count - (k + c))), int count) t es" "written i (pos + c) (user_bytes r (u + of_nat c) (count - (k + c))) r t"
      by blast
    have e: "count - k = c + (count - (k + c))" using c(2) by simp
    have "umem r = umem s" using w by (simp add: written_def)
    then have bytes: "user_bytes s u (count - k) = bs @ user_bytes r (u + of_nat c) (count - (k + c))"
      using user_bytes_split [of "int c" "int (count - (k + c))" s u] unfolding e bs_def by (simp add: user_bytes_def nat_add_distrib)
    have "written i pos (user_bytes s u (count - k)) s t"
      unfolding bytes by (rule written_append [OF w]) (use t(2) c(4) in simp)
    moreover have "int (pos + c + (count - (k + c))) = int (pos + (count - k))" using c(2) by simp
    ultimately show ?thesis using run [folded r_def] t(1) by metis
  qed
qed

section \<open>The system call\<close>

text \<open>The times of an inode and the position of a descriptor are not part of the file.\<close>

lemma file_abs_same:
  fixes s t :: "'z fs_state_scheme"
  assumes "bufs t = bufs s" and "i_dev (ino t i) = i_dev (ino s i)" and "i_zone (ino t i) = i_zone (ino s i)" and "i_size (ino t i) = i_size (ino s i)"
  shows "file_abs t i = file_abs s i"
proof -
  note v = bufs_view [OF assms(1)]
  have "same_shape i s t" using assms v by (simp add: same_shape_def)
  note m = same_shape_map(1) [OF this]
  show ?thesis using assms(2,4) m by (simp add: file_abs_def file_byte_def fun_eq_iff v Let_def)
qed

definition stamped :: "nat \<Rightarrow> nat \<Rightarrow> bool \<Rightarrow> int \<Rightarrow> 'z fs_state_scheme \<Rightarrow> 'z fs_state_scheme" where
  "stamped i f app pos s = (let t = upd_ino i (\<lambda>n. n\<lparr>i_mtime := word_of_int (CURRENT_TIME s)\<rparr>) s in
     if app then t else upd_ino i (\<lambda>n. n\<lparr>i_ctime := word_of_int (CURRENT_TIME t)\<rparr>) (upd_fil f (\<lambda>x. x\<lparr>f_pos := pos\<rparr>) t))"

lemma stamped_rest:
  assumes "i < length (inode_table s)" and "f < length (file_table s)"
  shows "file_abs (stamped i f app pos s) i = file_abs s i" and "data_of (stamped i f app pos s) = data_of s"
    and "umem (stamped i f app pos s) = umem s" and "j \<noteq> i \<Longrightarrow> ino (stamped i f app pos s) j = ino s j"
    and "f_pos (fil (stamped i f app pos s) f) = (if app then f_pos (fil s f) else pos)"
proof -
  have b: "bufs (stamped i f app pos s) = bufs s" by (simp add: stamped_def Let_def upd_ino_def upd_fil_def)
  then show "data_of (stamped i f app pos s) = data_of s" by (rule bufs_view)
  show "file_abs (stamped i f app pos s) i = file_abs s i"
    using assms(1) b by (intro file_abs_same) (simp_all add: stamped_def Let_def upd_ino_def upd_fil_def ino_def)
  show "umem (stamped i f app pos s) = umem s" by (simp add: stamped_def Let_def upd_ino_def upd_fil_def)
  show "ino (stamped i f app pos s) j = ino s j" if "j \<noteq> i" using that by (simp add: stamped_def Let_def upd_ino_def upd_fil_def ino_def)
  show "f_pos (fil (stamped i f app pos s) f) = (if app then f_pos (fil s f) else pos)"
    using assms(2) by (simp add: stamped_def Let_def upd_ino_def upd_fil_def fil_def)
qed

definition write_pos :: "'z fs_state_scheme \<Rightarrow> nat \<Rightarrow> nat \<Rightarrow> int" where
  "write_pos s i f = (if f_flags (fil s f) AND O_APPEND \<noteq> 0 then int (unat (i_size (ino s i))) else f_pos (fil s f))"

lemma file_write_run:
  assumes "calm K i s" and "i < length (inode_table s)" and "f < length (file_table s)" and "write_pos s i f = int pos"
    and "unat (i_size (ino s i)) < 2 ^ 31" and "0 < n" and "pos + n < 2 ^ 32"
    and "\<And>k. pos div 1024 \<le> k \<Longrightarrow> k * 1024 < pos + n \<Longrightarrow> block_held s i k \<and> own_block s i k"
  shows "\<exists>t. file_write K i f u (int n) s es = Ok (int n) (stamped i f (f_flags (fil s f) AND O_APPEND \<noteq> 0) (int (pos + n)) t) es \<and>
    written i pos (user_bytes s u n) s t"
proof -
  let ?app = "f_flags (fil s f) AND O_APPEND \<noteq> 0"
  obtain t where t: "file_write_loop n K i u (int n) (int pos) 0 s es = Ok (int (pos + n), int n) t es" "written i pos (user_bytes s u n) s t"
    using file_write_loop_run [of K i s pos n 0 n u es] assms by auto
  have "sint z = int (unat z)" if "unat z < 2 ^ 31" for z :: u32
  proof -
    have "int (unat z) < int (2 ^ 31)" using that by (simp only: of_nat_less_iff)
    moreover have "- 2147483648 \<le> uint z" by (rule order_trans [OF _ uint_ge_0]) simp
    ultimately show ?thesis by (simp add: sint_uint signed_take_bit_int_eq_self)
  qed
  then have p: "(if ?app then sint (i_size (ino s i)) else f_pos (fil s f)) = int pos" using assms(4,5) by (auto simp: write_pos_def split: if_splits)
  have "fil t f = fil s f" using t(2) by (simp add: written_def fil_def)
  moreover have "fil (upd_ino i g t) = fil t" for g by (simp add: upd_ino_def fil_def fun_eq_iff)
  ultimately have "file_write K i f u (int n) s es = Ok (int n) (stamped i f ?app (int (pos + n)) t) es"
    using assms(6) unfolding file_write_def
    by (simp only: kbind_def gets_def p outcome.case nat_int t(1) fst_conv snd_conv) (simp add: kern_defs stamped_def Let_def)
  then show ?thesis using t(2) by blast
qed

text \<open>C15: writing to a regular file, from the system call to the buffers, refines a write to the abstract file. If the blocks in question
  are there, in the cache, free to use, and each in one place of the file, the call returns at once the number of bytes
  asked for; the file has the user's bytes from the position on (from its end on, if the descriptor appends), is as long as
  before or as far as it was written, and is otherwise unchanged. No other inode, no other block of any device and no user memory has
  changed. The position moves by as much, or not at all if the descriptor appends.\<close>

theorem write_refines_file:
  fixes s :: "'z fs_state_scheme"
  assumes "fd_file s fd = Some f" and "f < length (file_table s)" and "f_inode (fil s f) = Some i" and "i < length (inode_table s)"
    and "i_pipe (ino s i) = 0" and "S_ISREG (i_mode (ino s i))" and "write_pos s i f = int pos" and "unat (i_size (ino s i)) < 2 ^ 31"
    and "0 < n" and "pos + n < 2 ^ 31" and "calm K i s"
    and "\<forall>k. pos div 1024 \<le> k \<and> k * 1024 < pos + n \<longrightarrow> block_held s i k \<and> own_block s i k"
  shows "\<exists>t. sys_write K trw fd u (int n) s es = Ok (int n) t es \<and>
    file_abs t i = af_write pos (user_bytes s u n) (file_abs s i) \<and>
    f_pos (fil t f) = (if f_flags (fil s f) AND O_APPEND \<noteq> 0 then f_pos (fil s f) else int (pos + n)) \<and>
    (\<forall>j. j \<noteq> i \<longrightarrow> ino t j = ino s j) \<and> (\<forall>d x. \<not> touched s i pos n d x \<longrightarrow> data_of t d x = data_of s d x) \<and> umem t = umem s"
proof -
  let ?app = "f_flags (fil s f) AND O_APPEND \<noteq> 0"
  have "pos + n < 2 ^ 32" using assms(10) by simp
  then obtain t where t: "file_write K i f u (int n) s es = Ok (int n) (stamped i f ?app (int (pos + n)) t) es" "written i pos (user_bytes s u n) s t"
    using file_write_run [OF assms(11,4,2,7,8,9), of u es] assms(12) by blast
  have reg: "\<not> S_ISCHR (i_mode (ino s i))" "\<not> S_ISBLK (i_mode (ino s i))" using assms(6) by (auto simp: S_ISREG_def S_ISCHR_def S_ISBLK_def)
  have run: "sys_write K trw fd u (int n) s es = file_write K i f u (int n) s es"
    using assms(1,3,5,6,9) reg by (simp add: sys_write_def kbind_def gets_def Let_def)
  have len: "i < length (inode_table t)" "f < length (file_table t)" "fil t f = fil s f" using t(2) assms(2,4) by (simp_all add: written_def fil_def)
  show ?thesis
    using t(2) stamped_rest [OF len(1,2)] len(3) unfolding run t(1) written_def by (auto simp: user_bytes_def)
qed

text \<open>Twenty letters Z at position 1000 of the file of 1500 bytes.\<close>

definition write_demo :: "nat \<Rightarrow> fs_state \<Rightarrow> fs_state" where
  "write_demo bh s = moved (\<lambda>_. 90) (file_table (read_demo bh s)) (read_demo bh s)"

lemma write_demo_file:
  assumes "cache_inv s" and "bh < length (bufs s)" and "bkey s bh = (0x101, 7)"
  shows "calm rd_ctx 0 (write_demo bh s)" and "block_held (write_demo bh s) 0 0" and "own_block (write_demo bh s) 0 0"
    and "file_byte (write_demo bh s) 0 999 = 65"
proof -
  let ?r = "read_demo bh s"
  note held = read_demo_held [OF assms]
  have ino: "ino ?r 0 = zero_inode\<lparr>i_mode := 0x8000, i_size := 1500, i_dev := 0x101, i_zone := [7, 0, 0, 0, 0, 0, 0, 0, 0]\<rparr>" "buffer_wait ?r = 0"
    by (simp_all add: read_demo_def ino_def)
  show "calm rd_ctx 0 (write_demo bh s)" using held ino by (simp add: write_demo_def calm_def [of _ _ ?r] rd_ctx_def)
  have fm: "file_map ?r 0 0 = 7" by (simp add: file_map_def ino Let_def)
  then show "block_held (write_demo bh s) 0 0" using held(2) by (auto simp: write_demo_def block_held_def map_held_def ino)
  have "[7, 0, 0, 0, 0, 0, 0, 0, 0 :: u16] ! k = 0" if "0 < k" "k < 7" for k
    using that by (cases k) (auto simp: less_Suc_eq numeral_eq_Suc)
  then have "file_map ?r 0 k \<noteq> 7" if "0 < k" for k using that by (auto simp: file_map_def ino Let_def)
  moreover have "ino (write_demo bh s) = ino ?r" "file_map (write_demo bh s) = file_map ?r" "data_of (write_demo bh s) = data_of ?r"
    by (simp_all add: write_demo_def)
  ultimately show "own_block (write_demo bh s) 0 0" using fm by (auto simp: own_block_def meta_block_def Let_def ino)
  have "data_of ?r 0x101 7 = replicate 1024 65"
    using data_of_held [OF held(1) _ held(2)] assms(2) by (simp add: read_demo_def) (simp add: buf_def upd_buf_def)
  then show "file_byte (write_demo bh s) 0 999 = 65" by (simp add: write_demo_def file_byte_def fm ino)
qed

theorem write_refines_file_witness:
  "\<forall>trw. \<exists>s t. sys_write rd_ctx trw 3 0x2000 20 s [] = Ok 20 t [] \<and> af_size (file_abs t 0) = 1500 \<and>
    af_read 999 3 (file_abs t 0) = [65, 90, 90] \<and> f_pos (fil t 0) = 1020"
proof
  fix trw
  obtain s0 :: fs_state and bh where s0: "cache_inv s0" "bh < length (bufs s0)" "bkey s0 bh = (0x101, 7)" by (rule block_seven_cached) blast
  let ?s = "write_demo bh s0"
  note d = write_demo_file [OF s0]
  have s: "fd_file ?s 3 = Some 0" "file_table ?s = [\<lparr>f_mode = 1, f_flags = 0, f_count = 1, f_inode = Some 0, f_pos = 1000\<rparr>]"
    "ino ?s 0 = zero_inode\<lparr>i_mode := 0x8000, i_size := 1500, i_dev := 0x101, i_zone := [7, 0, 0, 0, 0, 0, 0, 0, 0]\<rparr>"
    "length (inode_table ?s) = 1" "umem ?s = (\<lambda>_. 90)"
    by (simp_all add: write_demo_def moved_def read_demo_def fd_file_def cur_def ino_def)
  have "\<exists>t. sys_write rd_ctx trw 3 0x2000 (int 20) ?s [] = Ok (int 20) t [] \<and>
    file_abs t 0 = af_write 1000 (user_bytes ?s 0x2000 20) (file_abs ?s 0) \<and>
    f_pos (fil t 0) = (if f_flags (fil ?s 0) AND O_APPEND \<noteq> 0 then f_pos (fil ?s 0) else int (1000 + 20)) \<and>
    (\<forall>j. j \<noteq> 0 \<longrightarrow> ino t j = ino ?s j) \<and> (\<forall>d x. \<not> touched ?s 0 1000 20 d x \<longrightarrow> data_of t d x = data_of ?s d x) \<and> umem t = umem ?s"
  proof (rule write_refines_file)
    show "\<forall>k. 1000 div 1024 \<le> k \<and> k * 1024 < 1000 + 20 \<longrightarrow> block_held ?s 0 k \<and> own_block ?s 0 k"
    proof (intro allI impI)
      fix k :: nat
      assume "1000 div 1024 \<le> k \<and> k * 1024 < 1000 + 20"
      then have "k = 0" by auto
      then show "block_held ?s 0 k \<and> own_block ?s 0 k" using d(2,3) by simp
    qed
    show "S_ISREG (i_mode (ino ?s 0))" by (simp add: S_ISREG_def s)
  qed (use d s in \<open>simp_all add: fil_def write_pos_def zero_inode_def\<close>)
  then obtain t where t: "sys_write rd_ctx trw 3 0x2000 20 ?s [] = Ok 20 t []"
    "file_abs t 0 = af_write 1000 (user_bytes ?s 0x2000 20) (file_abs ?s 0)" "f_pos (fil t 0) = 1020"
    by (auto simp: fil_def s)
  have "file_byte ?s 0 999 = 65" by (rule d(4))
  then have "af_size (file_abs t 0) = 1500 \<and> af_read 999 3 (file_abs t 0) = [65, 90, 90]"
    unfolding t(2) by (simp add: af_read_def af_write_def file_abs_def user_bytes_def s)
  then show "\<exists>s t. sys_write rd_ctx trw 3 0x2000 20 s [] = Ok 20 t [] \<and> af_size (file_abs t 0) = 1500 \<and>
    af_read 999 3 (file_abs t 0) = [65, 90, 90] \<and> f_pos (fil t 0) = 1020"
    using t(1,3) by blast
qed

end
