(* ===== verification/Alloc.thy ===== *)
theory Alloc
  imports File_io
begin

unbundle bit_operations_syntax

text \<open>
  Allocation of the blocks of a device: \<open>new_block\<close> and \<open>free_block\<close> (fs/bitmap.c) over the bitmaps of a mounted file system, the buffer
  cache (fs/buffer.c) and the table of super blocks (fs/super.c).
\<close>

section \<open>Bitmaps\<close>

lemma test_bit_set:
  assumes "j < 8 * length bs"
  shows "test_bit i (set_bit_map j bs) \<longleftrightarrow> i = j \<or> test_bit i bs"
proof (cases "i div 8 = j div 8")
  case True
  then have "i = j \<longleftrightarrow> i mod 8 = j mod 8" by (metis div_mult_mod_eq)
  then show ?thesis using True assms by (auto simp: test_bit_def set_bit_map_def bit_or_iff bit_exp_iff)
next
  case False
  then show ?thesis by (auto simp: test_bit_def set_bit_map_def upd_nth_def)
qed

lemma test_bit_clear:
  assumes "j < 8 * length bs"
  shows "test_bit i (clear_bit_map j bs) \<longleftrightarrow> i \<noteq> j \<and> test_bit i bs"
proof (cases "i div 8 = j div 8")
  case True
  then have "i = j \<longleftrightarrow> i mod 8 = j mod 8" by (metis div_mult_mod_eq)
  then show ?thesis
    using True assms by (auto simp: test_bit_def clear_bit_map_def bit_and_iff bit_not_iff bit_exp_iff)
next
  case False
  then show ?thesis by (auto simp: test_bit_def clear_bit_map_def upd_nth_def)
qed

lemma length_bit_maps [simp]: "length (set_bit_map j bs) = length bs" "length (clear_bit_map j bs) = length bs"
  by (simp_all add: set_bit_map_def clear_bit_map_def upd_nth_def)

section \<open>What the queues leave alone\<close>

text \<open>A buffer without its links, and a state without the cache and the words at address zero.\<close>

definition payload :: "buffer_head \<Rightarrow> buffer_head" where
  "payload b = b\<lparr>b_prev := None, b_next := None, b_prev_free := None, b_next_free := None\<rparr>"

definition outside :: "'z blk_state_scheme \<Rightarrow> 'z blk_state_scheme" where
  "outside s = s\<lparr>bufs := [], hash_table := [], free_list := 0, mem := \<lambda>_. 0\<rparr>"

definition same_payload :: "buffer_head list \<Rightarrow> 'z blk_state_scheme \<Rightarrow> 'z blk_state_scheme \<Rightarrow> bool" where
  "same_payload bs r s \<longleftrightarrow> map payload (bufs s) = bs \<and> outside s = r"

lemma map_upd_nth: "(\<And>x. g (f x) = g x) \<Longrightarrow> map g (upd_nth i f xs) = map g xs"
  by (simp add: upd_nth_def map_update) (metis list_update_id map_update)

lemma same_payload_upd [simp]:
  "same_payload bs r (upd_buf i (\<lambda>x. x\<lparr>b_prev := p\<rparr>) s) = same_payload bs r s"
  "same_payload bs r (upd_buf i (\<lambda>x. x\<lparr>b_next := p\<rparr>) s) = same_payload bs r s"
  "same_payload bs r (upd_buf i (\<lambda>x. x\<lparr>b_prev := p, b_next := q\<rparr>) s) = same_payload bs r s"
  "same_payload bs r (upd_buf i (\<lambda>x. x\<lparr>b_prev_free := p\<rparr>) s) = same_payload bs r s"
  "same_payload bs r (upd_buf i (\<lambda>x. x\<lparr>b_next_free := p\<rparr>) s) = same_payload bs r s"
  "same_payload bs r (s\<lparr>hash_table := h\<rparr>) = same_payload bs r s" "same_payload bs r (s\<lparr>free_list := f\<rparr>) = same_payload bs r s"
  "same_payload bs r (s\<lparr>mem := m\<rparr>) = same_payload bs r s"
  by (simp_all add: same_payload_def upd_buf_def outside_def map_upd_nth payload_def)

lemma queues_payload:
  "keeps (\<lambda>_ _. True) (same_payload bs r) (remove_from_queues bh)" "keeps (\<lambda>_ _. True) (same_payload bs r) (insert_into_queues bh)"
  unfolding remove_from_queues_def insert_into_queues_def null_store_def by (intro keeps; simp add: Let_def)+

lemma take_buffer_rest:
  assumes "take_buffer dev block bh s es = Ok () t es'" and "bh < length (bufs s)"
  shows "outside t = outside s" and "length (bufs t) = length (bufs s)" and "i < length (bufs s) \<Longrightarrow> i \<noteq> bh \<Longrightarrow> payload (buf t i) = payload (buf s i)"
    and "payload (buf t bh) = (payload (buf s bh))\<lparr>b_count := 1, b_dirt := 0, b_uptodate := 0, b_dev := dev, b_blocknr := block\<rparr>"
proof -
  define s1 where "s1 = upd_buf bh (\<lambda>b. b\<lparr>b_count := 1, b_dirt := 0, b_uptodate := 0\<rparr>) s"
  from assms(1) obtain s2 es2 where rem: "remove_from_queues bh s1 es = Ok () s2 es2"
    and ins: "insert_into_queues bh (upd_buf bh (\<lambda>b. b\<lparr>b_dev := dev, b_blocknr := block\<rparr>) s2) es2 = Ok () t es'"
    by (auto simp: take_buffer_def kern_defs s1_def split: outcome.splits)
  define s3 where "s3 = upd_buf bh (\<lambda>b. b\<lparr>b_dev := dev, b_blocknr := block\<rparr>) s2"
  have c: "conforms (\<lambda>_ _. True) es" for es :: "('z blk_state_scheme \<Rightarrow> 'z blk_state_scheme) list" by (simp add: conforms_def)
  have 2: "map payload (bufs s2) = map payload (bufs s1)" "outside s2 = outside s1"
    using keepsD [OF queues_payload(1) _ c rem, of "map payload (bufs s1)" "outside s1"] by (simp_all add: same_payload_def)
  have 4: "map payload (bufs t) = map payload (bufs s3)" "outside t = outside s3"
    using keepsD [OF queues_payload(2) _ c ins [folded s3_def], of "map payload (bufs s3)" "outside s3"] by (simp_all add: same_payload_def)
  have len: "length (bufs s2) = length (bufs s)" "length (bufs t) = length (bufs s)"
    using arg_cong [OF 2(1), of length] arg_cong [OF 4(1), of length] by (simp_all add: s1_def s3_def)
  then show "length (bufs t) = length (bufs s)" by simp
  show "outside t = outside s" using 2(2) 4(2) by (simp add: s1_def s3_def outside_def upd_buf_def)
  have p: "payload (buf t j) = payload (buf s3 j)" "payload (buf s2 j) = payload (buf s1 j)" if "j < length (bufs s)" for j
    using arg_cong [OF 2(1), of "\<lambda>xs. xs ! j"] arg_cong [OF 4(1), of "\<lambda>xs. xs ! j"] len that by (simp_all add: buf_def s1_def s3_def)
  have b: "buf s1 = (buf s)(bh := (buf s bh)\<lparr>b_count := 1, b_dirt := 0, b_uptodate := 0\<rparr>)"
    "buf s3 = (buf s2)(bh := (buf s2 bh)\<lparr>b_dev := dev, b_blocknr := block\<rparr>)"
    unfolding s1_def s3_def using assms(2) len by (simp_all add: buf_upd_buf)
  show "payload (buf t i) = payload (buf s i)" if "i < length (bufs s)" "i \<noteq> bh" using that p by (simp add: b)
  have "payload (x\<lparr>b_dev := dev, b_blocknr := block\<rparr>) = (payload x)\<lparr>b_dev := dev, b_blocknr := block\<rparr>"
    "payload (x\<lparr>b_count := 1, b_dirt := 0, b_uptodate := 0\<rparr>) = (payload x)\<lparr>b_count := 1, b_dirt := 0, b_uptodate := 0\<rparr>" for x
    by (simp_all add: payload_def)
  then show "payload (buf t bh) = (payload (buf s bh))\<lparr>b_count := 1, b_dirt := 0, b_uptodate := 0, b_dev := dev, b_blocknr := block\<rparr>"
    using p [OF assms(2)] by (simp add: b)
qed

lemma payload_sel [simp]:
  "b_data (payload x) = b_data x" "b_blocknr (payload x) = b_blocknr x" "b_dev (payload x) = b_dev x" "b_uptodate (payload x) = b_uptodate x"
  "b_dirt (payload x) = b_dirt x" "b_count (payload x) = b_count x" "b_lock (payload x) = b_lock x"
  by (simp_all add: payload_def)

section \<open>A buffer for a block that nobody uses\<close>

definition room :: "'z blk_state_scheme \<Rightarrow> u16 \<Rightarrow> u32 \<Rightarrow> bool" where
  "room s dev b \<longleftrightarrow> (\<exists>i < length (bufs s). bkey s i = (dev, b) \<and> b_count (buf s i) = 0 \<and> b_lock (buf s i) = 0) \<or>
     (\<forall>i < length (bufs s). bkey s i \<noteq> (dev, b)) \<and> (\<exists>i < length (bufs s). b_count (buf s i) = 0 \<and> b_dirt (buf s i) = 0 \<and> b_lock (buf s i) = 0)"

definition got :: "u16 \<Rightarrow> u32 \<Rightarrow> nat \<Rightarrow> 'z blk_state_scheme \<Rightarrow> 'z blk_state_scheme \<Rightarrow> bool" where
  "got dev b bh s t \<longleftrightarrow> cache_inv t \<and> outside t = outside s \<and> length (bufs t) = length (bufs s) \<and> bh < length (bufs s) \<and>
     b_count (buf s bh) = 0 \<and> bkey t bh = (dev, b) \<and> b_count (buf t bh) = 1 \<and> b_lock (buf t bh) = 0 \<and>
     (\<forall>i < length (bufs s). i \<noteq> bh \<longrightarrow> payload (buf t i) = payload (buf s i))"

lemma getblk_room:
  assumes "cache_inv s" and "dev \<noteq> 0" and "1 < fst K" and "room s dev b"
  shows "\<exists>bh t. getblk K dev b s es = Ok bh t es \<and> got dev b bh s t"
  using assms(4) unfolding room_def
proof (elim disjE conjE exE)
  fix i
  assume i: "i < length (bufs s)" "bkey s i = (dev, b)" "b_count (buf s i) = 0" "b_lock (buf s i) = 0"
  let ?t = "upd_buf i (\<lambda>b. b\<lparr>b_count := b_count b + 1\<rparr>) s"
  have buf: "buf ?t = (buf s)(i := (buf s i)\<lparr>b_count := 1\<rparr>)" using i by (simp add: buf_upd_buf)
  have "cache_inv ?t" by (rule cache_inv_cong [OF assms(1)]) (simp_all add: fun_eq_iff link_defs buf)
  then have "got dev b i s ?t" using i by (simp add: got_def buf bkey_def) (simp add: outside_def upd_buf_def)
  then show ?thesis using getblk_hit [OF assms(1,2) i(1,2,4) assms(3), of es] by blast
next
  fix i
  assume new: "\<forall>i < length (bufs s). bkey s i \<noteq> (dev, b)"
    and i: "i < length (bufs s)" "b_count (buf s i) = 0" "b_dirt (buf s i) = 0" "b_lock (buf s i) = 0"
  from getblk_fresh [OF assms(1,2) _ i assms(3), of b es] new obtain bh t where
    bh: "getblk K dev b s es = Ok bh t es" "b_count (buf s bh) = 0" "bh < length (bufs s)" "b_lock (buf s bh) = 0"
    and take: "take_buffer dev b bh s es = Ok () t es" by blast
  have inv: "cache_inv t" "bkey t = (bkey s)(bh := (dev, b))" using take_buffer_inv [OF assms(1) bh(3), of dev b es] new take by auto
  note r = take_buffer_rest [OF take bh(3)]
  have "b_count (buf t bh) = 1 \<and> b_lock (buf t bh) = b_lock (buf s bh)"
    using arg_cong [OF r(4), of b_count] arg_cong [OF r(4), of b_lock] by simp
  then have "got dev b bh s t" using r inv bh by (auto simp: got_def)
  then show ?thesis using bh(1) by blast
qed

section \<open>A mounted device\<close>

text \<open>The bitmap block of a zone number and whether the number is free. Bit \<open>n\<close> is for block \<open>s_firstdatazone + n - 1\<close>.\<close>

definition zone_map :: "'z fs_state_scheme \<Rightarrow> nat \<Rightarrow> nat \<Rightarrow> nat option" where
  "zone_map s sb n = (if n < 65536 then s_zmap (sup s sb) ! (n div 8192) else None)"

definition zone_free :: "'z fs_state_scheme \<Rightarrow> nat \<Rightarrow> nat \<Rightarrow> bool" where
  "zone_free s sb n = (case zone_map s sb n of None \<Rightarrow> False | Some m \<Rightarrow> \<not> test_bit (n mod 8192) (b_data (buf s m)))"

definition mounted :: "'z fs_state_scheme ctx \<Rightarrow> u16 \<Rightarrow> nat \<Rightarrow> 'z fs_state_scheme \<Rightarrow> bool" where
  "mounted K dev sb s \<longleftrightarrow> cache_inv s \<and> buffer_wait s = 0 \<and> 1 < fst K \<and> dev \<noteq> 0 \<and>
     scan_up (\<lambda>i. s_dev (sup s i) = dev) NR_SUPER = Some sb \<and> s_lock (sup s sb) = 0 \<and>
     (\<forall>k < 8. case s_zmap (sup s sb) ! k of None \<Rightarrow> True
       | Some m \<Rightarrow> m < length (bufs s) \<and> b_count (buf s m) \<noteq> 0 \<and> length (b_data (buf s m)) = 1024) \<and>
     (\<forall>k < 8. \<forall>l < 8. s_zmap (sup s sb) ! k = s_zmap (sup s sb) ! l \<longrightarrow> s_zmap (sup s sb) ! k \<noteq> None \<longrightarrow> k = l)"

lemma zone_map_buffer:
  assumes "mounted K dev sb s" and "zone_map s sb n = Some m"
  shows "m < length (bufs s)" and "b_count (buf s m) \<noteq> 0" and "length (b_data (buf s m)) = 1024" and "n div 8192 < 8"
    and "s_zmap (sup s sb) ! (n div 8192) = Some m" and "zone_map s sb n' = Some m \<Longrightarrow> n' div 8192 = n div 8192"
proof -
  have n: "n < 65536" "s_zmap (sup s sb) ! (n div 8192) = Some m" using assms(2) by (auto simp: zone_map_def split: if_splits)
  then show q: "n div 8192 < 8" "s_zmap (sup s sb) ! (n div 8192) = Some m" by auto
  then show "m < length (bufs s)" "b_count (buf s m) \<noteq> 0" "length (b_data (buf s m)) = 1024"
    using assms(1) unfolding mounted_def by (auto dest!: spec [of _ "n div 8192"])
  show "n' div 8192 = n div 8192" if "zone_map s sb n' = Some m"
  proof -
    have "n' div 8192 < 8" "s_zmap (sup s sb) ! (n' div 8192) = Some m" using that by (auto simp: zone_map_def split: if_splits)
    then show ?thesis using q assms(1) unfolding mounted_def by (metis option.distinct(1))
  qed
qed

lemma superb_found:
  assumes "dev \<noteq> 0" and "scan_up (\<lambda>i. s_dev (sup s i) = dev) NR_SUPER = Some sb" and "s_lock (sup s sb) = 0" and "0 < k"
  shows "check_in_superb k dev s es = Ok (Some sb) s es"
proof -
  obtain k' where k: "k = Suc k'" using assms(4) by (cases k) auto
  have "wait_on_super_unlock sb s es = Ok () s es" using assms(3) by (simp add: wait_on_super_unlock_def wait_on_def kern_defs)
  moreover have "s_dev (sup s sb) = dev" using assms(2) by (simp add: scan_up_Some)
  ultimately show ?thesis using assms(1,2) by (simp add: k kern_defs)
qed

lemma check_in_superb_run:
  assumes "mounted K dev sb s"
  shows "check_in_superb (fst K) dev s es = Ok (Some sb) s es"
  using assms by (intro superb_found) (simp_all add: mounted_def)

lemma scan_map_least:
  assumes "zone_free s sb n" and "\<forall>l < n. \<not> zone_free s sb l"
  shows "scan_map s (s_zmap (sup s sb)) = (n div 8192, zone_map s sb n, n mod 8192)"
proof -
  define q r where "q = n div 8192" and "r = n mod 8192"
  have n: "n = 8192 * q + r" "r < 8192" by (simp_all add: q_def r_def)
  obtain m where m: "zone_map s sb n = Some m" "\<not> test_bit r (b_data (buf s m))"
    using assms(1) by (auto simp: zone_free_def r_def split: option.splits)
  have q: "q < 8" "s_zmap (sup s sb) ! q = Some m" using m(1) by (auto simp: zone_map_def q_def split: if_splits)
  have less: "test_bit j (b_data (buf s m'))" if "i < 8" "j < 8192" "s_zmap (sup s sb) ! i = Some m'" "8192 * i + j < n" for i j m'
    using assms(2) that by (auto simp: zone_free_def zone_map_def split: option.splits)
  have first: "find_first_zero (b_data (buf s m)) = r"
  proof -
    have "scan_up (\<lambda>j. \<not> test_bit j (b_data (buf s m))) 8192 = Some r"
      using m(2) n less [of q _ m] q by (auto simp: scan_up_Some)
    then show ?thesis by (simp add: find_first_zero_least)
  qed
  have full: "find_first_zero (b_data (buf s m')) = 8192" if "i < q" "s_zmap (sup s sb) ! i = Some m'" for i m'
  proof -
    have "8192 * i + j < n" if "j < 8192" for j using that \<open>i < q\<close> n(1) by simp
    then have "scan_up (\<lambda>j. \<not> test_bit j (b_data (buf s m'))) 8192 = None"
      using less [of i _ m'] that q(1) by (auto simp: scan_up_None)
    then show ?thesis by (simp add: find_first_zero_least)
  qed
  have "scan_up (\<lambda>i. case s_zmap (sup s sb) ! i of None \<Rightarrow> False | Some bh \<Rightarrow> find_first_zero (b_data (buf s bh)) < 8192) 8 = Some q"
    using q first n(2) full by (auto simp: scan_up_Some split: option.split)
  then show ?thesis using q first m(1) by (simp add: scan_map_def q_def [symmetric] r_def [symmetric])
qed

section \<open>Taking a block\<close>

lemma outside_fields:
  fixes s t :: "'z fs_state_scheme"
  assumes "outside t = outside s"
  shows "sup t = sup s" and "buffer_wait t = buffer_wait s" and "ino t = ino s"
  using arg_cong [OF assms, of super_blocks] arg_cong [OF assms, of buffer_wait] arg_cong [OF assms, of inode_table]
  by (simp_all add: outside_def sup_def ino_def fun_eq_iff)

lemma mounted_cong:
  assumes "mounted K dev sb s" and "cache_inv t" and "outside t = outside s" and "length (bufs t) = length (bufs s)"
    and "\<And>k m. zone_map s sb k = Some m \<Longrightarrow> b_count (buf t m) \<noteq> 0 \<and> length (b_data (buf t m)) = 1024"
  shows "mounted K dev sb t"
proof -
  note o = outside_fields [OF assms(3)]
  have "b_count (buf t m) \<noteq> 0 \<and> length (b_data (buf t m)) = 1024" if "k < 8" "s_zmap (sup s sb) ! k = Some m" for k m
    using assms(5) [of "8192 * k" m] that by (simp add: zone_map_def)
  then show ?thesis using assms(1,2,4) by (auto simp: mounted_def o split: option.splits)
qed

text \<open>One bit of a bitmap block is changed.\<close>

definition put_bits :: "nat \<Rightarrow> (u8 list \<Rightarrow> u8 list) \<Rightarrow> 'z blk_state_scheme \<Rightarrow> 'z blk_state_scheme" where
  "put_bits m f = upd_buf m (\<lambda>x. x\<lparr>b_data := f (b_data x), b_dirt := 1\<rparr>)"

lemma put_bits_rest:
  assumes "m < length (bufs s)"
  shows "buf (put_bits m f s) = (buf s)(m := (buf s m)\<lparr>b_data := f (b_data (buf s m)), b_dirt := 1\<rparr>)"
    and "bkey (put_bits m f s) = bkey s" and "length (bufs (put_bits m f s)) = length (bufs s)" and "outside (put_bits m f s) = outside s"
    and "cache_inv s \<Longrightarrow> cache_inv (put_bits m f s)"
proof -
  show b: "buf (put_bits m f s) = (buf s)(m := (buf s m)\<lparr>b_data := f (b_data (buf s m)), b_dirt := 1\<rparr>)"
    unfolding put_bits_def by (rule buf_upd_buf [OF assms])
  then show "bkey (put_bits m f s) = bkey s" by (simp add: fun_eq_iff bkey_def)
  show len: "length (bufs (put_bits m f s)) = length (bufs s)" by (simp add: put_bits_def)
  show "outside (put_bits m f s) = outside s" by (simp add: put_bits_def outside_def upd_buf_def)
  show "cache_inv (put_bits m f s)" if "cache_inv s"
    by (rule cache_inv_cong [OF that len]) (simp_all add: put_bits_def fun_eq_iff link_defs buf_upd_buf [OF assms])
qed

lemma put_bits_twice:
  "upd_buf m (\<lambda>x. x\<lparr>b_dirt := 1\<rparr>) (upd_buf m (\<lambda>x. x\<lparr>b_data := f (b_data x)\<rparr>) s) = put_bits m f s"
  by (simp add: put_bits_def upd_buf_def comp_def)

text \<open>The bits of a device after one of them has been changed, and other buffers with it.\<close>

lemma zone_free_changed:
  assumes "mounted K dev sb s" and "zone_map s sb n = Some m" and "sup t = sup s"
    and "\<And>j. test_bit j (b_data (buf t m)) \<longleftrightarrow> (if j = n mod 8192 then v else test_bit j (b_data (buf s m)))"
    and "\<And>l m'. zone_map s sb l = Some m' \<Longrightarrow> m' \<noteq> m \<Longrightarrow> b_data (buf t m') = b_data (buf s m')"
  shows "zone_free t sb l \<longleftrightarrow> (if l = n then \<not> v else zone_free s sb l)"
proof (cases "zone_map s sb l")
  case None
  then have "l \<noteq> n" using assms(2) by auto
  moreover have "zone_map t sb l = None" using None by (auto simp: zone_map_def assms(3) split: if_splits)
  ultimately show ?thesis using None by (simp add: zone_free_def)
next
  case (Some m')
  have zt: "zone_map t sb l = Some m'" using Some by (auto simp: zone_map_def assms(3) split: if_splits)
  have "l = n \<longleftrightarrow> l mod 8192 = n mod 8192" if "m' = m"
    using zone_map_buffer(6) [OF assms(1,2), of l] Some that by (metis div_mult_mod_eq)
  moreover have "l \<noteq> n" if "m' \<noteq> m" using Some assms(2) that by auto
  ultimately show ?thesis using Some zt assms(4) assms(5) [OF Some] by (cases "m' = m") (auto simp: zone_free_def)
qed

text \<open>What taking number \<open>n\<close>, block \<open>b\<close>, does to the cache; \<open>nb\<close> is the buffer of the block.\<close>

definition block_taken :: "u16 \<Rightarrow> nat \<Rightarrow> nat \<Rightarrow> u32 \<Rightarrow> nat \<Rightarrow> 'z fs_state_scheme \<Rightarrow> 'z fs_state_scheme \<Rightarrow> bool" where
  "block_taken dev sb n b nb s t \<longleftrightarrow> outside t = outside s \<and> length (bufs t) = length (bufs s) \<and>
     (\<forall>l. zone_free t sb l \<longleftrightarrow> zone_free s sb l \<and> l \<noteq> n) \<and>
     nb < length (bufs s) \<and> b_count (buf s nb) = 0 \<and> bkey t nb = (dev, b) \<and> b_data (buf t nb) = replicate 1024 0 \<and>
     b_uptodate (buf t nb) = 1 \<and> b_dirt (buf t nb) = 1 \<and> b_count (buf t nb) = 0 \<and> b_lock (buf t nb) = 0 \<and>
     (\<forall>i < length (bufs s). i \<noteq> nb \<longrightarrow> zone_map s sb n \<noteq> Some i \<longrightarrow> payload (buf t i) = payload (buf s i))"

lemma room_put_bits:
  assumes "m < length (bufs s)" and "b_count (buf s m) \<noteq> 0" and "room s dev b"
  shows "room (put_bits m f s) dev b"
  using assms(2,3) unfolding room_def put_bits_rest(2,3) [OF assms(1)] put_bits_rest(1) [OF assms(1)] by (auto 0 3)

definition cleared :: "nat \<Rightarrow> 'z blk_state_scheme \<Rightarrow> 'z blk_state_scheme" where
  "cleared nb = upd_buf nb (\<lambda>x. x\<lparr>b_data := replicate 1024 0, b_uptodate := 1, b_dirt := 1, b_count := 0\<rparr>)"

lemma brelse_last:
  assumes "b_lock (buf s bh) = 0" and "b_count (buf s bh) = 1" and "buffer_wait s = 0"
  shows "brelse (Some bh) s es = Ok () (upd_buf bh (\<lambda>b. b\<lparr>b_count := 0\<rparr>) s) es"
proof -
  have "buffer_wait (upd_buf bh g s) = 0" for g using assms(3) by (simp add: upd_buf_def)
  then show ?thesis
    using assms(1,2) wait_unlocked [OF assms(1), of es] by (simp add: brelse_def kern_defs wake_up_last_def buffer_queue_def)
qed

lemma cleared_run:
  assumes "got dev b nb s1 s2" and "buffer_wait s2 = 0"
  shows "kseq (modify (upd_buf nb (\<lambda>x. x\<lparr>b_data := replicate BLOCK_SIZE 0, b_uptodate := 1, b_dirt := 1\<rparr>)))
    (kseq (brelse (Some nb)) (ret v)) s2 es = Ok v (cleared nb s2) es"
proof -
  let ?s = "upd_buf nb (\<lambda>x. x\<lparr>b_data := replicate 1024 0, b_uptodate := 1, b_dirt := 1\<rparr>) s2"
  have nb: "nb < length (bufs s2)" "b_count (buf s2 nb) = 1" "b_lock (buf s2 nb) = 0" using assms(1) by (simp_all add: got_def)
  have s: "b_lock (buf ?s nb) = 0" "b_count (buf ?s nb) = 1" "buffer_wait ?s = 0"
    using nb assms(2) by (simp_all add: buf_upd_buf) (simp add: upd_buf_def)
  have "upd_buf nb (\<lambda>b. b\<lparr>b_count := 0\<rparr>) ?s = cleared nb s2" by (simp add: cleared_def upd_buf_def comp_def)
  then have "brelse (Some nb) ?s es = Ok () (cleared nb s2) es" using brelse_last [OF s] by simp
  then show ?thesis by (simp add: kern_defs)
qed

lemma cleared_taken:
  assumes "mounted K dev sb s" and "zone_map s sb n = Some m" and "got dev b nb (put_bits m (set_bit_map (n mod 8192)) s) t"
  shows "mounted K dev sb (cleared nb t)" and "block_taken dev sb n b nb s (cleared nb t)"
proof -
  let ?s1 = "put_bits m (set_bit_map (n mod 8192)) s" and ?t = "cleared nb t"
  note m = zone_map_buffer [OF assms(1,2)]
  note b = put_bits_rest [OF m(1), of "set_bit_map (n mod 8192)"]
  have nb: "nb < length (bufs t)" "length (bufs t) = length (bufs s)" "b_count (buf ?s1 nb) = 0" "outside t = outside s" "cache_inv t"
    "bkey t nb = (dev, b)" "b_lock (buf t nb) = 0" "\<And>i. i < length (bufs s) \<Longrightarrow> i \<noteq> nb \<Longrightarrow> payload (buf t i) = payload (buf ?s1 i)"
    using assms(3) by (simp_all add: got_def b)
  have buf: "buf ?t = (buf t)(nb := (buf t nb)\<lparr>b_data := replicate 1024 0, b_uptodate := 1, b_dirt := 1, b_count := 0\<rparr>)"
    unfolding cleared_def by (rule buf_upd_buf [OF nb(1)])
  have key: "bkey ?t = bkey t" by (simp add: fun_eq_iff bkey_def buf)
  have len: "length (bufs ?t) = length (bufs s)" and out: "outside ?t = outside s"
    using nb(2,4) by (simp_all add: cleared_def) (simp add: outside_def upd_buf_def)
  have inv: "cache_inv ?t" by (rule cache_inv_cong [OF nb(5)]) (simp_all add: cleared_def fun_eq_iff link_defs buf_upd_buf [OF nb(1)])
  have used: "m' \<noteq> nb" if "zone_map s sb l = Some m'" for l m'
    using zone_map_buffer(2) [OF assms(1) that] nb(3) by (auto simp: b split: if_splits)
  have old: "payload (buf ?t i) = payload (buf s i)" if "i < length (bufs s)" "i \<noteq> nb" "i \<noteq> m" for i
    using nb(8) [of i] that by (simp add: buf b)
  have "payload (buf ?t m) = payload (buf ?s1 m)" using nb(8) [OF m(1)] used [OF assms(2)] by (simp add: buf)
  from arg_cong [OF this, of b_data] arg_cong [OF this, of b_count]
  have bits: "b_data (buf ?t m) = set_bit_map (n mod 8192) (b_data (buf s m))" "b_count (buf ?t m) = b_count (buf s m)" by (simp_all add: b)
  have maps: "b_data (buf ?t m') = b_data (buf s m')" "b_count (buf ?t m') = b_count (buf s m')" if "zone_map s sb l = Some m'" "m' \<noteq> m" for l m'
    using old [OF zone_map_buffer(1) [OF assms(1) that(1)] used [OF that(1)] that(2)] arg_cong [of _ _ b_data] arg_cong [of _ _ b_count]
      payload_sel by metis+
  show "mounted K dev sb ?t"
  proof (rule mounted_cong [OF assms(1) inv out len])
    show "b_count (buf ?t m') \<noteq> 0 \<and> length (b_data (buf ?t m')) = 1024" if "zone_map s sb l = Some m'" for l m'
      using zone_map_buffer(2,3) [OF assms(1) that] maps [OF that] bits by (cases "m' = m") auto
  qed
  have "test_bit j (b_data (buf ?t m)) \<longleftrightarrow> (if j = n mod 8192 then True else test_bit j (b_data (buf s m)))" for j
    using test_bit_set [of "n mod 8192" "b_data (buf s m)" j] m(3) by (simp add: bits)
  note zf = zone_free_changed [OF assms(1,2) outside_fields(1) [OF out] this maps(1)]
  show "block_taken dev sb n b nb s ?t"
    unfolding block_taken_def using out len zf nb(1-3,6,7) old assms(2) key b(1) m(2)
    by (auto simp: buf split: if_splits)
qed

text \<open>The number that is taken is the lowest free one.\<close>

lemma new_block_run:
  assumes "mounted K dev sb s" and "zone_free s sb n" and "\<forall>l < n. \<not> zone_free s sb l"
    and "v = int n + uint (s_firstdatazone (sup s sb)) - 1" and "v < uint (s_nzones (sup s sb))" and "room s dev (word_of_int v)"
  shows "\<exists>nb t. new_block K dev s es = Ok v t es \<and> mounted K dev sb t \<and> block_taken dev sb n (word_of_int v) nb s t"
proof -
  obtain m where m: "zone_map s sb n = Some m" "\<not> test_bit (n mod 8192) (b_data (buf s m))"
    using assms(2) by (auto simp: zone_free_def split: option.splits)
  note z = zone_map_buffer [OF assms(1) m(1)]
  let ?s1 = "put_bits m (set_bit_map (n mod 8192)) s"
  note p = put_bits_rest [OF z(1), of "set_bit_map (n mod 8192)"]
  have mt: "cache_inv s" "buffer_wait s = 0" "1 < fst K" "dev \<noteq> 0" using assms(1) by (simp_all add: mounted_def)
  obtain nb t where g: "getblk K dev (word_of_int v) ?s1 es = Ok nb t es" "got dev (word_of_int v) nb ?s1 t"
    using getblk_room [OF p(5) [OF mt(1)] mt(4,3) room_put_bits [OF z(1,2) assms(6)]] by blast
  have "buffer_wait t = 0" using g(2) outside_fields(2) [of t s] p(4) mt(2) by (simp add: got_def)
  note c = cleared_run [OF g(2) this, of v es]
  have cnt: "b_count (buf t nb) = 1" using g(2) by (simp add: got_def)
  have num: "int (n mod 8192) + int (n div 8192) * 8192 + uint (s_firstdatazone (sup s sb)) - 1 = v"
    using assms(4) by (simp add: zmod_int zdiv_int)
  have r: "\<not> 8192 \<le> n mod 8192" by (simp add: not_le)
  have "new_block K dev s es = Ok v (cleared nb t) es"
    using check_in_superb_run [OF assms(1), of es] scan_map_least [OF assms(2,3)] z(4) m g(1) c cnt assms(5)
    by (simp add: new_block_def kbind_def [of "check_in_superb (fst K) dev"] Let_def num r) (simp add: kern_defs num r put_bits_twice)
  then show ?thesis using cleared_taken [OF assms(1) m(1) g(2)] by blast
qed

text \<open>When no number is free nothing happens. When the lowest free number lies past the end of the device the
  call fails, but the number is taken all the same.\<close>

lemma new_block_none:
  assumes "mounted K dev sb s" and "\<forall>l. \<not> zone_free s sb l"
  shows "new_block K dev s es = Ok 0 s es"
proof -
  have "find_first_zero (b_data (buf s m)) = 8192" if "i < 8" "s_zmap (sup s sb) ! i = Some m" for i m
  proof -
    have "test_bit j (b_data (buf s m))" if "j < 8192" for j
      using assms(2) [rule_format, of "8192 * i + j"] that \<open>i < 8\<close> \<open>s_zmap (sup s sb) ! i = Some m\<close> by (simp add: zone_free_def zone_map_def)
    then have "scan_up (\<lambda>j. \<not> test_bit j (b_data (buf s m))) 8192 = None" by (simp add: scan_up_None)
    then show ?thesis by (simp add: find_first_zero_least)
  qed
  then have "scan_up (\<lambda>i. case s_zmap (sup s sb) ! i of None \<Rightarrow> False | Some bh \<Rightarrow> find_first_zero (b_data (buf s bh)) < 8192) 8 = None"
    by (auto simp: scan_up_None split: option.split)
  then have "scan_map s (s_zmap (sup s sb)) = (8, s_zmap (sup s sb) ! 7, 8192)" by (simp add: scan_map_def)
  then show ?thesis using check_in_superb_run [OF assms(1), of es] by (simp add: new_block_def kern_defs Let_def split: option.split)
qed

lemma new_block_leak:
  assumes "mounted K dev sb s" and "zone_free s sb n" and "\<forall>l < n. \<not> zone_free s sb l"
    and "int n + uint (s_firstdatazone (sup s sb)) - 1 \<ge> uint (s_nzones (sup s sb))"
  shows "\<exists>t. new_block K dev s es = Ok 0 t es \<and> (\<forall>l. zone_free t sb l \<longleftrightarrow> zone_free s sb l \<and> l \<noteq> n)"
proof -
  obtain m where m: "zone_map s sb n = Some m" "\<not> test_bit (n mod 8192) (b_data (buf s m))"
    using assms(2) by (auto simp: zone_free_def split: option.splits)
  note z = zone_map_buffer [OF assms(1) m(1)]
  let ?s1 = "put_bits m (set_bit_map (n mod 8192)) s"
  note p = put_bits_rest [OF z(1), of "set_bit_map (n mod 8192)"]
  have num: "int (n mod 8192) + int (n div 8192) * 8192 + uint (s_firstdatazone (sup s sb)) - 1 = int n + uint (s_firstdatazone (sup s sb)) - 1"
    by (simp add: zmod_int zdiv_int)
  have r: "\<not> 8192 \<le> n mod 8192" by (simp add: not_le)
  have "new_block K dev s es = Ok 0 ?s1 es"
    using check_in_superb_run [OF assms(1), of es] scan_map_least [OF assms(2,3)] z(4) m assms(4)
    by (simp add: new_block_def kbind_def [of "check_in_superb (fst K) dev"] Let_def num r) (simp add: kern_defs num r put_bits_twice)
  moreover have "test_bit j (b_data (buf ?s1 m)) \<longleftrightarrow> (if j = n mod 8192 then True else test_bit j (b_data (buf s m)))" for j
    using test_bit_set [of "n mod 8192" "b_data (buf s m)" j] z(3) by (simp add: p)
  then have "zone_free ?s1 sb l \<longleftrightarrow> (if l = n then \<not> True else zone_free s sb l)" for l
    by (rule zone_free_changed [OF assms(1) m(1) outside_fields(1) [OF p(4)]]) (simp add: p)
  ultimately show ?thesis using assms(2) by (intro exI [of _ ?s1]) auto
qed

section \<open>Giving a block back\<close>

definition unused :: "'z blk_state_scheme \<Rightarrow> u16 \<Rightarrow> u32 \<Rightarrow> bool" where
  "unused s dev b \<longleftrightarrow> (\<forall>i < length (bufs s). bkey s i = (dev, b) \<longrightarrow> b_count (buf s i) = 0 \<and> b_lock (buf s i) = 0)"

definition dropped :: "nat \<Rightarrow> 'z blk_state_scheme \<Rightarrow> 'z blk_state_scheme" where
  "dropped bh = upd_buf bh (\<lambda>x. x\<lparr>b_dirt := 0, b_uptodate := 0, b_count := 0\<rparr>)"

lemma dropped_run:
  assumes "bh < length (bufs s)" and "b_count (buf s bh) = 0" and "b_lock (buf s bh) = 0" and "buffer_wait s = 0"
  shows "kseq (modify (upd_buf bh (\<lambda>b. b\<lparr>b_dirt := 0, b_uptodate := 0\<rparr>))) (kseq (brelse (Some bh)) (ret v)) (use_more bh s) es
    = Ok v (dropped bh s) es"
proof -
  let ?s = "upd_buf bh (\<lambda>b. b\<lparr>b_dirt := 0, b_uptodate := 0\<rparr>) (use_more bh s)"
  have s: "b_lock (buf ?s bh) = 0" "b_count (buf ?s bh) = 1" "buffer_wait ?s = 0"
    using assms by (simp_all add: buf_upd_buf) (simp add: upd_buf_def)
  have "upd_buf bh (\<lambda>b. b\<lparr>b_count := 0\<rparr>) ?s = dropped bh s" by (simp add: dropped_def upd_buf_def comp_def)
  then have "brelse (Some bh) ?s es = Ok () (dropped bh s) es" using brelse_last [OF s] by simp
  then show ?thesis by (simp add: kern_defs)
qed

lemma get_hash_table_run:
  assumes "cache_inv s" and "dev \<noteq> 0" and "0 < k" and "unused s dev b"
  shows "(\<forall>i < length (bufs s). bkey s i \<noteq> (dev, b)) \<and> get_hash_table k dev b s es = Ok None s es \<or>
    (\<exists>bh < length (bufs s). bkey s bh = (dev, b) \<and> get_hash_table k dev b s es = Ok (Some bh) (use_more bh s) es)"
proof -
  obtain k' where k: "k = Suc k'" using assms(3) by (cases k) auto
  from find_buffer_run [OF assms(1), of dev b es] obtain r where r: "find_buffer dev b s es = Ok r s es"
    "case r of None \<Rightarrow> \<forall>i < length (bufs s). dev \<noteq> 0 \<longrightarrow> bkey s i \<noteq> (dev, b) | Some i \<Rightarrow> i < length (bufs s) \<and> bkey s i = (dev, b)" by blast
  show ?thesis
  proof (cases r)
    case None
    then show ?thesis using r assms(2) by (simp add: k kern_defs)
  next
    case (Some bh)
    then have bh: "bh < length (bufs s)" "bkey s bh = (dev, b)" "b_lock (buf s bh) = 0" using r(2) assms(4) by (auto simp: unused_def)
    then have "b_lock (buf (use_more bh s) bh) = 0" "b_dev (buf (use_more bh s) bh) = dev" "b_blocknr (buf (use_more bh s) bh) = b"
      by (simp_all add: buf_upd_buf bkey_def)
    then show ?thesis using r(1) Some bh wait_unlocked [of "use_more bh s" bh es] by (auto simp: k kern_defs)
  qed
qed

lemma dropped_rest:
  assumes "mounted K dev sb s" and "bh < length (bufs s)" and "b_count (buf s bh) = 0"
  shows "mounted K dev sb (dropped bh s)" and "zone_free (dropped bh s) sb = zone_free s sb" and "outside (dropped bh s) = outside s"
    and "i \<noteq> bh \<Longrightarrow> buf (dropped bh s) i = buf s i"
proof -
  have buf: "buf (dropped bh s) = (buf s)(bh := (buf s bh)\<lparr>b_dirt := 0, b_uptodate := 0, b_count := 0\<rparr>)"
    unfolding dropped_def by (rule buf_upd_buf [OF assms(2)])
  then show "i \<noteq> bh \<Longrightarrow> buf (dropped bh s) i = buf s i" by simp
  show out: "outside (dropped bh s) = outside s" by (simp add: dropped_def outside_def upd_buf_def)
  have m: "m \<noteq> bh" if "zone_map s sb l = Some m" for l m using zone_map_buffer(2) [OF assms(1) that] assms(3) by auto
  have inv: "cache_inv (dropped bh s)"
    by (rule cache_inv_cong [of s]) (use assms(1) in \<open>simp_all add: mounted_def dropped_def fun_eq_iff link_defs buf_upd_buf [OF assms(2)]\<close>)
  show "mounted K dev sb (dropped bh s)"
  proof (rule mounted_cong [OF assms(1) inv out])
    show "b_count (buf (dropped bh s) m') \<noteq> 0 \<and> length (b_data (buf (dropped bh s) m')) = 1024" if "zone_map s sb l = Some m'" for l m'
      using zone_map_buffer(2,3) [OF assms(1) that] m [OF that] by (simp add: buf)
  qed (simp add: dropped_def)
  have "zone_map (dropped bh s) sb = zone_map s sb" by (simp add: fun_eq_iff zone_map_def outside_fields(1) [OF out])
  then show "zone_free (dropped bh s) sb = zone_free s sb"
    using m by (auto simp: fun_eq_iff zone_free_def buf split: option.split)
qed

text \<open>The second half of \<open>free_block\<close>, once the buffer of the block is out of the way.\<close>

lemma clear_bit_run:
  assumes "mounted K dev sb s" and "zone_map s sb n = Some m" and "\<not> zone_free s sb n"
  shows "test_bit (n mod 8192) (b_data (buf s m))" and "mounted K dev sb (put_bits m (clear_bit_map (n mod 8192)) s)"
    and "zone_free (put_bits m (clear_bit_map (n mod 8192)) s) sb l \<longleftrightarrow> zone_free s sb l \<or> l = n"
proof -
  let ?t = "put_bits m (clear_bit_map (n mod 8192)) s"
  note z = zone_map_buffer [OF assms(1,2)]
  note p = put_bits_rest [OF z(1), of "clear_bit_map (n mod 8192)"]
  show "test_bit (n mod 8192) (b_data (buf s m))" using assms(2,3) by (simp add: zone_free_def)
  have inv: "cache_inv s" using assms(1) by (simp add: mounted_def)
  show "mounted K dev sb ?t"
  proof (rule mounted_cong [OF assms(1) p(5) [OF inv] p(4,3)])
    show "b_count (buf ?t m') \<noteq> 0 \<and> length (b_data (buf ?t m')) = 1024" if "zone_map s sb l = Some m'" for l m'
      using zone_map_buffer(2,3) [OF assms(1) that] by (auto simp: p(1))
  qed
  have "test_bit j (b_data (buf ?t m)) \<longleftrightarrow> (if j = n mod 8192 then False else test_bit j (b_data (buf s m)))" for j
    using test_bit_clear [of "n mod 8192" "b_data (buf s m)" j] z(3) by (simp add: p)
  then have "zone_free ?t sb l \<longleftrightarrow> (if l = n then \<not> False else zone_free s sb l)"
    by (rule zone_free_changed [OF assms(1,2) outside_fields(1) [OF p(4)]]) (simp add: p)
  then show "zone_free ?t sb l \<longleftrightarrow> zone_free s sb l \<or> l = n" by auto
qed

text \<open>The first half: the buffer of the block, if there is one, is to be forgotten.\<close>

definition drop_buffer :: "nat \<Rightarrow> u16 \<Rightarrow> int \<Rightarrow> (bool, 'z fs_state_scheme) kern" where
  "drop_buffer k dev block = kbind (get_hash_table k dev (word_of_int block)) (\<lambda>bh. case bh of None \<Rightarrow> ret True | Some bh \<Rightarrow>
     kbind (gets (\<lambda>s. b_count (buf s bh))) (\<lambda>c.
     if c \<noteq> 1 then kseq (printk ''trying to free block (%04x:%d), count=%d'' [uint dev, block, uint c]) (ret False)
     else kseq (modify (upd_buf bh (\<lambda>b. b\<lparr>b_dirt := 0, b_uptodate := 0\<rparr>))) (kseq (brelse (Some bh)) (ret True))))"

lemma free_block_drops:
  assumes "mounted K dev sb s" and "unused s dev (word_of_int v)"
  shows "\<exists>s1. drop_buffer (fst K) dev v s es = Ok True s1 es \<and> mounted K dev sb s1 \<and> zone_free s1 sb = zone_free s sb \<and> outside s1 = outside s \<and>
    (\<forall>i. bkey s i \<noteq> (dev, word_of_int v) \<longrightarrow> buf s1 i = buf s i)"
proof -
  have mt: "cache_inv s" "buffer_wait s = 0" "0 < fst K" "dev \<noteq> 0" using assms(1) by (simp_all add: mounted_def)
  from get_hash_table_run [OF mt(1,4,3) assms(2), of es] show ?thesis
  proof (elim disjE conjE exE)
    assume "get_hash_table (fst K) dev (word_of_int v) s es = Ok None s es"
    then show ?thesis using assms(1) by (intro exI [of _ s]) (simp add: drop_buffer_def kbind_def ret_def)
  next
    fix bh
    assume bh: "bh < length (bufs s)" "bkey s bh = (dev, word_of_int v)"
      "get_hash_table (fst K) dev (word_of_int v) s es = Ok (Some bh) (use_more bh s) es"
    then have c: "b_count (buf s bh) = 0" "b_lock (buf s bh) = 0" "b_count (buf (use_more bh s) bh) = 1"
      using assms(2) by (auto simp: unused_def buf_upd_buf)
    note d = dropped_rest [OF assms(1) bh(1) c(1)]
    have "buf (dropped bh s) i = buf s i" if "bkey s i \<noteq> (dev, word_of_int v)" for i using d(4) that bh(2) by metis
    moreover have "drop_buffer (fst K) dev v s es = Ok True (dropped bh s) es"
      using bh(3) c(3) dropped_run [OF bh(1) c(1,2) mt(2), of True es] by (simp add: drop_buffer_def kbind_def gets_def)
    ultimately show ?thesis using d by (intro exI [of _ "dropped bh s"]) simp
  qed
qed

lemma free_block_run:
  fixes s :: "'z fs_state_scheme"
  assumes "mounted K dev sb s" and "zone_map s sb n = Some m" and "\<not> zone_free s sb n" and "0 < n"
    and "v = int n + uint (s_firstdatazone (sup s sb)) - 1" and "v < uint (s_nzones (sup s sb))" and "unused s dev (word_of_int v)"
  shows "\<exists>t. free_block K dev v s es = Ok () t es \<and> mounted K dev sb t \<and> (\<forall>l. zone_free t sb l \<longleftrightarrow> zone_free s sb l \<or> l = n) \<and> outside t = outside s \<and>
    (\<forall>i. i \<noteq> m \<longrightarrow> bkey s i \<noteq> (dev, word_of_int v) \<longrightarrow> buf t i = buf s i)"
proof -
  obtain s1 where run: "drop_buffer (fst K) dev v s es = Ok True s1 es"
    and s1: "mounted K dev sb s1" "zone_free s1 sb = zone_free s sb" "outside s1 = outside s" "\<And>i. bkey s i \<noteq> (dev, word_of_int v) \<Longrightarrow> buf s1 i = buf s i"
    using free_block_drops [OF assms(1,7), of es] by blast
  note sup = outside_fields(1) [OF s1(3)]
  have z1: "zone_map s1 sb n = Some m" using assms(2) by (auto simp: zone_map_def sup split: if_splits)
  note z = zone_map_buffer [OF s1(1) z1]
  note c = clear_bit_run [OF s1(1) z1, unfolded s1(2), OF assms(3)]
  note p = put_bits_rest [OF z(1), of "clear_bit_map (n mod 8192)"]
  let ?t = "put_bits m (clear_bit_map (n mod 8192)) s1"
  have num: "v - (uint (s_firstdatazone (sup s sb)) - 1) = int n" "\<not> v < uint (s_firstdatazone (sup s sb))" "\<not> v \<ge> uint (s_nzones (sup s sb))"
    "\<not> v < uint (s_firstdatazone (sup s sb)) - 1" using assms(4-6) by simp_all
  have nr: "\<not> int n < 0" "\<not> int n div 8192 \<ge> 8" "nat (int n div 8192) = n div 8192" "nat (int n mod 8192) = n mod 8192"
    using z(4) by (simp_all add: nat_div_distrib nat_mod_distrib flip: zdiv_int [of n 8192, simplified])
  have zm: "s_zmap (sup s sb) ! (n div 8192) = Some m" using z(5) by (simp add: sup)
  have "free_block K dev v s es = Ok () ?t es"
    unfolding free_block_def kbind_assoc [of "get_hash_table (fst K) dev (word_of_int v)", symmetric] drop_buffer_def [symmetric]
    using c(1) check_in_superb_run [OF assms(1), of es] run by (simp add: kern_defs num) (simp add: kern_defs sup num nr zm Let_def put_bits_twice)
  then show ?thesis using c p s1(3,4) by (intro exI [of _ ?t]) simp
qed

section \<open>Taking and giving back\<close>

lemma taken_unused:
  assumes "block_taken dev sb n b nb s t" and "mounted K dev sb t"
  shows "unused t dev b" and "data_of t dev b = replicate 1024 0"
proof -
  have nb: "nb < length (bufs t)" "bkey t nb = (dev, b)" "b_count (buf t nb) = 0" "b_lock (buf t nb) = 0" "b_uptodate (buf t nb) = 1"
    "b_data (buf t nb) = replicate 1024 0" using assms(1) by (simp_all add: block_taken_def)
  have inv: "cache_inv t" "dev \<noteq> 0" using assms(2) by (simp_all add: mounted_def)
  have "i = nb" if "i < length (bufs t)" "bkey t i = (dev, b)" for i
  proof -
    have "inj_on (bkey t) (cached t)" using inv(1) by (simp add: cache_inv_def)
    then show ?thesis using that nb(1,2) inv(2) by (auto simp: inj_on_def cached_def)
  qed
  then show "unused t dev b" unfolding unused_def using nb(3,4) by metis
  have "held t dev b nb" using nb by (simp add: held_def)
  then show "data_of t dev b = replicate 1024 0" using data_of_held [OF inv] nb(6) by simp
qed

text \<open>C16: \<open>new_block\<close> takes the block of the lowest free bit of the bitmaps of a device, whether its buffer has to be found first or not. The bit is set
  and no other changes, the block is full of zeroes, and every other buffer that is in use holds what it did. \<open>free_block\<close> then gives the
  block back: exactly the same bits are free as before, and again no other buffer in use has changed.\<close>

theorem new_block_then_free:
  assumes "mounted K dev sb s" and "zone_free s sb n" and "\<forall>l < n. \<not> zone_free s sb l" and "0 < n"
    and "v = int n + uint (s_firstdatazone (sup s sb)) - 1" and "v < uint (s_nzones (sup s sb))" and "room s dev (word_of_int v)"
  shows "\<exists>t r. new_block K dev s es = Ok v t es \<and> (\<forall>l. zone_free t sb l \<longleftrightarrow> zone_free s sb l \<and> l \<noteq> n) \<and>
    data_of t dev (word_of_int v) = replicate 1024 0 \<and>
    free_block K dev v t es = Ok () r es \<and> (\<forall>l. zone_free r sb l \<longleftrightarrow> zone_free s sb l) \<and>
    (\<forall>i < length (bufs s). b_count (buf s i) \<noteq> 0 \<longrightarrow> zone_map s sb n \<noteq> Some i \<longrightarrow>
      b_data (buf t i) = b_data (buf s i) \<and> b_data (buf r i) = b_data (buf s i))"
proof -
  obtain nb t where t: "new_block K dev s es = Ok v t es" "mounted K dev sb t" "block_taken dev sb n (word_of_int v) nb s t"
    using new_block_run [OF assms(1-3,5-7), of es] by blast
  have bt: "outside t = outside s" "\<And>l. zone_free t sb l \<longleftrightarrow> zone_free s sb l \<and> l \<noteq> n" "b_count (buf s nb) = 0" "bkey t nb = (dev, word_of_int v)"
    "\<And>i. i < length (bufs s) \<Longrightarrow> i \<noteq> nb \<Longrightarrow> zone_map s sb n \<noteq> Some i \<Longrightarrow> payload (buf t i) = payload (buf s i)"
    using t(3) by (simp_all add: block_taken_def)
  note u = taken_unused [OF t(3,2)]
  note sup = outside_fields(1) [OF bt(1)]
  obtain m where m: "zone_map s sb n = Some m" using assms(2) by (auto simp: zone_free_def split: option.splits)
  then have mt: "zone_map t sb n = Some m" by (auto simp: zone_map_def sup split: if_splits)
  obtain r where r: "free_block K dev v t es = Ok () r es" "\<And>l. zone_free r sb l \<longleftrightarrow> zone_free t sb l \<or> l = n"
    "\<And>i. i \<noteq> m \<Longrightarrow> bkey t i \<noteq> (dev, word_of_int v) \<Longrightarrow> buf r i = buf t i"
    using free_block_run [OF t(2) mt _ assms(4), of v es] assms(5,6) u(1) bt(2) sup by auto
  have "b_data (buf t i) = b_data (buf s i) \<and> b_data (buf r i) = b_data (buf s i)"
    if i: "i < length (bufs s)" "b_count (buf s i) \<noteq> 0" "zone_map s sb n \<noteq> Some i" for i
  proof -
    have pl: "payload (buf t i) = payload (buf s i)" using bt(3,5) i by blast
    have "i \<noteq> nb" using bt(3) i(2) by blast
    have "b_count (buf t i) \<noteq> 0" using arg_cong [OF pl, of b_count] i(2) by simp
    moreover have "length (bufs t) = length (bufs s)" using t(3) by (simp add: block_taken_def)
    ultimately have "bkey t i \<noteq> (dev, word_of_int v)" using u(1) i(1) by (auto simp: unused_def)
    then have "buf r i = buf t i" using r(3) i(3) m by auto
    then show ?thesis using arg_cong [OF pl, of b_data] by simp
  qed
  then show ?thesis using t(1) bt(2) u(2) r(1,2) assms(2) by (intro exI [of _ t] exI [of _ r]) auto
qed

text \<open>A device of a hundred blocks whose first data block is block 10, with block 7 as its bitmap; no data block is in use.\<close>

definition demo_super :: "nat \<Rightarrow> super_block" where
  "demo_super bh = \<lparr>s_ninodes = 0, s_nzones = 100, s_imap_blocks = 0, s_zmap_blocks = 1, s_firstdatazone = 10, s_log_zone_size = 0,
     s_max_size = 0, s_magic = 0x137F, s_imap = replicate 8 None, s_zmap = (replicate 8 None)[0 := Some bh], s_dev = 0x101,
     s_inode_super = None, s_inode_mount = None, s_time = 0, s_wait = 0, s_lock = 0, s_rd_only = 0, s_dirt = 0\<rparr>"

definition alloc_demo :: "nat \<Rightarrow> fs_state \<Rightarrow> fs_state" where
  "alloc_demo bh s = (upd_buf (1 - bh) (\<lambda>b. b\<lparr>b_count := 0, b_dirt := 0, b_lock := 0\<rparr>)
     (upd_buf bh (\<lambda>b. b\<lparr>b_data := 1 # replicate 1023 0, b_count := 1\<rparr>) s))\<lparr>buffer_wait := 0, super_blocks := [demo_super bh]\<rparr>"

lemma alloc_demo_mounted:
  assumes "cache_inv s" and "bh < length (bufs s)" and "bkey s bh = (0x101, 7)" and "length (bufs s) = 2"
  shows "mounted rd_ctx 0x101 0 (alloc_demo bh s)" and "room (alloc_demo bh s) 0x101 10"
    and "zone_free (alloc_demo bh s) 0 l \<longleftrightarrow> 0 < l \<and> l < 8192" and "sup (alloc_demo bh s) 0 = demo_super bh"
proof -
  let ?s = "alloc_demo bh s"
  have len: "length (bufs ?s) = length (bufs s)" "hash_table ?s = hash_table s" "free_list ?s = free_list s" "buffer_wait ?s = 0"
    by (simp_all add: alloc_demo_def)
  have "bh = 0 \<or> bh = 1" using assms(2,4) by auto
  then have j: "1 - bh < length (bufs s)" "1 - bh \<noteq> bh" "\<And>i. i < 2 \<longleftrightarrow> i = bh \<or> i = 1 - bh" using assms(4) by auto
  have buf: "buf ?s = (buf s)(bh := (buf s bh)\<lparr>b_data := 1 # replicate 1023 0, b_count := 1\<rparr>, 1 - bh := (buf s (1 - bh))\<lparr>b_count := 0, b_dirt := 0, b_lock := 0\<rparr>)"
    using assms(2) j(1,2) buf_upd_buf [of bh s] buf_upd_buf [of "1 - bh" "upd_buf bh _ s"]
    by (simp add: alloc_demo_def buf_def fun_eq_iff)
  show sup: "sup ?s 0 = demo_super bh" by (simp add: alloc_demo_def sup_def)
  have inv: "cache_inv ?s" by (rule cache_inv_cong [OF assms(1) len(1-3)]) (simp_all add: fun_eq_iff link_defs buf)
  have "scan_up (\<lambda>i. s_dev (sup ?s i) = 0x101) 8 = Some 0" using sup by (simp add: scan_up_Some demo_super_def)
  moreover have z: "s_zmap (demo_super bh) ! k = (if k = 0 then Some bh else None)" if "k < 8" for k
    using that by (cases k) (simp_all add: demo_super_def)
  ultimately show "mounted rd_ctx 0x101 0 ?s"
    using inv sup assms(2) j(2) len by (simp add: mounted_def rd_ctx_def buf) (simp add: demo_super_def)
  have key: "bkey ?s = bkey s" by (simp add: fun_eq_iff bkey_def buf)
  have free: "b_count (buf ?s (1 - bh)) = 0" "b_lock (buf ?s (1 - bh)) = 0" "b_dirt (buf ?s (1 - bh)) = 0" by (simp_all add: buf)
  show "room ?s 0x101 10"
  proof (cases "bkey s (1 - bh) = (0x101, 10)")
    case True
    then show ?thesis unfolding room_def key len(1) using free j(1) by blast
  next
    case False
    then have "\<forall>i < 2. bkey s i \<noteq> (0x101, 10)" using j(3) assms(3) by auto
    then show ?thesis unfolding room_def key len(1) assms(4) using free j(1) assms(4) by auto
  qed
  have "test_bit l (1 # replicate 1023 0) \<longleftrightarrow> l = 0" if "l < 8192"
  proof (cases "l div 8")
    case 0
    then have "l mod 8 = l" by simp
    then show ?thesis using 0 by (simp add: test_bit_def bit_1_iff)
  next
    case (Suc q)
    then have "q < 1023" using that by (auto simp: div_nat_eqI)
    then show ?thesis using Suc by (auto simp: test_bit_def)
  qed
  moreover have "zone_map ?s 0 l = (if l < 8192 then Some bh else None)"
    using z [of "l div 8192"] by (auto simp: zone_map_def sup)
  moreover have "b_data (buf ?s bh) = 1 # replicate 1023 0" using j(2) by (simp add: buf)
  ultimately show "zone_free ?s 0 l \<longleftrightarrow> 0 < l \<and> l < 8192" by (auto simp: zone_free_def)
qed

theorem new_block_then_free_witness:
  "\<exists>s t r. new_block rd_ctx 0x101 s [] = Ok 10 t [] \<and> data_of t 0x101 10 = replicate 1024 0 \<and> zone_free s 0 1 \<and> \<not> zone_free t 0 1 \<and>
    free_block rd_ctx 0x101 10 t [] = Ok () r [] \<and> zone_free r 0 1"
proof -
  obtain s0 :: fs_state and bh where s0: "cache_inv s0" "bh < length (bufs s0)" "bkey s0 bh = (0x101, 7)" "length (bufs s0) = 2"
    by (rule block_seven_cached) blast
  let ?s = "alloc_demo bh s0"
  note d = alloc_demo_mounted [OF s0]
  have "\<exists>t r. new_block rd_ctx 0x101 ?s [] = Ok 10 t [] \<and> (\<forall>l. zone_free t 0 l \<longleftrightarrow> zone_free ?s 0 l \<and> l \<noteq> 1) \<and>
    data_of t 0x101 (word_of_int 10) = replicate 1024 0 \<and>
    free_block rd_ctx 0x101 10 t [] = Ok () r [] \<and> (\<forall>l. zone_free r 0 l \<longleftrightarrow> zone_free ?s 0 l) \<and>
    (\<forall>i < length (bufs ?s). b_count (buf ?s i) \<noteq> 0 \<longrightarrow> zone_map ?s 0 1 \<noteq> Some i \<longrightarrow>
      b_data (buf t i) = b_data (buf ?s i) \<and> b_data (buf r i) = b_data (buf ?s i))"
    by (rule new_block_then_free [OF d(1)]) (use d(2) in \<open>simp_all add: d(3,4)\<close>, simp_all add: demo_super_def)
  then obtain t r where "new_block rd_ctx 0x101 ?s [] = Ok 10 t []" "\<not> zone_free t 0 1" "data_of t 0x101 10 = replicate 1024 0"
    "free_block rd_ctx 0x101 10 t [] = Ok () r []" "zone_free r 0 1 = zone_free ?s 0 1" by auto
  moreover have "zone_free ?s 0 1" by (simp add: d(3))
  ultimately show ?thesis by blast
qed

end
