(* ===== verification/Inode_io.thy ===== *)
theory Inode_io
  imports File_write Alloc
begin

unbundle bit_operations_syntax

text \<open>
  Inodes on the disk: \<open>write_inode\<close> and \<open>read_inode\<close> (fs/inode.c) over the buffer cache and the table of super blocks. The inodes
  of a device follow its boot block, its super block and its two bitmaps, 32 to a block, from number 1 on.
\<close>

section \<open>Where an inode is\<close>

definition inode_place :: "super_block \<Rightarrow> nat \<Rightarrow> nat \<times> nat" where
  "inode_place sb num = (2 + unat (s_imap_blocks sb) + unat (s_zmap_blocks sb) + (num - 1) div 32, 32 * ((num - 1) mod 32))"

text \<open>An inode with the fields that are on the disk taken from there, by way of the buffers.\<close>

definition disk_inode :: "'z fs_state_scheme \<Rightarrow> u16 \<Rightarrow> nat \<Rightarrow> nat \<Rightarrow> m_inode \<Rightarrow> m_inode" where
  "disk_inode s dev sb num =
     (let p = inode_place (sup s sb) num in get_d_inode (data_of s dev (of_nat (fst p))) (snd p))"

definition disk_fields :: "m_inode \<Rightarrow> m_inode \<Rightarrow> m_inode" where
  "disk_fields n m = m\<lparr>i_mode := i_mode n, i_uid := i_uid n, i_size := i_size n, i_mtime := i_mtime n,
     i_gid := i_gid n, i_nlinks := i_nlinks n, i_zone := i_zone n\<rparr>"

lemma unat_u16: "unat (w :: u16) < 65536"
  using unsigned_less [of w] by simp

lemma inode_place_eq:
  assumes "i_num n \<noteq> 0"
  shows "inode_block sb n = of_nat (fst (inode_place sb (unat (i_num n))))" and "inode_offset n = snd (inode_place sb (unat (i_num n)))"
proof -
  define k where "k = unat (i_num n) - 1"
  have "unat (i_num n) < 2 ^ 16" using unat_u16 [of "i_num n"] by simp
  then have "unat (ucast (i_num n) :: u32) = unat (i_num n)" by (simp add: unsigned_ucast_eq take_bit_nat_eq_self)
  moreover from this have "(ucast (i_num n) :: u32) \<noteq> 0" using assms by (metis unat_eq_zero)
  ultimately have k: "unat (ucast (i_num n) - 1 :: u32) = k" by (simp add: unat_minus_one k_def)
  have "unat ((ucast (i_num n) - 1 :: u32) div 32) = k div 32" "unat ((ucast (i_num n) - 1 :: u32) mod 32) = k mod 32"
    by (simp_all add: unat_div unat_mod k)
  then have q: "(ucast (i_num n) - 1 :: u32) div 32 = of_nat (k div 32)" "unat ((ucast (i_num n) - 1 :: u32) mod 32) = k mod 32"
    by (metis of_nat_unat ucast_id, blast)
  have "(ucast w :: u32) = of_nat (unat w)" for w :: u16 by simp
  then show "inode_block sb n = of_nat (fst (inode_place sb (unat (i_num n))))"
    unfolding inode_block_def inode_place_def using q(1) by (simp add: k_def)
  show "inode_offset n = snd (inode_place sb (unat (i_num n)))"
    unfolding inode_offset_def inode_place_def using q(2) by (simp add: k_def)
qed

text \<open>Different numbers have different places.\<close>

lemma inode_place_other:
  assumes "0 < num" and "0 < num'" and "num \<noteq> num'" and "fst (inode_place sb num) = fst (inode_place sb num')"
  shows "snd (inode_place sb num') + 32 \<le> snd (inode_place sb num) \<or> snd (inode_place sb num) + 32 \<le> snd (inode_place sb num')"
proof -
  define a b where "a = num - 1" and "b = num' - 1"
  have "a \<noteq> b" "a div 32 = b div 32" using assms by (auto simp: a_def b_def inode_place_def)
  then have "a mod 32 \<noteq> b mod 32" by (metis div_mult_mod_eq)
  then show ?thesis unfolding inode_place_def snd_conv a_def [symmetric] b_def [symmetric] by arith
qed

section \<open>Writing and reading\<close>

text \<open>An inode whose block can be used at once, on a mounted device; nobody waits for it.\<close>

definition inode_ready :: "'z fs_state_scheme ctx \<Rightarrow> nat \<Rightarrow> nat \<Rightarrow> nat \<Rightarrow> 'z fs_state_scheme \<Rightarrow> bool" where
  "inode_ready K sb i bh s \<longleftrightarrow> calm K i s \<and> i < length (inode_table s) \<and> i_lock (ino s i) = 0 \<and> i_wait (ino s i) = 0 \<and> i_num (ino s i) \<noteq> 0 \<and>
     scan_up (\<lambda>k. s_dev (sup s k) = i_dev (ino s i)) NR_SUPER = Some sb \<and> s_lock (sup s sb) = 0 \<and>
     held s (i_dev (ino s i)) (of_nat (fst (inode_place (sup s sb) (unat (i_num (ino s i)))))) bh"

text \<open>Both functions hold the lock of the inode while they use the block.\<close>

lemma lock_inode_run:
  assumes "i_lock (ino s i) = 0"
  shows "lock_inode i s es = Ok () (upd_ino i (\<lambda>n. n\<lparr>i_lock := 1\<rparr>) s) es"
  using assms by (simp add: lock_inode_def wait_on_inode_unlock_def wait_on_def kern_defs)

lemma unlock_inode_run:
  assumes "i < length (inode_table s)" and "i_wait (ino s i) = 0"
  shows "unlock_inode i s es = Ok () (upd_ino i (\<lambda>n. n\<lparr>i_lock := 0\<rparr>) s) es"
  using assms by (simp add: unlock_inode_def kern_defs wake_up_last_def iwait_queue_def)

lemma upd_ino_twice: "upd_ino i f (upd_ino i g s) = upd_ino i (f \<circ> g) s"
  by (simp add: upd_ino_def)

lemma upd_ino_rest [simp]: "sup (upd_ino i g s) = sup s" "buffer_wait (upd_ino i g s) = buffer_wait s" "bufs (upd_ino i g s) = bufs s" "buf (upd_ino i g s) = buf s"
  by (simp_all add: upd_ino_def sup_def buf_def fun_eq_iff)

lemma cache_inv_upd_ino: "cache_inv s \<Longrightarrow> cache_inv (upd_ino i g s)"
  using cache_ok_cong [of "upd_ino i g s" s "length (bufs s)"] by (simp add: cache_ok_def upd_ino_def)

text \<open>The block of a locked inode is found.\<close>

lemma locked_block:
  assumes "inode_ready K sb i bh s" and "t = upd_ino i (\<lambda>n. n\<lparr>i_lock := 1\<rparr>) s"
  shows "check_in_superb (fst K) (i_dev (ino s i)) t es = Ok (Some sb) t es"
    and "bread K (i_dev (ino s i)) (inode_block (sup s sb) (ino s i)) t es = Ok (Some bh) (use_more bh t) es"
    and "ino t i = (ino s i)\<lparr>i_lock := 1\<rparr>" and "sup t = sup s" and "inode_block (sup s sb) ((ino s i)\<lparr>i_lock := 1\<rparr>) = inode_block (sup s sb) (ino s i)"
proof -
  have r: "cache_inv s" "1 < fst K" "i_dev (ino s i) \<noteq> 0" "i < length (inode_table s)" "i_num (ino s i) \<noteq> 0" "s_lock (sup s sb) = 0"
      "scan_up (\<lambda>k. s_dev (sup s k) = i_dev (ino s i)) NR_SUPER = Some sb"
      "held s (i_dev (ino s i)) (of_nat (fst (inode_place (sup s sb) (unat (i_num (ino s i)))))) bh"
    using assms(1) by (simp_all add: inode_ready_def calm_def)
  show "check_in_superb (fst K) (i_dev (ino s i)) t es = Ok (Some sb) t es"
    using r by (intro superb_found) (simp_all add: assms(2))
  have "held t = held s" by (rule bufs_view) (simp add: assms(2))
  then show "bread K (i_dev (ino s i)) (inode_block (sup s sb) (ino s i)) t es = Ok (Some bh) (use_more bh t) es"
    using r by (intro bread_held) (simp_all add: assms(2) cache_inv_upd_ino inode_place_eq(1))
  show "ino t i = (ino s i)\<lparr>i_lock := 1\<rparr>" "sup t = sup s" using r(4) by (simp_all add: assms(2))
  show "inode_block (sup s sb) ((ino s i)\<lparr>i_lock := 1\<rparr>) = inode_block (sup s sb) (ino s i)" by (simp add: inode_block_def)
qed

lemma upd_ino_cong: "f (ino s i) = g (ino s i) \<Longrightarrow> upd_ino i f s = upd_ino i g s"
  by (cases "i < length (inode_table s)") (simp_all add: upd_ino_def upd_nth_def ino_def list_update_beyond)

lemma use_more_put_block: "put_block bh off bs (use_more bh s) = use_more bh (put_block bh off bs s)"
proof -
  have "(\<lambda>b :: buffer_head. b\<lparr>b_data := overlay off bs (b_data b), b_dirt := 1\<rparr>) \<circ> (\<lambda>b. b\<lparr>b_count := b_count b + 1\<rparr>) =
    (\<lambda>b. b\<lparr>b_count := b_count b + 1\<rparr>) \<circ> (\<lambda>b. b\<lparr>b_data := overlay off bs (b_data b), b_dirt := 1\<rparr>)"
    by (simp add: fun_eq_iff)
  then show ?thesis by (simp add: put_block_def upd_buf_def)
qed

lemma use_more_upd_ino: "upd_ino i g (use_more bh s) = use_more bh (upd_ino i g s)" "ino (use_more bh s) = ino s" "sup (use_more bh s) = sup s"
  by (simp_all add: upd_buf_def upd_ino_def ino_def sup_def fun_eq_iff)

lemma put_block_upd_ino: "put_block bh off bs (upd_ino i g s) = upd_ino i g (put_block bh off bs s)"
  by (simp add: put_block_def upd_buf_def upd_ino_def)

lemma write_inode_run:
  assumes "inode_ready K sb i bh s" and "i_dirt (ino s i) \<noteq> 0" and "length (i_zone (ino s i)) = 9"
  shows "write_inode K i s es = Ok () (upd_ino i (\<lambda>n. n\<lparr>i_dirt := 0\<rparr>) (put_block bh (inode_offset (ino s i)) (put_d_inode (ino s i)) s)) es"
proof -
  let ?n = "ino s i" and ?off = "inode_offset (ino s i)" and ?bs = "put_d_inode (ino s i)"
  define t where "t = upd_ino i (\<lambda>n. n\<lparr>i_lock := 1\<rparr>) s"
  define u where "u = upd_ino i (\<lambda>n. n\<lparr>i_dirt := 0\<rparr>) (put_block bh ?off ?bs t)"
  note l = locked_block [OF assms(1) t_def]
  have r: "cache_inv s" "buffer_wait s = 0" "i_dev ?n \<noteq> 0" "i < length (inode_table s)" "i_lock ?n = 0" "i_wait ?n = 0" "i_num ?n \<noteq> 0"
      "held s (i_dev ?n) (of_nat (fst (inode_place (sup s sb) (unat (i_num ?n))))) bh"
    using assms(1) by (simp_all add: inode_ready_def calm_def)
  have off: "?off + length ?bs \<le> 1024" using inode_place_eq(2) [OF r(7), of "sup s sb"] assms(3) by (simp add: inode_place_def)
  have view: "held t = held s" "cache_inv t" by (rule bufs_view, simp add: t_def) (simp add: t_def cache_inv_upd_ino r(1))
  have "held (put_block bh ?off ?bs t) = held s"
    using put_block_view(2) [OF view(2) r(3) _ off] r(8) view(1) by simp
  moreover have "held u = held (put_block bh ?off ?bs t)" by (rule bufs_view) (simp add: u_def)
  ultimately have "held u (i_dev ?n) (of_nat (fst (inode_place (sup s sb) (unat (i_num ?n))))) bh" using r(8) by simp
  moreover have "buffer_wait u = 0" using r(2) by (simp add: u_def t_def)
  ultimately have rel: "brelse (Some bh) (use_more bh u) es = Ok () u es" by (rule brelse_held)
  have w: "upd_ino i (\<lambda>n. n\<lparr>i_dirt := 0\<rparr>) (upd_buf bh (\<lambda>b. b\<lparr>b_data := overlay ?off ?bs (b_data b), b_dirt := 1\<rparr>) (use_more bh t)) = use_more bh u"
    by (simp only: put_block_def [symmetric] use_more_put_block use_more_upd_ino u_def)
  have "inode_offset (ino t i) = ?off" "put_d_inode (ino t i) = ?bs" by (simp_all add: l(3) inode_offset_def put_d_inode_def)
  moreover have "ino u i = ?n\<lparr>i_lock := 1, i_dirt := 0\<rparr>" "i < length (inode_table u)" using r(4) by (simp_all add: u_def t_def)
  moreover from this have "unlock_inode i u es = Ok () (upd_ino i (\<lambda>n. n\<lparr>i_lock := 0\<rparr>) u) es" using r(6) by (intro unlock_inode_run) simp_all
  ultimately have "write_inode K i s es = Ok () (upd_ino i (\<lambda>n. n\<lparr>i_lock := 0\<rparr>) u) es"
    using l(1,2) rel assms(2) r(3,5) lock_inode_run [OF r(5), of es, folded t_def]
    by (simp add: write_inode_def write_inode_of_def kern_defs l(3,4,5) use_more_upd_ino w)
  moreover have "upd_ino i (\<lambda>n. n\<lparr>i_lock := 0\<rparr>) u = upd_ino i (\<lambda>n. n\<lparr>i_dirt := 0\<rparr>) (put_block bh ?off ?bs s)"
    unfolding u_def t_def put_block_upd_ino upd_ino_twice using r(5) by (intro upd_ino_cong) simp
  ultimately show ?thesis by simp
qed

lemma read_inode_run:
  assumes "inode_ready K sb i bh s"
  shows "read_inode K i s es = Ok () (upd_ino i (disk_inode s (i_dev (ino s i)) sb (unat (i_num (ino s i)))) s) es"
proof -
  let ?n = "ino s i"
  define t where "t = upd_ino i (\<lambda>n. n\<lparr>i_lock := 1\<rparr>) s"
  define u where "u = upd_ino i (\<lambda>n. get_d_inode (b_data (buf s bh)) (inode_offset n) n) t"
  note l = locked_block [OF assms t_def]
  have r: "cache_inv s" "buffer_wait s = 0" "i_dev ?n \<noteq> 0" "i < length (inode_table s)" "i_lock ?n = 0" "i_wait ?n = 0" "i_num ?n \<noteq> 0"
      "held s (i_dev ?n) (of_nat (fst (inode_place (sup s sb) (unat (i_num ?n))))) bh"
    using assms by (simp_all add: inode_ready_def calm_def)
  have "held u = held s" by (rule bufs_view) (simp add: u_def t_def)
  then have "held u (i_dev ?n) (of_nat (fst (inode_place (sup s sb) (unat (i_num ?n))))) bh" using r(8) by simp
  moreover have "buffer_wait u = 0" using r(2) by (simp add: u_def t_def)
  ultimately have rel: "brelse (Some bh) (use_more bh u) es = Ok () u es" by (rule brelse_held)
  have "b_data (buf (use_more bh t) bh) = b_data (buf s bh)" using r(8) by (simp add: held_def buf_upd_buf t_def)
  then have w: "upd_ino i (\<lambda>n. get_d_inode (b_data (buf (use_more bh t) bh)) (inode_offset n) n) (use_more bh t) = use_more bh u"
    by (simp only: use_more_upd_ino u_def)
  have "ino u i = get_d_inode (b_data (buf s bh)) (inode_offset ?n) (?n\<lparr>i_lock := 1\<rparr>)" "i < length (inode_table u)"
    using r(4) by (simp_all add: u_def t_def inode_offset_def)
  moreover from this have "unlock_inode i u es = Ok () (upd_ino i (\<lambda>n. n\<lparr>i_lock := 0\<rparr>) u) es"
    using r(6) by (intro unlock_inode_run) (simp_all add: get_d_inode_def)
  ultimately have "read_inode K i s es = Ok () (upd_ino i (\<lambda>n. n\<lparr>i_lock := 0\<rparr>) u) es"
    using l(1,2) rel lock_inode_run [OF r(5), of es, folded t_def]
    by (simp add: read_inode_def kern_defs l(3,4,5) w)
  moreover have "upd_ino i (\<lambda>n. n\<lparr>i_lock := 0\<rparr>) u = upd_ino i (disk_inode s (i_dev ?n) sb (unat (i_num ?n))) s"
    unfolding u_def t_def upd_ino_twice using r(5) data_of_held [OF r(1,3,8)] inode_place_eq(2) [OF r(7), of "sup s sb"]
    by (intro upd_ino_cong) (simp add: disk_inode_def Let_def get_d_inode_def inode_offset_def)
  ultimately show ?thesis by simp
qed

section \<open>An inode is read back as it was written\<close>

lemma get_d_inode_cong:
  assumes "\<And>k. off \<le> k \<Longrightarrow> k < off + 32 \<Longrightarrow> bs ! k = cs ! k"
  shows "get_d_inode bs off m = get_d_inode cs off m"
proof -
  have 16: "le16 bs k = le16 cs k" if "off \<le> k" "k + 1 < off + 32" for k using assms that by (simp add: le16_def)
  have 32: "le_word bs k = le_word cs k" if "off \<le> k" "k + 3 < off + 32" for k using assms that by (simp add: le_word_def)
  show ?thesis using assms 16 32 by (simp add: get_d_inode_def)
qed

text \<open>An inode put into its block, seen from the place of any number.\<close>

lemma disk_inode_put:
  fixes s :: "'z fs_state_scheme"
  assumes "inode_ready K sb i bh s" and "length (i_zone (ino s i)) = 9" and "n = ino s i"
    and "t = upd_ino i (\<lambda>n. n\<lparr>i_dirt := 0\<rparr>) (put_block bh (inode_offset n) (put_d_inode n) s)" and "0 < num" and "num < 65536"
  shows "disk_inode t (i_dev n) sb num m = (if num = unat (i_num n) then disk_fields n m else disk_inode s (i_dev n) sb num m)"
proof -
  let ?p = "inode_place (sup s sb)"
  have r: "cache_inv s" "i_dev n \<noteq> 0" "i_num n \<noteq> 0" "held s (i_dev n) (of_nat (fst (?p (unat (i_num n))))) bh"
    using assms(1) by (simp_all add: inode_ready_def calm_def assms(3))
  have off: "inode_offset n = snd (?p (unat (i_num n)))" by (rule inode_place_eq [OF r(3)])
  then have o: "inode_offset n + length (put_d_inode n) \<le> 1024" "length (put_d_inode n) = 32" using assms(2,3) by (simp_all add: inode_place_def)
  define D where "D = data_of s (i_dev n) (of_nat (fst (?p (unat (i_num n)))))"
  have D: "length D = 1024" using data_of_held [OF r(1,2,4)] r(4) by (simp add: D_def held_def)
  have "data_of t = data_of (put_block bh (inode_offset n) (put_d_inode n) s)" by (rule bufs_view) (simp add: assms(4))
  then have data: "data_of t (i_dev n) x = (if x = of_nat (fst (?p (unat (i_num n)))) then overlay (inode_offset n) (put_d_inode n) D
      else data_of s (i_dev n) x)" for x
    using put_block_view(3) [OF r(1,2,4) o(1)] by (simp add: D_def)
  have sup: "sup t = sup s" by (simp add: assms(4) put_block_def upd_buf_def sup_def fun_eq_iff upd_ino_def)
  have small: "fst (?p k) < 2 ^ 32" if "k < 65536" for k
  proof -
    note unat_u16 [of "s_imap_blocks (sup s sb)"] unat_u16 [of "s_zmap_blocks (sup s sb)"]
    moreover have "(k - 1) div 32 \<le> k" by (rule order_trans [OF div_le_dividend diff_le_self])
    ultimately show ?thesis using that by (simp add: inode_place_def)
  qed
  show ?thesis
  proof (cases "num = unat (i_num n)")
    case True
    have "get_d_inode (overlay (inode_offset n) (put_d_inode n) D) (inode_offset n) m = disk_fields n m"
      using d_inode_roundtrip [of n "inode_offset n" D m] assms(2,3) o D by (simp add: disk_fields_def)
    then show ?thesis using True unfolding disk_inode_def sup Let_def off [symmetric] by (simp add: data off)
  next
    case False
    have eq: "get_d_inode (overlay (inode_offset n) (put_d_inode n) D) (snd (?p num)) m = get_d_inode D (snd (?p num)) m"
      if "fst (?p num) = fst (?p (unat (i_num n)))"
    proof (rule get_d_inode_cong)
      fix k
      assume k: "snd (?p num) \<le> k" "k < snd (?p num) + 32"
      have "snd (?p num) + 32 \<le> inode_offset n \<or> inode_offset n + 32 \<le> snd (?p num)"
        using inode_place_other [OF assms(5) _ False that] r(3) off by (auto simp: unat_gt_0)
      moreover have "k < 1024" using k(2) by (auto simp: inode_place_def)
      ultimately show "overlay (inode_offset n) (put_d_inode n) D ! k = D ! k"
        using nth_overlay_cases [of "inode_offset n" "put_d_inode n" D k] o D k by auto
    qed
    have "unat (i_num n) < 65536" by (rule unat_u16)
    then have "(of_nat (fst (?p num)) :: u32) = of_nat (fst (?p (unat (i_num n)))) \<longleftrightarrow> fst (?p num) = fst (?p (unat (i_num n)))"
      using small [OF assms(6)] small [of "unat (i_num n)"] by (metis unat_of_nat_u32)
    then show ?thesis using False eq by (auto simp: disk_inode_def sup data Let_def D_def)
  qed
qed

text \<open>C17: an inode that is written to the disk is read back from there. \<open>write_inode\<close> of a dirty inode leaves it clean and puts it, in a
  buffer that is now dirty, at the place of its number: behind the boot block, the super block, the two bitmaps and the inodes with lower numbers,
  32 to a block. No other number of the device has changed on the disk, and no other inode in memory. \<open>read_inode\<close> of the same
  number, into this or any other entry of the table, then gives the mode, owner, size, time, group, link count and the nine zone
  numbers that were written, and leaves the rest of the entry and all other entries as they are. The device is mounted, the
  block is in the cache and free to use, and nobody waits for the inodes.\<close>

theorem write_inode_then_read:
  fixes s :: "'z fs_state_scheme"
  assumes "inode_ready K sb i bh s" and "inode_ready K sb j bh s" and "i_dirt (ino s i) \<noteq> 0" and "length (i_zone (ino s i)) = 9"
    and "i_dev (ino s j) = i_dev (ino s i)" and "i_num (ino s j) = i_num (ino s i)"
  shows "\<exists>t r. write_inode K i s es = Ok () t es \<and> b_dirt (buf t bh) = 1 \<and> ino t i = (ino s i)\<lparr>i_dirt := 0\<rparr> \<and> (\<forall>k. k \<noteq> i \<longrightarrow> ino t k = ino s k) \<and>
    (\<forall>num m. 0 < num \<longrightarrow> num < 65536 \<longrightarrow> disk_inode t (i_dev (ino s i)) sb num m =
      (if num = unat (i_num (ino s i)) then disk_fields (ino s i) m else disk_inode s (i_dev (ino s i)) sb num m)) \<and>
    read_inode K j t es = Ok () r es \<and> ino r j = disk_fields (ino s i) (ino t j) \<and> (\<forall>k. k \<noteq> j \<longrightarrow> ino r k = ino t k)"
proof -
  let ?n = "ino s i"
  define t where "t = upd_ino i (\<lambda>n. n\<lparr>i_dirt := 0\<rparr>) (put_block bh (inode_offset ?n) (put_d_inode ?n) s)"
  note run = write_inode_run [OF assms(1,3,4), of es, folded t_def]
  have r: "cache_inv s" "i_dev ?n \<noteq> 0" "i_num ?n \<noteq> 0" "i < length (inode_table s)" "held s (i_dev ?n) (of_nat (fst (inode_place (sup s sb) (unat (i_num ?n))))) bh"
    using assms(1) by (simp_all add: inode_ready_def calm_def)
  have o: "inode_offset ?n + length (put_d_inode ?n) \<le> 1024" using inode_place_eq(2) [OF r(3), of "sup s sb"] assms(4) by (simp add: inode_place_def)
  have ino: "ino t i = ?n\<lparr>i_dirt := 0\<rparr>" "\<forall>k. k \<noteq> i \<longrightarrow> ino t k = ino s k" "length (inode_table t) = length (inode_table s)" "sup t = sup s"
    "buffer_wait t = buffer_wait s"
    using r(4) by (simp_all add: t_def) (simp_all add: put_block_def upd_buf_def sup_def fun_eq_iff)
  have "held t = held (put_block bh (inode_offset ?n) (put_d_inode ?n) s)" by (rule bufs_view) (simp add: t_def)
  then have held: "held t = held s" using put_block_view(2) [OF r(1,2,5) o] by simp
  have dirt: "b_dirt (buf t bh) = 1" using r(5) by (simp add: t_def put_block_def held_def buf_upd_buf)
  have inv: "cache_inv t" using put_block_view(1) [OF r(1,2,5) o] by (simp add: t_def cache_inv_upd_ino)
  have fields: "i_dev (ino t j) = i_dev (ino s j)" "i_lock (ino t j) = i_lock (ino s j)" "i_wait (ino t j) = i_wait (ino s j)" "i_num (ino t j) = i_num (ino s j)"
    using ino(1,2) by (cases "j = i"; simp)+
  have "inode_ready K sb j bh t" using assms(2) inv by (simp add: inode_ready_def calm_def fields ino(3-5) held)
  note read = read_inode_run [OF this, of es]
  have num: "0 < unat (i_num ?n)" "unat (i_num ?n) < 65536" using r(3) unat_u16 by (simp_all add: unat_gt_0)
  note disk = disk_inode_put [OF assms(1,4) refl t_def]
  have "disk_inode t (i_dev (ino t j)) sb (unat (i_num (ino t j))) (ino t j) = disk_fields ?n (ino t j)"
    using disk [OF num] by (simp add: fields assms(5,6))
  moreover have "j < length (inode_table t)" using assms(2) ino(3) by (simp add: inode_ready_def)
  ultimately show ?thesis using run read ino(1,2) disk dirt
    by (intro exI [of _ t] exI [of _ "upd_ino j (disk_inode t (i_dev (ino t j)) sb (unat (i_num (ino t j)))) t"]) auto
qed

text \<open>Inode 40 of a device with two blocks for each bitmap is in block 7; entry 1 of the table is for the same inode.\<close>

definition inode_demo :: "nat \<Rightarrow> fs_state \<Rightarrow> fs_state" where
  "inode_demo bh s = (upd_buf bh (\<lambda>b. b\<lparr>b_data := replicate 1024 0, b_lock := 0, b_uptodate := 1, b_count := 0\<rparr>) s)\<lparr>buffer_wait := 0,
     super_blocks := [(demo_super 0)\<lparr>s_imap_blocks := 2, s_zmap_blocks := 2\<rparr>],
     inode_table := [zero_inode\<lparr>i_mode := 0x81ED, i_size := 70000, i_zone := [9, 8, 7, 6, 5, 4, 3, 2, 1], i_dev := 0x101, i_num := 40, i_dirt := 1\<rparr>,
       zero_inode\<lparr>i_dev := 0x101, i_num := 40, i_count := 1\<rparr>]\<rparr>"

theorem write_inode_then_read_witness:
  "\<exists>s t r. write_inode rd_ctx 0 s [] = Ok () t [] \<and> i_dirt (ino t 0) = 0 \<and> read_inode rd_ctx 1 t [] = Ok () r [] \<and>
    i_size (ino r 1) = 70000 \<and> i_zone (ino r 1) = [9, 8, 7, 6, 5, 4, 3, 2, 1] \<and> i_count (ino r 1) = 1"
proof -
  obtain s0 :: fs_state and bh where s0: "cache_inv s0" "bh < length (bufs s0)" "bkey s0 bh = (0x101, 7)" by (rule block_seven_cached) blast
  let ?s = "inode_demo bh s0"
  have buf: "buf ?s = (buf s0)(bh := (buf s0 bh)\<lparr>b_data := replicate 1024 0, b_lock := 0, b_uptodate := 1, b_count := 0\<rparr>)"
    using s0(2) by (simp add: inode_demo_def fun_eq_iff) (simp add: buf_def upd_buf_def nth_upd_nth)
  have len: "length (bufs ?s) = length (bufs s0)" "hash_table ?s = hash_table s0" "free_list ?s = free_list s0" "buffer_wait ?s = 0"
    "length (inode_table ?s) = 2" by (simp_all add: inode_demo_def)
  have held: "held ?s 0x101 7 bh" using s0(2,3) by (simp add: held_def bkey_def buf len)
  have inv: "cache_inv ?s" by (rule cache_inv_cong [OF s0(1) len(1-3)]) (simp_all add: fun_eq_iff link_defs buf)
  have sup: "sup ?s 0 = (demo_super 0)\<lparr>s_imap_blocks := 2, s_zmap_blocks := 2\<rparr>" by (simp add: inode_demo_def sup_def)
  have ino: "ino ?s 0 = zero_inode\<lparr>i_mode := 0x81ED, i_size := 70000, i_zone := [9, 8, 7, 6, 5, 4, 3, 2, 1], i_dev := 0x101, i_num := 40, i_dirt := 1\<rparr>"
    "ino ?s 1 = zero_inode\<lparr>i_dev := 0x101, i_num := 40, i_count := 1\<rparr>" by (simp_all add: inode_demo_def ino_def)
  have found: "scan_up (\<lambda>k. s_dev (sup ?s k) = 0x101) NR_SUPER = Some 0" using sup by (simp add: scan_up_Some demo_super_def)
  have ready: "inode_ready rd_ctx 0 i bh ?s" if "i = 0 \<or> i = 1" for i
    using that held inv len(4,5) found sup ino
    by (auto simp: inode_ready_def calm_def rd_ctx_def zero_inode_def inode_place_def demo_super_def)
  from write_inode_then_read [OF ready [of 0] ready [of 1], of "[]"] obtain t r where
    "write_inode rd_ctx 0 ?s [] = Ok () t []" "ino t 0 = (ino ?s 0)\<lparr>i_dirt := 0\<rparr>" "ino t 1 = ino ?s 1"
    "read_inode rd_ctx 1 t [] = Ok () r []" "ino r 1 = disk_fields (ino ?s 0) (ino t 1)"
    by (auto simp: ino ino(2) [unfolded One_nat_def])
  then show ?thesis using ino by (intro exI [of _ ?s] exI [of _ t] exI [of _ r]) (simp add: disk_fields_def)
qed

end
