(* ===== verification/Directory.thy ===== *)
theory Directory
  imports Inode_io
begin

unbundle bit_operations_syntax

text \<open>
  Directories as a whole: \<open>find_entry\<close> and \<open>add_entry\<close> (fs/namei.c) over the blocks of a directory, which is a file
  of entries of 16 bytes, 64 to a block (\<open>File_io\<close>). Names are cut to 14 characters.
\<close>

section \<open>The entries of a directory\<close>

definition slot_off :: "nat \<Rightarrow> nat" where
  "slot_off k = 16 * (k mod 64)"

definition slot_data :: "'z fs_state_scheme \<Rightarrow> nat \<Rightarrow> nat \<Rightarrow> u8 list" where
  "slot_data s d k = data_of s (i_dev (ino s d)) (ucast (file_map s d (k div 64)))"

definition slot_matches :: "'z fs_state_scheme \<Rightarrow> nat \<Rightarrow> u32 \<Rightarrow> nat \<Rightarrow> nat \<Rightarrow> bool" where
  "slot_matches s d name len k \<longleftrightarrow> file_map s d (k div 64) \<noteq> 0 \<and> match_entry (umem s) len name (slot_data s d k) (slot_off k)"

text \<open>The buffer of an entry's block can be used at once.\<close>

definition slot_in :: "'z fs_state_scheme \<Rightarrow> nat \<Rightarrow> nat \<Rightarrow> nat \<Rightarrow> bool" where
  "slot_in s d k b \<longleftrightarrow> file_map s d (k div 64) \<noteq> 0 \<and> held s (i_dev (ino s d)) (ucast (file_map s d (k div 64))) b"

text \<open>The result of a search: the entry found, whose buffer has one more user.\<close>

definition found_slot :: "'z fs_state_scheme \<Rightarrow> nat \<Rightarrow> nat option \<Rightarrow> (nat \<times> nat) option \<Rightarrow> 'z fs_state_scheme \<Rightarrow> bool" where
  "found_slot s d hit res t \<longleftrightarrow> (case hit of None \<Rightarrow> res = None \<and> t = s
     | Some k \<Rightarrow> \<exists>b. slot_in s d k b \<and> res = Some (b, slot_off k) \<and> t = use_more b s)"

text \<open>Where a walk over the entries is: before entry \<open>i\<close> in the block of the entry before it, or at the start of a block with
  no buffer in hand.\<close>

definition walk_at :: "'z fs_state_scheme \<Rightarrow> nat \<Rightarrow> nat \<Rightarrow> nat option \<Rightarrow> nat \<Rightarrow> 'z fs_state_scheme \<Rightarrow> bool" where
  "walk_at s d i bh off t \<longleftrightarrow> (case bh of None \<Rightarrow> i mod 64 = 0 \<and> t = s
     | Some b \<Rightarrow> \<exists>q r. i = 64 * q + r \<and> r \<le> 64 \<and> off = 16 * r \<and> slot_in s d (64 * q) b \<and> t = use_more b s)"

lemma slot_in_data:
  assumes "calm K d s" and "slot_in s d k b"
  shows "b_data (buf (use_more b s) b) = slot_data s d k" and "length (slot_data s d k) = 1024" and "slot_off k + 16 \<le> 1024"
proof -
  have h: "held s (i_dev (ino s d)) (ucast (file_map s d (k div 64))) b" "cache_inv s" "i_dev (ino s d) \<noteq> 0"
    using assms by (simp_all add: slot_in_def calm_def)
  then show "b_data (buf (use_more b s) b) = slot_data s d k" "length (slot_data s d k) = 1024"
    using data_of_held [OF h(2,3,1)] by (simp_all add: slot_data_def held_def buf_upd_buf)
  show "slot_off k + 16 \<le> 1024" by (simp add: slot_off_def)
qed

lemma slot_in_same: "k div 64 = j div 64 \<Longrightarrow> slot_in s d k b = slot_in s d j b"
  by (simp add: slot_in_def)

lemma walk_release:
  assumes "calm K d s" and "walk_at s d i bh off t"
  shows "brelse bh t es = Ok () s es"
proof (cases bh)
  case None
  then show ?thesis using assms(2) by (simp add: walk_at_def brelse_def kern_defs)
next
  case (Some b)
  then obtain q where "slot_in s d q b" "t = use_more b s" using assms(2) by (auto simp: walk_at_def)
  then show ?thesis using Some assms(1) brelse_held by (auto simp: slot_in_def calm_def)
qed

text \<open>A block of the directory is fetched.\<close>

lemma fetch_run:
  fixes s :: "'z fs_state_scheme"
  assumes "calm K d s" and "block_held s d q" and "cr \<Longrightarrow> file_map s d q \<noteq> 0"
    and "m = kbind (bmap K d (int q) cr) (\<lambda>block. if block = 0 then hole else kbind (gets (\<lambda>s. i_dev (ino s d))) (\<lambda>dev.
      kbind (bread K dev (word_of_int block)) (\<lambda>r. case r of None \<Rightarrow> hole' | Some b \<Rightarrow> look b)))"
  shows "file_map s d q = 0 \<Longrightarrow> m s es = hole s es"
    and "file_map s d q \<noteq> 0 \<Longrightarrow> \<exists>b. slot_in s d (64 * q) b \<and> m s es = look b (use_more b s) es"
proof -
  have blk: "bmap K d (int q) cr s es = Ok (uint (file_map s d q)) s es"
    using assms(2,3) bmap_reads [OF assms(1), of q cr es] by (simp add: block_held_def)
  then show "file_map s d q = 0 \<Longrightarrow> m s es = hole s es" using assms(4) by (simp add: kbind_def)
  assume nz: "file_map s d q \<noteq> 0"
  obtain b where b: "held s (i_dev (ino s d)) (ucast (file_map s d q)) b" using assms(2) nz by (auto simp: block_held_def)
  have w: "word_of_int (uint (file_map s d q)) = (ucast (file_map s d q) :: u32)" by (rule ucast_eq [symmetric])
  have "bread K (i_dev (ino s d)) (ucast (file_map s d q)) s es = Ok (Some b) (use_more b s) es"
    using assms(1) b by (intro bread_held) (simp_all add: calm_def)
  moreover have "uint (file_map s d q) \<noteq> 0" using nz by (simp add: uint_0_iff)
  ultimately have "m s es = look b (use_more b s) es"
    using blk unfolding assms(4) kbind_def gets_def by (simp only: outcome.case if_False option.case w)
  then show "\<exists>b. slot_in s d (64 * q) b \<and> m s es = look b (use_more b s) es" using b nz by (auto simp: slot_in_def)
qed

section \<open>Searching\<close>

lemma look_step:
  assumes "calm K d s" and "slot_in s d k b" and "off = slot_off k"
    and "\<not> slot_matches s d name len k \<Longrightarrow> \<exists>res t. rest (use_more b s) es = Ok res t es \<and> found_slot s d hit res t"
  shows "\<exists>res t. kbind (gets (\<lambda>s. match_entry (umem s) len name (b_data (buf s b)) off)) (\<lambda>m.
      if m then ret (Some (b, off)) else rest) (use_more b s) es = Ok res t es \<and>
    found_slot s d (if slot_matches s d name len k then Some k else hit) res t"
proof -
  have "match_entry (umem (use_more b s)) len name (b_data (buf (use_more b s) b)) off \<longleftrightarrow> slot_matches s d name len k"
    using slot_in_data(1) [OF assms(1,2)] assms(2,3) by (simp add: slot_matches_def slot_in_def) (simp add: upd_buf_def)
  then show ?thesis using assms(2-4) by (auto simp: kern_defs found_slot_def)
qed

text \<open>The search through a new block; the entries of a hole match nothing.\<close>

lemma find_upt_step: "i < n \<Longrightarrow> find P [i..<n] = (if P i then Some i else find P [Suc i..<n])"
  by (subst upt_conv_Cons) simp_all

lemma find_upt_skip:
  assumes "\<And>j. i \<le> j \<Longrightarrow> j < m \<Longrightarrow> \<not> P j"
  shows "find P [i..<n] = find P [max i m..<n]"
proof (cases "max i m \<le> n")
  case True
  then have "[i..<n] = [i..<max i m] @ [max i m..<n]" by (metis le_add_diff_inverse max.cobounded1 upt_add_eq_append)
  moreover have "find P [i..<max i m] = None" using assms by (auto simp: find_None_iff)
  moreover have "find P (xs @ ys) = (case find P xs of None \<Rightarrow> find P ys | Some x \<Rightarrow> Some x)" for xs ys by (induction xs) auto
  ultimately show ?thesis by simp
next
  case False
  then have "n \<le> max i m" by linarith
  then have "[max i m..<n] = []" by simp
  moreover have "find P [i..<n] = None" using False assms by (auto simp: find_None_iff)
  ultimately show ?thesis by (metis find.simps(1))
qed

lemma hole_skip:
  assumes "file_map s d (i div 64) = 0" and "i mod 64 = 0"
  shows "find (slot_matches s d name len) [i..<n] = find (slot_matches s d name len) [i + 64..<n]"
proof -
  have "\<not> slot_matches s d name len j" if "i \<le> j" "j < i + 64" for j
  proof -
    have "64 * (i div 64) = i" using assms(2) mult_div_mod_eq [of 64 i] by simp
    then have "j div 64 = i div 64" using that by (intro div_nat_eqI) simp_all
    then show ?thesis using assms(1) by (simp add: slot_matches_def)
  qed
  then show ?thesis using find_upt_skip [of i "i + 64" "slot_matches s d name len" n] by simp
qed

lemma walk_next:
  assumes "slot_in s d i b" and "off = slot_off i"
  shows "walk_at s d (Suc i) (Some b) (off + 16) (use_more b s)"
proof -
  have "slot_in s d (64 * (i div 64)) b" using assms(1) by (simp add: slot_in_def)
  moreover have "Suc (i mod 64) \<le> 64" using mod_less_divisor [of 64 i] by linarith
  moreover have "Suc i = 64 * (i div 64) + Suc (i mod 64)" by simp
  ultimately show ?thesis using assms(2) unfolding walk_at_def slot_off_def
    by (simp only: option.case) (metis add.commute mult_Suc_right)
qed

lemma find_loop_run:
  fixes s :: "'z fs_state_scheme"
  assumes "calm K d s" and "\<And>q. 64 * q < entries \<Longrightarrow> block_held s d q" and "walk_at s d i bh off t" and "entries \<le> i + n"
  shows "\<exists>res u. find_loop (Suc n) K d name len entries bh off i t es = Ok res u es \<and>
    found_slot s d (find (slot_matches s d name len) [i..<entries]) res u"
  using assms(3,4)
proof (induction n arbitrary: i bh off t)
  case 0
  then show ?case using walk_release [OF assms(1) 0(1), of es] by (simp add: kern_defs found_slot_def)
next
  case (Suc n)
  note rel = walk_release [OF assms(1) Suc.prems(1), of es]
  define rest where "rest b off = find_loop (Suc n) K d name len entries b off" for b off
  define look where "look b off' = kbind (gets (\<lambda>s. match_entry (umem s) len name (b_data (buf s b)) off')) (\<lambda>m.
      if m then ret (Some (b, off')) else rest (Some b) (off' + 16) (i + 1))" for b off'
  define fetch where "fetch = kbind (get_diskBlock K d (int (i div 64))) (\<lambda>block. if block = 0 then rest None off (i + 64)
      else kbind (gets (\<lambda>s. i_dev (ino s d))) (\<lambda>dev. kbind (bread K dev (word_of_int block)) (\<lambda>r. case r of
        None \<Rightarrow> rest None off (i + 64) | Some b \<Rightarrow> look b 0)))"
  define good where "good o' \<longleftrightarrow> (\<exists>res u. o' = Ok res u es \<and> found_slot s d (find (slot_matches s d name len) [i..<entries]) res u)" for o'
  have step: "find_loop (Suc (Suc n)) K d name len entries bh off i t es = (if i \<ge> entries then kseq (brelse bh) (ret None) t es
      else case bh of Some b \<Rightarrow> if off < 1024 then look b off t es else kseq (brelse (Some b)) fetch t es | None \<Rightarrow> fetch t es)"
    unfolding find_loop.simps(2) [of "Suc n"] Let_def look_def fetch_def rest_def by (simp del: find_loop.simps split: option.split)
  show ?case
  proof (cases "i < entries")
    case False
    then show ?thesis using rel unfolding step by (simp add: kern_defs found_slot_def)
  next
    case True
    have look: "good (look b off' (use_more b s) es)" if "slot_in s d i b" "off' = slot_off i" for b off'
      using look_step [OF assms(1) that, of name len "rest (Some b) (off' + 16) (i + 1)" es "find (slot_matches s d name len) [Suc i..<entries]"]
        Suc.IH [OF walk_next [OF that]] Suc.prems(2) find_upt_step [OF True, of "slot_matches s d name len"]
      unfolding good_def look_def rest_def by simp
    have fetch: "good (fetch s es)" if i: "i mod 64 = 0"
    proof -
      have q: "64 * (i div 64) = i" using i mult_div_mod_eq [of 64 i] by simp
      then have bh: "block_held s d (i div 64)" using assms(2) True by simp
      note f = fetch_run [OF assms(1) bh _ fetch_def [unfolded get_diskBlock_def], of es]
      have "walk_at s d (i + 64) None off s" using i by (simp add: walk_at_def)
      from Suc.IH [OF this] Suc.prems(2) have "file_map s d (i div 64) = 0 \<Longrightarrow> good (rest None off (i + 64) s es)"
        unfolding rest_def good_def using hole_skip [OF _ i, of s d name len entries] by (simp del: find_loop.simps)
      then show ?thesis using f look [of _ 0] q i by (cases "file_map s d (i div 64) = 0") (auto simp: slot_off_def)
    qed
    have "good (find_loop (Suc (Suc n)) K d name len entries bh off i t es)"
    proof (cases bh)
      case None
      then show ?thesis using fetch Suc.prems(1) True unfolding step by (simp add: walk_at_def)
    next
      case (Some b)
      then obtain q r where w: "i = 64 * q + r" "r \<le> 64" "off = 16 * r" "slot_in s d (64 * q) b" "t = use_more b s"
        using Suc.prems(1) by (auto simp: walk_at_def)
      show ?thesis
      proof (cases "r < 64")
        case r: True
        then have "slot_in s d i b" "off = slot_off i" using w by (simp_all add: slot_in_def slot_off_def)
        then show ?thesis using look [of b off] True Some w r unfolding step by simp
      next
        case False
        then have "r = 64" using w(2) by simp
        then show ?thesis using fetch True Some w(1,3) rel unfolding step by (simp add: kseq_def kbind_def)
      qed
    qed
    then show ?thesis unfolding good_def .
  qed
qed

text \<open>A directory that can be searched at once.\<close>

definition entries :: "'z fs_state_scheme \<Rightarrow> nat \<Rightarrow> nat" where
  "entries s d = unat (i_size (ino s d)) div 16"

definition dir_ready :: "'z fs_state_scheme ctx \<Rightarrow> nat \<Rightarrow> 'z fs_state_scheme \<Rightarrow> bool" where
  "dir_ready K d s \<longleftrightarrow> calm K d s \<and> file_map s d 0 \<noteq> 0 \<and> block_held s d 0 \<and> (\<forall>q. 64 * q < entries s d \<longrightarrow> block_held s d q)"

definition dotdot :: "'z fs_state_scheme \<Rightarrow> u32 \<Rightarrow> nat \<Rightarrow> bool" where
  "dotdot s name len \<longleftrightarrow> len = 2 \<and> umem s name = 0x2e \<and> umem s (name + 1) = 0x2e"

lemma first_block:
  assumes "calm K d s" and "block_held s d 0" and "file_map s d 0 \<noteq> 0"
  obtains b where "slot_in s d 0 b" and "bread K (i_dev (ino s d)) (ucast (i_zone (ino s d) ! 0)) s es = Ok (Some b) (use_more b s) es"
    and "walk_at s d 0 (Some b) 0 (use_more b s)" and "i_zone (ino s d) ! 0 \<noteq> 0"
proof -
  have z: "i_zone (ino s d) ! 0 = file_map s d 0" by (simp add: file_map_def Let_def)
  obtain b where b: "held s (i_dev (ino s d)) (ucast (file_map s d 0)) b" using assms(2,3) by (auto simp: block_held_def)
  then have "slot_in s d 0 b" using assms(3) by (simp add: slot_in_def)
  moreover have "bread K (i_dev (ino s d)) (ucast (file_map s d 0)) s es = Ok (Some b) (use_more b s) es"
    using assms(1) b by (intro bread_held) (simp_all add: calm_def)
  ultimately show thesis using that [of b] assms(3) by (simp add: z walk_at_def exI [of _ 0])
qed

lemma find_entry_run:
  assumes "dir_ready K d s" and "0 < len" and "\<not> dotdot s name len"
  shows "\<exists>res t. find_entry K d name len s es = Ok (d, res) t es \<and>
    found_slot s d (find (slot_matches s d name (min len 14)) [0..<entries s d]) res t"
proof -
  have r: "calm K d s" "file_map s d 0 \<noteq> 0" "block_held s d 0" "\<And>q. 64 * q < entries s d \<Longrightarrow> block_held s d q"
    using assms(1) by (simp_all add: dir_ready_def)
  obtain b where b: "bread K (i_dev (ino s d)) (ucast (i_zone (ino s d) ! 0)) s es = Ok (Some b) (use_more b s) es"
    "walk_at s d 0 (Some b) 0 (use_more b s)" "i_zone (ino s d) ! 0 \<noteq> 0" by (rule first_block [OF r(1,3,2)])
  obtain res t where l: "find_loop (Suc (entries s d)) K d name (min len 14) (entries s d) (Some b) 0 0 (use_more b s) es = Ok res t es"
    "found_slot s d (find (slot_matches s d name (min len 14)) [0..<entries s d]) res t"
    using find_loop_run [where entries = "entries s d" and n = "entries s d" and i = 0 and name = name and len = "min len 14" and es = es,
      OF r(1,4) b(2)] by (auto simp del: find_loop.simps)
  define L where "L = min len 14"
  have "L \<noteq> 0" "(L = 2 \<and> umem s name = 0x2e \<and> umem s (name + 1) = 0x2e) = False"
    using assms(2,3) by (auto simp: L_def dotdot_def min_def split: if_splits)
  then have "find_entry K d name len s es = Ok (d, res) t es"
    unfolding find_entry_def Let_def L_def [symmetric] kbind_def gets_def ret_def using b(1,3) l(1) [folded L_def]
    by (simp only: outcome.case if_False fst_conv snd_conv entries_def [symmetric] option.distinct)
  then show ?thesis using l(2) by blast
qed


text \<open>A search the way the callers do it: the inode number of the entry found, whose buffer is given back.\<close>

definition look_up :: "'z fs_state_scheme ctx \<Rightarrow> nat \<Rightarrow> u32 \<Rightarrow> nat \<Rightarrow> (u16 option, 'z fs_state_scheme) kern" where
  "look_up K d name len = kbind (find_entry K d name len) (\<lambda>r. case snd r of None \<Rightarrow> ret None
     | Some de \<Rightarrow> kbind (gets (\<lambda>s. entry_inr s de)) (\<lambda>nr. kseq (brelse (Some (fst de))) (ret (Some nr))))"

definition slot_inr :: "'z fs_state_scheme \<Rightarrow> nat \<Rightarrow> nat \<Rightarrow> u16" where
  "slot_inr s d k = le16 (slot_data s d k) (slot_off k)"

lemma look_up_run:
  assumes "dir_ready K d s" and "0 < len" and "\<not> dotdot s name len"
  shows "look_up K d name len s es =
    Ok (map_option (slot_inr s d) (find (slot_matches s d name (min len 14)) [0..<entries s d])) s es"
proof -
  let ?hit = "find (slot_matches s d name (min len 14)) [0..<entries s d]"
  have calm: "calm K d s" using assms(1) by (simp add: dir_ready_def)
  obtain res t where r: "find_entry K d name len s es = Ok (d, res) t es" "found_slot s d ?hit res t"
    using find_entry_run [OF assms] by blast
  show ?thesis
  proof (cases ?hit)
    case None
    then show ?thesis using r by (simp add: look_up_def found_slot_def kern_defs)
  next
    case (Some k)
    then obtain b where b: "slot_in s d k b" "res = Some (b, slot_off k)" "t = use_more b s" using r(2) by (auto simp: found_slot_def)
    then have "brelse (Some b) t es = Ok () s es" using calm brelse_held by (auto simp: slot_in_def calm_def)
    then show ?thesis using r(1) Some b(2,3) slot_in_data(1) [OF calm b(1)]
      by (simp add: look_up_def kern_defs entry_inr_def slot_inr_def)
  qed
qed

section \<open>Adding an entry\<close>

definition slot_used :: "'z fs_state_scheme \<Rightarrow> nat \<Rightarrow> nat \<Rightarrow> bool" where
  "slot_used s d k \<longleftrightarrow> file_map s d (k div 64) \<noteq> 0 \<and> slot_inr s d k \<noteq> 0"

text \<open>Where a new entry goes: the first one that is not in use, or the end of the directory.\<close>

definition free_slot :: "'z fs_state_scheme \<Rightarrow> nat \<Rightarrow> nat" where
  "free_slot s d = (case find (\<lambda>k. \<not> slot_used s d k) [0..<entries s d] of None \<Rightarrow> entries s d | Some k \<Rightarrow> k)"

lemma free_slot_first:
  shows "free_slot s d \<le> entries s d" and "j < free_slot s d \<Longrightarrow> slot_used s d j" and "free_slot s d < entries s d \<Longrightarrow> \<not> slot_used s d (free_slot s d)"
proof -
  let ?f = "find (\<lambda>k. \<not> slot_used s d k) [0..<entries s d]"
  have "free_slot s d \<le> entries s d \<and> (\<forall>j < free_slot s d. slot_used s d j) \<and> (free_slot s d < entries s d \<longrightarrow> \<not> slot_used s d (free_slot s d))"
  proof (cases ?f)
    case None
    then have "free_slot s d = entries s d" by (simp add: free_slot_def)
    then show ?thesis using None by (auto simp: find_None_iff)
  next
    case (Some k)
    then have "free_slot s d = k" by (simp add: free_slot_def)
    then show ?thesis using Some by (auto simp: find_Some_iff)
  qed
  then show "free_slot s d \<le> entries s d" "j < free_slot s d \<Longrightarrow> slot_used s d j"
    "free_slot s d < entries s d \<Longrightarrow> \<not> slot_used s d (free_slot s d)" by auto
qed

text \<open>The directory grows when the entry is at its end.\<close>

definition open_slot :: "nat \<Rightarrow> nat \<Rightarrow> nat \<Rightarrow> nat \<Rightarrow> 'z fs_state_scheme \<Rightarrow> 'z fs_state_scheme" where
  "open_slot d k b off s = (if k * 16 \<ge> unat (i_size (ino s d))
     then upd_ino d (\<lambda>n. n\<lparr>i_size := of_nat ((k + 1) * 16), i_dirt := 1, i_ctime := word_of_int (CURRENT_TIME s)\<rparr>)
       (upd_buf b (\<lambda>x. x\<lparr>b_data := overlay off [0, 0] (b_data x)\<rparr>) s)
     else s)"

lemma overlay_zero: "off + 2 \<le> length bs \<Longrightarrow> le16 (overlay off [0, 0] bs) off = 0"
  using overlay_le16 [of off bs 0 "[0, 0]"] by (simp add: le16_def)

text \<open>One entry of the loop: it is in use, or it is the one to fill.\<close>

lemma use_step:
  assumes "calm K d s" and "slot_in s d i b" and "off = slot_off i" and "unat (i_size (ino s d)) = 16 * entries s d"
    and "prog = kseq (modify (\<lambda>s. if i * 16 \<ge> unat (i_size (ino s d))
                then upd_ino d (\<lambda>n. n\<lparr>i_size := of_nat ((i + 1) * 16), i_dirt := 1, i_ctime := word_of_int (CURRENT_TIME s)\<rparr>)
                      (upd_buf b (\<lambda>x. x\<lparr>b_data := overlay off [0, 0] (b_data x)\<rparr>) s)
                else s))
       (kbind (gets (\<lambda>s. le16 (b_data (buf s b)) off)) (\<lambda>nr. if nr = 0 then fill else rest))"
  shows "i < entries s d \<Longrightarrow> slot_used s d i \<Longrightarrow> prog (use_more b s) es = rest (use_more b s) es"
    and "entries s d \<le> i \<or> \<not> slot_used s d i \<Longrightarrow> prog (use_more b s) es = fill (open_slot d i b off (use_more b s)) es"
proof -
  let ?s = "use_more b s"
  have ino: "ino ?s = ino s" by (rule use_more_upd_ino)
  note data = slot_in_data [OF assms(1,2)]
  have b: "b < length (bufs ?s)" "file_map s d (i div 64) \<noteq> 0" using assms(2) by (simp_all add: slot_in_def held_def)
  have run: "prog ?s es = (if le16 (b_data (buf (open_slot d i b off ?s) b)) off = 0 then fill else rest) (open_slot d i b off ?s) es"
    by (simp add: assms(5) kern_defs open_slot_def)
  have same: "open_slot d i b off ?s = ?s" if "i < entries s d" using that assms(4) by (simp add: open_slot_def ino)
  show "prog ?s es = rest ?s es" if "i < entries s d" "slot_used s d i"
    using that run same data(1) assms(3) by (simp add: slot_used_def slot_inr_def)
  show "prog ?s es = fill (open_slot d i b off ?s) es" if u: "entries s d \<le> i \<or> \<not> slot_used s d i"
  proof (cases "i < entries s d")
    case True
    then show ?thesis using u run same data(1) assms(3) b(2) by (simp add: slot_used_def slot_inr_def)
  next
    case False
    then have "b_data (buf (open_slot d i b off ?s) b) = overlay off [0, 0] (slot_data s d i)"
      using assms(4) b(1) data(1) by (simp add: open_slot_def ino buf_upd_buf)
    then show ?thesis using run overlay_zero data(2,3) assms(3) by simp
  qed
qed

lemma add_loop_run:
  fixes s :: "'z fs_state_scheme"
  assumes "calm K d s" and "unat (i_size (ino s d)) = 16 * entries s d" and "k = free_slot s d"
    and "\<And>q. q \<le> k div 64 \<Longrightarrow> block_held s d q" and "file_map s d (k div 64) \<noteq> 0" and "walk_at s d i bh off t" and "i \<le> k" and "k < i + n"
  shows "\<exists>b. slot_in s d k b \<and> add_loop n K d name len bh off i t es =
    kseq (fill_entry d name len b (slot_off k)) (ret (Some (b, slot_off k))) (open_slot d k b (slot_off k) (use_more b s)) es"
  using assms(6-8)
proof (induction n arbitrary: i bh off t)
  case (Suc n)
  define good where "good o' \<longleftrightarrow> (\<exists>b. slot_in s d k b \<and> o' =
    kseq (fill_entry d name len b (slot_off k)) (ret (Some (b, slot_off k))) (open_slot d k b (slot_off k) (use_more b s)) es)" for o'
  define use where "use b off' = kseq (modify (\<lambda>s. if i * 16 \<ge> unat (i_size (ino s d))
      then upd_ino d (\<lambda>n. n\<lparr>i_size := of_nat ((i + 1) * 16), i_dirt := 1, i_ctime := word_of_int (CURRENT_TIME s)\<rparr>)
        (upd_buf b (\<lambda>x. x\<lparr>b_data := overlay off' [0, 0] (b_data x)\<rparr>) s)
      else s)) (kbind (gets (\<lambda>s. le16 (b_data (buf s b)) off')) (\<lambda>nr.
      if nr = 0 then kseq (fill_entry d name len b off') (ret (Some (b, off')))
      else add_loop n K d name len (Some b) (off' + 16) (i + 1)))" for b off'
  define fetch where "fetch = kbind (bmap K d (int (i div 64)) True) (\<lambda>block. if block = 0 then ret None
      else kbind (gets (\<lambda>s. i_dev (ino s d))) (\<lambda>dev. kbind (bread K dev (word_of_int block)) (\<lambda>r. case r of
        None \<Rightarrow> add_loop n K d name len None off (i + 64) | Some b \<Rightarrow> use b 0)))"
  have step: "add_loop (Suc n) K d name len bh off i t es = (case bh of
      Some b \<Rightarrow> if off < 1024 then use b off t es else kseq (brelse (Some b)) fetch t es | None \<Rightarrow> kseq (brelse None) fetch t es)"
    unfolding add_loop.simps(2) Let_def use_def fetch_def create_diskBlock_def by (cases bh) (simp_all del: add_loop.simps cong: if_cong)
  have used: "j < k \<Longrightarrow> slot_used s d j" "k < entries s d \<Longrightarrow> \<not> slot_used s d k" "k \<le> entries s d" for j
    using free_slot_first [where s = s and d = d] assms(3) by auto
  have look: "good (use b off' (use_more b s) es)" if sl: "slot_in s d i b" "off' = slot_off i" for b off'
  proof (cases "i = k")
    case True
    then have "entries s d \<le> i \<or> \<not> slot_used s d i" using used(2) by (cases "k < entries s d") simp_all
    from use_step(2) [OF assms(1) sl assms(2) use_def this] show ?thesis using True sl unfolding good_def by blast
  next
    case False
    then have "use b off' (use_more b s) es = add_loop n K d name len (Some b) (off' + 16) (i + 1) (use_more b s) es"
      using use_step(1) [OF assms(1) sl assms(2) use_def] used Suc.prems(2) by simp
    then show ?thesis using Suc.IH [OF walk_next [OF sl]] False Suc.prems(2,3) unfolding good_def by simp
  qed
  have fetch: "good (fetch s es)" if i: "i mod 64 = 0"
  proof -
    have q: "i div 64 \<le> k div 64" "64 * (i div 64) = i" using Suc.prems(2) i mult_div_mod_eq [of 64 i] by (auto intro: div_le_mono)
    have nz: "file_map s d (i div 64) \<noteq> 0"
      using used(1) [of i] assms(5) Suc.prems(2) by (cases "i = k") (auto simp: slot_used_def)
    show ?thesis using fetch_run(2) [OF assms(1) assms(4) [OF q(1)] _ fetch_def nz, of es] nz look [of _ 0] q(2) i by (auto simp: slot_off_def)
  qed
  note rel = walk_release [OF assms(1) Suc.prems(1), of es]
  have "good (add_loop (Suc n) K d name len bh off i t es)"
  proof (cases bh)
    case None
    then show ?thesis using fetch Suc.prems(1) rel unfolding step by (simp add: walk_at_def kseq_def kbind_def)
  next
    case (Some b)
    then obtain q r where w: "i = 64 * q + r" "r \<le> 64" "off = 16 * r" "slot_in s d (64 * q) b" "t = use_more b s"
      using Suc.prems(1) by (auto simp: walk_at_def)
    show ?thesis
    proof (cases "r < 64")
      case r: True
      then have "slot_in s d i b" "off = slot_off i" using w by (simp_all add: slot_in_def slot_off_def)
      then show ?thesis using look [of b off] Some w r unfolding step by simp
    next
      case False
      then have "r = 64" using w(2) by simp
      then show ?thesis using fetch Some w(1,3) rel unfolding step by (simp add: kseq_def kbind_def)
    qed
  qed
  then show ?case unfolding good_def .
qed simp

text \<open>Entering a name the way the callers of \<open>add_entry\<close> do it: they put the number of the inode into the entry and give the buffer back.\<close>

definition enter :: "'z fs_state_scheme ctx \<Rightarrow> nat \<Rightarrow> u32 \<Rightarrow> nat \<Rightarrow> u16 \<Rightarrow> (bool, 'z fs_state_scheme) kern" where
  "enter K d name namelen nr = kbind (add_entry K d name namelen) (\<lambda>e. case e of None \<Rightarrow> ret False
     | Some de \<Rightarrow> kseq (modify (set_entry de nr)) (kseq (brelse (Some (fst de))) (ret True)))"

text \<open>The state with the entry in its place, and what it does to the inode of the directory.\<close>

definition entered_ino :: "'z fs_state_scheme \<Rightarrow> nat \<Rightarrow> nat \<Rightarrow> m_inode \<Rightarrow> m_inode" where
  "entered_ino s d k n = (if k < entries s d then n else n\<lparr>i_size := of_nat (16 * (k + 1)), i_dirt := 1,
     i_ctime := word_of_int (CURRENT_TIME s)\<rparr>)\<lparr>i_mtime := word_of_int (CURRENT_TIME s)\<rparr>"

definition entered :: "nat \<Rightarrow> nat \<Rightarrow> nat \<Rightarrow> u32 \<Rightarrow> nat \<Rightarrow> u16 \<Rightarrow> 'z fs_state_scheme \<Rightarrow> 'z fs_state_scheme" where
  "entered d k b name len nr s = upd_ino d (entered_ino s d k) (put_block b (slot_off k) (entry_bytes (umem s) name len nr) s)"

lemma overlay_entry:
  assumes "off + 2 + length xs \<le> length D" and "length h = 2"
  shows "overlay off h (overlay (off + 2) xs D) = overlay off (h @ xs) D"
    and "length g = 2 \<Longrightarrow> overlay off h (overlay (off + 2) xs (overlay off g D)) = overlay off (h @ xs) D"
  using assms by (auto simp: overlay_def min_def add.commute)

lemma upd_buf_twice: "upd_buf b f (upd_buf b g s) = upd_buf b (f \<circ> g) s"
  by (simp add: upd_buf_def)

lemma upd_buf_cong: "f (buf s b) = g (buf s b) \<Longrightarrow> upd_buf b f s = upd_buf b g s"
  by (cases "b < length (bufs s)") (simp_all add: upd_buf_def upd_nth_def buf_def list_update_beyond)

lemma upd_buf_upd_ino: "upd_buf b f (upd_ino d g s) = upd_ino d g (upd_buf b f s)"
  by (simp add: upd_buf_def upd_ino_def)

lemma upd_buf_rest [simp]: "umem (upd_buf b f s) = umem s" "CURRENT_TIME (upd_buf b f s) = CURRENT_TIME s" "ino (upd_buf b f s) = ino s"
  "umem (upd_ino d g s) = umem s" "CURRENT_TIME (upd_ino d g s) = CURRENT_TIME s"
  by (simp_all add: upd_buf_def upd_ino_def CURRENT_TIME_def ino_def fun_eq_iff)

lemma set_filled:
  fixes s :: "'z fs_state_scheme"
  assumes "calm K d s" and "slot_in s d k b" and "unat (i_size (ino s d)) = 16 * entries s d" and "off = slot_off k"
  shows "\<exists>t. fill_entry d name len b off (open_slot d k b off (use_more b s)) es = Ok () t es \<and>
    set_entry (b, off) nr t = use_more b (entered d k b name len nr s)"
proof -
  let ?nm = "map (\<lambda>k. if k < len then umem s (name + of_nat k) else 0) [0..<14]"
  let ?u = "open_slot d k b off (use_more b s)"
  define t where "t = upd_buf b (\<lambda>x. x\<lparr>b_data := overlay (off + 2) ?nm (b_data x), b_dirt := 1\<rparr>)
    (upd_ino d (\<lambda>n. n\<lparr>i_mtime := word_of_int (CURRENT_TIME s)\<rparr>) ?u)"
  have u: "umem ?u = umem s" "CURRENT_TIME ?u = CURRENT_TIME s" by (simp_all add: open_slot_def)
  have run: "fill_entry d name len b off ?u es = Ok () t es" by (simp add: fill_entry_def kern_defs t_def u cong: if_cong)
  have D: "length (b_data (buf s b)) = 1024" "off + 16 \<le> 1024" using assms(2,4) by (simp_all add: slot_in_def held_def slot_off_def)
  define w where "w = (\<lambda>x :: buffer_head. x\<lparr>b_count := b_count x + 1, b_data := overlay off (entry_bytes (umem s) name len nr) (b_data x), b_dirt := 1\<rparr>)"
  have e: "entry_bytes (umem s) name len nr = put16 nr @ ?nm" "length (put16 nr) = 2" by (simp_all add: entry_bytes_def put16_def)
  have "off + 2 + length ?nm \<le> length (b_data (buf s b))" using D by simp
  note o = overlay_entry [OF this e(2), folded e(1)]
  have o: "overlay off (put16 nr) (overlay (off + 2) ?nm (b_data (buf s b))) = overlay off (entry_bytes (umem s) name len nr) (b_data (buf s b))"
    "overlay off (put16 nr) (overlay (off + 2) ?nm (overlay off [0, 0] (b_data (buf s b)))) = overlay off (entry_bytes (umem s) name len nr) (b_data (buf s b))"
    by (rule o(1), rule o(2)) simp
  have "use_more b (entered d k b name len nr s) = upd_ino d (entered_ino s d k) (upd_buf b w s)"
    unfolding entered_def upd_buf_upd_ino use_more_put_block [symmetric]
    unfolding put_block_def upd_buf_twice w_def assms(4) by (simp add: comp_def)
  moreover have "set_entry (b, off) nr t = upd_ino d (entered_ino s d k) (upd_buf b w s)"
  proof (cases "k < entries s d")
    case True
    then have "set_entry (b, off) nr t = upd_ino d (entered_ino s d k) (upd_buf b (\<lambda>x. x\<lparr>b_count := b_count x + 1,
        b_data := overlay off (put16 nr) (overlay (off + 2) ?nm (b_data x)), b_dirt := 1\<rparr>) s)"
      using assms(3) unfolding set_entry_def t_def open_slot_def
      by (simp add: upd_buf_upd_ino upd_buf_twice comp_def entered_ino_def [abs_def])
    moreover have "upd_buf b (\<lambda>x. x\<lparr>b_count := b_count x + 1,
        b_data := overlay off (put16 nr) (overlay (off + 2) ?nm (b_data x)), b_dirt := 1\<rparr>) s = upd_buf b w s"
      by (intro upd_buf_cong) (simp only: w_def o(1))
    ultimately show ?thesis by (simp only:)
  next
    case False
    then have "set_entry (b, off) nr t = upd_ino d (entered_ino s d k) (upd_buf b (\<lambda>x. x\<lparr>b_count := b_count x + 1,
        b_data := overlay off (put16 nr) (overlay (off + 2) ?nm (overlay off [0, 0] (b_data x))), b_dirt := 1\<rparr>) s)"
      using assms(3) unfolding set_entry_def t_def open_slot_def
      by (simp add: upd_buf_upd_ino upd_ino_twice upd_buf_twice comp_def entered_ino_def [abs_def] mult.commute)
    moreover have "upd_buf b (\<lambda>x. x\<lparr>b_count := b_count x + 1,
        b_data := overlay off (put16 nr) (overlay (off + 2) ?nm (overlay off [0, 0] (b_data x))), b_dirt := 1\<rparr>) s = upd_buf b w s"
      by (intro upd_buf_cong) (simp only: w_def o(2))
    ultimately show ?thesis by (simp only:)
  qed
  ultimately show ?thesis using run by simp
qed


text \<open>There is room for one more entry: the size is a number of entries, and the block of the free entry is there and belongs to it.\<close>

definition room_for :: "'z fs_state_scheme ctx \<Rightarrow> nat \<Rightarrow> 'z fs_state_scheme \<Rightarrow> bool" where
  "room_for K d s \<longleftrightarrow> dir_ready K d s \<and> d < length (inode_table s) \<and> unat (i_size (ino s d)) = 16 * entries s d \<and>
     free_slot s d < fst K \<and> block_held s d (free_slot s d div 64) \<and> own_block s d (free_slot s d div 64)"

lemma room_blocks:
  assumes "room_for K d s" and "k = free_slot s d"
  shows "q \<le> k div 64 \<Longrightarrow> block_held s d q" and "j \<le> k \<or> j < entries s d \<Longrightarrow> j div 64 < max_blocks" and "file_map s d (k div 64) \<noteq> 0"
proof -
  have r: "\<forall>q. 64 * q < entries s d \<longrightarrow> block_held s d q" "block_held s d (k div 64)" "own_block s d (k div 64)"
    using assms by (simp_all add: room_for_def dir_ready_def)
  have q: "block_held s d q" if "q \<le> k div 64" for q
  proof (cases "q = k div 64")
    case False
    then have "q < k div 64" using that by simp
    then have "64 * q < k" by (simp add: less_eq_div_iff_mult_less_eq Suc_le_eq [symmetric])
    moreover have "k \<le> entries s d" using free_slot_first(1) [where s = s and d = d] assms(2) by simp
    ultimately show ?thesis using r(1) by simp
  qed (simp add: r(2))
  then show "q \<le> k div 64 \<Longrightarrow> block_held s d q" .
  show "file_map s d (k div 64) \<noteq> 0" using r(3) by (simp add: own_block_def Let_def)
  have "block_held s d (j div 64)" if "j \<le> k \<or> j < entries s d"
  proof (cases "j \<le> k")
    case True
    then show ?thesis using q div_le_mono by blast
  next
    case False
    then have "64 * (j div 64) < entries s d" using that by (intro le_less_trans [of "64 * (j div 64)" j]) simp_all
    then show ?thesis using r(1) by blast
  qed
  then show "j \<le> k \<or> j < entries s d \<Longrightarrow> j div 64 < max_blocks" by (auto simp: block_held_def)
qed

lemma entered_view:
  assumes "room_for K d s" and "k = free_slot s d" and "slot_in s d k b" and "t = entered d k b name len nr s"
  shows "cache_inv t" and "held t = held s" and "ino t d = entered_ino s d k (ino s d)" and "j \<noteq> d \<Longrightarrow> ino t j = ino s j"
    and "data_of t v x = (if v = i_dev (ino s d) \<and> x = ucast (file_map s d (k div 64))
      then overlay (slot_off k) (entry_bytes (umem s) name len nr) (slot_data s d k) else data_of s v x)"
    and "umem t = umem s" and "buffer_wait t = buffer_wait s" and "length (inode_table t) = length (inode_table s)" and "b_dirt (buf t b) = 1"
proof -
  let ?bs = "entry_bytes (umem s) name len nr"
  let ?r = "put_block b (slot_off k) ?bs s"
  have r: "cache_inv s" "i_dev (ino s d) \<noteq> 0" "calm K d s" "d < length (inode_table s)"
    using assms(1) by (simp_all add: room_for_def dir_ready_def calm_def)
  have h: "held s (i_dev (ino s d)) (ucast (file_map s d (k div 64))) b" using assms(3) by (simp add: slot_in_def)
  have o: "slot_off k + length ?bs \<le> 1024" by (simp add: slot_off_def entry_bytes_def put16_def)
  note v = put_block_view [OF r(1,2) h o]
  have b: "bufs t = bufs ?r" by (simp add: assms(4) entered_def)
  show "cache_inv t" using v(1) by (simp add: assms(4) entered_def cache_inv_upd_ino)
  show "held t = held s" using bufs_view(1) [OF b] v(2) by simp
  show "data_of t v x = (if v = i_dev (ino s d) \<and> x = ucast (file_map s d (k div 64))
      then overlay (slot_off k) ?bs (slot_data s d k) else data_of s v x)" for v x
    unfolding bufs_view(2) [OF b] v(3) by (simp add: slot_data_def)
  show "ino t d = entered_ino s d k (ino s d)" "length (inode_table t) = length (inode_table s)" "buffer_wait t = buffer_wait s"
    "j \<noteq> d \<Longrightarrow> ino t j = ino s j" "umem t = umem s"
    using r(4) by (simp_all add: assms(4) entered_def)
  show "b_dirt (buf t b) = 1" using h by (simp add: assms(4) entered_def put_block_def held_def buf_upd_buf)
qed

lemma name_entered:
  fixes s :: "'z fs_state_scheme"
  assumes "room_for K d s" and "0 < len" and "k = free_slot s d"
  shows "\<exists>b. slot_in s d k b \<and> enter K d name len nr s es = Ok True (entered d k b name (min len 14) nr s) es"
proof -
  have r: "calm K d s" "file_map s d 0 \<noteq> 0" "block_held s d 0" "unat (i_size (ino s d)) = 16 * entries s d" "k < 0 + fst K"
    using assms(1,3) by (simp_all add: room_for_def dir_ready_def)
  obtain b0 where b0: "bread K (i_dev (ino s d)) (ucast (i_zone (ino s d) ! 0)) s es = Ok (Some b0) (use_more b0 s) es"
    "walk_at s d 0 (Some b0) 0 (use_more b0 s)" "i_zone (ino s d) ! 0 \<noteq> 0" by (rule first_block [OF r(1,3,2)])
  note room = room_blocks [OF assms(1,3)]
  obtain b where b: "slot_in s d k b" "add_loop (fst K) K d name (min len 14) (Some b0) 0 0 (use_more b0 s) es =
      kseq (fill_entry d name (min len 14) b (slot_off k)) (ret (Some (b, slot_off k))) (open_slot d k b (slot_off k) (use_more b s)) es"
    using add_loop_run [OF r(1,4) assms(3) room(1,3) b0(2) _ r(5), of name "min len 14" es] by auto
  obtain t where t: "fill_entry d name (min len 14) b (slot_off k) (open_slot d k b (slot_off k) (use_more b s)) es = Ok () t es"
    "set_entry (b, slot_off k) nr t = use_more b (entered d k b name (min len 14) nr s)"
    using set_filled [OF r(1) b(1) r(4) refl, of name "min len 14" es nr] by blast
  let ?t = "entered d k b name (min len 14) nr s"
  note v = entered_view [where name = name and len = "min len 14" and nr = nr, OF assms(1,3) b(1) refl]
  have "held ?t (i_dev (ino s d)) (ucast (file_map s d (k div 64))) b" using b(1) v(2) by (simp add: slot_in_def)
  moreover have "buffer_wait ?t = 0" using v(7) r(1) by (simp add: calm_def)
  ultimately have "brelse (Some b) (use_more b ?t) es = Ok () ?t es" by (rule brelse_held)
  moreover have "add_entry K d name len s es = Ok (Some (b, slot_off k)) t es"
    unfolding add_entry_def Let_def using assms(2) b0(1,3) b(2) t(1) by (simp add: kbind_def kseq_def gets_def ret_def del: add_loop.simps)
  ultimately show ?thesis using b(1) t(2) by (intro exI [of _ b]) (simp add: enter_def kbind_def kseq_def modify_def ret_def)
qed


section \<open>The directory as a map\<close>

text \<open>An entry is its 16 bytes.\<close>

lemma entry_cong:
  assumes "\<And>x. x < 16 \<Longrightarrow> bs ! (off + x) = cs ! (off + x)"
  shows "le16 bs off = le16 cs off" and "match_entry um len name bs off = match_entry um len name cs off"
proof -
  have b: "bs ! (off + 2 + x) = cs ! (off + 2 + x)" if "x < 14" for x using assms [of "2 + x"] that by (simp add: add.assoc)
  show e: "le16 bs off = le16 cs off" using assms [of 0] assms [of 1] by (simp add: le16_def)
  show "match_entry um len name bs off = match_entry um len name cs off"
    using b by (auto simp: match_entry_def e)
qed

lemma entered_shape:
  assumes "room_for K d s" and "k = free_slot s d" and "slot_in s d k b" and "t = entered d k b name len nr s"
  shows "same_shape d s t"
proof -
  note v = entered_view [OF assms]
  have "ucast x \<noteq> (ucast (file_map s d (k div 64)) :: u32)" if "meta_block s d x" for x
    using assms(1,2) that by (auto simp: room_for_def own_block_def Let_def zone_number_inj)
  then show ?thesis by (simp add: same_shape_def v entered_ino_def)
qed

lemma entered_bytes:
  assumes "room_for K d s" and "k = free_slot s d" and "slot_in s d k b" and "t = entered d k b name len nr s"
    and "j div 64 < max_blocks" and "file_map s d (j div 64) \<noteq> 0" and "x < 16"
  shows "slot_data t d j ! (slot_off j + x) = (if j = k then entry_bytes (umem s) name len nr ! x else slot_data s d j ! (slot_off j + x))"
proof -
  let ?bs = "entry_bytes (umem s) name len nr"
  note v = entered_view [OF assms(1-4)]
  have map: "file_map t d (j div 64) = file_map s d (j div 64)" by (rule same_shape_map [OF entered_shape [OF assms(1-4)] assms(5)])
  have dev: "i_dev (ino t d) = i_dev (ino s d)" by (simp add: v entered_ino_def)
  have same: "file_map s d (j div 64) = file_map s d (k div 64) \<longleftrightarrow> j div 64 = k div 64"
    using assms(1,2,5) by (auto simp: room_for_def own_block_def Let_def)
  have data: "slot_data t d j = (if j div 64 = k div 64 then overlay (slot_off k) ?bs (slot_data s d k) else slot_data s d j)"
    unfolding slot_data_def [of t] map dev v(5) by (simp add: zone_number_inj same slot_data_def)
  have calm: "calm K d s" using assms(1) by (simp add: room_for_def dir_ready_def)
  have len: "length ?bs = 16" by (simp add: entry_bytes_def put16_def)
  show ?thesis
  proof (cases "j div 64 = k div 64")
    case True
    then have sd: "slot_data s d j = slot_data s d k" by (simp add: slot_data_def)
    have o: "slot_off k + length ?bs \<le> length (slot_data s d k)" "slot_off j + x < length (slot_data s d k)"
      using slot_in_data(2) [OF calm assms(3)] assms(7) len by (simp_all add: slot_off_def)
    have "j = k \<longleftrightarrow> j mod 64 = k mod 64" using True by (metis div_mult_mod_eq)
    moreover have "slot_off k \<le> slot_off j + x \<and> slot_off j + x < slot_off k + 16 \<longleftrightarrow> j mod 64 = k mod 64"
      using assms(7) by (auto simp: slot_off_def)
    ultimately show ?thesis using nth_overlay_cases [OF o] True by (auto simp: data sd len)
  next
    case False
    then show ?thesis by (auto simp: data)
  qed
qed

lemma entered_slot:
  assumes "room_for K d s" and "k = free_slot s d" and "slot_in s d k b" and "t = entered d k b name len nr s"
    and "j div 64 < max_blocks" and "j \<noteq> k"
  shows "slot_matches t d name' len' j = slot_matches s d name' len' j" and "file_map s d (j div 64) \<noteq> 0 \<Longrightarrow> slot_inr t d j = slot_inr s d j"
proof -
  have map: "file_map t d (j div 64) = file_map s d (j div 64)" by (rule same_shape_map [OF entered_shape [OF assms(1-4)] assms(5)])
  have e: "slot_data t d j ! (slot_off j + x) = slot_data s d j ! (slot_off j + x)" if "file_map s d (j div 64) \<noteq> 0" "x < 16" for x
    using entered_bytes [OF assms(1-5) that] assms(6) by simp
  show "slot_matches t d name' len' j = slot_matches s d name' len' j"
    using entry_cong(2) [OF e] entered_view(6) [OF assms(1-4)] by (auto simp: slot_matches_def map)
  show "file_map s d (j div 64) \<noteq> 0 \<Longrightarrow> slot_inr t d j = slot_inr s d j"
    using entry_cong(1) [OF e] by (simp add: slot_inr_def)
qed

lemma entered_new_slot:
  assumes "room_for K d s" and "k = free_slot s d" and "slot_in s d k b" and "t = entered d k b name len nr s"
    and "nr \<noteq> 0" and "len \<le> 14" and "len' \<le> 14" and "\<forall>x < len. umem s (name + of_nat x) \<noteq> 0" and "\<forall>x < len'. umem s (name' + of_nat x) \<noteq> 0"
  shows "slot_matches t d name' len' k \<longleftrightarrow> user_bytes s name' len' = user_bytes s name len" and "slot_inr t d k = nr"
proof -
  let ?bs = "entry_bytes (umem s) name len nr"
  have k: "k div 64 < max_blocks" "file_map s d (k div 64) \<noteq> 0" using room_blocks [OF assms(1,2)] by auto
  have map: "file_map t d (k div 64) = file_map s d (k div 64)" by (rule same_shape_map [OF entered_shape [OF assms(1-4)] k(1)])
  have calm: "calm K d s" using assms(1) by (simp add: room_for_def dir_ready_def)
  have len: "length ?bs = 16" by (simp add: entry_bytes_def put16_def)
  have D: "slot_off k + 16 \<le> length (slot_data s d k)" using slot_in_data(2,3) [OF calm assms(3)] by simp
  let ?o = "overlay (slot_off k) ?bs (slot_data s d k)"
  have e: "slot_data t d k ! (slot_off k + x) = ?o ! (slot_off k + x)" if "x < 16" for x
    using entered_bytes [OF assms(1-4) k that] nth_overlay [of "slot_off k" "slot_data s d k" x ?bs] D len that by simp
  have "le16 ?o (slot_off k + 0) = le16 ?bs 0" using D len by (intro overlay_le16) simp_all
  then show "slot_inr t d k = nr"
    using entry_cong(1) [OF e] le16_put16 [of nr] by (simp add: slot_inr_def entry_bytes_def put16_def le16_def)
  show "slot_matches t d name' len' k \<longleftrightarrow> user_bytes s name' len' = user_bytes s name len"
    using entry_cong(2) [OF e, of "umem s" len' name'] match_entry_written [OF refl D assms(5-7,8,9)] k(2)
    by (auto simp: slot_matches_def map entered_view(6) [OF assms(1-4)] user_bytes_def list_eq_iff_nth_eq)
qed

lemma find_changed:
  assumes "\<And>j. j < n' \<Longrightarrow> j \<noteq> k \<Longrightarrow> P' j = P j" and "n' = (if k < n then n else Suc k)" and "k \<le> n" and "k < n \<Longrightarrow> \<not> P k"
  shows "\<not> P' k \<Longrightarrow> find P' [0..<n'] = find P [0..<n]" and "P' k \<Longrightarrow> find P [0..<n] = None \<Longrightarrow> find P' [0..<n'] = Some k"
proof -
  have app: "find Q (xs @ ys) = (case find Q xs of None \<Rightarrow> find Q ys | Some x \<Rightarrow> Some x)" for Q and xs ys :: "nat list" by (induction xs) auto
  have cong: "find P' xs = find P xs" if "\<And>j. j \<in> set xs \<Longrightarrow> P' j = P j" for xs using that by (induction xs) auto
  show "find P' [0..<n'] = find P [0..<n]" if no: "\<not> P' k"
  proof (cases "k < n")
    case True
    then have "P' j = P j" if "j \<in> set [0..<n']" for j using assms(1,2,4) no that by (cases "j = k") auto
    then show ?thesis using cong [of "[0..<n']"] True assms(2) by simp
  next
    case False
    then have "n' = Suc n" "k = n" using assms(2,3) by simp_all
    then show ?thesis using no cong [of "[0..<n]"] assms(1) by (simp add: app split: option.split)
  qed
  show "find P' [0..<n'] = Some k" if yes: "P' k" "find P [0..<n] = None"
  proof -
    have "\<not> P j" if "j < n" for j using yes(2) that by (auto simp: find_None_iff)
    then have "\<not> P' j" if "j < k" for j using assms(1-3) that by (auto split: if_splits)
    moreover have "k < n'" using assms(2) by simp
    ultimately show ?thesis using yes(1) unfolding find_Some_iff by (intro exI [of _ k]) simp
  qed
qed

lemma dotdot_bytes: "dotdot s name len \<longleftrightarrow> user_bytes s name (min len 14) = [0x2e, 0x2e]"
proof
  assume d: "user_bytes s name (min len 14) = [0x2e, 0x2e]"
  then have "length (user_bytes s name (min len 14)) = 2" by simp
  then have "len = 2" by (simp add: user_bytes_def min_def split: if_splits)
  then show "dotdot s name len" using d by (simp add: dotdot_def user_bytes_def upt_rec)
qed (simp add: dotdot_def user_bytes_def upt_rec)

text \<open>The state after it: the directory is as ready as it was.\<close>

lemma entered_ready:
  assumes "room_for K d s" and "k = free_slot s d" and "slot_in s d k b" and "t = entered d k b name len nr s"
  shows "entries t d = (if k < entries s d then entries s d else Suc k)" and "dir_ready K d t"
proof -
  note v = entered_view [OF assms] and sh = entered_shape [OF assms] and room = room_blocks [OF assms(1,2)]
  have r: "calm K d s" "file_map s d 0 \<noteq> 0" "block_held s d 0" "\<And>q. 64 * q < entries s d \<Longrightarrow> block_held s d q"
    using assms(1) by (simp_all add: room_for_def dir_ready_def)
  have "k div 64 < max_blocks" using room(2) by blast
  then have "16 * (k + 1) < 2 ^ 32" by (simp add: div_less_iff_less_mult)
  then have "unat (of_nat (16 * (k + 1)) :: u32) = 16 * (k + 1)" by (rule unat_of_nat_u32)
  then show n: "entries t d = (if k < entries s d then entries s d else Suc k)"
    by (simp add: entries_def v entered_ino_def)
  have "block_held s d q" if "64 * q < entries t d" for q
  proof (cases "64 * q < entries s d")
    case False
    then have "64 * q \<le> k" using that n by (simp split: if_splits)
    then have "q \<le> k div 64" by (simp add: less_eq_div_iff_mult_less_eq)
    then show ?thesis by (rule room(1))
  qed (rule r(4))
  moreover have "block_held t d q = block_held s d q" if "block_held s d q" for q
    using same_shape_blocks(1) [OF sh, of q] that by (simp add: block_held_def)
  moreover have "file_map t d 0 = file_map s d 0" by (rule same_shape_map [OF sh]) simp
  moreover have "calm K d t" using r(1) v(1,3,7) by (simp add: calm_def entered_ino_def)
  ultimately show "dir_ready K d t" using r(2,3) by (auto simp: dir_ready_def)
qed


text \<open>A search before and after it.\<close>

lemma entered_look_up:
  assumes "room_for K d s" and "k = free_slot s d" and "slot_in s d k b" and "t = entered d k b name (min namelen 14) nr s"
    and "0 < namelen" and "nr \<noteq> 0" and "\<forall>x < min namelen 14. umem s (name + of_nat x) \<noteq> 0" and "look_up K d name namelen s es = Ok None s es"
    and "0 < len'" and "\<not> dotdot s name' len'" and "\<forall>x < min len' 14. umem s (name' + of_nat x) \<noteq> 0"
  shows "\<exists>v. look_up K d name' len' s es = Ok v s es \<and>
    look_up K d name' len' t es = Ok (if user_bytes s name' (min len' 14) = user_bytes s name (min namelen 14) then Some nr else v) t es"
proof -
  note ctx = assms(1-4) and ready = entered_ready [OF assms(1-4)] and room = room_blocks [OF assms(1,2)]
  have s: "dir_ready K d s" using assms(1) by (simp add: room_for_def)
  let ?P = "slot_matches s d name' (min len' 14)" and ?P' = "slot_matches t d name' (min len' 14)"
  let ?same = "user_bytes s name' (min len' 14) = user_bytes s name (min namelen 14)"
  have old: "?P' j = ?P j" if "j < entries t d" "j \<noteq> k" for j
  proof -
    have "j \<le> k \<or> j < entries s d" using that(1) ready(1) by (auto split: if_splits)
    then show ?thesis using entered_slot(1) [OF ctx room(2) that(2)] by blast
  qed
  have new: "?P' k \<longleftrightarrow> ?same" "slot_inr t d k = nr"
    using entered_new_slot [OF ctx assms(6) _ _ assms(7,11)] by simp_all
  have free: "\<not> ?P k" if "k < entries s d"
  proof -
    have "\<not> slot_used s d k" using free_slot_first(3) [where s = s and d = d] that by (simp add: assms(2))
    then show ?thesis by (auto simp: slot_used_def slot_matches_def slot_inr_def match_entry_def)
  qed
  have le: "k \<le> entries s d" using free_slot_first(1) [where s = s and d = d] by (simp add: assms(2))
  note found = find_changed [of "entries t d" k ?P' ?P, OF old ready(1) le free]
  have tn: "\<not> dotdot t name' len'" using assms(10) entered_view(6) [OF ctx] by (simp add: dotdot_def)
  note run = look_up_run [OF s assms(9,10), of es] look_up_run [OF ready(2) assms(9) tn, of es]
  show ?thesis
  proof (cases ?same)
    case True
    have "\<not> dotdot s name namelen"
      using assms(10) True by (simp add: dotdot_bytes)
    then have "find (slot_matches s d name (min namelen 14)) [0..<entries s d] = None"
      using look_up_run [OF s assms(5), of name es] assms(8) by simp
    moreover have "slot_matches s d name (min namelen 14) = ?P"
      using True by (auto simp: fun_eq_iff slot_matches_def match_entry_def user_bytes_def list_eq_iff_nth_eq)
    ultimately show ?thesis using found(2) run new True by simp
  next
    case False
    have "slot_inr t d j = slot_inr s d j" if "find ?P [0..<entries s d] = Some j" for j
    proof -
      have j: "j < entries s d" "?P j" using that by (auto simp: find_Some_iff)
      then have "j \<noteq> k" using free by blast
      then show ?thesis using entered_slot(2) [OF ctx room(2)] j by (auto simp: slot_matches_def)
    qed
    then show ?thesis using found(1) run new(1) False by (cases "find ?P [0..<entries s d]") simp_all
  qed
qed

text \<open>C32: a name that is entered into a directory is found there, and nothing else changes. \<open>add_entry\<close>, followed by what its
  callers do with the entry, succeeds when the block of the first free entry, or of the next one at the end, is there, and the buffer is
  dirty then. \<open>find_entry\<close> now gives the new inode number for every name with the same first 14 characters, as the kernel
  cuts names to 14; for every other name it gives what it gave before, and it leaves the state as it was. So the directory is a map
  from cut names to inode numbers, and this is an update of it. No other inode in memory, no other block and
  nothing of user memory has changed. The names have no NUL in their first 14 characters, the new one was not there before, the blocks
  of the directory are in the cache, and \<open>..\<close> is not looked up, which may leave the device.\<close>

theorem entered_name_is_found:
  fixes s :: "'z fs_state_scheme"
  assumes "room_for K d s" and "0 < namelen" and "nr \<noteq> 0" and "\<forall>x < min namelen 14. umem s (name + of_nat x) \<noteq> 0"
    and "look_up K d name namelen s es = Ok None s es"
  shows "\<exists>t. enter K d name namelen nr s es = Ok True t es \<and> dir_ready K d t \<and> (\<exists>b. slot_in s d (free_slot s d) b \<and> b_dirt (buf t b) = 1) \<and>
    (\<forall>name' len'. 0 < len' \<longrightarrow> \<not> dotdot s name' len' \<longrightarrow> (\<forall>x < min len' 14. umem s (name' + of_nat x) \<noteq> 0) \<longrightarrow>
      (\<exists>v. look_up K d name' len' s es = Ok v s es \<and>
        look_up K d name' len' t es = Ok (if user_bytes s name' (min len' 14) = user_bytes s name (min namelen 14) then Some nr else v) t es)) \<and>
    (\<forall>j. j \<noteq> d \<longrightarrow> ino t j = ino s j) \<and> umem t = umem s \<and>
    (\<forall>v x. (v, x) \<noteq> (i_dev (ino s d), ucast (file_map s d (free_slot s d div 64))) \<longrightarrow> data_of t v x = data_of s v x)"
proof -
  define k where "k = free_slot s d"
  obtain b where b: "slot_in s d k b" "enter K d name namelen nr s es = Ok True (entered d k b name (min namelen 14) nr s) es"
    using name_entered [OF assms(1,2) k_def] by blast
  define t where "t = entered d k b name (min namelen 14) nr s"
  note ctx = assms(1) k_def b(1) t_def
  show ?thesis
    using b entered_look_up [OF ctx assms(2-5)] entered_ready(2) [OF ctx] entered_view(4-6,9) [OF ctx] unfolding t_def [symmetric] k_def [symmetric]
    by (intro exI [of _ t]) auto
qed

text \<open>A directory of one entry, which points to inode 1 and has the name \<open>.\<close>; the next entry goes behind it.\<close>

definition dir_demo :: "nat \<Rightarrow> fs_state \<Rightarrow> fs_state" where
  "dir_demo bh s = (upd_buf bh (\<lambda>b. b\<lparr>b_data := [1, 0, 0x2e] @ replicate 1021 0, b_lock := 0, b_uptodate := 1, b_count := 1\<rparr>) s)\<lparr>buffer_wait := 0,
     umem := \<lambda>a. if a = 0x1000 then 0x2e else 0x61,
     inode_table := [zero_inode\<lparr>i_mode := 0x4000, i_size := 16, i_dev := 0x101, i_zone := [7, 0, 0, 0, 0, 0, 0, 0, 0]\<rparr>]\<rparr>"

lemma dir_demo_ready:
  assumes "cache_inv s0" and "bh < length (bufs s0)" and "bkey s0 bh = (0x101, 7)" and "s = dir_demo bh s0"
  shows "room_for rd_ctx 0 s" and "slot_data s 0 0 = [1, 0, 0x2e] @ replicate 1021 0" and "entries s 0 = 1" and "file_map s 0 0 = 7"
proof -
  have b: "buf s = (buf s0)(bh := (buf s0 bh)\<lparr>b_data := [1, 0, 0x2e] @ replicate 1021 0, b_lock := 0, b_uptodate := 1, b_count := 1\<rparr>)"
    using assms(2) by (simp add: assms(4) dir_demo_def fun_eq_iff) (simp add: buf_def upd_buf_def nth_upd_nth)
  have len: "length (bufs s) = length (bufs s0)" "hash_table s = hash_table s0" "free_list s = free_list s0"
    by (simp_all add: assms(4) dir_demo_def)
  have held: "held s 0x101 7 bh" using assms(2,3) b len by (simp add: held_def bkey_def)
  have inv: "cache_inv s" by (rule cache_inv_cong [OF assms(1) len]) (simp_all add: fun_eq_iff link_defs b)
  have ino: "ino s 0 = zero_inode\<lparr>i_mode := 0x4000, i_size := 16, i_dev := 0x101, i_zone := [7, 0, 0, 0, 0, 0, 0, 0, 0]\<rparr>"
    "buffer_wait s = 0" "length (inode_table s) = 1" by (simp_all add: assms(4) dir_demo_def ino_def)
  show fm: "file_map s 0 0 = 7" by (simp add: file_map_def ino Let_def)
  have "data_of s 0x101 7 = [1, 0, 0x2e] @ replicate 1021 0" using data_of_held [OF inv _ held] by (simp add: b)
  then show sd: "slot_data s 0 0 = [1, 0, 0x2e] @ replicate 1021 0" by (simp add: slot_data_def fm ino)
  show e: "entries s 0 = 1" by (simp add: entries_def ino)
  have "slot_used s 0 0" by (simp add: slot_used_def slot_inr_def fm sd slot_off_def le16_def)
  then have free: "free_slot s 0 = 1" by (simp add: free_slot_def e)
  have calm: "calm rd_ctx 0 s" using inv ino by (simp add: calm_def rd_ctx_def)
  have bh: "block_held s 0 0" using fm held by (auto simp: block_held_def map_held_def ino)
  have "[7, 0, 0, 0, 0, 0, 0, 0, 0 :: u16] ! k = 0" if "0 < k" "k < 7" for k
    using that by (cases k) (auto simp: less_Suc_eq numeral_eq_Suc)
  then have "file_map s 0 k \<noteq> 7" if "0 < k" for k using that by (auto simp: file_map_def ino Let_def)
  then have "own_block s 0 0" using fm by (auto simp: own_block_def meta_block_def Let_def ino)
  then show "room_for rd_ctx 0 s" using calm bh fm free e ino by (simp add: room_for_def dir_ready_def rd_ctx_def)
qed

theorem entered_name_is_found_witness:
  "\<exists>s t. look_up rd_ctx 0 0x2000 3 s [] = Ok None s [] \<and> enter rd_ctx 0 0x2000 3 5 s [] = Ok True t [] \<and>
     look_up rd_ctx 0 0x3000 3 t [] = Ok (Some 5) t [] \<and> look_up rd_ctx 0 0x1000 1 t [] = Ok (Some 1) t [] \<and>
     look_up rd_ctx 0 0x3000 2 t [] = Ok None t []"
proof -
  obtain s0 :: fs_state and bh where s0: "cache_inv s0" "bh < length (bufs s0)" "bkey s0 bh = (0x101, 7)" by (rule block_seven_cached) blast
  define s where "s = dir_demo bh s0"
  note d = dir_demo_ready [OF s0 s_def]
  have um: "umem s = (\<lambda>a. if a = 0x1000 then 0x2e else 0x61)" by (simp add: s_def dir_demo_def)
  then have nz: "umem s a \<noteq> 0" for a by simp
  have m: "slot_matches s 0 a len 0 \<longleftrightarrow> a = 0x1000 \<and> len = 1" if "0 < len" "len < 4" "a = 0x1000 \<and> len = 1 \<or> a = 0x2000 \<or> a = 0x3000" for a len
    using that by (auto simp: slot_matches_def d match_entry_def slot_off_def le16_def um)
  have look: "look_up rd_ctx 0 a len s [] = Ok (if a = 0x1000 \<and> len = 1 then Some 1 else None) s []"
    if "0 < len" "len < 4" "a = 0x1000 \<and> len = 1 \<or> a = 0x2000 \<or> a = 0x3000" for a len
    using look_up_run [of rd_ctx 0 s len a "[]"] d m [OF that] that
    by (auto simp: room_for_def dotdot_def um slot_inr_def slot_off_def le16_def)
  obtain t where t: "enter rd_ctx 0 0x2000 3 5 s [] = Ok True t []" "\<And>name' len'. 0 < len' \<Longrightarrow> \<not> dotdot s name' len' \<Longrightarrow>
      \<forall>x < min len' 14. umem s (name' + of_nat x) \<noteq> 0 \<Longrightarrow> (\<exists>v. look_up rd_ctx 0 name' len' s [] = Ok v s [] \<and>
        look_up rd_ctx 0 name' len' t [] = Ok (if user_bytes s name' (min len' 14) = user_bytes s 0x2000 (min 3 14) then Some 5 else v) t [])"
    using entered_name_is_found [OF d(1), of 3 5 "0x2000" "[]"] look [of 3 "0x2000"] nz by auto
  have "look_up rd_ctx 0 0x3000 3 t [] = Ok (Some 5) t []" "look_up rd_ctx 0 0x1000 1 t [] = Ok (Some 1) t []"
    "look_up rd_ctx 0 0x3000 2 t [] = Ok None t []"
    using t(2) [of 3 "0x3000"] t(2) [of 1 "0x1000"] t(2) [of 2 "0x3000"] look [of 1 "0x1000"] look [of 2 "0x3000"]
    by (auto simp: dotdot_def um user_bytes_def upt_rec)
  moreover have "look_up rd_ctx 0 0x2000 3 s [] = Ok None s []" using look [of 3 "0x2000"] by simp
  ultimately show ?thesis using t(1) by blast
qed

end
