(* ===== verification/Sleep.thy ===== *)
theory Sleep
  imports Sched
begin

text \<open>
  Wait queues under concurrency. A queue is one pointer, to the task that went to sleep last; each sleeping task keeps the
  one before it in the variable \<open>tmp\<close> on its kernel stack, and sets it free when it goes on. Here \<open>sleep_on\<close> and
  \<open>interruptible_sleep_on\<close> are cut at their call of \<open>schedule\<close>, and the tasks run interleaved: a configuration is the state of
  the kernel and, for every task that is inside the function, its \<open>tmp\<close>.
\<close>

section \<open>The two halves of the functions\<close>

definition sleep_enter :: "'z sched_state_scheme waitq \<Rightarrow> (u32, 'z sched_state_scheme) kern" where
  "sleep_enter p =
     kbind (gets (\<lambda>s. (current s, init_task s))) (\<lambda>(me, init).
     if me = init then kpanic ''task[0] trying to sleep''
     else kbind (gets (fst p)) (\<lambda>tmp.
       kseq (modify (snd p me))
      (kseq (upd_cur (\<lambda>t. t\<lparr>t_state := TASK_UNINTERRUPTIBLE\<rparr>)) (ret tmp))))"

definition sleep_leave :: "u32 \<Rightarrow> (unit, 'z sched_state_scheme) kern" where
  "sleep_leave tmp = kwhen (tmp \<noteq> 0) (modify (upd_task tmp (\<lambda>t. t\<lparr>t_state := 0\<rparr>)))"

lemma sleep_on_halves: "sleep_on p = kbind (sleep_enter p) (\<lambda>tmp. kseq schedule (sleep_leave tmp))"
  by (rule ext)+ (simp add: sleep_on_def sleep_enter_def sleep_leave_def upd_cur_def kern_defs split: prod.split)

definition isleep_enter :: "'z sched_state_scheme waitq \<Rightarrow> (u32, 'z sched_state_scheme) kern" where
  "isleep_enter p =
     kbind (gets (\<lambda>s. (current s, init_task s))) (\<lambda>(me, init).
     if me = init then kpanic ''task[0] trying to sleep''
     else kbind (gets (fst p)) (\<lambda>tmp.
       kseq (modify (snd p me))
      (kseq (upd_cur (\<lambda>t. t\<lparr>t_state := TASK_INTERRUPTIBLE\<rparr>)) (ret tmp))))"

text \<open>What a task does when \<open>schedule\<close> has returned: true if it has left, false if it sleeps again.\<close>

definition isleep_resume :: "'z sched_state_scheme waitq \<Rightarrow> u32 \<Rightarrow> u32 \<Rightarrow> (bool, 'z sched_state_scheme) kern" where
  "isleep_resume p me tmp =
     kbind (gets (fst p)) (\<lambda>h.
     if h \<noteq> 0 \<and> h \<noteq> me
     then kseq (modify (upd_task h (\<lambda>t. t\<lparr>t_state := 0\<rparr>)))
         (kseq (upd_cur (\<lambda>t. t\<lparr>t_state := TASK_INTERRUPTIBLE\<rparr>)) (ret False))
     else kseq (modify (snd p 0))
         (kseq (kwhen (tmp \<noteq> 0) (modify (upd_task tmp (\<lambda>t. t\<lparr>t_state := 0\<rparr>)))) (ret True)))"

primrec isleep_wait ::
  "nat \<Rightarrow> 'z sched_state_scheme waitq \<Rightarrow> u32 \<Rightarrow> u32 \<Rightarrow> (unit, 'z sched_state_scheme) kern" where
  "isleep_wait 0 p me tmp = kloops"
| "isleep_wait (Suc n) p me tmp =
     kseq schedule (kbind (isleep_resume p me tmp) (\<lambda>left. if left then skip else isleep_wait n p me tmp))"

lemma isleep_repeat_halves:
  "isleep_repeat n p me tmp s es = Ok v s' es' \<longleftrightarrow>
   kseq (upd_cur (\<lambda>t. t\<lparr>t_state := TASK_INTERRUPTIBLE\<rparr>)) (isleep_wait n p me tmp) s es = Ok v s' es'"
proof (induction n arbitrary: s es)
  case 0
  then show ?case by (simp add: kern_defs upd_cur_def)
next
  case (Suc n)
  have "kbind (gets (fst p)) (\<lambda>h. if h \<noteq> 0 \<and> h \<noteq> me
       then kseq (modify (upd_task h (\<lambda>t. t\<lparr>t_state := 0\<rparr>))) (isleep_repeat n p me tmp)
       else kseq (modify (snd p 0)) (kwhen (tmp \<noteq> 0) (modify (upd_task tmp (\<lambda>t. t\<lparr>t_state := 0\<rparr>))))) u fs = Ok v s' es' \<longleftrightarrow>
    kbind (isleep_resume p me tmp) (\<lambda>left. if left then skip else isleep_wait n p me tmp) u fs = Ok v s' es'" for u fs
    using Suc.IH [of "upd_task (fst p u) (\<lambda>t. t\<lparr>t_state := 0\<rparr>) u" fs]
    by (cases "fst p u \<noteq> 0 \<and> fst p u \<noteq> me") (auto simp add: isleep_resume_def kern_defs upd_cur_def)
  then show ?case unfolding isleep_repeat.simps isleep_wait.simps by (simp only: kseq_Ok)
qed

lemma interruptible_sleep_on_halves:
  "interruptible_sleep_on fuel p s es = Ok v s' es' \<longleftrightarrow>
   kbind (isleep_enter p) (isleep_wait fuel p (current s)) s es = Ok v s' es'"
  unfolding interruptible_sleep_on_def isleep_enter_def
  by (auto simp: run_simps isleep_repeat_halves kpanic_def split: if_splits)

section \<open>Tasks on one queue\<close>

datatype nap_event = Enter | Wake | Leave | Again | Other

type_synonym 's napping = "'s \<times> (u32 \<rightharpoonup> u32)"

text \<open>The step of \<open>Other\<close> code: whatever does not touch the queue or the state of a task inside \<open>sleep_on\<close>. A task goes on
  only when it has been made runnable, as \<open>schedule\<close> selects no other.\<close>

inductive nap ::
  "('z sched_state_scheme \<Rightarrow> bool) \<Rightarrow> 'z sched_state_scheme waitq \<Rightarrow> nap_event \<Rightarrow>
   'z sched_state_scheme napping \<Rightarrow> 'z sched_state_scheme napping \<Rightarrow> bool"
  for ok p where
  enter: "F (current s) = None \<Longrightarrow> current s \<noteq> 0 \<Longrightarrow> sleep_enter p s [] = Ok tmp s' [] \<Longrightarrow>
    nap ok p Enter (s, F) (s', F(current s \<mapsto> tmp))"
| wake: "wake_up_last p s [] = Ok () s' [] \<Longrightarrow> nap ok p Wake (s, F) (s', F)"
| leave: "F (current s) = Some tmp \<Longrightarrow> t_state (cur s) = TASK_RUNNING \<Longrightarrow> sleep_leave tmp s [] = Ok () s' [] \<Longrightarrow>
    nap ok p Leave (s, F) (s', F(current s := None))"
| other: "(ok s \<longrightarrow> ok s') \<Longrightarrow> fst p s' = fst p s \<Longrightarrow> (\<forall>q \<in> dom F. t_state (tasks s' q) = t_state (tasks s q)) \<Longrightarrow>
    nap ok p Other (s, F) (s', F)"

text \<open>The same for \<open>interruptible_sleep_on\<close>. A signal would be one more way to become runnable; here there are none.\<close>

inductive inap ::
  "('z sched_state_scheme \<Rightarrow> bool) \<Rightarrow> 'z sched_state_scheme waitq \<Rightarrow> nap_event \<Rightarrow>
   'z sched_state_scheme napping \<Rightarrow> 'z sched_state_scheme napping \<Rightarrow> bool"
  for ok p where
  enter: "F (current s) = None \<Longrightarrow> current s \<noteq> 0 \<Longrightarrow> isleep_enter p s [] = Ok tmp s' [] \<Longrightarrow>
    inap ok p Enter (s, F) (s', F(current s \<mapsto> tmp))"
| wake: "wake_up_last p s [] = Ok () s' [] \<Longrightarrow> inap ok p Wake (s, F) (s', F)"
| leave: "F (current s) = Some tmp \<Longrightarrow> t_state (cur s) = TASK_RUNNING \<Longrightarrow>
    isleep_resume p (current s) tmp s [] = Ok True s' [] \<Longrightarrow> inap ok p Leave (s, F) (s', F(current s := None))"
| again: "F (current s) = Some tmp \<Longrightarrow> t_state (cur s) = TASK_RUNNING \<Longrightarrow>
    isleep_resume p (current s) tmp s [] = Ok False s' [] \<Longrightarrow> inap ok p Again (s, F) (s', F)"
| other: "(ok s \<longrightarrow> ok s') \<Longrightarrow> fst p s' = fst p s \<Longrightarrow> (\<forall>q \<in> dom F. t_state (tasks s' q) = t_state (tasks s q)) \<Longrightarrow>
    inap ok p Other (s, F) (s', F)"

text \<open>A run, with its events in order.\<close>

inductive runs :: "('e \<Rightarrow> 'c \<Rightarrow> 'c \<Rightarrow> bool) \<Rightarrow> 'e list \<Rightarrow> 'c \<Rightarrow> 'c \<Rightarrow> bool" for R where
  none: "runs R [] c c"
| step: "R e c c' \<Longrightarrow> runs R es c' c'' \<Longrightarrow> runs R (e # es) c c''"

inductive_cases runs_noneE: "runs R [] c c'"
inductive_simps runs_Cons: "runs R (e # es) c c'"

lemma runs_invariant:
  assumes "runs R es c c'" and "I c" and "\<And>e c c'. e \<in> set es \<Longrightarrow> R e c c' \<Longrightarrow> I c \<Longrightarrow> I c'"
  shows "I c'"
  using assms by (induction rule: runs.induct) auto

lemma runs_append: "runs R es c c' \<Longrightarrow> runs R fs c' c'' \<Longrightarrow> runs R (es @ fs) c c''"
  by (induction rule: runs.induct) (auto intro: runs.intros)

text \<open>Tasks inside the function that sleep, and those that have been woken and not yet gone on; the links from a task to its \<open>tmp\<close>.\<close>

definition asleep :: "'z sched_state_scheme napping \<Rightarrow> u32 \<Rightarrow> bool" where
  "asleep c q \<longleftrightarrow> q \<in> dom (snd c) \<and> t_state (tasks (fst c) q) = TASK_UNINTERRUPTIBLE"

definition woken :: "'z sched_state_scheme napping \<Rightarrow> u32 \<Rightarrow> bool" where
  "woken c q \<longleftrightarrow> q \<in> dom (snd c) \<and> t_state (tasks (fst c) q) = TASK_RUNNING"

definition links :: "(u32 \<rightharpoonup> u32) \<Rightarrow> (u32 \<times> u32) set" where
  "links F = {(a, b). F a = Some b}"

text \<open>Nobody is lost: who sleeps is found along the links from the head of the queue or from a task that has been woken.
  And nobody is woken by mistake: the head and every \<open>tmp\<close> is a task that sleeps here, and each is pointed at once.\<close>

definition on_chain :: "'z sched_state_scheme waitq \<Rightarrow> 'z sched_state_scheme napping \<Rightarrow> u32 \<Rightarrow> bool" where
  "on_chain p c q \<longleftrightarrow> (\<exists>r. (r = fst p (fst c) \<or> woken c r) \<and> (r, q) \<in> (links (snd c))\<^sup>*)"

definition nap_inv :: "'z sched_state_scheme waitq \<Rightarrow> 'z sched_state_scheme napping \<Rightarrow> bool" where
  "nap_inv p c \<longleftrightarrow> (\<forall>q \<in> dom (snd c). q \<noteq> 0 \<and> (asleep c q \<or> woken c q)) \<and> finite (dom (snd c)) \<and>
     (fst p (fst c) \<noteq> 0 \<longrightarrow> asleep c (fst p (fst c))) \<and>
     (\<forall>a b. snd c a = Some b \<longrightarrow> b \<noteq> 0 \<longrightarrow> asleep c b \<and> b \<noteq> fst p (fst c)) \<and>
     (\<forall>a a' b. snd c a = Some b \<longrightarrow> snd c a' = Some b \<longrightarrow> b \<noteq> 0 \<longrightarrow> a = a') \<and>
     (\<forall>q. asleep c q \<longrightarrow> on_chain p c q)"

lemma nap_inv_found: "nap_inv p c \<Longrightarrow> asleep c q \<Longrightarrow> on_chain p c q"
  by (simp add: nap_inv_def)

section \<open>Queues that are variables of their own\<close>

locale wait_queue =
  fixes ok :: "'z sched_state_scheme \<Rightarrow> bool"
    and p :: "'z sched_state_scheme waitq"
  assumes get_set: "ok s \<Longrightarrow> fst p (snd p v s) = v"
    and set_apart: "tasks (snd p v s) = tasks s" "current (snd p v s) = current s" "init_task (snd p v s) = init_task s"
    and get_apart: "fst p (upd_task q f s) = fst p s" "fst p (s\<lparr>current := q\<rparr>) = fst p s"
    and ok_apart: "ok (snd p v s) = ok s" "ok (upd_task q f s) = ok s" "ok (s\<lparr>current := q\<rparr>) = ok s"
begin

lemma enter_run:
  assumes "current s \<noteq> init_task s"
  shows "sleep_enter p s es = Ok (fst p s) (upd_task (current s) (\<lambda>t. t\<lparr>t_state := TASK_UNINTERRUPTIBLE\<rparr>) (snd p (current s) s)) es"
  using assms by (simp add: sleep_enter_def upd_cur_def kern_defs set_apart)

lemma enter_Ok:
  assumes "sleep_enter p s es = Ok tmp s' es'"
  shows "tmp = fst p s" and "s' = upd_task (current s) (\<lambda>t. t\<lparr>t_state := TASK_UNINTERRUPTIBLE\<rparr>) (snd p (current s) s)"
  using assms enter_run [of s es] by (cases "current s = init_task s"; simp add: sleep_enter_def kern_defs)+

text \<open>The links through a task that goes on are replaced by the task it wakes.\<close>

lemma links_cut:
  assumes "(r, q) \<in> (links F)\<^sup>*" and "F t = Some x"
  shows "(r, q) \<in> (links (F(t := None)))\<^sup>* \<or> (x, q) \<in> (links (F(t := None)))\<^sup>*"
  using assms(1)
proof (induction rule: converse_rtrancl_induct)
  case base
  then show ?case by simp
next
  case (step a b)
  show ?case
  proof (cases "a = t")
    case True
    then have "b = x" using step.hyps(1) assms(2) by (simp add: links_def)
    then show ?thesis using step.IH by blast
  next
    case False
    then have "(a, b) \<in> links (F(t := None))" using step.hyps(1) by (simp add: links_def)
    then show ?thesis using step.IH by (meson converse_rtrancl_into_rtrancl)
  qed
qed

lemma links_start: "(r, q) \<in> (links F)\<^sup>* \<Longrightarrow> q \<in> dom F \<Longrightarrow> r \<in> dom F"
  by (erule converse_rtranclE) (auto simp: links_def)

lemma nap_enter_keeps:
  assumes "nap_inv p (s, F)" and "ok s" and "F (current s) = None" and "current s \<noteq> 0" and "sleep_enter p s [] = Ok tmp s' []"
  shows "nap_inv p (s', F(current s \<mapsto> tmp)) \<and> ok s'"
proof -
  let ?t = "current s"
  define h where "h = fst p s"
  have s': "s' = upd_task ?t (\<lambda>t. t\<lparr>t_state := TASK_UNINTERRUPTIBLE\<rparr>) (snd p ?t s)" and tmp: "tmp = h"
    using enter_Ok [OF assms(5)] by (simp_all add: h_def)
  have h': "fst p s' = ?t" "ok s'" using assms(2) by (simp_all add: s' get_apart get_set ok_apart)
  have st: "t_state (tasks s' q) = (if q = ?t then TASK_UNINTERRUPTIBLE else t_state (tasks s q))" for q
    by (simp add: s' set_apart)
  have as: "asleep (s', F(?t \<mapsto> tmp)) q \<longleftrightarrow> q = ?t \<or> asleep (s, F) q" for q
    using assms(3) by (auto simp: asleep_def st)
  have wo: "woken (s', F(?t \<mapsto> tmp)) q \<longleftrightarrow> woken (s, F) q" for q
    using assms(3) by (auto simp: woken_def st)
  have sub: "links F \<subseteq> links (F(?t \<mapsto> tmp))" using assms(3) by (auto simp: links_def)
  have new: "(?t, h) \<in> links (F(?t \<mapsto> tmp))" by (simp add: links_def tmp)
  have "on_chain p (s', F(?t \<mapsto> tmp)) q" if q: "asleep (s, F) q" for q
  proof -
    obtain r where r: "r = h \<or> woken (s, F) r" "(r, q) \<in> (links F)\<^sup>*"
      using nap_inv_found [OF assms(1) q] by (auto simp: on_chain_def h_def)
    then have "(r, q) \<in> (links (F(?t \<mapsto> tmp)))\<^sup>*" using rtrancl_mono [OF sub] by blast
    then show ?thesis using r(1) new converse_rtrancl_into_rtrancl [OF new] wo h'(1) by (auto simp: on_chain_def)
  qed
  moreover have "on_chain p (s', F(?t \<mapsto> tmp)) ?t" using h'(1) by (auto simp: on_chain_def)
  moreover have nt: "\<not> asleep (s, F) ?t" using assms(3) by (auto simp: asleep_def)
  ultimately show ?thesis
    using assms(1,3,4) h' unfolding nap_inv_def as wo by (auto simp: tmp h_def)
qed

lemma nap_wake_keeps:
  assumes "nap_inv p (s, F)" and "ok s" and "wake_up_last p s [] = Ok () s' []"
  shows "nap_inv p (s', F) \<and> ok s'"
proof (cases "fst p s = 0")
  case True
  then have "s' = s" using assms(3) by (simp add: wake_up_last_def kern_defs)
  then show ?thesis using assms(1,2) by simp
next
  case False
  define h where "h = fst p s"
  have s': "s' = snd p 0 (upd_task h (\<lambda>t. t\<lparr>t_state := 0\<rparr>) s)"
    using False assms(3) by (simp add: wake_up_last_def kern_defs h_def)
  have h': "fst p s' = 0" "ok s'" using assms(2) by (simp_all add: s' get_set ok_apart)
  have st: "t_state (tasks s' q) = (if q = h then 0 else t_state (tasks s q))" for q by (simp add: s' set_apart)
  have h: "asleep (s, F) h" using assms(1) False by (simp add: nap_inv_def h_def)
  have as: "asleep (s', F) q \<longleftrightarrow> q \<noteq> h \<and> asleep (s, F) q" for q by (auto simp: asleep_def st)
  have wo: "woken (s', F) q \<longleftrightarrow> q = h \<or> woken (s, F) q" for q using h by (auto simp: woken_def asleep_def st)
  have "on_chain p (s', F) q" if q: "asleep (s, F) q" for q
    using nap_inv_found [OF assms(1) q] by (auto simp: on_chain_def wo h_def)
  then show ?thesis
    using assms(1) h' unfolding nap_inv_def as wo by (auto simp: h_def)
qed

lemma nap_leave_keeps:
  assumes "nap_inv p (s, F)" and "ok s" and "F t = Some tmp" and "t_state (tasks s t) = TASK_RUNNING" and "sleep_leave tmp s [] = Ok () s' []"
  shows "nap_inv p (s', F(t := None)) \<and> ok s'"
proof -
  let ?F = "F(t := None)"
  have s': "s' = (if tmp = 0 then s else upd_task tmp (\<lambda>t. t\<lparr>t_state := 0\<rparr>) s)"
    using assms(5) by (auto simp: sleep_leave_def kern_defs)
  have h': "fst p s' = fst p s" "ok s'" using assms(2) by (simp_all add: s' get_apart ok_apart)
  have tmp: "tmp \<noteq> 0 \<Longrightarrow> asleep (s, F) tmp \<and> tmp \<noteq> fst p s" using assms(1,3) by (auto simp: nap_inv_def)
  have st: "t_state (tasks s' q) = (if q = tmp \<and> tmp \<noteq> 0 then 0 else t_state (tasks s q))" for q by (simp add: s')
  have t: "\<not> asleep (s, F) t" using assms(4) by (simp add: asleep_def)
  have nz: "0 \<notin> dom F" using assms(1) by (auto simp: nap_inv_def)
  have as: "asleep (s', ?F) q \<longleftrightarrow> q \<noteq> tmp \<and> asleep (s, F) q" for q
    using t nz by (auto simp: asleep_def st)
  have wo: "woken (s', ?F) q \<longleftrightarrow> q \<noteq> t \<and> (q = tmp \<and> tmp \<noteq> 0 \<or> woken (s, F) q)" for q
    using tmp by (auto simp: woken_def asleep_def st)
  have "on_chain p (s', ?F) q" if q: "asleep (s, F) q" "q \<noteq> tmp" for q
  proof -
    obtain r where r: "r = fst p s \<or> woken (s, F) r" "(r, q) \<in> (links F)\<^sup>*"
      using nap_inv_found [OF assms(1) q(1)] by (auto simp: on_chain_def)
    have qd: "q \<in> dom ?F" using q t by (auto simp: asleep_def)
    from links_cut [OF r(2) assms(3)] show ?thesis
    proof
      assume p: "(r, q) \<in> (links ?F)\<^sup>*"
      then have "r \<in> dom ?F" using links_start qd by blast
      then show ?thesis using p r(1) h'(1) wo by (auto simp: on_chain_def)
    next
      assume p: "(tmp, q) \<in> (links ?F)\<^sup>*"
      then have "tmp \<in> dom ?F" using links_start qd by blast
      then show ?thesis using p wo nz by (auto simp: on_chain_def)
    qed
  qed
  then have "asleep (s', ?F) q \<longrightarrow> on_chain p (s', ?F) q" for q by (simp add: as)
  moreover have "q \<noteq> 0 \<and> (asleep (s', ?F) q \<or> woken (s', ?F) q)" if "q \<in> dom ?F" for q
    using assms(1) that by (cases "q = tmp") (auto simp: nap_inv_def as wo)
  moreover have "finite (dom ?F)" using assms(1) by (simp add: nap_inv_def)
  moreover have "fst p s' \<noteq> 0 \<longrightarrow> asleep (s', ?F) (fst p s')"
    using assms(1) tmp unfolding h' as by (cases "tmp = 0") (auto simp: nap_inv_def)
  moreover have inj: "a = a'" if "F a = Some b" "F a' = Some b" "b \<noteq> 0" for a a' b
    using assms(1) that unfolding nap_inv_def snd_conv by blast
  moreover have "asleep (s', ?F) b \<and> b \<noteq> fst p s'" if "?F a = Some b" "b \<noteq> 0" for a b
  proof -
    have a: "F a = Some b" "a \<noteq> t" using that(1) by (auto split: if_splits)
    then have "b \<noteq> tmp" using inj [of a b t] assms(3) that(2) by auto
    then show ?thesis using a(1) that(2) assms(1) unfolding h' as nap_inv_def by auto
  qed
  ultimately show ?thesis
    using h'(2) unfolding nap_inv_def fst_conv snd_conv by (simp split: if_splits)
qed

lemma nap_keeps:
  assumes "nap ok p e (s, F) (s', F')" and "nap_inv p (s, F)" and "ok s"
  shows "nap_inv p (s', F') \<and> ok s'"
  using assms(1)
proof cases
  case (enter tmp)
  then show ?thesis using nap_enter_keeps [OF assms(2,3)] by blast
next
  case wake
  then show ?thesis using nap_wake_keeps [OF assms(2,3)] by blast
next
  case (leave tmp)
  then show ?thesis using nap_leave_keeps [OF assms(2,3)] unfolding cur_def by blast
next
  case other
  then have "asleep (s', F) q = asleep (s, F) q" "woken (s', F) q = woken (s, F) q" for q
    by (cases "q \<in> dom F"; simp add: asleep_def woken_def)+
  then show ?thesis using other assms(2,3) by (simp add: nap_inv_def on_chain_def)
qed

lemma runs_keep:
  assumes "runs (nap ok p) es c c'" and "nap_inv p c" and "ok (fst c)"
  shows "nap_inv p c' \<and> ok (fst c')"
  using runs_invariant [where I = "\<lambda>c. nap_inv p c \<and> ok (fst c)", OF assms(1)] assms(2,3) nap_keeps by (metis prod.collapse)

lemma nap_reachable:
  assumes "runs (nap ok p) es (s, Map.empty) c" and "ok s" and "fst p s = 0"
  shows "nap_inv p c \<and> ok (fst c)"
  by (rule runs_keep [OF assms(1)]) (use assms(2,3) in \<open>simp_all add: nap_inv_def asleep_def\<close>)

lemma wake_empties: "ok s \<Longrightarrow> wake_up_last p s [] = Ok () s' [] \<Longrightarrow> fst p s' = 0"
  by (auto simp: wake_up_last_def kern_defs get_set ok_apart split: if_splits)

text \<open>With the queue empty, as a wake-up leaves it, only woken tasks hold up the others.\<close>

lemma some_woken:
  assumes "nap_inv p c" and "fst p (fst c) = 0" and "dom (snd c) \<noteq> {}"
  shows "\<exists>r. woken c r"
proof -
  obtain q where q: "q \<in> dom (snd c)" using assms(3) by blast
  have nz: "0 \<notin> dom (snd c)" using assms(1) by (auto simp: nap_inv_def)
  show ?thesis
  proof (cases "asleep c q")
    case True
    then obtain r where "r = 0 \<or> woken c r" "(r, q) \<in> (links (snd c))\<^sup>*"
      using nap_inv_found [OF assms(1)] assms(2) by (auto simp: on_chain_def)
    then show ?thesis using links_start q nz by blast
  next
    case False
    then show ?thesis using assms(1) q by (auto simp: nap_inv_def)
  qed
qed

lemma leave_step:
  assumes "nap_inv p (s, F)" and "ok s" and "woken (s, F) r"
  shows "\<exists>s'. runs (nap ok p) [Other, Leave] (s, F) (s', F(r := None)) \<and> fst p s' = fst p s \<and> nap_inv p (s', F(r := None)) \<and> ok s' \<and>
    (\<forall>q. t_state (tasks s q) = TASK_RUNNING \<longrightarrow> t_state (tasks s' q) = TASK_RUNNING)"
proof -
  obtain tmp where tmp: "F r = Some tmp" "t_state (tasks s r) = TASK_RUNNING" using assms(3) by (auto simp: woken_def)
  let ?u = "s\<lparr>current := r\<rparr>"
  let ?s' = "if tmp = 0 then ?u else upd_task tmp (\<lambda>t. t\<lparr>t_state := 0\<rparr>) ?u"
  have o: "nap ok p Other (s, F) (?u, F)" by (rule nap.other) (simp_all add: get_apart ok_apart)
  have l: "sleep_leave tmp ?u [] = Ok () ?s' []" by (simp add: sleep_leave_def kern_defs)
  have L: "nap ok p Leave (?u, F) (?s', F(r := None))"
    using nap.leave [of F ?u tmp ?s' ok p] tmp l by (simp add: cur_def)
  have "nap_inv p (?s', F(r := None)) \<and> ok ?s'" using nap_keeps [OF o assms(1,2)] nap_keeps [OF L] by blast
  moreover have "fst p ?s' = fst p s" by (simp add: get_apart)
  moreover have "t_state (tasks s q) = TASK_RUNNING \<longrightarrow> t_state (tasks ?s' q) = TASK_RUNNING" for q by simp
  ultimately show ?thesis using runs.step [where R = "nap ok p", OF o runs.step [where R = "nap ok p", OF L runs.none]] by blast
qed

lemma drains:
  assumes "nap_inv p (s, F)" and "ok s" and "fst p s = 0"
  shows "\<exists>es s'. runs (nap ok p) es (s, F) (s', Map.empty) \<and> set es \<subseteq> {Leave, Other} \<and>
    (\<forall>q. q \<in> dom F \<or> t_state (tasks s q) = TASK_RUNNING \<longrightarrow> t_state (tasks s' q) = TASK_RUNNING)"
  using assms
proof (induction "card (dom F)" arbitrary: s F)
  case 0
  then have "F = Map.empty" by (simp add: nap_inv_def)
  then show ?case by (intro exI [of _ "[]"] exI [of _ s]) (auto intro: runs.none)
next
  case (Suc n)
  then have "dom F \<noteq> {}" by auto
  then obtain r where r: "woken (s, F) r" using some_woken [of "(s, F)"] Suc.prems by auto
  from leave_step [OF Suc.prems(1,2) r] obtain s' where
    s': "runs (nap ok p) [Other, Leave] (s, F) (s', F(r := None))" "fst p s' = 0" "nap_inv p (s', F(r := None))" "ok s'"
      "\<And>q. t_state (tasks s q) = TASK_RUNNING \<Longrightarrow> t_state (tasks s' q) = TASK_RUNNING" using Suc.prems(3) by auto
  have "finite (dom F)" "r \<in> dom F" using Suc.prems(1) r by (auto simp: nap_inv_def woken_def)
  then have "n = card (dom (F(r := None)))" using Suc.hyps(2) by (simp add: card_Diff_singleton)
  from Suc.hyps(1) [OF this s'(3,4,2)] obtain es s'' where
    e: "runs (nap ok p) es (s', F(r := None)) (s'', Map.empty)" "set es \<subseteq> {Leave, Other}"
      "\<forall>q. q \<in> dom (F(r := None)) \<or> t_state (tasks s' q) = TASK_RUNNING \<longrightarrow> t_state (tasks s'' q) = TASK_RUNNING" by blast
  have "t_state (tasks s' r) = TASK_RUNNING" using r s'(5) by (simp add: woken_def)
  then show ?case
    using runs_append [OF s'(1) e(1)] e(2,3) s'(5) by (intro exI [of _ "[Other, Leave] @ es"] exI [of _ s'']) auto
qed

lemma head_stays:
  assumes "runs (nap ok p) es c c'" and "set es \<subseteq> {Leave, Other}" and "fst p (fst c) = 0"
  shows "fst p (fst c') = 0"
  by (rule runs_invariant [where I = "\<lambda>c. fst p (fst c) = 0", OF assms(1,3)])
    (use assms(2) in \<open>auto elim!: nap.cases simp: sleep_leave_def kern_defs get_apart split: if_splits\<close>)

section \<open>The interruptible variant loses a wake-up\<close>

lemma ienter_run:
  assumes "current s \<noteq> init_task s"
  shows "isleep_enter p s es = Ok (fst p s) (upd_task (current s) (\<lambda>t. t\<lparr>t_state := TASK_INTERRUPTIBLE\<rparr>) (snd p (current s) s)) es"
  using assms by (simp add: isleep_enter_def upd_cur_def kern_defs set_apart)

lemma ienter_Ok:
  assumes "isleep_enter p s es = Ok tmp s' es'"
  shows "tmp = fst p s" and "s' = upd_task (current s) (\<lambda>t. t\<lparr>t_state := TASK_INTERRUPTIBLE\<rparr>) (snd p (current s) s)"
  using assms ienter_run [of s es] by (cases "current s = init_task s"; simp add: isleep_enter_def kern_defs)+

text \<open>A task that sleeps and is neither the head of the queue nor the \<open>tmp\<close> of another stays so.\<close>

lemma lost_stays:
  assumes "inap ok p e (s, F) (s', F')" and "b \<noteq> 0" and "ok s"
    and "F b = Some tb" "t_state (tasks s b) = TASK_INTERRUPTIBLE" "fst p s \<noteq> b" "\<forall>a. F a \<noteq> Some b"
  shows "ok s' \<and> F' b = Some tb \<and> t_state (tasks s' b) = TASK_INTERRUPTIBLE \<and> fst p s' \<noteq> b \<and> (\<forall>a. F' a \<noteq> Some b)"
  using assms(1)
proof cases
  case (enter tmp)
  then have "current s \<noteq> b" using assms(4) by auto
  then show ?thesis using enter(2) ienter_Ok [OF enter(5)] assms by (auto simp: get_apart get_set ok_apart set_apart)
next
  case wake
  then show ?thesis
    using assms by (cases "fst p s = 0") (auto simp: wake_up_last_def kern_defs get_set set_apart ok_apart)
next
  case (leave tmp)
  then have "current s \<noteq> b" "tmp \<noteq> b" using assms(5,7) by (auto simp: cur_def)
  then show ?thesis
    using leave(2,5) assms by (auto simp: isleep_resume_def upd_cur_def kern_defs get_apart get_set set_apart ok_apart split: if_splits)
next
  case (again tmp)
  then have "current s \<noteq> b" using assms(5) by (auto simp: cur_def)
  then show ?thesis
    using again(2,5) assms by (auto simp: isleep_resume_def upd_cur_def kern_defs get_apart get_set set_apart ok_apart split: if_splits)
next
  case other
  then show ?thesis using assms by (auto simp: dom_def)
qed

lemma lost_for_ever:
  assumes "runs (inap ok p) es (s, F) (s', F')" and "b \<noteq> 0" and "ok s"
    and "F b = Some tb" "t_state (tasks s b) = TASK_INTERRUPTIBLE" "fst p s \<noteq> b" "\<forall>a. F a \<noteq> Some b"
  shows "F' b = Some tb \<and> t_state (tasks s' b) = TASK_INTERRUPTIBLE"
proof -
  let ?I = "\<lambda>c. ok (fst c) \<and> snd c b = Some tb \<and> t_state (tasks (fst c) b) = TASK_INTERRUPTIBLE \<and> fst p (fst c) \<noteq> b \<and>
    (\<forall>a. snd c a \<noteq> Some b)"
  have "?I (s', F')"
  proof (rule runs_invariant [where I = ?I, OF assms(1)])
    show "?I (s, F)" using assms(3-7) by simp
    show "?I c'" if "inap ok p e c c'" "?I c" for e c c'
      using lost_stays [OF _ assms(2), of e "fst c" "snd c" "fst c'" "snd c'" tb] that by simp
  qed
  then show ?thesis by simp
qed

text \<open>The run: \<open>b\<close> goes to sleep and is woken, but before it runs \<open>c\<close> goes to sleep on the queue. So \<open>b\<close> finds another task at its
  head, wakes that one and sleeps again; \<open>c\<close> empties the queue and leaves.\<close>

lemma inap_switch: "inap ok p Other (s, F) (s\<lparr>current := q\<rparr>, F)"
  by (rule inap.other) (simp_all add: get_apart ok_apart)

lemma inap_enter:
  assumes "current s = q" and "q \<noteq> init_task s" and "q \<noteq> 0" and "F q = None"
  shows "inap ok p Enter (s, F) (upd_task q (\<lambda>t. t\<lparr>t_state := TASK_INTERRUPTIBLE\<rparr>) (snd p q s), F(q \<mapsto> fst p s))"
  using inap.enter [of F s p "fst p s" _ ok] ienter_run [of s "[]"] assms by simp

lemma loses:
  assumes "ok s" and "fst p s = 0" and "b \<noteq> c" and "b \<noteq> 0" and "c \<noteq> 0" and "b \<noteq> init_task s" and "c \<noteq> init_task s"
  shows "\<exists>s'. runs (inap ok p) [Other, Enter, Wake, Other, Enter, Other, Again, Other, Leave] (s, Map.empty) (s', [b \<mapsto> 0]) \<and>
    ok s' \<and> fst p s' = 0 \<and> t_state (tasks s' b) = TASK_INTERRUPTIBLE"
proof -
  let ?set = "\<lambda>n. \<lambda>t. t\<lparr>t_state := n\<rparr>"
  define s1 where "s1 = s\<lparr>current := b\<rparr>"
  define s2 where "s2 = upd_task b (?set TASK_INTERRUPTIBLE) (snd p b s1)"
  define s3 where "s3 = snd p 0 (upd_task b (?set 0) s2)"
  define s4 where "s4 = s3\<lparr>current := c\<rparr>"
  define s5 where "s5 = upd_task c (?set TASK_INTERRUPTIBLE) (snd p c s4)"
  define s6 where "s6 = s5\<lparr>current := b\<rparr>"
  define s7 where "s7 = upd_task b (?set TASK_INTERRUPTIBLE) (upd_task c (?set 0) s6)"
  define s8 where "s8 = s7\<lparr>current := c\<rparr>"
  define s9 where "s9 = snd p 0 s8"
  note laws = get_apart get_set set_apart ok_apart
  have ok: "ok s1" "ok s2" "ok s3" "ok s4" "ok s5" "ok s6" "ok s7" "ok s8" "ok s9"
    using assms(1) by (simp_all add: s1_def s2_def s3_def s4_def s5_def s6_def s7_def s8_def s9_def laws)
  have init: "init_task s1 = init_task s" "init_task s4 = init_task s"
    by (simp_all add: s1_def s2_def s3_def s4_def laws)
  have q: "fst p s1 = 0" "fst p s2 = b" "fst p s3 = 0" "fst p s4 = 0" "fst p s5 = c" "fst p s6 = c" "fst p s7 = c" "fst p s8 = c" "fst p s9 = 0"
    using ok assms(1,2) by (simp_all add: s1_def s2_def s3_def s4_def s5_def s6_def s7_def s8_def s9_def laws)
  have "inap ok p Other (s, Map.empty) (s1, Map.empty)" unfolding s1_def by (rule inap_switch)
  moreover have "inap ok p Enter (s1, Map.empty) (s2, [b \<mapsto> 0])"
    using inap_enter [of s1 b Map.empty] assms init q(1) by (simp add: s2_def) (simp add: s1_def)
  moreover have "inap ok p Wake (s2, [b \<mapsto> 0]) (s3, [b \<mapsto> 0])"
    by (rule inap.wake) (use assms(4) in \<open>simp add: wake_up_last_def kern_defs q(2) s3_def\<close>)
  moreover have "inap ok p Other (s3, [b \<mapsto> 0]) (s4, [b \<mapsto> 0])" unfolding s4_def by (rule inap_switch)
  moreover have "inap ok p Enter (s4, [b \<mapsto> 0]) (s5, [b \<mapsto> 0, c \<mapsto> 0])"
    using inap_enter [of s4 c "[b \<mapsto> 0]"] assms init q(4) by (simp add: s5_def) (simp add: s4_def)
  moreover have "inap ok p Other (s5, [b \<mapsto> 0, c \<mapsto> 0]) (s6, [b \<mapsto> 0, c \<mapsto> 0])" unfolding s6_def by (rule inap_switch)
  moreover have "inap ok p Again (s6, [b \<mapsto> 0, c \<mapsto> 0]) (s7, [b \<mapsto> 0, c \<mapsto> 0])"
  proof (rule inap.again [where tmp = 0])
    show "isleep_resume p (current s6) 0 s6 [] = Ok False s7 []"
      using q(6) assms(3,5) by (simp add: isleep_resume_def upd_cur_def kern_defs s7_def) (simp add: s6_def)
  qed (use assms(3) in \<open>simp_all add: s6_def s5_def s4_def s3_def cur_def laws\<close>)
  moreover have "inap ok p Other (s7, [b \<mapsto> 0, c \<mapsto> 0]) (s8, [b \<mapsto> 0, c \<mapsto> 0])" unfolding s8_def by (rule inap_switch)
  moreover have "inap ok p Leave (s8, [b \<mapsto> 0, c \<mapsto> 0]) (s9, [b \<mapsto> 0])"
  proof -
    have "isleep_resume p (current s8) 0 s8 [] = Ok True s9 []"
      using q(8) by (simp add: isleep_resume_def kern_defs s9_def) (simp add: s8_def)
    moreover have "current s8 = c" "t_state (cur s8) = TASK_RUNNING" using assms(3) by (simp_all add: s8_def s7_def cur_def)
    ultimately show ?thesis
      using inap.leave [of "[b \<mapsto> 0, c \<mapsto> 0]" s8 0 p s9 ok] assms(3) by (simp add: fun_upd_twist)
  qed
  ultimately have "runs (inap ok p) [Other, Enter, Wake, Other, Enter, Other, Again, Other, Leave] (s, Map.empty) (s9, [b \<mapsto> 0])"
    by (blast intro: runs.intros)
  moreover have "t_state (tasks s9 b) = TASK_INTERRUPTIBLE" using assms(3) by (simp add: s9_def s8_def s7_def laws)
  ultimately show ?thesis using ok q by blast
qed

end

end
