(* ===== verification/Wakeup.thy ===== *)
theory Wakeup
  imports Sleep Tty
begin

text \<open>
  The wait queues of the kernel are queues in the sense of \<open>Sleep\<close>: those of a buffer, of an inode, of a super block, for a free
  buffer, for a free request, of a floppy motor and of the floppy selection, and of a terminal queue. What \<open>Sleep\<close> shows of the protocol
  holds for each of them; the properties below are stated for the queue of a buffer's lock and for the readers and
  writers of a terminal.
\<close>

interpretation motor_wait: wait_queue "\<lambda>s. nr < length (wait_motor s)" "motor_queue nr"
  by unfold_locales (simp_all add: motor_queue_def upd_task_def)

interpretation buffer_lock: wait_queue "\<lambda>s. i < length (bufs s)" "bwait_queue i"
  by unfold_locales (simp_all add: bwait_queue_def upd_buf_def buf_def upd_task_def)

interpretation request_wait: wait_queue "\<lambda>_. True" request_queue
  by unfold_locales (simp_all add: request_queue_def upd_task_def)

interpretation select_wait: wait_queue "\<lambda>_. True" select_queue
  by unfold_locales (simp_all add: select_queue_def upd_task_def)

interpretation free_buffer_wait: wait_queue "\<lambda>_. True" buffer_queue
  by unfold_locales (simp_all add: buffer_queue_def upd_task_def)

interpretation inode_lock: wait_queue "\<lambda>s. i < length (inode_table s)" "iwait_queue i"
  by unfold_locales (simp_all add: iwait_queue_def upd_ino_def ino_def upd_task_def)

interpretation super_lock: wait_queue "\<lambda>s. i < length (super_blocks s)" "swait_queue i"
  by unfold_locales (simp_all add: swait_queue_def upd_sup_def sup_def upd_task_def)

interpretation tty_wait: wait_queue "\<lambda>s. fst q < length (tty_table s)" "proc_queue q"
  by unfold_locales (simp_all add: proc_queue_def upd_queue_def queue_def upd_tty_def tty_def upd_task_def split: qsel.split)

section \<open>No sleeper is lost\<close>

text \<open>C4: the queue of a buffer, under every interleaving of tasks that go to sleep on it, of wake-ups, of woken tasks that go on, and of
  other code. A task that sleeps is always found along the chain of \<open>tmp\<close> variables, from the head of the queue
  or from a task that has been woken and will go on; and neither the head nor any \<open>tmp\<close> is a task that does not sleep here, so that no task
  is woken from another sleep.\<close>

theorem sleepers_not_lost:
  assumes "runs (nap (\<lambda>s. i < length (bufs s)) (bwait_queue i)) es (s0, Map.empty) (s, F)"
    and "i < length (bufs s0)" and "b_wait (buf s0 i) = 0"
  shows "(\<forall>q. asleep (s, F) q \<longrightarrow> on_chain (bwait_queue i) (s, F) q) \<and>
    (b_wait (buf s i) \<noteq> 0 \<longrightarrow> asleep (s, F) (b_wait (buf s i))) \<and>
    (\<forall>a b. F a = Some b \<longrightarrow> b \<noteq> 0 \<longrightarrow> asleep (s, F) b \<and> b \<noteq> b_wait (buf s i))"
  using buffer_lock.nap_reachable [OF assms(1,2)] assms(3) by (simp add: nap_inv_def bwait_queue_def)

text \<open>C5: waking the queue of a buffer wakes everybody who slept on it. After \<open>wake_up_last\<close>, which wakes only one task, the woken tasks can
  go on until nobody is left in \<open>sleep_on\<close> and all who were there are runnable; and in whatever order they do, as
  long as somebody is left there is a woken task among them.\<close>

theorem wake_up_wakes_all:
  assumes "runs (nap (\<lambda>s. i < length (bufs s)) (bwait_queue i)) es (s0, Map.empty) (s, F)"
    and "i < length (bufs s0)" and "b_wait (buf s0 i) = 0" and "wake_up_last (bwait_queue i) s [] = Ok () s1 []"
  shows "(\<exists>fs s'. runs (nap (\<lambda>s. i < length (bufs s)) (bwait_queue i)) fs (s1, F) (s', Map.empty) \<and> set fs \<subseteq> {Leave, Other} \<and>
      (\<forall>q \<in> dom F. t_state (tasks s' q) = TASK_RUNNING)) \<and>
    (\<forall>fs s' F'. runs (nap (\<lambda>s. i < length (bufs s)) (bwait_queue i)) fs (s1, F) (s', F') \<longrightarrow> set fs \<subseteq> {Leave, Other} \<longrightarrow>
      dom F' \<noteq> {} \<longrightarrow> (\<exists>r. woken (s', F') r))"
proof -
  have inv: "nap_inv (bwait_queue i) (s, F)" "i < length (bufs s)"
    using buffer_lock.nap_reachable [OF assms(1,2)] assms(3) by (simp_all add: bwait_queue_def)
  have s1: "nap_inv (bwait_queue i) (s1, F)" "i < length (bufs s1)" "fst (bwait_queue i) s1 = 0"
    using buffer_lock.nap_wake_keeps [OF inv assms(4)] buffer_lock.wake_empties [OF inv(2) assms(4)] by simp_all
  have "\<exists>r. woken (s', F') r" if "runs (nap (\<lambda>s. i < length (bufs s)) (bwait_queue i)) fs (s1, F) (s', F')"
    "set fs \<subseteq> {Leave, Other}" "dom F' \<noteq> {}" for fs s' F'
    using buffer_lock.some_woken [of i "(s', F')"] buffer_lock.head_stays [OF that(1,2)] buffer_lock.runs_keep [OF that(1) s1(1)] s1(2,3) that(3)
    by simp
  then show ?thesis using buffer_lock.drains [OF s1] by blast
qed

section \<open>Waiting for a terminal\<close>

text \<open>C6: \<open>interruptible_sleep_on\<close> can lose a wake-up, here on a queue of a terminal. Task \<open>b\<close> goes to sleep and is woken, but before it
  runs task \<open>c\<close> goes to sleep on the same queue. Then \<open>b\<close> wakes \<open>c\<close> and sleeps again, and \<open>c\<close> empties the queue and leaves. From then on
  \<open>b\<close> sleeps in every run, whoever sleeps and is woken on the queue: no pointer leads to it.\<close>

theorem terminal_wakeup_lost:
  assumes "fst q < length (tty_table s)" and "tq_proc_list (queue s q) = 0" and "b \<noteq> c" and "b \<noteq> 0" and "c \<noteq> 0"
    and "b \<noteq> init_task s" and "c \<noteq> init_task s"
  shows "\<exists>s'. runs (inap (\<lambda>s. fst q < length (tty_table s)) (proc_queue q))
      [Other, Enter, Wake, Other, Enter, Other, Again, Other, Leave] (s, Map.empty) (s', [b \<mapsto> 0]) \<and>
    (\<forall>es t F. runs (inap (\<lambda>s. fst q < length (tty_table s)) (proc_queue q)) es (s', [b \<mapsto> 0]) (t, F) \<longrightarrow>
      b \<in> dom F \<and> t_state (tasks t b) = TASK_INTERRUPTIBLE)"
proof -
  have "fst (proc_queue q) s = 0" using assms(2) by (simp add: proc_queue_def)
  from tty_wait.loses [OF assms(1) this assms(3-7)] obtain s' where
    s': "runs (inap (\<lambda>s. fst q < length (tty_table s)) (proc_queue q))
      [Other, Enter, Wake, Other, Enter, Other, Again, Other, Leave] (s, Map.empty) (s', [b \<mapsto> 0])"
      "fst q < length (tty_table s')" "fst (proc_queue q) s' = 0" "t_state (tasks s' b) = TASK_INTERRUPTIBLE" by blast
  have "b \<in> dom F \<and> t_state (tasks t b) = TASK_INTERRUPTIBLE"
    if "runs (inap (\<lambda>s. fst q < length (tty_table s)) (proc_queue q)) es (s', [b \<mapsto> 0]) (t, F)" for es t F
    using tty_wait.lost_for_ever [OF that assms(4) s'(2) _ s'(4)] s'(3) assms(4) by auto
  then show ?thesis using s'(1) by blast
qed

text \<open>A machine with two tasks besides the first, one buffer and one terminal.\<close>

definition nap_demo :: tty_state where
  "nap_demo = fs_state.extend (pipe_demo\<lparr>bufs := [(bufs rd_demo ! 0)\<lparr>b_lock := 0\<rparr>], task := 0x10000 # 0x20000 # 0x30000 # replicate 61 0\<rparr>)
     (tty_state.fields [\<lparr>tty_termios = \<lparr>c_iflag = 0, c_oflag = 0, c_cflag = 0, c_lflag = 0, c_line = 0, c_cc = [], c_pad = []\<rparr>,
        tty_pgrp = 0, tty_stopped = 0, tty_read_q = \<lparr>tq_data = 0, tq_head = 0, tq_tail = 0, tq_proc_list = 0, tq_buf = replicate 1024 0\<rparr>,
        tty_write_q = \<lparr>tq_data = 0, tq_head = 0, tq_tail = 0, tq_proc_list = 0, tq_buf = replicate 1024 0\<rparr>,
        tty_secondary = \<lparr>tq_data = 0, tq_head = 0, tq_tail = 0, tq_proc_list = 0, tq_buf = replicate 1024 0\<rparr>\<rparr>] False)"

lemma nap_demo_simps:
  "bufs nap_demo = [(bufs rd_demo ! 0)\<lparr>b_lock := 0\<rparr>]" "b_wait (buf nap_demo 0) = 0" "current nap_demo = 0x20000" "init_task nap_demo = 0x10000"
  "length (tty_table nap_demo) = 1" "tq_proc_list (queue nap_demo (0, Secondary)) = 0"
  by (simp_all add: nap_demo_def pipe_demo_def rd_demo_def blk_demo_def sched_boot_def sched_state.defs blk_state.defs fs_state.defs tty_state.defs
      buf_def queue_def tty_def)

lemma nap_demo_enters:
  "\<exists>s. runs (nap (\<lambda>s. 0 < length (bufs s)) (bwait_queue 0)) [Enter] (nap_demo, Map.empty) (s, [0x20000 \<mapsto> 0]) \<and>
    t_state (tasks s 0x20000) = TASK_UNINTERRUPTIBLE"
proof -
  let ?s = "upd_task 0x20000 (\<lambda>t. t\<lparr>t_state := TASK_UNINTERRUPTIBLE\<rparr>) (snd (bwait_queue 0) 0x20000 nap_demo)"
  have "sleep_enter (bwait_queue 0) nap_demo [] = Ok 0 ?s []"
    using buffer_lock.enter_run [of nap_demo 0 "[]"] nap_demo_simps by (simp add: bwait_queue_def)
  then have "nap (\<lambda>s. 0 < length (bufs s)) (bwait_queue 0) Enter (nap_demo, Map.empty) (?s, [0x20000 \<mapsto> 0])"
    using nap.enter [of Map.empty nap_demo "bwait_queue 0" 0 ?s] nap_demo_simps(3) by simp
  then show ?thesis by (intro exI [of _ ?s]) (auto intro: runs.intros)
qed

theorem sleepers_not_lost_witness:
  "\<exists>s F. runs (nap (\<lambda>s. 0 < length (bufs s)) (bwait_queue 0)) [Enter] (nap_demo, Map.empty) (s, F) \<and>
     asleep (s, F) 0x20000 \<and> on_chain (bwait_queue 0) (s, F) 0x20000"
proof -
  obtain s where s: "runs (nap (\<lambda>s. 0 < length (bufs s)) (bwait_queue 0)) [Enter] (nap_demo, Map.empty) (s, [0x20000 \<mapsto> 0])"
    "t_state (tasks s 0x20000) = TASK_UNINTERRUPTIBLE" using nap_demo_enters by blast
  have "asleep (s, [0x20000 \<mapsto> 0]) 0x20000" using s(2) by (simp add: asleep_def)
  then show ?thesis using sleepers_not_lost [OF s(1)] nap_demo_simps(1,2) s(1) by auto
qed

theorem wake_up_wakes_all_witness:
  "\<exists>s s1 fs s'. runs (nap (\<lambda>s. 0 < length (bufs s)) (bwait_queue 0)) [Enter] (nap_demo, Map.empty) (s, [0x20000 \<mapsto> 0]) \<and>
     wake_up_last (bwait_queue 0) s [] = Ok () s1 [] \<and>
     runs (nap (\<lambda>s. 0 < length (bufs s)) (bwait_queue 0)) fs (s1, [0x20000 \<mapsto> 0]) (s', Map.empty) \<and>
     t_state (tasks s' 0x20000) = TASK_RUNNING"
proof -
  obtain s where s: "runs (nap (\<lambda>s. 0 < length (bufs s)) (bwait_queue 0)) [Enter] (nap_demo, Map.empty) (s, [0x20000 \<mapsto> 0])"
    using nap_demo_enters by blast
  obtain s1 where w: "wake_up_last (bwait_queue 0) s [] = Ok () s1 []"
    by (cases "fst (bwait_queue 0) s = 0") (auto simp: wake_up_last_def kern_defs)
  from wake_up_wakes_all [OF s _ nap_demo_simps(2) w, THEN conjunct1] nap_demo_simps(1) obtain fs s' where
    "runs (nap (\<lambda>s. 0 < length (bufs s)) (bwait_queue 0)) fs (s1, [0x20000 \<mapsto> 0]) (s', Map.empty)"
    "\<forall>q \<in> dom [0x20000 \<mapsto> 0 :: u32]. t_state (tasks s' q) = TASK_RUNNING" by (metis length_greater_0_conv list.distinct(1))
  then show ?thesis using s w by (intro exI [of _ s] exI [of _ s1] exI [of _ fs] exI [of _ s']) simp
qed

theorem terminal_wakeup_lost_witness:
  "\<exists>s'. runs (inap (\<lambda>s. 0 < length (tty_table s)) (proc_queue (0, Secondary)))
      [Other, Enter, Wake, Other, Enter, Other, Again, Other, Leave] (nap_demo, Map.empty) (s', [0x20000 \<mapsto> 0])"
  using terminal_wakeup_lost [of "(0, Secondary)" nap_demo "0x20000" "0x30000"] nap_demo_simps by auto

end
