(* ===== verification/Blk_io.thy ===== *)
theory Blk_io
  imports Blk
begin

unbundle bit_operations_syntax

text \<open>
  Block transfers from end to end. The locale \<open>block_driver\<close> is what \<open>ll_rw_block\<close> relies on in a driver that does its
  work when it is called: it serves the one request in its list. From this contract alone follow the two
  transfers of a block, and that what has been written is read back; the ram disk keeps the contract.
\<close>

section \<open>The contract of a driver\<close>

text \<open>The only request of a device, as \<open>make_request\<close> fills it in for the buffer \<open>i\<close>.\<close>

definition request_for :: "nat \<Rightarrow> nat \<Rightarrow> int \<Rightarrow> nat \<Rightarrow> 'z blk_state_scheme \<Rightarrow> bool" where
  "request_for major c rw i s \<longleftrightarrow>
     CURRENT major s = Some c \<and> c < length (request s) \<and> major < length (blk_dev s) \<and> i < length (bufs s) \<and>
     b_lock (buf s i) \<noteq> 0 \<and> length (b_data (buf s i)) = 1024 \<and>
     request s ! c = \<lparr>r_dev = uint (b_dev (buf s i)), r_cmd = rw, r_errors = 0, r_sector = push_bit 1 (b_blocknr (buf s i)),
       r_nr_sectors = 2, r_buffer = Some i, r_off = 0, r_waiting = 0, r_bh = Some i, r_next = None\<rparr>"

text \<open>The request has been served: its entry is free, the list empty, the buffer valid and unlocked. Nothing else of the
  buffers and requests has changed but for the data of the buffer and the queues of sleeping tasks.\<close>

definition request_done :: "nat \<Rightarrow> nat \<Rightarrow> nat \<Rightarrow> 'z blk_state_scheme \<Rightarrow> 'z blk_state_scheme \<Rightarrow> bool" where
  "request_done major c i s t \<longleftrightarrow>
     CURRENT major t = None \<and> r_dev (request t ! c) < 0 \<and> b_uptodate (buf t i) = 1 \<and> b_lock (buf t i) = 0 \<and>
     (b_dev (buf t i), b_blocknr (buf t i), b_dirt (buf t i)) = (b_dev (buf s i), b_blocknr (buf s i), b_dirt (buf s i)) \<and>
     length (request t) = length (request s) \<and> (\<forall>k. k \<noteq> c \<longrightarrow> request t ! k = request s ! k) \<and>
     length (bufs t) = length (bufs s) \<and> (\<forall>k. k \<noteq> i \<longrightarrow> buf t k = buf s k) \<and>
     length (blk_dev t) = length (blk_dev s) \<and> request_fn (blk_dev t ! major) = request_fn (blk_dev s ! major)"

text \<open>An idle device with a free entry in the table, which a write may take too.\<close>

definition device_idle :: "u16 \<Rightarrow> nat \<Rightarrow> 'z blk_state_scheme \<Rightarrow> bool" where
  "device_idle dev fn s \<longleftrightarrow> MAJOR dev < NR_BLK_DEV \<and> CURRENT (MAJOR dev) s = None \<and> MAJOR dev < length (blk_dev s) \<and>
     request_fn (blk_dev s ! MAJOR dev) = Some fn \<and> length (request s) = NR_REQUEST \<and> (\<exists>k < 21. r_dev (request s ! k) < 0)"

text \<open>A buffer of the device that no one is working on.\<close>

definition buffer_of :: "u16 \<Rightarrow> nat \<Rightarrow> 'z blk_state_scheme \<Rightarrow> bool" where
  "buffer_of dev i s \<longleftrightarrow> i < length (bufs s) \<and> b_dev (buf s i) = dev \<and> b_lock (buf s i) = 0 \<and> length (b_data (buf s i)) = 1024"

lemma lock_free_buffer:
  assumes "b_lock (buf s i) = 0"
  shows "lock_buffer i s es = Ok () (upd_buf i (\<lambda>b. b\<lparr>b_lock := 1\<rparr>) s) es"
  using assms by (simp add: lock_buffer_def wait_buffer_unlock_def wait_on_def kern_defs)

lemma find_request_now:
  assumes "\<exists>k < 21. r_dev (request s ! k) < 0"
  shows "\<exists>c < 32. find_request (Suc fuel) rw ahead s es = Ok (Some c) s es \<and> r_dev (request s ! c) < 0"
proof -
  let ?n = "if rw = READ then NR_REQUEST else NR_REQUEST * 2 div 3"
  obtain k where k: "k < 21" "r_dev (request s ! k) < 0" using assms by blast
  have n: "21 \<le> ?n" "?n \<le> 32" by simp_all
  then have "scan_down (\<lambda>i. r_dev (request s ! i) < 0) ?n \<noteq> None"
    unfolding scan_down_None using k less_le_trans [OF k(1) n(1)] by blast
  then obtain c where c: "scan_down (\<lambda>i. r_dev (request s ! i) < 0) ?n = Some c" by blast
  then have "c < ?n" "r_dev (request s ! c) < 0" by (auto simp: scan_down_Some)
  moreover have "find_request (Suc fuel) rw ahead s es = Ok (Some c) s es"
    using c by (simp only: find_request.simps) (simp add: kern_defs)
  ultimately show ?thesis using n by (auto intro!: exI [of _ c])
qed

text \<open>On an idle device \<open>ll_rw_block\<close> comes down to calling the driver with the request in place.\<close>

lemma ll_rw_block_starts:
  assumes "device_idle dev fn s" and "buffer_of dev i s" and "rw = READ \<and> b_uptodate (buf s i) = 0 \<or> rw = WRITE \<and> b_dirt (buf s i) \<noteq> 0"
  shows "\<exists>c < 32. \<exists>g d. let s1 = (upd_buf i (\<lambda>b. b\<lparr>b_lock := 1, b_dirt := 0\<rparr>) (upd_req c g s))\<lparr>blk_dev := d\<rparr> in
    ll_rw_block (Suc fuel) call rw i s es = call fn s1 es \<and> request_for (MAJOR dev) c rw i s1 \<and>
    length d = length (blk_dev s) \<and> request_fn (d ! MAJOR dev) = Some fn"
proof -
  let ?m = "MAJOR dev"
  have idle: "?m < 7" "CURRENT ?m s = None" "?m < length (blk_dev s)" "request_fn (blk_dev s ! ?m) = Some fn" "length (request s) = 32"
    and free: "\<exists>k < 21. r_dev (request s ! k) < 0" using assms(1) by (auto simp: device_idle_def)
  have buf: "i < length (bufs s)" "b_dev (bufs s ! i) = dev" "b_lock (bufs s ! i) = 0" "length (b_data (bufs s ! i)) = 1024"
    using assms(2) by (auto simp: buffer_of_def buf_def)
  define s0 where "s0 = upd_buf i (\<lambda>b. b\<lparr>b_lock := 1\<rparr>) s"
  have "\<exists>k < 21. r_dev (request s0 ! k) < 0" using free by (simp add: s0_def upd_buf_def)
  from find_request_now [OF this, of fuel rw False es] obtain c where
    c: "c < 32" "find_request (Suc fuel) rw False s0 es = Ok (Some c) s0 es" by blast
  define r where "r = \<lparr>r_dev = uint dev, r_cmd = rw, r_errors = 0, r_sector = push_bit 1 (b_blocknr (bufs s ! i)),
       r_nr_sectors = 2, r_buffer = Some i, r_off = 0, r_waiting = 0, r_bh = Some i, r_next = None\<rparr>"
  define d where "d = upd_nth ?m (\<lambda>d. d\<lparr>current_request := Some c\<rparr>) (blk_dev s)"
  define s1 where "s1 = (upd_buf i (\<lambda>b. b\<lparr>b_lock := 1, b_dirt := 0\<rparr>) (upd_req c (\<lambda>_. r) s))\<lparr>blk_dev := d\<rparr>"
  define s2 where "s2 = upd_req c (\<lambda>_. r) s0"
  have "make_request (Suc fuel) call ?m rw i s es = add_request call ?m c s2 es"
  proof -
    have rw: "rw = READ \<or> rw = WRITE" "\<not> (rw = WRITE \<and> b_dirt (buf s0 i) = 0 \<or> rw = READ \<and> b_uptodate (buf s0 i) \<noteq> 0)"
      using assms(3) buf(1) by (auto simp: s0_def buf_def upd_buf_def)
    have "upd_req c (\<lambda>_. \<lparr>r_dev = uint (b_dev (buf s0 i)), r_cmd = rw, r_errors = 0,
        r_sector = push_bit 1 (b_blocknr (buf s0 i)), r_nr_sectors = 2,
        r_buffer = Some i, r_off = 0, r_waiting = 0, r_bh = Some i, r_next = None\<rparr>) s0 = s2"
      using buf by (simp add: s2_def r_def s0_def buf_def upd_buf_def)
    then show ?thesis
      using rw buf(3) c(2) lock_free_buffer [of s i es, folded s0_def]
      unfolding make_request_def Let_def
      by (auto simp: kbind_def gets_def kseq_def modify_def buf_def [of s] simp del: find_request.simps)
  qed
  moreover have "add_request call ?m c s2 es = call fn s1 es"
    using idle c(1) buf
    by (simp add: add_request_def kbind_def gets_def kseq_def modify_def CURRENT_def s2_def s1_def s0_def d_def r_def
        upd_buf_def upd_req_def comp_def)
  moreover have "ll_rw_block (Suc fuel) call rw i s es = make_request (Suc fuel) call ?m rw i s es"
    using buf(2) idle by (simp add: ll_rw_block_def kbind_def gets_def buf_def)
  ultimately have "ll_rw_block (Suc fuel) call rw i s es = call fn s1 es" by simp
  moreover have "request_for ?m c rw i s1"
    using buf idle c(1) by (simp add: request_for_def s1_def d_def r_def CURRENT_def buf_def upd_buf_def upd_req_def)
  ultimately show ?thesis
    using c(1) idle unfolding Let_def
    by (intro exI [of _ c] conjI exI [of _ "\<lambda>_. r"] exI [of _ d]) (simp_all add: s1_def d_def)
qed

locale block_driver =
  fixes dev :: u16
    and fn :: nat
    and call :: "'z blk_state_scheme fptrs"
    and on_disk :: "'z blk_state_scheme \<Rightarrow> u32 \<Rightarrow> bool"
    and contents :: "'z blk_state_scheme \<Rightarrow> u32 \<Rightarrow> u8 list"
  assumes apart: "on_disk (upd_buf i f s) = on_disk s" "on_disk (upd_req c g s) = on_disk s" "on_disk (s\<lparr>blk_dev := d\<rparr>) = on_disk s"
    "contents (upd_buf i f s) = contents s" "contents (upd_req c g s) = contents s" "contents (s\<lparr>blk_dev := d\<rparr>) = contents s"
    and serves: "request_for (MAJOR dev) c rw i s \<Longrightarrow> b_dev (buf s i) = dev \<Longrightarrow> on_disk s (b_blocknr (buf s i)) \<Longrightarrow>
      rw = READ \<or> rw = WRITE \<Longrightarrow>
      \<exists>t. call fn s es = Ok () t es \<and> request_done (MAJOR dev) c i s t \<and> on_disk t = on_disk s \<and>
        (if rw = READ then b_data (buf t i) = contents s (b_blocknr (buf s i)) \<and> contents t = contents s
         else b_data (buf t i) = b_data (buf s i) \<and> contents t (b_blocknr (buf s i)) = b_data (buf s i) \<and>
           (\<forall>b. on_disk s b \<longrightarrow> b \<noteq> b_blocknr (buf s i) \<longrightarrow> contents t b = contents s b))"
begin

lemma transfer:
  assumes "device_idle dev fn s" and "buffer_of dev i s" and "on_disk s (b_blocknr (buf s i))"
    and "rw = READ \<and> b_uptodate (buf s i) = 0 \<or> rw = WRITE \<and> b_dirt (buf s i) \<noteq> 0"
  shows "\<exists>t. ll_rw_block (Suc fuel) call rw i s es = Ok () t es \<and> device_idle dev fn t \<and> on_disk t = on_disk s \<and>
    i < length (bufs t) \<and> b_dev (buf t i) = dev \<and> b_blocknr (buf t i) = b_blocknr (buf s i) \<and>
    b_uptodate (buf t i) = 1 \<and> b_lock (buf t i) = 0 \<and> b_dirt (buf t i) = 0 \<and>
    (if rw = READ then b_data (buf t i) = contents s (b_blocknr (buf s i)) \<and> contents t = contents s
     else b_data (buf t i) = b_data (buf s i) \<and> contents t (b_blocknr (buf s i)) = b_data (buf s i) \<and>
       (\<forall>b. on_disk s b \<longrightarrow> b \<noteq> b_blocknr (buf s i) \<longrightarrow> contents t b = contents s b))"
proof -
  from ll_rw_block_starts [OF assms(1,2,4), of fuel call es] obtain c g d where c: "c < 32"
    and run: "ll_rw_block (Suc fuel) call rw i s es = call fn ((upd_buf i (\<lambda>b. b\<lparr>b_lock := 1, b_dirt := 0\<rparr>) (upd_req c g s))\<lparr>blk_dev := d\<rparr>) es"
    and req: "request_for (MAJOR dev) c rw i ((upd_buf i (\<lambda>b. b\<lparr>b_lock := 1, b_dirt := 0\<rparr>) (upd_req c g s))\<lparr>blk_dev := d\<rparr>)"
    and d: "length d = length (blk_dev s)" "request_fn (d ! MAJOR dev) = Some fn" by (auto simp: Let_def)
  define s1 where "s1 = (upd_buf i (\<lambda>b. b\<lparr>b_lock := 1, b_dirt := 0\<rparr>) (upd_req c g s))\<lparr>blk_dev := d\<rparr>"
  have i: "i < length (bufs s)" "b_dev (buf s i) = dev" using assms(2) by (auto simp: buffer_of_def)
  have idle: "MAJOR dev < 7" "MAJOR dev < length (blk_dev s)" "length (request s) = 32" "\<exists>k < 21. r_dev (request s ! k) < 0"
    using assms(1) by (auto simp: device_idle_def)
  have s1: "buf s1 i = (buf s i)\<lparr>b_lock := 1, b_dirt := 0\<rparr>" "length (bufs s1) = length (bufs s)" "blk_dev s1 = d"
    "length (request s1) = 32" "\<And>k. k \<noteq> c \<Longrightarrow> request s1 ! k = request s ! k"
    using i idle(3) by (simp_all add: s1_def buf_def upd_buf_def upd_req_def)
  have disk: "on_disk s1 = on_disk s" "contents s1 = contents s" by (simp_all add: s1_def apart)
  have same: "b_blocknr (buf s1 i) = b_blocknr (buf s i)" "b_data (buf s1 i) = b_data (buf s i)" by (simp_all add: s1(1))
  have "b_dev (buf s1 i) = dev" "on_disk s1 (b_blocknr (buf s1 i))" "rw = READ \<or> rw = WRITE"
    using s1(1) i assms(3,4) disk by auto
  from serves [OF req [folded s1_def] this, of es] obtain t where
    t: "call fn s1 es = Ok () t es" "request_done (MAJOR dev) c i s1 t" "on_disk t = on_disk s1"
      "if rw = READ then b_data (buf t i) = contents s1 (b_blocknr (buf s1 i)) \<and> contents t = contents s1
         else b_data (buf t i) = b_data (buf s1 i) \<and> contents t (b_blocknr (buf s1 i)) = b_data (buf s1 i) \<and>
           (\<forall>b. on_disk s1 b \<longrightarrow> b \<noteq> b_blocknr (buf s1 i) \<longrightarrow> contents t b = contents s1 b)" by blast
  have free: "\<exists>k < 21. r_dev (request t ! k) < 0"
  proof -
    obtain k where k: "k < 21" "r_dev (request s ! k) < 0" using idle(4) by blast
    then have "r_dev (request t ! k) < 0" using t(2) s1(5) [of k] by (cases "k = c") (auto simp: request_done_def)
    with k(1) show ?thesis by blast
  qed
  have "device_idle dev fn t"
    using t(2) s1 d idle free unfolding device_idle_def request_done_def by simp
  moreover have "b_dev (buf t i) = dev" "b_blocknr (buf t i) = b_blocknr (buf s i)" "b_dirt (buf t i) = 0" "b_uptodate (buf t i) = 1"
    "b_lock (buf t i) = 0" "i < length (bufs t)"
    using t(2) s1 i unfolding request_done_def by auto
  ultimately show ?thesis
    using run [folded s1_def] t(1,3) t(4) [unfolded same disk] disk by (intro exI [of _ t]) simp
qed

text \<open>The buffer is used for something else between the two transfers.\<close>

lemma write_then_read:
  assumes "device_idle dev fn s" and "buffer_of dev i s" and "on_disk s (b_blocknr (buf s i))" and "b_dirt (buf s i) \<noteq> 0"
    and "length junk = 1024"
  shows "\<exists>t. kseq (ll_rw_block (Suc fuel) call WRITE i)
      (kseq (modify (upd_buf i (\<lambda>b. b\<lparr>b_data := junk, b_uptodate := 0\<rparr>))) (ll_rw_block (Suc fuel) call READ i)) s es = Ok () t es \<and>
    b_data (buf t i) = b_data (buf s i) \<and> b_uptodate (buf t i) = 1 \<and> b_lock (buf t i) = 0 \<and> b_dirt (buf t i) = 0 \<and> device_idle dev fn t \<and>
    (\<forall>b. on_disk s b \<longrightarrow> contents t b = (if b = b_blocknr (buf s i) then b_data (buf s i) else contents s b))"
proof -
  from transfer [OF assms(1-3), of WRITE fuel es] assms(4) obtain t where
    t: "ll_rw_block (Suc fuel) call WRITE i s es = Ok () t es" "device_idle dev fn t" "on_disk t = on_disk s" "i < length (bufs t)"
      "b_dev (buf t i) = dev" "b_blocknr (buf t i) = b_blocknr (buf s i)" "b_lock (buf t i) = 0"
      "contents t (b_blocknr (buf s i)) = b_data (buf s i)"
      "\<forall>b. on_disk s b \<longrightarrow> b \<noteq> b_blocknr (buf s i) \<longrightarrow> contents t b = contents s b" by auto
  define u where "u = upd_buf i (\<lambda>b. b\<lparr>b_data := junk, b_uptodate := 0\<rparr>) t"
  have buf: "buf u i = (buf t i)\<lparr>b_data := junk, b_uptodate := 0\<rparr>" "length (bufs u) = length (bufs t)"
    using t(4) by (simp_all add: u_def buf_def upd_buf_def)
  have u: "on_disk u = on_disk s" "contents u = contents t" using t(3) by (simp_all add: u_def apart)
  have "device_idle dev fn u" using t(2) by (simp add: device_idle_def u_def upd_buf_def CURRENT_def)
  moreover have "buffer_of dev i u" using t(4,5,7) buf assms(5) by (simp add: buffer_of_def)
  moreover have "on_disk u (b_blocknr (buf u i))" using u t(6) buf assms(3) by simp
  ultimately obtain v where v: "ll_rw_block (Suc fuel) call READ i u es = Ok () v es" "device_idle dev fn v" "b_uptodate (buf v i) = 1"
    "b_lock (buf v i) = 0" "b_dirt (buf v i) = 0" "b_data (buf v i) = contents u (b_blocknr (buf u i))" "contents v = contents u"
    using transfer [of u i READ fuel es] buf by auto
  have "b_data (buf v i) = b_data (buf s i)" using v(6) u buf t(6,8) by simp
  then show ?thesis
    using t(1,8,9) v u by (intro exI [of _ v]) (auto simp: kseq_def kbind_def modify_def u_def [symmetric])
qed

end


section \<open>The ram disk keeps the contract\<close>

definition rd_on_disk :: "'z blk_state_scheme \<Rightarrow> u32 \<Rightarrow> bool" where
  "rd_on_disk s b \<longleftrightarrow> 0 \<le> rd_length s \<and> 1024 * (uint b + 1) \<le> rd_length s \<and> uint (rd_start s) + rd_length s < 2 ^ 32"

definition rd_contents :: "'z blk_state_scheme \<Rightarrow> u32 \<Rightarrow> u8 list" where
  "rd_contents s b = rd_copy_in (rd_start s + 1024 * b) 1024 (rd_bytes s)"

lemma rd_end_request:
  assumes "request_for 1 c rw i s"
  shows "\<exists>t. end_request ''ramdisk'' (\<lambda>_. skip) 1 1 s es = Ok () t es \<and> request_done 1 c i s t \<and>
    b_data (buf t i) = b_data (buf s i) \<and> rd_bytes t = rd_bytes s \<and> rd_start t = rd_start s \<and> rd_length t = rd_length s"
  using assms
  by (auto simp: request_for_def request_done_def end_request_def drv_unlock_buffer_def printk_def wake_up_last_def kern_defs
     CURRENT_def buf_def upd_buf_def upd_req_def upd_task_def bwait_queue_def rwait_queue_def request_queue_def nth_upd_nth)

text \<open>The test of the driver never rejects a block on the disk.\<close>

lemma rd_in_range:
  assumes "rd_on_disk s b"
  shows "\<not> rd_start s + 1024 * b + 1024 > rd_start s + word_of_int (rd_length s)"
    and "uint (1024 * b) = 1024 * uint b" and "uint (rd_start s + 1024 * b) = uint (rd_start s) + 1024 * uint b"
proof -
  have r: "1024 * (uint b + 1) \<le> rd_length s" "uint (rd_start s) + rd_length s < 4294967296" "0 \<le> uint (rd_start s)" "0 \<le> uint b"
    using assms by (auto simp: rd_on_disk_def)
  have lt: "1024 * B < 4294967296 \<and> S + 1024 * B < 4294967296 \<and> S + 1024 * B + 1024 < 4294967296 \<and> 0 \<le> L \<and> L < 4294967296"
    if "1024 * (B + 1) \<le> L" "S + L < 4294967296" "0 \<le> S" "0 \<le> B" for B S L :: int
    using that by auto
  note lt = lt [OF r]
  show b: "uint (1024 * b) = 1024 * uint b" using r lt by (simp add: uint_word_ariths mod_pos_pos_trivial)
  show a: "uint (rd_start s + 1024 * b) = uint (rd_start s) + 1024 * uint b"
    using r lt b by (simp add: uint_plus_if_size word_size)
  have "uint (rd_start s + 1024 * b + 1024) = uint (rd_start s) + 1024 * uint b + 1024"
    using lt a uint_plus_if_size [of "rd_start s + 1024 * b" 1024] by (simp add: word_size)
  moreover have "uint (word_of_int (rd_length s) :: u32) = rd_length s" using lt by (simp add: uint_word_of_int)
  then have "uint (rd_start s + word_of_int (rd_length s)) = uint (rd_start s) + rd_length s"
    using r uint_plus_if_size [of "rd_start s" "word_of_int (rd_length s)"] by (simp add: word_size)
  ultimately show "\<not> rd_start s + 1024 * b + 1024 > rd_start s + word_of_int (rd_length s)"
    using r by (simp add: word_less_def)
qed

text \<open>Blocks of the disk do not overlap.\<close>

lemma rd_contents_write:
  assumes "rd_on_disk s b" and "rd_on_disk s b'" and "length bs = 1024"
    and "rd_start t = rd_start s" and "rd_bytes t = rd_copy_out (rd_start s + 1024 * b) bs (rd_bytes s)"
  shows "rd_contents t b' = (if b' = b then bs else rd_contents s b')"
proof (cases "b' = b")
  case True
  then show ?thesis using assms(3-5) rd_copy_in_out [of bs "rd_start s + 1024 * b" "rd_bytes s"] by (simp add: rd_contents_def)
next
  case False
  then have ne: "uint b' \<noteq> uint b" by (simp add: word_uint_eq_iff)
  let ?a = "rd_start s + 1024 * b" and ?a' = "rd_start s + 1024 * b'"
  have a: "uint ?a = uint (rd_start s) + 1024 * uint b" "uint ?a' = uint (rd_start s) + 1024 * uint b'"
    using rd_in_range(3) assms(1,2) by blast+
  have top: "uint (rd_start s) + 1024 * uint b + 1024 < 4294967296" "uint (rd_start s) + 1024 * uint b' + 1024 < 4294967296"
    using assms(1,2) by (auto simp: rd_on_disk_def)
  have add_small: "uint (v + w) = uint v + uint w" if "uint v + uint w < 4294967296" for v w :: u32
    using that by (simp add: uint_plus_if_size word_size)
  have far: "\<not> unat (?a' + of_nat k - ?a) < length bs" if k: "k < 1024" for k
  proof (rule ccontr)
    define x where "x = ?a' + of_nat k - ?a"
    assume "\<not> \<not> unat (?a' + of_nat k - ?a) < length bs"
    then have "unat x < unat (1024 :: u32)" unfolding x_def [symmetric] assms(3) not_not by simp
    then have "x < 1024" unfolding word_less_nat_alt .
    then have x: "uint x < 1024" by (simp add: word_less_def)
    have "uint (of_nat k :: u32) = int k" using k by (simp add: unsigned_of_nat take_bit_nat_eq_self)
    then have "uint (?a' + of_nat k) = uint ?a' + int k"
      using add_small [of ?a' "of_nat k"] a top k by simp
    moreover have "uint (?a + x) = uint ?a + uint x" using add_small [of ?a x] a top x by simp
    moreover have "?a + x = ?a' + of_nat k" by (simp add: x_def)
    ultimately have "1024 * uint b' + int k = 1024 * uint b + uint x" using a by simp
    moreover have "B' = B" if "1024 * B' + int k = 1024 * B + X" "0 \<le> X" "X < 1024" for B B' X :: int
    proof -
      have "(1024 * B' + int k) div 1024 = B'" "(1024 * B + X) div 1024 = B" using k that by simp_all
      then show ?thesis using that(1) by simp
    qed
    ultimately show False using ne x uint_ge_0 [of x] by blast
  qed
  have "rd_copy_out ?a bs (rd_bytes s) (?a' + of_nat k) = rd_bytes s (?a' + of_nat k)" if "k < 1024" for k
    using rd_copy_out_nth [of bs ?a "rd_bytes s" "?a' + of_nat k"] assms(3) far [OF that] by (simp only: if_False) simp
  then have "rd_copy_in ?a' 1024 (rd_copy_out ?a bs (rd_bytes s)) = rd_copy_in ?a' 1024 (rd_bytes s)"
    unfolding rd_copy_in_def by (intro map_cong) auto
  then show ?thesis using False assms(4,5) by (simp add: rd_contents_def)
qed

lemma rd_serves:
  assumes "request_for (MAJOR 0x101) c rw i s" and "b_dev (buf s i) = 0x101" and "rd_on_disk s (b_blocknr (buf s i))"
    and "rw = READ \<or> rw = WRITE"
  shows "\<exists>t. do_rd_request (Suc (Suc k)) s es = Ok () t es \<and> request_done (MAJOR 0x101) c i s t \<and> rd_on_disk t = rd_on_disk s \<and>
        (if rw = READ then b_data (buf t i) = rd_contents s (b_blocknr (buf s i)) \<and> rd_contents t = rd_contents s
         else b_data (buf t i) = b_data (buf s i) \<and> rd_contents t (b_blocknr (buf s i)) = b_data (buf s i) \<and>
           (\<forall>b. rd_on_disk s b \<longrightarrow> b \<noteq> b_blocknr (buf s i) \<longrightarrow> rd_contents t b = rd_contents s b))"
proof -
  have m: "MAJOR 0x101 = 1" by (simp add: MAJOR_def)
  let ?b = "b_blocknr (buf s i)"
  let ?a = "rd_start s + 1024 * ?b"
  have req: "request_for 1 c rw i s" using assms(1) m by simp
  then have r: "CURRENT 1 s = Some c" "r_dev (request s ! c) = 0x101" "r_cmd (request s ! c) = rw" "r_bh (request s ! c) = Some i"
    "r_buffer (request s ! c) = Some i" "r_nr_sectors (request s ! c) = 2" "r_sector (request s ! c) = push_bit 1 ?b"
    "b_lock (buf s i) \<noteq> 0" "length (b_data (buf s i)) = 1024" "i < length (bufs s)"
    using assms(2) by (auto simp: request_for_def)
  define s1 where "s1 = (if rw = WRITE
      then s\<lparr>rd_bytes := rd_copy_out ?a (take 1024 (b_data (buf s i))) (rd_bytes s)\<rparr>
      else upd_buf i (\<lambda>b. b\<lparr>b_data := rd_copy_in ?a 1024 (rd_bytes s)\<rparr>) s)"
  have init: "INIT_REQUEST ''ramdisk'' 1 s es = Ok (Some c) s es"
    using r by (simp add: INIT_REQUEST_def kern_defs MAJOR_def)
  have sec: "push_bit 9 (push_bit 1 ?b) = 1024 * ?b" by (simp add: push_bit_eq_mult)
  have run: "do_rd_request (Suc (Suc k)) s es = kseq (end_request ''ramdisk'' (\<lambda>_. skip) 1 1) (do_rd_request (Suc k)) s1 es"
    using init r sec rd_in_range(1) [OF assms(3)] assms(4) unfolding do_rd_request.simps(2) [of "Suc k"]
    by (cases "rw = WRITE") (simp_all add: kbind_def gets_def kseq_def modify_def Let_def MINOR_def s1_def del: do_rd_request.simps)
  have eq: "request s1 = request s" "blk_dev s1 = blk_dev s" "length (bufs s1) = length (bufs s)" "rd_start s1 = rd_start s"
    "rd_length s1 = rd_length s" "\<And>j. j \<noteq> i \<Longrightarrow> buf s1 j = buf s j"
    "buf s1 i = (if rw = WRITE then buf s i else (buf s i)\<lparr>b_data := rd_contents s ?b\<rparr>)"
    "rd_bytes s1 = (if rw = WRITE then rd_copy_out ?a (b_data (buf s i)) (rd_bytes s) else rd_bytes s)"
    using r(9,10) by (auto simp: s1_def buf_def upd_buf_def rd_contents_def)
  have "request_for 1 c rw i s1"
    using req eq unfolding request_for_def by (auto simp: CURRENT_def rd_contents_def rd_copy_in_def)
  from rd_end_request [OF this, of es] obtain t where
    t: "end_request ''ramdisk'' (\<lambda>_. skip) 1 1 s1 es = Ok () t es" "request_done 1 c i s1 t" "b_data (buf t i) = b_data (buf s1 i)"
      "rd_bytes t = rd_bytes s1" "rd_start t = rd_start s1" "rd_length t = rd_length s1" by blast
  have fin: "request_done 1 c i s t" using t(2) eq unfolding request_done_def by auto
  then have "do_rd_request (Suc k) t es = Ok () t es"
    by (simp add: request_done_def INIT_REQUEST_def kern_defs)
  then have "do_rd_request (Suc (Suc k)) s es = Ok () t es"
    using run t(1) by (simp add: kseq_def kbind_def del: do_rd_request.simps)
  moreover have "rd_on_disk t = rd_on_disk s" using t eq by (auto simp: rd_on_disk_def)
  moreover have "rd_contents t b = (if b = ?b then b_data (buf s i) else rd_contents s b)" if "rw = WRITE" "rd_on_disk s b" for b
    using rd_contents_write [OF assms(3) that(2) r(9), of t] t(4,5) eq that(1) by simp
  moreover have "rd_contents t = rd_contents s" if "rw = READ"
    using t(4,5) eq that by (auto simp: rd_contents_def)
  ultimately show ?thesis using fin t(3) eq assms(3,4) m by (intro exI [of _ t]) auto
qed

interpretation rd: block_driver "0x101" fn "\<lambda>_. do_rd_request (Suc (Suc k))" rd_on_disk rd_contents
proof unfold_locales
  show "rd_on_disk (upd_buf i f s) = rd_on_disk s" "rd_contents (upd_buf i f s) = rd_contents s"
    for i f and s :: "'a blk_state_scheme"
    by (auto simp: rd_on_disk_def rd_contents_def upd_buf_def)
  show "rd_on_disk (upd_req c g s) = rd_on_disk s" "rd_contents (upd_req c g s) = rd_contents s"
    for c g and s :: "'a blk_state_scheme"
    by (auto simp: rd_on_disk_def rd_contents_def upd_req_def)
  show "rd_on_disk (s\<lparr>blk_dev := d\<rparr>) = rd_on_disk s" "rd_contents (s\<lparr>blk_dev := d\<rparr>) = rd_contents s"
    for d and s :: "'a blk_state_scheme"
    by (auto simp: rd_on_disk_def rd_contents_def)
qed (rule rd_serves)

text \<open>C13: a dirty buffer of the ram disk that \<open>ll_rw_block\<close> writes is read back by \<open>ll_rw_block\<close> as it was, whatever the buffer
  has been used for in between, and no other block of the disk changes. Both calls run to their end without sleeping,
  leave the buffer unlocked and valid, and the device idle.\<close>

theorem ramdisk_write_then_read:
  assumes "device_idle 0x101 fn s" and "buffer_of 0x101 i s" and "rd_on_disk s (b_blocknr (buf s i))" and "b_dirt (buf s i) \<noteq> 0"
    and "length junk = 1024"
  shows "\<exists>t. kseq (ll_rw_block 1 (\<lambda>_. do_rd_request 2) WRITE i)
      (kseq (modify (upd_buf i (\<lambda>b. b\<lparr>b_data := junk, b_uptodate := 0\<rparr>))) (ll_rw_block 1 (\<lambda>_. do_rd_request 2) READ i)) s es = Ok () t es \<and>
    b_data (buf t i) = b_data (buf s i) \<and> b_uptodate (buf t i) = 1 \<and> b_lock (buf t i) = 0 \<and> b_dirt (buf t i) = 0 \<and>
    device_idle 0x101 fn t \<and>
    (\<forall>b. rd_on_disk s b \<longrightarrow> rd_contents t b = (if b = b_blocknr (buf s i) then b_data (buf s i) else rd_contents s b))"
  using rd.write_then_read [OF assms, of 0 0 es] by (simp only: One_nat_def numeral_2_eq_2)

definition rd_idle :: blk_state where
  "rd_idle = blk_demo\<lparr>bufs := [\<lparr>b_data = replicate 1024 7, b_blocknr = 3, b_dev = 0x101, b_uptodate = 1, b_dirt = 1,
       b_count = 1, b_lock = 0, b_wait = 0, b_prev = None, b_next = None, b_prev_free = None, b_next_free = None\<rparr>],
     blk_dev := [\<lparr>request_fn = None, current_request = None\<rparr>, \<lparr>request_fn = Some 1, current_request = None\<rparr>],
     rd_start := 0x300000, rd_length := 0x100000\<rparr>"

theorem ramdisk_write_then_read_witness:
  "\<exists>t. kseq (ll_rw_block 1 (\<lambda>_. do_rd_request 2) WRITE 0)
      (kseq (modify (upd_buf 0 (\<lambda>b. b\<lparr>b_data := replicate 1024 0, b_uptodate := 0\<rparr>)))
        (ll_rw_block 1 (\<lambda>_. do_rd_request 2) READ 0)) rd_idle [] = Ok () t [] \<and> b_data (buf t 0) = replicate 1024 7"
proof -
  have "r_dev (request rd_idle ! 20) < 0" "length (request rd_idle) = 32"
    by (simp_all add: rd_idle_def blk_demo_def sched_state.defs blk_state.defs Let_def)
  then have "device_idle 0x101 1 rd_idle"
    unfolding device_idle_def by (auto simp: rd_idle_def MAJOR_def CURRENT_def intro: exI [of _ 20])
  moreover have "buffer_of 0x101 0 rd_idle" "rd_on_disk rd_idle (b_blocknr (buf rd_idle 0))" "b_dirt (buf rd_idle 0) \<noteq> 0"
    "b_data (buf rd_idle 0) = replicate 1024 7"
    by (simp_all add: rd_idle_def buffer_of_def buf_def rd_on_disk_def)
  ultimately show ?thesis
    using ramdisk_write_then_read [of 1 rd_idle 0 "replicate 1024 0" "[]"] by (auto simp only: length_replicate)
qed

end
