(* ===== verification/Exec.thy ===== *)
theory Exec
  imports Open
begin

unbundle bit_operations_syntax

text \<open>
  Loading a program, \<^verbatim>\<open>fs/exec.c\<close>. The arguments are copied from user memory, byte by
  byte and from the last to the first, into pages that will become the top of the new data
  segment; after \<open>change_ldt\<close> user memory is the new segment, in which these pages are visible
  and everything else is what page faults bring in (the parameter \<open>img\<close>).

  Where \<open>copy_strings\<close> is told by \<open>from_kmem\<close> in which segment the pointers and the strings
  lie, it has here a reader for each: user memory, or a string in a kernel buffer at the
  address \<open>kb\<close>. Loops that end only at a NUL or a null pointer take the fuel of the context.
\<close>

section \<open>Reading arguments\<close>

definition MAX_ARG_PAGES :: nat where
  "MAX_ARG_PAGES = 32"

definition long_at :: "(u32 \<Rightarrow> u8) \<Rightarrow> u32 \<Rightarrow> u32" where
  "long_at m a = ucast (m a) OR push_bit 8 (ucast (m (a + 1)))
     OR push_bit 16 (ucast (m (a + 2))) OR push_bit 24 (ucast (m (a + 3)))"

primrec count_loop :: "nat \<Rightarrow> u32 \<Rightarrow> int \<Rightarrow> (int, 'z sched_state_scheme) kern" where
  "count_loop 0 tmp i = kloops"
| "count_loop (Suc fuel) tmp i =
     kbind (get_fs_long tmp) (\<lambda>v. if v \<noteq> 0 then count_loop fuel (tmp + 4) (i + 1) else ret i)"

definition count_args :: "nat \<Rightarrow> u32 \<Rightarrow> (int, 'z sched_state_scheme) kern" where
  "count_args fuel argv = (if argv \<noteq> 0 then count_loop fuel argv 0 else ret 0)"

text \<open>\<^verbatim>\<open>do { len++; } while (get_fs_byte(tmp++));\<close>\<close>

primrec arg_len :: "nat \<Rightarrow> (u32 \<Rightarrow> u8) \<Rightarrow> u32 \<Rightarrow> nat \<Rightarrow> nat option" where
  "arg_len 0 rd tmp len = None"
| "arg_len (Suc fuel) rd tmp len =
     (if rd tmp \<noteq> 0 then arg_len fuel rd (tmp + 1) (Suc len) else Some (Suc len))"

text \<open>The page that holds offset \<open>p\<close> of the argument area, allocated when there is none; the
  index into the array of pages is not checked. The result is the page, 0 when memory has run
  out, and the array.\<close>

definition arg_page :: "u32 \<Rightarrow> u32 list \<Rightarrow> (u32 \<times> u32 list, 'z mm_state_scheme) kern" where
  "arg_page p page =
     (let i = unat p div PAGE_SIZE in
      if i \<ge> MAX_ARG_PAGES then kfault
      else if page ! i \<noteq> 0 then ret (page ! i, page)
      else kbind get_free_page (\<lambda>pag. ret (pag, page[i := pag])))"

text \<open>\<^verbatim>\<open>while (len) ...\<close>: one string, from its NUL back to its first byte. With the array of
  pages comes \<open>None\<close> when memory has run out, or the variables \<open>p\<close>, \<open>offset\<close> and \<open>pag\<close>.\<close>

primrec copy_back ::
  "nat \<Rightarrow> ('z sched_state_scheme \<Rightarrow> u32 \<Rightarrow> u8) \<Rightarrow> u32 \<Rightarrow> u32 \<Rightarrow> int \<Rightarrow> u32 \<Rightarrow> u32 list \<Rightarrow>
   (u32 list \<times> (u32 \<times> int \<times> u32) option, 'z sched_state_scheme) kern" where
  "copy_back 0 rd tmp p offset pag page = ret (page, Some (p, offset, pag))"
| "copy_back (Suc len) rd tmp p offset pag page =
     (let p = p - 1; tmp = tmp - 1; offset = offset - 1 in
      kbind (if offset < 0 then
               kbind (arg_page p page) (\<lambda>(pag, page). ret (int (unat p mod PAGE_SIZE), pag, page))
             else ret (offset, pag, page)) (\<lambda>(offset, pag, page).
      if pag = 0 then ret (page, None)
      else kseq (modify (\<lambda>s. s\<lparr>mem := st8 (pag + word_of_int offset) (rd s tmp) (mem s)\<rparr>))
                (copy_back len rd tmp p offset pag page)))"

text \<open>The loop over the strings, the last one first. The test \<^verbatim>\<open>p-len < 0\<close> is between unsigned
  numbers and never holds. The result is the new \<open>p\<close>, 0 when memory has run out, and the pages.\<close>

primrec copy_loop ::
  "nat \<Rightarrow> nat \<Rightarrow> ('z sched_state_scheme \<Rightarrow> nat \<Rightarrow> u32) \<Rightarrow> ('z sched_state_scheme \<Rightarrow> u32 \<Rightarrow> u8) \<Rightarrow>
   u32 list \<Rightarrow> u32 \<Rightarrow> int \<Rightarrow> u32 \<Rightarrow> (u32 list \<times> u32, 'z sched_state_scheme) kern" where
  "copy_loop 0 fuel argv rd page p offset pag = ret (page, p)"
| "copy_loop (Suc argc) fuel argv rd page p offset pag =
     kbind (gets (\<lambda>s. argv s argc)) (\<lambda>tmp.
     if tmp = 0 then kpanic ''argc is wrong''
     else kbind (gets (\<lambda>s. arg_len fuel (rd s) tmp 0)) (\<lambda>len.
       case len of
         None \<Rightarrow> kloops
       | Some len \<Rightarrow>
           kbind (copy_back len rd (tmp + of_nat len) p offset pag page) (\<lambda>(page, r).
           case r of
             None \<Rightarrow> ret (page, 0)
           | Some (p, offset, pag) \<Rightarrow> copy_loop argc fuel argv rd page p offset pag)))"

definition copy_strings ::
  "nat \<Rightarrow> int \<Rightarrow> ('z sched_state_scheme \<Rightarrow> nat \<Rightarrow> u32) \<Rightarrow> ('z sched_state_scheme \<Rightarrow> u32 \<Rightarrow> u8) \<Rightarrow>
   u32 list \<times> u32 \<Rightarrow> (u32 list \<times> u32, 'z sched_state_scheme) kern" where
  "copy_strings fuel argc argv rd a =
     (if snd a = 0 then ret (fst a, 0)
      else copy_loop (nat argc) fuel argv rd (fst a) (snd a) 0 0)"

text \<open>Pointers and strings in user memory (\<open>from_kmem\<close> 0), one pointer in a kernel variable
  (1 and 2), and a string in a kernel buffer (2).\<close>

definition user_argv :: "u32 \<Rightarrow> 'z sched_state_scheme \<Rightarrow> nat \<Rightarrow> u32" where
  "user_argv argv s k = long_at (umem s) (argv + 4 * of_nat k)"

definition kernel_string :: "u32 \<Rightarrow> u8 list \<Rightarrow> u32 \<Rightarrow> u8" where
  "kernel_string kb str a = (if unat (a - kb) < length str then str ! unat (a - kb) else 0)"

section \<open>The new address space\<close>

text \<open>User memory once the argument pages are mapped at the top of the data segment.\<close>

definition new_umem :: "(u32 \<Rightarrow> u8) \<Rightarrow> u32 list \<Rightarrow> (u32 \<Rightarrow> u32) \<Rightarrow> u32 \<Rightarrow> u8" where
  "new_umem img page m a =
     (let off = unat (a - (0x4000000 - of_nat (MAX_ARG_PAGES * PAGE_SIZE))); i = off div PAGE_SIZE in
      if i < MAX_ARG_PAGES \<and> page ! i \<noteq> 0 then ld8 m (page ! i + of_nat (off mod PAGE_SIZE)) else img a)"

definition change_ldt ::
  "(u32 \<Rightarrow> u8) \<Rightarrow> u32 \<Rightarrow> u32 list \<Rightarrow> (u32, 'z sched_state_scheme) kern" where
  "change_ldt img text_size page =
     (let code_limit = (text_size + 4096 - 1) AND 0xfffff000; data_limit = 0x4000000 in
      kbind (gets (\<lambda>s. get_base (t_ldt (cur s) ! 1))) (\<lambda>base.
      kseq (upd_cur (\<lambda>t. t\<lparr>t_ldt := upd_nth 1 (set_limit code_limit \<circ> set_base base) (t_ldt t)\<rparr>))
     (kseq (upd_cur (\<lambda>t. t\<lparr>t_ldt := upd_nth 2 (set_limit data_limit \<circ> set_base base) (t_ldt t)\<rparr>))
     (kseq (kfor [0..<MAX_ARG_PAGES] (\<lambda>k.
              let i = MAX_ARG_PAGES - 1 - k in
              kwhen (page ! i \<noteq> 0)
                (kbind (put_page (page ! i) (base + data_limit - of_nat (Suc k * PAGE_SIZE))) (\<lambda>_. skip))))
     (kseq (modify (\<lambda>s. s\<lparr>umem := new_umem img page (mem s)\<rparr>))
           (ret data_limit))))))"

text \<open>\<^verbatim>\<open>while (get_fs_byte(p++)) ;\<close> and the two loops that fill a pointer table.\<close>

primrec skip_string :: "nat \<Rightarrow> u32 \<Rightarrow> (u32, 'z sched_state_scheme) kern" where
  "skip_string 0 p = kloops"
| "skip_string (Suc fuel) p = kbind (get_fs_byte p) (\<lambda>c. if c \<noteq> 0 then skip_string fuel (p + 1) else ret (p + 1))"

primrec fill_table :: "nat \<Rightarrow> nat \<Rightarrow> u32 \<Rightarrow> u32 \<Rightarrow> (u32, 'z sched_state_scheme) kern" where
  "fill_table 0 fuel p tab = kseq (put_fs_long 0 tab) (ret p)"
| "fill_table (Suc n) fuel p tab =
     kseq (put_fs_long p tab) (kbind (skip_string fuel p) (\<lambda>p. fill_table n fuel p (tab + 4)))"

definition create_tables :: "nat \<Rightarrow> u32 \<Rightarrow> int \<Rightarrow> int \<Rightarrow> (u32, 'z sched_state_scheme) kern" where
  "create_tables fuel p argc envc =
     (let sp = 0xfffffffc AND p;
          envp = sp - 4 * word_of_int (envc + 1);
          argv = envp - 4 * word_of_int (argc + 1) in
      kseq (put_fs_long envp (argv - 4))
     (kseq (put_fs_long argv (argv - 8))
     (kseq (put_fs_long (word_of_int argc) (argv - 12))
     (kbind (fill_table (nat argc) fuel p argv) (\<lambda>p.
      kbind (fill_table (nat envc) fuel p envp) (\<lambda>_.
      ret (argv - 12)))))))"

section \<open>The executable\<close>

record exec_hdr =
  a_magic :: u32
  a_text :: u32
  a_data :: u32
  a_bss :: u32
  a_syms :: u32
  a_entry :: u32
  a_trsize :: u32
  a_drsize :: u32

definition get_exec :: "u8 list \<Rightarrow> exec_hdr" where
  "get_exec bs = \<lparr>a_magic = le_word bs 0, a_text = le_word bs 4, a_data = le_word bs 8, a_bss = le_word bs 12,
     a_syms = le_word bs 16, a_entry = le_word bs 20, a_trsize = le_word bs 24, a_drsize = le_word bs 28\<rparr>"

definition ZMAGIC :: u32 where
  "ZMAGIC = 0x10b"

text \<open>\<open>N_TXTOFF\<close>: the segment size of 1024 bytes, or the size of the header.\<close>

definition N_TXTOFF :: "exec_hdr \<Rightarrow> u32" where
  "N_TXTOFF ex = (if a_magic ex = ZMAGIC then (1024 - 32) + 32 else 32)"

definition bad_header :: "u32 \<Rightarrow> exec_hdr \<Rightarrow> bool" where
  "bad_header isize ex \<longleftrightarrow> a_magic ex \<noteq> ZMAGIC \<or> a_trsize ex \<noteq> 0 \<or> a_drsize ex \<noteq> 0 \<or>
     a_text ex + a_data ex + a_bss ex > 0x3000000 \<or>
     isize < a_text ex + a_data ex + a_syms ex + N_TXTOFF ex"

text \<open>From \<open>restart_interp\<close> to the first block: the error, or the block and the effective ids.\<close>

definition may_exec :: "u16 \<Rightarrow> u16 \<Rightarrow> m_inode \<Rightarrow> bool" where
  "may_exec euid egid n \<longleftrightarrow>
     (let i = (if euid = i_uid n then drop_bit 6 (i_mode n)
               else if egid = ucast (i_gid n) then drop_bit 3 (i_mode n) else i_mode n) in
      i AND 1 \<noteq> 0 \<or> i_mode n AND 0x49 \<noteq> 0 \<and> euid = 0)"

definition exec_open ::
  "'z fs_state_scheme ctx \<Rightarrow> nat \<Rightarrow> (int + nat \<times> u16 \<times> u16, 'z fs_state_scheme) kern" where
  "exec_open K inode =
     kbind (gets (\<lambda>s. (ino s inode, cur s))) (\<lambda>(n, t).
     if \<not> S_ISREG (i_mode n) then ret (Inl (- EACCES))
     else let e_uid = (if i_mode n AND 0x800 \<noteq> 0 then i_uid n else t_euid t);
              e_gid = (if i_mode n AND 0x400 \<noteq> 0 then ucast (i_gid n) else t_egid t) in
       if \<not> may_exec (t_euid t) (t_egid t) n then ret (Inl (- ENOEXEC))
       else kbind (bread K (i_dev n) (ucast (i_zone n ! 0))) (\<lambda>bh.
         case bh of
           None \<Rightarrow> ret (Inl (- EACCES))
         | Some bh \<Rightarrow> ret (Inr (bh, e_uid, e_gid))))"

text \<open>The labels \<open>exec_error2\<close> and \<open>exec_error1\<close>.\<close>

definition exec_error1 :: "u32 list \<Rightarrow> int \<Rightarrow> (int, 'z mm_state_scheme) kern" where
  "exec_error1 page retval = kseq (kfor [0..<MAX_ARG_PAGES] (\<lambda>i. free_page (page ! i))) (ret retval)"

definition exec_error2 ::
  "'z fs_state_scheme ctx \<Rightarrow> nat \<Rightarrow> u32 list \<Rightarrow> int \<Rightarrow> (int, 'z fs_state_scheme) kern" where
  "exec_error2 K inode page retval = kseq (iput K (Some inode)) (exec_error1 page retval)"

section \<open>Interpreters\<close>

definition is_blank :: "u8 \<Rightarrow> bool" where
  "is_blank c \<longleftrightarrow> c = 32 \<or> c = 9"

text \<open>The name after the last slash.\<close>

fun base_name :: "u8 list \<Rightarrow> u8 list \<Rightarrow> u8 list" where
  "base_name i_name [] = i_name"
| "base_name i_name (c # cp) = base_name (if c = 47 then cp else i_name) cp"

text \<open>The first line of a script: the interpreter, its last component and its argument. The
  copy of the block ends at a NUL, and a line without its newline is refused.\<close>

definition parse_interp :: "u8 list \<Rightarrow> (u8 list \<times> u8 list \<times> u8 list option) option" where
  "parse_interp data =
     (let buf = takeWhile (\<lambda>c. c \<noteq> 0) (take 1022 (drop 2 data)) in
      if 10 \<notin> set buf then None
      else let cp = dropWhile is_blank (takeWhile (\<lambda>c. c \<noteq> 10) buf) in
        if cp = [] then None
        else let interp = takeWhile (\<lambda>c. \<not> is_blank c) cp;
                 rest = dropWhile (\<lambda>c. \<not> is_blank c) cp in
          Some (interp, base_name interp interp, if rest = [] then None else Some (tl rest)))"

text \<open>Running code with \<open>fs\<close> on another segment.\<close>

definition with_fs ::
  "(u32 \<Rightarrow> u8) \<Rightarrow> ('a, 'z sched_state_scheme) kern \<Rightarrow> ('a, 'z sched_state_scheme) kern" where
  "with_fs new m =
     kbind (gets umem) (\<lambda>old.
     kseq (modify (\<lambda>s. s\<lparr>umem := new\<rparr>))
    (kbind m (\<lambda>r.
     kseq (modify (\<lambda>s. s\<lparr>umem := old\<rparr>)) (ret r))))"

section \<open>do_execve\<close>

primrec zero_tail :: "nat \<Rightarrow> u32 \<Rightarrow> (unit, 'z sched_state_scheme) kern" where
  "zero_tail 0 i = skip"
| "zero_tail (Suc n) i = (if i AND 0xfff \<noteq> 0 then kseq (put_fs_byte 0 i) (zero_tail n (i + 1)) else skip)"

text \<open>From the point of no return. The result holds what is stored to \<open>eip[0]\<close> and \<open>eip[3]\<close>.\<close>

definition exec_commit ::
  "'z fs_state_scheme ctx \<Rightarrow> (u32 \<Rightarrow> u8) \<Rightarrow> nat \<Rightarrow> exec_hdr \<Rightarrow> u16 \<times> u16 \<Rightarrow> int \<Rightarrow> int \<Rightarrow>
   u32 list \<Rightarrow> u32 \<Rightarrow> (int \<times> (u32 \<times> u32) option, 'z fs_state_scheme) kern" where
  "exec_commit K img inode ex ids argc envc page p =
     kseq (kbind (gets (\<lambda>s. t_executable (cur s))) (iput K))
    (kseq (upd_cur (\<lambda>t. t\<lparr>t_executable := Some inode,
             t_sigaction := map (\<lambda>a. a\<lparr>sa_handler := 0\<rparr>) (t_sigaction t)\<rparr>))
    (kseq (kfor [0..<NR_OPEN] (\<lambda>i.
             kbind (gets (\<lambda>s. t_close_on_exec (cur s))) (\<lambda>c.
             kwhen (bit c i) (kbind (sys_close K i) (\<lambda>_. skip)))))
    (kseq (upd_cur (\<lambda>t. t\<lparr>t_close_on_exec := 0\<rparr>))
    (kbind (gets (\<lambda>s. t_ldt (cur s))) (\<lambda>ldt.
     kbind (free_page_tables (get_base (ldt ! 1)) (get_limit (ldt ! 1))) (\<lambda>_.
     kbind (free_page_tables (get_base (ldt ! 2)) (get_limit (ldt ! 2))) (\<lambda>_.
     kseq (modify (\<lambda>s. if last_task_used_math s = current s then s\<lparr>last_task_used_math := 0\<rparr> else s))
    (kseq (upd_cur (\<lambda>t. t\<lparr>t_used_math := 0\<rparr>))
    (kbind (change_ldt img (a_text ex) page) (\<lambda>lim.
     kbind (create_tables (fst K) (p + lim - of_nat (MAX_ARG_PAGES * PAGE_SIZE)) argc envc) (\<lambda>p.
     kseq (upd_cur (\<lambda>t. t\<lparr>t_end_code := a_text ex, t_end_data := a_data ex + a_text ex,
              t_brk := a_bss ex + (a_data ex + a_text ex), t_start_stack := p AND 0xfffff000,
              t_euid := fst ids, t_egid := snd ids\<rparr>))
    (kseq (zero_tail PAGE_SIZE (a_text ex + a_data ex))
          (ret (0, Some (a_entry ex, p)))))))))))))))"

text \<open>The block of a program that is not a script: the header is checked, the arguments are
  copied unless the script branch has done it.\<close>

definition exec_image ::
  "'z fs_state_scheme ctx \<Rightarrow> (u32 \<Rightarrow> u8) \<Rightarrow> nat \<Rightarrow> nat \<Rightarrow> u16 \<times> u16 \<Rightarrow> bool \<Rightarrow> int \<times> u32 \<Rightarrow> int \<times> u32 \<Rightarrow>
   u32 list \<times> u32 \<Rightarrow> (int \<times> (u32 \<times> u32) option, 'z fs_state_scheme) kern" where
  "exec_image K img inode bh ids sh_bang args env a =
     kbind (gets (\<lambda>s. get_exec (b_data (buf s bh)))) (\<lambda>ex.
     kseq (brelse (Some bh))
    (kbind (gets (\<lambda>s. i_size (ino s inode))) (\<lambda>isize.
     if bad_header isize ex then
       kbind (exec_error2 K inode (fst a) (- ENOEXEC)) (\<lambda>r. ret (r, None))
     else if N_TXTOFF ex \<noteq> 1024 then
       kseq (printk ''%s: N_TXTOFF != BLOCK_SIZE. See a.out.h.'' [])
            (kbind (exec_error2 K inode (fst a) (- ENOEXEC)) (\<lambda>r. ret (r, None)))
     else kbind (if sh_bang then ret a
                 else kbind (copy_strings (fst K) (fst env) (user_argv (snd env)) umem a)
                   (copy_strings (fst K) (fst args) (user_argv (snd args)) umem)) (\<lambda>a.
       if \<not> sh_bang \<and> snd a = 0 then
         kbind (exec_error2 K inode (fst a) (- ENOMEM)) (\<lambda>r. ret (r, None))
       else exec_commit K img inode ex ids (fst args) (fst env) (fst a) (snd a)))))"

text \<open>The script branch up to the second \<open>restart_interp\<close>: the strings are spliced in, in
  reverse order, and the inode of the interpreter is found.\<close>

definition splice_args ::
  "nat \<Rightarrow> u32 \<Rightarrow> u32 \<Rightarrow> u8 list \<Rightarrow> u8 list option \<Rightarrow> int \<times> u32 \<Rightarrow> int \<times> u32 \<Rightarrow>
   u32 list \<times> u32 \<Rightarrow> (int \<times> (u32 list \<times> u32), 'z sched_state_scheme) kern" where
  "splice_args fuel kb filename i_name i_arg args env a =
     kbind (copy_strings fuel (fst env) (user_argv (snd env)) umem a) (\<lambda>a.
     kbind (copy_strings fuel (fst args - 1) (user_argv (snd args + 4)) umem a) (\<lambda>a.
     kbind (copy_strings fuel 1 (\<lambda>_ _. filename) umem a) (\<lambda>a.
     kbind (case i_arg of None \<Rightarrow> ret a
            | Some str \<Rightarrow> copy_strings fuel 1 (\<lambda>_ _. kb) (\<lambda>_. kernel_string kb str) a) (\<lambda>a.
     kbind (copy_strings fuel 1 (\<lambda>_ _. kb) (\<lambda>_. kernel_string kb i_name) a) (\<lambda>a.
     ret (fst args - 1 + 1 + (if i_arg = None then 0 else 1) + 1, a))))))"

definition do_execve ::
  "'z fs_state_scheme ctx \<Rightarrow> (u32 \<Rightarrow> u8) \<Rightarrow> u32 \<Rightarrow> u32 \<Rightarrow> u32 \<Rightarrow> u32 \<Rightarrow> u32 \<Rightarrow>
   (int \<times> (u32 \<times> u32) option, 'z fs_state_scheme) kern" where
  "do_execve K img kb eip1 filename argv envp =
     (if 0xffff AND eip1 \<noteq> 0x000f then kpanic ''execve called from supervisor mode''
      else let page = replicate MAX_ARG_PAGES 0; p = of_nat (PAGE_SIZE * MAX_ARG_PAGES - 4) in
        kbind (namei K filename) (\<lambda>r.
        case r of
          None \<Rightarrow> ret (- ENOENT, None)
        | Some inode \<Rightarrow>
            kbind (count_args (fst K) argv) (\<lambda>argc.
            kbind (count_args (fst K) envp) (\<lambda>envc.
            kbind (exec_open K inode) (\<lambda>r.
            case r of
              Inl e \<Rightarrow> kbind (exec_error2 K inode page e) (\<lambda>r. ret (r, None))
            | Inr (bh, ids) \<Rightarrow>
                kbind (gets (\<lambda>s. b_data (buf s bh))) (\<lambda>data.
                if \<not> (data ! 0 = 35 \<and> data ! 1 = 33) then
                  exec_image K img inode bh ids False (argc, argv) (envc, envp) (page, p)
                else kseq (brelse (Some bh)) (kseq (iput K (Some inode))
                 (case parse_interp data of
                    None \<Rightarrow> kbind (exec_error1 page (- ENOEXEC)) (\<lambda>r. ret (r, None))
                  | Some (interp, i_name, i_arg) \<Rightarrow>
                      kbind (splice_args (fst K) kb filename i_name i_arg
                               (argc, argv) (envc, envp) (page, p)) (\<lambda>(argc, a).
                      if snd a = 0 then kbind (exec_error1 (fst a) (- ENOMEM)) (\<lambda>r. ret (r, None))
                      else kbind (with_fs (kernel_string kb interp) (namei K kb)) (\<lambda>r.
                        case r of
                          None \<Rightarrow> kbind (exec_error1 (fst a) (- ENOENT)) (\<lambda>r. ret (r, None))
                        | Some inode \<Rightarrow>
                            kbind (exec_open K inode) (\<lambda>r.
                            case r of
                              Inl e \<Rightarrow> kbind (exec_error2 K inode (fst a) e) (\<lambda>r. ret (r, None))
                            | Inr (bh, ids) \<Rightarrow>
                                exec_image K img inode bh ids True (argc, argv) (envc, envp) a)))))))))))"

section \<open>The argument pages\<close>

text \<open>The byte at offset \<open>x\<close> of the argument area.\<close>

definition arg_cell :: "u32 list \<Rightarrow> nat \<Rightarrow> u32" where
  "arg_cell page x = page ! (x div 4096) + of_nat (x mod 4096)"

definition arg_byte :: "u32 list \<Rightarrow> (u32 \<Rightarrow> u32) \<Rightarrow> nat \<Rightarrow> u8" where
  "arg_byte page m x = ld8 m (arg_cell page x)"

text \<open>The array holds different pages, all of them in use.\<close>

definition args_ok :: "u32 list \<Rightarrow> 'z mm_state_scheme \<Rightarrow> bool" where
  "args_ok page s \<longleftrightarrow> length page = 32 \<and> length (mem_map s) = PAGING_PAGES \<and>
     (\<forall>i < 32. page ! i \<noteq> 0 \<longrightarrow> (\<exists>j < PAGING_PAGES. page ! i = page_addr j \<and> mem_map s ! j \<noteq> 0)) \<and>
     (\<forall>i < 32. \<forall>k < 32. page ! i = page ! k \<longrightarrow> page ! i \<noteq> 0 \<longrightarrow> i = k)"

definition memory_full :: "'z mm_state_scheme \<Rightarrow> bool" where
  "memory_full s \<longleftrightarrow> (\<forall>j < PAGING_PAGES. mem_map s ! j \<noteq> 0)"

lemma args_ok_entry:
  "args_ok page s \<Longrightarrow> i < 32 \<Longrightarrow> page ! i \<noteq> 0 \<Longrightarrow> \<exists>j < PAGING_PAGES. page ! i = page_addr j \<and> mem_map s ! j \<noteq> 0"
  by (auto simp: args_ok_def)

lemma page_frame_word: "page_frame (a AND NOT 3) = page_frame a"
proof -
  have three: "(3 :: u32) = mask 2" by (simp add: mask_eq_exp_minus_1)
  show ?thesis unfolding frame_mask three by (rule bit_word_eqI) (auto simp: bit_simps)
qed

lemma ld8_clear_page:
  assumes "page_addr i \<noteq> page_frame a"
  shows "ld8 (clear_page (page_addr i) m) a = ld8 m a"
proof -
  have "\<not> in_page (page_addr i) (a AND NOT 3)"
    unfolding in_page_iff [OF page_frame_page_addr(1)] page_frame_word using assms by simp
  then show ?thesis by (simp only: ld8_def clear_page_def if_False)
qed

lemma page_frame_cell:
  assumes "o' < 4096"
  shows "page_frame (page_addr j + of_nat o') = page_addr j"
proof -
  have "(of_nat o' :: u32) < 4096" using assms by (simp add: word_less_nat_alt unat_of_nat)
  then have "in_page (page_addr j) (page_addr j + of_nat o')" by (rule in_page_offset)
  then show ?thesis by (simp add: in_page_iff)
qed

lemma arg_cell_frame:
  assumes "args_ok page s" and "x < 131072" and "page ! (x div 4096) \<noteq> 0"
  shows "page_frame (arg_cell page x) = page ! (x div 4096)"
proof -
  have "x div 4096 < 32" using assms(2) by simp
  from args_ok_entry [OF assms(1) this assms(3)] obtain j where "page ! (x div 4096) = page_addr j" by blast
  then show ?thesis using page_frame_cell [of "x mod 4096" j] by (simp add: arg_cell_def)
qed

lemma arg_cell_inj:
  assumes "args_ok page s" and "x < 131072" and "y < 131072" and "page ! (x div 4096) \<noteq> 0" and "page ! (y div 4096) \<noteq> 0"
    and "arg_cell page x = arg_cell page y"
  shows "x = y"
proof -
  have eq: "page ! (x div 4096) = page ! (y div 4096)"
    using arg_cell_frame [OF assms(1,2,4)] arg_cell_frame [OF assms(1,3,5)] assms(6) by simp
  then have d: "x div 4096 = y div 4096"
    using assms(1,2,3,4) by (auto simp: args_ok_def less_mult_imp_div_less)
  have "(of_nat (x mod 4096) :: u32) = of_nat (y mod 4096)" using assms(6) eq by (simp add: arg_cell_def)
  then have "unat (of_nat (x mod 4096) :: u32) = unat (of_nat (y mod 4096) :: u32)" by simp
  then have "x mod 4096 = y mod 4096" by (simp add: unat_of_nat)
  with d show ?thesis by (metis div_mult_mod_eq)
qed

text \<open>Storing one byte of the area.\<close>

lemma arg_byte_store:
  assumes "args_ok page s" and "x < 131072" and "y < 131072" and "page ! (x div 4096) \<noteq> 0" and "page ! (y div 4096) \<noteq> 0"
  shows "arg_byte page (st8 (arg_cell page x) v m) y = (if x = y then v else arg_byte page m y)"
  using arg_cell_inj [OF assms] by (auto simp: arg_byte_def ld8_st8)

text \<open>Fetching the page of an offset: the bytes that are there stay.\<close>

definition args_extend :: "u32 list \<Rightarrow> u32 list \<Rightarrow> bool" where
  "args_extend page page' \<longleftrightarrow> (\<forall>i < 32. page ! i \<noteq> 0 \<longrightarrow> page' ! i = page ! i)"

lemma args_extend_trans: "args_extend a b \<Longrightarrow> args_extend b c \<Longrightarrow> args_extend a c"
  by (auto simp: args_extend_def)

lemma arg_page_run:
  fixes s :: "'z sched_state_scheme"
  assumes "args_ok page s" and "unat p < 131072"
  shows "\<exists>pag page' t. arg_page p page s es = Ok (pag, page') t es \<and> umem t = umem s \<and>
    (if pag = 0 then memory_full t
     else args_ok page' t \<and> pag = page' ! (unat p div 4096) \<and> args_extend page page' \<and>
       (\<forall>x < 131072. page ! (x div 4096) \<noteq> 0 \<longrightarrow> arg_byte page' (mem t) x = arg_byte page (mem s) x))"
proof -
  let ?i = "unat p div 4096"
  have i: "?i < 32" using assms(2) by simp
  have len: "length page = 32" "length (mem_map s) = PAGING_PAGES" using assms(1) by (auto simp: args_ok_def)
  show ?thesis
  proof (cases "page ! ?i = 0")
    case False
    then have "arg_page p page s es = Ok (page ! ?i, page) s es"
      using i by (simp add: arg_page_def PAGE_SIZE_def MAX_ARG_PAGES_def kern_defs)
    then show ?thesis using False assms(1) by (auto simp: args_extend_def)
  next
    case none: True
    show ?thesis
    proof (cases "scan_down (\<lambda>i. mem_map s ! i = 0) PAGING_PAGES")
      case None
      then have "arg_page p page s es = Ok (0, page[?i := 0]) s es"
        using i none by (simp add: arg_page_def PAGE_SIZE_def MAX_ARG_PAGES_def get_free_page_eq kern_defs)
      then show ?thesis using None by (auto simp: memory_full_def scan_down_None)
    next
      case (Some j)
      then have j: "j < PAGING_PAGES" "mem_map s ! j = 0" by (auto simp: scan_down_Some)
      let ?t = "s\<lparr>mem_map := (mem_map s)[j := 1], mem := clear_page (page_addr j) (mem s)\<rparr>"
      let ?page = "page[?i := page_addr j]"
      have run: "arg_page p page s es = Ok (page_addr j, ?page) ?t es"
        using i none Some by (simp add: arg_page_def PAGE_SIZE_def MAX_ARG_PAGES_def get_free_page_eq kern_defs)
      have fresh: "page ! k \<noteq> page_addr j" if "k < 32" for k
        using args_ok_entry [OF assms(1) that] j by (cases "page ! k = 0") (auto dest: sym)
      have ok: "args_ok ?page ?t"
        unfolding args_ok_def
      proof (intro conjI allI impI)
        fix k
        assume k: "k < 32" "?page ! k \<noteq> 0"
        show "\<exists>j' < PAGING_PAGES. ?page ! k = page_addr j' \<and> mem_map ?t ! j' \<noteq> 0"
        proof (cases "k = ?i")
          case True
          then show ?thesis using j(1) len i by (intro exI [of _ j]) simp
        next
          case False
          with k have "page ! k \<noteq> 0" by simp
          from args_ok_entry [OF assms(1) k(1) this] obtain j' where
            j': "j' < PAGING_PAGES" "page ! k = page_addr j'" "mem_map s ! j' \<noteq> 0" by blast
          then have "j' \<noteq> j" using j(2) by auto
          then show ?thesis using j' False by (intro exI [of _ j']) simp
        qed
      next
        fix k l
        assume kl: "k < 32" "l < 32" "?page ! k = ?page ! l" "?page ! k \<noteq> 0"
        then show "k = l"
          using fresh [of k] fresh [of l] assms(1) len i by (auto simp: args_ok_def nth_list_update split: if_splits)
      qed (simp_all add: len)
      have byte: "arg_byte ?page (mem ?t) x = arg_byte page (mem s) x" if x: "x < 131072" "page ! (x div 4096) \<noteq> 0" for x
      proof -
        have "page_addr j \<noteq> page_frame (arg_cell page x)"
          using arg_cell_frame [OF assms(1) x] fresh [of "x div 4096"] less_mult_imp_div_less [of x 32 4096] x by auto
        moreover have "arg_cell ?page x = arg_cell page x" using x none by (cases "x div 4096 = ?i") (auto simp: arg_cell_def)
        ultimately show ?thesis by (simp add: arg_byte_def ld8_clear_page)
      qed
      show ?thesis
        using run ok byte j i len none by (auto simp: args_extend_def nth_list_update)
    qed
  qed
qed


text \<open>The variables \<open>p\<close>, \<open>offset\<close> and \<open>pag\<close> between two bytes: either the next byte needs a page, or it is
  in the page \<open>pag\<close>.\<close>

definition arg_cursor :: "u32 list \<Rightarrow> u32 \<Rightarrow> int \<Rightarrow> u32 \<Rightarrow> bool" where
  "arg_cursor page p offset pag \<longleftrightarrow>
     offset = 0 \<or> 0 < offset \<and> offset = int (unat p mod 4096) \<and> pag = page ! (unat p div 4096) \<and> pag \<noteq> 0"

definition arg_fetch :: "u32 \<Rightarrow> int \<Rightarrow> u32 \<Rightarrow> u32 list \<Rightarrow> (int \<times> u32 \<times> u32 list, 'z sched_state_scheme) kern" where
  "arg_fetch p offset pag page =
     (if offset < 0 then
        kbind (arg_page p page) (\<lambda>(pag, page). ret (int (unat p mod PAGE_SIZE), pag, page))
      else ret (offset, pag, page))"

text \<open>What the next byte finds: its page, and its offset in it.\<close>

lemma arg_fetch_run:
  fixes s :: "'z sched_state_scheme"
  assumes "args_ok page s" and "p \<noteq> 0" and "unat p \<le> 131072" and "arg_cursor page p offset pag"
  shows "\<exists>pag1 page1 t1. arg_fetch (p - 1) (offset - 1) pag page s es = Ok (int (unat (p - 1) mod 4096), pag1, page1) t1 es \<and>
    umem t1 = umem s \<and>
    (if pag1 = 0 then memory_full t1
     else args_ok page1 t1 \<and> pag1 = page1 ! (unat (p - 1) div 4096) \<and> args_extend page page1 \<and>
       (\<forall>x < 131072. page ! (x div 4096) \<noteq> 0 \<longrightarrow> arg_byte page1 (mem t1) x = arg_byte page (mem s) x))"
proof -
  have p1: "unat p = Suc (unat (p - 1))" using assms(2) by (simp add: unat_minus_one unat_gt_0)
  then have lt: "unat (p - 1) < 131072" using assms(3) by simp
  show ?thesis
  proof (cases "offset = 0")
    case True
    from arg_page_run [OF assms(1) lt, of es] obtain pag1 page1 t1 where
      "arg_page (p - 1) page s es = Ok (pag1, page1) t1 es" "umem t1 = umem s"
      "if pag1 = 0 then memory_full t1
       else args_ok page1 t1 \<and> pag1 = page1 ! (unat (p - 1) div 4096) \<and> args_extend page page1 \<and>
         (\<forall>x < 131072. page ! (x div 4096) \<noteq> 0 \<longrightarrow> arg_byte page1 (mem t1) x = arg_byte page (mem s) x)" by blast
    then show ?thesis
      using True by (intro exI [of _ pag1] exI [of _ page1] exI [of _ t1]) (simp add: arg_fetch_def kbind_def ret_def PAGE_SIZE_def)
  next
    case False
    with assms(4) have o: "0 < offset" "offset = int (unat p mod 4096)" "pag = page ! (unat p div 4096)" "pag \<noteq> 0"
      by (auto simp: arg_cursor_def)
    then have m: "0 < unat p mod 4096" by simp
    have "unat (p - 1) mod 4096 = unat p mod 4096 - 1" "unat (p - 1) div 4096 = unat p div 4096"
      using m p1 by (auto simp: mod_Suc div_Suc split: if_splits)
    then show ?thesis using o m assms(1) by (auto simp: arg_fetch_def ret_def args_extend_def of_nat_diff)
  qed
qed

text \<open>The bytes \<open>bs\<close> have been put in front of offset \<open>p\<close>; what was at \<open>p\<close> and above is still there.\<close>

definition args_placed ::
  "u32 list \<Rightarrow> (u32 \<Rightarrow> u32) \<Rightarrow> nat \<Rightarrow> u32 list \<Rightarrow> (u32 \<Rightarrow> u32) \<Rightarrow> nat \<Rightarrow> u8 list \<Rightarrow> bool" where
  "args_placed page m p page' m' q bs \<longleftrightarrow> q + length bs = p \<and> args_extend page page' \<and>
     (\<forall>x. q \<le> x \<longrightarrow> x < p \<longrightarrow> page' ! (x div 4096) \<noteq> 0) \<and> map (arg_byte page' m') [q..<p] = bs \<and>
     (\<forall>x < 131072. p \<le> x \<longrightarrow> page ! (x div 4096) \<noteq> 0 \<longrightarrow> arg_byte page' m' x = arg_byte page m x)"

lemma args_placed_nil: "args_placed page m p page m p []"
  by (simp add: args_placed_def args_extend_def)

lemma args_placed_trans:
  assumes "args_placed page m p page1 m1 p1 b1" and "args_placed page1 m1 p1 page2 m2 q b0" and "p \<le> 131072"
  shows "args_placed page m p page2 m2 q (b0 @ b1)"
proof -
  have len: "p1 + length b1 = p" "q + length b0 = p1" and ext: "args_extend page page1" "args_extend page1 page2"
    and map1: "map (arg_byte page1 m1) [p1..<p] = b1" and map2: "map (arg_byte page2 m2) [q..<p1] = b0"
    and there1: "\<And>x. p1 \<le> x \<Longrightarrow> x < p \<Longrightarrow> page1 ! (x div 4096) \<noteq> 0"
    and there2: "\<And>x. q \<le> x \<Longrightarrow> x < p1 \<Longrightarrow> page2 ! (x div 4096) \<noteq> 0"
    and keep1: "\<And>x. x < 131072 \<Longrightarrow> p \<le> x \<Longrightarrow> page ! (x div 4096) \<noteq> 0 \<Longrightarrow> arg_byte page1 m1 x = arg_byte page m x"
    and keep2: "\<And>x. x < 131072 \<Longrightarrow> p1 \<le> x \<Longrightarrow> page1 ! (x div 4096) \<noteq> 0 \<Longrightarrow> arg_byte page2 m2 x = arg_byte page1 m1 x"
    using assms(1,2) by (simp_all add: args_placed_def)
  have same: "page' ! (x div 4096) = page'' ! (x div 4096)"
    if "args_extend page'' page'" "page'' ! (x div 4096) \<noteq> 0" "x < 131072" for page' page'' x
    using that by (auto simp: args_extend_def)
  have "[q..<p] = [q..<p1] @ [p1..<p]" using len upt_add_eq_append [of q p1 "length b1"] by simp
  moreover have "map (arg_byte page2 m2) [p1..<p] = b1"
    unfolding map1 [symmetric] using keep2 there1 assms(3) by (intro map_cong) auto
  moreover have "page2 ! (x div 4096) \<noteq> 0" if "q \<le> x" "x < p" for x
    using that there1 [of x] there2 [of x] same [OF ext(2), of x] assms(3) by (cases "x < p1") auto
  moreover have "arg_byte page2 m2 x = arg_byte page m x" if "x < 131072" "p \<le> x" "page ! (x div 4096) \<noteq> 0" for x
    using keep1 [OF that] keep2 [of x] same [OF ext(1) that(3,1)] that len by auto
  ultimately show ?thesis
    unfolding args_placed_def using len map2 args_extend_trans [OF ext] by auto
qed

text \<open>One byte.\<close>

lemma args_placed_byte:
  assumes "args_ok page1 t1" and "p < 131072" and "page1 ! (p div 4096) \<noteq> 0" and "args_extend page page1"
    and "\<And>x. x < 131072 \<Longrightarrow> page ! (x div 4096) \<noteq> 0 \<Longrightarrow> arg_byte page1 (mem t1) x = arg_byte page m x"
  shows "args_placed page m (Suc p) page1 (st8 (arg_cell page1 p) v (mem t1)) p [v]"
proof -
  have "page1 ! (x div 4096) \<noteq> 0" if "x < 131072" "page ! (x div 4096) \<noteq> 0" for x
    using assms(4) that by (auto simp: args_extend_def)
  then show ?thesis
    using assms arg_byte_store [OF assms(1,2) _ assms(3)] by (auto simp: args_placed_def le_less_Suc_eq)
qed

lemma copy_back_run:
  fixes s :: "'z sched_state_scheme"
  assumes "args_ok page s" and "n \<le> unat p" and "unat p \<le> 131072" and "arg_cursor page p offset pag"
    and "\<And>t. umem t = umem s \<Longrightarrow> rd t = R"
  shows "\<exists>page' r t. copy_back n rd tmp p offset pag page s es = Ok (page', r) t es \<and> umem t = umem s \<and>
    (case r of
       None \<Rightarrow> memory_full t
     | Some (q, offset', pag') \<Rightarrow> args_ok page' t \<and> arg_cursor page' q offset' pag' \<and>
         args_placed page (mem s) (unat p) page' (mem t) (unat q) (map (\<lambda>k. R (tmp - of_nat n + of_nat k)) [0..<n]))"
  using assms
proof (induction n arbitrary: p tmp offset pag page s)
  case 0
  then show ?case by (simp add: kern_defs args_placed_nil)
next
  case (Suc n)
  let ?p = "p - 1"
  have "p \<noteq> 0" using Suc.prems(2) by auto
  then have up: "unat p = Suc (unat ?p)" by (simp add: unat_minus_one unat_gt_0)
  then have lt: "unat ?p < 131072" and le: "n \<le> unat ?p" "unat ?p \<le> 131072" using Suc.prems(2,3) by auto
  from arg_fetch_run [OF Suc.prems(1) \<open>p \<noteq> 0\<close> Suc.prems(3,4), of es]
  obtain pag1 page1 t1 where f: "arg_fetch ?p (offset - 1) pag page s es = Ok (int (unat ?p mod 4096), pag1, page1) t1 es" "umem t1 = umem s"
    and new: "if pag1 = 0 then memory_full t1
     else args_ok page1 t1 \<and> pag1 = page1 ! (unat ?p div 4096) \<and> args_extend page page1 \<and>
       (\<forall>x < 131072. page ! (x div 4096) \<noteq> 0 \<longrightarrow> arg_byte page1 (mem t1) x = arg_byte page (mem s) x)"
    by blast
  show ?case
  proof (cases "pag1 = 0")
    case True
    then have "copy_back (Suc n) rd tmp p offset pag page s es = Ok (page1, None) t1 es"
      using f(1) by (simp add: Let_def kbind_def ret_def flip: arg_fetch_def)
    then show ?thesis using True new f(2) by auto
  next
    case False
    define t2 where "t2 = t1\<lparr>mem := st8 (arg_cell page1 (unat ?p)) (R (tmp - 1)) (mem t1)\<rparr>"
    have t2: "args_ok page1 t2" "umem t2 = umem s" using new False f(2) by (simp_all add: t2_def args_ok_def)
    have byte: "args_placed page (mem s) (unat p) page1 (mem t2) (unat ?p) [R (tmp - 1)]"
      unfolding t2_def up using new False lt by (simp add: args_placed_byte)
    have cur: "arg_cursor page1 ?p (int (unat ?p mod 4096)) pag1" using False new by (auto simp: arg_cursor_def)
    have rd: "rd t = R" if "umem t = umem t2" for t using Suc.prems(5) that t2(2) by simp
    have run: "copy_back (Suc n) rd tmp p offset pag page s es =
        copy_back n rd (tmp - 1) ?p (int (unat ?p mod 4096)) pag1 page1 t2 es"
      using f False new Suc.prems(5) [of t1]
      by (simp add: Let_def kbind_def kseq_def modify_def t2_def arg_cell_def flip: arg_fetch_def)
    from Suc.IH [OF t2(1) le cur rd, of "tmp - 1"] obtain page' r t where
      IH: "copy_back n rd (tmp - 1) ?p (int (unat ?p mod 4096)) pag1 page1 t2 es = Ok (page', r) t es" "umem t = umem t2"
       "case r of None \<Rightarrow> memory_full t
        | Some (q, offset', pag') \<Rightarrow> args_ok page' t \<and> arg_cursor page' q offset' pag' \<and>
            args_placed page1 (mem t2) (unat ?p) page' (mem t) (unat q) (map (\<lambda>k. R (tmp - 1 - of_nat n + of_nat k)) [0..<n])"
      by blast
    have bytes: "map (\<lambda>k. R (tmp - of_nat (Suc n) + of_nat k)) [0..<Suc n] = map (\<lambda>k. R (tmp - 1 - of_nat n + of_nat k)) [0..<n] @ [R (tmp - 1)]"
      by (simp add: algebra_simps)
    show ?thesis
      unfolding run bytes using IH t2(2) args_placed_trans [OF byte _ Suc.prems(3)] by (auto split: option.splits)
  qed
qed

section \<open>The argument strings\<close>

text \<open>The string at an address, with its NUL.\<close>

definition arg_str :: "nat \<Rightarrow> (u32 \<Rightarrow> u8) \<Rightarrow> u32 \<Rightarrow> u8 list" where
  "arg_str fuel R a = (case arg_len fuel R a 0 of None \<Rightarrow> [] | Some n \<Rightarrow> map (\<lambda>i. R (a + of_nat i)) [0..<n])"

definition arg_strs :: "nat \<Rightarrow> (u32 \<Rightarrow> u8) \<Rightarrow> (nat \<Rightarrow> u32) \<Rightarrow> nat \<Rightarrow> u8 list" where
  "arg_strs fuel R av argc = concat (map (\<lambda>k. arg_str fuel R (av k)) [0..<argc])"

text \<open>Every pointer is a string that ends within the fuel.\<close>

definition args_end :: "nat \<Rightarrow> (u32 \<Rightarrow> u8) \<Rightarrow> (nat \<Rightarrow> u32) \<Rightarrow> nat \<Rightarrow> bool" where
  "args_end fuel R av argc \<longleftrightarrow> (\<forall>k < argc. av k \<noteq> 0 \<and> arg_len fuel R (av k) 0 \<noteq> None)"

lemma copy_loop_run:
  fixes s :: "'z sched_state_scheme"
  assumes "args_ok page s" and "length (arg_strs fuel R av argc) < unat p" and "unat p \<le> 131072" and "arg_cursor page p offset pag"
    and "\<And>t. umem t = umem s \<Longrightarrow> rd t = R \<and> argv t = av" and "args_end fuel R av argc"
  shows "\<exists>page' q t. copy_loop argc fuel argv rd page p offset pag s es = Ok (page', q) t es \<and> umem t = umem s \<and>
    (if q = 0 then memory_full t
     else args_ok page' t \<and> args_placed page (mem s) (unat p) page' (mem t) (unat q) (arg_strs fuel R av argc))"
  using assms
proof (induction argc arbitrary: p offset pag page s)
  case 0
  then have "p \<noteq> 0" by auto
  with 0 show ?case by (simp add: kern_defs args_placed_nil arg_strs_def)
next
  case (Suc argc)
  obtain n where n: "arg_len fuel R (av argc) 0 = Some n" "av argc \<noteq> 0"
    using Suc.prems(6) by (auto simp: args_end_def)
  let ?str = "map (\<lambda>i. R (av argc + of_nat i)) [0..<n]"
  have strs: "arg_strs fuel R av (Suc argc) = arg_strs fuel R av argc @ ?str"
    using n(1) by (simp add: arg_strs_def arg_str_def)
  have le: "n \<le> unat p" using Suc.prems(2) strs by simp
  have rd: "rd s = R" "argv s = av" using Suc.prems(5) by auto
  obtain page1 r t1 where b: "copy_back n rd (av argc + of_nat n) p offset pag page s es = Ok (page1, r) t1 es" "umem t1 = umem s"
    and new: "case r of None \<Rightarrow> memory_full t1
      | Some (q, offset', pag') \<Rightarrow> args_ok page1 t1 \<and> arg_cursor page1 q offset' pag' \<and>
         args_placed page (mem s) (unat p) page1 (mem t1) (unat q) ?str"
    using copy_back_run [OF Suc.prems(1) le Suc.prems(3,4), of rd R "av argc + of_nat n" es, unfolded add_diff_cancel_right'] Suc.prems(5) by blast
  show ?case
  proof (cases r)
    case None
    then have "copy_loop (Suc argc) fuel argv rd page p offset pag s es = Ok (page1, 0) t1 es"
      using b(1) n rd by (simp add: kbind_def gets_def ret_def)
    then show ?thesis using None new b(2) by auto
  next
    case (Some z)
    then obtain p1 offset1 pag1 where r: "r = Some (p1, offset1, pag1)" by (cases z) auto
    with new have p1: "args_ok page1 t1" "arg_cursor page1 p1 offset1 pag1"
      and str: "args_placed page (mem s) (unat p) page1 (mem t1) (unat p1) ?str" by auto
    have run: "copy_loop (Suc argc) fuel argv rd page p offset pag s es = copy_loop argc fuel argv rd page1 p1 offset1 pag1 t1 es"
      using b(1) n rd r by (simp add: kbind_def gets_def)
    have "unat p1 + n = unat p" using str by (simp add: args_placed_def)
    then have lt: "length (arg_strs fuel R av argc) < unat p1" "unat p1 \<le> 131072" using strs Suc.prems(2,3) by auto
    have rd1: "rd t = R \<and> argv t = av" if "umem t = umem t1" for t using Suc.prems(5) that b(2) by simp
    have ends: "args_end fuel R av argc" using Suc.prems(6) by (simp add: args_end_def)
    from Suc.IH [OF p1(1) lt p1(2) rd1 ends] obtain page' q t where
      "copy_loop argc fuel argv rd page1 p1 offset1 pag1 t1 es = Ok (page', q) t es" "umem t = umem t1"
      "if q = 0 then memory_full t
       else args_ok page' t \<and> args_placed page1 (mem t1) (unat p1) page' (mem t) (unat q) (arg_strs fuel R av argc)" by blast
    then show ?thesis
      unfolding run strs using b(2) args_placed_trans [OF str _ Suc.prems(3)]
      by (intro exI [of _ page'] exI [of _ q] exI [of _ t]) (auto split: if_splits)
  qed
qed

text \<open>What the new program sees at the top of its data segment is the argument area.\<close>

lemma new_umem_arg:
  assumes "x < 131072" and "page ! (x div 4096) \<noteq> 0"
  shows "new_umem img page m (0x3FE0000 + of_nat x) = arg_byte page m x"
proof -
  have "unat (of_nat x :: u32) = x" using assms(1) by (simp add: unat_of_nat)
  moreover have "x div 4096 < 32" using assms(1) by simp
  ultimately show ?thesis
    using assms(2) by (simp add: new_umem_def arg_byte_def arg_cell_def Let_def MAX_ARG_PAGES_def PAGE_SIZE_def)
qed

text \<open>C29: \<open>copy_strings\<close> on arguments in user memory that fit in the argument area always returns. Unless
  no page of memory is free, the result is \<open>p\<close> less the size of all the strings, and the new program finds the
  strings, with their NULs and in the order of \<open>argv\<close>, at that place of its data segment. The old program's
  memory and what the area held above \<open>p\<close> are as before.\<close>

theorem copy_strings_places:
  fixes s :: "'z sched_state_scheme"
  assumes "args_ok page s" and "args_end fuel (umem s) (user_argv argv s) (nat argc)"
    and "strs = arg_strs fuel (umem s) (user_argv argv s) (nat argc)" and "length strs < unat p" and "unat p \<le> 131072"
  shows "\<exists>page' q t. copy_strings fuel argc (user_argv argv) umem (page, p) s es = Ok (page', q) t es \<and> umem t = umem s \<and>
    (if q = 0 then memory_full t
     else unat q = unat p - length strs \<and> args_ok page' t \<and>
       map (\<lambda>x. new_umem img page' (mem t) (0x3FE0000 + of_nat x)) [unat q..<unat p] = strs \<and>
       (\<forall>x < 131072. unat p \<le> x \<longrightarrow> page ! (x div 4096) \<noteq> 0 \<longrightarrow> arg_byte page' (mem t) x = arg_byte page (mem s) x))"
proof -
  have "p \<noteq> 0" using assms(4) by auto
  then have run: "copy_strings fuel argc (user_argv argv) umem (page, p) s es =
      copy_loop (nat argc) fuel (user_argv argv) umem page p 0 0 s es"
    by (simp add: copy_strings_def)
  have cur: "arg_cursor page p 0 0" by (simp add: arg_cursor_def)
  have rd: "umem t = umem s \<and> user_argv argv t = user_argv argv s" if "umem t = umem s" for t :: "'z sched_state_scheme"
    using that by (auto simp: user_argv_def)
  obtain page' q t where c: "copy_loop (nat argc) fuel (user_argv argv) umem page p 0 0 s es = Ok (page', q) t es" "umem t = umem s"
    and placed: "if q = 0 then memory_full t
       else args_ok page' t \<and> args_placed page (mem s) (unat p) page' (mem t) (unat q) strs"
    using copy_loop_run [OF assms(1) assms(4) [unfolded assms(3)] assms(5) cur _ assms(2), of umem "user_argv argv" es] rd assms(3)
    by blast
  show ?thesis
  proof (cases "q = 0")
    case True
    then show ?thesis using run c placed by auto
  next
    case False
    then have ok: "args_ok page' t" and pl: "args_placed page (mem s) (unat p) page' (mem t) (unat q) strs" using placed by auto
    then have len: "unat q + length strs = unat p" and bytes: "map (arg_byte page' (mem t)) [unat q..<unat p] = strs"
      and there: "\<And>x. unat q \<le> x \<Longrightarrow> x < unat p \<Longrightarrow> page' ! (x div 4096) \<noteq> 0"
      and keep: "\<forall>x < 131072. unat p \<le> x \<longrightarrow> page ! (x div 4096) \<noteq> 0 \<longrightarrow> arg_byte page' (mem t) x = arg_byte page (mem s) x"
      by (auto simp: args_placed_def)
    have "map (\<lambda>x. new_umem img page' (mem t) (0x3FE0000 + of_nat x)) [unat q..<unat p] = map (arg_byte page' (mem t)) [unat q..<unat p]"
      using there assms(5) by (intro map_cong refl new_umem_arg) auto
    then show ?thesis using run c ok len bytes keep False by (intro exI [of _ page'] exI [of _ q] exI [of _ t]) auto
  qed
qed

text \<open>A task whose memory has a table of one pointer at 0x1000, to the string ``hi'' at 0x2000.\<close>

definition args_demo :: sched_state where
  "args_demo = sched_boot\<lparr>umem := (\<lambda>_. 0)(0x1001 := 0x20, 0x2000 := 0x68, 0x2001 := 0x69)\<rparr>"

theorem copy_strings_places_witness:
  "\<exists>page' q t. copy_strings 3 1 (user_argv 0x1000) umem (replicate 32 0, 0x1FFFC) args_demo [] = Ok (page', q) t [] \<and>
     (q = 0 \<and> memory_full t \<or> unat q = 0x1FFF9 \<and>
       map (\<lambda>x. new_umem (\<lambda>_. 0) page' (mem t) (0x3FE0000 + of_nat x)) [0x1FFF9..<0x1FFFC] = [0x68, 0x69, 0])"
proof -
  let ?s = args_demo and ?av = "user_argv 0x1000 args_demo"
  have av: "?av 0 = 0x2000" by (simp add: user_argv_def long_at_def args_demo_def)
  have m: "umem ?s = (\<lambda>_. 0)(0x1001 := 0x20, 0x2000 := 0x68, 0x2001 := 0x69)" by (simp add: args_demo_def)
  have strs: "arg_strs 3 (umem ?s) ?av 1 = [0x68, 0x69, 0]" "args_end 3 (umem ?s) ?av 1"
    by (simp_all add: arg_strs_def arg_str_def args_end_def av m numeral_3_eq_3)
  have ok: "args_ok (replicate 32 0) ?s" by (simp add: args_ok_def args_demo_def sched_boot_def)
  from copy_strings_places [of "replicate 32 0" ?s 3 "0x1000" 1 "[0x68, 0x69, 0]" "0x1FFFC" "[]" "\<lambda>_. 0"] ok strs
  show ?thesis by (auto split: if_splits)
qed

end
