(* ===== verification/Console.thy ===== *)
theory Console
  imports Tty
begin

unbundle bit_operations_syntax

text \<open>
  The console, \<^verbatim>\<open>kernel/chr_drv/console.c\<close>: a VT102 in front of text-mode video memory.
  Its static variables are the record \<open>vt\<close>; video memory holds 16-bit cells (character and
  attribute) at even addresses, and \<open>crtc\<close> collects what is sent to the video controller. The
  operations are functions of \<open>vt\<close>. One character of output, \<open>con_char\<close>, may also ask for a beep
  or for an answer on the input side, which \<open>con_write\<close> carries out.
\<close>

section \<open>State\<close>

record vt =
  video_type :: u8
  video_num_columns :: u32
  video_size_row :: u32
  video_num_lines :: u32
  video_page :: u8
  video_mem_start :: u32
  video_mem_end :: u32
  video_port_reg :: u16
  video_port_val :: u16
  video_erase_char :: u16
  origin :: u32
  scr_end :: u32
  vpos :: u32
  vx :: u32
  vy :: u32
  vtop :: u32
  vbottom :: u32
  vstate :: u32
  npar :: nat
  par :: "u32 list"
  ques :: bool
  vattr :: u8
  saved_x :: u32
  saved_y :: u32
  vram :: "u32 \<Rightarrow> u16"
  crtc :: "(u16 \<times> u8) list"

abbreviation (input) VIDEO_TYPE_MDA :: u8 where "VIDEO_TYPE_MDA \<equiv> 0x10"
abbreviation (input) VIDEO_TYPE_CGA :: u8 where "VIDEO_TYPE_CGA \<equiv> 0x11"
abbreviation (input) VIDEO_TYPE_EGAM :: u8 where "VIDEO_TYPE_EGAM \<equiv> 0x20"
abbreviation (input) VIDEO_TYPE_EGAC :: u8 where "VIDEO_TYPE_EGAC \<equiv> 0x21"
abbreviation (input) NPAR :: nat where "NPAR \<equiv> 16"

section \<open>String instructions on video memory\<close>

text \<open>\<^verbatim>\<open>rep movsl\<close> in both directions (two cells at a time) and \<^verbatim>\<open>rep stosw\<close>, with \<open>edi\<close> at the end.\<close>

primrec movsl_up :: "nat \<Rightarrow> u32 \<Rightarrow> u32 \<Rightarrow> (u32 \<Rightarrow> u16) \<Rightarrow> u32 \<times> (u32 \<Rightarrow> u16)" where
  "movsl_up 0 esi edi m = (edi, m)"
| "movsl_up (Suc n) esi edi m = movsl_up n (esi + 4) (edi + 4) (m(edi := m esi, edi + 2 := m (esi + 2)))"

primrec movsl_down :: "nat \<Rightarrow> u32 \<Rightarrow> u32 \<Rightarrow> (u32 \<Rightarrow> u16) \<Rightarrow> u32 \<times> (u32 \<Rightarrow> u16)" where
  "movsl_down 0 esi edi m = (edi, m)"
| "movsl_down (Suc n) esi edi m = movsl_down n (esi - 4) (edi - 4) (m(edi := m esi, edi + 2 := m (esi + 2)))"

primrec stosw_up :: "nat \<Rightarrow> u16 \<Rightarrow> u32 \<Rightarrow> (u32 \<Rightarrow> u16) \<Rightarrow> (u32 \<Rightarrow> u16)" where
  "stosw_up 0 ax edi m = m"
| "stosw_up (Suc n) ax edi m = stosw_up n ax (edi + 2) (m(edi := ax))"

primrec stosw_down :: "nat \<Rightarrow> u16 \<Rightarrow> u32 \<Rightarrow> (u32 \<Rightarrow> u16) \<Rightarrow> (u32 \<Rightarrow> u16)" where
  "stosw_down 0 ax edi m = m"
| "stosw_down (Suc n) ax edi m = stosw_down n ax (edi - 2) (m(edi := ax))"

section \<open>Cursor and scrolling\<close>

definition gotoxy :: "u32 \<Rightarrow> u32 \<Rightarrow> vt \<Rightarrow> vt" where
  "gotoxy new_x new_y v =
     (if new_x > video_num_columns v \<or> new_y \<ge> video_num_lines v then v
      else v\<lparr>vx := new_x, vy := new_y, vpos := origin v + new_y * video_size_row v + push_bit 1 new_x\<rparr>)"

definition crtc_word :: "u8 \<Rightarrow> u32 \<Rightarrow> vt \<Rightarrow> vt" where
  "crtc_word reg a v =
     (let off = a - video_mem_start v in
      v\<lparr>crtc := crtc v @ [(video_port_reg v, reg), (video_port_val v, ucast (drop_bit 9 off)),
          (video_port_reg v, reg + 1), (video_port_val v, ucast (drop_bit 1 off))]\<rparr>)"

definition set_origin :: "vt \<Rightarrow> vt" where
  "set_origin v = crtc_word 12 (origin v) v"

definition is_ega :: "vt \<Rightarrow> bool" where
  "is_ega v \<longleftrightarrow> video_type v = VIDEO_TYPE_EGAC \<or> video_type v = VIDEO_TYPE_EGAM"

text \<open>Moving the lines of the scrolling region, and clearing the line that comes free.\<close>

definition region_up :: "vt \<Rightarrow> vt" where
  "region_up v =
     (let n = unat (drop_bit 1 ((vbottom v - vtop v - 1) * video_num_columns v));
          (edi, m) = movsl_up n (origin v + video_size_row v * (vtop v + 1))
                       (origin v + video_size_row v * vtop v) (vram v) in
      v\<lparr>vram := stosw_up (unat (video_num_columns v)) (video_erase_char v) edi m\<rparr>)"

definition scrup :: "vt \<Rightarrow> vt" where
  "scrup v =
     (if is_ega v \<and> vtop v = 0 \<and> vbottom v = video_num_lines v then
        let v = v\<lparr>origin := origin v + video_size_row v, vpos := vpos v + video_size_row v,
                  scr_end := scr_end v + video_size_row v\<rparr> in
        set_origin
          (if scr_end v > video_mem_end v then
             let (edi, m) = movsl_up (unat (drop_bit 1 ((video_num_lines v - 1) * video_num_columns v)))
                              (origin v) (video_mem_start v) (vram v);
                 d = origin v - video_mem_start v in
             v\<lparr>vram := stosw_up (unat (video_num_columns v)) (video_erase_char v) edi m,
               scr_end := scr_end v - d, vpos := vpos v - d, origin := video_mem_start v\<rparr>
           else v\<lparr>vram := stosw_up (unat (video_num_columns v)) (video_erase_char v)
                    (scr_end v - video_size_row v) (vram v)\<rparr>)
      else region_up v)"

definition scrdown :: "vt \<Rightarrow> vt" where
  "scrdown v =
     (let n = unat (drop_bit 1 ((vbottom v - vtop v - 1) * video_num_columns v));
          (edi, m) = movsl_down n (origin v + video_size_row v * (vbottom v - 1) - 4)
                       (origin v + video_size_row v * vbottom v - 4) (vram v) in
      v\<lparr>vram := stosw_down (unat (video_num_columns v)) (video_erase_char v) (edi + 2) m\<rparr>)"

definition lf :: "vt \<Rightarrow> vt" where
  "lf v = (if vy v + 1 < vbottom v then v\<lparr>vy := vy v + 1, vpos := vpos v + video_size_row v\<rparr> else scrup v)"

definition ri :: "vt \<Rightarrow> vt" where
  "ri v = (if vy v > vtop v then v\<lparr>vy := vy v - 1, vpos := vpos v - video_size_row v\<rparr> else scrdown v)"

definition cr :: "vt \<Rightarrow> vt" where
  "cr v = v\<lparr>vpos := vpos v - push_bit 1 (vx v), vx := 0\<rparr>"

definition del :: "vt \<Rightarrow> vt" where
  "del v = (if vx v \<noteq> 0 then
     v\<lparr>vpos := vpos v - 2, vx := vx v - 1, vram := (vram v)(vpos v - 2 := video_erase_char v)\<rparr> else v)"

section \<open>Erasing, inserting, deleting\<close>

definition erase :: "u32 \<Rightarrow> u32 \<Rightarrow> vt \<Rightarrow> vt" where
  "erase count start v = v\<lparr>vram := stosw_up (unat count) (video_erase_char v) start (vram v)\<rparr>"

definition csi_J :: "u32 \<Rightarrow> vt \<Rightarrow> vt" where
  "csi_J p v =
     (if p = 0 then erase (drop_bit 1 (scr_end v - vpos v)) (vpos v) v
      else if p = 1 then erase (drop_bit 1 (vpos v - origin v)) (origin v) v
      else if p = 2 then erase (video_num_columns v * video_num_lines v) (origin v) v
      else v)"

definition csi_K :: "u32 \<Rightarrow> vt \<Rightarrow> vt" where
  "csi_K p v =
     (if p = 0 then
        if vx v \<ge> video_num_columns v then v else erase (video_num_columns v - vx v) (vpos v) v
      else if p = 1 then
        erase (if vx v < video_num_columns v then vx v else video_num_columns v) (vpos v - push_bit 1 (vx v)) v
      else if p = 2 then erase (video_num_columns v) (vpos v - push_bit 1 (vx v)) v
      else v)"

definition attr_of :: "u32 \<Rightarrow> u8 \<Rightarrow> u8" where
  "attr_of p a = (if p = 0 then 0x07 else if p = 1 then 0x0f else if p = 4 then 0x0f
     else if p = 7 then 0x70 else if p = 27 then 0x07 else a)"

definition csi_m :: "vt \<Rightarrow> vt" where
  "csi_m v = v\<lparr>vattr := fold (\<lambda>i. attr_of (par v ! i)) [0..<Suc (npar v)] (vattr v)\<rparr>"

definition set_cursor :: "vt \<Rightarrow> vt" where
  "set_cursor v = crtc_word 14 (vpos v) v"

text \<open>\<open>insert_char\<close>: each cell from the cursor on takes the one before it.\<close>

primrec insert_loop :: "nat \<Rightarrow> u16 \<Rightarrow> u32 \<Rightarrow> (u32 \<Rightarrow> u16) \<Rightarrow> (u32 \<Rightarrow> u16)" where
  "insert_loop 0 old p m = m"
| "insert_loop (Suc n) old p m = insert_loop n (m p) (p + 2) (m(p := old))"

definition insert_char :: "vt \<Rightarrow> vt" where
  "insert_char v = v\<lparr>vram :=
     insert_loop (if vx v < video_num_columns v then unat (video_num_columns v - vx v) else 0) (video_erase_char v) (vpos v) (vram v)\<rparr>"

definition insert_line :: "vt \<Rightarrow> vt" where
  "insert_line v = (scrdown (v\<lparr>vtop := vy v, vbottom := video_num_lines v\<rparr>))\<lparr>vtop := vtop v, vbottom := vbottom v\<rparr>"

primrec delete_loop :: "nat \<Rightarrow> u16 \<Rightarrow> u32 \<Rightarrow> (u32 \<Rightarrow> u16) \<Rightarrow> (u32 \<Rightarrow> u16)" where
  "delete_loop 0 er p m = m(p := er)"
| "delete_loop (Suc n) er p m = delete_loop n er (p + 2) (m(p := m (p + 2)))"

definition delete_char :: "vt \<Rightarrow> vt" where
  "delete_char v =
     (if vx v \<ge> video_num_columns v then v
      else v\<lparr>vram := delete_loop (unat (video_num_columns v - vx v - 1)) (video_erase_char v)
               (vpos v) (vram v)\<rparr>)"

definition delete_line :: "vt \<Rightarrow> vt" where
  "delete_line v = (scrup (v\<lparr>vtop := vy v, vbottom := video_num_lines v\<rparr>))\<lparr>vtop := vtop v, vbottom := vbottom v\<rparr>"

text \<open>The clamped repetition of \<open>csi_at\<close>, \<open>csi_L\<close>, \<open>csi_P\<close> and \<open>csi_M\<close>.\<close>

definition clamp :: "u32 \<Rightarrow> u32 \<Rightarrow> nat" where
  "clamp lim nr = unat (if nr > lim then lim else if nr = 0 then 1 else nr)"

definition csi_at :: "u32 \<Rightarrow> vt \<Rightarrow> vt" where
  "csi_at nr v = (insert_char ^^ clamp (video_num_columns v) nr) v"

definition csi_L :: "u32 \<Rightarrow> vt \<Rightarrow> vt" where
  "csi_L nr v = (insert_line ^^ clamp (video_num_lines v) nr) v"

definition csi_P :: "u32 \<Rightarrow> vt \<Rightarrow> vt" where
  "csi_P nr v = (delete_char ^^ clamp (video_num_columns v) nr) v"

definition csi_M :: "u32 \<Rightarrow> vt \<Rightarrow> vt" where
  "csi_M nr v = (delete_line ^^ clamp (video_num_lines v) nr) v"

definition save_cur :: "vt \<Rightarrow> vt" where
  "save_cur v = v\<lparr>saved_x := vx v, saved_y := vy v\<rparr>"

definition restore_cur :: "vt \<Rightarrow> vt" where
  "restore_cur v = gotoxy (saved_x v) (saved_y v) v"

section \<open>One character\<close>

datatype con_event = Quiet | Beep | Respond

text \<open>The wrap of the cursor at the end of a line.\<close>

definition wrap_line :: "vt \<Rightarrow> vt" where
  "wrap_line v = lf (v\<lparr>vx := vx v - video_num_columns v, vpos := vpos v - video_size_row v\<rparr>)"

definition put_char :: "u8 \<Rightarrow> vt \<Rightarrow> vt" where
  "put_char c v =
     (let v = (if vx v \<ge> video_num_columns v then wrap_line v else v) in
      v\<lparr>vram := (vram v)(vpos v := ucast c OR push_bit 8 (ucast (vattr v))), vpos := vpos v + 2, vx := vx v + 1\<rparr>)"

definition tab :: "vt \<Rightarrow> vt" where
  "tab v =
     (let c = 8 - (vx v AND 7); v = v\<lparr>vx := vx v + c, vpos := vpos v + push_bit 1 c\<rparr> in
      if vx v > video_num_columns v then wrap_line v else v)"

text \<open>State 0: plain characters and control characters; \<open>er\<close> is the erase character of the
  terminal. Characters are signed.\<close>

definition con_plain :: "u8 \<Rightarrow> u8 \<Rightarrow> vt \<Rightarrow> vt \<times> con_event" where
  "con_plain er c v =
     (if 31 <s c \<and> c <s 127 then (put_char c v, Quiet)
      else if c = 27 then (v\<lparr>vstate := 1\<rparr>, Quiet)
      else if c = 10 \<or> c = 11 \<or> c = 12 then (lf v, Quiet)
      else if c = 13 then (cr v, Quiet)
      else if sint c = uint er then (del v, Quiet)
      else if c = 8 then (if vx v \<noteq> 0 then v\<lparr>vx := vx v - 1, vpos := vpos v - 2\<rparr> else v, Quiet)
      else if c = 9 then (tab v, Quiet)
      else if c = 7 then (v, Beep)
      else (v, Quiet))"

text \<open>State 1, after an escape. The last two tests look at the column \<open>x\<close>, not at the
  character.\<close>

definition con_escape :: "u8 \<Rightarrow> vt \<Rightarrow> vt \<times> con_event" where
  "con_escape c v0 =
     (let v = v0\<lparr>vstate := 0\<rparr> in
      if c = 91 then (v\<lparr>vstate := 2\<rparr>, Quiet)
      else if c = 69 then (gotoxy 0 (vy v + 1) v, Quiet)
      else if c = 77 then (ri v, Quiet)
      else if c = 68 then (lf v, Quiet)
      else if c = 90 then (v, Respond)
      else if vx v = 55 then (save_cur v, Quiet)
      else if vx v = 56 then (restore_cur v, Quiet)
      else (v, Quiet))"

definition par_dec :: "nat \<Rightarrow> vt \<Rightarrow> vt" where
  "par_dec i v = (if par v ! i \<noteq> 0 then v\<lparr>par := (par v)[i := par v ! i - 1]\<rparr> else v)"

definition par_inc :: "vt \<Rightarrow> vt" where
  "par_inc v = (if par v ! 0 = 0 then v\<lparr>par := (par v)[0 := par v ! 0 + 1]\<rparr> else v)"

definition set_region :: "vt \<Rightarrow> vt" where
  "set_region v =
     (let v = par_dec 0 v;
          v = (if par v ! 1 = 0 then v\<lparr>par := (par v)[1 := video_num_lines v]\<rparr> else v) in
      if par v ! 0 < par v ! 1 \<and> par v ! 1 \<le> video_num_lines v
      then v\<lparr>vtop := par v ! 0, vbottom := par v ! 1\<rparr> else v)"

text \<open>State 4: the final character of a control sequence.\<close>

definition con_csi :: "u8 \<Rightarrow> vt \<Rightarrow> vt" where
  "con_csi c v0 =
     (let v = v0\<lparr>vstate := 0\<rparr>; d = par_dec 0 v; i = par_inc v in
      if c = 71 \<or> c = 96 then gotoxy (par d ! 0) (vy d) d
      else if c = 65 then gotoxy (vx i) (vy i - par i ! 0) i
      else if c = 66 \<or> c = 101 then gotoxy (vx i) (vy i + par i ! 0) i
      else if c = 67 \<or> c = 97 then gotoxy (vx i + par i ! 0) (vy i) i
      else if c = 68 then gotoxy (vx i - par i ! 0) (vy i) i
      else if c = 69 then gotoxy 0 (vy i + par i ! 0) i
      else if c = 70 then gotoxy 0 (vy i - par i ! 0) i
      else if c = 100 then gotoxy (vx d) (par d ! 0) d
      else if c = 72 \<or> c = 102 then (let d = par_dec 1 d in gotoxy (par d ! 1) (par d ! 0) d)
      else if c = 74 then csi_J (par v ! 0) v
      else if c = 75 then csi_K (par v ! 0) v
      else if c = 76 then csi_L (par v ! 0) v
      else if c = 77 then csi_M (par v ! 0) v
      else if c = 80 then csi_P (par v ! 0) v
      else if c = 64 then csi_at (par v ! 0) v
      else if c = 109 then csi_m v
      else if c = 114 then set_region v
      else if c = 115 then save_cur v
      else if c = 117 then restore_cur v
      else v)"

text \<open>States 2 and 3: the parameters.\<close>

definition con_param :: "u8 \<Rightarrow> vt \<Rightarrow> vt" where
  "con_param c v =
     (if c = 59 \<and> npar v < NPAR - 1 then v\<lparr>npar := npar v + 1\<rparr>
      else if 48 \<le>s c \<and> c \<le>s 57 then
        v\<lparr>par := (par v)[npar v := 10 * par v ! npar v + ucast c - 48]\<rparr>
      else con_csi c (v\<lparr>vstate := 4\<rparr>))"

definition con_start :: "u8 \<Rightarrow> vt \<Rightarrow> vt" where
  "con_start c v =
     (let v = v\<lparr>par := replicate NPAR 0, npar := 0, vstate := 3, ques := (c = 63)\<rparr> in
      if ques v then v else con_param c v)"

definition con_char :: "u8 \<Rightarrow> u8 \<Rightarrow> vt \<Rightarrow> vt \<times> con_event" where
  "con_char er c v =
     (if vstate v = 0 then con_plain er c v
      else if vstate v = 1 then con_escape c v
      else if vstate v = 2 then (con_start c v, Quiet)
      else if vstate v = 3 then (con_param c v, Quiet)
      else if vstate v = 4 then (con_csi c v, Quiet)
      else (v, Quiet))"

section \<open>con_write\<close>

record con_state = tty_state +
  vt_of :: vt

definition inb :: "u32 \<Rightarrow> (u8, 'z sched_state_scheme) kern" where
  "inb p = gets (\<lambda>s. port_in s p)"

definition sysbeep :: "(unit, 'z sched_state_scheme) kern" where
  "sysbeep =
     kbind (inb 0x61) (\<lambda>v.
     kseq (outb (v OR 3) 0x61)
    (kseq (outb 0xB6 0x43)
    (kseq (outb 0x37 0x42)
    (kseq (outb 0x06 0x42)
          (modify (\<lambda>s. s\<lparr>beepcount := cdiv HZ 8\<rparr>))))))"

definition RESPONSE :: "u8 list" where
  "RESPONSE = [27, 91, 63, 49, 59, 50, 99]"

text \<open>\<open>respond\<close> puts the answer into the read queue and cooks it, which may call \<open>con_write\<close>
  again (the parameter \<open>wr\<close>) to echo it.\<close>

definition respond ::
  "nat \<Rightarrow> (nat \<Rightarrow> (unit, 'z con_state_scheme) kern) \<Rightarrow> nat \<Rightarrow> (unit, 'z con_state_scheme) kern" where
  "respond fuel wr ch =
     kseq (modify (\<lambda>s. fold (\<lambda>c. upd_queue (ch, Read_q) (PUTCH c)) RESPONSE s))
          (copy_to_cooked fuel wr ch)"

primrec con_loop ::
  "nat \<Rightarrow> nat \<Rightarrow> (nat \<Rightarrow> (unit, 'z con_state_scheme) kern) \<Rightarrow> nat \<Rightarrow> (unit, 'z con_state_scheme) kern" where
  "con_loop 0 fuel wr ch = skip"
| "con_loop (Suc nr) fuel wr ch =
     kbind (gets (\<lambda>s. tty s ch)) (\<lambda>t.
     kseq (modify (upd_queue (ch, Write_q) GETCH))
    (kbind (gets (\<lambda>s. con_char (c_cc (tty_termios t) ! VERASE) (GETCH_char (tty_write_q t)) (vt_of s))) (\<lambda>r.
     kseq (modify (\<lambda>s. s\<lparr>vt_of := fst r\<rparr>))
    (kseq (case snd r of Quiet \<Rightarrow> skip | Beep \<Rightarrow> sysbeep | Respond \<Rightarrow> respond fuel wr ch)
          (con_loop nr fuel wr ch)))))"

text \<open>The fuel bounds the depth of \<open>con_write\<close> calling itself through \<open>respond\<close>.\<close>

primrec con_write :: "nat \<Rightarrow> nat \<Rightarrow> (unit, 'z con_state_scheme) kern" where
  "con_write 0 ch = kloops"
| "con_write (Suc fuel) ch =
     kbind (gets (\<lambda>s. unat (CHARS (tty_write_q (tty s ch))))) (\<lambda>nr.
     kseq (con_loop nr fuel (con_write fuel) ch)
          (modify (\<lambda>s. s\<lparr>vt_of := set_cursor (vt_of s)\<rparr>)))"

section \<open>con_init\<close>

text \<open>What the setup program has left at 0x90000: cursor, video page, video mode and columns,
  and the EGA information.\<close>

record boot_video =
  ORIG_X :: u8
  ORIG_Y :: u8
  ORIG_VIDEO_PAGE :: u16
  ORIG_VIDEO_MODE :: u16
  ORIG_VIDEO_COLS :: u16
  ORIG_VIDEO_EGA_BX :: u16

definition put_desc :: "u8 list \<Rightarrow> u32 \<Rightarrow> (u32 \<Rightarrow> u16) \<Rightarrow> (u32 \<Rightarrow> u16)" where
  "put_desc cs p m = fold (\<lambda>i m. m(p + of_nat (2 * i) := (m (p + of_nat (2 * i)) AND 0xff00) OR ucast (cs ! i)))
     [0..<length cs] m"

definition vt_init :: "boot_video \<Rightarrow> vt \<Rightarrow> vt" where
  "vt_init b v =
     (let cols = ucast (ORIG_VIDEO_COLS b) :: u32; row = cols * 2; lns = 25;
          mono = (ORIG_VIDEO_MODE b = 7); ega = (ORIG_VIDEO_EGA_BX b AND 0xff \<noteq> 0x10);
          start = (if mono then 0xb0000 else 0xb8000);
          ty = (if mono then if ega then VIDEO_TYPE_EGAM else VIDEO_TYPE_MDA
                else if ega then VIDEO_TYPE_EGAC else VIDEO_TYPE_CGA);
          fin = (if mono then if ega then 0xb8000 else 0xb2000 else if ega then 0xbc000 else 0xba000);
          desc = (if mono then if ega then [69, 71, 65, 109] else [42, 77, 68, 65]
                  else if ega then [69, 71, 65, 99] else [42, 67, 71, 65]) in
      gotoxy (ucast (ORIG_X b)) (ucast (ORIG_Y b))
        (v\<lparr>video_num_columns := cols, video_size_row := row, video_num_lines := lns,
           video_page := ucast (ORIG_VIDEO_PAGE b), video_erase_char := 0x0720,
           video_mem_start := start, video_port_reg := (if mono then 0x3b4 else 0x3d4),
           video_port_val := (if mono then 0x3b5 else 0x3d5), video_type := ty, video_mem_end := fin,
           vram := put_desc desc (start + row - 8) (vram v),
           origin := start, scr_end := start + lns * row, vtop := 0, vbottom := lns\<rparr>))"

definition con_init :: "boot_video \<Rightarrow> u32 \<Rightarrow> (unit, 'z con_state_scheme) kern" where
  "con_init b keyboard_interrupt =
     kseq (modify (\<lambda>s. s\<lparr>vt_of := vt_init b (vt_of s)\<rparr>))
    (kseq (modify (\<lambda>s. s\<lparr>idt := (idt s)[0x21 := set_trap_gate keyboard_interrupt]\<rparr>))
    (kbind (inb 0x21) (\<lambda>m.
     kseq (outb (m AND 0xfd) 0x21)
    (kbind (inb 0x61) (\<lambda>a.
     kseq (outb (a OR 0x80) 0x61)
          (outb a 0x61))))))"

end
