(* ===== verification/Vt.thy ===== *)
theory Vt
  imports Console
begin

unbundle bit_operations_syntax

text \<open>
  The console driver is safe: every character keeps the cursor on the screen and the screen in
  video memory, and nothing outside video memory is written. The geometry and the cursor are
  related by machine-word equations, which scrolling keeps by ring arithmetic; the bounds of
  the string instructions are then natural numbers.
\<close>

section \<open>The cursor stays on the screen\<close>

text \<open>The geometry of the screen never changes after \<open>con_init\<close>.\<close>

definition geometry :: "vt \<Rightarrow> bool" where
  "geometry v \<longleftrightarrow> 2 * unat (video_num_columns v) = unat (video_size_row v) \<and>
     8 \<le> unat (video_num_columns v) \<and> 0 < unat (video_num_lines v) \<and>
     unat (video_mem_start v) + unat (video_num_lines v) * unat (video_size_row v) \<le> unat (video_mem_end v) \<and>
     unat (video_mem_end v) < 2147483648"

text \<open>The screen lies in video memory, the cursor is at column \<open>x\<close> of line \<open>y\<close>, and the scrolling
  region is not empty.\<close>

definition con_ok :: "vt \<Rightarrow> bool" where
  "con_ok v \<longleftrightarrow> geometry v \<and> video_mem_start v \<le> origin v \<and>
     unat (scr_end v) = unat (origin v) + unat (video_num_lines v) * unat (video_size_row v) \<and>
     scr_end v \<le> video_mem_end v \<and>
     vpos v = origin v + vy v * video_size_row v + 2 * vx v \<and>
     vx v \<le> video_num_columns v \<and> vy v < video_num_lines v \<and>
     vtop v < vbottom v \<and> vbottom v \<le> video_num_lines v \<and>
     length (par v) = NPAR \<and> npar v < NPAR"

lemma geometry_simps [simp]:
  "geometry (v\<lparr>vram := m\<rparr>) = geometry v" "geometry (v\<lparr>crtc := cs\<rparr>) = geometry v"
  "geometry (v\<lparr>vstate := k\<rparr>) = geometry v" "geometry (v\<lparr>vattr := a\<rparr>) = geometry v"
  "geometry (v\<lparr>ques := q\<rparr>) = geometry v" "geometry (v\<lparr>saved_x := k\<rparr>) = geometry v"
  "geometry (v\<lparr>saved_y := k\<rparr>) = geometry v" "geometry (v\<lparr>par := ps\<rparr>) = geometry v"
  "geometry (v\<lparr>npar := n\<rparr>) = geometry v" "geometry (v\<lparr>vx := k\<rparr>) = geometry v"
  "geometry (v\<lparr>vy := k\<rparr>) = geometry v" "geometry (v\<lparr>vpos := k\<rparr>) = geometry v"
  "geometry (v\<lparr>origin := k\<rparr>) = geometry v" "geometry (v\<lparr>scr_end := k\<rparr>) = geometry v"
  "geometry (v\<lparr>vtop := k\<rparr>) = geometry v" "geometry (v\<lparr>vbottom := k\<rparr>) = geometry v"
  by (simp_all add: geometry_def)

named_theorems con_keep \<open>operations that keep the console coherent\<close>

lemma con_ok_simps [simp]:
  "con_ok (v\<lparr>vram := m\<rparr>) = con_ok v" "con_ok (v\<lparr>crtc := cs\<rparr>) = con_ok v"
  "con_ok (v\<lparr>vstate := k\<rparr>) = con_ok v" "con_ok (v\<lparr>vattr := a\<rparr>) = con_ok v"
  "con_ok (v\<lparr>ques := q\<rparr>) = con_ok v" "con_ok (v\<lparr>saved_x := x, saved_y := y\<rparr>) = con_ok v"
  by (simp_all add: con_ok_def)

lemma con_ok_par [con_keep]: "con_ok v \<Longrightarrow> con_ok (v\<lparr>par := (par v)[i := p]\<rparr>)"
  by (simp add: con_ok_def)

lemma gotoxy_ok [con_keep]: "con_ok v \<Longrightarrow> con_ok (gotoxy nx ny v)"
  by (auto simp: gotoxy_def con_ok_def push_bit_eq_mult not_less not_le mult.commute)

lemma crtc_word_ok [con_keep]: "con_ok v \<Longrightarrow> con_ok (crtc_word reg a v)"
  by (simp add: crtc_word_def Let_def)

lemma region_up_ok [con_keep]: "con_ok v \<Longrightarrow> con_ok (region_up v)"
  by (simp add: region_up_def Let_def split: prod.split)

lemma scrdown_ok [con_keep]: "con_ok v \<Longrightarrow> con_ok (scrdown v)"
  by (simp add: scrdown_def Let_def split: prod.split)

lemma erase_ok [con_keep]: "con_ok v \<Longrightarrow> con_ok (erase n a v)"
  by (simp add: erase_def)

lemma unat_add_small: "unat (a :: u32) + unat b < 4294967296 \<Longrightarrow> unat (a + b) = unat a + unat b"
  by (simp add: unat_word_ariths)

lemma unat_mult_small: "unat (a :: u32) * unat b < 4294967296 \<Longrightarrow> unat (a * b) = unat a * unat b"
  by (simp add: unat_word_ariths)

lemma row_eq: "geometry v \<Longrightarrow> video_size_row v = 2 * video_num_columns v"
proof -
  assume g: "geometry v"
  then have "unat (2 * video_num_columns v) = unat (video_size_row v)"
    using unat_u32_less [of "video_size_row v"] by (subst unat_mult_small) (auto simp: geometry_def)
  with g show ?thesis by (simp add: geometry_def word_unat_eq_iff)
qed

lemma scroll_arith:
  fixes v :: vt
  assumes "con_ok v"
  shows "unat (origin v + video_size_row v) = unat (origin v) + unat (video_size_row v)"
    and "unat (scr_end v + video_size_row v) = unat (scr_end v) + unat (video_size_row v)"
    and "unat (video_mem_start v + video_num_lines v * video_size_row v) =
      unat (video_mem_start v) + unat (video_num_lines v) * unat (video_size_row v)"
    and "scr_end v = origin v + video_num_lines v * video_size_row v"
proof -
  let ?R = "unat (video_size_row v)" and ?L = "unat (video_num_lines v)"
  have ok: "unat (video_mem_start v) + ?L * ?R \<le> unat (video_mem_end v)" "unat (video_mem_end v) < 2147483648"
    "0 < ?L" "unat (scr_end v) = unat (origin v) + ?L * ?R" "unat (scr_end v) \<le> unat (video_mem_end v)"
    using assms by (auto simp: con_ok_def geometry_def word_le_nat_alt)
  have R: "?R \<le> ?L * ?R" using ok(3) by simp
  have LR: "unat (video_num_lines v * video_size_row v) = ?L * ?R"
    using ok by (simp add: unat_mult_small)
  show "unat (origin v + video_size_row v) = unat (origin v) + ?R"
    using ok R by (intro unat_add_small) linarith
  show "unat (scr_end v + video_size_row v) = unat (scr_end v) + ?R"
    using ok R by (intro unat_add_small) linarith
  show "unat (video_mem_start v + video_num_lines v * video_size_row v) = unat (video_mem_start v) + ?L * ?R"
    using ok LR by (simp add: unat_add_small)
  have "unat (origin v + video_num_lines v * video_size_row v) = unat (origin v) + ?L * ?R"
    using ok LR by (simp add: unat_add_small)
  with ok(4) show "scr_end v = origin v + video_num_lines v * video_size_row v"
    by (simp add: word_unat_eq_iff)
qed

lemma scrup_ok [con_keep]:
  assumes "con_ok v"
  shows "con_ok (scrup v)"
proof (cases "is_ega v \<and> vtop v = 0 \<and> vbottom v = video_num_lines v")
  case False
  then have "scrup v = region_up v" unfolding scrup_def by (rule if_not_P)
  with assms show ?thesis by (simp add: region_up_ok)
next
  case True
  note ar = scroll_arith [OF assms]
  show ?thesis
  proof (cases "scr_end v + video_size_row v > video_mem_end v")
    case over: True
    let ?d = "origin v + video_size_row v - video_mem_start v"
    obtain edi m0 where mv: "movsl_up (unat (drop_bit 1 ((video_num_lines v - 1) * video_num_columns v)))
        (origin v + video_size_row v) (video_mem_start v) (vram v) = (edi, m0)" by fastforce
    define m where "m = stosw_up (unat (video_num_columns v)) (video_erase_char v) edi m0"
    have m: "scrup v = set_origin (v\<lparr>vram := m, scr_end := scr_end v + video_size_row v - ?d,
        vpos := vpos v + video_size_row v - ?d, origin := video_mem_start v\<rparr>)"
      using True over mv by (simp add: scrup_def Let_def m_def)
    have e: "scr_end v + (video_mem_start v - origin v) = video_mem_start v + video_num_lines v * video_size_row v"
      by (simp add: ar(4))
    have "video_mem_start v + video_num_lines v * video_size_row v \<le> video_mem_end v"
      using assms ar(3) by (simp add: con_ok_def geometry_def word_le_nat_alt)
    then have "con_ok (v\<lparr>vram := m, scr_end := scr_end v + video_size_row v - ?d,
        vpos := vpos v + video_size_row v - ?d, origin := video_mem_start v\<rparr>)"
      using assms ar(3) by (simp add: con_ok_def e)
    then show ?thesis unfolding m set_origin_def by (rule crtc_word_ok)
  next
    case fits: False
    have "video_mem_start v \<le> origin v + video_size_row v"
      using assms ar(1) by (simp add: con_ok_def word_le_nat_alt)
    then have "con_ok (v\<lparr>origin := origin v + video_size_row v, vpos := vpos v + video_size_row v,
        scr_end := scr_end v + video_size_row v\<rparr>)"
      using assms fits ar(1,2) by (simp add: con_ok_def not_less)
    then show ?thesis
      using True fits by (simp add: scrup_def Let_def set_origin_def crtc_word_ok)
  qed
qed

lemma inc_below: "(a :: u32) < b \<Longrightarrow> 1 + a \<le> b"
  by (subst add.commute) (rule inc_le)

lemma lf_ok [con_keep]:
  assumes "con_ok v"
  shows "con_ok (lf v)"
proof (cases "vy v + 1 < vbottom v")
  case True
  with assms show ?thesis by (auto simp: lf_def con_ok_def algebra_simps)
qed (simp add: lf_def scrup_ok assms)

lemma ri_ok [con_keep]:
  assumes "con_ok v"
  shows "con_ok (ri v)"
proof (cases "vy v > vtop v")
  case True
  then have "vy v \<noteq> 0" by auto
  then have "vy v - 1 < vy v" by (simp add: word_less_nat_alt unat_minus_one unat_gt_0)
  moreover have "vy v < video_num_lines v" using assms by (simp add: con_ok_def)
  ultimately have "vy v - 1 < video_num_lines v" by simp
  with True assms show ?thesis by (auto simp: ri_def con_ok_def algebra_simps)
qed (simp add: ri_def scrdown_ok assms)

lemma cr_ok [con_keep]: "con_ok v \<Longrightarrow> con_ok (cr v)"
  by (simp add: cr_def con_ok_def push_bit_eq_mult)

lemma dec_le: "(a :: u32) \<noteq> 0 \<Longrightarrow> a \<le> b \<Longrightarrow> a - 1 \<le> b"
  by (simp add: word_le_nat_alt unat_minus_one)

lemma back_ok: "con_ok v \<Longrightarrow> vx v \<noteq> 0 \<Longrightarrow> con_ok (v\<lparr>vx := vx v - 1, vpos := vpos v - 2\<rparr>)"
  by (simp add: con_ok_def dec_le algebra_simps)

lemma del_ok [con_keep]: "con_ok v \<Longrightarrow> con_ok (del v)"
  by (simp add: del_def con_ok_def dec_le algebra_simps)

lemma wrap_line_ok:
  assumes "con_ok (v\<lparr>vx := 0, vpos := origin v + vy v * video_size_row v\<rparr>)"
    and "vpos v = origin v + vy v * video_size_row v + 2 * vx v" and "vx v - video_num_columns v \<le> video_num_columns v"
  shows "con_ok (wrap_line v)"
proof -
  have "geometry v" using assms(1) by (simp add: con_ok_def)
  then have "vpos v - video_size_row v = origin v + vy v * video_size_row v + 2 * (vx v - video_num_columns v)"
    using row_eq [of v] assms(2) by (simp add: algebra_simps)
  then have "con_ok (v\<lparr>vx := vx v - video_num_columns v, vpos := vpos v - video_size_row v\<rparr>)"
    using assms by (simp add: con_ok_def)
  then show ?thesis unfolding wrap_line_def by (rule lf_ok)
qed

lemma fields_scrup [simp]:
  "vx (scrup v) = vx v" "vy (scrup v) = vy v" "video_num_columns (scrup v) = video_num_columns v"
  "video_num_lines (scrup v) = video_num_lines v" "video_size_row (scrup v) = video_size_row v"
  by (simp_all add: scrup_def region_up_def Let_def set_origin_def crtc_word_def split: prod.split)

lemma fields_lf [simp]: "vx (lf v) = vx v" "video_num_columns (lf v) = video_num_columns v"
  by (simp_all add: lf_def)

lemma put_char_ok [con_keep]:
  assumes "con_ok v"
  shows "con_ok (put_char c v)"
proof -
  define w where "w = (if vx v \<ge> video_num_columns v then wrap_line v else v)"
  have w: "con_ok w \<and> vx w < video_num_columns w"
  proof (cases "vx v \<ge> video_num_columns v")
    case True
    then have x: "vx v = video_num_columns v" using assms by (simp add: con_ok_def)
    have "con_ok (wrap_line v)" using assms x by (intro wrap_line_ok) (simp_all add: con_ok_def)
    moreover have "0 < video_num_columns v" using assms by (auto simp: con_ok_def geometry_def word_less_nat_alt)
    ultimately show ?thesis using True x by (simp add: w_def wrap_line_def)
  next
    case False
    then show ?thesis using assms by (simp add: w_def)
  qed
  then have "con_ok (w\<lparr>vpos := vpos w + 2, vx := vx w + 1\<rparr>)"
    by (simp add: con_ok_def inc_below algebra_simps)
  then show ?thesis by (simp add: put_char_def Let_def w_def [symmetric] con_ok_def)
qed

text \<open>A tab moves the cursor by eight columns at most, so it wraps once at most.\<close>

lemma tab_wrap_ok:
  assumes "con_ok v"
  defines "w \<equiv> v\<lparr>vx := vx v + (8 - (vx v AND 7)), vpos := vpos v + push_bit 1 (8 - (vx v AND 7))\<rparr>"
  assumes "vx w > video_num_columns w"
  shows "con_ok (w\<lparr>vx := vx w - video_num_columns w, vpos := vpos w - video_size_row w\<rparr>)"
proof -
  define c :: u32 where "c = 8 - (vx v AND 7)"
  have "vx v AND 7 \<le> 7" by (rule word_and_le1)
  then have c: "unat c \<le> 8" unfolding c_def by (simp add: unat_sub_if' word_le_nat_alt split: if_splits)
  have x: "unat (vx v) \<le> unat (video_num_columns v)" "8 \<le> unat (video_num_columns v)"
    "2 * unat (video_num_columns v) = unat (video_size_row v)"
    using assms(1) by (auto simp: con_ok_def geometry_def word_le_nat_alt)
  have sum: "unat (vx v + c) = unat (vx v) + unat c"
    using x c unat_u32_less [of "video_size_row v"] by (intro unat_add_small) linarith
  have "unat (vx w - video_num_columns w) = unat (vx w) - unat (video_num_columns w)"
    using assms(3) by (intro unat_sub) simp
  then have le: "vx w - video_num_columns w \<le> video_num_columns w"
    using sum x c by (simp add: w_def word_le_nat_alt c_def)
  have "video_size_row v = 2 * video_num_columns v" using assms(1) row_eq by (simp add: con_ok_def)
  then have "vpos w - video_size_row w = origin v + vy v * video_size_row v + 2 * (vx w - video_num_columns w)"
    using assms(1) by (simp add: w_def con_ok_def push_bit_eq_mult algebra_simps)
  with le show ?thesis using assms(1) by (simp add: w_def con_ok_def)
qed

lemma tab_ok [con_keep]:
  assumes "con_ok v"
  shows "con_ok (tab v)"
proof -
  define w where "w = v\<lparr>vx := vx v + (8 - (vx v AND 7)), vpos := vpos v + push_bit 1 (8 - (vx v AND 7))\<rparr>"
  show ?thesis
  proof (cases "vx w > video_num_columns w")
    case True
    then have "tab v = wrap_line w" by (simp add: tab_def Let_def w_def)
    then show ?thesis
      unfolding wrap_line_def using lf_ok [OF tab_wrap_ok [OF assms, folded w_def, OF True]] by simp
  next
    case False
    then have "con_ok w" using assms by (simp add: w_def con_ok_def push_bit_eq_mult algebra_simps)
    then show ?thesis using False by (simp add: tab_def Let_def w_def)
  qed
qed

lemma csi_J_ok [con_keep]: "con_ok v \<Longrightarrow> con_ok (csi_J p v)"
  by (simp add: csi_J_def erase_ok)

lemma csi_K_ok [con_keep]: "con_ok v \<Longrightarrow> con_ok (csi_K p v)"
  by (simp add: csi_K_def erase_ok)

lemma cell_edits_ok [con_keep]:
  "con_ok v \<Longrightarrow> con_ok (insert_char v)" "con_ok v \<Longrightarrow> con_ok (delete_char v)" "con_ok v \<Longrightarrow> con_ok (csi_m v)"
  "con_ok v \<Longrightarrow> con_ok (save_cur v)" "con_ok v \<Longrightarrow> con_ok (restore_cur v)"
  by (simp_all add: insert_char_def delete_char_def csi_m_def save_cur_def restore_cur_def gotoxy_ok)

text \<open>Inserting and deleting lines work on a region of their own, from the cursor down.\<close>

lemma own_region_ok:
  assumes "con_ok v" and "con_ok w" and "vtop w = vy v" and "video_num_lines w = video_num_lines v"
  shows "con_ok (w\<lparr>vtop := vtop v, vbottom := vbottom v\<rparr>)"
  using assms by (simp add: con_ok_def)

lemma fields_scroll [simp]:
  "vtop (scrup v) = vtop v" "vtop (scrdown v) = vtop v" "video_num_lines (scrdown v) = video_num_lines v"
  by (simp_all add: scrup_def scrdown_def region_up_def Let_def set_origin_def crtc_word_def split: prod.split)

lemma line_edits_ok [con_keep]:
  assumes "con_ok v"
  shows "con_ok (insert_line v)" and "con_ok (delete_line v)"
proof -
  have r: "con_ok (v\<lparr>vtop := vy v, vbottom := video_num_lines v\<rparr>)" using assms by (simp add: con_ok_def)
  show "con_ok (insert_line v)" unfolding insert_line_def
    by (rule own_region_ok [OF assms scrdown_ok [OF r]]) simp_all
  show "con_ok (delete_line v)" unfolding delete_line_def
    by (rule own_region_ok [OF assms scrup_ok [OF r]]) simp_all
qed

lemma funpow_ok: "(\<And>v. con_ok v \<Longrightarrow> con_ok (f v)) \<Longrightarrow> con_ok v \<Longrightarrow> con_ok ((f ^^ n) v)"
  by (induction n) auto

lemma repeated_ok [con_keep]:
  "con_ok v \<Longrightarrow> con_ok (csi_at p v)" "con_ok v \<Longrightarrow> con_ok (csi_L p v)"
  "con_ok v \<Longrightarrow> con_ok (csi_P p v)" "con_ok v \<Longrightarrow> con_ok (csi_M p v)"
  by (simp_all add: csi_at_def csi_L_def csi_P_def csi_M_def funpow_ok con_keep)

lemma par_ok [con_keep]:
  "con_ok v \<Longrightarrow> con_ok (par_dec i v)" "con_ok v \<Longrightarrow> con_ok (par_inc v)"
  by (simp_all add: par_dec_def par_inc_def con_keep)

lemma set_region_ok [con_keep]:
  assumes "con_ok v"
  shows "con_ok (set_region v)"
proof -
  define w where "w = (let v = par_dec 0 v in if par v ! 1 = 0 then v\<lparr>par := (par v)[1 := video_num_lines v]\<rparr> else v)"
  have "con_ok w" using assms by (simp add: w_def Let_def con_keep)
  then have "con_ok (if par w ! 0 < par w ! 1 \<and> par w ! 1 \<le> video_num_lines w
      then w\<lparr>vtop := par w ! 0, vbottom := par w ! 1\<rparr> else w)" by (simp add: con_ok_def)
  then show ?thesis by (simp only: set_region_def w_def Let_def)
qed

lemma if_ok: "con_ok v \<Longrightarrow> con_ok w \<Longrightarrow> con_ok (if b then v else w)"
  by simp

lemma con_csi_ok [con_keep]:
  assumes "con_ok v"
  shows "con_ok (con_csi c v)"
proof -
  have v: "con_ok (v\<lparr>vstate := 0\<rparr>)" using assms by simp
  show ?thesis unfolding con_csi_def Let_def by (intro if_ok con_keep v)
qed

lemma con_param_ok [con_keep]: "con_ok v \<Longrightarrow> con_ok (con_param c v)"
  by (auto simp: con_param_def intro!: con_keep) (simp add: con_ok_def)

lemma con_start_ok [con_keep]:
  assumes "con_ok v"
  shows "con_ok (con_start c v)"
proof -
  have "con_ok (v\<lparr>par := replicate NPAR 0, npar := 0, vstate := 3, ques := q\<rparr>)" for q
    using assms by (simp add: con_ok_def)
  then show ?thesis by (simp add: con_start_def Let_def con_param_ok)
qed

text \<open>C23: whatever character is sent to the console, in whatever state of an escape sequence, the
  screen stays inside video memory, the cursor stays on it (one column past the end at most)
  and its address stays the one of its line and column, and the scrolling region is never
  empty.\<close>
theorem con_char_keeps:
  assumes "con_ok v"
  shows "con_ok (fst (con_char er c v))"
proof -
  have "con_ok (fst (con_plain er c v))"
    using assms by (simp add: con_plain_def con_keep back_ok)
  moreover have "con_ok (fst (con_escape c v))"
    using assms by (simp add: con_escape_def Let_def con_keep)
  ultimately show ?thesis using assms by (simp add: con_char_def con_keep)
qed

text \<open>An 80 by 25 colour screen after \<open>con_init\<close>.\<close>

definition vt_zero :: vt where
  "vt_zero = \<lparr>video_type = 0, video_num_columns = 0, video_size_row = 0, video_num_lines = 0, video_page = 0,
     video_mem_start = 0, video_mem_end = 0, video_port_reg = 0, video_port_val = 0, video_erase_char = 0,
     origin = 0, scr_end = 0, vpos = 0, vx = 0, vy = 0, vtop = 0, vbottom = 0, vstate = 0, npar = 0,
     par = replicate NPAR 0, ques = False, vattr = 7, saved_x = 0, saved_y = 0, vram = (\<lambda>_. 0), crtc = []\<rparr>"

definition boot_ega :: boot_video where
  "boot_ega = \<lparr>ORIG_X = 0, ORIG_Y = 24, ORIG_VIDEO_PAGE = 0, ORIG_VIDEO_MODE = 3, ORIG_VIDEO_COLS = 80, ORIG_VIDEO_EGA_BX = 0\<rparr>"

lemma vt_init_ok: "con_ok (vt_init boot_ega vt_zero)"
  by (simp add: vt_init_def boot_ega_def vt_zero_def gotoxy_def con_ok_def geometry_def)

theorem con_char_keeps_witness: "con_ok (fst (con_char 127 10 (vt_init boot_ega vt_zero)))"
  by (rule con_char_keeps [OF vt_init_ok])

section \<open>Nothing outside video memory is written\<close>

text \<open>\<open>untouched lo hi m m'\<close>: \<open>m'\<close> differs from \<open>m\<close> at addresses from \<open>lo\<close> to below \<open>hi\<close> only.\<close>

definition untouched :: "nat \<Rightarrow> nat \<Rightarrow> (u32 \<Rightarrow> u16) \<Rightarrow> (u32 \<Rightarrow> u16) \<Rightarrow> bool" where
  "untouched lo hi m m' \<longleftrightarrow> (\<forall>a. unat a < lo \<or> hi \<le> unat a \<longrightarrow> m' a = m a)"

lemma untouched_refl [simp]: "untouched lo hi m m"
  by (simp add: untouched_def)

lemma untouched_trans: "untouched lo hi m m' \<Longrightarrow> untouched lo hi m' m'' \<Longrightarrow> untouched lo hi m m''"
  by (auto simp: untouched_def)

lemma untouched_upd: "lo \<le> unat a \<Longrightarrow> unat a < hi \<Longrightarrow> untouched lo hi m (m(a := v))"
  by (auto simp: untouched_def)

lemma unat_add2: "unat (a :: u32) + k < 2147483648 \<Longrightarrow> k = 2 \<or> k = 4 \<Longrightarrow> unat (a + of_nat k) = unat a + k"
  by (auto simp: unat_word_ariths)

lemma stosw_up_untouched:
  assumes "lo \<le> unat edi" and "unat edi + 2 * n \<le> hi" and "hi < 2147483648"
  shows "untouched lo hi m (stosw_up n ax edi m)"
  using assms
proof (induction n arbitrary: edi m)
  case (Suc n)
  have e: "unat (edi + 2) = unat edi + 2" using unat_add2 [of edi 2] Suc.prems by simp
  have "untouched lo hi m (m(edi := ax))" using Suc.prems by (intro untouched_upd) auto
  moreover have "untouched lo hi (m(edi := ax)) (stosw_up n ax (edi + 2) (m(edi := ax)))"
    using Suc.prems e by (intro Suc.IH) auto
  ultimately show ?case by (auto intro: untouched_trans)
qed simp

lemma insert_loop_untouched:
  assumes "lo \<le> unat p" and "unat p + 2 * n \<le> hi" and "hi < 2147483648"
  shows "untouched lo hi m (insert_loop n old p m)"
  using assms
proof (induction n arbitrary: p m old)
  case (Suc n)
  have e: "unat (p + 2) = unat p + 2" using unat_add2 [of p 2] Suc.prems by simp
  have "untouched lo hi m (m(p := old))" using Suc.prems by (intro untouched_upd) auto
  moreover have "untouched lo hi (m(p := old)) (insert_loop n (m p) (p + 2) (m(p := old)))"
    using Suc.prems e by (intro Suc.IH) auto
  ultimately show ?case by (auto intro: untouched_trans)
qed simp

lemma delete_loop_untouched:
  assumes "lo \<le> unat p" and "unat p + 2 * Suc n \<le> hi" and "hi < 2147483648"
  shows "untouched lo hi m (delete_loop n er p m)"
  using assms
proof (induction n arbitrary: p m)
  case 0
  then show ?case by (simp add: untouched_upd del: fun_upd_apply)
next
  case (Suc n)
  have e: "unat (p + 2) = unat p + 2" using unat_add2 [of p 2] Suc.prems by simp
  have "untouched lo hi m (m(p := m (p + 2)))" using Suc.prems by (intro untouched_upd) auto
  moreover have "untouched lo hi (m(p := m (p + 2))) (delete_loop n er (p + 2) (m(p := m (p + 2))))"
    using Suc.prems e by (intro Suc.IH) auto
  ultimately show ?case by (auto intro: untouched_trans)
qed

lemma movsl_up_untouched:
  assumes "lo \<le> unat edi" and "unat edi + 4 * n \<le> hi" and "hi < 2147483648"
    and "movsl_up n esi edi m = (edi', m')"
  shows "untouched lo hi m m' \<and> unat edi' = unat edi + 4 * n"
  using assms
proof (induction n arbitrary: esi edi m)
  case (Suc n)
  have e: "unat (edi + 4) = unat edi + 4" "unat (edi + 2) = unat edi + 2"
    using unat_add2 [of edi 4] unat_add2 [of edi 2] Suc.prems by simp_all
  let ?m = "m(edi := m esi, edi + 2 := m (esi + 2))"
  have "untouched lo hi m ?m"
    using Suc.prems e by (intro untouched_trans [OF untouched_upd untouched_upd]) auto
  moreover have "untouched lo hi ?m m' \<and> unat edi' = unat (edi + 4) + 4 * n"
    using Suc.prems e by (intro Suc.IH [where esi = "esi + 4"]) (simp_all del: fun_upd_apply)
  ultimately show ?case using e by (auto intro: untouched_trans)
qed simp

lemma unat_sub_small: "k = 2 \<or> k = 4 \<Longrightarrow> k \<le> unat (a :: u32) \<Longrightarrow> unat (a - of_nat k) = unat a - k"
  by (auto simp: unat_sub_if')

lemma movsl_down_untouched:
  assumes "lo + 4 * n \<le> unat edi + 4" and "unat edi + 4 \<le> hi" and "hi < 2147483648" and "4 * n \<le> unat edi"
    and "movsl_down n esi edi m = (edi', m')"
  shows "untouched lo hi m m' \<and> unat edi' = unat edi - 4 * n"
  using assms
proof (induction n arbitrary: esi edi m)
  case (Suc n)
  have e: "unat (edi - 4) = unat edi - 4" "unat (edi + 2) = unat edi + 2"
    using unat_sub_small [of 4 edi] unat_add2 [of edi 2] Suc.prems by simp_all
  let ?m = "m(edi := m esi, edi + 2 := m (esi + 2))"
  have "untouched lo hi m ?m"
    using Suc.prems e by (intro untouched_trans [OF untouched_upd untouched_upd]) auto
  moreover have "untouched lo hi ?m m' \<and> unat edi' = unat (edi - 4) - 4 * n"
    using Suc.prems e by (intro Suc.IH [where esi = "esi - 4"]) (simp_all del: fun_upd_apply)
  ultimately show ?case using e by (auto intro: untouched_trans)
qed simp

lemma stosw_down_untouched:
  assumes "lo + 2 * n \<le> unat edi + 2" and "unat edi + 2 \<le> hi" and "hi < 2147483648"
  shows "untouched lo hi m (stosw_down n ax edi m)"
  using assms
proof (induction n arbitrary: edi m)
  case (Suc n)
  show ?case
  proof (cases n)
    case 0
    then show ?thesis using Suc.prems by (simp add: untouched_upd del: fun_upd_apply)
  next
    case (Suc k)
    have e: "unat (edi - 2) = unat edi - 2" using unat_sub_small [of 2 edi] Suc Suc.prems by simp
    have "untouched lo hi m (m(edi := ax))" using Suc.prems by (intro untouched_upd) auto
    moreover have "untouched lo hi (m(edi := ax)) (stosw_down n ax (edi - 2) (m(edi := ax)))"
      using Suc.prems e Suc by (intro Suc.IH) auto
    ultimately show ?thesis by (auto intro: untouched_trans)
  qed
qed simp

text \<open>The screen in numbers.\<close>

lemma con_nats:
  fixes v :: vt
  assumes "con_ok v"
  defines "Og \<equiv> unat (origin v)" and "R \<equiv> unat (video_size_row v)" and "L \<equiv> unat (video_num_lines v)"
    and "C \<equiv> unat (video_num_columns v)" and "X \<equiv> unat (vx v)" and "Y \<equiv> unat (vy v)"
    and "S \<equiv> unat (video_mem_start v)" and "E \<equiv> unat (video_mem_end v)"
  shows "R = 2 * C" and "8 \<le> C" and "S \<le> Og" and "Og + L * R \<le> E" and "S + L * R \<le> E" and "E < 2147483648"
    and "X \<le> C" and "Y < L" and "(Y + 1) * R \<le> L * R" and "unat (vpos v) = Og + Y * R + 2 * X"
    and "unat (scr_end v) = Og + L * R"
proof -
  show ok: "R = 2 * C" "8 \<le> C" "S \<le> Og" "Og + L * R \<le> E" "S + L * R \<le> E" "E < 2147483648" "X \<le> C" "Y < L"
    "unat (scr_end v) = Og + L * R"
    using assms by (auto simp: con_ok_def geometry_def word_le_nat_alt word_less_nat_alt)
  show rows: "(Y + 1) * R \<le> L * R" using ok(8) by (intro mult_le_mono1) simp
  have yr: "Y * R + R \<le> L * R" using rows by simp
  have "Y * R < 4294967296" using yr ok(4,6) by linarith
  then have "unat (vy v * video_size_row v) = Y * R"
    unfolding Y_def R_def by (rule unat_mult_small)
  moreover have "unat (2 * vx v) = 2 * X"
    using ok yr by (subst unat_mult_small) (simp_all add: X_def)
  ultimately show "unat (vpos v) = Og + Y * R + 2 * X"
    using assms(1) yr ok by (simp add: con_ok_def Og_def unat_add_small)
qed

text \<open>An operation that writes video memory only, and only inside it.\<close>

definition confined :: "vt \<Rightarrow> vt \<Rightarrow> bool" where
  "confined v w \<longleftrightarrow> untouched (unat (video_mem_start v)) (unat (video_mem_end v)) (vram v) (vram w) \<and>
     video_mem_start w = video_mem_start v \<and> video_mem_end w = video_mem_end v"

lemma confined_trans: "confined v w \<Longrightarrow> confined w u \<Longrightarrow> confined v u"
  by (auto simp: confined_def intro: untouched_trans)

lemma confined_vram:
  "confined v (v\<lparr>vram := m\<rparr>) \<longleftrightarrow> untouched (unat (video_mem_start v)) (unat (video_mem_end v)) (vram v) m"
  by (simp add: confined_def)

lemma confined_same:
  "vram w = vram v \<Longrightarrow> video_mem_start w = video_mem_start v \<Longrightarrow> video_mem_end w = video_mem_end v \<Longrightarrow> confined v w"
  by (simp add: confined_def)

lemma erase_confined:
  assumes "con_ok v" and "unat (origin v) \<le> unat a"
    and "unat a + 2 * unat n \<le> unat (origin v) + unat (video_num_lines v) * unat (video_size_row v)"
  shows "confined v (erase n a v)"
  unfolding erase_def confined_vram
  using con_nats [OF assms(1)] assms(2,3) by (intro stosw_up_untouched) linarith+

lemma unat_half: "2 * unat (drop_bit 1 (a :: u32)) \<le> unat a"
  by (simp add: drop_bit_eq_div unat_div)

lemma line_start:
  assumes "con_ok v"
  shows "unat (vpos v - push_bit 1 (vx v)) = unat (origin v) + unat (vy v) * unat (video_size_row v)"
proof -
  note n = con_nats [OF assms]
  have "unat (push_bit 1 (vx v)) = 2 * unat (vx v)"
    using n by (simp add: push_bit_eq_mult unat_mult_small)
  then show ?thesis using n by (subst unat_sub) (simp_all add: word_le_nat_alt)
qed

lemma csi_J_confined: "con_ok v \<Longrightarrow> confined v (csi_J p v)"
proof -
  assume ok: "con_ok v"
  note n = con_nats [OF ok]
  have le: "origin v \<le> vpos v" "vpos v \<le> scr_end v" using n by (auto simp: word_le_nat_alt)
  have d: "unat (scr_end v - vpos v) = unat (scr_end v) - unat (vpos v)"
    "unat (vpos v - origin v) = unat (vpos v) - unat (origin v)"
    using le by (auto intro: unat_sub)
  have h: "2 * unat (drop_bit 1 (scr_end v - vpos v)) \<le> unat (scr_end v) - unat (vpos v)"
    "2 * unat (drop_bit 1 (vpos v - origin v)) \<le> unat (vpos v) - unat (origin v)"
    using unat_half [of "scr_end v - vpos v"] unat_half [of "vpos v - origin v"] d by auto
  have "unat (video_num_columns v) * unat (video_num_lines v) \<le> unat (video_num_lines v) * unat (video_size_row v)"
    using n(1) by simp
  then have a: "unat (video_num_columns v * video_num_lines v) = unat (video_num_columns v) * unat (video_num_lines v)"
    using n(4,6) by (intro unat_mult_small) linarith
  show ?thesis unfolding csi_J_def
    using n h le a by (auto intro!: erase_confined [OF ok] confined_same simp: word_le_nat_alt)
qed

lemma csi_K_confined:
  assumes ok: "con_ok v"
  shows "confined v (csi_K p v)"
proof -
  note n = con_nats [OF ok]
  have d: "unat (video_num_columns v - vx v) = unat (video_num_columns v) - unat (vx v)"
    using ok by (auto simp: con_ok_def intro: unat_sub)
  have le: "unat (origin v) \<le> unat (vpos v)" "unat (origin v) \<le> unat (vpos v - push_bit 1 (vx v))"
    using n line_start [OF ok] by auto
  show ?thesis unfolding csi_K_def
    using n d le line_start [OF ok] by (auto intro!: erase_confined [OF ok] confined_same simp: not_less)
qed

lemma cell_edits_confined:
  assumes ok: "con_ok v"
  shows "confined v (insert_char v)" and "confined v (delete_char v)"
proof -
  note n = con_nats [OF ok]
  have d: "unat (video_num_columns v - vx v) = unat (video_num_columns v) - unat (vx v)"
    using ok by (auto simp: con_ok_def intro: unat_sub)
  show "confined v (insert_char v)" unfolding insert_char_def confined_vram
    using n d by (auto intro!: insert_loop_untouched)
  show "confined v (delete_char v)"
  proof (cases "vx v \<ge> video_num_columns v")
    case False
    then have "vx v < video_num_columns v" by simp
    then have "video_num_columns v - vx v \<noteq> 0" "unat (vx v) < unat (video_num_columns v)"
      by (auto simp: word_less_nat_alt)
    then have "Suc (unat (video_num_columns v - vx v - 1)) = unat (video_num_columns v) - unat (vx v)"
      using d by (simp add: unat_minus_one unat_gt_0)
    with False show ?thesis unfolding delete_char_def
      using n by (auto simp: confined_vram intro!: delete_loop_untouched)
  qed (simp add: delete_char_def confined_same)
qed

text \<open>The lines of the scrolling region that are moved.\<close>

lemma region_nats:
  assumes ok: "con_ok v"
  defines "n \<equiv> unat (drop_bit 1 ((vbottom v - vtop v - 1) * video_num_columns v))"
    and "B \<equiv> unat (vbottom v)" and "T \<equiv> unat (vtop v)" and "R \<equiv> unat (video_size_row v)"
    and "L \<equiv> unat (video_num_lines v)"
  shows "4 * n + R * T + R \<le> R * B" and "R * B \<le> L * R"
    and "unat (origin v + video_size_row v * vtop v) = unat (origin v) + R * T"
    and "unat (origin v + video_size_row v * vbottom v) = unat (origin v) + R * B"
proof -
  note c = con_nats [OF ok, folded R_def L_def]
  have tb: "T < B" "B \<le> L" using ok by (auto simp: con_ok_def word_less_nat_alt word_le_nat_alt T_def B_def L_def)
  have "vbottom v - vtop v \<noteq> 0" "vtop v \<le> vbottom v" using ok by (auto simp: con_ok_def)
  then have k: "unat (vbottom v - vtop v - 1) = B - T - 1"
    by (simp add: unat_minus_one unat_sub B_def T_def)
  show BL: "R * B \<le> L * R" using tb by (simp add: mult.commute)
  have RT: "R * T + R \<le> R * B" using tb mult_le_mono2 [of "T + 1" B R] by simp
  obtain j where "B = Suc (T + j)" using less_imp_Suc_add [OF tb(1)] by auto
  then have kR: "(B - T - 1) * R + R * T + R = R * B" by (simp add: algebra_simps)
  have "2 * ((B - T - 1) * unat (video_num_columns v)) = (B - T - 1) * R" using c(1) by simp
  with kR have kC: "2 * ((B - T - 1) * unat (video_num_columns v)) + R * T + R = R * B" by linarith
  then have "(B - T - 1) * unat (video_num_columns v) < 4294967296" using c(4,6) BL by linarith
  then have "unat ((vbottom v - vtop v - 1) * video_num_columns v) = (B - T - 1) * unat (video_num_columns v)"
    using k by (subst unat_mult_small) simp_all
  then have "2 * n \<le> (B - T - 1) * unat (video_num_columns v)"
    using unat_half [of "(vbottom v - vtop v - 1) * video_num_columns v"] by (simp add: n_def)
  then show "4 * n + R * T + R \<le> R * B" using kC by simp
  have p: "unat (video_size_row v * vtop v) = R * T" "unat (video_size_row v * vbottom v) = R * B"
    unfolding R_def T_def B_def by (rule unat_mult_small, use RT BL c(4,6) in \<open>unfold R_def T_def B_def, linarith\<close>)+
  show "unat (origin v + video_size_row v * vtop v) = unat (origin v) + R * T"
    unfolding p [symmetric] by (rule unat_add_small) (use p RT BL c(4,6) in linarith)
  show "unat (origin v + video_size_row v * vbottom v) = unat (origin v) + R * B"
    unfolding p [symmetric] by (rule unat_add_small) (use p RT BL c(4,6) in linarith)
qed

lemma region_up_confined:
  assumes ok: "con_ok v"
  shows "confined v (region_up v)"
proof -
  note c = con_nats [OF ok] and r = region_nats [OF ok]
  let ?n = "unat (drop_bit 1 ((vbottom v - vtop v - 1) * video_num_columns v))"
  obtain edi m where mv: "movsl_up ?n (origin v + video_size_row v * (vtop v + 1))
      (origin v + video_size_row v * vtop v) (vram v) = (edi, m)" by fastforce
  let ?E = "unat (video_mem_end v)" and ?S = "unat (video_mem_start v)"
  have "untouched ?S ?E (vram v) m \<and> unat edi = unat (origin v + video_size_row v * vtop v) + 4 * ?n"
    by (rule movsl_up_untouched [OF _ _ c(6) mv]) (use c r in linarith)+
  moreover from this have "untouched ?S ?E m (stosw_up (unat (video_num_columns v)) (video_erase_char v) edi m)"
    using c r by (intro stosw_up_untouched) linarith+
  ultimately show ?thesis unfolding region_up_def
    using mv by (auto simp: Let_def confined_vram intro: untouched_trans)
qed

lemma scrdown_confined:
  assumes ok: "con_ok v"
  shows "confined v (scrdown v)"
proof -
  note c = con_nats [OF ok] and r = region_nats [OF ok]
  let ?n = "unat (drop_bit 1 ((vbottom v - vtop v - 1) * video_num_columns v))"
  let ?e = "origin v + video_size_row v * vbottom v"
  have e: "unat (?e - 4) = unat ?e - 4" "16 \<le> unat (video_size_row v)"
    using unat_sub_small [of 4 ?e] c r by auto
  obtain edi m where mv: "movsl_down ?n (origin v + video_size_row v * (vbottom v - 1) - 4) (?e - 4) (vram v) = (edi, m)"
    by fastforce
  let ?E = "unat (video_mem_end v)" and ?S = "unat (video_mem_start v)"
  have d: "untouched ?S ?E (vram v) m \<and> unat edi = unat (?e - 4) - 4 * ?n"
    by (rule movsl_down_untouched [OF _ _ c(6) _ mv]) (use c r e in linarith)+
  then have "unat edi + 2 < 2147483648" using c r e by linarith
  from unat_add2 [OF this] have "unat (edi + 2) = unat edi + 2" by simp
  with d have "untouched ?S ?E m (stosw_down (unat (video_num_columns v)) (video_erase_char v) (edi + 2) m)"
    using c r e by (intro stosw_down_untouched) linarith+
  with d show ?thesis unfolding scrdown_def
    using mv by (auto simp: Let_def confined_vram intro: untouched_trans)
qed

lemma crtc_fields [simp]: "vram (crtc_word reg a w) = vram w" "video_mem_start (crtc_word reg a w) = video_mem_start w"
    "video_mem_end (crtc_word reg a w) = video_mem_end w"
  by (simp_all add: crtc_word_def Let_def)

lemma scrup_confined:
  assumes ok: "con_ok v"
  shows "confined v (scrup v)"
proof (cases "is_ega v \<and> vtop v = 0 \<and> vbottom v = video_num_lines v")
  case False
  then have "scrup v = region_up v" unfolding scrup_def by (rule if_not_P)
  with ok show ?thesis by (simp add: region_up_confined)
next
  case True
  note c = con_nats [OF ok] and ar = scroll_arith [OF ok]
  let ?E = "unat (video_mem_end v)" and ?S = "unat (video_mem_start v)" and ?C = "unat (video_num_columns v)"
  let ?L = "unat (video_num_lines v)" and ?R = "unat (video_size_row v)"
  show ?thesis
  proof (cases "scr_end v + video_size_row v > video_mem_end v")
    case over: True
    let ?n = "unat (drop_bit 1 ((video_num_lines v - 1) * video_num_columns v))"
    have "video_num_lines v \<noteq> 0" using c(8) by (auto simp: unat_gt_0)
    then have l: "unat (video_num_lines v - 1) = ?L - 1" by (simp add: unat_minus_one)
    have "(?L - 1) * ?R + ?R = ?L * ?R" using c(8) by (cases ?L) simp_all
    then have k: "2 * ((?L - 1) * ?C) + ?R = ?L * ?R" using c(1) by simp
    then have "(?L - 1) * ?C < 4294967296" using c(5,6) by linarith
    then have "unat ((video_num_lines v - 1) * video_num_columns v) = (?L - 1) * ?C"
      using l by (subst unat_mult_small) simp_all
    then have n: "4 * ?n + ?R \<le> ?L * ?R"
      using k unat_half [of "(video_num_lines v - 1) * video_num_columns v"] by linarith
    obtain edi m where mv: "movsl_up ?n (origin v + video_size_row v) (video_mem_start v) (vram v) = (edi, m)"
      by fastforce
    have d: "untouched ?S ?E (vram v) m \<and> unat edi = ?S + 4 * ?n"
      by (rule movsl_up_untouched [OF _ _ c(6) mv]) (use c n in linarith)+
    then have "untouched ?S ?E m (stosw_up ?C (video_erase_char v) edi m)"
      using c n by (intro stosw_up_untouched) linarith+
    with d mv True over show ?thesis
      by (auto simp: scrup_def Let_def set_origin_def confined_def intro: untouched_trans)
  next
    case fits: False
    then have "unat (scr_end v) + ?R \<le> ?E" using ar(2) by (simp add: not_less word_le_nat_alt)
    then have "untouched ?S ?E (vram v) (stosw_up ?C (video_erase_char v) (scr_end v) (vram v))"
      using c by (intro stosw_up_untouched) linarith+
    with True fits show ?thesis by (simp add: scrup_def Let_def set_origin_def confined_def)
  qed
qed

lemma lf_confined: "con_ok v \<Longrightarrow> confined v (lf v)"
  by (simp add: lf_def scrup_confined confined_same)

lemma ri_confined: "con_ok v \<Longrightarrow> confined v (ri v)"
  by (simp add: ri_def scrdown_confined confined_same)

lemma del_confined:
  assumes ok: "con_ok v"
  shows "confined v (del v)"
proof (cases "vx v = 0")
  case False
  note n = con_nats [OF ok]
  have "0 < unat (vx v)" using False by (simp add: unat_gt_0)
  then have "unat (vpos v - 2) = unat (vpos v) - 2" "2 \<le> unat (vpos v)"
    using unat_sub_small [of 2 "vpos v"] n by auto
  with False \<open>0 < unat (vx v)\<close> show ?thesis unfolding del_def
    using n by (auto simp: confined_def intro!: untouched_upd)
qed (simp add: del_def confined_same)

lemma wrap_line_confined:
  assumes "con_ok (v\<lparr>vx := vx v - video_num_columns v, vpos := vpos v - video_size_row v\<rparr>)"
  shows "confined v (wrap_line v)"
  using lf_confined [OF assms] by (simp add: wrap_line_def confined_def)

lemma put_char_confined:
  assumes ok: "con_ok v"
  shows "confined v (put_char c v)"
proof -
  define w where "w = (if vx v \<ge> video_num_columns v then wrap_line v else v)"
  have w: "con_ok w \<and> vx w < video_num_columns w \<and> confined v w"
  proof (cases "vx v \<ge> video_num_columns v")
    case True
    then have x: "vx v = video_num_columns v" using ok by (simp add: con_ok_def)
    have "con_ok (wrap_line v)" using ok x by (intro wrap_line_ok) (simp_all add: con_ok_def)
    moreover have "con_ok (v\<lparr>vx := vx v - video_num_columns v, vpos := vpos v - video_size_row v\<rparr>)"
      using ok x row_eq [of v] by (simp add: con_ok_def)
    moreover have "0 < video_num_columns v" using ok by (auto simp: con_ok_def geometry_def word_less_nat_alt)
    ultimately show ?thesis using True x wrap_line_confined [of v] by (simp add: w_def wrap_line_def)
  next
    case False
    then show ?thesis using ok by (simp add: w_def confined_same)
  qed
  then have n: "con_ok w" "unat (vx w) < unat (video_num_columns w)" "confined v w"
    by (auto simp: word_less_nat_alt)
  have "confined w (w\<lparr>vram := (vram w)(vpos w := a), vpos := p, vx := x\<rparr>)" for a p x
    using con_nats [OF n(1)] n(2) by (auto simp: confined_def intro!: untouched_upd)
  then show ?thesis using n(3) by (auto simp: put_char_def Let_def w_def [symmetric] intro: confined_trans)
qed

lemma tab_confined:
  assumes ok: "con_ok v"
  shows "confined v (tab v)"
proof -
  define w where "w = v\<lparr>vx := vx v + (8 - (vx v AND 7)), vpos := vpos v + push_bit 1 (8 - (vx v AND 7))\<rparr>"
  show ?thesis
  proof (cases "vx w > video_num_columns w")
    case False
    then show ?thesis by (simp add: tab_def Let_def w_def confined_same)
  next
    case True
    then have t: "tab v = wrap_line w" by (simp add: tab_def Let_def w_def)
    have "con_ok (w\<lparr>vx := vx w - video_num_columns w, vpos := vpos w - video_size_row w\<rparr>)"
      using ok True by (rule tab_wrap_ok [of v, folded w_def])
    from wrap_line_confined [OF this] show ?thesis unfolding t by (simp add: w_def confined_def)
  qed
qed

lemma own_region_confined:
  assumes "con_ok v"
  shows "confined v (insert_line v)" and "confined v (delete_line v)"
proof -
  have r: "con_ok (v\<lparr>vtop := vy v, vbottom := video_num_lines v\<rparr>)" using assms by (simp add: con_ok_def)
  show "confined v (insert_line v)" unfolding insert_line_def using scrdown_confined [OF r] by (simp add: confined_def)
  show "confined v (delete_line v)" unfolding delete_line_def using scrup_confined [OF r] by (simp add: confined_def)
qed

lemma funpow_confined:
  assumes "\<And>v. con_ok v \<Longrightarrow> con_ok (f v)" and "\<And>v. con_ok v \<Longrightarrow> confined v (f v)" and "con_ok v"
  shows "confined v ((f ^^ n) v)"
proof (induction n)
  case (Suc n)
  have "con_ok ((f ^^ n) v)" using assms by (intro funpow_ok) auto
  with Suc show ?case using assms(2) by (auto intro: confined_trans)
qed (simp add: confined_same)

lemma repeated_confined:
  assumes "con_ok v"
  shows "confined v (csi_at p v)" "confined v (csi_L p v)" "confined v (csi_P p v)" "confined v (csi_M p v)"
  unfolding csi_at_def csi_L_def csi_P_def csi_M_def
  by (rule funpow_confined [OF _ _ assms]; (rule con_keep | rule cell_edits_confined | rule own_region_confined); assumption)+

lemma quiet_confined:
  "confined v (gotoxy nx ny v)" "confined v (par_dec i v)" "confined v (par_inc v)" "confined v (csi_m v)"
  "confined v (set_region v)" "confined v (save_cur v)" "confined v (restore_cur v)" "confined v (cr v)"
  by (simp_all add: gotoxy_def par_dec_def par_inc_def csi_m_def set_region_def save_cur_def restore_cur_def
      cr_def Let_def confined_def)

lemma confined_from: "confined v w \<Longrightarrow> vram v = vram u \<Longrightarrow> video_mem_start v = video_mem_start u \<Longrightarrow>
    video_mem_end v = video_mem_end u \<Longrightarrow> confined u w"
  by (simp add: confined_def)

lemma if_confined: "confined u v \<Longrightarrow> confined u w \<Longrightarrow> confined u (if b then v else w)"
  by simp

lemma con_csi_confined:
  assumes "con_ok v"
  shows "confined v (con_csi c v)"
proof -
  define u where "u = v\<lparr>vstate := 0\<rparr>"
  have u: "con_ok u" using assms by (simp add: u_def)
  have g: "confined u (gotoxy nx ny (par_dec 0 u))" "confined u (gotoxy nx ny (par_inc u))"
    "confined u (gotoxy nx ny (par_dec 1 (par_dec 0 u)))" for nx ny
    by (blast intro: confined_trans quiet_confined)+
  have "confined u (con_csi c v)"
    unfolding con_csi_def Let_def u_def [symmetric]
    by (intro if_confined g quiet_confined csi_J_confined csi_K_confined repeated_confined u confined_same refl)
  then show ?thesis by (rule confined_from) (simp_all add: u_def)
qed

lemma con_param_confined:
  assumes "con_ok v"
  shows "confined v (con_param c v)"
proof -
  have "confined (v\<lparr>vstate := 4\<rparr>) (con_csi c (v\<lparr>vstate := 4\<rparr>))" using assms by (intro con_csi_confined) simp
  then have "confined v (con_csi c (v\<lparr>vstate := 4\<rparr>))" by (rule confined_from) simp_all
  then show ?thesis by (simp add: con_param_def confined_same)
qed

lemma con_start_confined:
  assumes "con_ok v"
  shows "confined v (con_start c v)"
proof -
  define w where "w = v\<lparr>par := replicate NPAR 0, npar := 0, vstate := 3, ques := (c = 63)\<rparr>"
  have "con_ok w" using assms by (simp add: con_ok_def w_def)
  then have "confined w (con_param c w)" by (rule con_param_confined)
  then have "confined v (con_param c w)" by (rule confined_from) (simp_all add: w_def)
  moreover have "confined v w" by (simp add: w_def confined_same)
  ultimately show ?thesis unfolding con_start_def Let_def w_def [symmetric] by (intro if_confined)
qed

text \<open>C22: whatever character is sent to the console, no cell outside video memory is written:
  not by printing, erasing, inserting, deleting or scrolling, on every kind of adapter.\<close>
theorem con_char_confined:
  assumes "con_ok v" and "a < video_mem_start v \<or> video_mem_end v \<le> a"
  shows "vram (fst (con_char er c v)) a = vram v a"
proof -
  have "confined v (fst (con_plain er c v))"
    using assms(1) by (simp add: con_plain_def put_char_confined lf_confined quiet_confined del_confined tab_confined confined_same)
  moreover have "confined v (fst (con_escape c v))"
  proof -
    define u where "u = v\<lparr>vstate := 0\<rparr>"
    have u: "con_ok u" using assms(1) by (simp add: u_def)
    have "confined u (fst (con_escape c v))"
      using u by (simp add: con_escape_def Let_def u_def [symmetric] quiet_confined ri_confined lf_confined confined_same)
    then show ?thesis by (rule confined_from) (simp_all add: u_def)
  qed
  ultimately have "confined v (fst (con_char er c v))"
    using assms(1) by (simp add: con_char_def con_start_confined con_param_confined con_csi_confined confined_same)
  then show ?thesis using assms(2) by (auto simp: confined_def untouched_def word_less_nat_alt word_le_nat_alt)
qed

theorem con_char_confined_witness:
  "vram (fst (con_char 127 10 (vt_init boot_ega vt_zero))) 0xbc000 = vram (vt_init boot_ega vt_zero) 0xbc000"
  by (rule con_char_confined [OF vt_init_ok])
    (simp add: vt_init_def boot_ega_def vt_zero_def gotoxy_def)

end
