(* ===== verification/Hd.thy ===== *)
theory Hd
  imports Itable
begin

unbundle bit_operations_syntax

text \<open>
  The hard disk driver, \<^verbatim>\<open>kernel/blk_drv/hd.c\<close>, and \<open>rd_load\<close> of \<^verbatim>\<open>ramdisk.c\<close>,
  which \<open>sys_setup\<close> calls.

  A controller is polled, so that one port gives different answers at different times: \<open>io_in n p\<close>
  is the answer to the \<open>n\<close>-th reading of a port, when that is port \<open>p\<close>, and \<open>io_count\<close> counts the
  readings. A transfer of 256 words from the data port takes the next element of \<open>data_in\<close>, one
  to the data port adds to \<open>data_out\<close>. The handler \<open>do_hd\<close> waiting for the next interrupt is a value of
  \<open>hd_handler\<close>.
\<close>

section \<open>State\<close>

record io_state = fs_state +
  io_in :: "nat \<Rightarrow> u32 \<Rightarrow> u8"
  io_count :: nat
  data_in :: "u8 list list"
  data_out :: "u8 list list"

definition inb_dev :: "u32 \<Rightarrow> (u8, 'z io_state_scheme) kern" where
  "inb_dev port =
     kbind (gets (\<lambda>s. io_in s (io_count s) port)) (\<lambda>v.
     kseq (modify (\<lambda>s. s\<lparr>io_count := Suc (io_count s)\<rparr>)) (ret v))"

datatype hd_handler = Read_intr | Write_intr | Recal_intr

record hd_i_struct =
  hdi_head :: u32
  hdi_sect :: u32
  hdi_cyl :: u32
  hdi_wpcom :: u32
  hdi_lzone :: u32
  hdi_ctl :: u32

record hd_struct =
  start_sect :: u32
  nr_sects :: u32

record hd_state = io_state +
  hd_recalibrate :: bool
  hd_reset :: bool
  hd_info :: "hd_i_struct list"
  NR_HD :: nat
  hd :: "hd_struct list"
  callable :: bool
  do_hd :: "hd_handler option"

abbreviation (input) HD_DATA :: u32 where "HD_DATA \<equiv> 0x1f0"
abbreviation (input) HD_ERROR :: u32 where "HD_ERROR \<equiv> 0x1f1"
abbreviation (input) HD_STATUS :: u32 where "HD_STATUS \<equiv> 0x1f7"
abbreviation (input) HD_CMD :: u32 where "HD_CMD \<equiv> 0x3f6"
abbreviation (input) ERR_STAT :: u8 where "ERR_STAT \<equiv> 0x01"
abbreviation (input) DRQ_STAT :: u8 where "DRQ_STAT \<equiv> 0x08"
abbreviation (input) SEEK_STAT :: u8 where "SEEK_STAT \<equiv> 0x10"
abbreviation (input) WRERR_STAT :: u8 where "WRERR_STAT \<equiv> 0x20"
abbreviation (input) READY_STAT :: u8 where "READY_STAT \<equiv> 0x40"
abbreviation (input) BUSY_STAT :: u8 where "BUSY_STAT \<equiv> 0x80"
abbreviation (input) WIN_RESTORE :: u8 where "WIN_RESTORE \<equiv> 0x10"
abbreviation (input) WIN_READ :: u8 where "WIN_READ \<equiv> 0x20"
abbreviation (input) WIN_WRITE :: u8 where "WIN_WRITE \<equiv> 0x30"
abbreviation (input) WIN_SPECIFY :: u8 where "WIN_SPECIFY \<equiv> 0x91"
abbreviation (input) HD_MAX_ERRORS :: int where "HD_MAX_ERRORS \<equiv> 7"

section \<open>Transfers\<close>

text \<open>The request at the head of the list; with none the pointer is NULL.\<close>

definition cur_req :: "(nat, 'z blk_state_scheme) kern" where
  "cur_req = kbind (gets (CURRENT 3)) (\<lambda>c. case c of None \<Rightarrow> kfault | Some c \<Rightarrow> ret c)"

definition port_read :: "(unit, 'z io_state_scheme) kern" where
  "port_read =
     kbind cur_req (\<lambda>c.
     kbind (gets (\<lambda>s. (request s ! c, data_in s))) (\<lambda>(r, d).
     case (r_buffer r, d) of
       (Some i, bs # ds) \<Rightarrow>
         kseq (modify (\<lambda>s. s\<lparr>data_in := ds\<rparr>))
              (modify (upd_buf i (\<lambda>b. b\<lparr>b_data := overlay (r_off r) bs (b_data b)\<rparr>)))
     | _ \<Rightarrow> kfault))"

definition port_write :: "(unit, 'z io_state_scheme) kern" where
  "port_write =
     kbind cur_req (\<lambda>c.
     kbind (gets (\<lambda>s. request s ! c)) (\<lambda>r.
     case r_buffer r of
       None \<Rightarrow> kfault
     | Some i \<Rightarrow> modify (\<lambda>s. s\<lparr>data_out := data_out s @ [take 512 (drop (r_off r) (b_data (buf s i)))]\<rparr>)))"

section \<open>The controller\<close>

primrec ready_loop :: "nat \<Rightarrow> (nat, 'z io_state_scheme) kern" where
  "ready_loop 0 = ret 0"
| "ready_loop (Suc retries) =
     kbind (inb_dev HD_STATUS) (\<lambda>v. if v AND 0x80 \<noteq> 0 then ready_loop retries else ret (Suc retries))"

definition controller_ready :: "(nat, 'z io_state_scheme) kern" where
  "controller_ready = ready_loop 99999"

definition win_result :: "(bool, 'z io_state_scheme) kern" where
  "win_result =
     kbind (inb_dev HD_STATUS) (\<lambda>i.
     if i AND (BUSY_STAT OR READY_STAT OR WRERR_STAT OR SEEK_STAT OR ERR_STAT) = READY_STAT OR SEEK_STAT
     then ret False
     else if i AND 1 \<noteq> 0 then kbind (inb_dev HD_ERROR) (\<lambda>_. ret True) else ret True)"

text \<open>What is sent to the task-file registers for a command.\<close>

definition task_file :: "hd_i_struct \<Rightarrow> u32 \<Rightarrow> u32 \<Rightarrow> u32 \<Rightarrow> u32 \<Rightarrow> u32 \<Rightarrow> u8 \<Rightarrow> (u32 \<times> u8) list" where
  "task_file info drive nsect sect head cyl cmd =
     [(HD_CMD, ucast (hdi_ctl info)), (0x1f1, ucast (drop_bit 2 (hdi_wpcom info))), (0x1f2, ucast nsect),
      (0x1f3, ucast sect), (0x1f4, ucast cyl), (0x1f5, ucast (drop_bit 8 cyl)),
      (0x1f6, ucast (0xA0 OR push_bit 4 drive OR head)), (0x1f7, cmd)]"

definition hd_out ::
  "u32 \<Rightarrow> u32 \<Rightarrow> u32 \<Rightarrow> u32 \<Rightarrow> u32 \<Rightarrow> u8 \<Rightarrow> hd_handler \<Rightarrow> (unit, 'z hd_state_scheme) kern" where
  "hd_out drive nsect sect head cyl cmd intr_addr =
     (if drive > 1 \<or> head > 15 then kpanic ''Trying to write bad sector''
      else kbind controller_ready (\<lambda>r.
        if r = 0 then kpanic ''HD controller not ready''
        else kseq (modify (\<lambda>s. s\<lparr>do_hd := Some intr_addr\<rparr>))
            (kbind (gets (\<lambda>s. hd_info s ! unat drive)) (\<lambda>info.
             kfor (task_file info drive nsect sect head cyl cmd) (\<lambda>(port, v). outb v port)))))"

primrec busy_loop :: "nat \<Rightarrow> (unit, 'z io_state_scheme) kern" where
  "busy_loop 0 = skip"
| "busy_loop (Suc n) =
     kbind (inb_dev HD_STATUS) (\<lambda>v. if v AND (BUSY_STAT OR READY_STAT) = READY_STAT then skip else busy_loop n)"

definition drive_busy :: "(bool, 'z io_state_scheme) kern" where
  "drive_busy =
     kseq (busy_loop 10000)
    (kbind (inb_dev HD_STATUS) (\<lambda>i.
     if i AND (BUSY_STAT OR READY_STAT OR SEEK_STAT) = READY_STAT OR SEEK_STAT then ret False
     else kseq (printk ''HD controller times out'' []) (ret True)))"

definition reset_controller :: "(unit, 'z hd_state_scheme) kern" where
  "reset_controller =
     kseq (outb 4 HD_CMD)
    (kbind (gets (\<lambda>s. hdi_ctl (hd_info s ! 0))) (\<lambda>ctl.
     kseq (outb (ucast (ctl AND 0x0f)) HD_CMD)
    (kbind drive_busy (\<lambda>b.
     kseq (kwhen b (printk ''HD-controller still busy'' []))
    (kbind (inb_dev HD_ERROR) (\<lambda>i.
     kwhen (i \<noteq> 1) (printk ''HD-controller reset failed: %02x'' [uint i])))))))"

definition reset_hd :: "nat \<Rightarrow> (unit, 'z hd_state_scheme) kern" where
  "reset_hd nr =
     kseq reset_controller
    (kbind (gets (\<lambda>s. hd_info s ! nr)) (\<lambda>i.
     hd_out (of_nat nr) (hdi_sect i) (hdi_sect i) (hdi_head i - 1) (hdi_cyl i) WIN_SPECIFY Recal_intr))"

definition unexpected_hd_interrupt :: "(unit, 'z hd_state_scheme) kern" where
  "unexpected_hd_interrupt = printk ''Unexpected HD interrupt'' []"

section \<open>Requests\<close>

definition hd_end_request :: "u8 \<Rightarrow> (unit, 'z blk_state_scheme) kern" where
  "hd_end_request = end_request ''harddisk'' (\<lambda>_. skip) 3"

text \<open>The second test looks at \<open>CURRENT\<close> again, which \<open>end_request\<close> has moved on.\<close>

definition bad_rw_intr :: "(unit, 'z hd_state_scheme) kern" where
  "bad_rw_intr =
     kbind cur_req (\<lambda>c.
     kseq (modify (upd_req c (\<lambda>r. r\<lparr>r_errors := r_errors r + 1\<rparr>)))
    (kbind (gets (\<lambda>s. r_errors (request s ! c))) (\<lambda>e.
     kseq (kwhen (e \<ge> HD_MAX_ERRORS) (hd_end_request 0))
    (kbind cur_req (\<lambda>c.
     kbind (gets (\<lambda>s. r_errors (request s ! c))) (\<lambda>e.
     kwhen (e > cdiv HD_MAX_ERRORS 2) (modify (\<lambda>s. s\<lparr>hd_reset := True\<rparr>))))))))"

text \<open>The place on the disk of an absolute sector: two unsigned divisions. A geometry of zero
  sectors or heads is a division fault.\<close>

definition chs :: "hd_i_struct \<Rightarrow> u32 \<Rightarrow> u32 \<times> u32 \<times> u32" where
  "chs info block =
     (let sec = block mod hdi_sect info; track = block div hdi_sect info in
      (track div hdi_head info, track mod hdi_head info, sec + 1))"

definition CURRENT_DEV :: "blk_request \<Rightarrow> nat" where
  "CURRENT_DEV r = MINOR (word_of_int (r_dev r)) div 5"

text \<open>Waiting for the controller to ask for data.\<close>

primrec drq_loop :: "nat \<Rightarrow> (bool, 'z io_state_scheme) kern" where
  "drq_loop 0 = ret False"
| "drq_loop (Suc n) = kbind (inb_dev HD_STATUS) (\<lambda>v. if v AND DRQ_STAT \<noteq> 0 then ret True else drq_loop n)"

definition hd_bad_block :: "u32 \<Rightarrow> nat \<Rightarrow> 'z hd_state_scheme \<Rightarrow> bool" where
  "hd_bad_block block dev s \<longleftrightarrow> dev \<ge> 5 * NR_HD s \<or> block + 2 > nr_sects (hd s ! dev)"

primrec do_hd_request :: "nat \<Rightarrow> (unit, 'z hd_state_scheme) kern" where
  "do_hd_request 0 = kloops"
| "do_hd_request (Suc fuel) =
     kbind (INIT_REQUEST ''harddisk'' 3) (\<lambda>c.
     case c of
       None \<Rightarrow> skip
     | Some c \<Rightarrow>
         kbind (gets (\<lambda>s. (request s ! c, s))) (\<lambda>(r, s).
         let dev = MINOR (word_of_int (r_dev r)) in
         if hd_bad_block (r_sector r) dev s then kseq (hd_end_request 0) (do_hd_request fuel)
         else let block = r_sector r + start_sect (hd s ! dev); drive = dev div 5; info = hd_info s ! drive in
           if hdi_sect info = 0 \<or> hdi_head info = 0 then kfault
           else let (cyl, head, sec) = chs info block; nsect = r_nr_sectors r in
             if hd_reset s then
               kseq (modify (\<lambda>s. s\<lparr>hd_reset := False, hd_recalibrate := True\<rparr>)) (reset_hd (CURRENT_DEV r))
             else if hd_recalibrate s then
               kseq (modify (\<lambda>s. s\<lparr>hd_recalibrate := False\<rparr>))
                    (hd_out (of_nat drive) (hdi_sect (hd_info s ! CURRENT_DEV r)) 0 0 0 WIN_RESTORE Recal_intr)
             else if r_cmd r = WRITE then
               kseq (hd_out (of_nat drive) nsect sec head cyl WIN_WRITE Write_intr)
                    (kbind (drq_loop 3000) (\<lambda>ready.
                     if \<not> ready then kseq bad_rw_intr (do_hd_request fuel) else port_write))
             else if r_cmd r = READ then hd_out (of_nat drive) nsect sec head cyl WIN_READ Read_intr
             else kpanic ''unknown hd-command''))"

section \<open>Interrupts\<close>

definition next_sector :: "nat \<Rightarrow> (unit, 'z blk_state_scheme) kern" where
  "next_sector c = modify (upd_req c (\<lambda>r. r\<lparr>r_sector := r_sector r + 1, r_off := r_off r + 512\<rparr>))"

definition read_intr :: "nat \<Rightarrow> (unit, 'z hd_state_scheme) kern" where
  "read_intr fuel =
     kbind win_result (\<lambda>bad.
     if bad then kseq bad_rw_intr (do_hd_request fuel)
     else kseq port_read
         (kbind cur_req (\<lambda>c.
          kseq (modify (upd_req c (\<lambda>r. r\<lparr>r_errors := 0\<rparr>)))
         (kseq (next_sector c)
         (kseq (modify (upd_req c (\<lambda>r. r\<lparr>r_nr_sectors := r_nr_sectors r - 1\<rparr>)))
         (kbind (gets (\<lambda>s. r_nr_sectors (request s ! c))) (\<lambda>n.
          if n \<noteq> 0 then modify (\<lambda>s. s\<lparr>do_hd := Some Read_intr\<rparr>)
          else kseq (hd_end_request 1) (do_hd_request fuel))))))))"

definition write_intr :: "nat \<Rightarrow> (unit, 'z hd_state_scheme) kern" where
  "write_intr fuel =
     kbind win_result (\<lambda>bad.
     if bad then kseq bad_rw_intr (do_hd_request fuel)
     else kbind cur_req (\<lambda>c.
          kseq (modify (upd_req c (\<lambda>r. r\<lparr>r_nr_sectors := r_nr_sectors r - 1\<rparr>)))
         (kbind (gets (\<lambda>s. r_nr_sectors (request s ! c))) (\<lambda>n.
          if n \<noteq> 0 then
            kseq (next_sector c)
           (kseq (modify (\<lambda>s. s\<lparr>do_hd := Some Write_intr\<rparr>)) port_write)
          else kseq (hd_end_request 1) (do_hd_request fuel)))))"

definition recal_intr :: "nat \<Rightarrow> (unit, 'z hd_state_scheme) kern" where
  "recal_intr fuel =
     kbind win_result (\<lambda>bad.
     kseq (kwhen bad bad_rw_intr) (do_hd_request fuel))"

definition hd_init :: "nat \<Rightarrow> u32 \<Rightarrow> (unit, 'z hd_state_scheme) kern" where
  "hd_init do_hd_request_ptr hd_interrupt =
     kseq (modify (\<lambda>s. s\<lparr>blk_dev := upd_nth 3 (\<lambda>d. d\<lparr>request_fn := Some do_hd_request_ptr\<rparr>) (blk_dev s)\<rparr>))
    (kseq (modify (\<lambda>s. s\<lparr>idt := (idt s)[0x2E := set_intr_gate hd_interrupt]\<rparr>))
    (kbind (inb_dev 0x21) (\<lambda>m.
     kseq (outb (m AND 0xfb) 0x21)
    (kbind (inb_dev 0xA1) (\<lambda>m.
     outb (m AND 0xbf) 0xA1)))))"

section \<open>Setting up\<close>

text \<open>One entry of the BIOS drive table, 16 bytes.\<close>

definition bios_info :: "u8 list \<Rightarrow> nat \<Rightarrow> hd_i_struct" where
  "bios_info b off =
     \<lparr>hdi_head = ucast (b ! (off + 2)), hdi_sect = ucast (b ! (off + 14)), hdi_cyl = ucast (le16 b off),
      hdi_wpcom = ucast (le16 b (off + 5)), hdi_lzone = ucast (le16 b (off + 12)), hdi_ctl = ucast (b ! (off + 8))\<rparr>"

text \<open>The partition table of a drive: four entries of 16 bytes from 0x1BE on.\<close>

definition partition :: "u8 list \<Rightarrow> nat \<Rightarrow> hd_struct" where
  "partition data i =
     (let off = 0x1BE + 16 * (i - 1) in
      \<lparr>start_sect = le_word data (off + 8), nr_sects = le_word data (off + 12)\<rparr>)"

definition read_partitions :: "'z hd_state_scheme ctx \<Rightarrow> nat \<Rightarrow> (unit, 'z hd_state_scheme) kern" where
  "read_partitions K drive =
     kbind (bread K (0x300 + of_nat (drive * 5)) 0) (\<lambda>bh.
     case bh of
       None \<Rightarrow> kseq (printk ''Unable to read partition table of drive %d'' [int drive]) (kpanic '''')
     | Some bh \<Rightarrow>
         kbind (gets (\<lambda>s. b_data (buf s bh))) (\<lambda>data.
         if data ! 510 \<noteq> 0x55 \<or> data ! 511 \<noteq> 0xAA then
           kseq (printk ''Bad partition table on drive %d'' [int drive]) (kpanic '''')
         else kseq (kfor [1..<5] (\<lambda>i. modify (\<lambda>s. s\<lparr>hd := (hd s)[i + 5 * drive := partition data i]\<rparr>)))
                   (brelse (Some bh))))"

text \<open>\<open>rd_load\<close>: the image on the root floppy is copied into the ram disk.\<close>

primrec rd_load_loop ::
  "nat \<Rightarrow> 'z fs_state_scheme ctx \<Rightarrow> u32 \<Rightarrow> u32 \<Rightarrow> int \<Rightarrow> (bool, 'z fs_state_scheme) kern" where
  "rd_load_loop 0 K block cp i = ret True"
| "rd_load_loop (Suc nblocks) K block cp i =
     kbind (gets ROOT_DEV) (\<lambda>root.
     kbind (if Suc nblocks > 2 then breada K root block [block + 1, block + 2]
            else bread K root block) (\<lambda>bh.
     case bh of
       None \<Rightarrow> kseq (printk ''I/O error on block %d, aborting load'' [uint block]) (ret False)
     | Some bh \<Rightarrow>
         kseq (modify (\<lambda>s. s\<lparr>rd_bytes := rd_copy_out cp (take 1024 (b_data (buf s bh))) (rd_bytes s)\<rparr>))
        (kseq (brelse (Some bh))
        (kseq (printk ''%4dk'' [i])
              (rd_load_loop nblocks K (block + 1) (cp + 1024) (i + 1))))))"

definition rd_load :: "'z fs_state_scheme ctx \<Rightarrow> (unit, 'z fs_state_scheme) kern" where
  "rd_load K =
     kbind (gets (\<lambda>s. (rd_length s, rd_start s, ROOT_DEV s))) (\<lambda>(len, start, root).
     if len = 0 then skip
     else kseq (printk ''Ram disk: %d bytes, starting at 0x%x'' [len, uint start])
      (if MAJOR root \<noteq> 2 then skip
       else kbind (breada K root 257 [256, 258]) (\<lambda>bh.
         case bh of
           None \<Rightarrow> printk ''Disk error while looking for ramdisk!'' []
         | Some bh \<Rightarrow>
             kbind (gets (\<lambda>s. b_data (buf s bh))) (\<lambda>data.
             kseq (brelse (Some bh))
            (if le16 data 16 \<noteq> 0x137F then skip
             else let nblocks = push_bit (unat (le16 data 10)) (uint (le16 data 2)) in
               if nblocks > len div 1024 then
                 printk ''Ram disk image too big!  (%d blocks, %d avail)'' [nblocks, len div 1024]
               else kseq (printk ''Loading %d bytes into ram disk... 0000k'' [nblocks * 1024])
                   (kbind (rd_load_loop (nat nblocks) K 256 start 1) (\<lambda>done.
                    kwhen done
                      (kseq (printk ''done'' []) (modify (\<lambda>s. s\<lparr>ROOT_DEV := 0x0101\<rparr>))))))))))"

definition sys_setup ::
  "'z hd_state_scheme ctx \<Rightarrow> (unit, 'z hd_state_scheme) kern \<Rightarrow> u8 list \<Rightarrow> (int, 'z hd_state_scheme) kern" where
  "sys_setup K wait_for_keypress BIOS =
     kbind (gets callable) (\<lambda>first.
     if \<not> first then ret (- 1)
     else kseq (modify (\<lambda>s. s\<lparr>callable := False, hd_info := [bios_info BIOS 0, bios_info BIOS 16]\<rparr>))
         (kseq (modify (\<lambda>s. s\<lparr>NR_HD := (if hdi_cyl (hd_info s ! 1) \<noteq> 0 then 2 else 1)\<rparr>))
         (kseq (modify (\<lambda>s. s\<lparr>hd := fold (\<lambda>i h. h[i * 5 :=
                  \<lparr>start_sect = 0, nr_sects = hdi_head (hd_info s ! i) * hdi_sect (hd_info s ! i) * hdi_cyl (hd_info s ! i)\<rparr>])
                  [0..<NR_HD s] (hd s)\<rparr>))
         (kseq (outb (0x80 OR 0x12) 0x70)
         (kbind (inb_dev 0x71) (\<lambda>cmos_disks.
          let n = (if cmos_disks AND 0xf0 \<noteq> 0 then if cmos_disks AND 0x0f \<noteq> 0 then 2 else 1 else 0) in
          kseq (modify (\<lambda>s. s\<lparr>NR_HD := n,
                  hd := fold (\<lambda>i h. h[i * 5 := \<lparr>start_sect = 0, nr_sects = 0\<rparr>]) [n..<2] (hd s)\<rparr>))
         (kseq (kfor [0..<n] (read_partitions K))
         (kseq (kwhen (n \<noteq> 0) (printk (if n > 1 then ''Partition tables ok.'' else ''Partition table ok.'') []))
         (kseq (rd_load K)
         (kseq (mount_root K wait_for_keypress)
               (ret 0)))))))))))"

section \<open>Reading and writing a block\<close>

text \<open>The state in which the driver finds a block request at the head of its list, as \<open>make_request\<close>
  has filled it in: two sectors for the buffer \<open>i\<close>, which is locked.\<close>

definition hd_serving :: "nat \<Rightarrow> nat \<Rightarrow> 'z hd_state_scheme \<Rightarrow> bool" where
  "hd_serving c i s \<longleftrightarrow>
     CURRENT 3 s = Some c \<and> c < length (request s) \<and> 3 < length (blk_dev s) \<and> i < length (bufs s) \<and>
     b_lock (buf s i) \<noteq> 0 \<and> length (b_data (buf s i)) = 1024 \<and>
     (let r = request s ! c in r_bh r = Some i \<and> r_buffer r = Some i \<and> r_off r = 0 \<and> r_nr_sectors r = 2 \<and>
        0x300 \<le> r_dev r \<and> r_dev r < 0x400)"

text \<open>A status with which \<open>win_result\<close> is content.\<close>

definition win_ok :: "u8 \<Rightarrow> bool" where
  "win_ok v \<longleftrightarrow> v AND 0xF1 = 0x50"

lemma win_result_ok:
  assumes "win_ok (io_in s (io_count s) HD_STATUS)"
  shows "win_result s es = Ok False (s\<lparr>io_count := Suc (io_count s)\<rparr>) es"
  using assms by (simp add: win_result_def win_ok_def inb_dev_def kern_defs)

lemma controller_ready_run:
  assumes "io_in s (io_count s) HD_STATUS AND 0x80 = 0"
  shows "controller_ready s es = Ok 99999 (s\<lparr>io_count := Suc (io_count s)\<rparr>) es"
proof -
  have "ready_loop (Suc 99998) s es = Ok 99999 (s\<lparr>io_count := Suc (io_count s)\<rparr>) es"
    using assms unfolding ready_loop.simps by (simp add: inb_dev_def kern_defs)
  then show ?thesis by (simp add: controller_ready_def)
qed

lemma kfor_outb: "kfor xs (\<lambda>(port, v). outb v port) s es = Ok () (s\<lparr>port_out := port_out s @ xs\<rparr>) es"
  by (induction xs arbitrary: s) (simp_all add: outb_def kern_defs split_beta)

lemma hd_out_run:
  assumes "io_in s (io_count s) HD_STATUS AND 0x80 = 0" and "drive \<le> 1" and "head \<le> 15"
  shows "hd_out drive nsect sect head cyl cmd h s es =
    Ok () (s\<lparr>io_count := Suc (io_count s), do_hd := Some h,
      port_out := port_out s @ task_file (hd_info s ! unat drive) drive nsect sect head cyl cmd\<rparr>) es"
proof -
  have "\<not> (drive > 1 \<or> head > 15)" using assms(2,3) by auto
  then show ?thesis
    using assms(1)
    by (simp add: hd_out_def controller_ready_run kbind_def kseq_def modify_def gets_def kfor_outb)
qed

text \<open>A read interrupt in the middle of a request.\<close>

definition hd_got :: "nat \<Rightarrow> nat \<Rightarrow> u8 list \<Rightarrow> 'z hd_state_scheme \<Rightarrow> 'z hd_state_scheme" where
  "hd_got c i d s =
     s\<lparr>io_count := Suc (io_count s), data_in := tl (data_in s),
       bufs := upd_nth i (\<lambda>b. b\<lparr>b_data := overlay (r_off (request s ! c)) d (b_data b)\<rparr>) (bufs s),
       request := upd_nth c (\<lambda>r. r\<lparr>r_errors := 0, r_sector := r_sector r + 1, r_off := r_off r + 512,
         r_nr_sectors := r_nr_sectors r - 1\<rparr>) (request s)\<rparr>"

lemma read_intr_run:
  assumes "win_ok (io_in s (io_count s) HD_STATUS)" and "CURRENT 3 s = Some c" and "c < length (request s)"
    and "r_buffer (request s ! c) = Some i" and "data_in s = d # ds"
  shows "read_intr fuel s es =
    (if r_nr_sectors (request s ! c) \<noteq> 1 then Ok () (hd_got c i d s\<lparr>do_hd := Some Read_intr\<rparr>) es
     else kseq (hd_end_request 1) (do_hd_request fuel) (hd_got c i d s) es)"
  using assms
  by (simp add: read_intr_def kbind_def win_result_ok port_read_def cur_req_def gets_def ret_def kseq_def modify_def
      next_sector_def upd_req_def upd_buf_def hd_got_def CURRENT_def comp_def)

lemma hd_end_request_run:
  assumes "CURRENT 3 s = Some c" and "r_bh (request s ! c) = Some i" and "i < length (bufs s)" and "3 < length (blk_dev s)"
    and "c < length (request s)"
  shows "\<exists>t. hd_end_request u s es = Ok () t es \<and> port_out t = port_out s \<and> data_in t = data_in s \<and> data_out t = data_out s \<and>
    CURRENT 3 t = r_next (request s ! c) \<and> b_uptodate (buf t i) = u \<and> b_lock (buf t i) = 0 \<and>
    b_data (buf t i) = b_data (buf s i) \<and> r_dev (request t ! c) = - 1"
  using assms
  by (auto simp: hd_end_request_def end_request_def drv_unlock_buffer_def printk_def wake_up_last_def kern_defs CURRENT_def
     buf_def upd_buf_def upd_req_def upd_task_def bwait_queue_def rwait_queue_def request_queue_def nth_upd_nth)

text \<open>Cylinder, head and sector name one sector of the disk.\<close>

lemma chs_place:
  assumes "chs info block = (cyl, head, sec)" and "hdi_sect info \<noteq> 0" and "hdi_head info \<noteq> 0"
  shows "1 \<le> unat sec \<and> unat sec \<le> unat (hdi_sect info) \<and> unat head < unat (hdi_head info) \<and>
    (unat cyl * unat (hdi_head info) + unat head) * unat (hdi_sect info) + (unat sec - 1) = unat block"
proof -
  let ?S = "hdi_sect info" and ?H = "hdi_head info"
  have S: "0 < unat ?S" and H: "0 < unat ?H" using assms(2,3) by (simp_all add: unat_gt_0)
  have m: "unat (block mod ?S) < unat ?S" using S by (simp add: unat_mod)
  have sec: "unat sec = unat block mod unat ?S + 1"
  proof -
    have "block mod ?S < ?S" using m by (simp add: word_less_nat_alt)
    then have "1 + block mod ?S \<noteq> 0"
      by (metis add_eq_0_iff word_order.extremum_strict)
    then have "unat (1 + block mod ?S) = Suc (unat (block mod ?S))" by (rule unatSuc)
    then have "unat sec = Suc (unat (block mod ?S))" using assms(1) by (simp add: chs_def Let_def add.commute)
    then show ?thesis by (simp add: unat_mod)
  qed
  have cyl: "unat cyl = unat block div unat ?S div unat ?H" and head: "unat head = unat block div unat ?S mod unat ?H"
    using assms(1) by (auto simp: chs_def Let_def unat_div unat_mod)
  have "(unat cyl * unat ?H + unat head) * unat ?S + (unat sec - 1) = unat block" by (simp add: cyl head sec)
  then show ?thesis using sec head S H m by (simp add: unat_mod Suc_le_eq)
qed

lemma hd_serving_init:
  assumes "hd_serving c i s"
  shows "INIT_REQUEST ''harddisk'' 3 s es = Ok (Some c) s es"
proof -
  let ?d = "r_dev (request s ! c)"
  have d: "?d div 256 = 3" using assms by (simp add: hd_serving_def Let_def) linarith
  have "MAJOR (word_of_int ?d) = 3"
  proof -
    have "?d mod 65536 = ?d" using assms by (simp add: hd_serving_def Let_def)
    then have "uint (drop_bit 8 (word_of_int ?d :: u16)) = 3"
      using d drop_bit_eq_div [of 8 ?d] by (simp add: uint_word_of_int unsigned_drop_bit_eq take_bit_eq_mod)
    then show ?thesis by (simp add: MAJOR_def flip: nat_uint_eq)
  qed
  then show ?thesis using assms by (simp add: INIT_REQUEST_def kern_defs hd_serving_def Let_def)
qed

lemma overlay_halves:
  assumes "length d1 = 512" and "length d2 = 512" and "length bs = 1024"
  shows "overlay 512 d2 (overlay 0 d1 bs) = d1 @ d2"
  using assms by (simp add: overlay_def)

text \<open>What the driver sends to the controller to start the request: the place of the sector with which it begins.\<close>

definition hd_place :: "nat \<Rightarrow> 'z hd_state_scheme \<Rightarrow> nat \<times> hd_i_struct \<times> u32" where
  "hd_place c s = (let r = request s ! c; dev = MINOR (word_of_int (r_dev r)) in
     (dev div 5, hd_info s ! (dev div 5), r_sector r + start_sect (hd s ! dev)))"

definition hd_idle :: "nat \<Rightarrow> 'z hd_state_scheme \<Rightarrow> bool" where
  "hd_idle c s \<longleftrightarrow> (let r = request s ! c; dev = MINOR (word_of_int (r_dev r)); info = hd_info s ! (dev div 5) in
     \<not> hd_bad_block (r_sector r) dev s \<and> NR_HD s \<le> 2 \<and> \<not> hd_reset s \<and> \<not> hd_recalibrate s \<and>
     hdi_sect info \<noteq> 0 \<and> hdi_head info \<noteq> 0 \<and> hdi_head info \<le> 16 \<and>
     io_in s (io_count s) HD_STATUS AND 0x80 = 0)"

lemma do_hd_request_starts:
  assumes "hd_serving c i s" and "hd_idle c s" and "hd_place c s = (drive, info, block)"
    and "chs info block = (cyl, head, sec)"
    and "s1 = s\<lparr>io_count := Suc (io_count s), do_hd := Some h,
      port_out := port_out s @ task_file info (of_nat drive) 2 sec head cyl cmd\<rparr>"
  shows "r_cmd (request s ! c) = READ \<Longrightarrow> cmd = WIN_READ \<Longrightarrow> h = Read_intr \<Longrightarrow>
      do_hd_request (Suc fuel) s es = Ok () s1 es"
    and "r_cmd (request s ! c) = WRITE \<Longrightarrow> cmd = WIN_WRITE \<Longrightarrow> h = Write_intr \<Longrightarrow>
      do_hd_request (Suc fuel) s es = kbind (drq_loop 3000) (\<lambda>ready.
        if \<not> ready then kseq bad_rw_intr (do_hd_request fuel) else port_write) s1 es"
proof -
  let ?r = "request s ! c" and ?dev = "MINOR (word_of_int (r_dev (request s ! c)))"
  have place: "drive = ?dev div 5" "info = hd_info s ! drive" "block = r_sector ?r + start_sect (hd s ! ?dev)"
    using assms(3) by (auto simp: hd_place_def Let_def)
  have idle: "\<not> hd_bad_block (r_sector ?r) ?dev s" "NR_HD s \<le> 2" "\<not> hd_reset s" "\<not> hd_recalibrate s"
    "hdi_sect info \<noteq> 0" "hdi_head info \<noteq> 0" "hdi_head info \<le> 16"
    and ready: "io_in s (io_count s) HD_STATUS AND 0x80 = 0"
    using assms(2) place by (auto simp: hd_idle_def Let_def)
  have "drive < 2" using idle(1,2) place(1) by (auto simp: hd_bad_block_def)
  then have drive: "unat (of_nat drive :: u32) = drive" "(of_nat drive :: u32) \<le> 1"
    by (auto simp: less_2_cases_iff)
  have "unat head < unat (hdi_head info)" using chs_place [OF assms(4) idle(5,6)] by blast
  then have head: "head \<le> 15" using idle(7) by (simp add: word_le_nat_alt)
  have n: "r_nr_sectors ?r = 2" using assms(1) by (simp add: hd_serving_def Let_def)
  note out = hd_out_run [OF ready drive(2) head, unfolded drive(1) place(2) [symmetric]]
  show "do_hd_request (Suc fuel) s es = Ok () s1 es"
    if "r_cmd ?r = READ" "cmd = WIN_READ" "h = Read_intr"
    using that idle assms(4) n hd_serving_init [OF assms(1)] out unfolding assms(5)
    by (simp add: kbind_def gets_def Let_def place(1) [symmetric] place(2) [symmetric] place(3) [symmetric])
  show "do_hd_request (Suc fuel) s es = kbind (drq_loop 3000) (\<lambda>ready.
        if \<not> ready then kseq bad_rw_intr (do_hd_request fuel) else port_write) s1 es"
    if "r_cmd ?r = WRITE" "cmd = WIN_WRITE" "h = Write_intr"
    using that idle assms(4) n hd_serving_init [OF assms(1)] out unfolding assms(5)
    by (simp add: kbind_def kseq_def gets_def Let_def place(1) [symmetric] place(2) [symmetric] place(3) [symmetric])
qed


text \<open>C27: reading a block from the hard disk. The command the driver sends names, by cylinder, head and
  sector, the place of the request's first sector; after two interrupts with a good status the buffer holds the
  two sectors the controller has delivered, in order, is marked valid and unlocked, the request's entry is
  free, and the driver goes on with the next request.\<close>

theorem hd_read_block:
  assumes "hd_serving c i s" and "hd_idle c s" and "hd_place c s = (drive, info, block)"
    and "chs info block = (cyl, head, sec)" and "r_cmd (request s ! c) = READ"
    and "data_in s = d1 # d2 # ds" and "length d1 = 512" and "length d2 = 512"
    and "win_ok (io_in s (io_count s + 1) HD_STATUS)" and "win_ok (io_in s (io_count s + 2) HD_STATUS)"
  shows "(unat cyl * unat (hdi_head info) + unat head) * unat (hdi_sect info) + (unat sec - 1) = unat block \<and>
    unat head < unat (hdi_head info) \<and> 1 \<le> unat sec \<and> unat sec \<le> unat (hdi_sect info) \<and>
    (\<exists>t. kseq (do_hd_request (Suc n)) (kseq (read_intr fuel) (read_intr fuel)) s es = do_hd_request fuel t es \<and>
      port_out t = port_out s @ task_file info (of_nat drive) 2 sec head cyl WIN_READ \<and>
      b_data (buf t i) = d1 @ d2 \<and> b_uptodate (buf t i) = 1 \<and> b_lock (buf t i) = 0 \<and>
      CURRENT 3 t = r_next (request s ! c) \<and> r_dev (request t ! c) = - 1 \<and> data_in t = ds)"
proof -
  define s1 where "s1 = s\<lparr>io_count := Suc (io_count s), do_hd := Some Read_intr,
      port_out := port_out s @ task_file info (of_nat drive) 2 sec head cyl WIN_READ\<rparr>"
  define s2 where "s2 = hd_got c i d1 s1\<lparr>do_hd := Some Read_intr\<rparr>"
  define s3 where "s3 = hd_got c i d2 s2"
  have serving: "CURRENT 3 s = Some c" "c < length (request s)" "3 < length (blk_dev s)" "i < length (bufs s)"
    "r_buffer (request s ! c) = Some i" "r_bh (request s ! c) = Some i" "r_nr_sectors (request s ! c) = 2"
    "r_off (request s ! c) = 0" "length (b_data (bufs s ! i)) = 1024"
    using assms(1) by (auto simp: hd_serving_def Let_def buf_def)
  have "do_hd_request (Suc n) s es = Ok () s1 es"
    by (rule do_hd_request_starts(1) [OF assms(1-4) s1_def assms(5)]) simp_all
  moreover have "read_intr fuel s1 es = Ok () s2 es"
    using assms(6,9) serving by (subst read_intr_run [of s1 c i d1 "d2 # ds"]) (auto simp: s1_def s2_def CURRENT_def)
  moreover have "read_intr fuel s2 es = kseq (hd_end_request 1) (do_hd_request fuel) s3 es"
    using assms(6,10) serving
    by (subst read_intr_run [of s2 c i d2 ds]) (auto simp: s1_def s2_def s3_def hd_got_def CURRENT_def numeral_2_eq_2)
  moreover have s3: "CURRENT 3 s3 = Some c" "r_bh (request s3 ! c) = Some i" "i < length (bufs s3)" "3 < length (blk_dev s3)"
    "c < length (request s3)" "r_next (request s3 ! c) = r_next (request s ! c)"
    "b_data (buf s3 i) = d1 @ d2" "data_in s3 = ds"
    "port_out s3 = port_out s @ task_file info (of_nat drive) 2 sec head cyl WIN_READ"
    using serving assms(6-8)
    by (auto simp: s1_def s2_def s3_def hd_got_def CURRENT_def buf_def overlay_halves)
  moreover obtain t where "hd_end_request 1 s3 es = Ok () t es" "port_out t = port_out s3" "data_in t = data_in s3"
    "CURRENT 3 t = r_next (request s3 ! c)" "b_uptodate (buf t i) = 1" "b_lock (buf t i) = 0"
    "b_data (buf t i) = b_data (buf s3 i)" "r_dev (request t ! c) = - 1"
    using hd_end_request_run [OF s3(1-5), of 1 es] by blast
  ultimately show ?thesis
    using chs_place [OF assms(4)] assms(2,3)
    by (auto simp: kseq_def kbind_def hd_idle_def hd_place_def Let_def intro!: exI [of _ t])
qed


lemma drq_loop_run:
  assumes "k < n" and "io_in s (io_count s + k) HD_STATUS AND DRQ_STAT \<noteq> 0"
    and "\<And>j. j < k \<Longrightarrow> io_in s (io_count s + j) HD_STATUS AND DRQ_STAT = 0"
  shows "drq_loop n s es = Ok True (s\<lparr>io_count := Suc (io_count s + k)\<rparr>) es"
  using assms
proof (induction n arbitrary: k s)
  case (Suc n)
  show ?case
  proof (cases k)
    case 0
    then show ?thesis using Suc.prems by (simp add: inb_dev_def kern_defs)
  next
    case (Suc m)
    let ?t = "s\<lparr>io_count := Suc (io_count s)\<rparr>"
    have "drq_loop n ?t es = Ok True (?t\<lparr>io_count := Suc (io_count ?t + m)\<rparr>) es"
      using Suc.prems(1,2) Suc Suc.prems(3) [of "Suc _"] by (intro Suc.IH) auto
    then show ?thesis using Suc.prems(3) [of 0] Suc by (simp add: inb_dev_def kern_defs)
  qed
qed simp

lemma write_intr_run:
  assumes "win_ok (io_in s (io_count s) HD_STATUS)" and "CURRENT 3 s = Some c" and "c < length (request s)"
    and "r_buffer (request s ! c) = Some i"
  shows "r_nr_sectors (request s ! c) = 2 \<Longrightarrow> r_off (request s ! c) = 0 \<Longrightarrow> length (b_data (bufs s ! i)) = 1024 \<Longrightarrow>
      write_intr fuel s es = Ok () (s\<lparr>io_count := Suc (io_count s),
        request := upd_nth c (\<lambda>r. r\<lparr>r_nr_sectors := 1, r_sector := r_sector r + 1, r_off := r_off r + 512\<rparr>) (request s),
        do_hd := Some Write_intr, data_out := data_out s @ [drop 512 (b_data (bufs s ! i))]\<rparr>) es"
    and "r_nr_sectors (request s ! c) = 1 \<Longrightarrow>
      write_intr fuel s es = kseq (hd_end_request 1) (do_hd_request fuel) (s\<lparr>io_count := Suc (io_count s),
        request := upd_nth c (\<lambda>r. r\<lparr>r_nr_sectors := 0\<rparr>) (request s)\<rparr>) es"
  using assms
  by (simp_all add: write_intr_def kbind_def win_result_ok port_write_def cur_req_def gets_def ret_def kseq_def modify_def
      next_sector_def upd_req_def CURRENT_def comp_def buf_def upd_nth_def)

text \<open>C28: writing a block to the hard disk. The command names the place of the request's first sector; however many
  of its 3000 polls the driver needs until the controller asks for data, the two halves of the buffer
  are delivered in order, each once, and the buffer then ends up valid, unlocked and unchanged.\<close>

theorem hd_write_block:
  assumes "hd_serving c i s" and "hd_idle c s" and "hd_place c s = (drive, info, block)"
    and "chs info block = (cyl, head, sec)" and "r_cmd (request s ! c) = WRITE"
    and "k < 3000" and "io_in s (io_count s + 1 + k) HD_STATUS AND DRQ_STAT \<noteq> 0"
    and "\<forall>j < k. io_in s (io_count s + 1 + j) HD_STATUS AND DRQ_STAT = 0"
    and "win_ok (io_in s (io_count s + k + 2) HD_STATUS)" and "win_ok (io_in s (io_count s + k + 3) HD_STATUS)"
  shows "\<exists>t. kseq (do_hd_request (Suc n)) (kseq (write_intr fuel) (write_intr fuel)) s es = do_hd_request fuel t es \<and>
      port_out t = port_out s @ task_file info (of_nat drive) 2 sec head cyl WIN_WRITE \<and>
      data_out t = data_out s @ [take 512 (b_data (buf s i)), drop 512 (b_data (buf s i))] \<and>
      b_data (buf t i) = b_data (buf s i) \<and> b_uptodate (buf t i) = 1 \<and> b_lock (buf t i) = 0 \<and>
      CURRENT 3 t = r_next (request s ! c) \<and> r_dev (request t ! c) = - 1"
proof -
  let ?D = "b_data (bufs s ! i)"
  define s0 where "s0 = s\<lparr>io_count := Suc (io_count s), do_hd := Some Write_intr,
      port_out := port_out s @ task_file info (of_nat drive) 2 sec head cyl WIN_WRITE\<rparr>"
  define s1 where "s1 = s0\<lparr>io_count := Suc (io_count s0 + k), data_out := data_out s @ [take 512 ?D]\<rparr>"
  define s2 where "s2 = s1\<lparr>io_count := Suc (io_count s1),
        request := upd_nth c (\<lambda>r. r\<lparr>r_nr_sectors := 1, r_sector := r_sector r + 1, r_off := r_off r + 512\<rparr>) (request s1),
        do_hd := Some Write_intr, data_out := data_out s1 @ [drop 512 (b_data (bufs s1 ! i))]\<rparr>"
  define s3 where "s3 = s2\<lparr>io_count := Suc (io_count s2), request := upd_nth c (\<lambda>r. r\<lparr>r_nr_sectors := 0\<rparr>) (request s2)\<rparr>"
  have serving: "CURRENT 3 s = Some c" "c < length (request s)" "3 < length (blk_dev s)" "i < length (bufs s)"
    "r_buffer (request s ! c) = Some i" "r_bh (request s ! c) = Some i" "r_nr_sectors (request s ! c) = 2"
    "r_off (request s ! c) = 0" "length ?D = 1024"
    using assms(1) by (auto simp: hd_serving_def Let_def buf_def)
  have "drq_loop 3000 s0 es = Ok True (s0\<lparr>io_count := Suc (io_count s0 + k)\<rparr>) es"
    using assms(6-8) by (intro drq_loop_run) (auto simp: s0_def)
  then have "do_hd_request (Suc n) s es = Ok () s1 es"
    using do_hd_request_starts(2) [OF assms(1-4) s0_def assms(5), of n es] serving
    by (simp add: kbind_def port_write_def cur_req_def gets_def ret_def modify_def s0_def s1_def buf_def CURRENT_def)
  moreover have "write_intr fuel s1 es = Ok () s2 es"
    unfolding s2_def using assms(9) serving
    by (intro write_intr_run(1)) (auto simp: s0_def s1_def CURRENT_def numeral_2_eq_2)
  moreover have "write_intr fuel s2 es = kseq (hd_end_request 1) (do_hd_request fuel) s3 es"
    unfolding s3_def using assms(10) serving
    by (intro write_intr_run(2)) (auto simp: s0_def s1_def s2_def CURRENT_def numeral_3_eq_3)
  moreover have s3: "CURRENT 3 s3 = Some c" "r_bh (request s3 ! c) = Some i" "i < length (bufs s3)" "3 < length (blk_dev s3)"
    "c < length (request s3)" "r_next (request s3 ! c) = r_next (request s ! c)"
    "b_data (buf s3 i) = ?D" "data_out s3 = data_out s @ [take 512 ?D, drop 512 ?D]"
    "port_out s3 = port_out s @ task_file info (of_nat drive) 2 sec head cyl WIN_WRITE"
    using serving by (auto simp: s0_def s1_def s2_def s3_def CURRENT_def buf_def)
  moreover obtain t where "hd_end_request 1 s3 es = Ok () t es" "port_out t = port_out s3" "data_out t = data_out s3"
    "CURRENT 3 t = r_next (request s3 ! c)" "b_uptodate (buf t i) = 1" "b_lock (buf t i) = 0"
    "b_data (buf t i) = b_data (buf s3 i)" "r_dev (request t ! c) = - 1"
    using hd_end_request_run [OF s3(1-5), of 1 es] by blast
  ultimately show ?thesis
    by (auto simp: kseq_def kbind_def buf_def intro!: exI [of _ t])
qed

text \<open>C38: the seventh failure of the last request in the list. The request is ended with an error and taken off
  the list, and then \<open>bad_rw_intr\<close> looks at the error count of a request that does not exist.\<close>

theorem bad_rw_intr_last:
  assumes "hd_serving c i s" and "r_next (request s ! c) = None" and "6 \<le> r_errors (request s ! c)"
  shows "\<exists>t. bad_rw_intr s es = Fault t \<and> CURRENT 3 t = None \<and> r_dev (request t ! c) = - 1 \<and>
    b_uptodate (buf t i) = 0 \<and> b_lock (buf t i) = 0"
proof -
  define s1 where "s1 = upd_req c (\<lambda>r. r\<lparr>r_errors := r_errors r + 1\<rparr>) s"
  have serving: "CURRENT 3 s = Some c" "c < length (request s)" using assms(1) by (auto simp: hd_serving_def)
  have s1: "CURRENT 3 s1 = Some c" "r_bh (request s1 ! c) = Some i" "i < length (bufs s1)" "3 < length (blk_dev s1)"
    "c < length (request s1)" "r_next (request s1 ! c) = None" "7 \<le> r_errors (request s1 ! c)"
    using assms by (auto simp: s1_def upd_req_def hd_serving_def Let_def CURRENT_def)
  then obtain t where "hd_end_request 0 s1 es = Ok () t es" "CURRENT 3 t = None" "b_uptodate (buf t i) = 0"
    "b_lock (buf t i) = 0" "r_dev (request t ! c) = - 1"
    using hd_end_request_run [OF s1(1-5), of 0 es] by auto
  then show ?thesis
    using serving s1 unfolding s1_def
    by (auto simp: bad_rw_intr_def cur_req_def kern_defs intro!: exI [of _ t])
qed


text \<open>A drive of 4 heads and 17 sectors, a partition that starts at its sector 17, and a request for the
  partition's sectors 100 and 101.\<close>

definition hd_demo :: "int \<Rightarrow> hd_state" where
  "hd_demo cmd = io_state.extend (fs_state.extend (blk_state.extend
     (blk_demo\<lparr>
       bufs := [\<lparr>b_data = replicate 1024 7, b_blocknr = 50, b_dev = 0x301, b_uptodate = 0, b_dirt = 0,
         b_count = 1, b_lock = 1, b_wait = 0, b_prev = None, b_next = None, b_prev_free = None, b_next_free = None\<rparr>],
       request := [\<lparr>r_dev = 0x301, r_cmd = cmd, r_errors = 6, r_sector = 100, r_nr_sectors = 2,
         r_buffer = Some 0, r_off = 0, r_waiting = 0, r_bh = Some 0, r_next = None\<rparr>],
       blk_dev := (replicate 7 \<lparr>request_fn = None, current_request = None\<rparr>)
         [3 := \<lparr>request_fn = Some 1, current_request = Some 0\<rparr>]\<rparr>)
     (fs_state.fields [] 0 [] [] 0)) (io_state.fields (\<lambda>_ _. 0x58) 0 [replicate 512 1, replicate 512 2] []))
     (hd_state.fields False False [\<lparr>hdi_head = 4, hdi_sect = 17, hdi_cyl = 306, hdi_wpcom = 0, hdi_lzone = 0, hdi_ctl = 0\<rparr>] 1
        [\<lparr>start_sect = 0, nr_sects = 20808\<rparr>, \<lparr>start_sect = 17, nr_sects = 20000\<rparr>] False None)"


lemmas hd_demo_defs = hd_demo_def blk_state.defs fs_state.defs io_state.defs hd_state.defs

lemma hd_demo_ready:
  "hd_serving 0 0 (hd_demo cmd)" "hd_idle 0 (hd_demo cmd)" "r_cmd (request (hd_demo cmd) ! 0) = cmd"
  "r_next (request (hd_demo cmd) ! 0) = None" "r_errors (request (hd_demo cmd) ! 0) = 6"
  "io_in (hd_demo cmd) n p = 0x58" "data_in (hd_demo cmd) = [replicate 512 1, replicate 512 2]"
  "b_data (buf (hd_demo cmd) 0) = replicate 1024 7" "data_out (hd_demo cmd) = []"
  "hd_place 0 (hd_demo cmd) = (0, \<lparr>hdi_head = 4, hdi_sect = 17, hdi_cyl = 306, hdi_wpcom = 0, hdi_lzone = 0, hdi_ctl = 0\<rparr>, 117)"
  by (simp_all add: hd_demo_defs hd_serving_def hd_idle_def hd_place_def hd_bad_block_def Let_def CURRENT_def buf_def MINOR_def)

theorem hd_read_block_witness:
  "\<exists>t. kseq (do_hd_request 1) (kseq (read_intr 1) (read_intr 1)) (hd_demo READ) [] = do_hd_request 1 t [] \<and>
     b_data (buf t 0) = replicate 512 1 @ replicate 512 2"
  using hd_read_block [of 0 0 "hd_demo READ" 0 "\<lparr>hdi_head = 4, hdi_sect = 17, hdi_cyl = 306, hdi_wpcom = 0, hdi_lzone = 0, hdi_ctl = 0\<rparr>"
      117 1 2 16 "replicate 512 1" "replicate 512 2" "[]" 0 1 "[]"]
  by (auto simp: hd_demo_ready chs_def win_ok_def)

theorem hd_write_block_witness:
  "\<exists>t. kseq (do_hd_request 1) (kseq (write_intr 1) (write_intr 1)) (hd_demo WRITE) [] = do_hd_request 1 t [] \<and>
     data_out t = [replicate 512 7, replicate 512 7]"
  using hd_write_block [of 0 0 "hd_demo WRITE" 0 "\<lparr>hdi_head = 4, hdi_sect = 17, hdi_cyl = 306, hdi_wpcom = 0, hdi_lzone = 0, hdi_ctl = 0\<rparr>"
      117 1 2 16 0 0 1 "[]"]
  by (auto simp: hd_demo_ready chs_def win_ok_def)

theorem bad_rw_intr_last_witness: "\<exists>t. bad_rw_intr (hd_demo READ) [] = Fault t \<and> CURRENT 3 t = None"
  using bad_rw_intr_last [of 0 0 "hd_demo READ" "[]"] by (auto simp: hd_demo_ready)

end
