(* ===== verification/Floppy.thy ===== *)
theory Floppy
  imports Hd
begin

unbundle bit_operations_syntax

text \<open>
  The floppy driver, \<^verbatim>\<open>kernel/blk_drv/floppy.c\<close>; \<open>floppy_deselect\<close> and \<open>floppy_change\<close> are with the
  block layer. The driver is a state machine driven by interrupts and timers: \<open>do_floppy\<close> is the
  handler that waits for the controller, and every path that fails comes back to
  \<open>do_fd_request\<close>. Those calls are the argument \<open>again\<close>, and \<open>do_fd_request\<close> ties the knot with fuel. The
  page below 1 MiB that the DMA controller reaches (\<open>tmp_floppy_area\<close>) is \<open>tmp_area\<close>, at the address \<open>tmp_addr\<close>, and \<open>buf_addr\<close>
  gives the address of the block of a buffer head.
\<close>

section \<open>State\<close>

datatype fd_handler = Rw_interrupt | Seek_interrupt | Recal_interrupt | Reset_interrupt

record floppy_struct =
  fl_size :: u32
  fl_sect :: u32
  fl_head :: u32
  fl_track :: u32
  fl_stretch :: u32
  fl_gap :: u8
  fl_rate :: u8
  fl_spec1 :: u8

definition fl :: "u32 \<Rightarrow> u32 \<Rightarrow> u32 \<Rightarrow> u32 \<Rightarrow> u32 \<Rightarrow> u8 \<Rightarrow> u8 \<Rightarrow> u8 \<Rightarrow> floppy_struct" where
  "fl sz sect head track stretch gap rate spec1 =
     \<lparr>fl_size = sz, fl_sect = sect, fl_head = head, fl_track = track, fl_stretch = stretch,
      fl_gap = gap, fl_rate = rate, fl_spec1 = spec1\<rparr>"

definition floppy_type :: "floppy_struct list" where
  "floppy_type =
     [fl    0  0 0  0 0 0x00 0x00 0x00,
      fl  720  9 2 40 0 0x2A 0x02 0xDF,
      fl 2400 15 2 80 0 0x1B 0x00 0xDF,
      fl  720  9 2 40 1 0x2A 0x02 0xDF,
      fl 1440  9 2 80 0 0x2A 0x02 0xDF,
      fl  720  9 2 40 1 0x23 0x01 0xDF,
      fl 1440  9 2 80 0 0x23 0x01 0xDF,
      fl 2880 18 2 80 0 0x1B 0x00 0xCF]"

record fd_state = io_state +
  fd_recalibrate :: bool
  fd_reset :: bool
  fd_seek :: bool
  reply_buffer :: "u8 list"
  cur_spec1 :: int
  cur_rate :: int
  floppy :: nat
  current_drive :: u8
  fd_sector :: u8
  fd_head :: u8
  fd_track :: u8
  seek_track :: u8
  current_track :: u8
  fd_command :: u8
  do_floppy :: "fd_handler option"
  tmp_area :: "u8 list"
  tmp_addr :: u32
  buf_addr :: "nat \<Rightarrow> u32"

abbreviation (input) FD_STATUS :: u32 where "FD_STATUS \<equiv> 0x3f4"
abbreviation (input) FD_DATA :: u32 where "FD_DATA \<equiv> 0x3f5"
abbreviation (input) FD_DCR :: u32 where "FD_DCR \<equiv> 0x3f7"
abbreviation (input) STATUS_BUSY :: u8 where "STATUS_BUSY \<equiv> 0x10"
abbreviation (input) STATUS_DIR :: u8 where "STATUS_DIR \<equiv> 0x40"
abbreviation (input) STATUS_READY :: u8 where "STATUS_READY \<equiv> 0x80"
abbreviation (input) FD_RECALIBRATE :: u8 where "FD_RECALIBRATE \<equiv> 0x07"
abbreviation (input) FD_SEEK :: u8 where "FD_SEEK \<equiv> 0x0F"
abbreviation (input) FD_READ :: u8 where "FD_READ \<equiv> 0xE6"
abbreviation (input) FD_WRITE :: u8 where "FD_WRITE \<equiv> 0xC5"
abbreviation (input) FD_SENSEI :: u8 where "FD_SENSEI \<equiv> 0x08"
abbreviation (input) FD_SPECIFY :: u8 where "FD_SPECIFY \<equiv> 0x03"
abbreviation (input) DMA_READ :: u8 where "DMA_READ \<equiv> 0x46"
abbreviation (input) DMA_WRITE :: u8 where "DMA_WRITE \<equiv> 0x4A"
abbreviation (input) FD_MAX_ERRORS :: int where "FD_MAX_ERRORS \<equiv> 8"
abbreviation (input) MAX_REPLIES :: nat where "MAX_REPLIES \<equiv> 7"

definition fd_req :: "(nat, 'z blk_state_scheme) kern" where
  "fd_req = kbind (gets (CURRENT 2)) (\<lambda>c. case c of None \<Rightarrow> kfault | Some c \<Rightarrow> ret c)"

definition fd_end_request :: "u8 \<Rightarrow> (unit, 'z blk_state_scheme) kern" where
  "fd_end_request = end_request ''floppy'' (\<lambda>dev. floppy_off (unat ((word_of_int dev :: u32) AND 3))) 2"

section \<open>Talking to the controller\<close>

definition setup_DMA :: "(unit, 'z fd_state_scheme) kern" where
  "setup_DMA =
     kbind fd_req (\<lambda>c.
     kbind (gets (\<lambda>s. (r_buffer (request s ! c), s))) (\<lambda>(b, s).
     case b of
       None \<Rightarrow> kfault
     | Some i \<Rightarrow>
         let high = (buf_addr s i \<ge> 0x100000) in
         kseq (kwhen (high \<and> fd_command s = FD_WRITE) (modify (\<lambda>s. s\<lparr>tmp_area := b_data (buf s i)\<rparr>)))
        (kbind (gets (\<lambda>s. if high then tmp_addr s else buf_addr s i)) (\<lambda>addr.
         let mode = (if fd_command s = FD_READ then DMA_READ else DMA_WRITE) in
         kfor [(10, 6), (12, mode), (11, mode), (4, ucast addr), (4, ucast (drop_bit 8 addr)),
               (0x81, ucast (drop_bit 16 addr)), (5, 0xff), (5, 3), (10, 2)]
           (\<lambda>(port, v). outb v port)))))"

primrec send_loop :: "nat \<Rightarrow> u8 \<Rightarrow> (bool, 'z io_state_scheme) kern" where
  "send_loop 0 byte = ret False"
| "send_loop (Suc n) byte =
     kbind (inb_dev FD_STATUS) (\<lambda>st.
     if st AND (STATUS_READY OR STATUS_DIR) = STATUS_READY then kseq (outb byte FD_DATA) (ret True)
     else send_loop n byte)"

definition output_byte :: "u8 \<Rightarrow> (unit, 'z fd_state_scheme) kern" where
  "output_byte byte =
     kbind (gets fd_reset) (\<lambda>r.
     if r then skip
     else kbind (send_loop 10000 byte) (\<lambda>sent.
       if sent then skip
       else kseq (modify (\<lambda>s. s\<lparr>fd_reset := True\<rparr>)) (printk ''Unable to send byte to FDC'' [])))"

text \<open>The polling loop of \<open>result\<close>: \<open>None\<close> when it gives up.\<close>

primrec result_loop :: "nat \<Rightarrow> nat \<Rightarrow> (nat option, 'z fd_state_scheme) kern" where
  "result_loop 0 i = ret None"
| "result_loop (Suc n) i =
     kbind (inb_dev FD_STATUS) (\<lambda>v.
     let status = v AND (STATUS_DIR OR STATUS_READY OR STATUS_BUSY) in
     if status = STATUS_READY then ret (Some i)
     else if status = STATUS_DIR OR STATUS_READY OR STATUS_BUSY then
       if i \<ge> MAX_REPLIES then ret None
       else kbind (inb_dev FD_DATA) (\<lambda>d.
         kseq (modify (\<lambda>s. s\<lparr>reply_buffer := (reply_buffer s)[i := d]\<rparr>)) (result_loop n (Suc i)))
     else result_loop n i)"

definition fd_result :: "(int, 'z fd_state_scheme) kern" where
  "fd_result =
     kbind (gets fd_reset) (\<lambda>r.
     if r then ret (- 1)
     else kbind (result_loop 10000 0) (\<lambda>n.
       case n of
         Some i \<Rightarrow> ret (int i)
       | None \<Rightarrow> kseq (modify (\<lambda>s. s\<lparr>fd_reset := True\<rparr>))
                     (kseq (printk ''Getstatus times out'' []) (ret (- 1)))))"

definition ST :: "nat \<Rightarrow> 'z fd_state_scheme \<Rightarrow> u8" where
  "ST k s = reply_buffer s ! k"

section \<open>Errors\<close>

text \<open>As in the hard disk driver, \<open>CURRENT\<close> is used after \<open>end_request\<close> has moved it on.\<close>

definition bad_flp_intr :: "(unit, 'z fd_state_scheme) kern" where
  "bad_flp_intr =
     kbind fd_req (\<lambda>c.
     kseq (modify (upd_req c (\<lambda>r. r\<lparr>r_errors := r_errors r + 1\<rparr>)))
    (kbind (gets (\<lambda>s. (r_errors (request s ! c), unat (current_drive s)))) (\<lambda>(e, d).
     kseq (kwhen (e > FD_MAX_ERRORS) (kseq (floppy_deselect d) (fd_end_request 0)))
    (kbind fd_req (\<lambda>c.
     kbind (gets (\<lambda>s. r_errors (request s ! c))) (\<lambda>e.
     modify (\<lambda>s. if e > cdiv FD_MAX_ERRORS 2 then s\<lparr>fd_reset := True\<rparr> else s\<lparr>fd_recalibrate := True\<rparr>)))))))"

section \<open>Transfers\<close>

definition rw_interrupt :: "(unit, 'z fd_state_scheme) kern \<Rightarrow> (unit, 'z fd_state_scheme) kern" where
  "rw_interrupt again =
     kbind fd_result (\<lambda>n.
     kbind (gets (\<lambda>s. (n \<noteq> 7 \<or> ST 0 s AND 0xf8 \<noteq> 0 \<or> ST 1 s AND 0xbf \<noteq> 0 \<or> ST 2 s AND 0x73 \<noteq> 0,
                       ST 1 s AND 0x02 \<noteq> 0, unat (current_drive s)))) (\<lambda>(bad, protected, d).
     if bad then
       kseq (if protected then
               kseq (printk ''Drive %d is write protected'' [int d])
                    (kseq (floppy_deselect d) (fd_end_request 0))
             else bad_flp_intr)
            again
     else kbind fd_req (\<lambda>c.
       kbind (gets (\<lambda>s. (r_buffer (request s ! c), s))) (\<lambda>(b, s).
       case b of
         None \<Rightarrow> kfault
       | Some i \<Rightarrow>
           kseq (kwhen (fd_command s = FD_READ \<and> buf_addr s i \<ge> 0x100000)
                  (modify (\<lambda>s. upd_buf i (\<lambda>b. b\<lparr>b_data := tmp_area s\<rparr>) s)))
          (kseq (floppy_deselect d)
          (kseq (fd_end_request 1) again))))))"

definition setup_rw_floppy :: "(unit, 'z fd_state_scheme) kern \<Rightarrow> (unit, 'z fd_state_scheme) kern" where
  "setup_rw_floppy again =
     kseq setup_DMA
    (kseq (modify (\<lambda>s. s\<lparr>do_floppy := Some Rw_interrupt\<rparr>))
    (kbind (gets (\<lambda>s. s)) (\<lambda>s.
     let f = floppy_type ! floppy s in
     kseq (kfor [fd_command s, push_bit 2 (fd_head s) OR current_drive s, fd_track s, fd_head s, fd_sector s, 2,
                 ucast (fl_sect f), fl_gap f, 0xFF] output_byte)
          (kbind (gets fd_reset) (\<lambda>r. kwhen r again)))))"

definition seek_interrupt :: "(unit, 'z fd_state_scheme) kern \<Rightarrow> (unit, 'z fd_state_scheme) kern" where
  "seek_interrupt again =
     kseq (output_byte FD_SENSEI)
    (kbind fd_result (\<lambda>n.
     kbind (gets (\<lambda>s. n \<noteq> 2 \<or> ST 0 s AND 0xF8 \<noteq> 0x20 \<or> ST 1 s \<noteq> seek_track s)) (\<lambda>bad.
     if bad then kseq bad_flp_intr again
     else kseq (modify (\<lambda>s. s\<lparr>current_track := ST 1 s\<rparr>)) (setup_rw_floppy again))))"

definition transfer :: "(unit, 'z fd_state_scheme) kern \<Rightarrow> (unit, 'z fd_state_scheme) kern" where
  "transfer again =
     kbind (gets (\<lambda>s. floppy_type ! floppy s)) (\<lambda>f.
     kbind (gets (\<lambda>s. cur_spec1 s \<noteq> uint (fl_spec1 f))) (\<lambda>spec.
     kseq (kwhen spec
            (kseq (modify (\<lambda>s. s\<lparr>cur_spec1 := uint (fl_spec1 f)\<rparr>))
                  (kfor [FD_SPECIFY, fl_spec1 f, 6] output_byte)))
    (kbind (gets (\<lambda>s. cur_rate s \<noteq> uint (fl_rate f))) (\<lambda>rate.
     kseq (kwhen rate (kseq (modify (\<lambda>s. s\<lparr>cur_rate := uint (fl_rate f)\<rparr>)) (outb (fl_rate f) FD_DCR)))
    (kbind (gets fd_reset) (\<lambda>r.
     if r then again
     else kbind (gets (\<lambda>s. s)) (\<lambda>s.
       if \<not> fd_seek s then setup_rw_floppy again
       else kseq (modify (\<lambda>s. s\<lparr>do_floppy := Some Seek_interrupt\<rparr>))
           (kseq (if seek_track s \<noteq> 0 then
                    kfor [FD_SEEK, push_bit 2 (fd_head s) OR current_drive s, seek_track s] output_byte
                  else kfor [FD_RECALIBRATE, push_bit 2 (fd_head s) OR current_drive s] output_byte)
                 (kbind (gets fd_reset) (\<lambda>r. kwhen r again))))))))))"

definition recal_interrupt :: "(unit, 'z fd_state_scheme) kern \<Rightarrow> (unit, 'z fd_state_scheme) kern" where
  "recal_interrupt again =
     kseq (output_byte FD_SENSEI)
    (kbind fd_result (\<lambda>n.
     kseq (modify (\<lambda>s. if n \<noteq> 2 \<or> ST 0 s AND 0xE0 = 0x60 then s\<lparr>fd_reset := True\<rparr> else s\<lparr>fd_recalibrate := False\<rparr>))
          again))"

definition unexpected_floppy_interrupt :: "(unit, 'z fd_state_scheme) kern" where
  "unexpected_floppy_interrupt =
     kseq (output_byte FD_SENSEI)
    (kbind fd_result (\<lambda>n.
     modify (\<lambda>s. if n \<noteq> 2 \<or> ST 0 s AND 0xE0 = 0x60 then s\<lparr>fd_reset := True\<rparr> else s\<lparr>fd_recalibrate := True\<rparr>)))"

definition recalibrate_floppy :: "(unit, 'z fd_state_scheme) kern \<Rightarrow> (unit, 'z fd_state_scheme) kern" where
  "recalibrate_floppy again =
     kseq (modify (\<lambda>s. s\<lparr>fd_recalibrate := False, current_track := 0, do_floppy := Some Recal_interrupt\<rparr>))
    (kbind (gets (\<lambda>s. push_bit 2 (fd_head s) OR current_drive s)) (\<lambda>d.
     kseq (kfor [FD_RECALIBRATE, d] output_byte)
          (kbind (gets fd_reset) (\<lambda>r. kwhen r again))))"

definition reset_interrupt :: "(unit, 'z fd_state_scheme) kern \<Rightarrow> (unit, 'z fd_state_scheme) kern" where
  "reset_interrupt again =
     kseq (output_byte FD_SENSEI)
    (kbind fd_result (\<lambda>_.
     kseq (output_byte FD_SPECIFY)
    (kbind (gets (\<lambda>s. word_of_int (cur_spec1 s))) (\<lambda>sp.
     kseq (output_byte sp)
    (kseq (output_byte 6) again)))))"

definition reset_floppy :: "(unit, 'z fd_state_scheme) kern" where
  "reset_floppy =
     kseq (modify (\<lambda>s. s\<lparr>fd_reset := False, cur_spec1 := - 1, cur_rate := - 1, fd_recalibrate := True\<rparr>))
    (kseq (printk ''Reset-floppy called'' [])
    (kseq (modify (\<lambda>s. s\<lparr>do_floppy := Some Reset_interrupt\<rparr>))
    (kbind (gets current_DOR) (\<lambda>d.
     kseq (outb (d AND NOT 0x04) FD_DOR) (outb d FD_DOR)))))"

text \<open>Timers call by number: 1 is \<open>transfer\<close>, anything else \<open>floppy_on_interrupt\<close>.\<close>

definition floppy_on_interrupt :: "(unit, 'z fd_state_scheme) kern \<Rightarrow> (unit, 'z fd_state_scheme) kern" where
  "floppy_on_interrupt again =
     kseq (modify (\<lambda>s. s\<lparr>selected := 1\<rparr>))
    (kbind (gets (\<lambda>s. (current_drive s, current_DOR s))) (\<lambda>(d, dor).
     if d \<noteq> dor AND 3 then
       kseq (modify (\<lambda>s. s\<lparr>current_DOR := (dor AND 0xFC) OR d\<rparr>))
      (kseq (outb ((dor AND 0xFC) OR d) FD_DOR)
            (add_timer (\<lambda>_. transfer again) 2 (Some 1)))
     else transfer again))"

section \<open>Requests\<close>

text \<open>Sector, head and track of a block, and the track to step to.\<close>

definition fd_place :: "floppy_struct \<Rightarrow> u32 \<Rightarrow> u8 \<times> u8 \<times> u8 \<times> u8" where
  "fd_place f block =
     (let sect = ucast (block mod fl_sect f) :: u8; b = block div fl_sect f;
          head = ucast (b mod fl_head f); track = ucast (b div fl_head f) :: u8 in
      (sect + 1, head, track, push_bit (unat (fl_stretch f)) track))"

primrec do_fd_loop ::
  "nat \<Rightarrow> (unit, 'z fd_state_scheme) kern \<Rightarrow> (unit, 'z fd_state_scheme) kern" where
  "do_fd_loop 0 again = kloops"
| "do_fd_loop (Suc n) again =
     kbind (INIT_REQUEST ''floppy'' 2) (\<lambda>c.
     case c of
       None \<Rightarrow> skip
     | Some c \<Rightarrow>
         kbind (gets (\<lambda>s. request s ! c)) (\<lambda>r.
         let m = MINOR (word_of_int (r_dev r)); drive = of_nat (m mod 4) :: u8; ty = m div 4 in
         if ty \<ge> length floppy_type then kfault
         else let f = floppy_type ! ty in
           kseq (modify (\<lambda>s. s\<lparr>floppy := ty, fd_seek := (fd_seek s \<or> current_drive s \<noteq> drive), current_drive := drive\<rparr>))
          (if r_sector r + 2 > fl_size f then kseq (fd_end_request 0) (do_fd_loop n again)
           else if fl_sect f = 0 \<or> fl_head f = 0 then kfault
           else let (sect, head, track, stp) = fd_place f (r_sector r) in
             kseq (modify (\<lambda>s. s\<lparr>fd_sector := sect, fd_head := head, fd_track := track, seek_track := stp,
                      fd_seek := (fd_seek s \<or> stp \<noteq> current_track s)\<rparr>))
            (kseq (if r_cmd r = READ then modify (\<lambda>s. s\<lparr>fd_command := FD_READ\<rparr>)
                   else if r_cmd r = WRITE then modify (\<lambda>s. s\<lparr>fd_command := FD_WRITE\<rparr>)
                   else kpanic ''do_fd_request: unknown command'')
            (kbind (ticks_to_floppy_on (m mod 4)) (\<lambda>ticks.
             add_timer (\<lambda>_. floppy_on_interrupt again) ticks (Some 2)))))))"

primrec do_fd_request :: "nat \<Rightarrow> (unit, 'z fd_state_scheme) kern" where
  "do_fd_request 0 = kloops"
| "do_fd_request (Suc fuel) =
     kseq (modify (\<lambda>s. s\<lparr>fd_seek := False\<rparr>))
    (kbind (gets (\<lambda>s. (fd_reset s, fd_recalibrate s))) (\<lambda>(r, rc).
     if r then reset_floppy
     else if rc then recalibrate_floppy (do_fd_request fuel)
     else do_fd_loop fuel (do_fd_request fuel)))"

definition floppy_init :: "nat \<Rightarrow> u32 \<Rightarrow> (unit, 'z fd_state_scheme) kern" where
  "floppy_init do_fd_request_ptr floppy_interrupt =
     kseq (modify (\<lambda>s. s\<lparr>blk_dev := upd_nth 2 (\<lambda>d. d\<lparr>request_fn := Some do_fd_request_ptr\<rparr>) (blk_dev s)\<rparr>))
    (kseq (modify (\<lambda>s. s\<lparr>idt := (idt s)[0x26 := set_trap_gate floppy_interrupt]\<rparr>))
    (kbind (inb_dev 0x21) (\<lambda>m. outb (m AND NOT 0x40) 0x21)))"

end
