(* ===== verification/Malloc.thy ===== *)
theory Malloc
  imports Memory
begin

unbundle bit_operations_syntax

text \<open>
  The bucket allocator, \<^verbatim>\<open>lib/malloc.c\<close>. Descriptors and objects lie in the memory of the
  page allocator and are reached by address: a descriptor is four cells, the page, the next
  descriptor, the first free object, and the use count with the object size in one cell. A
  chain is followed for at most \<open>fuel\<close> descriptors.
\<close>

section \<open>State\<close>

record bucket_state = mm_state +
  bucket_chain :: "u32 list"
  free_bucket_desc :: u32

text \<open>The sizes in \<open>bucket_dir\<close>, before the end marker.\<close>

definition bucket_sizes :: "nat list" where
  "bucket_sizes = [16, 32, 64, 128, 256, 512, 1024, 2048, 4096]"

text \<open>The fields of a descriptor: \<open>page\<close>, \<open>next\<close>, \<open>freeptr\<close>, and the pair of \<open>refcnt\<close> (low
  half) and \<open>bucket_size\<close> (high half).\<close>

abbreviation (input) d_page :: "u32 \<Rightarrow> u32" where "d_page d \<equiv> d"
abbreviation (input) d_next :: "u32 \<Rightarrow> u32" where "d_next d \<equiv> d + 4"
abbreviation (input) d_freeptr :: "u32 \<Rightarrow> u32" where "d_freeptr d \<equiv> d + 8"
abbreviation (input) d_counts :: "u32 \<Rightarrow> u32" where "d_counts d \<equiv> d + 12"

definition counts :: "u16 \<Rightarrow> u16 \<Rightarrow> u32" where
  "counts refcnt bsize = ucast refcnt OR push_bit 16 (ucast bsize)"

definition refcnt_of :: "u32 \<Rightarrow> u16" where
  "refcnt_of v = ucast v"

definition add_refcnt :: "u16 \<Rightarrow> u32 \<Rightarrow> u32" where
  "add_refcnt k v = counts (refcnt_of v + k) (ucast (drop_bit 16 v))"

section \<open>Operations\<close>

primrec link_descs :: "nat \<Rightarrow> u32 \<Rightarrow> (u32, 'z bucket_state_scheme) kern" where
  "link_descs 0 d = ret d"
| "link_descs (Suc i) d = kseq (st (d_next d) (d + 16)) (link_descs i (d + 16))"

definition init_bucket_desc :: "(unit, 'z bucket_state_scheme) kern" where
  "init_bucket_desc =
     kbind get_free_page (\<lambda>first.
     if first = 0 then kpanic ''Out of memory in init_bucket_desc()''
     else kbind (link_descs (PAGE_SIZE div 16 - 1) first) (\<lambda>d.
       kbind (gets free_bucket_desc) (\<lambda>f.
       kseq (st (d_next d) f)
            (modify (\<lambda>s. s\<lparr>free_bucket_desc := first\<rparr>)))))"

text \<open>The first bucket whose objects are long enough.\<close>

definition find_bucket :: "u32 \<Rightarrow> nat option" where
  "find_bucket len = scan_up (\<lambda>i. unat len \<le> bucket_sizes ! i) (length bucket_sizes)"

primrec find_free :: "nat \<Rightarrow> u32 \<Rightarrow> (u32, 'z bucket_state_scheme) kern" where
  "find_free 0 d = kloops"
| "find_free (Suc fuel) d =
     (if d = 0 then ret 0
      else kbind (ld (d_freeptr d)) (\<lambda>f.
        if f \<noteq> 0 then ret d else kbind (ld (d_next d)) (find_free fuel)))"

text \<open>The chain of free objects in a new page.\<close>

primrec carve :: "nat \<Rightarrow> u32 \<Rightarrow> u32 \<Rightarrow> (unit, 'z bucket_state_scheme) kern" where
  "carve 0 cp bsize = st cp 0"
| "carve (Suc i) cp bsize = kseq (st cp (cp + bsize)) (carve i (cp + bsize) bsize)"

definition new_bucket :: "nat \<Rightarrow> (u32, 'z bucket_state_scheme) kern" where
  "new_bucket b =
     kbind (gets free_bucket_desc) (\<lambda>f.
     kseq (kwhen (f = 0) init_bucket_desc)
    (kbind (gets free_bucket_desc) (\<lambda>d.
     kbind (ld (d_next d)) (\<lambda>n.
     kseq (modify (\<lambda>s. s\<lparr>free_bucket_desc := n\<rparr>))
    (kseq (st (d_counts d) (counts 0 (of_nat (bucket_sizes ! b))))
    (kbind get_free_page (\<lambda>cp.
     kseq (st (d_freeptr d) cp)
    (kseq (st (d_page d) cp)
    (if cp = 0 then kpanic ''Out of memory in kernel malloc()''
     else kseq (carve (PAGE_SIZE div bucket_sizes ! b - 1) cp (of_nat (bucket_sizes ! b)))
         (kbind (gets (\<lambda>s. bucket_chain s ! b)) (\<lambda>c.
          kseq (st (d_next d) c)
         (kseq (modify (\<lambda>s. s\<lparr>bucket_chain := (bucket_chain s)[b := d]\<rparr>))
               (ret d)))))))))))))"

definition my_malloc :: "nat \<Rightarrow> u32 \<Rightarrow> (u32, 'z bucket_state_scheme) kern" where
  "my_malloc fuel len =
     (case find_bucket len of
        None \<Rightarrow> kseq (printk ''malloc called with impossibly large argument'' [sint len])
                     (kpanic ''malloc: bad arg'')
      | Some b \<Rightarrow>
          kbind (gets (\<lambda>s. bucket_chain s ! b)) (\<lambda>c.
          kbind (find_free fuel c) (\<lambda>d.
          kbind (if d = 0 then new_bucket b else ret d) (\<lambda>d.
          kbind (ld (d_freeptr d)) (\<lambda>retval.
          kbind (ld retval) (\<lambda>nextfree.
          kseq (st (d_freeptr d) nextfree)
         (kbind (ld (d_counts d)) (\<lambda>v.
          kseq (st (d_counts d) (add_refcnt 1 v))
               (ret retval)))))))))"

text \<open>The search of \<open>free_s\<close> in one chain: the descriptor before and the descriptor of \<open>page\<close>.\<close>

primrec find_page :: "nat \<Rightarrow> u32 \<Rightarrow> u32 \<Rightarrow> u32 \<Rightarrow> ((u32 \<times> u32) option, 'z bucket_state_scheme) kern" where
  "find_page 0 page prev d = kloops"
| "find_page (Suc fuel) page prev d =
     (if d = 0 then ret None
      else kbind (ld (d_page d)) (\<lambda>p.
        if p = page then ret (Some (prev, d))
        else kbind (ld (d_next d)) (find_page fuel page d)))"

definition find_owner :: "nat \<Rightarrow> u32 \<Rightarrow> int \<Rightarrow> ((nat \<times> u32 \<times> u32) option, 'z bucket_state_scheme) kern" where
  "find_owner fuel page objsize =
     kfind [0..<length bucket_sizes] (\<lambda>b.
       if int (bucket_sizes ! b) < objsize then ret None
       else kbind (gets (\<lambda>s. bucket_chain s ! b)) (\<lambda>c.
         kbind (find_page fuel page 0 c) (\<lambda>r.
         ret (map_option (Pair b) r))))"

primrec find_prev :: "nat \<Rightarrow> u32 \<Rightarrow> u32 \<Rightarrow> (u32, 'z bucket_state_scheme) kern" where
  "find_prev 0 bdesc prev = kloops"
| "find_prev (Suc fuel) bdesc prev =
     (if prev = 0 then ret 0
      else kbind (ld (d_next prev)) (\<lambda>n. if n = bdesc then ret prev else find_prev fuel bdesc n))"

text \<open>Returning the page of an empty bucket.\<close>

definition drop_bucket :: "nat \<Rightarrow> nat \<Rightarrow> u32 \<Rightarrow> u32 \<Rightarrow> (unit, 'z bucket_state_scheme) kern" where
  "drop_bucket fuel b prev d =
     kbind (gets (\<lambda>s. bucket_chain s ! b)) (\<lambda>c.
     kbind (if prev \<noteq> 0 then kbind (ld (d_next prev)) (\<lambda>n. ret (n \<noteq> d)) else ret (c \<noteq> d)) (\<lambda>stale.
     kbind (if stale then find_prev fuel d c else ret prev) (\<lambda>prev.
     kbind (ld (d_next d)) (\<lambda>n.
     kseq (if prev \<noteq> 0 then st (d_next prev) n
           else if c \<noteq> d then kpanic ''malloc bucket chains corrupted''
           else modify (\<lambda>s. s\<lparr>bucket_chain := (bucket_chain s)[b := n]\<rparr>))
    (kbind (ld (d_page d)) (\<lambda>page.
     kseq (free_page page)
    (kbind (gets free_bucket_desc) (\<lambda>f.
     kseq (st (d_next d) f)
          (modify (\<lambda>s. s\<lparr>free_bucket_desc := d\<rparr>))))))))))"

definition free_s :: "nat \<Rightarrow> u32 \<Rightarrow> int \<Rightarrow> (unit, 'z bucket_state_scheme) kern" where
  "free_s fuel obj objsize =
     kbind (find_owner fuel (obj AND 0xfffff000) objsize) (\<lambda>r.
     case r of
       None \<Rightarrow> kpanic ''Bad address passed to kernel free_s()''
     | Some (b, prev, d) \<Rightarrow>
         kbind (ld (d_freeptr d)) (\<lambda>f.
         kseq (st obj f)
        (kseq (st (d_freeptr d) obj)
        (kbind (ld (d_counts d)) (\<lambda>v.
         let v = add_refcnt (- 1) v in
         kseq (st (d_counts d) v)
              (kwhen (refcnt_of v = 0) (drop_bucket fuel b prev d)))))))"

section \<open>Chains of descriptors\<close>

text \<open>\<open>desc_chain m p ds\<close>: from \<open>p\<close> the chain visits the descriptors \<open>ds\<close>, each aligned to its 16 bytes.\<close>

primrec desc_chain :: "(u32 \<Rightarrow> u32) \<Rightarrow> u32 \<Rightarrow> u32 list \<Rightarrow> bool" where
  "desc_chain m p [] \<longleftrightarrow> p = 0"
| "desc_chain m p (d # ds) \<longleftrightarrow> p = d \<and> d \<noteq> 0 \<and> 16 dvd unat d \<and> desc_chain m (m (d_next d)) ds"

definition bucket_inv :: "nat \<Rightarrow> u32 list list \<Rightarrow> 'z bucket_state_scheme \<Rightarrow> bool" where
  "bucket_inv fuel css s \<longleftrightarrow>
     length css = length bucket_sizes \<and>
     (\<forall>b < length bucket_sizes. desc_chain (mem s) (bucket_chain s ! b) (css ! b) \<and> length (css ! b) < fuel) \<and>
     distinct (map (mem s) (concat css))"

lemma desc_chain_aligned: "desc_chain m p ds \<Longrightarrow> d \<in> set ds \<Longrightarrow> 16 dvd unat d"
  by (induction ds arbitrary: p) auto

lemma desc_chain_nonnull: "desc_chain m p ds \<Longrightarrow> d \<in> set ds \<Longrightarrow> d \<noteq> 0"
  by (induction ds arbitrary: p) auto

lemma aligned_cells:
  fixes d e :: u32
  assumes "16 dvd unat d" and "16 dvd unat e"
  shows "e \<noteq> d + 8" "e \<noteq> d + 12" "e + 4 \<noteq> d + 8" "e + 4 \<noteq> d + 12"
proof -
  have t: "unat (x + k) mod 16 = unat k mod 16" if "16 dvd unat x" for x k :: u32
  proof -
    have "unat (x + k) mod 16 = (unat x + unat k) mod 16"
      by (simp add: unat_word_ariths mod_mod_cancel)
    with that show ?thesis by (metis add.left_neutral dvd_imp_mod_0 mod_add_left_eq)
  qed
  have neq: "x \<noteq> y" if "unat x mod 16 \<noteq> unat y mod 16" for x y :: u32
    using that by auto
  show "e \<noteq> d + 8" "e \<noteq> d + 12" "e + 4 \<noteq> d + 8" "e + 4 \<noteq> d + 12"
    by (rule neq, use assms in \<open>simp add: t\<close>)+
qed

lemma desc_chain_cong:
  "(\<And>d. d \<in> set ds \<Longrightarrow> m' (d_next d) = m (d_next d)) \<Longrightarrow> desc_chain m' p ds = desc_chain m p ds"
  by (induction ds arbitrary: p) auto

lemma find_free_run:
  assumes "desc_chain (mem s) p (xs @ d # ys)" and "length xs < fuel"
    and "\<And>e. e \<in> set xs \<Longrightarrow> mem s (d_freeptr e) = 0" and "mem s (d_freeptr d) \<noteq> 0"
  shows "find_free fuel p s es = Ok d s es"
  using assms
proof (induction xs arbitrary: p fuel)
  case Nil
  then show ?case by (cases fuel) (auto simp: kern_defs ld_def)
next
  case (Cons x xs)
  then show ?case by (cases fuel) (auto simp: kern_defs ld_def)
qed

lemma find_page_run:
  assumes "desc_chain (mem s) p ds" and "length ds < fuel"
  shows "page \<notin> set (map (mem s) ds) \<Longrightarrow> find_page fuel page prev p s es = Ok None s es"
    and "ds = xs @ d # ys \<Longrightarrow> page \<notin> set (map (mem s) xs) \<Longrightarrow> mem s d = page \<Longrightarrow>
      \<exists>prev'. find_page fuel page prev p s es = Ok (Some (prev', d)) s es"
proof -
  show "page \<notin> set (map (mem s) ds) \<Longrightarrow> find_page fuel page prev p s es = Ok None s es"
    using assms
  proof (induction ds arbitrary: p fuel prev)
    case Nil
    then show ?case by (cases fuel) (auto simp: kern_defs)
  next
    case (Cons e ds)
    then show ?case by (cases fuel) (auto simp: kern_defs ld_def)
  qed
  show "\<exists>prev'. find_page fuel page prev p s es = Ok (Some (prev', d)) s es"
    if "ds = xs @ d # ys" "page \<notin> set (map (mem s) xs)" "mem s d = page"
    using assms that
  proof (induction xs arbitrary: p fuel prev ds)
    case Nil
    then show ?case by (cases fuel) (auto simp: kern_defs ld_def)
  next
    case (Cons e xs)
    show ?case
    proof (cases fuel)
      case 0
      with Cons.prems show ?thesis by simp
    next
      case (Suc n)
      have "\<exists>prev'. find_page n page e (mem s (d_next e)) s es = Ok (Some (prev', d)) s es"
        using Cons.prems Suc by (intro Cons.IH [of _ "xs @ d # ys"]) auto
      with Cons.prems Suc show ?thesis by (auto simp: kern_defs ld_def)
    qed
  qed
qed

lemma kfind_first:
  assumes "\<And>i. i \<in> set is \<Longrightarrow> body i s es = Ok None s es" and "body i s es = Ok (Some v) s es"
  shows "kfind (is @ i # js) body s es = Ok (Some v) s es"
  using assms by (induction "is") (auto simp: kern_defs)

lemma counts_fields:
  "refcnt_of (counts r b) = r" "ucast (drop_bit 16 (counts r b)) = b"
  "counts (refcnt_of v) (ucast (drop_bit 16 v)) = v"
  by (rule bit_word_eqI; auto simp: counts_def refcnt_of_def bit_simps dest: bit_imp_le_length)+

lemma add_refcnt_inverse:
  "refcnt_of (add_refcnt k v) = refcnt_of v + k" "add_refcnt (- k) (add_refcnt k v) = v"
  by (simp_all add: add_refcnt_def counts_fields)

lemma find_owner_run:
  assumes inv: "bucket_inv fuel css s" and b: "b < length bucket_sizes" and d: "d \<in> set (css ! b)"
    and page: "mem s d = page"
  shows "\<exists>prev. find_owner fuel page 0 s es = Ok (Some (b, prev, d)) s es"
proof -
  obtain xs ys where split: "css ! b = xs @ d # ys" using d by (meson split_list)
  have dist: "distinct (map (mem s) (concat css))" and len: "length css = length bucket_sizes"
    and chain: "\<And>c. c < length bucket_sizes \<Longrightarrow>
       desc_chain (mem s) (bucket_chain s ! c) (css ! c) \<and> length (css ! c) < fuel"
    using inv by (auto simp: bucket_inv_def)
  have css: "css = take b css @ (xs @ d # ys) # drop (Suc b) css"
    using id_take_nth_drop [of b css] b len split by simp
  have "distinct (map (mem s) (concat (take b css) @ xs @ d # ys @ concat (drop (Suc b) css)))"
    using dist by (subst (asm) css) simp
  then have new: "page \<notin> mem s ` set (concat (take b css))" "page \<notin> mem s ` set xs"
    using page by auto
  have other: "page \<notin> set (map (mem s) (css ! c))" if "c < b" for c
  proof -
    have "css ! c \<in> set (take b css)" using that b len by (auto simp: in_set_conv_nth intro!: exI [of _ c])
    then show ?thesis using new(1) by auto
  qed
  obtain prev where f: "find_page fuel page 0 (bucket_chain s ! b) s es = Ok (Some (prev, d)) s es"
    using find_page_run(2) [of s _ "css ! b" fuel xs d ys page 0 es] chain [OF b] split new(2) page by auto
  have up: "[0..<length bucket_sizes] = [0..<b] @ b # [Suc b..<length bucket_sizes]"
    using b by (metis less_imp_le upt_add_eq_append upt_conv_Cons le_add_diff_inverse zero_le)
  have "find_owner fuel page 0 s es = Ok (Some (b, prev, d)) s es"
    unfolding find_owner_def up
  proof (rule kfind_first)
    fix c
    assume "c \<in> set [0..<b]"
    then have c: "c < b" "c < length bucket_sizes" using b by auto
    from find_page_run(1) [of s _ "css ! c" fuel page 0 es] chain [OF c(2)] other [OF c(1)]
    show "(if int (bucket_sizes ! c) < 0 then ret None
       else kbind (gets (\<lambda>s. bucket_chain s ! c)) (\<lambda>p.
         kbind (find_page fuel page 0 p) (\<lambda>r. ret (map_option (Pair c) r)))) s es = Ok None s es"
      by (simp add: kern_defs)
  next
    show "(if int (bucket_sizes ! b) < 0 then ret None
       else kbind (gets (\<lambda>s. bucket_chain s ! b)) (\<lambda>p.
         kbind (find_page fuel page 0 p) (\<lambda>r. ret (map_option (Pair b) r)))) s es = Ok (Some (b, prev, d)) s es"
      by (simp add: kern_defs f)
  qed
  then show ?thesis by blast
qed

lemma find_bucket_range: "find_bucket len = Some b \<Longrightarrow> b < length bucket_sizes"
  by (simp add: find_bucket_def scan_up_Some)

text \<open>C24: while a bucket of the right size has a free object and a used one, \<open>my_malloc\<close> hands out
  the first free object, and \<open>free_s\<close> of that object, without a size, brings back the state
  as it was, memory and chains included.\<close>
theorem malloc_then_free:
  fixes s :: "'z bucket_state_scheme"
  assumes inv: "bucket_inv fuel css s"
    and b: "find_bucket len = Some b" and split: "css ! b = xs @ d # ys"
    and full: "\<And>e. e \<in> set xs \<Longrightarrow> mem s (d_freeptr e) = 0"
    and x: "mem s (d_freeptr d) = x" "x \<noteq> 0" "x AND 0xfffff000 = mem s d"
    and apart: "\<And>e k. e \<in> set (concat css) \<Longrightarrow> k < 16 \<Longrightarrow> x \<noteq> e + k"
    and used: "refcnt_of (mem s (d_counts d)) \<noteq> 0"
  shows "\<exists>s'. my_malloc fuel len s es = Ok x s' es \<and> free_s fuel x 0 s' es = Ok () s es"
proof -
  define v where "v = mem s (d_counts d)"
  define s' where "s' = s\<lparr>mem := (mem s)(d + 8 := mem s x, d + 12 := add_refcnt 1 v)\<rparr>"
  have bl: "b < length bucket_sizes" by (rule find_bucket_range [OF b])
  have len: "length css = length bucket_sizes" and chain: "\<And>c. c < length bucket_sizes \<Longrightarrow>
       desc_chain (mem s) (bucket_chain s ! c) (css ! c) \<and> length (css ! c) < fuel"
    and dist: "distinct (map (mem s) (concat css))"
    using inv by (auto simp: bucket_inv_def)
  have al: "16 dvd unat e" if "e \<in> set (concat css)" for e
    using that chain len desc_chain_aligned by (fastforce simp: in_set_conv_nth)
  have "css ! b \<in> set css" using bl len by simp
  then have din: "d \<in> set (css ! b)" "d \<in> set (concat css)" using split by (auto intro: bexI [of _ "css ! b"])
  have apd: "x \<noteq> d + 8" "x \<noteq> d + 12" using apart [OF din(2)] by auto
  have d0: "d \<noteq> 0" by (rule desc_chain_nonnull [OF conjunct1 [OF chain [OF bl]] din(1)])
  have ff: "find_free fuel (bucket_chain s ! b) s es = Ok d s es"
    using chain [OF bl] split full x by (intro find_free_run [of s _ xs d ys]) auto
  have m: "my_malloc fuel len s es = Ok x s' es"
    using b ff x d0 apd by (simp add: my_malloc_def kern_defs ld_def st_def s'_def v_def)
  have same: "mem s' e = mem s e" "mem s' (e + 4) = mem s (e + 4)" if "e \<in> set (concat css)" for e
    using aligned_cells [OF al [OF din(2)] al [OF that]] by (auto simp: s'_def)
  have inv': "bucket_inv fuel css s'"
  proof -
    have "desc_chain (mem s') (bucket_chain s' ! c) (css ! c)" if "c < length bucket_sizes" for c
    proof -
      have "desc_chain (mem s') p (css ! c) = desc_chain (mem s) p (css ! c)" for p
        using that len by (intro desc_chain_cong same(2)) (auto intro: bexI [of _ "css ! c"])
      with chain [OF that] show ?thesis by (simp add: s'_def)
    qed
    moreover have "map (mem s') (concat css) = map (mem s) (concat css)" by (rule map_cong [OF refl same(1)])
    then have "distinct (map (mem s') (concat css))" using dist by (simp only:)
    ultimately show ?thesis using chain len by (simp add: bucket_inv_def)
  qed
  obtain prev where fo: "find_owner fuel (x AND 0xfffff000) 0 s' es = Ok (Some (b, prev, d)) s' es"
    using find_owner_run [OF inv' bl din(1), of "x AND 0xfffff000" es] same(1) [OF din(2)] x by auto
  have cells: "mem s' (d + 8) = mem s x" "mem s' (d + 12) = add_refcnt 1 (mem s (d + 12))"
    by (simp_all add: s'_def v_def)
  have restored: "(mem s')(x := mem s x, d + 8 := x, d + 12 := v) = mem s"
    using x(1) apd by (auto simp: s'_def v_def fun_eq_iff)
  have "free_s fuel x 0 s' es = Ok () (s'\<lparr>mem := (mem s')(x := mem s x, d + 8 := x, d + 12 := v)\<rparr>) es"
    using used apd by (simp add: free_s_def kern_defs fo ld_def st_def cells v_def add_refcnt_inverse)
  also have "\<dots> = Ok () s es" unfolding restored by (simp add: s'_def)
  finally show ?thesis using m by blast
qed

text \<open>One descriptor at 2 MiB for a page of 16-byte objects at 3 MiB, whose first object is used.\<close>

definition bucket_demo :: bucket_state where
  "bucket_demo = \<lparr>klog = [], mem = (\<lambda>a. if a = 0x200000 then 0x300000 else if a = 0x200008 then 0x300010
       else if a = 0x20000c then 1 else if a = 0x300010 then 0x300020 else 0),
     mem_map = [], HIGH_MEMORY = 0, cr3_loads = 0,
     bucket_chain = [0x200000, 0, 0, 0, 0, 0, 0, 0, 0], free_bucket_desc = 0\<rparr>"

lemma bucket_demo_apart: "k < (16 :: u32) \<Longrightarrow> (0x300010 :: u32) \<noteq> 0x200000 + k"
proof
  assume "k < (16 :: u32)" and eq: "(0x300010 :: u32) = 0x200000 + k"
  from eq have "k = 0x300010 - 0x200000" by (simp add: algebra_simps)
  with \<open>k < 16\<close> show False by simp
qed

lemma length_bucket_sizes: "length bucket_sizes = Suc (Suc (Suc (Suc (Suc (Suc (Suc (Suc (Suc 0))))))))"
  by (simp add: bucket_sizes_def)

theorem malloc_then_free_witness:
  "\<exists>s'. my_malloc 2 10 bucket_demo [] = Ok 0x300010 s' [] \<and> free_s 2 0x300010 0 s' [] = Ok () bucket_demo []"
proof (rule malloc_then_free [where css = "[[0x200000], [], [], [], [], [], [], [], []]" and b = 0 and xs = "[]"
      and d = "0x200000" and ys = "[]"])
  show "bucket_inv 2 [[0x200000], [], [], [], [], [], [], [], []] bucket_demo"
    unfolding bucket_inv_def length_bucket_sizes by (auto simp: bucket_demo_def less_Suc_eq)
  show "find_bucket 10 = Some 0" by (simp add: find_bucket_def scan_up_def bucket_sizes_def upt_rec)
qed (auto simp: bucket_demo_def refcnt_of_def bucket_demo_apart)

end
