(* ===== verification/Kstring.thy ===== *)
theory Kstring
  imports K_Prelude "HOL-Library.Sublist"
begin

unbundle bit_operations_syntax

text \<open>
  The string functions of \<^verbatim>\<open>include/string.h\<close>. Each is a few 80386 string
  instructions, so the model has one definition per repeated instruction, over a byte
  memory, and each function is the sequence of instructions of its assembly text with the
  registers as arguments. A loop that ends only at a NUL byte takes fuel and is
  \<open>None\<close> when the fuel runs out; the theorems give the fuel that is enough. A repeated
  instruction with a count of zero leaves the flags as they were, so the flags are
  arguments and results too.
\<close>

section \<open>Memory and string instructions\<close>

type_synonym bytes = "u32 \<Rightarrow> u8"

text \<open>\<^verbatim>\<open>repne scasb\<close>: compare \<open>al\<close> with the bytes at \<open>edi\<close> until one is equal or the count
  is used up. The result is the count left, the pointer and the zero flag.\<close>

primrec repne_scasb :: "nat \<Rightarrow> u8 \<Rightarrow> bytes \<Rightarrow> u32 \<Rightarrow> bool \<Rightarrow> nat \<times> u32 \<times> bool" where
  "repne_scasb 0 al m edi zf = (0, edi, zf)"
| "repne_scasb (Suc ecx) al m edi zf =
     (if m edi = al then (ecx, edi + 1, True) else repne_scasb ecx al m (edi + 1) False)"

text \<open>\<^verbatim>\<open>repe cmpsb\<close>: compare the bytes at \<open>esi\<close> and \<open>edi\<close> while they are equal. The result
  is the pointer \<open>esi\<close>, the zero flag and whether the last byte at \<open>esi\<close> was less, as a
  signed number.\<close>

primrec repe_cmpsb :: "nat \<Rightarrow> bytes \<Rightarrow> u32 \<Rightarrow> u32 \<Rightarrow> bool \<Rightarrow> bool \<Rightarrow> u32 \<times> bool \<times> bool" where
  "repe_cmpsb 0 m esi edi zf lt = (esi, zf, lt)"
| "repe_cmpsb (Suc ecx) m esi edi zf lt =
     (if m esi = m edi then repe_cmpsb ecx m (esi + 1) (edi + 1) True False
      else (esi + 1, False, m esi <s m edi))"

text \<open>\<^verbatim>\<open>rep movsb\<close> upwards and downwards, and \<^verbatim>\<open>rep stosb\<close>.\<close>

primrec movsb_up :: "nat \<Rightarrow> u32 \<Rightarrow> u32 \<Rightarrow> bytes \<Rightarrow> bytes" where
  "movsb_up 0 esi edi m = m"
| "movsb_up (Suc ecx) esi edi m = movsb_up ecx (esi + 1) (edi + 1) (m(edi := m esi))"

primrec movsb_down :: "nat \<Rightarrow> u32 \<Rightarrow> u32 \<Rightarrow> bytes \<Rightarrow> bytes" where
  "movsb_down 0 esi edi m = m"
| "movsb_down (Suc ecx) esi edi m = movsb_down ecx (esi - 1) (edi - 1) (m(edi := m esi))"

primrec rep_stosb :: "nat \<Rightarrow> u8 \<Rightarrow> u32 \<Rightarrow> bytes \<Rightarrow> bytes" where
  "rep_stosb 0 al edi m = m"
| "rep_stosb (Suc ecx) al edi m = rep_stosb ecx al (edi + 1) (m(edi := al))"

text \<open>The prologue shared by every function that needs the length of a string: search a
  NUL with a count of all ones, then \<^verbatim>\<open>notl\<close> and \<^verbatim>\<open>decl\<close> the count.\<close>

definition scan_len :: "bytes \<Rightarrow> u32 \<Rightarrow> u32" where
  "scan_len m s = (let (ecx, _, _) = repne_scasb 0xffffffff 0 m s False in NOT (of_nat ecx) - 1)"

text \<open>The end of the string: where \<^verbatim>\<open>repne scasb; decl\<close> leaves \<open>edi\<close>.\<close>

definition scan_end :: "bytes \<Rightarrow> u32 \<Rightarrow> u32" where
  "scan_end m s = (let (_, edi, _) = repne_scasb 0xffffffff 0 m s False in edi - 1)"

section \<open>Copying\<close>

text \<open>\<^verbatim>\<open>1: lodsb; stosb; testb; jne 1b\<close>\<close>

primrec strcpy_loop :: "nat \<Rightarrow> u32 \<Rightarrow> u32 \<Rightarrow> bytes \<Rightarrow> bytes option" where
  "strcpy_loop 0 esi edi m = None"
| "strcpy_loop (Suc fuel) esi edi m =
     (let al = m esi; m = m(edi := al) in
      if al = 0 then Some m else strcpy_loop fuel (esi + 1) (edi + 1) m)"

definition strcpy :: "nat \<Rightarrow> u32 \<Rightarrow> u32 \<Rightarrow> bytes \<Rightarrow> (u32 \<times> bytes) option" where
  "strcpy fuel dest src m = map_option (Pair dest) (strcpy_loop fuel src dest m)"

function strncpy_loop :: "u32 \<Rightarrow> u32 \<Rightarrow> u32 \<Rightarrow> bytes \<Rightarrow> bytes" where
  "strncpy_loop count esi edi m =
     (let count = count - 1 in
      if count <s 0 then m
      else let al = m esi; m = m(edi := al) in
        if al = 0 then rep_stosb (unat count) 0 (edi + 1) m
        else strncpy_loop count (esi + 1) (edi + 1) m)"
  by auto

definition strncpy :: "u32 \<Rightarrow> u32 \<Rightarrow> u32 \<Rightarrow> bytes \<Rightarrow> u32 \<times> bytes" where
  "strncpy dest src count m = (dest, strncpy_loop count src dest m)"

definition strcat :: "nat \<Rightarrow> u32 \<Rightarrow> u32 \<Rightarrow> bytes \<Rightarrow> (u32 \<times> bytes) option" where
  "strcat fuel dest src m = map_option (Pair dest) (strcpy_loop fuel src (scan_end m dest) m)"

text \<open>The copy of \<open>strncat\<close>; the NUL at label 2 follows also when one has been copied.\<close>

function strncat_loop :: "u32 \<Rightarrow> u32 \<Rightarrow> u32 \<Rightarrow> bytes \<Rightarrow> bytes" where
  "strncat_loop count esi edi m =
     (let count = count - 1 in
      if count <s 0 then m(edi := 0)
      else let al = m esi; m = m(edi := al) in
        if al = 0 then m(edi + 1 := 0)
        else strncat_loop count (esi + 1) (edi + 1) m)"
  by auto

definition strncat :: "u32 \<Rightarrow> u32 \<Rightarrow> u32 \<Rightarrow> bytes \<Rightarrow> u32 \<times> bytes" where
  "strncat dest src count m = (dest, strncat_loop count src (scan_end m dest) m)"

text \<open>The counted loops end: the count goes down as an unsigned number until it turns
  negative.\<close>

lemma count_down:
  fixes c :: u32
  assumes "\<not> c - 1 <s 0"
  shows "unat (c - 1) < unat c"
proof -
  have "c \<noteq> 0" using assms by (auto simp: word_sless_alt)
  then show ?thesis by (simp add: unat_minus_one unat_gt_0)
qed

termination strncpy_loop
  by (relation "measure (\<lambda>(c, _). unat c)") (auto simp: count_down)

termination strncat_loop
  by (relation "measure (\<lambda>(c, _). unat c)") (auto simp: count_down)

section \<open>Comparing\<close>

primrec strcmp_loop :: "nat \<Rightarrow> u32 \<Rightarrow> u32 \<Rightarrow> bytes \<Rightarrow> int option" where
  "strcmp_loop 0 edi esi m = None"
| "strcmp_loop (Suc fuel) edi esi m =
     (let al = m esi in
      if al \<noteq> m edi then Some (if al <s m edi then 1 else - 1)
      else if al = 0 then Some 0 else strcmp_loop fuel (edi + 1) (esi + 1) m)"

definition strcmp :: "nat \<Rightarrow> u32 \<Rightarrow> u32 \<Rightarrow> bytes \<Rightarrow> int option" where
  "strcmp fuel cs ct m = strcmp_loop fuel cs ct m"

function strncmp :: "u32 \<Rightarrow> u32 \<Rightarrow> u32 \<Rightarrow> bytes \<Rightarrow> int" where
  "strncmp cs ct count m =
     (let count = count - 1 in
      if count <s 0 then 0
      else let al = m ct in
        if al \<noteq> m cs then (if al <s m cs then 1 else - 1)
        else if al = 0 then 0 else strncmp (cs + 1) (ct + 1) count m)"
  by auto

termination strncmp
  by (relation "measure (\<lambda>(_, _, c, _). unat c)") (auto simp: count_down)

declare strncpy_loop.simps [simp del] strncat_loop.simps [simp del] strncmp.simps [simp del]

section \<open>Searching\<close>

primrec strchr_loop :: "nat \<Rightarrow> u8 \<Rightarrow> u32 \<Rightarrow> bytes \<Rightarrow> u32 option" where
  "strchr_loop 0 ah esi m = None"
| "strchr_loop (Suc fuel) ah esi m =
     (let al = m esi in
      if al = ah then Some (esi + 1 - 1)
      else if al \<noteq> 0 then strchr_loop fuel ah (esi + 1) m else Some (1 - 1))"

definition strchr :: "nat \<Rightarrow> u32 \<Rightarrow> u8 \<Rightarrow> bytes \<Rightarrow> u32 option" where
  "strchr fuel s c m = strchr_loop fuel c s m"

primrec strrchr_loop :: "nat \<Rightarrow> u8 \<Rightarrow> u32 \<Rightarrow> u32 \<Rightarrow> bytes \<Rightarrow> u32 option" where
  "strrchr_loop 0 ah esi edx m = None"
| "strrchr_loop (Suc fuel) ah esi edx m =
     (let al = m esi; edx = (if al = ah then esi + 1 - 1 else edx) in
      if al \<noteq> 0 then strrchr_loop fuel ah (esi + 1) edx m else Some edx)"

definition strrchr :: "nat \<Rightarrow> u32 \<Rightarrow> u8 \<Rightarrow> bytes \<Rightarrow> u32 option" where
  "strrchr fuel s c m = strrchr_loop fuel c s 0 m"

text \<open>The scan shared by \<open>strspn\<close>, \<open>strcspn\<close>, \<open>strpbrk\<close> and \<open>strtok\<close>: go on as long as the
  byte is not NUL and the search in \<open>ct\<close> gives \<open>want\<close>. The result is \<open>esi\<close>, one past the
  byte that ended the scan, and whether that was the NUL.\<close>

primrec span_loop :: "nat \<Rightarrow> bool \<Rightarrow> u32 \<Rightarrow> u32 \<Rightarrow> bytes \<Rightarrow> u32 \<Rightarrow> (u32 \<times> bool) option" where
  "span_loop 0 want ct edx m esi = None"
| "span_loop (Suc fuel) want ct edx m esi =
     (let al = m esi in
      if al = 0 then Some (esi + 1, True)
      else let (_, _, zf) = repne_scasb (unat edx) al m ct False in
        if zf = want then span_loop fuel want ct edx m (esi + 1) else Some (esi + 1, False))"

definition strspn :: "nat \<Rightarrow> u32 \<Rightarrow> u32 \<Rightarrow> bytes \<Rightarrow> u32 option" where
  "strspn fuel cs ct m =
     map_option (\<lambda>(esi, _). esi - 1 - cs) (span_loop fuel True ct (scan_len m ct) m cs)"

definition strcspn :: "nat \<Rightarrow> u32 \<Rightarrow> u32 \<Rightarrow> bytes \<Rightarrow> u32 option" where
  "strcspn fuel cs ct m =
     map_option (\<lambda>(esi, _). esi - 1 - cs) (span_loop fuel False ct (scan_len m ct) m cs)"

definition strpbrk :: "nat \<Rightarrow> u32 \<Rightarrow> u32 \<Rightarrow> bytes \<Rightarrow> u32 option" where
  "strpbrk fuel cs ct m =
     map_option (\<lambda>(esi, nul). if nul then 0 else esi - 1) (span_loop fuel False ct (scan_len m ct) m cs)"

text \<open>\<open>strstr\<close>: before the first comparison the zero flag says that the pattern is empty
  (\<^verbatim>\<open>decl %ecx\<close>); later it is clear.\<close>

primrec strstr_loop :: "nat \<Rightarrow> u32 \<Rightarrow> u32 \<Rightarrow> bytes \<Rightarrow> u32 \<Rightarrow> bool \<Rightarrow> u32 option" where
  "strstr_loop 0 ct edx m esi zf = None"
| "strstr_loop (Suc fuel) ct edx m esi zf =
     (let (esi', zf, _) = repe_cmpsb (unat edx) m esi ct zf False in
      if zf then Some esi
      else if m (esi' - 1) \<noteq> 0 then strstr_loop fuel ct edx m (esi + 1) False
      else Some 0)"

definition strstr :: "nat \<Rightarrow> u32 \<Rightarrow> u32 \<Rightarrow> bytes \<Rightarrow> u32 option" where
  "strstr fuel cs ct m = (let edx = scan_len m ct in strstr_loop fuel ct edx m cs (edx = 0))"

definition strlen :: "u32 \<Rightarrow> bytes \<Rightarrow> u32" where
  "strlen s m = scan_len m s"

text \<open>\<open>strtok\<close>, with the static \<open>___strtok\<close> as argument and result. \<open>strtok_end\<close> is the code
  from label 6 on.\<close>

definition strtok_end :: "u32 \<Rightarrow> u32 \<Rightarrow> bytes \<Rightarrow> u32 \<times> u32 \<times> bytes" where
  "strtok_end ebx esi m =
     (let ebx = (if m ebx = 0 then 0 else ebx); esi = (if ebx = 0 then 0 else esi) in (ebx, esi, m))"

definition strtok :: "nat \<Rightarrow> u32 \<Rightarrow> u32 \<Rightarrow> u32 \<Rightarrow> bytes \<Rightarrow> (u32 \<times> u32 \<times> bytes) option" where
  "strtok fuel strtok_ptr s ct m =
     (if s = 0 \<and> strtok_ptr = 0 then Some (0, 0, m)
      else let esi = (if s = 0 then strtok_ptr else s); edx = scan_len m ct in
        if edx = 0 then Some (0, 0, m)
        else case span_loop fuel True ct edx m esi of
          None \<Rightarrow> None
        | Some (esi, nul) \<Rightarrow>
            if nul \<or> m (esi - 1) = 0 then Some (0, 0, m)
            else let ebx = esi - 1 in
              (case span_loop fuel False ct edx m ebx of
                 None \<Rightarrow> None
               | Some (esi, nul) \<Rightarrow>
                   Some (if nul \<or> m (esi - 1) = 0 then strtok_end ebx 0 m
                         else strtok_end ebx esi (m(esi - 1 := 0)))))"

section \<open>Memory blocks\<close>

definition memcpy :: "u32 \<Rightarrow> u32 \<Rightarrow> u32 \<Rightarrow> bytes \<Rightarrow> u32 \<times> bytes" where
  "memcpy dest src n m = (dest, movsb_up (unat n) src dest m)"

text \<open>\<open>memmove\<close> also gives the direction flag it leaves behind.\<close>

definition memmove :: "u32 \<Rightarrow> u32 \<Rightarrow> u32 \<Rightarrow> bytes \<Rightarrow> u32 \<times> bool \<times> bytes" where
  "memmove dest src n m =
     (if dest < src then (dest, False, movsb_up (unat n) src dest m)
      else (dest, True, movsb_down (unat n) (src + n - 1) (dest + n - 1) m))"

text \<open>\<open>memcmp\<close> takes the flags that hold on entry.\<close>

definition memcmp :: "bool \<Rightarrow> bool \<Rightarrow> u32 \<Rightarrow> u32 \<Rightarrow> u32 \<Rightarrow> bytes \<Rightarrow> int" where
  "memcmp zf lt cs ct count m =
     (let (_, zf, lt) = repe_cmpsb (unat count) m ct cs zf lt in
      if zf then 0 else if lt then 1 else - 1)"

definition memchr :: "u32 \<Rightarrow> u8 \<Rightarrow> u32 \<Rightarrow> bytes \<Rightarrow> u32" where
  "memchr cs c count m =
     (if count = 0 then 0
      else let (_, edi, zf) = repne_scasb (unat count) c m cs False in
        if zf then edi - 1 else 1 - 1)"

definition memset :: "u32 \<Rightarrow> u8 \<Rightarrow> u32 \<Rightarrow> bytes \<Rightarrow> u32 \<times> bytes" where
  "memset s c count m = (s, rep_stosb (unat count) c s m)"

section \<open>Blocks are moved as if at once\<close>

lemma movsb_up_eq:
  assumes "unat esi + n \<le> 2 ^ 32" and "unat edi + n \<le> 2 ^ 32" and "edi \<le> esi"
  shows "movsb_up n esi edi m x = (if unat (x - edi) < n then m (esi + (x - edi)) else m x)"
  using assms
proof (induction n arbitrary: esi edi m)
  case (Suc n)
  show ?case
  proof (cases n)
    case 0
    then show ?thesis by (auto simp: unat_eq_0)
  next
    case (Suc k)
    have u: "unat (esi + 1) = unat esi + 1" "unat (edi + 1) = unat edi + 1"
      using Suc.prems Suc by (auto simp: unat_plus_if' )
    have "movsb_up n (esi + 1) (edi + 1) (m(edi := m esi)) x =
      (if unat (x - (edi + 1)) < n then (m(edi := m esi)) (esi + 1 + (x - (edi + 1))) else (m(edi := m esi)) x)"
      using Suc.prems u by (intro Suc.IH) (auto simp: word_le_nat_alt)
    also have "\<dots> = (if unat (x - edi) < Suc n then m (esi + (x - edi)) else m x)"
    proof (cases "x = edi")
      case True
      then show ?thesis using Suc.prems by (auto simp: unat_minus_one unsigned_minus_1_eq_mask mask_eq_exp_minus_1 take_bit_eq_mod)
    next
      case False
      then have "unat (x - edi) \<noteq> 0" by (simp add: unat_eq_0)
      then have d: "unat (x - (edi + 1)) = unat (x - edi) - 1"
        using False by (simp add: diff_diff_eq [symmetric] unat_minus_one)
      have e: "esi + 1 + (x - (edi + 1)) = esi + (x - edi)" by simp
      have "esi + (x - edi) \<noteq> edi" if "unat (x - edi) < Suc n"
      proof
        assume eq: "esi + (x - edi) = edi"
        have "unat (esi + (x - edi)) = unat esi + unat (x - edi)"
          using that Suc.prems by (auto simp: unat_plus_if')
        then have "unat edi = unat esi + unat (x - edi)" by (simp only: eq)
        with Suc.prems(3) \<open>unat (x - edi) \<noteq> 0\<close> show False by (simp add: word_le_nat_alt)
      qed
      with False d e \<open>unat (x - edi) \<noteq> 0\<close> show ?thesis by auto
    qed
    finally show ?thesis by simp
  qed
qed simp

lemma movsb_down_eq:
  assumes "unat src + n \<le> 2 ^ 32" and "unat dest + n \<le> 2 ^ 32" and "src \<le> dest"
  shows "movsb_down n (src + of_nat n - 1) (dest + of_nat n - 1) m x =
    (if unat (x - dest) < n then m (src + (x - dest)) else m x)"
  using assms
proof (induction n arbitrary: m)
  case (Suc n)
  let ?m = "m(dest + of_nat n := m (src + of_nat n))"
  have n: "unat (of_nat n :: u32) = n" using Suc.prems by (simp add: unat_of_nat_u32)
  have "movsb_down (Suc n) (src + of_nat (Suc n) - 1) (dest + of_nat (Suc n) - 1) m x =
    movsb_down n (src + of_nat n - 1) (dest + of_nat n - 1) ?m x" by (simp add: algebra_simps)
  also have "\<dots> = (if unat (x - dest) < n then ?m (src + (x - dest)) else ?m x)"
    using Suc.prems by (intro Suc.IH) auto
  also have "\<dots> = (if unat (x - dest) < Suc n then m (src + (x - dest)) else m x)"
  proof -
    have "x = dest + of_nat n \<longleftrightarrow> x - dest = of_nat n" by (auto simp: algebra_simps)
    then have last: "x = dest + of_nat n \<longleftrightarrow> unat (x - dest) = n" using n by (simp add: word_unat_eq_iff)
    have "src + (x - dest) \<noteq> dest + of_nat n" if "unat (x - dest) < n"
    proof
      assume eq: "src + (x - dest) = dest + of_nat n"
      have "unat (src + (x - dest)) = unat src + unat (x - dest)"
        using that Suc.prems by (auto simp: unat_plus_if')
      moreover have "unat (dest + of_nat n) = unat dest + n"
        using Suc.prems n by (auto simp: unat_plus_if')
      ultimately have "unat src + unat (x - dest) = unat dest + n" by (simp only: eq)
      with that Suc.prems(3) show False by (simp add: word_le_nat_alt)
    qed
    moreover have "src + of_nat n = src + (x - dest)" if "unat (x - dest) = n"
      using that last by auto
    ultimately show ?thesis using last by (auto simp: less_Suc_eq)
  qed
  finally show ?case .
qed simp

text \<open>C25: \<open>memmove\<close> moves a block as if all its bytes were read before the first is written,
  however source and destination overlap, and touches no byte outside the destination.
  Neither block may run past the end of the address space.\<close>
theorem memmove_moves:
  assumes "unat src + unat n \<le> 2 ^ 32" and "unat dest + unat n \<le> 2 ^ 32"
  shows "snd (snd (memmove dest src n m)) =
    (\<lambda>x. if x - dest < n then m (src + (x - dest)) else m x)"
proof
  fix x
  show "snd (snd (memmove dest src n m)) x = (if x - dest < n then m (src + (x - dest)) else m x)"
  proof (cases "dest < src")
    case True
    with movsb_up_eq [OF assms less_imp_le [OF True]] show ?thesis by (simp add: memmove_def word_less_nat_alt)
  next
    case False
    with movsb_down_eq [OF assms leI [OF False]] show ?thesis by (simp add: memmove_def word_less_nat_alt)
  qed
qed

theorem memmove_moves_witness:
  "snd (snd (memmove 101 100 3 (\<lambda>x. ucast x))) =
    (\<lambda>x. if x - 101 < 3 then ucast (100 + (x - 101)) else ucast x)"
  by (rule memmove_moves) simp_all

section \<open>Strings\<close>

text \<open>\<open>str_at m a xs\<close>: the bytes \<open>xs\<close>, none of them NUL, are stored at \<open>a\<close>, with a NUL after them.\<close>

primrec str_at :: "bytes \<Rightarrow> u32 \<Rightarrow> u8 list \<Rightarrow> bool" where
  "str_at m a [] \<longleftrightarrow> m a = 0"
| "str_at m a (x # xs) \<longleftrightarrow> m a = x \<and> x \<noteq> 0 \<and> str_at m (a + 1) xs"

lemma repne_scasb_str:
  assumes "str_at m a xs" and "length xs < n"
  shows "repne_scasb n 0 m a zf = (n - Suc (length xs), a + of_nat (Suc (length xs)), True)"
  using assms
proof (induction xs arbitrary: n a zf)
  case Nil
  then show ?case by (cases n) auto
next
  case (Cons x xs)
  then show ?case by (cases n) (auto simp: algebra_simps)
qed

lemma scan_len_str:
  assumes "str_at m a xs" and "length xs < 2 ^ 32 - 1"
  shows "scan_len m a = of_nat (length xs)" and "scan_end m a = a + of_nat (length xs)"
proof -
  have r: "repne_scasb 0xffffffff 0 m a False =
      (0xffffffff - Suc (length xs), a + of_nat (Suc (length xs)), True)"
    using assms by (intro repne_scasb_str) auto
  have "of_nat (0xffffffff - Suc (length xs)) = (0xffffffff - (1 + of_nat (length xs)) :: u32)"
    using assms(2) by (subst of_nat_diff) auto
  then show "scan_len m a = of_nat (length xs)"
    by (simp add: scan_len_def r not_eq_complement)
  show "scan_end m a = a + of_nat (length xs)"
    by (simp add: scan_end_def r)
qed

text \<open>The reference: the first position of \<open>xs\<close> at which \<open>ys\<close> starts.\<close>

primrec first_at :: "'a list \<Rightarrow> 'a list \<Rightarrow> nat option" where
  "first_at ys [] = (if ys = [] then Some 0 else None)"
| "first_at ys (x # xs) = (if prefix ys (x # xs) then Some 0 else map_option Suc (first_at ys xs))"

lemma first_at_long: "length xs < length ys \<Longrightarrow> first_at ys xs = None"
  by (induction xs) (auto dest: prefix_length_le)

lemma repe_cmpsb_str:
  assumes "str_at m esi xs" and "str_at m edi ys"
  shows "case repe_cmpsb (length ys) m esi edi zf lt of (esi', zf', _) \<Rightarrow>
      zf' = (if ys = [] then zf else prefix ys xs) \<and>
      (ys \<noteq> [] \<longrightarrow> \<not> prefix ys xs \<longrightarrow> (m (esi' - 1) = 0 \<longleftrightarrow> strict_prefix xs ys))"
  using assms
proof (induction ys arbitrary: xs esi edi zf lt)
  case (Cons y ys)
  show ?case
  proof (cases xs)
    case Nil
    then show ?thesis using Cons.prems by auto
  next
    case (Cons x xs')
    with Cons.prems have "str_at m (esi + 1) xs'" "str_at m (edi + 1) ys" by auto
    from Cons.IH [OF this, of True False] Cons Cons.prems show ?thesis
      by (cases ys) (auto split: prod.splits)
  qed
qed simp

lemma strstr_loop_first:
  assumes "str_at m esi xs" and "str_at m ct ys" and "length ys < 2 ^ 32 - 1"
    and "length xs < fuel" and "ys = [] \<longrightarrow> zf"
  shows "strstr_loop fuel ct (of_nat (length ys)) m esi zf =
    Some (case first_at ys xs of None \<Rightarrow> 0 | Some i \<Rightarrow> esi + of_nat i)"
  using assms
proof (induction fuel arbitrary: xs esi zf)
  case (Suc fuel)
  obtain esi' zf' lt' where r: "repe_cmpsb (length ys) m esi ct zf False = (esi', zf', lt')"
    by (cases "repe_cmpsb (length ys) m esi ct zf False") auto
  from repe_cmpsb_str [OF Suc.prems(1,2), of zf False] r Suc.prems(5)
  have zf': "zf' = prefix ys xs"
    and nul: "\<not> prefix ys xs \<Longrightarrow> m (esi' - 1) = 0 \<longleftrightarrow> strict_prefix xs ys" by (auto split: if_splits)
  have len: "unat (of_nat (length ys) :: u32) = length ys" using Suc.prems(3) by (simp add: unat_of_nat_u32)
  show ?case
  proof (cases "prefix ys xs")
    case True
    then have "first_at ys xs = Some 0" by (cases xs) auto
    with True zf' r len show ?thesis by simp
  next
    case no: False
    show ?thesis
    proof (cases "strict_prefix xs ys")
      case True
      then have "first_at ys xs = None" by (intro first_at_long prefix_length_less)
      with True no nul zf' r len show ?thesis by simp
    next
      case False
      with no have "xs \<noteq> []" by (auto simp: strict_prefix_def)
      then obtain x xs' where xs: "xs = x # xs'" by (cases xs) auto
      have "strstr_loop fuel ct (of_nat (length ys)) m (esi + 1) False =
        Some (case first_at ys xs' of None \<Rightarrow> 0 | Some i \<Rightarrow> esi + 1 + of_nat i)"
        using Suc.prems xs no by (intro Suc.IH) auto
      with False no nul zf' r len xs show ?thesis by (auto split: option.splits simp: algebra_simps)
    qed
  qed
qed simp

text \<open>on two NUL-terminated strings \<open>strstr\<close> returns the address of the first occurrence of
  the second in the first, and NULL when there is none; as many passes as the first string
  has bytes, and one more, are enough.\<close>
lemma strstr_finds_first:
  assumes "str_at m cs xs" and "str_at m ct ys" and "length ys < 2 ^ 32 - 1" and "length xs < fuel"
  shows "strstr fuel cs ct m = Some (case first_at ys xs of None \<Rightarrow> 0 | Some i \<Rightarrow> cs + of_nat i)"
proof -
  have "(of_nat (length ys) = (0 :: u32)) = (ys = [])"
    using assms(3) by (simp add: word_unat_eq_iff unat_of_nat_u32)
  then show ?thesis
    using scan_len_str(1) [OF assms(2,3)] strstr_loop_first [OF assms, of "ys = []"]
    by (simp add: strstr_def)
qed

text \<open>\<open>kernel\<close> at 16 and \<open>ne\<close> at 32.\<close>

definition str_demo :: bytes where
  "str_demo = (\<lambda>a. if 16 \<le> a \<and> a < 22 then [107, 101, 114, 110, 101, 108] ! unat (a - 16)
     else if a = 32 then 110 else if a = 33 then 101 else 0)"

end
