(* ===== verification/Vsprintf.thy ===== *)
theory Vsprintf
  imports Kstring
begin

unbundle bit_operations_syntax

text \<open>
  Formatted output, \<^verbatim>\<open>kernel/vsprintf.c\<close>. The characters written through \<open>str\<close> are a
  list, which grows at its end; a format is the list of its characters up to the NUL, an
  argument list a list of 32-bit words, and strings among the arguments are read from a byte
  memory, which the buffer does not overlap. Taking an argument that is not there is \<open>None\<close>.
\<close>

section \<open>Digits\<close>

definition is_digit :: "char \<Rightarrow> bool" where
  "is_digit c \<longleftrightarrow> of_char c \<ge> (48 :: nat) \<and> of_char c \<le> (57 :: nat)"

text \<open>\<open>skip_atoi\<close>, with the sum so far; the signed arithmetic wraps.\<close>

fun skip_atoi :: "string \<Rightarrow> int \<Rightarrow> int \<times> string" where
  "skip_atoi [] i = (i, [])"
| "skip_atoi (c # s) i =
     (if is_digit c then skip_atoi s (s32 (i * 10 + of_char c - 48)) else (i, c # s))"

definition ZEROPAD :: u32 where "ZEROPAD = 1"
definition SIGN :: u32 where "SIGN = 2"
definition PLUS :: u32 where "PLUS = 4"
definition SPACE :: u32 where "SPACE = 8"
definition LEFTADJ :: u32 where "LEFTADJ = 16"
definition SPECIAL :: u32 where "SPECIAL = 32"
definition SMALL :: u32 where "SMALL = 64"

definition has :: "u32 \<Rightarrow> u32 \<Rightarrow> bool" where
  "has type flag \<longleftrightarrow> type AND flag \<noteq> 0"

definition big_digits :: string where
  "big_digits = ''0123456789ABCDEFGHIJKLMNOPQRSTUVWXYZ''"

definition small_digits :: string where
  "small_digits = ''0123456789abcdefghijklmnopqrstuvwxyz''"

text \<open>\<open>do_div\<close>: one \<^verbatim>\<open>divl\<close>, unsigned; the quotient and the remainder.\<close>

definition do_div :: "u32 \<Rightarrow> u32 \<Rightarrow> u32 \<times> nat" where
  "do_div n base = (n div base, unat (n mod base))"

text \<open>The loop over \<open>tmp\<close>, least digit first. \<open>number\<close> has checked the base; with a base
  below 2 the loop would not end.\<close>

function tmp_digits :: "string \<Rightarrow> u32 \<Rightarrow> u32 \<Rightarrow> string" where
  "tmp_digits digits base num =
     (if num = 0 \<or> base < 2 then []
      else let (num, r) = do_div num base in digits ! r # tmp_digits digits base num)"
  by auto

lemma div_decreases: "(num :: u32) \<noteq> 0 \<Longrightarrow> \<not> base < 2 \<Longrightarrow> unat (num div base) < unat num"
  by (simp add: unat_div word_less_nat_alt unat_gt_0)

termination tmp_digits
  by (relation "measure (\<lambda>(_, _, n). unat n)") (auto simp: do_div_def div_decreases)

declare tmp_digits.simps [simp del]

section \<open>Padding\<close>

text \<open>\<^verbatim>\<open>while (lo < n--) *str++ = c;\<close> and \<^verbatim>\<open>while (--n > 0) *str++ = c;\<close>: what is written and
  the value \<open>n\<close> is left with.\<close>

function pad_post :: "char \<Rightarrow> int \<Rightarrow> int \<Rightarrow> string \<times> int" where
  "pad_post c lo n = (if lo < n then (let (out, n) = pad_post c lo (n - 1) in (c # out, n)) else ([], n - 1))"
  by auto

termination pad_post
  by (relation "measure (\<lambda>(_, lo, n). nat (n - lo))") auto

function pad_pre :: "char \<Rightarrow> int \<Rightarrow> string \<times> int" where
  "pad_pre c n = (let n = n - 1 in if n > 0 then (let (out, n) = pad_pre c n in (c # out, n)) else ([], n))"
  by auto

termination pad_pre
  by (relation "measure (\<lambda>(_, n). nat n)") auto

declare pad_post.simps [simp del] pad_pre.simps [simp del]

lemma pad_post_eq: "pad_post c lo n = (replicate (nat (n - lo)) c, min n lo - 1)"
proof (induction c lo n rule: pad_post.induct)
  case (1 c lo n)
  show ?case
  proof (cases "lo < n")
    case True
    then have "nat (n - lo) = Suc (nat (n - 1 - lo))" by simp
    with 1 [OF True] True show ?thesis by (subst pad_post.simps) simp
  qed (subst pad_post.simps, simp)
qed

lemma pad_pre_eq: "pad_pre c n = (replicate (nat (n - 1)) c, min (n - 1) 0)"
proof (induction c n rule: pad_pre.induct)
  case (1 c n)
  show ?case
  proof (cases "n - 1 > 0")
    case True
    then have "nat (n - 1) = Suc (nat (n - 1 - 1))" by simp
    with 1 [OF refl True] True show ?thesis by (subst pad_pre.simps) simp
  qed (subst pad_pre.simps, simp)
qed

section \<open>number\<close>

text \<open>What \<open>number\<close> writes; \<open>None\<close> is its early return of a null pointer.\<close>

definition number :: "u32 \<Rightarrow> int \<Rightarrow> int \<Rightarrow> int \<Rightarrow> u32 \<Rightarrow> string option" where
  "number num base sz precision type =
     (let digits = (if has type SMALL then small_digits else big_digits);
          type = (if has type LEFTADJ then type AND NOT ZEROPAD else type) in
      if base < 2 \<or> base > 36 then None
      else let
        c = (if has type ZEROPAD then CHR ''0'' else CHR '' '');
        neg = (has type SIGN \<and> num <s 0);
        sign = (if neg then [CHR ''-''] else if has type PLUS then [CHR ''+'']
                else if has type SPACE then [CHR '' ''] else []);
        num = (if neg then - num else num);
        sz = (if sign \<noteq> [] then sz - 1 else sz);
        sz = (if has type SPECIAL then if base = 16 then sz - 2 else if base = 8 then sz - 1 else sz
                else sz);
        tmp = (if num = 0 then [CHR ''0''] else tmp_digits digits (word_of_int base) num);
        i = int (length tmp);
        precision = (if i > precision then i else precision);
        sz = sz - precision;
        (lead, sz) = (if \<not> has type (ZEROPAD + LEFTADJ) then pad_post (CHR '' '') 0 sz else ([], sz));
        special = (if has type SPECIAL then
                     if base = 8 then [CHR ''0''] else if base = 16 then [CHR ''0'', digits ! 33] else []
                   else []);
        (fill, sz) = (if \<not> has type LEFTADJ then pad_post c 0 sz else ([], sz));
        (zeros, _) = pad_post (CHR ''0'') i precision;
        (trail, _) = pad_post (CHR '' '') 0 sz in
      Some (lead @ sign @ special @ fill @ zeros @ rev tmp @ trail))"

section \<open>vsprintf\<close>

text \<open>The flags after a percent sign.\<close>

fun parse_flags :: "string \<Rightarrow> u32 \<Rightarrow> string \<times> u32" where
  "parse_flags [] flags = ([], flags)"
| "parse_flags (c # fmt) flags =
     (if c = CHR ''-'' then parse_flags fmt (flags OR LEFTADJ)
      else if c = CHR ''+'' then parse_flags fmt (flags OR PLUS)
      else if c = CHR '' '' then parse_flags fmt (flags OR SPACE)
      else if c = CHR ''#'' then parse_flags fmt (flags OR SPECIAL)
      else if c = CHR ''0'' then parse_flags fmt (flags OR ZEROPAD)
      else (c # fmt, flags))"

text \<open>\<open>va_arg\<close> of a word, and the character under \<open>fmt\<close>, NUL at its end.\<close>

definition va_arg :: "u32 list \<Rightarrow> (u32 \<times> u32 list) option" where
  "va_arg args = (case args of [] \<Rightarrow> None | a # args \<Rightarrow> Some (a, args))"

definition at :: "string \<Rightarrow> char" where
  "at fmt = (case fmt of [] \<Rightarrow> CHR 0x00 | c # _ \<Rightarrow> c)"

text \<open>The field width: digits, or the next argument. The star is not skipped.\<close>

definition field_width ::
  "string \<Rightarrow> u32 \<Rightarrow> u32 list \<Rightarrow> (int \<times> string \<times> u32 \<times> u32 list) option" where
  "field_width fmt flags args =
     (if is_digit (at fmt) then let (w, fmt) = skip_atoi fmt 0 in Some (w, fmt, flags, args)
      else if at fmt = CHR ''*'' then
        (case va_arg args of
           None \<Rightarrow> None
         | Some (a, args) \<Rightarrow>
             if a <s 0 then Some (sint (- a), fmt, flags OR LEFTADJ, args)
             else Some (sint a, fmt, flags, args))
      else Some (- 1, fmt, flags, args))"

definition precision_of :: "string \<Rightarrow> u32 list \<Rightarrow> (int \<times> string \<times> u32 list) option" where
  "precision_of fmt args =
     (if at fmt = CHR ''.'' then
        let fmt = tl fmt in
        if is_digit (at fmt) then let (p, fmt) = skip_atoi fmt 0 in Some (max p 0, fmt, args)
        else if at fmt = CHR ''*'' then
          (case va_arg args of None \<Rightarrow> None | Some (a, args) \<Rightarrow> Some (max (sint a) 0, fmt, args))
        else Some (0, fmt, args)
      else Some (- 1, fmt, args))"

text \<open>\<open>%c\<close> and \<open>%s\<close>.\<close>

definition conv_c :: "u32 \<Rightarrow> int \<Rightarrow> u32 \<Rightarrow> string" where
  "conv_c flags width a =
     (let (lead, width) = (if \<not> has flags LEFTADJ then pad_pre (CHR '' '') width else ([], width));
          (trail, _) = pad_pre (CHR '' '') width in
      lead @ [char_of (unat (ucast a :: u8))] @ trail)"

definition conv_s :: "u32 \<Rightarrow> int \<Rightarrow> int \<Rightarrow> u32 \<Rightarrow> bytes \<Rightarrow> string" where
  "conv_s flags width precision s m =
     (let len = sint (strlen s m);
          len = (if precision < 0 then len else if len > precision then precision else len);
          (lead, width) = (if \<not> has flags LEFTADJ then pad_post (CHR '' '') len width else ([], width));
          (trail, _) = pad_post (CHR '' '') len width in
      lead @ map (\<lambda>i. char_of (unat (m (s + of_nat i)))) [0..<nat len] @ trail)"

text \<open>The integer conversions: base, flags and width of each letter.\<close>

definition conv_int :: "char \<Rightarrow> u32 \<Rightarrow> int \<Rightarrow> (int \<times> int \<times> u32) option" where
  "conv_int c flags width =
     (if c = CHR ''o'' then Some (8, width, flags)
      else if c = CHR ''p'' then
        (if width = - 1 then Some (16, 8, flags OR ZEROPAD) else Some (16, width, flags))
      else if c = CHR ''x'' then Some (16, width, flags OR SMALL)
      else if c = CHR ''X'' then Some (16, width, flags)
      else if c = CHR ''d'' \<or> c = CHR ''i'' then Some (10, width, flags OR SIGN)
      else if c = CHR ''u'' then Some (10, width, flags)
      else None)"

text \<open>One conversion, at the character that selects it: the output and the stores of \<open>%n\<close>
  so far, the new ones, the arguments left.\<close>

type_synonym vs_out = "string \<times> (u32 \<times> u32) list"

definition convert ::
  "char \<Rightarrow> u32 \<Rightarrow> int \<Rightarrow> int \<Rightarrow> bytes \<Rightarrow> u32 list \<Rightarrow> vs_out \<Rightarrow> (vs_out \<times> u32 list) option" where
  "convert c flags width precision m args out =
     (if c \<in> {CHR ''c'', CHR ''s'', CHR ''n''} \<or> conv_int c flags width \<noteq> None then
        (case va_arg args of
           None \<Rightarrow> None
         | Some (a, args) \<Rightarrow>
             if c = CHR ''c'' then Some ((fst out @ conv_c flags width a, snd out), args)
             else if c = CHR ''s'' then Some ((fst out @ conv_s flags width precision a m, snd out), args)
             else if c = CHR ''n'' then
               Some ((fst out, snd out @ [(a, of_nat (length (fst out)))]), args)
             else (case conv_int c flags width of
                None \<Rightarrow> None
              | Some (base, width, flags) \<Rightarrow>
                  map_option (\<lambda>s. ((fst out @ s, snd out), args)) (number a base width precision flags)))
      else Some ((fst out @ (if c \<noteq> CHR ''%'' then [CHR ''%''] else []) @
                  (if c \<noteq> CHR 0x00 then [c] else []), snd out), args))"

text \<open>From the percent sign to the character that selects the conversion.\<close>

definition vs_spec ::
  "string \<Rightarrow> u32 list \<Rightarrow> (string \<times> u32 \<times> int \<times> int \<times> u32 list) option" where
  "vs_spec fmt args =
     (let (fmt, flags) = parse_flags fmt 0 in
      case field_width fmt flags args of
        None \<Rightarrow> None
      | Some (width, fmt, flags, args) \<Rightarrow>
          (case precision_of fmt args of
             None \<Rightarrow> None
           | Some (precision, fmt, args) \<Rightarrow>
               let fmt = (if at fmt \<in> {CHR ''h'', CHR ''l'', CHR ''L''} then tl fmt else fmt) in
               Some (fmt, flags, width, precision, args)))"

lemma skip_atoi_shorter: "length (snd (skip_atoi fmt i)) \<le> length fmt"
  by (induction fmt i rule: skip_atoi.induct) auto

lemma parse_flags_shorter: "length (fst (parse_flags fmt flags)) \<le> length fmt"
  by (induction fmt flags rule: parse_flags.induct) auto

lemma field_width_shorter:
  "field_width fmt flags args = Some (w, fmt', flags', args') \<Longrightarrow> length fmt' \<le> length fmt"
  using skip_atoi_shorter [of fmt 0]
  by (auto simp: field_width_def split: if_splits option.splits prod.splits)

lemma precision_of_shorter:
  "precision_of fmt args = Some (p, fmt', args') \<Longrightarrow> length fmt' \<le> length fmt"
  using skip_atoi_shorter [of "tl fmt" 0]
  by (auto simp: precision_of_def Let_def split: if_splits option.splits prod.splits)

lemma vs_spec_shorter:
  assumes "vs_spec fmt args = Some (fmt', x)"
  shows "length fmt' \<le> length fmt"
proof -
  obtain fmt1 flags where p: "parse_flags fmt 0 = (fmt1, flags)" by (cases "parse_flags fmt 0")
  from assms p obtain w fmt2 flags2 args2 where f: "field_width fmt1 flags args = Some (w, fmt2, flags2, args2)"
    by (auto simp: vs_spec_def split: option.splits prod.splits)
  from assms p f obtain q fmt3 args3 where q: "precision_of fmt2 args2 = Some (q, fmt3, args3)"
    by (auto simp: vs_spec_def split: option.splits prod.splits)
  have "length fmt' \<le> length fmt3" using assms p f q by (auto simp: vs_spec_def Let_def split: if_splits)
  also have "\<dots> \<le> length fmt2" by (rule precision_of_shorter [OF q])
  also have "\<dots> \<le> length fmt1" by (rule field_width_shorter [OF f])
  also have "\<dots> \<le> length fmt" using parse_flags_shorter [of fmt 0] p by simp
  finally show ?thesis .
qed

function vs_loop :: "string \<Rightarrow> bytes \<Rightarrow> u32 list \<Rightarrow> vs_out \<Rightarrow> vs_out option" where
  "vs_loop [] m args out = Some out"
| "vs_loop (c # fmt) m args out =
     (if c \<noteq> CHR ''%'' then vs_loop fmt m args (fst out @ [c], snd out)
      else case vs_spec fmt args of
        None \<Rightarrow> None
      | Some (fmt', flags, width, precision, args) \<Rightarrow>
          (case convert (at fmt') flags width precision m args out of
             None \<Rightarrow> None
           | Some (out, args) \<Rightarrow> vs_loop (tl fmt') m args out))"
  by pat_completeness auto

termination vs_loop
  by (relation "measure (\<lambda>(fmt, _). length fmt)") (auto dest: vs_spec_shorter simp: le_imp_less_Suc)

text \<open>\<open>vsprintf\<close>: the text without the closing NUL, the stores of \<open>%n\<close>, and the result.\<close>

definition vsprintf :: "string \<Rightarrow> bytes \<Rightarrow> u32 list \<Rightarrow> (string \<times> (u32 \<times> u32) list \<times> int) option" where
  "vsprintf fmt m args =
     map_option (\<lambda>(out, stores). (out, stores, int (length out))) (vs_loop fmt m args ([], []))"

section \<open>What number prints can be read back\<close>

definition digit_val :: "char \<Rightarrow> nat" where
  "digit_val c = (let n = of_char c in if n \<le> 57 then n - 48 else if n \<le> 90 then n - 55 else n - 87)"

definition value_of :: "nat \<Rightarrow> string \<Rightarrow> nat" where
  "value_of base ds = foldl (\<lambda>v c. v * base + digit_val c) 0 ds"

lemma value_of_snoc [simp]: "value_of base (ds @ [c]) = value_of base ds * base + digit_val c"
  by (simp add: value_of_def)

lemma value_of_zeros: "value_of base (replicate n (CHR ''0'') @ ds) = value_of base ds"
proof -
  have "foldl (\<lambda>v c. v * base + digit_val c) 0 (replicate n (CHR ''0'')) = 0"
    by (induction n) (simp_all add: digit_val_def)
  then show ?thesis by (simp add: value_of_def)
qed

lemma digit_val_digits:
  assumes "r < 36"
  shows "digit_val (big_digits ! r) = r" and "digit_val (small_digits ! r) = r"
proof -
  have "map digit_val big_digits = [0..<36]" "map digit_val small_digits = [0..<36]"
    by (simp_all add: digit_val_def big_digits_def small_digits_def upt_rec)
  moreover have "length big_digits = 36" "length small_digits = 36" by (simp_all add: big_digits_def small_digits_def)
  ultimately have "map digit_val big_digits ! r = r" "map digit_val small_digits ! r = r" using assms by simp_all
  then show "digit_val (big_digits ! r) = r" "digit_val (small_digits ! r) = r"
    using assms \<open>length big_digits = 36\<close> \<open>length small_digits = 36\<close> by simp_all
qed

lemma tmp_digits_value:
  assumes "digits = big_digits \<or> digits = small_digits" and "2 \<le> base" and "base \<le> 36"
  shows "value_of (unat base) (rev (tmp_digits digits base num)) = unat num"
  using assms
proof (induction digits base num rule: tmp_digits.induct)
  case (1 digits base num)
  show ?case
  proof (cases "num = 0")
    case True
    then show ?thesis by (subst tmp_digits.simps) (simp add: value_of_def)
  next
    case False
    have b: "\<not> base < 2" "unat base \<le> 36" "0 < unat base" using "1.prems" by (auto simp: word_le_nat_alt word_less_nat_alt)
    have "unat (num mod base) < 36"
      using b mod_less_divisor [OF b(3), of "unat num"] by (simp add: unat_mod)
    then have d: "digit_val (digits ! unat (num mod base)) = unat (num mod base)"
      using "1.prems" digit_val_digits by auto
    have ih: "value_of (unat base) (rev (tmp_digits digits base (num div base))) = unat (num div base)"
      using 1 False b by (simp add: do_div_def)
    have "tmp_digits digits base num = digits ! unat (num mod base) # tmp_digits digits base (num div base)"
      using False b by (subst tmp_digits.simps) (simp add: do_div_def)
    then show ?thesis using ih d by (simp add: unat_div unat_mod)
  qed
qed

lemma has_clear:
  "has (ty AND NOT ZEROPAD) SIGN = has ty SIGN" "has (ty AND NOT ZEROPAD) PLUS = has ty PLUS"
  "has (ty AND NOT ZEROPAD) SPACE = has ty SPACE" "has (ty AND NOT ZEROPAD) SPECIAL = has ty SPECIAL"
  "has (ty AND NOT ZEROPAD) LEFTADJ = has ty LEFTADJ" "\<not> has (ty AND NOT ZEROPAD) ZEROPAD"
  by (simp_all add: has_def and.assoc SIGN_def PLUS_def SPACE_def SPECIAL_def LEFTADJ_def ZEROPAD_def)

lemma has_padding: "has ty (ZEROPAD + LEFTADJ) \<longleftrightarrow> has ty ZEROPAD \<or> has ty LEFTADJ"
proof -
  have "ZEROPAD + LEFTADJ = ZEROPAD OR LEFTADJ" by (simp add: ZEROPAD_def LEFTADJ_def)
  then show ?thesis by (simp add: has_def bit.conj_disj_distrib or_eq_0_iff)
qed

text \<open>The sign, the base prefix and the least digits of a number.\<close>

definition sign_of :: "u32 \<Rightarrow> u32 \<Rightarrow> string" where
  "sign_of ty num = (if has ty SIGN \<and> num <s 0 then ''-'' else if has ty PLUS then ''+''
     else if has ty SPACE then '' '' else [])"

definition prefix_of :: "u32 \<Rightarrow> int \<Rightarrow> string" where
  "prefix_of ty base = (if \<not> has ty SPECIAL then [] else if base = 8 then ''0''
     else if base = 16 then (if has ty SMALL then ''0x'' else ''0X'') else [])"

definition magnitude :: "u32 \<Rightarrow> u32 \<Rightarrow> nat" where
  "magnitude ty num = (if has ty SIGN \<and> num <s 0 then nat (- sint num) else unat num)"

definition digits_of :: "u32 \<Rightarrow> int \<Rightarrow> u32 \<Rightarrow> string" where
  "digits_of ty base num = (if num = 0 then ''0'' else
     rev (tmp_digits (if has ty SMALL then small_digits else big_digits) (word_of_int base) num))"

lemma digits_of_value:
  assumes "2 \<le> base" and "base \<le> 36"
  shows "value_of (nat base) (digits_of ty base num) = unat num"
proof (cases "num = 0")
  case True
  then show ?thesis by (simp add: digits_of_def value_of_def digit_val_def)
next
  case False
  have u: "unat (word_of_int base :: u32) = nat base" using assms by (simp add: unsigned_of_int take_bit_int_eq_self)
  then have "2 \<le> (word_of_int base :: u32)" "(word_of_int base :: u32) \<le> 36"
    using assms by (auto simp: word_le_nat_alt nat_le_iff)
  from tmp_digits_value [OF _ this] False u show ?thesis by (simp add: digits_of_def)
qed

lemma unat_neg_neg: "(num :: u32) <s 0 \<Longrightarrow> unat (- num) = nat (- sint num)"
proof -
  assume "num <s 0"
  then have "sint num < 0" by (simp add: word_sless_alt)
  moreover have "- 2147483648 \<le> sint num" using sint_ge [of num] by simp
  moreover have "uint (- num) = take_bit 32 (- sint num)"
  proof -
    have "- num = word_of_int (- sint num)" by simp
    then have "uint (- num) = uint (word_of_int (- sint num) :: u32)" by (rule arg_cong)
    then show ?thesis by (simp only: unsigned_of_int) simp
  qed
  ultimately show ?thesis by (simp add: take_bit_int_eq_self unat_eq_nat_uint)
qed


lemma number_eq:
  assumes "2 \<le> base" and "base \<le> 36"
    and sg: "sg = sign_of ty num" and sp: "sp = prefix_of ty base"
    and ds: "ds = digits_of ty base (if has ty SIGN \<and> num <s 0 then - num else num)"
    and zeros: "zeros = replicate (nat (precision - int (length ds))) (CHR ''0'')"
    and gap: "gap = nat (sz - int (length sg) - int (length sp) - int (length zeros) - int (length ds))"
  shows "number num base sz precision ty = Some (
    if has ty LEFTADJ then sg @ sp @ zeros @ ds @ replicate gap (CHR '' '')
    else if has ty ZEROPAD then sg @ sp @ replicate gap (CHR ''0'') @ zeros @ ds
    else replicate gap (CHR '' '') @ sg @ sp @ zeros @ ds)"
proof -
  have z: "int (length zeros) = (if precision > int (length ds) then precision - int (length ds) else 0)"
    by (simp add: zeros)
  have x: "big_digits ! 33 = CHR ''X''" "small_digits ! 33 = CHR ''x''"
    by (simp_all add: big_digits_def small_digits_def)
  define d where "d = (if has ty SMALL then small_digits else big_digits)"
  define n where "n = (if has ty SIGN \<and> num <s 0 then - num else num)"
  define tmp where "tmp = (if n = 0 then [CHR ''0''] else tmp_digits d (word_of_int base) n)"
  have tmp: "ds = rev tmp" by (simp add: ds tmp_def digits_of_def n_def d_def)
  define w where "w = (if has ty SPECIAL then
        if base = 16 then (if sg \<noteq> [] then sz - 1 else sz) - 2
        else if base = 8 then (if sg \<noteq> [] then sz - 1 else sz) - 1 else (if sg \<noteq> [] then sz - 1 else sz)
      else (if sg \<noteq> [] then sz - 1 else sz)) -
      (if int (length tmp) > precision then int (length tmp) else precision)"
  have w: "gap = nat w" unfolding gap z sg sp w_def by (auto simp: tmp sign_of_def prefix_of_def)
  have zs: "zeros = replicate (nat ((if int (length tmp) > precision then int (length tmp) else precision) - int (length tmp))) (CHR ''0'')"
    by (auto simp: zeros tmp)
  have sp': "sp = (if has ty SPECIAL then
                     if base = 8 then [CHR ''0''] else if base = 16 then [CHR ''0'', d ! 33] else []
                   else [])" by (simp add: sp prefix_of_def d_def x)
  have sg': "sg = (if has ty SIGN \<and> num <s 0 then [CHR ''-''] else if has ty PLUS then [CHR ''+'']
                else if has ty SPACE then [CHR '' ''] else [])" by (simp add: sg sign_of_def)
  have b: "\<not> (base < 2 \<or> base > 36)" using assms by simp
  note folds = n_def [symmetric] sg' [symmetric] sp' [symmetric] tmp_def [symmetric] zs [symmetric]
  show ?thesis
    unfolding number_def Let_def has_padding pad_post_eq d_def [symmetric]
    by (cases "has ty LEFTADJ"; cases "has ty ZEROPAD";
        simp only: if_True if_False b has_clear simp_thms prod.case folds w_def [symmetric];
        simp add: tmp w)
qed

text \<open>C26: for every base from 2 to 36, \<open>number\<close> prints spaces, the sign, the prefix of the base, digits
  and spaces, and the digits read back as the magnitude of the number, also for the most
  negative integer, whose negation wraps. At least as many digits as the precision asks for
  and as many characters as the width asks for are written.\<close>
theorem number_reads_back:
  assumes "2 \<le> base" and "base \<le> 36"
  shows "\<exists>l ds r. number num base sz precision ty =
        Some (l @ sign_of ty num @ prefix_of ty base @ ds @ r) \<and>
      set l \<subseteq> {CHR '' ''} \<and> set r \<subseteq> {CHR '' ''} \<and>
      value_of (nat base) ds = magnitude ty num \<and> precision \<le> int (length ds) \<and>
      sz \<le> int (length (l @ sign_of ty num @ prefix_of ty base @ ds @ r))"
proof -
  define ds where "ds = digits_of ty base (if has ty SIGN \<and> num <s 0 then - num else num)"
  define zeros where "zeros = replicate (nat (precision - int (length ds))) (CHR ''0'')"
  define gap where "gap = nat (sz - int (length (sign_of ty num)) - int (length (prefix_of ty base)) -
     int (length zeros) - int (length ds))"
  note eq = number_eq [OF assms refl refl ds_def zeros_def gap_def]
  have v: "value_of (nat base) (zeros @ ds) = magnitude ty num"
    unfolding zeros_def value_of_zeros ds_def digits_of_value [OF assms]
    by (simp add: magnitude_def unat_neg_neg)
  have v0: "value_of (nat base) (replicate gap (CHR ''0'') @ zeros @ ds) = magnitude ty num"
    by (simp add: value_of_zeros v)
  have p: "precision \<le> int (length (zeros @ ds))" by (simp add: zeros_def)
  let ?l = "if has ty LEFTADJ \<or> has ty ZEROPAD then [] else replicate gap (CHR '' '')"
  let ?z = "if \<not> has ty LEFTADJ \<and> has ty ZEROPAD then replicate gap (CHR ''0'') else []"
  let ?r = "if has ty LEFTADJ then replicate gap (CHR '' '') else []"
  show ?thesis
    by (rule exI [of _ ?l], rule exI [of _ "?z @ zeros @ ds"], rule exI [of _ ?r])
      (use v v0 p eq in \<open>auto simp: gap_def\<close>)
qed

theorem number_reads_back_witness:
  "\<exists>l ds r. number 0x80000000 10 12 (- 1) SIGN =
        Some (l @ sign_of SIGN 0x80000000 @ prefix_of SIGN 10 @ ds @ r) \<and>
      set l \<subseteq> {CHR '' ''} \<and> set r \<subseteq> {CHR '' ''} \<and>
      value_of (nat 10) ds = magnitude SIGN 0x80000000 \<and> - 1 \<le> int (length ds) \<and>
      12 \<le> int (length (l @ sign_of SIGN 0x80000000 @ prefix_of SIGN 10 @ ds @ r))"
  by (rule number_reads_back) simp_all

text \<open>A star in the place of a field width takes an argument, but is not skipped: it is then
  read as an unknown conversion, so that \<^verbatim>\<open>%*d\<close> prints itself and not the number.\<close>
theorem vsprintf_star:
  "vsprintf ''%*d'' m (w # n # args) = Some (''%*d'', [], 3)"
proof -
  have "vs_spec ''*d'' (w # n # args) =
     Some (''*d'', if w <s 0 then LEFTADJ else 0, if w <s 0 then sint (- w) else sint w, - 1, n # args)"
    by (simp add: vs_spec_def field_width_def at_def is_digit_def va_arg_def precision_of_def)
  then show ?thesis by (simp add: vsprintf_def at_def convert_def conv_int_def)
qed

end
