(* ===== verification/Mktime.thy ===== *)
theory Mktime
  imports K_Prelude
begin

text \<open>
  The clock of the kernel: \<open>kernel_mktime\<close> of \<^verbatim>\<open>kernel/mktime.c\<close>, and that it agrees
  with the Gregorian calendar for the years 1970 to 2099. The two-digit year counts from 1900 when
  it is 70 or more, and from 2000 otherwise.
\<close>

record tm =
  tm_sec :: int
  tm_min :: int
  tm_hour :: int
  tm_mday :: int
  tm_mon :: int
  tm_year :: int

definition MINUTE :: int where "MINUTE = 60"
definition HOUR :: int where "HOUR = 60 * MINUTE"
definition DAY :: int where "DAY = 24 * HOUR"
definition YEAR :: int where "YEAR = 365 * DAY"

definition month :: "int list" where
  "month = [0, DAY*(31), DAY*(31+29), DAY*(31+29+31), DAY*(31+29+31+30), DAY*(31+29+31+30+31),
     DAY*(31+29+31+30+31+30), DAY*(31+29+31+30+31+30+31), DAY*(31+29+31+30+31+30+31+31),
     DAY*(31+29+31+30+31+30+31+31+30), DAY*(31+29+31+30+31+30+31+31+30+31),
     DAY*(31+29+31+30+31+30+31+31+30+31+30)]"

definition kernel_mktime :: "tm \<Rightarrow> int" where
  "kernel_mktime t =
     (let year = (if tm_year t \<ge> 70 then tm_year t - 70 else tm_year t + 100 - 70);
          res0 = word_of_int (YEAR * year + DAY * cdiv (year + 1) 4) :: u32;
          res1 = res0 + word_of_int (month ! nat (tm_mon t));
          res2 = (if tm_mon t > 1 \<and> crem (year + 2) 4 \<noteq> 0 then res1 - word_of_int DAY else res1);
          res3 = res2 + word_of_int (DAY * (tm_mday t - 1));
          res4 = res3 + word_of_int (HOUR * tm_hour t);
          res5 = res4 + word_of_int (MINUTE * tm_min t) in
      sint (res5 + word_of_int (tm_sec t)))"

section \<open>The calendar\<close>

definition leap :: "nat \<Rightarrow> bool" where
  "leap y \<longleftrightarrow> 4 dvd y \<and> (\<not> 100 dvd y \<or> 400 dvd y)"

definition month_days :: "nat \<Rightarrow> nat \<Rightarrow> nat" where
  "month_days y m = (if m = 1 then (if leap y then 29 else 28) else if m \<in> {3, 5, 8, 10} then 30 else 31)"

definition year_days :: "nat \<Rightarrow> nat" where
  "year_days y = (\<Sum>m < 12. month_days y m)"

text \<open>Days from the first of January 1970 to the given day; months count from 0, days from 1.\<close>

definition epoch_days :: "nat \<Rightarrow> nat \<Rightarrow> nat \<Rightarrow> int" where
  "epoch_days y m d = int (\<Sum>k \<in> {1970..<y}. year_days k) + int (\<Sum>k < m. month_days y k) + int d - 1"

lemma year_days_eq: "year_days y = (if leap y then 366 else 365)"
  by (simp add: year_days_def month_days_def lessThan_nat_numeral lessThan_Suc)

lemma leap_range:
  assumes "1970 \<le> y" and "y < 2100"
  shows "leap y \<longleftrightarrow> 4 dvd y"
proof -
  have "400 dvd y" if y: "100 dvd y"
  proof -
    from y obtain k where k: "y = 100 * k" by (rule dvdE)
    then have "k = 20" using assms by simp
    then show ?thesis using k by simp
  qed
  then show ?thesis by (auto simp: leap_def)
qed

lemma years_before:
  assumes "k \<le> 130"
  shows "(\<Sum>y \<in> {1970..<1970 + k}. year_days y) = 365 * k + (k + 1) div 4"
  using assms
proof (induction k)
  case (Suc k)
  then have "year_days (1970 + k) = (if 4 dvd 1970 + k then 366 else 365)"
    by (simp add: year_days_eq leap_range)
  moreover have "(k + 2) div 4 = (k + 1) div 4 + (if 4 dvd 1970 + k then 1 else 0)" by presburger
  moreover have "(\<Sum>y \<in> {1970..<1970 + Suc k}. year_days y) = (\<Sum>y \<in> {1970..<1970 + k}. year_days y) + year_days (1970 + k)"
    by (simp only: add_Suc_right sum.atLeastLessThan_Suc)
  ultimately show ?case using Suc by simp
qed simp

lemma months_before:
  assumes "m < 12"
  shows "month ! m - (if m > 1 \<and> \<not> leap y then DAY else 0) = DAY * int (\<Sum>k < m. month_days y k)"
proof -
  have "m \<in> {0, 1, 2, 3, 4, 5, 6, 7, 8, 9, 10, 11}" using assms by (auto simp: numeral_eq_Suc less_Suc_eq)
  then show ?thesis
    by (elim insertE) (simp_all add: month_def month_days_def DAY_def HOUR_def MINUTE_def
        lessThan_nat_numeral lessThan_Suc)
qed

lemma epoch_days_2038: "epoch_days 2038 0 19 = 24855"
  using years_before [of 68] by (simp add: epoch_days_def)

text \<open>C21: for every date from 1970 to 2099, \<open>kernel_mktime\<close> is the number of seconds the
  Gregorian calendar gives since the first of January 1970, as a 32-bit signed number, although it
  only tests whether a year is a multiple of four; up to 03:14:07 on 19 January 2038 that is the
  number of seconds itself.\<close>

theorem kernel_mktime_gregorian:
  assumes "y < 2100" and "1970 \<le> y" and "tm_year t = (if y < 2000 \<or> long then int y - 1900 else int y - 2000)"
    and "long \<or> y < 2070" and "tm_mon t = int m" and "m < 12" and "tm_mday t = int d"
    and "secs = 86400 * epoch_days y m d + 3600 * tm_hour t + 60 * tm_min t + tm_sec t"
  shows "kernel_mktime t = s32 secs \<and> (0 \<le> secs \<and> secs < 2 ^ 31 \<longrightarrow> kernel_mktime t = secs)"
proof -
  define k where "k = y - 1970"
  have k: "y = 1970 + k" "k < 130" using assms(1,2) by (simp_all add: k_def)
  have year: "(if tm_year t \<ge> 70 then tm_year t - 70 else tm_year t + 100 - 70) = int k"
    using assms(3,4) k by (auto split: if_splits)
  have leap: "crem (int k + 2) 4 \<noteq> 0 \<longleftrightarrow> \<not> leap y"
  proof -
    have "leap y \<longleftrightarrow> 4 dvd y" using assms(1,2) by (rule leap_range [rotated])
    then show ?thesis using k by simp presburger
  qed
  have "month ! m - (if m > 1 \<and> \<not> leap y then DAY else 0) = DAY * int (\<Sum>j < m. month_days y j)"
    using assms(6) by (rule months_before)
  moreover have "(\<Sum>j \<in> {1970..<y}. year_days j) = 365 * k + (k + 1) div 4"
    unfolding k(1) using k(2) by (intro years_before) simp
  moreover have "cdiv (int k + 1) 4 = int ((k + 1) div 4)" by (simp add: zdiv_int)
  ultimately have total: "YEAR * int k + DAY * cdiv (int k + 1) 4 + month ! m -
      (if m > 1 \<and> \<not> leap y then DAY else 0) + DAY * (int d - 1) + HOUR * tm_hour t + MINUTE * tm_min t
      + tm_sec t = secs"
    unfolding assms(8) epoch_days_def by (simp add: YEAR_def DAY_def HOUR_def MINUTE_def algebra_simps)
  have "kernel_mktime t = s32 secs"
    unfolding kernel_mktime_def Let_def year total [symmetric] leap assms(5,7) s32_def
    by (cases "m > 1 \<and> \<not> leap y") (auto simp del: of_int_mult)
  then show ?thesis by simp
qed

theorem kernel_mktime_gregorian_witness:
  "kernel_mktime \<lparr>tm_sec = 7, tm_min = 14, tm_hour = 3, tm_mday = 19, tm_mon = 0, tm_year = 38\<rparr> = 2147483647"
  using kernel_mktime_gregorian [of 2038 "\<lparr>tm_sec = 7, tm_min = 14, tm_hour = 3, tm_mday = 19, tm_mon = 0, tm_year = 38\<rparr>" False 0 19 2147483647]
  by (simp add: epoch_days_2038)

end
