(* ===== verification/Startup.thy ===== *)
theory Startup
  imports Hd Proc Mktime
begin

unbundle bit_operations_syntax

text \<open>
  What runs before and beside the tasks: the handlers of the processor's exceptions in
  \<^verbatim>\<open>kernel/traps.c\<close>, the substitute for a coprocessor in \<^verbatim>\<open>kernel/math/math_emulate.c\<close>,
  \<open>panic\<close>, and from \<^verbatim>\<open>init/main.c\<close> the clock and the division of memory that \<open>main\<close> starts with.
  The clock is read through ports of which every reading may give another answer, as in the
  hard disk driver.
\<close>

section \<open>Exceptions\<close>

type_synonym 's trap = "'s ctx \<Rightarrow> u32 list \<Rightarrow> (u32 \<Rightarrow> u8) \<Rightarrow> u16 \<Rightarrow> u16 \<Rightarrow> u32 \<Rightarrow> (unit, 's) kern"

definition do_double_fault :: "'z tty_state_scheme trap" where
  "do_double_fault K = die K ''double fault''"

definition do_general_protection :: "'z tty_state_scheme trap" where
  "do_general_protection K = die K ''general protection''"

definition do_divide_error :: "'z tty_state_scheme trap" where
  "do_divide_error K = die K ''divide error''"

text \<open>\<open>do_int3\<close> only prints: the registers it is given, the three longs at \<open>esp\<close> and the task register.\<close>

definition do_int3 :: "u32 \<Rightarrow> u32 list \<Rightarrow> regs \<Rightarrow> u32 \<Rightarrow> u16 \<Rightarrow> (unit, 'z mm_state_scheme) kern" where
  "do_int3 esp stack r eax tr =
     kseq (printk ''eax ebx ecx edx %8x %8x %8x %8x'' [uint eax, uint (rg_ebx r), uint (rg_ecx r), uint (rg_edx r)])
    (kseq (printk ''esi edi ebp esp %8x %8x %8x %8x'' [uint (rg_esi r), uint (rg_edi r), uint (rg_ebp r), uint esp])
    (kseq (printk ''ds es fs tr %4x %4x %4x %4x'' [uint (rg_ds r), uint (rg_es r), uint (rg_fs r), uint tr])
          (printk ''EIP: %8x   CS: %4x  EFLAGS: %8x'' [uint (stack ! 0), uint (stack ! 1), uint (stack ! 2)])))"

definition do_nmi :: "'z tty_state_scheme trap" where
  "do_nmi K = die K ''nmi''"

definition do_debug :: "'z tty_state_scheme trap" where
  "do_debug K = die K ''debug''"

definition do_overflow :: "'z tty_state_scheme trap" where
  "do_overflow K = die K ''overflow''"

definition do_bounds :: "'z tty_state_scheme trap" where
  "do_bounds K = die K ''bounds''"

definition do_invalid_op :: "'z tty_state_scheme trap" where
  "do_invalid_op K = die K ''invalid operand''"

definition do_device_not_available :: "'z tty_state_scheme trap" where
  "do_device_not_available K = die K ''device not available''"

definition do_coprocessor_segment_overrun :: "'z tty_state_scheme trap" where
  "do_coprocessor_segment_overrun K = die K ''coprocessor segment overrun''"

definition do_invalid_TSS :: "'z tty_state_scheme trap" where
  "do_invalid_TSS K = die K ''invalid TSS''"

definition do_segment_not_present :: "'z tty_state_scheme trap" where
  "do_segment_not_present K = die K ''segment not present''"

definition do_stack_segment :: "'z tty_state_scheme trap" where
  "do_stack_segment K = die K ''stack segment''"

definition do_reserved :: "'z tty_state_scheme trap" where
  "do_reserved K = die K ''reserved (15,17-47) error''"

section \<open>Coprocessor and panic\<close>

abbreviation (input) SIGFPE :: nat where "SIGFPE \<equiv> 8"

text \<open>The two bytes of the instruction are read through \<open>fs\<close>; the result is the \<open>eip\<close> after them.\<close>

definition math_emulate :: "u32 \<Rightarrow> u16 \<Rightarrow> (u32, 'z sched_state_scheme) kern" where
  "math_emulate eip cs =
     kseq (kwhen (cs \<noteq> 0x000F)
            (kseq (printk ''math_emulate: %04x:%08x'' [uint cs, uint eip]) (kpanic ''Math emulation needed in kernel'')))
    (kbind (get_fs_byte eip) (\<lambda>first.
     kbind (get_fs_byte (eip + 1)) (\<lambda>second.
     kseq (printk ''%04x:%08x %02x %02x'' [uint cs, uint eip, uint first, uint second])
    (kseq (upd_cur (\<lambda>t. t\<lparr>t_signal := t_signal t OR S_bit SIGFPE\<rparr>))
          (ret (eip + 2))))))"

definition math_error :: "(unit, 'z sched_state_scheme) kern" where
  "math_error =
     kbind (gets last_task_used_math) (\<lambda>p.
     kwhen (p \<noteq> 0) (modify (upd_task p (\<lambda>t. t\<lparr>t_signal := t_signal t OR S_bit SIGFPE\<rparr>))))"

text \<open>What \<open>panic\<close> does before it loops for ever; where other code calls it, the outcome is \<open>Panic\<close>.\<close>

definition panic :: "'z fs_state_scheme ctx \<Rightarrow> string \<Rightarrow> ('a, 'z fs_state_scheme) kern" where
  "panic K str =
     kseq (printk (''Kernel panic: '' @ str) [])
    (kbind (gets (\<lambda>s. current s = task s ! 0)) (\<lambda>swapper.
     kseq (if swapper then printk ''In swapper task - not syncing'' [] else kbind (sys_sync K) (\<lambda>_. skip))
          kloops))"

section \<open>The clock\<close>

definition CMOS_READ :: "u8 \<Rightarrow> (int, 'z io_state_scheme) kern" where
  "CMOS_READ addr = kseq (outb (0x80 OR addr) 0x70) (kbind (inb_dev 0x71) (\<lambda>v. ret (uint v)))"

definition BCD_TO_BIN :: "int \<Rightarrow> int" where
  "BCD_TO_BIN val = (val AND 15) + drop_bit 4 val * 10"

text \<open>A pass reads the six registers and then the seconds again.\<close>

definition cmos_pass :: "(tm \<times> int, 'z io_state_scheme) kern" where
  "cmos_pass =
     kbind (CMOS_READ 0) (\<lambda>sec.
     kbind (CMOS_READ 2) (\<lambda>min.
     kbind (CMOS_READ 4) (\<lambda>hour.
     kbind (CMOS_READ 7) (\<lambda>mday.
     kbind (CMOS_READ 8) (\<lambda>mon.
     kbind (CMOS_READ 9) (\<lambda>year.
     kbind (CMOS_READ 0) (\<lambda>again.
     ret (\<lparr>tm_sec = sec, tm_min = min, tm_hour = hour, tm_mday = mday, tm_mon = mon, tm_year = year\<rparr>, again))))))))"

primrec cmos_loop :: "nat \<Rightarrow> (tm, 'z io_state_scheme) kern" where
  "cmos_loop 0 = kloops"
| "cmos_loop (Suc fuel) =
     kbind cmos_pass (\<lambda>(t, again). if tm_sec t \<noteq> again then cmos_loop fuel else ret t)"

definition bcd_time :: "tm \<Rightarrow> tm" where
  "bcd_time t = \<lparr>tm_sec = BCD_TO_BIN (tm_sec t), tm_min = BCD_TO_BIN (tm_min t), tm_hour = BCD_TO_BIN (tm_hour t),
     tm_mday = BCD_TO_BIN (tm_mday t), tm_mon = BCD_TO_BIN (tm_mon t) - 1, tm_year = BCD_TO_BIN (tm_year t)\<rparr>"

definition time_init :: "nat \<Rightarrow> (unit, 'z io_state_scheme) kern" where
  "time_init fuel =
     kbind (cmos_loop fuel) (\<lambda>t. modify (\<lambda>s. s\<lparr>startup_time := kernel_mktime (bcd_time t)\<rparr>))"

section \<open>The division of memory\<close>



section \<open>Start-up is sound\<close>

lemma BCD_TO_BIN_digits:
  assumes "0 \<le> a" and "a < 10" and "0 \<le> b" and "b < 10"
  shows "BCD_TO_BIN (16 * a + b) = 10 * a + b"
proof -
  have "(16 * a + b) AND 15 = (16 * a + b) mod 16"
    using take_bit_eq_mask [of 4 "16 * a + b"] by (simp add: take_bit_eq_mod mask_eq_exp_minus_1)
  moreover have "drop_bit 4 (16 * a + b) = (16 * a + b) div 16" by (simp add: drop_bit_eq_div)
  ultimately show ?thesis using assms by (simp add: BCD_TO_BIN_def)
qed

text \<open>When the seconds have not changed during a pass, the pass is the last one and its time is taken.\<close>

lemma time_init_run:
  assumes "io_in s (io_count s + 6) 0x71 = io_in s (io_count s) 0x71"
  shows "\<exists>t. time_init (Suc fuel) s es = Ok () t es \<and> io_count t = io_count s + 7 \<and>
    startup_time t = kernel_mktime (bcd_time
      \<lparr>tm_sec = uint (io_in s (io_count s) 0x71), tm_min = uint (io_in s (io_count s + 1) 0x71),
       tm_hour = uint (io_in s (io_count s + 2) 0x71), tm_mday = uint (io_in s (io_count s + 3) 0x71),
       tm_mon = uint (io_in s (io_count s + 4) 0x71), tm_year = uint (io_in s (io_count s + 5) 0x71)\<rparr>)"
  using assms
  by (simp add: time_init_def cmos_pass_def CMOS_READ_def inb_dev_def outb_def kern_defs eval_nat_numeral)







end
