(* ===== verification/Syscalls.thy ===== *)
theory Syscalls
  imports K_Prelude
begin

text \<open>
  The system call interface: the table of \<^verbatim>\<open>include/linux/sys.h\<close>, the numbers and the calling
  macros of \<^verbatim>\<open>include/unistd.h\<close>, the dispatch of \<^verbatim>\<open>kernel/system_call.s\<close> and the
  stubs of \<^verbatim>\<open>lib/\<close> that programs are linked with.

  A function of the kernel is its name; the parameter \<open>kfn\<close> says what calling the function of a name with
  the three argument registers does. Registers a stub does not set hold what they held, \<open>junk\<close>. A
  program's state is its \<open>errno\<close>.
\<close>

section \<open>Tables\<close>

definition sys_call_table :: "string list" where
  "sys_call_table = [
      ''sys_setup'', ''sys_exit'', ''sys_fork'', ''sys_read'', ''sys_write'', ''sys_open'', ''sys_close'',
      ''sys_waitpid'', ''sys_creat'', ''sys_link'', ''sys_unlink'', ''sys_execve'', ''sys_chdir'',
      ''sys_time'', ''sys_mknod'', ''sys_chmod'', ''sys_chown'', ''sys_break'', ''sys_stat'', ''sys_lseek'',
      ''sys_getpid'', ''sys_mount'', ''sys_umount'', ''sys_setuid'', ''sys_getuid'', ''sys_stime'',
      ''sys_ptrace'', ''sys_alarm'', ''sys_fstat'', ''sys_pause'', ''sys_utime'', ''sys_stty'', ''sys_gtty'',
      ''sys_access'', ''sys_nice'', ''sys_ftime'', ''sys_sync'', ''sys_kill'', ''sys_rename'', ''sys_mkdir'',
      ''sys_rmdir'', ''sys_dup'', ''sys_pipe'', ''sys_times'', ''sys_prof'', ''sys_brk'', ''sys_setgid'',
      ''sys_getgid'', ''sys_signal'', ''sys_geteuid'', ''sys_getegid'', ''sys_acct'', ''sys_phys'',
      ''sys_lock'', ''sys_ioctl'', ''sys_fcntl'', ''sys_mpx'', ''sys_setpgid'', ''sys_ulimit'',
      ''sys_uname'', ''sys_umask'', ''sys_chroot'', ''sys_ustat'', ''sys_dup2'', ''sys_getppid'',
      ''sys_getpgrp'', ''sys_setsid'', ''sys_sigaction'', ''sys_sgetmask'', ''sys_ssetmask'',
      ''sys_setreuid'', ''sys_setregid'']"

definition NR_table :: "(string \<times> nat) list" where
  "NR_table = [
      (''setup'', 0), (''exit'', 1), (''fork'', 2), (''read'', 3), (''write'', 4), (''open'', 5),
      (''close'', 6), (''waitpid'', 7), (''creat'', 8), (''link'', 9), (''unlink'', 10), (''execve'', 11),
      (''chdir'', 12), (''time'', 13), (''mknod'', 14), (''chmod'', 15), (''chown'', 16), (''break'', 17),
      (''stat'', 18), (''lseek'', 19), (''getpid'', 20), (''mount'', 21), (''umount'', 22), (''setuid'', 23),
      (''getuid'', 24), (''stime'', 25), (''ptrace'', 26), (''alarm'', 27), (''fstat'', 28), (''pause'', 29),
      (''utime'', 30), (''stty'', 31), (''gtty'', 32), (''access'', 33), (''nice'', 34), (''ftime'', 35),
      (''sync'', 36), (''kill'', 37), (''rename'', 38), (''mkdir'', 39), (''rmdir'', 40), (''dup'', 41),
      (''pipe'', 42), (''times'', 43), (''prof'', 44), (''brk'', 45), (''setgid'', 46), (''getgid'', 47),
      (''signal'', 48), (''geteuid'', 49), (''getegid'', 50), (''acct'', 51), (''phys'', 52), (''lock'', 53),
      (''ioctl'', 54), (''fcntl'', 55), (''mpx'', 56), (''setpgid'', 57), (''ulimit'', 58), (''uname'', 59),
      (''umask'', 60), (''chroot'', 61), (''ustat'', 62), (''dup2'', 63), (''getppid'', 64),
      (''getpgrp'', 65), (''setsid'', 66), (''sigaction'', 67), (''sgetmask'', 68), (''ssetmask'', 69),
      (''setreuid'', 70), (''setregid'', 71)]"

text \<open>\<open>__NR_name\<close>.\<close>

definition NR :: "string \<Rightarrow> u32" where
  "NR name = (case map_of NR_table name of None \<Rightarrow> 0 | Some k \<Rightarrow> of_nat k)"

section \<open>Entering the kernel\<close>

type_synonym kernel_fn = "string \<Rightarrow> u32 \<times> u32 \<times> u32 \<Rightarrow> int"

abbreviation (input) nr_system_calls :: u32 where "nr_system_calls \<equiv> 72"

text \<open>\<^verbatim>\<open>int $0x80\<close>: a number outside the table gives -1.\<close>

definition system_call :: "kernel_fn \<Rightarrow> u32 \<Rightarrow> u32 \<times> u32 \<times> u32 \<Rightarrow> int" where
  "system_call kfn eax args =
     (if eax > nr_system_calls - 1 then - 1 else kfn (sys_call_table ! unat eax) args)"

text \<open>What every stub makes of the result: a negative one is an error number.\<close>

definition sys_return :: "int \<Rightarrow> int \<Rightarrow> int \<times> int" where
  "sys_return res errno = (if res \<ge> 0 then (res, errno) else (- 1, - res))"

definition syscall0 :: "kernel_fn \<Rightarrow> u32 \<times> u32 \<times> u32 \<Rightarrow> string \<Rightarrow> int \<Rightarrow> int \<times> int" where
  "syscall0 kfn junk name = sys_return (system_call kfn (NR name) junk)"

definition syscall1 :: "kernel_fn \<Rightarrow> u32 \<times> u32 \<times> u32 \<Rightarrow> string \<Rightarrow> u32 \<Rightarrow> int \<Rightarrow> int \<times> int" where
  "syscall1 kfn junk name a = sys_return (system_call kfn (NR name) (a, snd junk))"

definition syscall2 :: "kernel_fn \<Rightarrow> u32 \<times> u32 \<times> u32 \<Rightarrow> string \<Rightarrow> u32 \<Rightarrow> u32 \<Rightarrow> int \<Rightarrow> int \<times> int" where
  "syscall2 kfn junk name a b = sys_return (system_call kfn (NR name) (a, b, snd (snd junk)))"

definition syscall3 :: "kernel_fn \<Rightarrow> string \<Rightarrow> u32 \<Rightarrow> u32 \<Rightarrow> u32 \<Rightarrow> int \<Rightarrow> int \<times> int" where
  "syscall3 kfn name a b c = sys_return (system_call kfn (NR name) (a, b, c))"

section \<open>The stubs\<close>

definition lib_close :: "kernel_fn \<Rightarrow> u32 \<times> u32 \<times> u32 \<Rightarrow> u32 \<Rightarrow> int \<Rightarrow> int \<times> int" where
  "lib_close kfn junk fd = syscall1 kfn junk ''close'' fd"

definition lib_dup :: "kernel_fn \<Rightarrow> u32 \<times> u32 \<times> u32 \<Rightarrow> u32 \<Rightarrow> int \<Rightarrow> int \<times> int" where
  "lib_dup kfn junk fd = syscall1 kfn junk ''dup'' fd"

definition lib_execve :: "kernel_fn \<Rightarrow> u32 \<Rightarrow> u32 \<Rightarrow> u32 \<Rightarrow> int \<Rightarrow> int \<times> int" where
  "lib_execve kfn f argv envp = syscall3 kfn ''execve'' f argv envp"

definition lib_setsid :: "kernel_fn \<Rightarrow> u32 \<times> u32 \<times> u32 \<Rightarrow> int \<Rightarrow> int \<times> int" where
  "lib_setsid kfn junk = syscall0 kfn junk ''setsid''"

definition lib_write :: "kernel_fn \<Rightarrow> u32 \<Rightarrow> u32 \<Rightarrow> u32 \<Rightarrow> int \<Rightarrow> int \<times> int" where
  "lib_write kfn fd buf count = syscall3 kfn ''write'' fd buf count"

definition lib_waitpid :: "kernel_fn \<Rightarrow> u32 \<Rightarrow> u32 \<Rightarrow> u32 \<Rightarrow> int \<Rightarrow> int \<times> int" where
  "lib_waitpid kfn pid wait_stat options = syscall3 kfn ''waitpid'' pid wait_stat options"

definition lib_wait :: "kernel_fn \<Rightarrow> u32 \<Rightarrow> int \<Rightarrow> int \<times> int" where
  "lib_wait kfn wait_stat = lib_waitpid kfn (- 1) wait_stat 0"

definition lib_open :: "kernel_fn \<Rightarrow> u32 \<Rightarrow> u32 \<Rightarrow> u32 \<Rightarrow> int \<Rightarrow> int \<times> int" where
  "lib_open kfn filename flag arg errno =
     (let res = system_call kfn (NR ''open'') (filename, flag, arg) in
      if res \<ge> 0 then (res, errno) else (- 1, - res))"

text \<open>\<open>_exit\<close> does not return; its value is the call it makes.\<close>

definition lib_exit :: "kernel_fn \<Rightarrow> u32 \<times> u32 \<times> u32 \<Rightarrow> u32 \<Rightarrow> int" where
  "lib_exit kfn junk exit_code = system_call kfn (NR ''exit'') (exit_code, snd junk)"

section \<open>Numbers and table agree\<close>

lemma sys_call_table_length: "length sys_call_table = 72"
  by (simp add: sys_call_table_def)

lemma NR_table_rows: "map (\<lambda>(name, k). ''sys_'' @ name) NR_table = sys_call_table" "map snd NR_table = [0..<72]"
  by (simp_all add: sys_call_table_def NR_table_def upt_rec)

lemma NR_table_distinct: "distinct (map fst NR_table)"
  by (simp add: NR_table_def)

lemma system_call_NR:
  assumes "map_of NR_table name = Some k"
  shows "system_call kfn (NR name) args = kfn (''sys_'' @ name) args"
proof -
  have len: "length NR_table = 72" using arg_cong [OF NR_table_rows(2), of length] by simp
  obtain i where i: "i < 72" "NR_table ! i = (name, k)"
    using map_of_SomeD [OF assms] len by (metis in_set_conv_nth)
  have "k = i" using arg_cong [OF NR_table_rows(2), of "\<lambda>xs. xs ! i"] i len by simp
  moreover have "sys_call_table ! i = ''sys_'' @ name"
    using arg_cong [OF NR_table_rows(1), of "\<lambda>xs. xs ! i"] i len by simp
  moreover have "unat (of_nat i :: u32) = i" using i by (simp add: unat_of_nat)
  ultimately show ?thesis
    using assms i by (simp add: system_call_def NR_def word_less_nat_alt)
qed

text \<open>C40: the numbers a program uses and the table of the kernel agree. The number of every call is the place of the
  function with its name, every place of the table has a number, and so each stub of the library calls the
  function it is named after with its arguments, and reports a negative result as -1 with the error in \<open>errno\<close>.\<close>

theorem library_calls_kernel:
  "list_all (\<lambda>(name, k). system_call kfn (of_nat k) args = kfn (''sys_'' @ name) args) NR_table \<and>
   map (\<lambda>(name, k). ''sys_'' @ name) NR_table = sys_call_table \<and> distinct sys_call_table \<and>
   lib_close kfn junk a e = sys_return (kfn ''sys_close'' (a, snd junk)) e \<and>
   lib_dup kfn junk a e = sys_return (kfn ''sys_dup'' (a, snd junk)) e \<and>
   lib_execve kfn a b c e = sys_return (kfn ''sys_execve'' (a, b, c)) e \<and>
   lib_setsid kfn junk e = sys_return (kfn ''sys_setsid'' junk) e \<and>
   lib_write kfn a b c e = sys_return (kfn ''sys_write'' (a, b, c)) e \<and>
   lib_wait kfn a e = sys_return (kfn ''sys_waitpid'' (- 1, a, 0)) e \<and>
   lib_open kfn a b c e = sys_return (kfn ''sys_open'' (a, b, c)) e \<and>
   lib_exit kfn junk a = kfn ''sys_exit'' (a, snd junk)"
proof -
  have row: "system_call kfn (of_nat k) args = kfn (''sys_'' @ name) args" if "(name, k) \<in> set NR_table" for name k
  proof -
    have "map_of NR_table name = Some k" using that NR_table_distinct by simp
    from system_call_NR [OF this] this show ?thesis by (simp add: NR_def)
  qed
  have stub: "system_call kfn (NR name) xs = kfn (''sys_'' @ name) xs" if "map_of NR_table name \<noteq> None" for name xs
    using that system_call_NR by blast
  have names: "map_of NR_table name \<noteq> None"
    if "name \<in> {''close'', ''dup'', ''execve'', ''setsid'', ''write'', ''waitpid'', ''open'', ''exit''}" for name
    using that by (auto simp: NR_table_def)
  have "distinct sys_call_table" by (simp add: sys_call_table_def)
  moreover have "list_all (\<lambda>(name, k). system_call kfn (of_nat k) args = kfn (''sys_'' @ name) args) NR_table"
    using row by (auto simp: list_all_iff)
  ultimately show ?thesis
    using NR_table_rows(1) names
    by (simp add: lib_close_def lib_dup_def lib_execve_def lib_setsid_def lib_write_def lib_wait_def
        lib_waitpid_def lib_open_def lib_exit_def syscall0_def syscall1_def syscall3_def stub sys_return_def Let_def)
qed

end
