(* ===== verification/Spec2Isabelle.thy ===== *)
theory Spec2Isabelle
  imports Directory Wakeup Blk_io Exec Vt Floppy Malloc Vsprintf Startup Syscalls
begin

text \<open>
  A verification development of the Linux 0.11 kernel: its memory manager, scheduler, buffer cache,
  file system, drivers, terminals, processes and program loader, and the library functions it
  and its programs are built with. Paths below are relative to \<^verbatim>\<open>src/\<close>.

  \<^bold>\<open>The model.\<close> Kernel code is written in the monad of \<open>K_Prelude\<close>: an operation takes the kernel state and a
  list of interferences and ends in an \<open>outcome\<close>. It returns (\<open>Ok\<close>), stops the machine (\<open>Panic\<close>), ends its task
  (\<open>Exit\<close>), sleeps for ever (\<open>Asleep\<close>), goes through a NULL pointer or leaves an array (\<open>Fault\<close>), or has used up the
  fuel of a loop that need not end (\<open>Loops\<close>). This kernel does not preempt kernel code: other tasks and
  interrupt handlers change the state only while the running task sleeps. An element of the list is what
  they do during one sleep, and the sleep consumes it; a theorem for every list, or for every list that conforms to a
  relation, holds whatever the others do within it. \<open>triple\<close> is partial correctness under such a relation,
  \<open>quiet\<close> total correctness without sleeping, \<open>keeps\<close> preservation of an invariant.

  The state is a tower of records, each component adding its variables to those of the components it calls: \<open>mm_state\<close>
  (memory), \<open>sched_state\<close> (tasks, timers, descriptors, ports), \<open>blk_state\<close> (buffers and requests), \<open>fs_state\<close> (inodes,
  super blocks, files), and above it \<open>tty_state\<close> and \<open>con_state\<close> on one side, \<open>io_state\<close> with \<open>hd_state\<close>
  and \<open>fd_state\<close> on the other. Operations are polymorphic in what is above. A table is a list, a pointer into it the
  position or \<open>None\<close> for NULL; kernel memory reached by raw addresses (page tables, pipe pages, argument pages) is a
  function from addresses to longs; a task structure is found by the address of its page. Integers are words
  where the code relies on their width and \<open>int\<close> elsewhere. A call through a function pointer is a call of a parameter
  with the number of the function; the drivers are what the parameter is used with. Reading through NULL is \<open>Fault\<close>, although page 0 is mapped in the
  kernel and the code would go on with what is there; the stores of \<open>insert_into_queues\<close> through NULL are modelled as the stores they are.
  The counters of the scheduler and the widths and precisions of a format are unbounded.

  \<^bold>\<open>Theories.\<close>
  \<^item> \<open>K_Prelude\<close>: integer types, outcomes, monad, loops, triples, arrays. \<open>Ring\<close>: rings and list segments of
    pointers, the ring buffer, and the locale \<open>fifo\<close>, the contract of a first-in first-out store.
  \<^item> \<open>Memory\<close> (mm/memory.c): pages and their use counts, page tables, copy on write.
  \<^item> \<open>Sched\<close> (kernel/sched.c, include/linux/sched.h, include/asm): task selection, sleeping and waking, timers, floppy
    motors, segment descriptors, user memory; and the locale \<open>waiting\<close>, what a client may conclude from a loop that
    sleeps until a lock is free when the other tasks keep an invariant.
  \<^item> \<open>Sleep\<close> (\<open>sleep_on\<close>, \<open>interruptible_sleep_on\<close>, \<open>wake_up_last\<close> of kernel/sched.c): the two halves of the functions, before and after the call of
    \<open>schedule\<close>, as steps of interleaved tasks, and the locale \<open>wait_queue\<close>, a queue that is a variable of its own. \<open>Wakeup\<close> interprets it on
    the queues of buffers, inodes, super blocks, requests, motors and terminals.
  \<^item> \<open>Blk\<close> (kernel/blk_drv/blk.h, ll_rw_blk.c, ramdisk.c), \<open>Hd\<close> (hd.c, rd_load), \<open>Floppy\<close> (floppy.c): requests and drivers.
    \<open>Blk_io\<close>: the locale \<open>block_driver\<close>, what the block layer relies on in a driver, interpreted on the ram disk. A polled port gives a new answer at every reading, \<open>io_in\<close>.
  \<^item> \<open>Buffer\<close> (fs/buffer.c), \<open>Cache\<close> (the invariant of its queues; \<open>waiting\<close> interpreted with it), \<open>Fs_cache\<close> (the cache under the
    file system).
  \<^item> \<open>Inode\<close>, \<open>Itable\<close> (fs/inode.c, bitmap.c, super.c, truncate.c), \<open>Files\<close> (read_write.c, file_dev.c, block_dev.c, char_dev.c, pipe.c;
    \<open>fifo\<close> interpreted on pipes), \<open>File_io\<close> and \<open>File_write\<close> (reading and writing a file, from the
    system call to the buffers, the latter with a file as a length and bytes as the specification), \<open>Alloc\<close> (the bitmaps
    of a mounted device), \<open>Inode_io\<close> (the inodes on the disk), \<open>Namei\<close> (namei.c), \<open>Directory\<close> (a directory as a map from names to inode numbers), \<open>Open\<close> (open.c, fcntl.c, ioctl.c, stat.c), \<open>Exec\<close> (exec.c).
  \<^item> \<open>Tty\<close> (kernel/chr_drv/tty_io.c, tty_ioctl.c, serial.c, lib/ctype.c; \<open>fifo\<close> interpreted on terminal queues), \<open>Console\<close> (console.c)
    and \<open>Vt\<close>, its invariant.
  \<^item> \<open>Proc\<close> (kernel/fork.c, exit.c, signal.c, sys.c and the gates of traps.c), \<open>Fork\<close> (fork as a whole, over the
    locality of memory management), \<open>Startup\<close> (traps.c, math_emulate.c, panic.c, the clock and the
    division of memory of init/main.c), \<open>Mktime\<close> (mktime.c), \<open>Syscalls\<close> (include/linux/sys.h, include/unistd.h, the dispatch of
    system_call.s, the stubs of lib/).
  \<^item> \<open>Kstring\<close> (include/string.h), \<open>Vsprintf\<close> (kernel/vsprintf.c), \<open>Malloc\<close> (lib/malloc.c).

  \<^bold>\<open>What is shown.\<close>
  \<^item> Memory: which page an allocation takes; every branch of a release; copy on write gives a private page with the old
    contents; sharing a page table and dropping the copy leaves every count; the memory the machine starts with is divided
    so that \<open>mem_init\<close> stays in its table.
  \<^item> Tasks: the selection loop ends and chooses by counter; a waiting loop returns only with the lock off; no task that
    sleeps on a queue is lost and a wake-up reaches all of them, but \<open>interruptible_sleep_on\<close> can lose one; the timer list
    is kept sorted, with the late timers of one case; process numbers are fresh and the search for one ends; fork gives a runnable child that
    shares files and inodes, with every use count right; SIGKILL cannot be
    refused by mask or handler, but can be blocked by the mask of a handler; no number of a user or group is gained.
  \<^item> Blocks: a block has one buffer, whatever happens during sleeps; the elevator turns back at most once; a request entry is
    free when it is taken; the ram disk and the hard disk move the right bytes to and from the right place; a block written to the
    ram disk through the block layer is read back and no other changes; the failure of the last
    request makes the driver read through NULL.
  \<^item> Files: a read returns the bytes of the file, through direct, indirect and doubly indirect blocks and holes, and a write to
    blocks the file has changes those bytes of it and nothing else; a new block is the one of the lowest free
    bit, comes zeroed, and giving it back restores the bitmap; an inode that is written to its place on the disk
    is read back from there and no other changes; entering a name updates the map that a directory is; pipes are
    first-in first-out, duplicated descriptors are lowest, and duplicating,
    closing and forking keep every use count right, arguments arrive intact in the new program.
  \<^item> Terminals: queues are first-in first-out; the console keeps its cursor and writes only to its memory, whatever is printed.
  \<^item> Library: \<open>memmove\<close> and \<open>strstr\<close>, number printing, the allocator, the calendar, the system call numbers, the descriptor macros.

  \<^bold>\<open>Bounds and fuel.\<close> A walk along a chain of a table gets one step more than the table has entries: one that is longer is on a cycle.
  A loop that sleeps gets one pass more than there are interferences, as each pass but the last consumes one. The search for a process number
  gets 65 candidates, of which 64 tasks cannot take all. Polling loops have the bounds of the code (100000, 10000, 3000).
  Loops that end only at a NUL or a null pointer of user memory, or that the hardware has to end, take their fuel as an argument, and
  the theorems say how much is enough.

  \<^bold>\<open>Not modelled.\<close> The assembly of boot/, head.s, keyboard.S, rs_io.s, asm.s, page.s and of system_call.s beyond the dispatch: interrupt
  entry, register saving, task switching in hardware. The sequence of the init functions in \<open>main\<close>, the first user processes and \<open>printf\<close>:
  they need the states of all drivers at once, or run in user mode. The way of a \<open>printk\<close> text to the console: \<open>printk\<close> is a log
  here. The build tool under tools/. What page faults and demand loading put into a new program's memory is a parameter of the program loader.
\<close>

end
